(* ===== verification/Drm_Prelude.thy ===== *)
theory Drm_Prelude
  imports Main "HOL-Library.Word"
begin

text \<open>
  Shared vocabulary of the development: the widths of the C integer types on the amd64
  kernel, C pointers that may be \<open>NULL\<close>, the error numbers the DRM code returns, the result
  type of a fallible call, and the generic lemmas on words and lists that the component
  theories use. Nothing here models a particular source file.
\<close>

unbundle bit_operations_syntax

type_synonym u8 = "8 word"
type_synonym u16 = "16 word"
type_synonym u32 = "32 word"
type_synonym u64 = "64 word"

text \<open>A \<open>void *\<close> or object pointer: \<open>None\<close> is \<open>NULL\<close>.\<close>

type_synonym 'o ptr = "'o option"

text \<open>
  The error numbers of \<open>sys/errno.h\<close> that the modelled functions return, negated, and two
  more ways to stop. \<open>EPERM\<close> is the number 1, so it is also the plain \<open>-1\<close> of the id
  allocators. \<open>BUG\<close> is a failed \<open>ASSERT\<close>/\<open>BUG_ON\<close>: the debug kernel panics there.
\<close>

datatype errno =
    EPERM | ENOENT | EINTR | EIO | ENXIO | EAGAIN | ENOMEM | EACCES | EFAULT | EBUSY
  | EEXIST | ENODEV | EINVAL | ENOSPC | ERANGE | ENOTSUP | EPROTO | BUG

type_synonym 'a result = "errno + 'a"

subsection \<open>Collections\<close>

named_theorems drm_splits \<open>case splits of the result types\<close>

declare sum.splits [drm_splits] option.splits [drm_splits]
  prod.splits [drm_splits] if_splits [drm_splits]

subsection \<open>Words\<close>

lemma unat_plus_one:
  fixes y :: "'a::len word"
  assumes "y < z"
  shows "unat (y + 1) = Suc (unat y)"
proof -
  have "unat y + 1 \<le> unat z"
    using assms by (simp add: word_less_nat_alt)
  also have "unat z < 2 ^ LENGTH('a)"
    by simp
  finally have "unat y + 1 < 2 ^ LENGTH('a)" .
  then show ?thesis by (simp add: unat_word_ariths)
qed

lemma word_less_plus_one:
  fixes x y :: "'a::len word"
  assumes "y < z"
  shows "x < y + 1 \<longleftrightarrow> x \<le> y"
  using unat_plus_one [OF assms] by (simp add: word_less_nat_alt word_le_nat_alt less_Suc_eq_le)

lemma word_plus_one_le:
  fixes y z :: "'a::len word"
  assumes "y < z"
  shows "y + 1 \<le> z"
  using assms by (simp add: inc_le)

lemma unat_add_nowrap:
  fixes x y :: "'a::len word"
  assumes "unat x + unat y < 2 ^ LENGTH('a)"
  shows "unat (x + y) = unat x + unat y"
  using assms by (simp add: unat_word_ariths)

lemma unat_sub_le:
  fixes x y :: "'a::len word"
  assumes "y \<le> x"
  shows "unat (x - y) = unat x - unat y"
  using assms by (simp add: unat_sub)

lemma unat_u32_less: "unat (x :: u32) < 4294967296"
proof -
  have "unat x < 2 ^ LENGTH(32)" by (rule unsigned_less)
  then show ?thesis by simp
qed

lemma unat_u64_less: "unat (x :: u64) < 18446744073709551616"
proof -
  have "unat x < 2 ^ LENGTH(64)" by (rule unsigned_less)
  then show ?thesis by simp
qed

lemma unat_ucast_u32_u64: "unat (ucast (x :: u32) :: u64) = unat x"
  using unat_u32_less [of x] by (simp add: unsigned_ucast_eq take_bit_nat_eq_self)

text \<open>A signed read of a word below the sign bit is its unsigned value.\<close>

lemma sint_nonneg_iff:
  fixes x :: u32
  shows "0 \<le> sint x \<longleftrightarrow> x \<le> 0x7FFFFFFF"
proof -
  have div: "odd (u div 2147483648) \<longleftrightarrow> 2147483648 \<le> u" if "0 \<le> u" "u < 4294967296" for u :: int
  proof (cases "u < 2147483648")
    case True
    with that show ?thesis by simp
  next
    case False
    with that have "u div 2147483648 = 1"
      using int_div_pos_eq [of u 2147483648 1 "u - 2147483648"] by simp
    with False show ?thesis by simp
  qed
  have "bit x 31 \<longleftrightarrow> odd (uint x div 2147483648)"
    using bit_uint_iff [of x 31] by (simp add: bit_iff_odd)
  then have "bit x 31 \<longleftrightarrow> 2147483648 \<le> uint x"
    using div [of "uint x"] uint_bounded [of x] by simp
  moreover have "bit x 31 \<longleftrightarrow> sint x < 0"
    using bit_last_iff [of x] by simp
  ultimately show ?thesis
    by (auto simp add: word_le_def)
qed

subsection \<open>Lists\<close>

lemma length_filter_eq_iff: "length (filter P xs) = length xs \<longleftrightarrow> (\<forall>x \<in> set xs. P x)"
proof
  assume "length (filter P xs) = length xs"
  then show "\<forall>x \<in> set xs. P x" using length_filter_less [of _ xs P] by (metis less_irrefl)
qed (simp add: filter_True)

lemma sum_list_upd:
  fixes xs :: "'a::ab_group_add list"
  shows "k < length xs \<Longrightarrow> sum_list (xs[k := x]) = sum_list xs + (x - xs ! k)"
  by (induction xs arbitrary: k) (auto simp: algebra_simps split: nat.splits)

text \<open>A fallible operation applied to the elements of a list in turn; the first failure stops.\<close>

fun fold_res :: "('x \<Rightarrow> 's \<Rightarrow> 's result) \<Rightarrow> 'x list \<Rightarrow> 's \<Rightarrow> 's result" where
  "fold_res f [] s = Inr s"
| "fold_res f (x # xs) s = (case f x s of Inl e \<Rightarrow> Inl e | Inr s' \<Rightarrow> fold_res f xs s')"

lemma fold_res_invariant:
  assumes "fold_res f xs s = Inr s'" "I s"
    and "\<And>x s s'. x \<in> set xs \<Longrightarrow> I s \<Longrightarrow> f x s = Inr s' \<Longrightarrow> I s'"
  shows "I s'"
  using assms by (induction f xs s rule: fold_res.induct) (auto split: sum.splits)

lemma fold_res_total:
  assumes "I s" and "\<And>x s. x \<in> set xs \<Longrightarrow> I s \<Longrightarrow> \<exists>s'. f x s = Inr s' \<and> I s'"
  shows "\<exists>s'. fold_res f xs s = Inr s' \<and> I s'"
  using assms
proof (induction xs arbitrary: s)
  case (Cons x xs)
  from Cons.prems(2) [of x s] Cons.prems(1) obtain s' where "f x s = Inr s'" "I s'" by auto
  with Cons.IH [of s'] Cons.prems(2) show ?case by simp
qed simp

text \<open>An invariant that speaks of the elements handled so far.\<close>

lemma fold_res_prefix:
  assumes "I ys s" and "\<And>ys x s. I ys s \<Longrightarrow> \<exists>s'. f x s = Inr s' \<and> I (ys @ [x]) s'"
  shows "\<exists>s'. fold_res f xs s = Inr s' \<and> I (ys @ xs) s'"
  using assms(1)
proof (induction xs arbitrary: ys s)
  case (Cons x xs)
  from assms(2) [OF Cons.prems, of x] obtain s' where s': "f x s = Inr s'" "I (ys @ [x]) s'" by auto
  from Cons.IH [OF s'(2)] s'(1) show ?case by simp
qed simp

subsection \<open>C's signed integers\<close>

text \<open>
  An \<open>int\<close> is an integer in range; the results of its arithmetic are wrapped to 32 bits, as the
  compilers used for the kernel do. \<open>cdiv\<close> is C's division, which rounds towards zero.
\<close>

definition INT_MAX :: int where "INT_MAX = 2147483647"

definition INT_MIN :: int where "INT_MIN = - 2147483648"

definition wrap32 :: "int \<Rightarrow> int" where "wrap32 k = signed_take_bit 31 k"

definition in_int :: "int \<Rightarrow> bool" where "in_int k \<longleftrightarrow> INT_MIN \<le> k \<and> k \<le> INT_MAX"

definition cdiv :: "int \<Rightarrow> int \<Rightarrow> int" where "cdiv a b = sgn a * sgn b * (\<bar>a\<bar> div \<bar>b\<bar>)"

definition cmod :: "int \<Rightarrow> int \<Rightarrow> int" where "cmod a b = a - cdiv a b * b"

lemma wrap32_id [simp]: "in_int k \<Longrightarrow> wrap32 k = k"
  by (simp add: wrap32_def in_int_def INT_MAX_def INT_MIN_def signed_take_bit_int_eq_self)

lemma in_int_wrap32 [simp]: "in_int (wrap32 k)"
  using signed_take_bit_int_less_exp [of 31 k] signed_take_bit_int_greater_eq_minus_exp [of 31 k]
  by (simp add: wrap32_def in_int_def INT_MAX_def INT_MIN_def)

lemma cdiv_nonneg: "0 \<le> a \<Longrightarrow> 0 \<le> b \<Longrightarrow> cdiv a b = a div b"
  by (cases "a = 0"; cases "b = 0") (simp_all add: cdiv_def)

lemma in_int_between: "in_int a \<Longrightarrow> in_int b \<Longrightarrow> a \<le> k \<Longrightarrow> k \<le> b \<Longrightarrow> in_int k"
  by (simp add: in_int_def)

lemma int_div_bounds:
  fixes s d :: int
  assumes "0 < d"
  shows "s div d * d \<le> s" "s < (s div d + 1) * d"
proof -
  have "s div d * d + s mod d = s" by simp
  moreover have "0 \<le> s mod d" "s mod d < d" using assms by simp_all
  moreover have "(s div d + 1) * d = s div d * d + d" by (simp add: distrib_right)
  ultimately show "s div d * d \<le> s" "s < (s div d + 1) * d" by linarith+
qed

subsection \<open>Results\<close>

text \<open>A chain of fallible calls that succeeds: every call has succeeded.\<close>

lemma result_bindE:
  assumes "(case r of Inl e \<Rightarrow> Inl e | Inr x \<Rightarrow> g x) = Inr y"
  obtains x where "r = Inr x" "g x = Inr y"
  using assms by (cases r) auto

end
