(* ===== verification/Id_Map.thy ===== *)
theory Id_Map
  imports Drm_Prelude
begin

text \<open>
  The interface through which the DRM code keeps objects under 32-bit ids: a store that can be
  looked up, extended by a new id and shrunk by an existing one. The object table of a GEM file
  (the hash buckets of \<open>idr_list\<close>) provides it; the tree of used ids that the id allocator
  keeps is required to provide it. Clients reason with the laws only.
\<close>

datatype 'o id_op = Add u32 'o | Remove u32

text \<open>What a run of additions and removals means, on partial maps.\<close>

fun map_run :: "(u32 \<Rightarrow> 'o option) \<Rightarrow> 'o id_op list \<Rightarrow> (u32 \<Rightarrow> 'o option)" where
  "map_run m [] = m"
| "map_run m (Add i x # ops) = map_run (m(i := Some x)) ops"
| "map_run m (Remove i # ops) = map_run (m(i := None)) ops"

text \<open>The protocol a client follows: new ids are unused, removed ids are present.\<close>

fun legal_run :: "(u32 \<Rightarrow> 'o option) \<Rightarrow> 'o id_op list \<Rightarrow> bool" where
  "legal_run m [] = True"
| "legal_run m (Add i x # ops) = (m i = None \<and> legal_run (m(i := Some x)) ops)"
| "legal_run m (Remove i # ops) = (m i \<noteq> None \<and> legal_run (m(i := None)) ops)"

locale id_map =
  fixes empty :: "'s"
    and lookup :: "'s \<Rightarrow> u32 \<Rightarrow> 'o option"
    and add :: "'s \<Rightarrow> u32 \<Rightarrow> 'o \<Rightarrow> 's"
    and remove :: "'s \<Rightarrow> u32 \<Rightarrow> 's"
    and invar :: "'s \<Rightarrow> bool"
  assumes lookup_empty: "lookup empty i = None"
    and lookup_add: "invar s \<Longrightarrow> lookup s i = None \<Longrightarrow> lookup (add s i x) = (lookup s)(i := Some x)"
    and lookup_remove: "invar s \<Longrightarrow> lookup s i \<noteq> None \<Longrightarrow> lookup (remove s i) = (lookup s)(i := None)"
    and invar_empty: "invar empty"
    and invar_add: "invar s \<Longrightarrow> lookup s i = None \<Longrightarrow> invar (add s i x)"
    and invar_remove: "invar s \<Longrightarrow> lookup s i \<noteq> None \<Longrightarrow> invar (remove s i)"
begin

lemma dom_lookup_add:
  "invar s \<Longrightarrow> lookup s i = None \<Longrightarrow> dom (lookup (add s i x)) = insert i (dom (lookup s))"
  by (simp add: lookup_add)

lemma dom_lookup_remove:
  "invar s \<Longrightarrow> lookup s i \<noteq> None \<Longrightarrow> dom (lookup (remove s i)) = dom (lookup s) - {i}"
  by (simp add: lookup_remove)

text \<open>Adding an id and removing it again gives back the same lookups.\<close>

lemma add_remove_id:
  assumes "invar s" and "lookup s i = None"
  shows "lookup (remove (add s i x) i) = lookup s"
  using assms by (simp add: lookup_remove lookup_add invar_add fun_upd_idem)

fun run :: "'s \<Rightarrow> 'o id_op list \<Rightarrow> 's" where
  "run s [] = s"
| "run s (Add i x # ops) = run (add s i x) ops"
| "run s (Remove i # ops) = run (remove s i) ops"

text \<open>Any legal run of operations refines the same run on a partial map.\<close>

lemma run_refines:
  assumes "invar s" and "legal_run (lookup s) ops"
  shows "invar (run s ops) \<and> lookup (run s ops) = map_run (lookup s) ops"
  using assms
proof (induction ops arbitrary: s rule: list.induct)
  case Nil
  then show ?case by simp
next
  case (Cons op ops)
  show ?case
  proof (cases op)
    case (Add i x)
    with Cons.prems Cons.IH [of "add s i x"] show ?thesis
      by (simp add: lookup_add invar_add del: fun_upd_apply)
  next
    case (Remove i)
    with Cons.prems Cons.IH [of "remove s i"] show ?thesis
      by (simp add: lookup_remove invar_remove del: fun_upd_apply)
  qed
qed

end

end
