(* ===== verification/Drm_Idr_List.thy ===== *)
theory Drm_Idr_List
  imports Id_Map
begin

text \<open>
  The hashed object table of \<open>drm_sun_idr.c\<close> (\<open>struct idr_list\<close> and the functions
  \<open>idr_list_*\<close>): \<open>DRM_GEM_OBJIDR_HASHNODE\<close> circular lists, the handle \<open>h\<close> in list
  \<open>h % 1024\<close>, and the two global counters \<open>fr_id\<close> and \<open>fr_time\<close> from which every table of
  the system draws its handles.

  A circular list with its sentinel is the list of its entries in \<open>next\<close> order; the array of
  buckets is a function of the index, which is always a remainder modulo 1024.
\<close>

definition DRM_GEM_OBJIDR_HASHNODE :: nat where
  "DRM_GEM_OBJIDR_HASHNODE = 1024"

record 'o idr_entry =
  obj :: "'o ptr"
  handle :: u32

type_synonym 'o idr_list = "nat \<Rightarrow> 'o idr_entry list"

record idr_globals =
  fr_id :: u32
  fr_time :: u32

definition hash_key :: "u32 \<Rightarrow> nat" where
  "hash_key name = unat name mod DRM_GEM_OBJIDR_HASHNODE"

text \<open>\<open>idr_list_pre_get\<close> does nothing but return \<open>-1\<close>.\<close>

definition idr_list_pre_get :: "'o idr_list \<Rightarrow> int \<Rightarrow> unit result" where
  "idr_list_pre_get head flag = Inl EPERM"

definition idr_list_init :: "'o idr_list" where
  "idr_list_init = (\<lambda>key. [])"

text \<open>The search loop of \<open>idr_list_find\<close> and \<open>idr_list_remove\<close>: the first entry with the name.\<close>

definition idr_list_entry :: "'o idr_list \<Rightarrow> u32 \<Rightarrow> 'o idr_entry option" where
  "idr_list_entry head name = find (\<lambda>e. handle e = name) (head (hash_key name))"

definition idr_list_find :: "'o idr_list \<Rightarrow> u32 \<Rightarrow> 'o ptr" where
  "idr_list_find head name =
     (case idr_list_entry head name of Some entry \<Rightarrow> obj entry | None \<Rightarrow> None)"

text \<open>The block \<open>list add\<close> of \<open>idr_list_get_new_above\<close>: link the entry behind the sentinel.\<close>

definition idr_list_add :: "'o idr_list \<Rightarrow> u32 \<Rightarrow> 'o ptr \<Rightarrow> 'o idr_list" where
  "idr_list_add head hid ob =
     (let key = hash_key hid
      in head(key := \<lparr>obj = ob, handle = hid\<rparr> # head key))"

text \<open>
  The loop that looks for a free id once the counter has wrapped: \<open>do obj_temp = find(head, id)
  while (obj_temp != NULL && ++id < 0x7fffffff)\<close>. The result is the value of the (positive)
  \<open>int\<close> \<open>id\<close> after the loop.
\<close>

function idr_list_probe :: "'o idr_list \<Rightarrow> nat \<Rightarrow> nat" where
  "idr_list_probe head hid =
     (if idr_list_find head (of_nat hid) \<noteq> None \<and> Suc hid < 0x7FFFFFFF
      then idr_list_probe head (Suc hid)
      else if idr_list_find head (of_nat hid) \<noteq> None then Suc hid else hid)"
  by pat_completeness auto
termination
  by (relation "measure (\<lambda>(head, hid). 0x7FFFFFFF - hid)") auto

declare idr_list_probe.simps [simp del]

text \<open>
  \<open>alloc\<close> says whether \<open>kmem_zalloc(KM_NOSLEEP)\<close> delivers. The result is the new handle.
\<close>

definition idr_list_get_new_above ::
  "bool \<Rightarrow> idr_globals \<Rightarrow> 'o idr_list \<Rightarrow> 'o ptr \<Rightarrow> u32 result \<times> idr_globals \<times> 'o idr_list" where
  "idr_list_get_new_above alloc g head ob =
     (if \<not> fr_id g \<le> 0x7FFFFFFF then (Inl BUG, g, head)
      else
        let hid = fr_id g + 1;
            g = g\<lparr>fr_id := hid\<rparr>;
            (hid, g) = (if hid = 0x7FFFFFFF
                       then (1, g\<lparr>fr_time := fr_time g + 1, fr_id := 1\<rparr>) else (hid, g));
            probed = (if fr_time g \<noteq> 0 then idr_list_probe head (unat hid) else unat hid)
        in if fr_time g \<noteq> 0 \<and> \<not> probed < 0x7FFFFFFF
           then (Inl EAGAIN, g\<lparr>fr_id := 0\<rparr>, head)
           else
             let hid = of_nat probed;
                 g = (if fr_time g \<noteq> 0 then g\<lparr>fr_id := hid\<rparr> else g)
             in if \<not> alloc then (Inl EPERM, g, head)
                else (Inr hid, g, idr_list_add head hid ob))"

text \<open>Unlink the first entry with the name.\<close>

definition idr_list_remove :: "'o idr_list \<Rightarrow> u32 \<Rightarrow> unit result \<times> 'o idr_list" where
  "idr_list_remove head name =
     (case idr_list_entry head name of
        None \<Rightarrow> (Inl EPERM, head)
      | Some entry \<Rightarrow>
          (Inr (), head(hash_key name := remove1 entry (head (hash_key name)))))"

text \<open>\<open>idr_list_free\<close> unlinks and frees every entry, then the bucket array.\<close>

definition idr_list_free :: "'o idr_list \<Rightarrow> 'o idr_list" where
  "idr_list_free head =
     (\<lambda>key. if key < DRM_GEM_OBJIDR_HASHNODE then [] else head key)"

definition idr_list_empty :: "'o idr_list \<Rightarrow> bool" where
  "idr_list_empty head = list_all (\<lambda>key. head key = []) [0..<DRM_GEM_OBJIDR_HASHNODE]"

subsection \<open>Well-formed tables\<close>

text \<open>
  Every entry is in the bucket of its handle, no handle occurs twice, and the sentinel array has
  no list beyond index 1023.
\<close>

definition idr_list_inv :: "'o idr_list \<Rightarrow> bool" where
  "idr_list_inv head \<longleftrightarrow>
     (\<forall>key. distinct (map handle (head key)) \<and> (\<forall>e \<in> set (head key). hash_key (handle e) = key))"

text \<open>
  The global counters cover the table: while the counter has not wrapped, no handle is larger
  than it; objects are never \<open>NULL\<close>; the counter stays below \<open>0x7fffffff\<close>.
\<close>

definition idr_globals_cover :: "idr_globals \<Rightarrow> 'o idr_list \<Rightarrow> bool" where
  "idr_globals_cover g head \<longleftrightarrow>
     fr_id g < 0x7FFFFFFF \<and>
     (\<forall>key. \<forall>e \<in> set (head key). obj e \<noteq> None \<and> handle e \<noteq> 0 \<and> (fr_time g = 0 \<longrightarrow> handle e \<le> fr_id g))"

subsection \<open>The table is an id map\<close>

definition idr_list_lookup :: "'o idr_list \<Rightarrow> u32 \<Rightarrow> 'o ptr option" where
  "idr_list_lookup head name = map_option obj (idr_list_entry head name)"

lemma find_handle_None:
  "find (\<lambda>e. handle e = name) es = None \<longleftrightarrow> name \<notin> handle ` set es"
  by (auto simp: find_None_iff)

lemma idr_list_lookup_None:
  "idr_list_lookup head name = None \<longleftrightarrow> name \<notin> handle ` set (head (hash_key name))"
  by (simp add: idr_list_lookup_def idr_list_entry_def find_handle_None)

lemma find_handleD: "find (\<lambda>e. handle e = name) es = Some entry \<Longrightarrow> handle entry = name"
  by (auto simp: find_Some_iff)

lemma find_remove1_same:
  "distinct (map handle es) \<Longrightarrow> find (\<lambda>e. handle e = name) es = Some entry \<Longrightarrow>
   find (\<lambda>e. handle e = name) (remove1 entry es) = None"
  by (induction es) (auto simp: find_handle_None dest: find_handleD split: if_splits)

lemma find_remove1_other:
  "handle entry \<noteq> other \<Longrightarrow>
   find (\<lambda>e. handle e = other) (remove1 entry es) = find (\<lambda>e. handle e = other) es"
  by (induction es) auto

lemma distinct_handles_remove1:
  "distinct (map handle es) \<Longrightarrow> distinct (map handle (remove1 entry es))"
  by (induction es) (auto dest: notin_set_remove1 in_set_remove1 [THEN iffD1, rotated])

lemma lookup_idr_list_add:
  "idr_list_lookup (idr_list_add head i ob) = (idr_list_lookup head)(i := Some ob)"
  by (rule ext) (auto simp: idr_list_lookup_def idr_list_entry_def idr_list_add_def Let_def)

lemma idr_list_inv_add:
  assumes "idr_list_inv head" and "idr_list_lookup head i = None"
  shows "idr_list_inv (idr_list_add head i ob)"
  using assms by (auto simp: idr_list_inv_def idr_list_add_def idr_list_lookup_None Let_def)

lemma lookup_idr_list_remove:
  assumes "idr_list_inv head" and "idr_list_lookup head i \<noteq> None"
  shows "idr_list_lookup (snd (idr_list_remove head i)) = (idr_list_lookup head)(i := None)"
proof -
  obtain entry where e: "idr_list_entry head i = Some entry"
    using assms(2) by (auto simp: idr_list_lookup_def)
  then have h: "handle entry = i"
    by (auto simp: idr_list_entry_def dest: find_handleD)
  have d: "distinct (map handle (head (hash_key i)))"
    using assms(1) by (simp add: idr_list_inv_def)
  show ?thesis
    using e h find_remove1_same [OF d] find_remove1_other [of entry]
    by (auto simp: fun_eq_iff idr_list_remove_def idr_list_lookup_def idr_list_entry_def)
qed

lemma idr_list_inv_remove:
  assumes "idr_list_inv head"
  shows "idr_list_inv (snd (idr_list_remove head i))"
  using assms
  by (auto simp: idr_list_inv_def idr_list_remove_def distinct_handles_remove1
      dest: notin_set_remove1 split: option.splits)

interpretation idl: id_map idr_list_init idr_list_lookup idr_list_add
  "\<lambda>head i. snd (idr_list_remove head i)" idr_list_inv
proof unfold_locales
  show "idr_list_lookup idr_list_init i = None" for i :: u32
    by (simp add: idr_list_lookup_None idr_list_init_def)
  show "idr_list_inv idr_list_init"
    by (simp add: idr_list_inv_def idr_list_init_def)
qed (simp_all add: lookup_idr_list_add lookup_idr_list_remove idr_list_inv_add idr_list_inv_remove)

lemma idr_list_find_lookup:
  "idr_list_find head i = (case idr_list_lookup head i of Some p \<Rightarrow> p | None \<Rightarrow> None)"
  by (simp add: idr_list_find_def idr_list_lookup_def split: option.splits)

lemma idr_list_remove_fst:
  "fst (idr_list_remove head i) = (if idr_list_lookup head i = None then Inl EPERM else Inr ())"
  by (simp add: idr_list_remove_def idr_list_lookup_def split: option.splits)

subsection \<open>Allocating a handle\<close>

lemma idr_list_probe_bounds:
  "i < 0x7FFFFFFF \<Longrightarrow> i \<le> idr_list_probe head i \<and> idr_list_probe head i \<le> 0x7FFFFFFF"
proof (induction head i rule: idr_list_probe.induct)
  case (1 head i)
  then show ?case
    by (subst (1 2) idr_list_probe.simps) auto
qed

lemma idr_list_probe_free:
  "idr_list_probe head i < 0x7FFFFFFF \<Longrightarrow> idr_list_find head (of_nat (idr_list_probe head i)) = None"
proof (induction head i rule: idr_list_probe.induct)
  case (1 head i)
  then show ?case
    by (subst idr_list_probe.simps, subst (asm) (2) idr_list_probe.simps) (auto split: if_splits)
qed

lemma idr_list_probe_used:
  "i \<le> j \<Longrightarrow> j < idr_list_probe head i \<Longrightarrow> idr_list_find head (of_nat j) \<noteq> None"
proof (induction head i rule: idr_list_probe.induct)
  case (1 head i)
  then show ?case
    by (cases "i = j") (subst (asm) (2) idr_list_probe.simps, auto split: if_splits)+
qed

lemma cover_find_lookup:
  assumes "idr_globals_cover g head"
  shows "idr_list_find head i = None \<longleftrightarrow> idr_list_lookup head i = None"
proof (cases "idr_list_entry head i")
  case None
  then show ?thesis by (simp add: idr_list_find_def idr_list_lookup_def)
next
  case (Some e)
  then have "e \<in> set (head (hash_key i))"
    by (auto simp: idr_list_entry_def find_Some_iff)
  with assms Some show ?thesis
    by (auto simp: idr_list_find_def idr_list_lookup_def idr_globals_cover_def)
qed

text \<open>
  What a successful allocation does, in one place: the handle, where it comes from, and how the
  counters move.
\<close>

definition idr_list_bumped :: "idr_globals \<Rightarrow> idr_globals" where
  "idr_list_bumped g =
     (if fr_id g + 1 = 0x7FFFFFFF then g\<lparr>fr_time := fr_time g + 1, fr_id := 1\<rparr>
      else g\<lparr>fr_id := fr_id g + 1\<rparr>)"

lemma idr_list_get_new_above_bumped:
  assumes "fr_id g \<le> 0x7FFFFFFF"
  shows "idr_list_get_new_above alloc g head ob =
    (let b = idr_list_bumped g;
         probed = (if fr_time b \<noteq> 0 then idr_list_probe head (unat (fr_id b)) else unat (fr_id b))
     in if fr_time b \<noteq> 0 \<and> \<not> probed < 0x7FFFFFFF then (Inl EAGAIN, b\<lparr>fr_id := 0\<rparr>, head)
        else if \<not> alloc then (Inl EPERM, b\<lparr>fr_id := of_nat probed\<rparr>, head)
        else (Inr (of_nat probed), b\<lparr>fr_id := of_nat probed\<rparr>, idr_list_add head (of_nat probed) ob))"
  using assms by (simp add: idr_list_get_new_above_def idr_list_bumped_def Let_def)

lemma idr_list_bumped_id:
  assumes "fr_id g < 0x7FFFFFFF"
  shows "0 < fr_id (idr_list_bumped g) \<and> fr_id (idr_list_bumped g) < 0x7FFFFFFF"
proof (cases "fr_id g + 1 = 0x7FFFFFFF")
  case True
  then show ?thesis by (simp add: idr_list_bumped_def)
next
  case False
  have u: "unat (fr_id g + 1) = Suc (unat (fr_id g))"
    using assms by (rule unat_plus_one)
  have "unat (fr_id g + 1) \<noteq> unat (0x7FFFFFFF :: u32)"
    using False word_unat_eq_iff by blast
  with u assms show ?thesis
    using False by (simp add: idr_list_bumped_def word_less_nat_alt)
qed

lemma unat_of_nat_handle: "p \<le> 0x7FFFFFFF \<Longrightarrow> unat (of_nat p :: u32) = p"
  by (simp add: unat_of_nat take_bit_nat_eq_self_iff take_bit_nat_eq_self)

lemma of_nat_handle_bounds:
  "0 < p \<Longrightarrow> p < 0x7FFFFFFF \<Longrightarrow> (0 :: u32) < of_nat p \<and> (of_nat p :: u32) < 0x7FFFFFFF"
  by (simp add: word_less_nat_alt unat_of_nat_handle)

lemma idr_list_get_new_above_success:
  assumes cover: "idr_globals_cover g head" and nowrap: "fr_id g + 1 = 0x7FFFFFFF \<longrightarrow> fr_time g + 1 \<noteq> 0"
    and ok: "idr_list_get_new_above alloc g head ob = (Inr h, g', head')"
  shows "alloc \<and> 0 < h \<and> h < 0x7FFFFFFF \<and> idr_list_lookup head h = None
     \<and> head' = idr_list_add head h ob \<and> fr_id g' = h
     \<and> (fr_time g' = 0 \<longrightarrow> fr_time g = 0 \<and> fr_id g < h)"
proof -
  let ?b = "idr_list_bumped g" and ?i = "unat (fr_id (idr_list_bumped g))"
  have lt: "fr_id g < 0x7FFFFFFF"
    using cover by (simp add: idr_globals_cover_def)
  then have le: "fr_id g \<le> 0x7FFFFFFF" by simp
  have b: "0 < ?i" "?i < 0x7FFFFFFF"
    using idr_list_bumped_id [OF lt] by (simp_all add: word_less_nat_alt)
  show ?thesis
  proof (cases "fr_time ?b = 0")
    case True
    with nowrap have "fr_id g + 1 \<noteq> 0x7FFFFFFF" and t: "fr_time g = 0"
      by (auto simp: idr_list_bumped_def split: if_splits)
    then have h: "h = fr_id g + 1" and g': "g' = g\<lparr>fr_id := h\<rparr>" "head' = idr_list_add head h ob" alloc
      using ok le True by (auto simp: idr_list_get_new_above_bumped Let_def idr_list_bumped_def split: if_splits)
    have lt_h: "fr_id g < h"
      using unat_plus_one [OF lt] by (simp add: h word_less_nat_alt)
    have "idr_list_lookup head h = None"
      using cover t lt_h by (force simp: idr_list_lookup_None idr_globals_cover_def)
    moreover have "0 < h" "h < 0x7FFFFFFF"
      using idr_list_bumped_id [OF lt] h \<open>fr_id g + 1 \<noteq> 0x7FFFFFFF\<close> by (simp_all add: idr_list_bumped_def)
    ultimately show ?thesis
      using g' lt_h t by simp
  next
    case False
    let ?p = "idr_list_probe head ?i"
    from False ok le have p: "?p < 0x7FFFFFFF" "h = of_nat ?p" "g' = ?b\<lparr>fr_id := h\<rparr>"
      "head' = idr_list_add head h ob" alloc
      by (auto simp: idr_list_get_new_above_bumped Let_def split: if_splits)
    have "idr_list_lookup head h = None"
      using idr_list_probe_free [OF p(1)] cover_find_lookup [OF cover] p(2) by simp
    moreover have "0 < ?p"
      using idr_list_probe_bounds [OF b(2), of head] b(1) by linarith
    ultimately show ?thesis
      using p False of_nat_handle_bounds [of ?p] by simp
  qed
qed

lemma idr_list_get_new_above_failure:
  assumes "fr_id g < 0x7FFFFFFF" and nowrap: "fr_id g + 1 = 0x7FFFFFFF \<longrightarrow> fr_time g + 1 \<noteq> 0"
    and "idr_list_get_new_above alloc g head ob = (Inl e, g', head')"
  shows "head' = head \<and> (e = EAGAIN \<and> fr_time g' \<noteq> 0 \<and> fr_id g' = 0 \<or>
     e = EPERM \<and> \<not> alloc \<and> fr_id g' < 0x7FFFFFFF \<and> (fr_time g' = 0 \<longrightarrow> fr_time g = 0 \<and> fr_id g < fr_id g'))"
proof -
  let ?b = "idr_list_bumped g"
  let ?p = "if fr_time ?b \<noteq> 0 then idr_list_probe head (unat (fr_id ?b)) else unat (fr_id ?b)"
  have le: "fr_id g \<le> 0x7FFFFFFF" using assms(1) by simp
  have b: "0 < unat (fr_id ?b)" "unat (fr_id ?b) < 0x7FFFFFFF"
    using idr_list_bumped_id [OF assms(1)] by (simp_all add: word_less_nat_alt)
  note run = assms(3) [unfolded idr_list_get_new_above_bumped [OF le] Let_def]
  show ?thesis
  proof (cases "fr_time ?b \<noteq> 0 \<and> \<not> ?p < 0x7FFFFFFF")
    case True
    with run show ?thesis by (auto split: if_splits)
  next
    case False
    then have e: "e = EPERM" "\<not> alloc" "g' = ?b\<lparr>fr_id := of_nat ?p\<rparr>" "head' = head"
      using run by (auto split: if_splits)
    have p: "0 < ?p" "?p < 0x7FFFFFFF"
      using False b idr_list_probe_bounds [OF b(2), of head] by auto
    have "fr_time g = 0 \<and> fr_id g < of_nat ?p" if "fr_time ?b = 0"
      using that nowrap unat_plus_one [OF assms(1)]
      by (auto simp: idr_list_bumped_def word_less_nat_alt split: if_splits)
    with e of_nat_handle_bounds [OF p] show ?thesis by simp
  qed
qed

lemma idr_globals_cover_mono:
  assumes "idr_globals_cover g head" and "fr_id g' < 0x7FFFFFFF"
    and "fr_time g' = 0 \<longrightarrow> fr_time g = 0 \<and> fr_id g \<le> fr_id g'"
  shows "idr_globals_cover g' head"
  using assms by (force simp: idr_globals_cover_def)

lemma idr_globals_cover_add:
  assumes "idr_globals_cover g head" and "i \<le> fr_id g" and "i \<noteq> 0"
  shows "idr_globals_cover g (idr_list_add head i (Some x))"
  using assms by (auto simp: idr_globals_cover_def idr_list_add_def Let_def)

subsection \<open>Properties\<close>

text \<open>
  A handle that \<open>idr_list_get_new_above\<close> hands out was not in use: looking it up gave
  \<open>NULL\<close> before and gives the new object after, every other lookup is unchanged, the table stays
  well formed, and the global counters still cover this table and every other table they covered.
\<close>

theorem idr_list_get_new_above_fresh:
  assumes "idr_list_inv head" and "idr_globals_cover g head" and "fr_time g + 1 \<noteq> 0"
    and "idr_list_get_new_above alloc g head (Some x) = (Inr h, g', head')"
  shows "idr_list_find head h = None
     \<and> idr_list_find head' = (idr_list_find head)(h := Some x)
     \<and> idr_list_inv head' \<and> idr_globals_cover g' head'
     \<and> (idr_globals_cover g other \<longrightarrow> idr_globals_cover g' other)"
proof -
  have "fr_id g + 1 = 0x7FFFFFFF \<longrightarrow> fr_time g + 1 \<noteq> 0"
    using assms(3) by blast
  note s = idr_list_get_new_above_success [OF assms(2) this assms(4)]
  then have fresh: "idr_list_lookup head h = None"
    and head': "head' = idr_list_add head h (Some x)" by simp_all
  have "idr_list_find head h = None"
    using fresh by (simp add: idr_list_find_lookup)
  moreover have "idr_list_find head' = (idr_list_find head)(h := Some x)"
    by (auto simp: fun_eq_iff idr_list_find_lookup head' lookup_idr_list_add)
  moreover have "idr_globals_cover g' head"
    by (rule idr_globals_cover_mono [OF assms(2)]) (use s in auto)
  then have "idr_list_inv head' \<and> idr_globals_cover g' head'"
    using s idr_list_inv_add [OF assms(1) fresh] idr_globals_cover_add [of g' head h x]
    by (auto simp: head')
  moreover have "idr_globals_cover g other \<longrightarrow> idr_globals_cover g' other"
    using s idr_globals_cover_mono [of g other g'] less_imp_le [of "fr_id g" h] by auto
  ultimately show ?thesis by blast
qed

theorem idr_list_get_new_above_fresh_witness:
  "idr_list_find (snd (snd (idr_list_get_new_above True \<lparr>fr_id = 0, fr_time = 0\<rparr> idr_list_init (Some ''bo'')))) 1 = Some ''bo''"
proof -
  have run: "idr_list_get_new_above True \<lparr>fr_id = 0, fr_time = 0\<rparr> idr_list_init (Some ''bo'') =
      (Inr 1, \<lparr>fr_id = 1, fr_time = 0\<rparr>, idr_list_add idr_list_init 1 (Some ''bo''))"
    by (simp add: idr_list_get_new_above_def Let_def)
  have inv: "idr_list_inv (idr_list_init :: string idr_list)"
    and cover: "idr_globals_cover \<lparr>fr_id = 0, fr_time = 0\<rparr> (idr_list_init :: string idr_list)"
    by (simp_all add: idr_list_inv_def idr_globals_cover_def idr_list_init_def)
  show ?thesis
    using idr_list_get_new_above_fresh [OF inv cover _ run, of "idr_list_init :: string idr_list"] by (simp add: run)
qed

text \<open>
  When the allocator reports \<open>-EAGAIN\<close> the table is unchanged, every id from the one after
  the counter up to the largest is in use, and the counter is reset so that the next call starts
  over at 1.
\<close>

theorem idr_list_get_new_above_eagain:
  assumes "idr_globals_cover g head"
    and "idr_list_get_new_above alloc g head ob = (Inl EAGAIN, g', head')"
  shows "head' = head \<and> fr_id g' = 0 \<and>
     (\<forall>j. unat (fr_id (idr_list_bumped g)) \<le> j \<and> j < 0x7FFFFFFF \<longrightarrow> idr_list_find head (of_nat j) \<noteq> None)"
proof -
  have "fr_id g \<le> 0x7FFFFFFF"
    using assms(1) by (auto simp: idr_globals_cover_def)
  with assms(2) have "head' = head \<and> fr_id g' = 0 \<and>
      \<not> idr_list_probe head (unat (fr_id (idr_list_bumped g))) < 0x7FFFFFFF"
    by (auto simp: idr_list_get_new_above_bumped Let_def split: if_splits)
  then show ?thesis
    using idr_list_probe_used [of "unat (fr_id (idr_list_bumped g))" _ head] by force
qed

theorem idr_list_get_new_above_eagain_witness:
  "\<exists>g'. idr_list_get_new_above True \<lparr>fr_id = 0x7FFFFFFD, fr_time = 1\<rparr>
       (idr_list_add idr_list_init 0x7FFFFFFE (Some ''bo'')) (Some ''new'')
     = (Inl EAGAIN, g', idr_list_add idr_list_init 0x7FFFFFFE (Some ''bo'')) \<and> fr_id g' = 0"
proof -
  let ?t = "idr_list_add idr_list_init 0x7FFFFFFE (Some ''bo'')" and ?g = "\<lparr>fr_id = 0x7FFFFFFD, fr_time = 1\<rparr>"
  have "idr_list_find ?t 0x7FFFFFFE = Some ''bo''"
    by (simp add: idr_list_find_lookup lookup_idr_list_add)
  then have "idr_list_probe ?t 0x7FFFFFFE = 0x7FFFFFFF"
    by (subst idr_list_probe.simps) simp
  then have run: "idr_list_get_new_above True ?g ?t (Some ''new'') = (Inl EAGAIN, \<lparr>fr_id = 0, fr_time = 1\<rparr>, ?t)"
    by (simp add: idr_list_get_new_above_def Let_def)
  have cover: "idr_globals_cover ?g ?t"
    by (auto simp: idr_globals_cover_def idr_list_add_def idr_list_init_def Let_def)
  show ?thesis
    using idr_list_get_new_above_eagain [OF cover run] run by blast
qed

text \<open>
  Claim C21. Any sequence of insertions of unused handles and removals of used ones, run on the hash
  buckets, gives the lookups of the same sequence on a partial map, and keeps the table well formed.
\<close>

theorem idr_list_run_refines:
  assumes "idr_list_inv head" and "legal_run (idr_list_lookup head) ops"
  shows "idr_list_inv (idl.run head ops) \<and>
         idr_list_lookup (idl.run head ops) = map_run (idr_list_lookup head) ops"
  using assms by (rule idl.run_refines)

theorem idr_list_run_refines_witness:
  "idr_list_lookup (idl.run idr_list_init [Add 5 (Some ''a''), Add 1029 (Some ''b''), Remove 5]) 1029 = Some (Some ''b'')"
proof -
  have "legal_run (idr_list_lookup idr_list_init) [Add 5 (Some ''a''), Add 1029 (Some ''b''), Remove 5]"
    by (simp add: idl.lookup_empty)
  from idr_list_run_refines [OF idl.invar_empty this] show ?thesis
    by (simp only:) simp
qed

text \<open>
  \<open>idr_list_empty\<close> answers exactly whether no handle is in use, and holds after
  \<open>idr_list_free\<close>.
\<close>

theorem idr_list_empty_iff:
  assumes "idr_list_inv head"
  shows "(idr_list_empty head \<longleftrightarrow> (\<forall>i. idr_list_lookup head i = None))
     \<and> idr_list_empty (idr_list_free head)"
proof -
  have key: "k < DRM_GEM_OBJIDR_HASHNODE" if "e \<in> set (head k)" for e k
  proof -
    have "hash_key (handle e) = k"
      using assms that by (simp add: idr_list_inv_def)
    then show ?thesis
      by (auto simp: hash_key_def DRM_GEM_OBJIDR_HASHNODE_def)
  qed
  have "(\<forall>i. idr_list_lookup head i = None) \<longleftrightarrow> (\<forall>k. head k = [])"
  proof
    assume none: "\<forall>i. idr_list_lookup head i = None"
    show "\<forall>k. head k = []"
    proof
      fix k
      have "e \<notin> set (head k)" for e
      proof
        assume "e \<in> set (head k)"
        moreover from this have "hash_key (handle e) = k"
          using assms by (simp add: idr_list_inv_def)
        ultimately show False
          using none [rule_format, of "handle e"] by (simp add: idr_list_lookup_None)
      qed
      then show "head k = []"
        by (cases "head k") auto
    qed
  qed (simp add: idr_list_lookup_None)
  also have "\<dots> \<longleftrightarrow> idr_list_empty head"
  proof -
    have "head k = []" if "\<forall>key < DRM_GEM_OBJIDR_HASHNODE. head key = []" for k
      using that key [of "hd (head k)" k] by (cases "head k") auto
    then show ?thesis
      by (auto simp: idr_list_empty_def list_all_iff)
  qed
  finally show ?thesis
    by (simp add: idr_list_empty_def idr_list_free_def list_all_iff)
qed

theorem idr_list_empty_iff_witness:
  "idr_list_empty (idr_list_init :: string idr_list)"
  using idr_list_empty_iff [OF idl.invar_empty] idl.lookup_empty by blast

end
