(* ===== verification/Drm_Gem.thy ===== *)
theory Drm_Gem
  imports Drm_Idr_List
begin

text \<open>
  GEM objects: \<open>drm_gem.c\<close>, the reference counting of \<open>drm_drv.c\<close> and \<open>kref\<close> of
  \<open>drm_linux.c\<close>. User space names an object by a handle, private to an open file and kept in
  the file's object table, or by a global name in the table of the device; each handle and the name
  hold a reference.

  An object is a cell of a heap; \<open>None\<close> is memory that is not (or no longer) an object, and every
  access to it is the outcome \<open>Inl BUG\<close>, as is a failing \<open>BUG_ON\<close>. Results are nested: the outer
  \<open>Inl\<close> is such a stop of the kernel, the inner sum is the value the C function returns.
  The calls run one at a time, as under \<open>struct_mutex\<close> and the table locks.
\<close>

subsection \<open>State\<close>

record drm_gem_object =
  refcount :: u32
  handle_count :: u32
  obj_size :: u64
  obj_name :: u32

text \<open>
  The callbacks of the driver. They work on the driver's data only: of \<open>gem_open_object\<close> the model
  takes the value it returns, \<open>gem_close_object\<close> is recorded, and \<open>gem_free_object\<close> releases the
  memory of the object; an absent callback is \<open>None\<close> or \<open>False\<close>.
\<close>

record drm_gem_driver =
  driver_gem :: bool
  gem_open_object :: "(nat \<Rightarrow> nat \<Rightarrow> unit result) option"
  gem_close_object :: bool
  gem_free_object :: bool

datatype gem_event = Close_object nat nat | Free_object nat

record gem =
  driver :: drm_gem_driver
  objects :: "nat \<Rightarrow> drm_gem_object option"
  files :: "nat \<Rightarrow> nat idr_list option"
  object_name_idr :: "nat idr_list"
  globals :: idr_globals
  events :: "gem_event list"

definition set_object :: "nat \<Rightarrow> drm_gem_object \<Rightarrow> gem \<Rightarrow> gem" where
  "set_object p ob s = s\<lparr>objects := (objects s)(p \<mapsto> ob)\<rparr>"

subsection \<open>Reference counts\<close>

definition kref_get :: "nat \<Rightarrow> gem \<Rightarrow> gem result" where
  "kref_get p s =
     (case objects s p of
        None \<Rightarrow> Inl BUG
      | Some ob \<Rightarrow> Inr (set_object p (ob\<lparr>refcount := refcount ob + 1\<rparr>) s))"

definition kref_put :: "nat \<Rightarrow> (nat \<Rightarrow> gem \<Rightarrow> gem result) \<Rightarrow> gem \<Rightarrow> gem result" where
  "kref_put p release s =
     (case objects s p of
        None \<Rightarrow> Inl BUG
      | Some ob \<Rightarrow>
          let ob = ob\<lparr>refcount := refcount ob - 1\<rparr>;
              s = set_object p ob s
          in if refcount ob = 0 then release p s else Inr s)"

definition drm_gem_object_free :: "nat \<Rightarrow> gem \<Rightarrow> gem result" where
  "drm_gem_object_free p s =
     (if gem_free_object (driver s)
      then Inr (s\<lparr>objects := (objects s)(p := None), events := events s @ [Free_object p]\<rparr>)
      else Inr s)"

definition drm_gem_object_ref_bug :: "nat \<Rightarrow> gem \<Rightarrow> gem result" where
  "drm_gem_object_ref_bug p s = Inl BUG"

definition drm_gem_object_reference :: "nat \<Rightarrow> gem \<Rightarrow> gem result" where
  "drm_gem_object_reference p s = kref_get p s"

definition drm_gem_object_unreference :: "nat ptr \<Rightarrow> gem \<Rightarrow> gem result" where
  "drm_gem_object_unreference optr s =
     (case optr of None \<Rightarrow> Inr s | Some p \<Rightarrow> kref_put p drm_gem_object_free s)"

definition drm_gem_object_unreference_unlocked :: "nat ptr \<Rightarrow> gem \<Rightarrow> gem result" where
  "drm_gem_object_unreference_unlocked optr s =
     (case optr of None \<Rightarrow> Inr s | Some p \<Rightarrow> kref_put p drm_gem_object_free s)"

definition drm_gem_object_handle_reference :: "nat \<Rightarrow> gem \<Rightarrow> gem result" where
  "drm_gem_object_handle_reference p s =
     (case drm_gem_object_reference p s of
        Inl e \<Rightarrow> Inl e
      | Inr s \<Rightarrow>
          (case objects s p of
             None \<Rightarrow> Inl BUG
           | Some ob \<Rightarrow> Inr (set_object p (ob\<lparr>handle_count := handle_count ob + 1\<rparr>) s)))"

definition drm_gem_object_handle_free :: "nat \<Rightarrow> gem \<Rightarrow> gem result" where
  "drm_gem_object_handle_free p s =
     (case objects s p of
        None \<Rightarrow> Inl BUG
      | Some ob \<Rightarrow>
          if obj_name ob \<noteq> 0
          then let s = s\<lparr>object_name_idr := snd (idr_list_remove (object_name_idr s) (obj_name ob))\<rparr>;
                   s = set_object p (ob\<lparr>obj_name := 0\<rparr>) s
               in kref_put p drm_gem_object_ref_bug s
          else Inr s)"

text \<open>The part that both variants of dropping a handle share: everything before the last line.\<close>

definition handle_put :: "nat \<Rightarrow> gem \<Rightarrow> gem result" where
  "handle_put p s =
     (case objects s p of
        None \<Rightarrow> Inl BUG
      | Some ob \<Rightarrow>
          let ob = ob\<lparr>handle_count := handle_count ob - 1\<rparr>;
              s = set_object p ob s
          in if handle_count ob = 0 then drm_gem_object_handle_free p s else Inr s)"

definition drm_gem_object_handle_unreference :: "nat ptr \<Rightarrow> gem \<Rightarrow> gem result" where
  "drm_gem_object_handle_unreference optr s =
     (case optr of
        None \<Rightarrow> Inr s
      | Some p \<Rightarrow>
          (case objects s p of
             None \<Rightarrow> Inl BUG
           | Some ob \<Rightarrow>
               if handle_count ob = 0 then Inr s
               else (case handle_put p s of
                       Inl e \<Rightarrow> Inl e
                     | Inr s \<Rightarrow> drm_gem_object_unreference (Some p) s)))"

definition drm_gem_object_handle_unreference_unlocked :: "nat ptr \<Rightarrow> gem \<Rightarrow> gem result" where
  "drm_gem_object_handle_unreference_unlocked optr s =
     (case optr of
        None \<Rightarrow> Inr s
      | Some p \<Rightarrow>
          (case objects s p of
             None \<Rightarrow> Inl BUG
           | Some ob \<Rightarrow>
               if handle_count ob = 0 then Inr s
               else (case handle_put p s of
                       Inl e \<Rightarrow> Inl e
                     | Inr s \<Rightarrow> drm_gem_object_unreference_unlocked (Some p) s)))"

subsection \<open>Handles\<close>

text \<open>The object is in memory the driver has cleared, so it has no name.\<close>

definition drm_gem_private_object_init :: "nat \<Rightarrow> u64 \<Rightarrow> gem \<Rightarrow> gem result" where
  "drm_gem_private_object_init p sz s =
     (if sz AND 0xFFF \<noteq> 0 then Inl BUG
      else Inr (set_object p \<lparr>refcount = 1, handle_count = 0, obj_size = sz, obj_name = 0\<rparr> s))"

definition drm_gem_init :: "drm_gem_driver \<Rightarrow> idr_globals \<Rightarrow> gem" where
  "drm_gem_init drv g =
     \<lparr>driver = drv, objects = (\<lambda>_. None), files = (\<lambda>_. None), object_name_idr = idr_list_init,
      globals = g, events = []\<rparr>"

definition call_close_object :: "nat \<Rightarrow> nat \<Rightarrow> gem \<Rightarrow> gem" where
  "call_close_object p file s =
     (if gem_close_object (driver s) then s\<lparr>events := events s @ [Close_object p file]\<rparr> else s)"

text \<open>Reading \<open>obj->dev\<close> is an access to the object.\<close>

definition drm_gem_handle_delete :: "nat \<Rightarrow> u32 \<Rightarrow> gem \<Rightarrow> (unit result \<times> gem) result" where
  "drm_gem_handle_delete file hdl s =
     (case files s file of
        None \<Rightarrow> Inl BUG
      | Some tbl \<Rightarrow>
          (case idr_list_find tbl hdl of
             None \<Rightarrow> Inr (Inl EINVAL, s)
           | Some p \<Rightarrow>
               if objects s p = None then Inl BUG
               else
                 let s = s\<lparr>files := (files s)(file \<mapsto> snd (idr_list_remove tbl hdl))\<rparr>;
                     s = call_close_object p file s
                 in (case drm_gem_object_handle_unreference_unlocked (Some p) s of
                       Inl e \<Rightarrow> Inl e
                     | Inr s \<Rightarrow> Inr (Inr (), s))))"

definition drm_gem_dumb_destroy :: "nat \<Rightarrow> u32 \<Rightarrow> gem \<Rightarrow> (unit result \<times> gem) result" where
  "drm_gem_dumb_destroy file hdl s = drm_gem_handle_delete file hdl s"

text \<open>
  The loop from the label \<open>again\<close> of \<open>drm_gem_handle_create\<close> and \<open>drm_gem_flink_ioctl\<close>. It has no
  bound, so it is a partial function; \<open>None\<close> is a loop that does not end. \<open>idr_list_pre_get\<close>
  returns \<open>-1\<close>, never the 0 it is compared with.
\<close>

partial_function (option) idr_list_get_again ::
  "bool \<Rightarrow> idr_globals \<Rightarrow> 'o idr_list \<Rightarrow> 'o ptr \<Rightarrow> (u32 result \<times> idr_globals \<times> 'o idr_list) option" where
  "idr_list_get_again alloc g head ob =
     (if idr_list_pre_get head 0 = Inr () then Some (Inl ENOMEM, g, head)
      else (case idr_list_get_new_above alloc g head ob of
              (r, g', head') \<Rightarrow>
                if r = Inl EAGAIN then idr_list_get_again alloc g' head' ob else Some (r, g', head')))"

definition drm_gem_handle_create :: "bool \<Rightarrow> nat \<Rightarrow> nat \<Rightarrow> gem \<Rightarrow> (u32 result \<times> gem) result option" where
  "drm_gem_handle_create alloc file p s =
     (case files s file of
        None \<Rightarrow> Some (Inl BUG)
      | Some tbl \<Rightarrow>
          if objects s p = None then Some (Inl BUG)
          else
            (case idr_list_get_again alloc (globals s) tbl (Some p) of
               None \<Rightarrow> None
             | Some (r, g, tbl) \<Rightarrow>
                 let s = s\<lparr>globals := g, files := (files s)(file \<mapsto> tbl)\<rparr>
                 in (case r of
                       Inl e \<Rightarrow> Some (Inr (Inl e, s))
                     | Inr hdl \<Rightarrow>
                         (case drm_gem_object_handle_reference p s of
                            Inl e \<Rightarrow> Some (Inl e)
                          | Inr s \<Rightarrow>
                              (case gem_open_object (driver s) of
                                 None \<Rightarrow> Some (Inr (Inr hdl, s))
                               | Some open_object \<Rightarrow>
                                   (case open_object p file of
                                      Inr _ \<Rightarrow> Some (Inr (Inr hdl, s))
                                    | Inl ret \<Rightarrow>
                                        (case drm_gem_handle_delete file hdl s of
                                           Inl e \<Rightarrow> Some (Inl e)
                                         | Inr (_, s) \<Rightarrow> Some (Inr (Inl ret, s)))))))))"

definition drm_gem_object_lookup :: "nat \<Rightarrow> u32 \<Rightarrow> gem \<Rightarrow> (nat ptr \<times> gem) result" where
  "drm_gem_object_lookup file hdl s =
     (case files s file of
        None \<Rightarrow> Inl BUG
      | Some tbl \<Rightarrow>
          (case idr_list_find tbl hdl of
             None \<Rightarrow> Inr (None, s)
           | Some p \<Rightarrow>
               (case drm_gem_object_reference p s of
                  Inl e \<Rightarrow> Inl e
                | Inr s \<Rightarrow> Inr (Some p, s))))"

definition drm_gem_close_ioctl :: "nat \<Rightarrow> u32 \<Rightarrow> gem \<Rightarrow> (unit result \<times> gem) result" where
  "drm_gem_close_ioctl file hdl s =
     (if \<not> driver_gem (driver s) then Inr (Inl ENODEV, s) else drm_gem_handle_delete file hdl s)"

subsection \<open>Global names\<close>

definition unreference_and_return ::
  "nat \<Rightarrow> 'a \<Rightarrow> gem \<Rightarrow> ('a \<times> gem) result option" where
  "unreference_and_return p ret s =
     (case drm_gem_object_unreference_unlocked (Some p) s of
        Inl e \<Rightarrow> Some (Inl e)
      | Inr s \<Rightarrow> Some (Inr (ret, s)))"

text \<open>The ioctl once it has the object, up to its end: the name it has or a new one.\<close>

definition flink_name :: "bool \<Rightarrow> nat \<Rightarrow> gem \<Rightarrow> (u32 result \<times> gem) result option" where
  "flink_name alloc p s =
     (case objects s p of
        None \<Rightarrow> Some (Inl BUG)
      | Some ob \<Rightarrow>
          if obj_name ob \<noteq> 0 then unreference_and_return p (Inr (obj_name ob)) s
          else
            (case idr_list_get_again alloc (globals s) (object_name_idr s) (Some p) of
               None \<Rightarrow> None
             | Some (r, g, names) \<Rightarrow>
                 let s = s\<lparr>globals := g, object_name_idr := names\<rparr>
                 in (case r of
                       Inl e \<Rightarrow> unreference_and_return p (Inl e) s
                     | Inr name \<Rightarrow>
                         let s = set_object p (ob\<lparr>obj_name := name\<rparr>) s
                         in (case drm_gem_object_reference p s of
                               Inl e \<Rightarrow> Some (Inl e)
                             | Inr s \<Rightarrow> unreference_and_return p (Inr name) s))))"

definition drm_gem_flink_ioctl :: "bool \<Rightarrow> nat \<Rightarrow> u32 \<Rightarrow> gem \<Rightarrow> (u32 result \<times> gem) result option" where
  "drm_gem_flink_ioctl alloc file hdl s =
     (if \<not> driver_gem (driver s) then Some (Inr (Inl ENODEV, s))
      else
        (case drm_gem_object_lookup file hdl s of
           Inl e \<Rightarrow> Some (Inl e)
         | Inr (None, s) \<Rightarrow> Some (Inr (Inl ENOENT, s))
         | Inr (Some p, s) \<Rightarrow> flink_name alloc p s))"

text \<open>The result is the handle and the size.\<close>

definition drm_gem_open_ioctl :: "bool \<Rightarrow> nat \<Rightarrow> u32 \<Rightarrow> gem \<Rightarrow> ((u32 \<times> u64) result \<times> gem) result option" where
  "drm_gem_open_ioctl alloc file name s =
     (if \<not> driver_gem (driver s) then Some (Inr (Inl ENODEV, s))
      else
        (case idr_list_find (object_name_idr s) name of
           None \<Rightarrow> Some (Inr (Inl ENOENT, s))
         | Some p \<Rightarrow>
             (case drm_gem_object_reference p s of
                Inl e \<Rightarrow> Some (Inl e)
              | Inr s \<Rightarrow>
                  (case drm_gem_handle_create alloc file p s of
                     None \<Rightarrow> None
                   | Some (Inl e) \<Rightarrow> Some (Inl e)
                   | Some (Inr (r, s)) \<Rightarrow>
                       (case drm_gem_object_unreference_unlocked (Some p) s of
                          Inl e \<Rightarrow> Some (Inl e)
                        | Inr s \<Rightarrow>
                            (case r of
                               Inl ret \<Rightarrow> Some (Inr (Inl ret, s))
                             | Inr hdl \<Rightarrow>
                                 (case objects s p of
                                    None \<Rightarrow> Some (Inl BUG)
                                  | Some ob \<Rightarrow> Some (Inr (Inr (hdl, obj_size ob), s)))))))))"

subsection \<open>Opening and closing a file\<close>

definition drm_gem_open :: "nat \<Rightarrow> gem \<Rightarrow> gem" where
  "drm_gem_open file s = s\<lparr>files := (files s)(file \<mapsto> idr_list_init)\<rparr>"

definition drm_gem_object_release_handle :: "nat ptr \<Rightarrow> nat \<Rightarrow> gem \<Rightarrow> gem result" where
  "drm_gem_object_release_handle optr file s =
     (case optr of
        None \<Rightarrow> Inl BUG
      | Some p \<Rightarrow>
          if objects s p = None then Inl BUG
          else drm_gem_object_handle_unreference_unlocked optr (call_close_object p file s))"

text \<open>\<open>idr_list_for_each\<close> runs through the buckets in the order of their index.\<close>

definition idr_list_entries :: "'o idr_list \<Rightarrow> 'o idr_entry list" where
  "idr_list_entries head = concat (map head [0..<DRM_GEM_OBJIDR_HASHNODE])"

text \<open>After \<open>idr_list_free\<close> the table has no buckets: the file has no table any more.\<close>

definition drm_gem_release :: "nat \<Rightarrow> gem \<Rightarrow> gem result" where
  "drm_gem_release file s =
     (case files s file of
        None \<Rightarrow> Inl BUG
      | Some tbl \<Rightarrow>
          (case fold_res (\<lambda>entry. drm_gem_object_release_handle (obj entry) file) (idr_list_entries tbl) s of
             Inl e \<Rightarrow> Inl e
           | Inr s \<Rightarrow> Inr (s\<lparr>files := (files s)(file := None)\<rparr>)))"

end
