(* ===== verification/Drm_Gem_Refs.thy ===== *)
theory Drm_Gem_Refs
  imports Drm_Gem
begin

text \<open>
  The reference counts of GEM objects. The loop that draws a handle is characterised first; then the
  invariant that ties the counters of an object to the handles, the name and the references the
  driver holds, what every operation does to it, and the properties of the component.
\<close>

subsection \<open>The retry loop\<close>

text \<open>The counters only move in a way that keeps the tables they cover covered.\<close>

definition globals_le :: "idr_globals \<Rightarrow> idr_globals \<Rightarrow> bool" where
  "globals_le g g' \<longleftrightarrow> fr_id g' < 0x7FFFFFFF \<and> (fr_time g' = 0 \<longrightarrow> fr_time g = 0 \<and> fr_id g \<le> fr_id g')"

text \<open>The wrap counter does not itself wrap in the next call.\<close>

definition wrap_left :: "idr_globals \<Rightarrow> bool" where
  "wrap_left g \<longleftrightarrow> (fr_id g + 1 = 0x7FFFFFFF \<longrightarrow> fr_time g + 1 \<noteq> 0)"

lemma cover_globals_le: "idr_globals_cover g tbl \<Longrightarrow> globals_le g g' \<Longrightarrow> idr_globals_cover g' tbl"
  by (rule idr_globals_cover_mono) (auto simp: globals_le_def)

lemma globals_le_trans: "globals_le g g1 \<Longrightarrow> globals_le g1 g2 \<Longrightarrow> globals_le g g2"
  by (auto simp: globals_le_def)

lemma idr_list_get_again_unfold:
  "idr_list_get_again alloc g tbl q =
     (case idr_list_get_new_above alloc g tbl q of
        (r, g', tbl') \<Rightarrow> if r = Inl EAGAIN then idr_list_get_again alloc g' tbl' q else Some (r, g', tbl'))"
  by (subst idr_list_get_again.simps) (simp add: idr_list_pre_get_def)

text \<open>What one call does, as a relation between the counters before and after.\<close>

lemma get_new_above_cases:
  assumes "idr_globals_cover g tbl" "wrap_left g"
    and run: "idr_list_get_new_above alloc g tbl q = (r, g', tbl')"
  shows "globals_le g g' \<and>
     (case r of
        Inr h \<Rightarrow> 0 < h \<and> h < 0x7FFFFFFF \<and> h = fr_id g' \<and> idr_list_lookup tbl h = None \<and> tbl' = idr_list_add tbl h q
      | Inl e \<Rightarrow> tbl' = tbl \<and> (e = EAGAIN \<and> fr_id g' = 0 \<and> fr_time g' \<noteq> 0 \<or> e = EPERM \<and> \<not> alloc))"
proof -
  have lt: "fr_id g < 0x7FFFFFFF" using assms(1) by (simp add: idr_globals_cover_def)
  have w: "fr_id g + 1 = 0x7FFFFFFF \<longrightarrow> fr_time g + 1 \<noteq> 0" using assms(2) by (simp add: wrap_left_def)
  show ?thesis
  proof (cases r)
    case (Inl e)
    then show ?thesis
      using idr_list_get_new_above_failure [OF lt w, of alloc tbl q e g' tbl'] run
      by (auto simp: globals_le_def)
  next
    case (Inr h)
    then show ?thesis
      using idr_list_get_new_above_success [OF assms(1) w, of alloc q h g' tbl'] run
      by (auto simp: globals_le_def)
  qed
qed

definition get_spec ::
  "bool \<Rightarrow> idr_globals \<Rightarrow> 'o idr_list \<Rightarrow> 'o ptr \<Rightarrow> u32 result \<Rightarrow> idr_globals \<Rightarrow> 'o idr_list \<Rightarrow> bool" where
  "get_spec alloc g tbl q r g' tbl' \<longleftrightarrow> globals_le g g' \<and>
     (case r of
        Inr h \<Rightarrow> 0 < h \<and> h < 0x7FFFFFFF \<and> h = fr_id g' \<and> idr_list_lookup tbl h = None \<and> tbl' = idr_list_add tbl h q
      | Inl e \<Rightarrow> tbl' = tbl \<and> e = EPERM \<and> \<not> alloc)"

lemma idr_list_get_again_spec:
  assumes "idr_list_get_again alloc g tbl q = Some y"
  shows "idr_globals_cover g tbl \<longrightarrow> wrap_left g \<longrightarrow>
     (case y of (r, g', tbl') \<Rightarrow> get_spec alloc g tbl q r g' tbl')"
    (is "?P alloc g tbl q y")
proof (rule idr_list_get_again.raw_induct [of ?P, OF _ assms])
  fix again alloc g tbl q y
  assume 1: "\<And>alloc g tbl q y. again alloc g tbl q = Some y \<Longrightarrow> ?P alloc g tbl q y"
    "(if idr_list_pre_get tbl 0 = Inr () then Some (Inl ENOMEM, g, tbl)
      else case idr_list_get_new_above alloc g tbl q of
        (r, g', tbl') \<Rightarrow> if r = Inl EAGAIN then again alloc g' tbl' q else Some (r, g', tbl')) = Some y"
  obtain r g' tbl' where call: "idr_list_get_new_above alloc g tbl q = (r, g', tbl')"
    by (metis prod_cases3)
  show "?P alloc g tbl q y"
  proof (intro impI)
    assume c: "idr_globals_cover g tbl" and w: "wrap_left g"
    note step = get_new_above_cases [OF c w call]
    show "case y of (r, g', tbl') \<Rightarrow> get_spec alloc g tbl q r g' tbl'"
    proof (cases "r = Inl EAGAIN")
      case True
      with step have s: "tbl' = tbl" "fr_id g' = 0" "fr_time g' \<noteq> 0" "globals_le g g'" by simp_all
      then have "idr_globals_cover g' tbl" "wrap_left g'"
        using cover_globals_le [OF c] by (simp_all add: wrap_left_def)
      with 1 True call s have "case y of (r, g'', tbl'') \<Rightarrow> get_spec alloc g' tbl q r g'' tbl''"
        by (simp add: idr_list_pre_get_def)
      with s(4) show ?thesis
        by (auto simp: get_spec_def dest: globals_le_trans)
    next
      case False
      with 1(2) call have "y = (r, g', tbl')" by (simp add: idr_list_pre_get_def)
      with step False show ?thesis
        by (auto simp: get_spec_def split: sum.splits)
    qed
  qed
qed

lemma idr_list_get_againD:
  assumes "idr_list_get_again alloc g tbl q = Some (r, g', tbl')" "idr_globals_cover g tbl" "wrap_left g"
  shows "get_spec alloc g tbl q r g' tbl'"
  using idr_list_get_again_spec [OF assms(1)] assms(2,3) by simp

text \<open>From the reset counter the search sees every handle, so a second call settles the loop.\<close>

lemma probe_from_one:
  assumes "0 < j" "j < 0x7FFFFFFF" "idr_list_find tbl (of_nat j) = None"
  shows "idr_list_probe tbl 1 < 0x7FFFFFFF"
proof -
  have "1 \<le> j" using assms(1) by linarith
  then have "\<not> j < idr_list_probe tbl 1"
    using idr_list_probe_used [of 1 j tbl] assms(3) by blast
  with assms(2) show ?thesis by linarith
qed

lemma get_new_above_from_zero:
  assumes "fr_id g = 0" "fr_time g \<noteq> 0" "0 < j" "j < 0x7FFFFFFF" "idr_list_find tbl (of_nat j) = None"
  shows "fst (idr_list_get_new_above alloc g tbl q) \<noteq> Inl EAGAIN"
  using probe_from_one [OF assms(3-5)] assms(1,2)
  by (simp add: idr_list_get_new_above_bumped idr_list_bumped_def Let_def)

lemma idr_list_get_again_returns:
  assumes "idr_globals_cover g tbl" "wrap_left g" "0 < j" "j < 0x7FFFFFFF" "idr_list_find tbl (of_nat j) = None"
  shows "\<exists>y. idr_list_get_again alloc g tbl q = Some y"
proof -
  obtain r g' tbl' where call: "idr_list_get_new_above alloc g tbl q = (r, g', tbl')"
    by (metis prod_cases3)
  note step = get_new_above_cases [OF assms(1,2) call]
  show ?thesis
  proof (cases "r = Inl EAGAIN")
    case False
    then show ?thesis by (subst idr_list_get_again_unfold) (simp add: call)
  next
    case True
    with step have s: "tbl' = tbl" "fr_id g' = 0" "fr_time g' \<noteq> 0" by simp_all
    have "fst (idr_list_get_new_above alloc g' tbl q) \<noteq> Inl EAGAIN"
      by (rule get_new_above_from_zero [OF s(2,3) assms(3-5)])
    then have "\<exists>y. idr_list_get_again alloc g' tbl q = Some y"
      by (subst idr_list_get_again_unfold) (auto split: prod.splits)
    with True s call show ?thesis by (subst idr_list_get_again_unfold) simp
  qed
qed

lemma idr_list_get_again_ends_iff:
  assumes "idr_globals_cover g tbl" "wrap_left g"
  shows "(\<exists>y. idr_list_get_again True g tbl q = Some y) \<longleftrightarrow>
    (\<exists>j. 0 < j \<and> j < 0x7FFFFFFF \<and> idr_list_find tbl (of_nat j) = None)"
proof
  assume "\<exists>y. idr_list_get_again True g tbl q = Some y"
  then obtain r g' tbl' where "idr_list_get_again True g tbl q = Some (r, g', tbl')"
    by auto
  from idr_list_get_againD [OF this assms] obtain h
    where h: "0 < h" "h < 0x7FFFFFFF" "idr_list_lookup tbl h = None"
    by (auto simp: get_spec_def split: sum.splits)
  then have "0 < unat h" "unat h < 0x7FFFFFFF" "idr_list_find tbl (of_nat (unat h)) = None"
    by (simp_all add: word_less_nat_alt idr_list_find_lookup)
  then show "\<exists>j. 0 < j \<and> j < 0x7FFFFFFF \<and> idr_list_find tbl (of_nat j) = None" by blast
qed (use idr_list_get_again_returns [OF assms] in blast)

subsection \<open>What the counters mean\<close>

text \<open>A handle is known by its file, its number and its object.\<close>

type_synonym hdl = "nat \<times> u32 \<times> nat"

definition held :: "hdl set \<Rightarrow> nat \<Rightarrow> hdl set" where
  "held H p = {x \<in> H. snd (snd x) = p}"

definition handles :: "gem \<Rightarrow> hdl set" where
  "handles s = {(file, h, p). \<exists>tbl. files s file = Some tbl \<and> idr_list_lookup tbl h = Some (Some p)}"

text \<open>
  A cell of the heap with \<open>n\<close> handles and \<open>e\<close> references of the driver. An object that has a name has
  a handle and is what the name table has under that name; when the driver frees objects, an object
  that exists is referenced.
\<close>

definition cell_ok :: "gem \<Rightarrow> nat \<Rightarrow> nat \<Rightarrow> nat \<Rightarrow> drm_gem_object option \<Rightarrow> bool" where
  "cell_ok s n e p c =
     (case c of
        None \<Rightarrow> n = 0 \<and> e = 0
      | Some ob \<Rightarrow>
          unat (handle_count ob) = n \<and>
          unat (refcount ob) = n + e + (if obj_name ob \<noteq> 0 then 1 else 0) \<and>
          (obj_name ob \<noteq> 0 \<longrightarrow> 0 < n \<and> idr_list_lookup (object_name_idr s) (obj_name ob) = Some (Some p)) \<and>
          (gem_free_object (driver s) \<longrightarrow> 0 < n + e))"

definition names_ok :: "gem \<Rightarrow> bool" where
  "names_ok s \<longleftrightarrow> idr_list_inv (object_name_idr s) \<and> idr_globals_cover (globals s) (object_name_idr s) \<and>
     (\<forall>n q. idr_list_lookup (object_name_idr s) n = Some q \<longrightarrow>
        (\<exists>p ob. q = Some p \<and> objects s p = Some ob \<and> obj_name ob = n))"

definition refs_ok :: "hdl set \<Rightarrow> (nat \<Rightarrow> nat) \<Rightarrow> gem \<Rightarrow> bool" where
  "refs_ok H E s \<longleftrightarrow> finite H \<and> (\<forall>p. cell_ok s (card (held H p)) (E p) p (objects s p)) \<and> names_ok s"

definition tables_ok :: "gem \<Rightarrow> bool" where
  "tables_ok s \<longleftrightarrow>
     (\<forall>file tbl. files s file = Some tbl \<longrightarrow> idr_list_inv tbl \<and> idr_globals_cover (globals s) tbl)"

definition gem_inv :: "(nat \<Rightarrow> nat) \<Rightarrow> gem \<Rightarrow> bool" where
  "gem_inv E s \<longleftrightarrow> refs_ok (handles s) E s \<and> tables_ok s"

lemma held_insert: "held (insert (f, h, p) H) q = (if q = p then insert (f, h, p) (held H q) else held H q)"
  by (auto simp: held_def)

lemma held_diff: "held (H - {(f, h, p)}) q = (if q = p then held H q - {(f, h, p)} else held H q)"
  by (auto simp: held_def)

lemma finite_held [simp]: "finite H \<Longrightarrow> finite (held H p)"
  by (simp add: held_def)

lemma in_held: "(f, h, p) \<in> H \<Longrightarrow> (f, h, p) \<in> held H p"
  by (simp add: held_def)

lemma card_held_pos: "finite H \<Longrightarrow> (f, h, p) \<in> H \<Longrightarrow> 0 < card (held H p)"
  using in_held [of f h p H] by (auto simp: card_gt_0_iff)

lemma cell_ok_cong:
  "object_name_idr s' = object_name_idr s \<Longrightarrow> driver s' = driver s \<Longrightarrow> cell_ok s' n e p c = cell_ok s n e p c"
  by (cases c) (simp_all add: cell_ok_def)

lemma refs_ok_objects:
  assumes "refs_ok H E s" "0 < E p \<or> (f, h, p) \<in> H"
  obtains ob where "objects s p = Some ob"
  using assms card_held_pos [of H f h p]
  by (cases "objects s p") (auto simp: refs_ok_def cell_ok_def dest!: spec [of _ p])

text \<open>A change that touches one object and keeps its name.\<close>

lemma refs_ok_set_object:
  assumes ok: "refs_ok H E s" and ob: "objects s p = Some ob" and name: "obj_name ob' = obj_name ob"
    and H': "finite H'" "\<And>q. q \<noteq> p \<Longrightarrow> held H' q = held H q \<and> E' q = E q"
    and cell: "cell_ok s (card (held H' p)) (E' p) p (Some ob')"
  shows "refs_ok H' E' (set_object p ob' s)"
proof -
  have "cell_ok (set_object p ob' s) n e q c = cell_ok s n e q c" for n e q c
    by (rule cell_ok_cong) (simp_all add: set_object_def)
  moreover have "names_ok (set_object p ob' s)"
    using ok ob name unfolding names_ok_def refs_ok_def
    by (simp add: set_object_def) (metis option.inject)
  ultimately show ?thesis
    using ok H' cell by (simp add: refs_ok_def set_object_def)
qed

lemma unat_inc: "unat x + 1 < 2 ^ 32 \<Longrightarrow> unat (x + 1 :: u32) = unat x + 1"
  using unat_add_nowrap [of x 1] by simp

lemma unat_dec: "0 < unat x \<Longrightarrow> unat (x - 1 :: u32) = unat x - 1"
  using unat_sub_le [of 1 x] by (simp add: word_le_nat_alt)

lemma kref_get_ok:
  assumes "refs_ok H E s" "objects s p = Some ob" "unat (refcount ob) + 1 < 2 ^ 32"
  shows "refs_ok H (E(p := E p + 1)) (set_object p (ob\<lparr>refcount := refcount ob + 1\<rparr>) s)"
proof (rule refs_ok_set_object [OF assms(1,2)])
  have "cell_ok s (card (held H p)) (E p) p (Some ob)"
    using assms(1,2) by (metis refs_ok_def)
  then show "cell_ok s (card (held H p)) ((E(p := E p + 1)) p) p (Some (ob\<lparr>refcount := refcount ob + 1\<rparr>))"
    using assms(3) by (simp add: cell_ok_def unat_inc)
qed (use assms(1) in \<open>auto simp: refs_ok_def\<close>)

lemma handle_inc_ok:
  assumes "refs_ok H E s" "objects s p = Some ob" "0 < E p" "(f, h, p) \<notin> H"
  shows "refs_ok (insert (f, h, p) H) (E(p := E p - 1)) (set_object p (ob\<lparr>handle_count := handle_count ob + 1\<rparr>) s)"
proof (rule refs_ok_set_object [OF assms(1,2)])
  have fin: "finite H" and c: "cell_ok s (card (held H p)) (E p) p (Some ob)"
    using assms(1,2) by (simp_all add: refs_ok_def) metis
  have "unat (handle_count ob) + 1 \<le> unat (refcount ob)"
    using c assms(3) by (simp add: cell_ok_def)
  then have "unat (handle_count ob) + 1 < 2 ^ 32"
    using unat_u32_less [of "refcount ob"] by simp
  moreover have "card (held (insert (f, h, p) H) p) = card (held H p) + 1"
    using assms(4) fin by (simp add: held_insert) (simp add: held_def)
  ultimately show "cell_ok s (card (held (insert (f, h, p) H) p)) ((E(p := E p - 1)) p) p
      (Some (ob\<lparr>handle_count := handle_count ob + 1\<rparr>))"
    using c assms(3) by (auto simp: cell_ok_def unat_inc)
qed (use assms(1) in \<open>auto simp: refs_ok_def held_insert\<close>)

text \<open>What stays when a reference is dropped.\<close>

definition frame :: "gem \<Rightarrow> gem \<Rightarrow> bool" where
  "frame s s' \<longleftrightarrow> files s' = files s \<and> globals s' = globals s \<and> driver s' = driver s"

lemma unreference_ok:
  assumes ok: "refs_ok H E s" and e: "0 < E p"
  obtains s' where "kref_put p drm_gem_object_free s = Inr s'" "refs_ok H (E(p := E p - 1)) s'" "frame s s'"
    "\<And>q. q \<noteq> p \<Longrightarrow> objects s' q = objects s q"
    "\<And>ob. objects s p = Some ob \<Longrightarrow> 0 < card (held H p) + (E p - 1) \<Longrightarrow>
       objects s' p = Some (ob\<lparr>refcount := refcount ob - 1\<rparr>)"
proof -
  obtain ob where ob: "objects s p = Some ob" using refs_ok_objects [of H E s p] ok e by metis
  have fin: "finite H" and c: "cell_ok s (card (held H p)) (E p) p (Some ob)" and n: "names_ok s"
    using ok ob by (simp_all add: refs_ok_def) metis
  let ?ob = "ob\<lparr>refcount := refcount ob - 1\<rparr>"
  let ?s = "set_object p ?ob s"
  have r: "unat (refcount ob - 1) = card (held H p) + (E p - 1) + (if obj_name ob \<noteq> 0 then 1 else 0)"
    using c e by (simp add: cell_ok_def unat_dec)
  have live: "refs_ok H (E(p := E p - 1)) ?s" if "0 < card (held H p) + (E p - 1) \<or> \<not> gem_free_object (driver s)"
    by (rule refs_ok_set_object [OF ok ob]) (use c r that fin in \<open>auto simp: cell_ok_def\<close>)
  show ?thesis
  proof (cases "0 < card (held H p) + (E p - 1)")
    case True
    then have "refcount ob - 1 \<noteq> 0" using r by (metis add_gr_0 not_gr0 unat_0)
    with ob have run: "kref_put p drm_gem_object_free s = Inr ?s"
      by (simp add: kref_put_def Let_def)
    show ?thesis
      by (rule that [OF run live]) (use True ob in \<open>simp_all add: set_object_def frame_def\<close>)
  next
    case False
    then have zero: "card (held H p) = 0" "E p - 1 = 0" by simp_all
    then have name: "obj_name ob = 0" using c by (auto simp: cell_ok_def)
    with r zero have "refcount ob - 1 = 0" by (simp add: unat_eq_zero)
    with ob have put: "kref_put p drm_gem_object_free s = drm_gem_object_free p ?s"
      by (simp add: kref_put_def Let_def)
    show ?thesis
    proof (cases "gem_free_object (driver s)")
      case True
      let ?t = "?s\<lparr>objects := (objects ?s)(p := None), events := events ?s @ [Free_object p]\<rparr>"
      have run: "kref_put p drm_gem_object_free s = Inr ?t"
        using True put by (simp add: drm_gem_object_free_def set_object_def)
      have "names_ok ?t"
      proof -
        have "n \<noteq> 0" if "idr_list_lookup (object_name_idr s) n \<noteq> None" for n
        proof -
          obtain en where "en \<in> set (object_name_idr s (hash_key n))" "handle en = n"
            using \<open>idr_list_lookup (object_name_idr s) n \<noteq> None\<close> idr_list_lookup_None [of "object_name_idr s" n]
            by auto
          with n show ?thesis by (auto simp: names_ok_def idr_globals_cover_def)
        qed
        with n ob name show ?thesis
          unfolding names_ok_def by (simp add: set_object_def) (metis option.distinct(1) option.inject)
      qed
      moreover have "cell_ok ?t m e q cc = cell_ok s m e q cc" for m e q cc
        by (rule cell_ok_cong) (simp_all add: set_object_def)
      ultimately have t: "refs_ok H (E(p := E p - 1)) ?t"
        using ok zero unfolding refs_ok_def by (simp add: set_object_def cell_ok_def)
      show ?thesis
        by (rule that [OF run t]) (use False in \<open>simp_all add: set_object_def frame_def\<close>)
    next
      case False
      then have run: "kref_put p drm_gem_object_free s = Inr ?s"
        using put by (simp add: drm_gem_object_free_def set_object_def)
      show ?thesis
        by (rule that [OF run live])
          (use False \<open>\<not> 0 < card (held H p) + (E p - 1)\<close> in \<open>simp_all add: set_object_def frame_def\<close>)
    qed
  qed
qed

subsection \<open>Names\<close>

lemma lookup_entry:
  assumes "idr_list_lookup tbl n = Some q"
  obtains en where "en \<in> set (tbl (hash_key n))" "handle en = n" "obj en = q"
proof -
  obtain en where "find (\<lambda>e. handle e = n) (tbl (hash_key n)) = Some en" "q = obj en"
    using assms by (auto simp: idr_list_lookup_def idr_list_entry_def)
  then show ?thesis
    using that [of en] nth_mem by (auto simp: find_Some_iff)
qed

lemma cover_lookup:
  assumes "idr_globals_cover g tbl" "idr_list_lookup tbl n = Some q"
  shows "n \<noteq> 0 \<and> q \<noteq> None"
  using assms by (auto simp: idr_globals_cover_def elim!: lookup_entry)

lemma cover_remove: "idr_globals_cover g tbl \<Longrightarrow> idr_globals_cover g (snd (idr_list_remove tbl n))"
  by (auto simp: idr_globals_cover_def idr_list_remove_def split: option.splits dest: notin_set_remove1)

text \<open>Dropping the name of an object, and giving it one.\<close>

lemma refs_ok_unname:
  assumes ok: "refs_ok H E s" and ob: "objects s p = Some ob" "obj_name ob \<noteq> 0" and ob': "obj_name ob' = 0"
    and H': "finite H'" "\<And>q. q \<noteq> p \<Longrightarrow> held H' q = held H q \<and> E' q = E q"
    and cell: "cell_ok s (card (held H' p)) (E' p) p (Some ob')"
  shows "refs_ok H' E' (set_object p ob' (s\<lparr>object_name_idr := snd (idr_list_remove (object_name_idr s) (obj_name ob))\<rparr>))"
    (is "refs_ok H' E' ?t")
proof -
  let ?names = "object_name_idr s" and ?n = "obj_name ob"
  have n: "names_ok s" and c: "\<And>q. cell_ok s (card (held H q)) (E q) q (objects s q)"
    using ok by (simp_all add: refs_ok_def)
  have p: "idr_list_lookup ?names ?n = Some (Some p)"
    using c [of p] ob by (simp add: cell_ok_def)
  have l: "idr_list_lookup (snd (idr_list_remove ?names ?n)) = (idr_list_lookup ?names)(?n := None)"
    using lookup_idr_list_remove [of ?names ?n] n p by (simp add: names_ok_def)
  have "names_ok ?t"
    using n ob ob' p unfolding names_ok_def
    by (simp add: l set_object_def idr_list_inv_remove cover_remove) (metis option.inject)
  moreover have "cell_ok ?t (card (held H' q)) (E' q) q (objects ?t q)" for q
  proof (cases "q = p")
    case True
    then show ?thesis using cell ob' by (simp add: cell_ok_def set_object_def)
  next
    case False
    have "obj_name x \<noteq> ?n" if "objects s q = Some x" "obj_name x \<noteq> 0" for x
      using c [of q] that p False by (auto simp: cell_ok_def)
    then show ?thesis
      using c [of q] False H' by (auto simp: cell_ok_def l set_object_def split: option.splits)
  qed
  ultimately show ?thesis using H' by (simp add: refs_ok_def)
qed

lemma refs_ok_name:
  assumes ok: "refs_ok H E s" and ob: "objects s p = Some ob" "obj_name ob = 0" and n: "n \<noteq> 0" "n \<le> fr_id g"
    and free: "idr_list_lookup (object_name_idr s) n = None" and g: "globals_le (globals s) g"
    and H: "held H p \<noteq> {}" and e: "0 < E p"
  shows "refs_ok H (E(p := E p - 1)) (set_object p (ob\<lparr>obj_name := n\<rparr>)
     (s\<lparr>globals := g, object_name_idr := idr_list_add (object_name_idr s) n (Some p)\<rparr>))"
    (is "refs_ok H ?E ?t")
proof -
  let ?names = "object_name_idr s"
  have ns: "names_ok s" and c: "\<And>q. cell_ok s (card (held H q)) (E q) q (objects s q)" and fin: "finite H"
    using ok by (simp_all add: refs_ok_def)
  note l = lookup_idr_list_add [of ?names n "Some p"]
  have "idr_globals_cover g (idr_list_add ?names n (Some p))"
    using idr_globals_cover_add [OF cover_globals_le [OF _ g], of ?names n p] ns n by (simp add: names_ok_def)
  moreover have "\<exists>p' y. q = Some p' \<and> objects ?t p' = Some y \<and> obj_name y = m"
    if "idr_list_lookup (object_name_idr ?t) m = Some q" for m q
  proof (cases "m = n")
    case True
    with that show ?thesis by (auto simp: set_object_def l)
  next
    case False
    with that have lm: "idr_list_lookup ?names m = Some q" by (simp add: set_object_def l)
    then obtain p' y where y: "q = Some p'" "objects s p' = Some y" "obj_name y = m"
      using ns unfolding names_ok_def by blast
    moreover from this have "p' \<noteq> p"
      using cover_lookup [OF _ lm] ns ob by (auto simp: names_ok_def)
    ultimately show ?thesis by (simp add: set_object_def)
  qed
  ultimately have "names_ok ?t"
    using ns idr_list_inv_add [OF _ free, of "Some p"] by (auto simp: names_ok_def set_object_def)
  moreover have "cell_ok ?t (card (held H q)) (?E q) q (objects ?t q)" for q
  proof (cases "q = p")
    case True
    have "0 < card (held H p)" using H fin by (simp add: card_gt_0_iff)
    with True show ?thesis using c [of p] n ob e l by (auto simp: cell_ok_def set_object_def)
  next
    case False
    then show ?thesis
      using c [of q] free by (auto simp: cell_ok_def l set_object_def split: option.splits)
  qed
  ultimately show ?thesis using fin by (simp add: refs_ok_def)
qed

lemma handle_put_ok:
  assumes ok: "refs_ok H E s" and x: "(f, h, p) \<in> H"
  obtains s' where "handle_put p s = Inr s'" "refs_ok (H - {(f, h, p)}) (E(p := E p + 1)) s'" "frame s s'"
proof -
  let ?H = "H - {(f, h, p)}" and ?E = "E(p := E p + 1)"
  obtain ob where ob: "objects s p = Some ob" using refs_ok_objects [OF ok] x by metis
  have fin: "finite H" and c: "cell_ok s (card (held H p)) (E p) p (Some ob)"
    using ok ob by (simp_all add: refs_ok_def) metis
  define n where "n = card (held ?H p)"
  have card: "card (held H p) = Suc n"
    using card_Suc_Diff1 [of "held H p" "(f, h, p)"] in_held [OF x] fin by (simp add: n_def held_diff)
  have hc: "unat (handle_count ob - 1) = n"
    using c card by (simp add: cell_ok_def unat_dec)
  have others: "finite ?H" "\<And>q. q \<noteq> p \<Longrightarrow> held ?H q = held H q \<and> ?E q = E q"
    using fin by (simp_all add: held_diff)
  let ?ob = "ob\<lparr>handle_count := handle_count ob - 1\<rparr>"
  let ?s = "set_object p ?ob s"
  show ?thesis
  proof (cases "n = 0 \<and> obj_name ob \<noteq> 0")
    case False
    have ok': "refs_ok ?H ?E ?s"
      by (rule refs_ok_set_object [OF ok ob _ others]) (use c card hc False n_def in \<open>auto simp: cell_ok_def\<close>)
    have run: "handle_put p s = Inr ?s"
      using ob False hc by (auto simp: handle_put_def Let_def drm_gem_object_handle_free_def set_object_def)
    show ?thesis
      by (rule that [OF run ok']) (simp add: frame_def set_object_def)
  next
    case True
    let ?s2 = "s\<lparr>object_name_idr := snd (idr_list_remove (object_name_idr s) (obj_name ob))\<rparr>"
    let ?ob' = "?ob\<lparr>obj_name := 0, refcount := refcount ob - 1\<rparr>"
    have r: "unat (refcount ob) = E p + 2"
      using c card True by (simp add: cell_ok_def)
    then have r1: "unat (refcount ob - 1) = E p + 1" by (simp add: unat_dec)
    then have nz: "refcount ob - 1 \<noteq> 0" by (metis add_is_0 one_neq_zero unat_0)
    have ok': "refs_ok ?H ?E (set_object p ?ob' ?s2)"
      by (rule refs_ok_unname [OF ok ob _ _ others]) (use c card hc True n_def r1 in \<open>auto simp: cell_ok_def\<close>)
    have "handle_count ob - 1 = 0" using hc True by (simp add: unat_eq_zero)
    then have run: "handle_put p s = Inr (set_object p ?ob' ?s2)"
      using ob True nz
      by (simp add: handle_put_def Let_def drm_gem_object_handle_free_def set_object_def kref_put_def)
    show ?thesis
      by (rule that [OF run ok']) (simp add: frame_def set_object_def)
  qed
qed

subsection \<open>Handles\<close>

lemma handle_unreference_ok:
  assumes ok: "refs_ok H E s" and x: "(f, h, p) \<in> H"
  obtains s' where "drm_gem_object_handle_unreference_unlocked (Some p) s = Inr s'"
    "refs_ok (H - {(f, h, p)}) E s'" "frame s s'"
proof -
  obtain ob where ob: "objects s p = Some ob" using refs_ok_objects [OF ok] x by metis
  have "cell_ok s (card (held H p)) (E p) p (Some ob)" "finite H"
    using ok ob by (simp_all add: refs_ok_def) metis
  then have "handle_count ob \<noteq> 0"
    using card_held_pos [OF _ x] by (auto simp: cell_ok_def)
  moreover obtain s1 where s1: "handle_put p s = Inr s1" "refs_ok (H - {(f, h, p)}) (E(p := E p + 1)) s1" "frame s s1"
    using handle_put_ok [OF ok x] .
  moreover obtain s2 where "kref_put p drm_gem_object_free s1 = Inr s2" "refs_ok (H - {(f, h, p)}) E s2" "frame s1 s2"
    by (rule unreference_ok [OF s1(2), of p]) (simp_all add: fun_upd_idem)
  ultimately show ?thesis
    using that ob by (simp add: drm_gem_object_handle_unreference_unlocked_def
        drm_gem_object_unreference_unlocked_def frame_def)
qed

text \<open>The two ways of dropping a handle differ in a lock only.\<close>

lemma handle_unreference_locked:
  "drm_gem_object_handle_unreference optr s = drm_gem_object_handle_unreference_unlocked optr s"
  unfolding drm_gem_object_handle_unreference_def drm_gem_object_handle_unreference_unlocked_def
    drm_gem_object_unreference_def drm_gem_object_unreference_unlocked_def ..

lemma refs_ok_cong:
  assumes "driver s' = driver s" "objects s' = objects s" "object_name_idr s' = object_name_idr s" "globals s' = globals s"
  shows "refs_ok H E s' = refs_ok H E s"
  using cell_ok_cong [of s' s] assms by (simp add: refs_ok_def names_ok_def)

lemma refs_ok_files [simp]: "refs_ok H E (s\<lparr>files := F\<rparr>) = refs_ok H E s"
  by (rule refs_ok_cong) simp_all

lemma refs_ok_call_close [simp]: "refs_ok H E (call_close_object p f s) = refs_ok H E s"
  by (rule refs_ok_cong) (simp_all add: call_close_object_def)

lemma call_close_fields [simp]:
  "files (call_close_object p f s) = files s" "globals (call_close_object p f s) = globals s"
  "driver (call_close_object p f s) = driver s" "objects (call_close_object p f s) = objects s"
  by (simp_all add: call_close_object_def)

lemma refs_ok_globals:
  assumes "refs_ok H E s" "globals_le (globals s) g"
  shows "refs_ok H E (s\<lparr>globals := g\<rparr>)"
proof -
  have "cell_ok (s\<lparr>globals := g\<rparr>) n e p c = cell_ok s n e p c" for n e p c
    by (rule cell_ok_cong) simp_all
  with assms show ?thesis
    by (auto simp: refs_ok_def names_ok_def intro: cover_globals_le)
qed

lemma tables_ok_cong: "files s' = files s \<Longrightarrow> globals s' = globals s \<Longrightarrow> tables_ok s' = tables_ok s"
  by (simp add: tables_ok_def)

lemma handles_cong: "files s' = files s \<Longrightarrow> handles s' = handles s"
  by (simp add: handles_def)

lemma handles_find:
  assumes "gem_inv E s" "files s f = Some tbl"
  shows "idr_list_find tbl h = Some p \<longleftrightarrow> (f, h, p) \<in> handles s"
proof -
  have "idr_globals_cover (globals s) tbl"
    using assms by (simp add: gem_inv_def tables_ok_def)
  then show ?thesis
    using assms(2) by (auto simp: handles_def idr_list_find_lookup split: option.splits)
qed

lemma handles_upd:
  "handles (s\<lparr>files := (files s)(f \<mapsto> tbl)\<rparr>) =
     {x \<in> handles s. fst x \<noteq> f} \<union> {(f, h, p) | h p. idr_list_lookup tbl h = Some (Some p)}"
  by (auto simp: handles_def split: if_splits)

lemma handles_delete:
  assumes "files s f = Some tbl" "idr_list_inv tbl" "idr_list_lookup tbl h = Some (Some p)"
  shows "handles (s\<lparr>files := (files s)(f \<mapsto> snd (idr_list_remove tbl h))\<rparr>) = handles s - {(f, h, p)}"
  unfolding handles_upd using assms by (force simp: lookup_idr_list_remove handles_def split: if_splits)

lemma handles_add:
  assumes "files s f = Some tbl" "idr_list_lookup tbl h = None"
  shows "handles (s\<lparr>files := (files s)(f \<mapsto> idr_list_add tbl h (Some p))\<rparr>) = insert (f, h, p) (handles s)"
    and "(f, h, p) \<notin> handles s"
  unfolding handles_upd using assms by (auto simp: lookup_idr_list_add handles_def split: if_splits)

lemma gem_inv_frame:
  assumes "refs_ok (handles s) E s'" "frame s s'" "tables_ok s"
  shows "gem_inv E s' \<and> handles s' = handles s"
  using assms handles_cong [of s' s] tables_ok_cong [of s' s] by (simp add: gem_inv_def frame_def)

lemma drm_gem_handle_delete_ok:
  assumes inv: "gem_inv E s" and f: "files s f = Some tbl"
  obtains r s' where "drm_gem_handle_delete f h s = Inr (r, s')" "gem_inv E s'" "driver s' = driver s"
    "globals s' = globals s"
    "case idr_list_find tbl h of
       None \<Rightarrow> r = Inl EINVAL \<and> s' = s
     | Some p \<Rightarrow> r = Inr () \<and> handles s' = handles s - {(f, h, p)}"
proof (cases "idr_list_find tbl h")
  case None
  then show ?thesis using that [of "Inl EINVAL" s] inv f by (simp add: drm_gem_handle_delete_def)
next
  case (Some p)
  have ok: "refs_ok (handles s) E s" and t: "tables_ok s" using inv by (simp_all add: gem_inv_def)
  have x: "(f, h, p) \<in> handles s" using handles_find [OF inv f] Some by simp
  then have l: "idr_list_lookup tbl h = Some (Some p)" using f by (simp add: handles_def)
  let ?s1 = "s\<lparr>files := (files s)(f \<mapsto> snd (idr_list_remove tbl h))\<rparr>"
  let ?s2 = "call_close_object p f ?s1"
  have t2: "tables_ok ?s2" and h2: "handles ?s2 = handles s - {(f, h, p)}"
    using t f handles_delete [OF f _ l] handles_cong [of ?s2 ?s1]
    by (auto simp: tables_ok_def idr_list_inv_remove cover_remove)
  have "refs_ok (handles s) E ?s2" using ok by simp
  then obtain s' where s': "drm_gem_object_handle_unreference_unlocked (Some p) ?s2 = Inr s'"
    "refs_ok (handles s - {(f, h, p)}) E s'" "frame ?s2 s'"
    using x by (rule handle_unreference_ok)
  obtain ob where "objects s p = Some ob" using refs_ok_objects [OF ok] x by metis
  then have run: "drm_gem_handle_delete f h s = Inr (Inr (), s')"
    using f Some s'(1) by (simp add: drm_gem_handle_delete_def Let_def)
  show ?thesis
    using that [OF run] gem_inv_frame [of ?s2 E s'] s' h2 t2 Some by (simp add: frame_def)
qed

subsection \<open>Creating a handle\<close>

lemma handle_reference_eq:
  assumes "objects s p = Some ob"
  shows "drm_gem_object_handle_reference p s =
     Inr (set_object p (ob\<lparr>refcount := refcount ob + 1, handle_count := handle_count ob + 1\<rparr>) s)"
  using assms by (simp add: drm_gem_object_handle_reference_def drm_gem_object_reference_def kref_get_def set_object_def)

lemma handle_reference_ok:
  assumes ok: "refs_ok H E s" and ob: "objects s p = Some ob" "unat (refcount ob) + 1 < 2 ^ 32"
    and x: "(f, h, p) \<notin> H"
  shows "refs_ok (insert (f, h, p) H) E
     (set_object p (ob\<lparr>refcount := refcount ob + 1, handle_count := handle_count ob + 1\<rparr>) s)"
proof -
  let ?s = "set_object p (ob\<lparr>refcount := refcount ob + 1\<rparr>) s"
  have o: "objects ?s p = Some (ob\<lparr>refcount := refcount ob + 1\<rparr>)" by (simp add: set_object_def)
  from handle_inc_ok [OF kref_get_ok [OF ok ob] o _ x] show ?thesis
    by (simp add: set_object_def fun_upd_idem)
qed

text \<open>The state once the table has the new handle and the object its reference.\<close>

lemma handle_created_ok:
  assumes inv: "gem_inv E s" and f: "files s f = Some tbl" and ob: "objects s p = Some ob" "unat (refcount ob) + 1 < 2 ^ 32"
    and get: "get_spec alloc (globals s) tbl (Some p) (Inr h) g tbl'"
    and s': "s' = set_object p (ob\<lparr>refcount := refcount ob + 1, handle_count := handle_count ob + 1\<rparr>)
                (s\<lparr>globals := g, files := (files s)(f \<mapsto> tbl')\<rparr>)"
  shows "gem_inv E s' \<and> handles s' = insert (f, h, p) (handles s) \<and> (f, h, p) \<notin> handles s"
proof -
  have ok: "refs_ok (handles s) E s" and t: "tables_ok s" using inv by (simp_all add: gem_inv_def)
  have le: "globals_le (globals s) g" and free: "idr_list_lookup tbl h = None" and h: "0 < h" "h = fr_id g"
    and tbl': "tbl' = idr_list_add tbl h (Some p)"
    using get by (auto simp: get_spec_def)
  let ?s1 = "s\<lparr>globals := g, files := (files s)(f \<mapsto> tbl')\<rparr>"
  have new: "(f, h, p) \<notin> handles s" using handles_add(2) [OF f free] .
  have "refs_ok (handles s) E ?s1"
    using refs_ok_globals [OF ok le] refs_ok_cong [of ?s1 "s\<lparr>globals := g\<rparr>"] by simp
  then have r: "refs_ok (insert (f, h, p) (handles s)) E s'"
    unfolding s' by (rule handle_reference_ok) (use ob new in simp_all)
  have hs: "handles s' = insert (f, h, p) (handles s)"
    using handles_add(1) [OF f free, of p] handles_cong [of s' "s\<lparr>files := (files s)(f \<mapsto> tbl')\<rparr>"]
    by (simp add: s' tbl' set_object_def)
  have "idr_list_inv tbl'" "idr_globals_cover g tbl'"
    using t f h idr_list_inv_add [OF _ free, of "Some p"]
      idr_globals_cover_add [OF cover_globals_le [OF _ le], of tbl h p]
    by (auto simp: tables_ok_def tbl')
  then have "tables_ok s'"
    using t le by (auto simp: tables_ok_def s' set_object_def intro: cover_globals_le split: if_splits)
  with r hs new show ?thesis by (simp add: gem_inv_def)
qed

lemma gem_inv_globals:
  assumes "gem_inv E s" "files s f = Some tbl" "globals_le (globals s) g"
  shows "gem_inv E (s\<lparr>globals := g, files := (files s)(f \<mapsto> tbl)\<rparr>)
     \<and> handles (s\<lparr>globals := g, files := (files s)(f \<mapsto> tbl)\<rparr>) = handles s"
proof -
  have e: "(files s)(f \<mapsto> tbl) = files s" using assms(2) by (simp add: fun_upd_idem)
  have "s\<lparr>globals := g, files := files s\<rparr> = s\<lparr>globals := g\<rparr>" by simp
  then show ?thesis
    unfolding e using assms refs_ok_globals [OF _ assms(3)] handles_cong [of "s\<lparr>globals := g\<rparr>" s]
    by (auto simp: gem_inv_def tables_ok_def intro: cover_globals_le [OF _ assms(3)])
qed

lemma drm_gem_handle_create_ok:
  assumes inv: "gem_inv E s" and w: "wrap_left (globals s)" and f: "files s f = Some tbl"
    and ob: "objects s p = Some ob" "unat (refcount ob) + 1 < 2 ^ 32"
    and y: "drm_gem_handle_create alloc f p s = Some y"
  shows "\<exists>r s'. y = Inr (r, s') \<and> gem_inv E s' \<and> driver s' = driver s \<and>
    (case r of
       Inl _ \<Rightarrow> handles s' = handles s
     | Inr h \<Rightarrow> handles s' = insert (f, h, p) (handles s) \<and> (f, h, p) \<notin> handles s \<and>
         (\<exists>ob'. objects s' p = Some ob' \<and> obj_size ob' = obj_size ob \<and> obj_name ob' = obj_name ob))"
proof -
  have cover: "idr_globals_cover (globals s) tbl" using inv f by (simp add: gem_inv_def tables_ok_def)
  obtain r g tbl' where again: "idr_list_get_again alloc (globals s) tbl (Some p) = Some (r, g, tbl')"
    using y f ob by (auto simp: drm_gem_handle_create_def split: option.splits)
  have get: "get_spec alloc (globals s) tbl (Some p) r g tbl'"
    by (rule idr_list_get_againD [OF again cover w])
  let ?s1 = "s\<lparr>globals := g, files := (files s)(f \<mapsto> tbl')\<rparr>"
  show ?thesis
  proof (cases r)
    case (Inl e)
    then have "y = Inr (Inl e, ?s1)"
      using y f ob again by (simp add: drm_gem_handle_create_def Let_def)
    moreover have "tbl' = tbl" "globals_le (globals s) g" using get Inl by (simp_all add: get_spec_def)
    ultimately show ?thesis using gem_inv_globals [OF inv f, of g] by simp
  next
    case (Inr h)
    define s2 where "s2 = set_object p (ob\<lparr>refcount := refcount ob + 1, handle_count := handle_count ob + 1\<rparr>) ?s1"
    have s2: "gem_inv E s2" "handles s2 = insert (f, h, p) (handles s)" "(f, h, p) \<notin> handles s"
      using handle_created_ok [OF inv f ob get [unfolded Inr] s2_def] by simp_all
    have ref: "drm_gem_object_handle_reference p ?s1 = Inr s2"
      unfolding s2_def by (rule handle_reference_eq) (simp add: ob)
    have d: "driver s2 = driver s" "objects s2 p = Some (ob\<lparr>refcount := refcount ob + 1, handle_count := handle_count ob + 1\<rparr>)"
      and f2: "files s2 f = Some tbl'"
      by (simp_all add: s2_def set_object_def)
    have run: "(case gem_open_object (driver s) of
          None \<Rightarrow> Some (Inr (Inr h, s2))
        | Some oo \<Rightarrow> (case oo p f of
            Inr _ \<Rightarrow> Some (Inr (Inr h, s2))
          | Inl ret \<Rightarrow> (case drm_gem_handle_delete f h s2 of
              Inl e \<Rightarrow> Some (Inl e) | Inr (_, s) \<Rightarrow> Some (Inr (Inl ret, s))))) = Some y"
      using y by (simp add: drm_gem_handle_create_def f ob again Inr Let_def ref d(1))
    consider "y = Inr (Inr h, s2)" | e where "(case drm_gem_handle_delete f h s2 of
        Inl e \<Rightarrow> Some (Inl e) | Inr (_, s) \<Rightarrow> Some (Inr (Inl e, s))) = Some y"
    proof (cases "gem_open_object (driver s)")
      case (Some oo)
      with run that show ?thesis by (cases "oo p f") simp_all
    qed (use run that in simp)
    then show ?thesis
    proof cases
      case 1
      with s2 d show ?thesis by simp
    next
      case 2
      have find: "idr_list_find tbl' h = Some p" using handles_find [OF s2(1) f2] s2(2) by simp
      obtain r3 s3 where "drm_gem_handle_delete f h s2 = Inr (r3, s3)" "gem_inv E s3" "driver s3 = driver s2"
        "handles s3 = handles s2 - {(f, h, p)}"
        by (rule drm_gem_handle_delete_ok [OF s2(1) f2, of h]) (simp add: find)
      with 2 s2 d show ?thesis by auto
    qed
  qed
qed

subsection \<open>Looking up, naming and opening\<close>

text \<open>No counter is about to overflow: an operation adds at most two references to an object.\<close>

definition room :: "gem \<Rightarrow> bool" where
  "room s \<longleftrightarrow> (\<forall>p ob. objects s p = Some ob \<longrightarrow> unat (refcount ob) + 2 < 2 ^ 32)"

lemma gem_inv_set_object:
  assumes "gem_inv E s" "refs_ok (handles s) E' (set_object p ob s)"
  shows "gem_inv E' (set_object p ob s) \<and> handles (set_object p ob s) = handles s"
  using gem_inv_frame [of s E' "set_object p ob s"] assms by (simp add: gem_inv_def frame_def set_object_def)

lemma gem_inv_reference:
  assumes "gem_inv E s" "objects s p = Some ob" "unat (refcount ob) + 1 < 2 ^ 32"
  shows "drm_gem_object_reference p s = Inr (set_object p (ob\<lparr>refcount := refcount ob + 1\<rparr>) s)"
    and "gem_inv (E(p := E p + 1)) (set_object p (ob\<lparr>refcount := refcount ob + 1\<rparr>) s)"
    and "handles (set_object p (ob\<lparr>refcount := refcount ob + 1\<rparr>) s) = handles s"
proof -
  have "refs_ok (handles s) E s" using assms(1) by (simp add: gem_inv_def)
  from gem_inv_set_object [OF assms(1) kref_get_ok [OF this assms(2,3)]]
  show "gem_inv (E(p := E p + 1)) (set_object p (ob\<lparr>refcount := refcount ob + 1\<rparr>) s)"
    and "handles (set_object p (ob\<lparr>refcount := refcount ob + 1\<rparr>) s) = handles s"
    by blast+
qed (simp add: drm_gem_object_reference_def kref_get_def assms(2))

lemma gem_inv_unreference:
  assumes "gem_inv (E(p := E p + 1)) s"
  obtains s' where "drm_gem_object_unreference_unlocked (Some p) s = Inr s'" "gem_inv E s'"
    "handles s' = handles s" "driver s' = driver s" "globals s' = globals s" "files s' = files s"
    "\<And>ob. objects s p = Some ob \<Longrightarrow> held (handles s) p \<noteq> {} \<Longrightarrow> objects s' p = Some (ob\<lparr>refcount := refcount ob - 1\<rparr>)"
proof -
  have ok: "refs_ok (handles s) (E(p := E p + 1)) s" "tables_ok s" "finite (handles s)"
    using assms(1) by (simp_all add: gem_inv_def refs_ok_def)
  obtain s' where s': "kref_put p drm_gem_object_free s = Inr s'" "refs_ok (handles s) E s'" "frame s s'"
    "\<And>ob. objects s p = Some ob \<Longrightarrow> 0 < card (held (handles s) p) + E p \<Longrightarrow>
       objects s' p = Some (ob\<lparr>refcount := refcount ob - 1\<rparr>)"
    by (rule unreference_ok [OF ok(1), of p]) (simp_all add: fun_upd_idem)
  show ?thesis
    by (rule that [of s'])
      (use s' gem_inv_frame [OF s'(2,3) ok(2)] ok(3) in
        \<open>simp_all add: drm_gem_object_unreference_unlocked_def frame_def card_gt_0_iff\<close>)
qed

lemma drm_gem_object_lookup_ok:
  assumes inv: "gem_inv E s" and f: "files s f = Some tbl" and room: "room s" and find: "idr_list_find tbl h = Some p"
  obtains ob where "objects s p = Some ob" "unat (refcount ob) + 2 < 2 ^ 32"
    "drm_gem_object_lookup f h s = Inr (Some p, set_object p (ob\<lparr>refcount := refcount ob + 1\<rparr>) s)"
    "gem_inv (E(p := E p + 1)) (set_object p (ob\<lparr>refcount := refcount ob + 1\<rparr>) s)"
    "handles (set_object p (ob\<lparr>refcount := refcount ob + 1\<rparr>) s) = handles s"
proof -
  have x: "(f, h, p) \<in> handles s" using handles_find [OF inv f] find by simp
  obtain ob where ob: "objects s p = Some ob"
    using refs_ok_objects [of "handles s" E s p f h] inv x by (auto simp: gem_inv_def)
  moreover from this have c: "unat (refcount ob) + 2 < 2 ^ 32" using room by (simp add: room_def)
  ultimately show ?thesis
    using that gem_inv_reference [OF inv ob] f find by (simp add: drm_gem_object_lookup_def)
qed

lemma unreference_and_return_ok:
  assumes "gem_inv (E(p := E p + 1)) s"
  obtains s' where "unreference_and_return p ret s = Some (Inr (ret, s'))" "gem_inv E s'"
    "handles s' = handles s" "driver s' = driver s"
    "\<And>ob. objects s p = Some ob \<Longrightarrow> held (handles s) p \<noteq> {} \<Longrightarrow> objects s' p = Some (ob\<lparr>refcount := refcount ob - 1\<rparr>)"
  by (rule gem_inv_unreference [OF assms]) (use that in \<open>simp add: unreference_and_return_def\<close>)

lemma gem_inv_name:
  assumes inv: "gem_inv (E(p := E p + 1)) s" and ob: "objects s p = Some ob" "obj_name ob = 0" and H: "held (handles s) p \<noteq> {}"
    and get: "get_spec alloc (globals s) (object_name_idr s) (Some p) (Inr n) g names"
    and s': "s' = set_object p (ob\<lparr>obj_name := n\<rparr>) (s\<lparr>globals := g, object_name_idr := names\<rparr>)"
  shows "gem_inv E s' \<and> handles s' = handles s \<and> n \<noteq> 0"
proof -
  have le: "globals_le (globals s) g" and n: "n \<noteq> 0" "n \<le> fr_id g" "idr_list_lookup (object_name_idr s) n = None"
    and names: "names = idr_list_add (object_name_idr s) n (Some p)"
    using get by (auto simp: get_spec_def)
  have ok: "refs_ok (handles s) (E(p := E p + 1)) s" and t: "tables_ok s" using inv by (simp_all add: gem_inv_def)
  have r: "refs_ok (handles s) E s'"
    using refs_ok_name [OF ok ob n le H] by (simp add: s' names fun_upd_idem)
  moreover have h: "handles s' = handles s"
    using handles_cong [of s' s] by (simp add: s' set_object_def)
  moreover have "tables_ok s'"
    using t by (auto simp: tables_ok_def s' set_object_def intro: cover_globals_le [OF _ le])
  ultimately show ?thesis using n by (simp add: gem_inv_def)
qed

lemma gem_inv_names_unchanged:
  assumes "gem_inv E s" "globals_le (globals s) g"
  shows "gem_inv E (s\<lparr>globals := g, object_name_idr := object_name_idr s\<rparr>)
    \<and> handles (s\<lparr>globals := g, object_name_idr := object_name_idr s\<rparr>) = handles s"
proof -
  have "s\<lparr>globals := g, object_name_idr := object_name_idr s\<rparr> = s\<lparr>globals := g\<rparr>" by simp
  then show ?thesis
    using assms refs_ok_globals [OF _ assms(2)] handles_cong [of "s\<lparr>globals := g\<rparr>" s]
    by (auto simp: gem_inv_def tables_ok_def intro: cover_globals_le [OF _ assms(2)])
qed

text \<open>Giving a name takes the reference over that the lookup took, then takes a new one.\<close>

lemma flink_new_name_ok:
  assumes inv: "gem_inv (E(p := E p + 1)) s" and ob: "objects s p = Some ob" "obj_name ob = 0" "unat (refcount ob) + 1 < 2 ^ 32"
    and held: "held (handles s) p \<noteq> {}"
    and get: "get_spec alloc (globals s) (object_name_idr s) (Some p) (Inr n) g names"
    and s2: "s2 = set_object p (ob\<lparr>obj_name := n\<rparr>) (s\<lparr>globals := g, object_name_idr := names\<rparr>)"
  obtains s3 s' where "drm_gem_object_reference p s2 = Inr s3"
    "unreference_and_return p (Inr n :: u32 result) s3 = Some (Inr (Inr n, s'))"
    "gem_inv E s'" "handles s' = handles s" "driver s' = driver s" "n \<noteq> 0"
    "\<exists>ob'. objects s' p = Some ob' \<and> obj_name ob' = n \<and> obj_size ob' = obj_size ob"
proof -
  have inv2: "gem_inv E s2" and h2: "handles s2 = handles s" and n: "n \<noteq> 0"
    using gem_inv_name [OF inv ob(1,2) held get s2] by simp_all
  have o2: "objects s2 p = Some (ob\<lparr>obj_name := n\<rparr>)" and d2: "driver s2 = driver s"
    by (simp_all add: s2 set_object_def)
  let ?ob3 = "ob\<lparr>obj_name := n, refcount := refcount ob + 1\<rparr>"
  define s3 where "s3 = set_object p ?ob3 s2"
  have inv3: "gem_inv (E(p := E p + 1)) s3" and h3: "handles s3 = handles s" and ref: "drm_gem_object_reference p s2 = Inr s3"
    using gem_inv_reference [OF inv2 o2] ob(3) h2 by (simp_all add: s3_def)
  have o3: "objects s3 p = Some ?ob3" and d3: "driver s3 = driver s"
    by (simp_all add: s3_def set_object_def d2)
  obtain s' where s': "unreference_and_return p (Inr n :: u32 result) s3 = Some (Inr (Inr n, s'))" "gem_inv E s'"
    "handles s' = handles s3" "driver s' = driver s3"
    "\<exists>ob'. objects s' p = Some ob' \<and> obj_name ob' = n \<and> obj_size ob' = obj_size ob"
    by (rule unreference_and_return_ok [OF inv3, of "Inr n :: u32 result"]) (use o3 held h3 in simp)
  show ?thesis
    by (rule that [OF ref s'(1,2)]) (use s' h3 d3 n in simp_all)
qed

lemma flink_name_ok:
  assumes inv: "gem_inv (E(p := E p + 1)) s" and ob: "objects s p = Some ob" "unat (refcount ob) + 1 < 2 ^ 32"
    and w: "wrap_left (globals s)" and held: "held (handles s) p \<noteq> {}" and y: "flink_name alloc p s = Some y"
  shows "\<exists>r s'. y = Inr (r, s') \<and> gem_inv E s' \<and> driver s' = driver s \<and> handles s' = handles s \<and>
    (\<forall>n. r = Inr n \<longrightarrow> n \<noteq> 0 \<and> (\<exists>ob'. objects s' p = Some ob' \<and> obj_name ob' = n \<and> obj_size ob' = obj_size ob))"
proof (cases "obj_name ob = 0")
  case False
  obtain s' where s': "unreference_and_return p (Inr (obj_name ob) :: u32 result) s = Some (Inr (Inr (obj_name ob), s'))"
    "gem_inv E s'" "handles s' = handles s" "driver s' = driver s" "objects s' p = Some (ob\<lparr>refcount := refcount ob - 1\<rparr>)"
    by (rule unreference_and_return_ok [OF inv, of "Inr (obj_name ob) :: u32 result"]) (use ob held in simp)
  with y ob False have "y = Inr (Inr (obj_name ob), s')" by (simp add: flink_name_def)
  with s' False show ?thesis by simp
next
  case True
  obtain r g names where again: "idr_list_get_again alloc (globals s) (object_name_idr s) (Some p) = Some (r, g, names)"
    using y True ob by (auto simp: flink_name_def split: option.splits)
  have cover: "idr_globals_cover (globals s) (object_name_idr s)"
    using inv by (simp add: gem_inv_def refs_ok_def names_ok_def)
  have get: "get_spec alloc (globals s) (object_name_idr s) (Some p) r g names"
    by (rule idr_list_get_againD [OF again cover w])
  let ?s2 = "s\<lparr>globals := g, object_name_idr := names\<rparr>"
  show ?thesis
  proof (cases r)
    case (Inl e)
    with get have u: "names = object_name_idr s" "globals_le (globals s) g" by (simp_all add: get_spec_def)
    have inv2: "gem_inv (E(p := E p + 1)) ?s2 \<and> handles ?s2 = handles s"
      unfolding u(1) by (rule gem_inv_names_unchanged [OF inv u(2)])
    obtain s' where s': "unreference_and_return p (Inl e :: u32 result) ?s2 = Some (Inr (Inl e, s'))"
      "gem_inv E s'" "handles s' = handles ?s2" "driver s' = driver ?s2"
      by (rule unreference_and_return_ok [OF conjunct1 [OF inv2]])
    with y True ob again Inl have "y = Inr (Inl e, s')" by (simp add: flink_name_def Let_def)
    with s' inv2 show ?thesis by simp
  next
    case (Inr n)
    obtain s3 s' where s': "drm_gem_object_reference p (set_object p (ob\<lparr>obj_name := n\<rparr>) ?s2) = Inr s3"
      "unreference_and_return p (Inr n :: u32 result) s3 = Some (Inr (Inr n, s'))"
      "gem_inv E s'" "handles s' = handles s" "driver s' = driver s" "n \<noteq> 0"
      "\<exists>ob'. objects s' p = Some ob' \<and> obj_name ob' = n \<and> obj_size ob' = obj_size ob"
      using flink_new_name_ok [OF inv ob(1) True ob(2) held get [unfolded Inr] refl] .
    with y True ob again Inr have "y = Inr (Inr n, s')" by (simp add: flink_name_def Let_def)
    with s' show ?thesis by simp
  qed
qed

lemma drm_gem_flink_ok:
  assumes inv: "gem_inv E s" and w: "wrap_left (globals s)" and room: "room s" and f: "files s f = Some tbl"
    and y: "drm_gem_flink_ioctl alloc f h s = Some y"
  shows "\<exists>r s'. y = Inr (r, s') \<and> gem_inv E s' \<and> driver s' = driver s \<and> handles s' = handles s \<and>
    (\<forall>n. r = Inr n \<longrightarrow> n \<noteq> 0 \<and> (\<exists>p ob ob'. idr_list_find tbl h = Some p \<and> objects s p = Some ob \<and>
       objects s' p = Some ob' \<and> obj_name ob' = n \<and> obj_size ob' = obj_size ob))"
proof (cases "driver_gem (driver s) \<and> idr_list_find tbl h \<noteq> None")
  case False
  with y inv f show ?thesis
    by (auto simp: drm_gem_flink_ioctl_def drm_gem_object_lookup_def split: if_splits)
next
  case True
  then obtain p where drv: "driver_gem (driver s)" and p: "idr_list_find tbl h = Some p" by auto
  obtain ob where ob: "objects s p = Some ob" "unat (refcount ob) + 2 < 2 ^ 32"
    and look: "drm_gem_object_lookup f h s = Inr (Some p, set_object p (ob\<lparr>refcount := refcount ob + 1\<rparr>) s)"
    and inv1: "gem_inv (E(p := E p + 1)) (set_object p (ob\<lparr>refcount := refcount ob + 1\<rparr>) s)"
    and h1: "handles (set_object p (ob\<lparr>refcount := refcount ob + 1\<rparr>) s) = handles s"
    using drm_gem_object_lookup_ok [OF inv f room p] .
  let ?ob = "ob\<lparr>refcount := refcount ob + 1\<rparr>"
  let ?s = "set_object p ?ob s"
  have o1: "objects ?s p = Some ?ob" "unat (refcount ?ob) + 1 < 2 ^ 32" and d1: "driver ?s = driver s" "wrap_left (globals ?s)"
    using ob(2) unat_inc [of "refcount ob"] w by (simp_all add: set_object_def)
  have held: "held (handles ?s) p \<noteq> {}"
    using handles_find [OF inv f] p h1 in_held by fastforce
  have "flink_name alloc p ?s = Some y"
    using y drv look by (simp add: drm_gem_flink_ioctl_def)
  from flink_name_ok [OF inv1 o1 d1(2) held this] show ?thesis
    using h1 d1 p ob by simp
qed

lemma drm_gem_open_ioctl_ok:
  assumes inv: "gem_inv E s" and w: "wrap_left (globals s)" and room: "room s" and f: "files s f = Some tbl"
    and y: "drm_gem_open_ioctl alloc f name s = Some y"
  shows "\<exists>r s'. y = Inr (r, s') \<and> gem_inv E s' \<and> driver s' = driver s \<and>
    (case r of
       Inl _ \<Rightarrow> handles s' = handles s
     | Inr (h, sz) \<Rightarrow> \<exists>p ob. idr_list_find (object_name_idr s) name = Some p \<and> objects s p = Some ob \<and>
         sz = obj_size ob \<and> (f, h, p) \<notin> handles s \<and> handles s' = insert (f, h, p) (handles s))"
proof (cases "driver_gem (driver s) \<and> idr_list_find (object_name_idr s) name \<noteq> None")
  case False
  with y inv show ?thesis by (auto simp: drm_gem_open_ioctl_def split: if_splits)
next
  case True
  then obtain p where drv: "driver_gem (driver s)" and p: "idr_list_find (object_name_idr s) name = Some p" by auto
  have "names_ok s" using inv by (simp add: gem_inv_def refs_ok_def)
  then obtain ob where ob: "objects s p = Some ob"
    using p unfolding names_ok_def by (auto simp: idr_list_find_lookup split: option.splits)
  have c: "unat (refcount ob) + 2 < 2 ^ 32" using room ob by (simp add: room_def)
  let ?ob = "ob\<lparr>refcount := refcount ob + 1\<rparr>"
  define s1 where "s1 = set_object p ?ob s"
  have ref: "drm_gem_object_reference p s = Inr s1" and inv1: "gem_inv (E(p := E p + 1)) s1" and h1: "handles s1 = handles s"
    using gem_inv_reference [OF inv ob] c by (simp_all add: s1_def)
  have o1: "objects s1 p = Some ?ob" "unat (refcount ?ob) + 1 < 2 ^ 32"
    and d1: "driver s1 = driver s" "wrap_left (globals s1)" "files s1 f = Some tbl"
    using c unat_inc [of "refcount ob"] w f by (simp_all add: s1_def set_object_def)
  obtain y2 where y2: "drm_gem_handle_create alloc f p s1 = Some y2"
    using y drv p ref by (auto simp: drm_gem_open_ioctl_def split: option.splits)
  obtain r s2 where s2: "y2 = Inr (r, s2)" "gem_inv (E(p := E p + 1)) s2" "driver s2 = driver s1"
    "case r of Inl _ \<Rightarrow> handles s2 = handles s1
     | Inr h \<Rightarrow> handles s2 = insert (f, h, p) (handles s1) \<and> (f, h, p) \<notin> handles s1 \<and>
         (\<exists>ob'. objects s2 p = Some ob' \<and> obj_size ob' = obj_size ?ob \<and> obj_name ob' = obj_name ?ob)"
    using drm_gem_handle_create_ok [OF inv1 d1(2,3) o1 y2] by blast
  obtain s3 where s3: "drm_gem_object_unreference_unlocked (Some p) s2 = Inr s3" "gem_inv E s3" "handles s3 = handles s2"
    "driver s3 = driver s2"
    "\<And>x. objects s2 p = Some x \<Longrightarrow> held (handles s2) p \<noteq> {} \<Longrightarrow> objects s3 p = Some (x\<lparr>refcount := refcount x - 1\<rparr>)"
    by (rule gem_inv_unreference [OF s2(2)]) blast
  show ?thesis
  proof (cases r)
    case (Inl e)
    then have "y = Inr (Inl e, s3)"
      using y drv p ref y2 s2(1) s3(1) by (simp add: drm_gem_open_ioctl_def)
    with s2 s3 Inl h1 d1 show ?thesis by simp
  next
    case (Inr h)
    with s2(4) obtain ob' where h2: "handles s2 = insert (f, h, p) (handles s)" "(f, h, p) \<notin> handles s"
      and ob': "objects s2 p = Some ob'" "obj_size ob' = obj_size ob"
      by (auto simp: h1)
    have "objects s3 p = Some (ob'\<lparr>refcount := refcount ob' - 1\<rparr>)"
      using s3(5) [OF ob'(1)] by (simp add: h2 held_insert)
    then have "y = Inr (Inr (h, obj_size ob), s3)"
      using y drv p ref y2 s2(1) s3(1) Inr ob' by (simp add: drm_gem_open_ioctl_def)
    with s2 s3 h2 ob p d1 show ?thesis by simp
  qed
qed

subsection \<open>Closing a file\<close>

definition entry_hdl :: "nat \<Rightarrow> nat idr_entry \<Rightarrow> hdl" where
  "entry_hdl f en = (f, handle en, the (obj en))"

lemma release_loop_ok:
  assumes "refs_ok H E s" "entry_hdl f ` set es \<subseteq> H" "\<forall>en \<in> set es. obj en \<noteq> None" "distinct (map handle es)"
  shows "\<exists>s'. fold_res (\<lambda>en. drm_gem_object_release_handle (obj en) f) es s = Inr s' \<and>
     refs_ok (H - entry_hdl f ` set es) E s' \<and> frame s s'"
  using assms
proof (induction es arbitrary: s H)
  case Nil
  then show ?case by (simp add: frame_def)
next
  case (Cons en es)
  obtain p where p: "obj en = Some p" using Cons.prems(3) by auto
  have x: "(f, handle en, p) \<in> H" using Cons.prems(2) p by (simp add: entry_hdl_def)
  obtain ob where ob: "objects s p = Some ob" using refs_ok_objects [OF Cons.prems(1)] x by metis
  have "refs_ok H E (call_close_object p f s)" using Cons.prems(1) by simp
  then obtain s1 where s1: "drm_gem_object_handle_unreference_unlocked (Some p) (call_close_object p f s) = Inr s1"
    "refs_ok (H - {(f, handle en, p)}) E s1" "frame (call_close_object p f s) s1"
    using x by (rule handle_unreference_ok)
  have "handle en' \<noteq> handle en" if "en' \<in> set es" for en'
    using Cons.prems(4) that by (auto simp: image_iff)
  then have "entry_hdl f ` set es \<subseteq> H - {(f, handle en, p)}"
    using Cons.prems(2) by (auto simp: entry_hdl_def)
  from Cons.IH [OF s1(2) this] Cons.prems(3,4) obtain s2 where
    "fold_res (\<lambda>en. drm_gem_object_release_handle (obj en) f) es s1 = Inr s2"
    "refs_ok (H - {(f, handle en, p)} - entry_hdl f ` set es) E s2" "frame s1 s2" by auto
  moreover have "H - {(f, handle en, p)} - entry_hdl f ` set es = H - entry_hdl f ` set (en # es)"
    using p by (auto simp: entry_hdl_def)
  moreover have "drm_gem_object_release_handle (obj en) f s = Inr s1"
    using s1(1) p ob by (simp add: drm_gem_object_release_handle_def)
  ultimately show ?case
    using s1(3) by (simp add: frame_def)
qed

lemma distinct_bucket_handles:
  assumes "idr_list_inv tbl"
  shows "distinct ks \<Longrightarrow> distinct (map handle (concat (map tbl ks)))"
proof (induction ks)
  case (Cons k ks)
  have "handle en \<noteq> handle en'" if "en \<in> set (tbl k)" "k' \<in> set ks" "en' \<in> set (tbl k')" for en en' k'
  proof
    assume "handle en = handle en'"
    moreover have "hash_key (handle en) = k" "hash_key (handle en') = k'"
      using assms that by (simp_all add: idr_list_inv_def)
    ultimately show False using Cons.prems that(2) by simp
  qed
  then have "handle ` set (tbl k) \<inter> handle ` (\<Union>k' \<in> set ks. set (tbl k')) = {}" by blast
  with Cons assms show ?case by (simp add: idr_list_inv_def)
qed simp

lemma entries_hdl:
  assumes "idr_list_inv tbl" "idr_globals_cover g tbl"
  shows "entry_hdl f ` set (idr_list_entries tbl) = {(f, h, p) | h p. idr_list_lookup tbl h = Some (Some p)}"
proof -
  have "idr_list_lookup tbl (handle en) = Some (obj en) \<and> obj en \<noteq> None" if "en \<in> set (tbl k)" for en k
  proof -
    have k: "hash_key (handle en) = k" "distinct (map handle (tbl k))" using assms(1) that by (simp_all add: idr_list_inv_def)
    then have "idr_list_lookup tbl (handle en) \<noteq> None" using that by (auto simp: idr_list_lookup_None)
    then obtain q where q: "idr_list_lookup tbl (handle en) = Some q" by blast
    then obtain en' where "en' \<in> set (tbl k)" "handle en' = handle en" "obj en' = q"
      using k(1) by (auto elim: lookup_entry)
    moreover from this have "en' = en" using k(2) that by (simp add: distinct_map inj_on_def)
    ultimately show ?thesis using cover_lookup [OF assms(2) q] q by simp
  qed
  moreover have "\<exists>en \<in> set (idr_list_entries tbl). handle en = h \<and> obj en = q" if l: "idr_list_lookup tbl h = Some q" for h q
  proof -
    have "hash_key h < DRM_GEM_OBJIDR_HASHNODE" by (simp add: hash_key_def DRM_GEM_OBJIDR_HASHNODE_def)
    moreover obtain en where "en \<in> set (tbl (hash_key h))" "handle en = h" "obj en = q"
      using lookup_entry [OF l] .
    ultimately show ?thesis by (auto simp: idr_list_entries_def intro!: bexI [of _ en])
  qed
  ultimately show ?thesis
    by (fastforce simp: entry_hdl_def idr_list_entries_def image_iff)
qed

lemma drm_gem_release_ok:
  assumes inv: "gem_inv E s" and f: "files s f = Some tbl"
  obtains s' where "drm_gem_release f s = Inr s'" "gem_inv E s'" "driver s' = driver s"
    "handles s' = {x \<in> handles s. fst x \<noteq> f}"
proof -
  have t: "idr_list_inv tbl" "idr_globals_cover (globals s) tbl" and ok: "refs_ok (handles s) E s" and ts: "tables_ok s"
    using inv f by (simp_all add: gem_inv_def tables_ok_def)
  note es = entries_hdl [OF t, of f]
  have sub: "entry_hdl f ` set (idr_list_entries tbl) \<subseteq> handles s"
    and rest: "handles s - entry_hdl f ` set (idr_list_entries tbl) = {x \<in> handles s. fst x \<noteq> f}"
    unfolding es using f by (auto simp: handles_def)
  have objs: "\<forall>en \<in> set (idr_list_entries tbl). obj en \<noteq> None"
    using t(2) by (auto simp: idr_list_entries_def idr_globals_cover_def)
  have dist: "distinct (map handle (idr_list_entries tbl))"
    unfolding idr_list_entries_def by (rule distinct_bucket_handles [OF t(1)]) simp
  obtain s1 where s1: "fold_res (\<lambda>en. drm_gem_object_release_handle (obj en) f) (idr_list_entries tbl) s = Inr s1"
    "refs_ok {x \<in> handles s. fst x \<noteq> f} E s1" "frame s s1"
    using release_loop_ok [OF ok sub objs dist] unfolding rest by blast
  let ?s = "s1\<lparr>files := (files s1)(f := None)\<rparr>"
  have h: "handles ?s = {x \<in> handles s. fst x \<noteq> f}"
    using s1(3) by (auto simp: handles_def frame_def split: if_splits)
  have "tables_ok ?s" using ts s1(3) by (simp add: tables_ok_def frame_def)
  with s1 h have "gem_inv E ?s" by (simp add: gem_inv_def)
  then show ?thesis
    using that [of ?s] s1 h f by (simp add: drm_gem_release_def frame_def)
qed

end
