(* ===== verification/Drm_Gem_Props.thy ===== *)
theory Drm_Gem_Props
  imports Drm_Gem_Refs
begin

text \<open>
  Runs of the GEM interface by any number of files and the driver, and the properties of the
  component: the reference counts are exact and no call touches freed memory, creating a handle ends
  exactly when a handle is free, and a name leads back to its object.
\<close>

subsection \<open>Runs\<close>

text \<open>
  The calls user space and the driver can make. \<open>E p\<close> is the number of references to \<open>p\<close> that the
  driver holds: it gets one by creating the object, by looking it up, or from one it has.
\<close>

datatype gem_op =
    Open nat
  | Release nat
  | Object_init nat u64
  | Reference nat
  | Unreference nat
  | Handle_create bool nat nat
  | Handle_delete nat u32
  | Lookup nat u32
  | Flink bool nat u32
  | Open_name bool nat u32

definition ret_state :: "('a \<times> gem) result \<Rightarrow> gem result" where
  "ret_state r = (case r of Inl e \<Rightarrow> Inl e | Inr (_, s) \<Rightarrow> Inr s)"

fun gem_exec :: "gem_op \<Rightarrow> gem \<Rightarrow> gem result option" where
  "gem_exec (Open f) s = Some (Inr (drm_gem_open f s))"
| "gem_exec (Release f) s = Some (drm_gem_release f s)"
| "gem_exec (Object_init p sz) s = Some (drm_gem_private_object_init p sz s)"
| "gem_exec (Reference p) s = Some (drm_gem_object_reference p s)"
| "gem_exec (Unreference p) s = Some (drm_gem_object_unreference_unlocked (Some p) s)"
| "gem_exec (Handle_create alloc f p) s = map_option ret_state (drm_gem_handle_create alloc f p s)"
| "gem_exec (Handle_delete f h) s = Some (ret_state (drm_gem_handle_delete f h s))"
| "gem_exec (Lookup f h) s = Some (ret_state (drm_gem_object_lookup f h s))"
| "gem_exec (Flink alloc f h) s = map_option ret_state (drm_gem_flink_ioctl alloc f h s)"
| "gem_exec (Open_name alloc f n) s = map_option ret_state (drm_gem_open_ioctl alloc f n s)"

text \<open>The references the driver holds after a call.\<close>

fun gem_held :: "gem_op \<Rightarrow> gem \<Rightarrow> (nat \<Rightarrow> nat) \<Rightarrow> (nat \<Rightarrow> nat)" where
  "gem_held (Object_init p sz) s E = E(p := 1)"
| "gem_held (Reference p) s E = E(p := E p + 1)"
| "gem_held (Unreference p) s E = E(p := E p - 1)"
| "gem_held (Lookup f h) s E =
     (case files s f of
        None \<Rightarrow> E
      | Some tbl \<Rightarrow> (case idr_list_find tbl h of None \<Rightarrow> E | Some p \<Rightarrow> E(p := E p + 1)))"
| "gem_held _ s E = E"

text \<open>
  What a caller keeps to: files are open while they are used, memory is not an object twice, and the
  driver works on objects it has a reference to.
\<close>

fun gem_legal :: "gem_op \<Rightarrow> gem \<Rightarrow> (nat \<Rightarrow> nat) \<Rightarrow> bool" where
  "gem_legal (Open f) s E = (files s f = None)"
| "gem_legal (Release f) s E = (files s f \<noteq> None)"
| "gem_legal (Object_init p sz) s E = (objects s p = None \<and> sz AND 0xFFF = 0)"
| "gem_legal (Reference p) s E = (0 < E p)"
| "gem_legal (Unreference p) s E = (0 < E p)"
| "gem_legal (Handle_create alloc f p) s E = (files s f \<noteq> None \<and> 0 < E p)"
| "gem_legal (Handle_delete f h) s E = (files s f \<noteq> None)"
| "gem_legal (Lookup f h) s E = (files s f \<noteq> None)"
| "gem_legal (Flink alloc f h) s E = (files s f \<noteq> None)"
| "gem_legal (Open_name alloc f n) s E = (files s f \<noteq> None)"

text \<open>
  A run stops before a 32-bit reference count or the wrap counter of the handles (one step in about
  two billion handles) overflows.
\<close>

inductive gem_reach :: "gem \<Rightarrow> (nat \<Rightarrow> nat) \<Rightarrow> bool" where
  start: "fr_id g < 0x7FFFFFFF \<Longrightarrow> gem_reach (drm_gem_init drv g) (\<lambda>_. 0)"
| call: "gem_reach s E \<Longrightarrow> gem_legal op s E \<Longrightarrow> room s \<Longrightarrow> wrap_left (globals s) \<Longrightarrow>
     gem_exec op s = Some (Inr s') \<Longrightarrow> gem_reach s' (gem_held op s E)"

lemma cover_init: "fr_id g < 0x7FFFFFFF \<Longrightarrow> idr_globals_cover g idr_list_init"
  by (simp add: idr_globals_cover_def idr_list_init_def)

lemma gem_inv_init: "fr_id g < 0x7FFFFFFF \<Longrightarrow> gem_inv (\<lambda>_. 0) (drm_gem_init drv g)"
proof -
  have "handles (drm_gem_init drv g) = {}" by (simp add: handles_def drm_gem_init_def)
  then show ?thesis if "fr_id g < 0x7FFFFFFF"
    using that by (simp add: gem_inv_def refs_ok_def cell_ok_def names_ok_def tables_ok_def drm_gem_init_def held_def
        idl.invar_empty idl.lookup_empty cover_init)
qed

lemma room_one: "room s \<Longrightarrow> objects s p = Some ob \<Longrightarrow> unat (refcount ob) + 1 < 2 ^ 32"
  by (force simp: room_def)

lemma gem_inv_open:
  assumes "gem_inv E s" "files s f = None"
  shows "gem_inv E (drm_gem_open f s)"
proof -
  have "handles (drm_gem_open f s) = handles s"
    unfolding drm_gem_open_def handles_upd using assms(2) by (auto simp: handles_def idl.lookup_empty)
  moreover have "idr_globals_cover (globals s) (idr_list_init :: nat idr_list)"
    by (rule cover_init) (use assms(1) in \<open>simp add: gem_inv_def refs_ok_def names_ok_def idr_globals_cover_def\<close>)
  ultimately show ?thesis
    using assms by (auto simp: gem_inv_def drm_gem_open_def tables_ok_def idl.invar_empty split: if_splits)
qed

lemma gem_inv_object_init:
  assumes inv: "gem_inv E s" and p: "objects s p = None"
  shows "gem_inv (E(p := 1)) (set_object p \<lparr>refcount = 1, handle_count = 0, obj_size = sz, obj_name = 0\<rparr> s)"
    (is "gem_inv _ (set_object p ?ob s)")
proof -
  have ok: "refs_ok (handles s) E s" using inv by (simp add: gem_inv_def)
  then have c: "cell_ok s (card (held (handles s) q)) (E q) q (objects s q)" for q by (simp add: refs_ok_def)
  have z: "card (held (handles s) p) = 0" using c [of p] p by (simp add: cell_ok_def)
  have "cell_ok (set_object p ?ob s) n e q x = cell_ok s n e q x" for n e q x
    by (rule cell_ok_cong) (simp_all add: set_object_def)
  moreover have "names_ok (set_object p ?ob s)"
    using ok p unfolding refs_ok_def names_ok_def by (simp add: set_object_def) (metis option.distinct(1))
  ultimately have "refs_ok (handles s) (E(p := 1)) (set_object p ?ob s)"
    using ok c z by (simp add: refs_ok_def set_object_def cell_ok_def)
  then show ?thesis using gem_inv_set_object [OF inv] by blast
qed

lemma gem_inv_objects:
  assumes "gem_inv E s" "0 < E p"
  obtains ob where "objects s p = Some ob"
  using assms refs_ok_objects [of "handles s" E s p] by (auto simp: gem_inv_def)

text \<open>A legal call does not stop the kernel and keeps the invariant.\<close>

lemma gem_call_ok:
  assumes inv: "gem_inv E s" and legal: "gem_legal op s E" and room: "room s" and w: "wrap_left (globals s)"
  shows "gem_exec op s = None \<or> (\<exists>s'. gem_exec op s = Some (Inr s') \<and> gem_inv (gem_held op s E) s')"
proof (cases op)
  case (Open f)
  then show ?thesis using gem_inv_open [OF inv] legal by simp
next
  case (Release f)
  with legal obtain tbl where "files s f = Some tbl" by auto
  from drm_gem_release_ok [OF inv this] Release show ?thesis by (metis gem_exec.simps(2) gem_held.simps(6))
next
  case (Object_init p sz)
  then show ?thesis
    using gem_inv_object_init [OF inv, of p sz] legal by (simp add: drm_gem_private_object_init_def)
next
  case (Reference p)
  with legal gem_inv_objects [OF inv] obtain ob where ob: "objects s p = Some ob" by auto
  show ?thesis using gem_inv_reference [OF inv ob room_one [OF room ob]] Reference by simp
next
  case (Unreference p)
  with legal have "E = (E(p := E p - 1))(p := (E(p := E p - 1)) p + 1)" by auto
  with inv have "gem_inv ((E(p := E p - 1))(p := (E(p := E p - 1)) p + 1)) s" by simp
  from gem_inv_unreference [OF this] Unreference show ?thesis by (metis gem_exec.simps(5) gem_held.simps(3))
next
  case (Handle_create alloc f p)
  with legal obtain tbl where tbl: "files s f = Some tbl" and e: "0 < E p" by auto
  from gem_inv_objects [OF inv e] obtain ob where ob: "objects s p = Some ob" .
  show ?thesis
    using drm_gem_handle_create_ok [OF inv w tbl ob room_one [OF room ob], of alloc] Handle_create
    by (cases "drm_gem_handle_create alloc f p s") (auto simp: ret_state_def)
next
  case (Handle_delete f h)
  with legal obtain tbl where "files s f = Some tbl" by auto
  from drm_gem_handle_delete_ok [OF inv this, of h] Handle_delete show ?thesis
    by (metis gem_exec.simps(7) gem_held.simps(8) old.prod.case old.sum.simps(6) ret_state_def)
next
  case (Lookup f h)
  with legal obtain tbl where tbl: "files s f = Some tbl" by auto
  show ?thesis
  proof (cases "idr_list_find tbl h")
    case None
    with Lookup tbl inv show ?thesis by (simp add: drm_gem_object_lookup_def ret_state_def)
  next
    case (Some p)
    show ?thesis
      by (rule drm_gem_object_lookup_ok [OF inv tbl room Some]) (use Lookup tbl Some in \<open>simp add: ret_state_def\<close>)
  qed
next
  case (Flink alloc f h)
  with legal obtain tbl where "files s f = Some tbl" by auto
  from drm_gem_flink_ok [OF inv w room this, of alloc h] Flink show ?thesis
    by (cases "drm_gem_flink_ioctl alloc f h s") (auto simp: ret_state_def)
next
  case (Open_name alloc f n)
  with legal obtain tbl where "files s f = Some tbl" by auto
  from drm_gem_open_ioctl_ok [OF inv w room this, of alloc n] Open_name show ?thesis
    by (cases "drm_gem_open_ioctl alloc f n s") (auto simp: ret_state_def)
qed

lemma gem_reach_inv: "gem_reach s E \<Longrightarrow> gem_inv E s"
proof (induction rule: gem_reach.induct)
  case (call s E op s')
  from gem_call_ok [OF call.IH call.hyps(2-4)] call.hyps(5) show ?case by auto
qed (rule gem_inv_init)

subsection \<open>A run\<close>

text \<open>A driver opens file 5, creates object 7 and a handle for it; the file names it and opens the name.\<close>

definition run_driver :: drm_gem_driver where
  "run_driver = \<lparr>driver_gem = True, gem_open_object = None, gem_close_object = True, gem_free_object = True\<rparr>"

definition run_object :: "u32 \<Rightarrow> u32 \<Rightarrow> u32 \<Rightarrow> drm_gem_object" where
  "run_object r hc n = \<lparr>refcount = r, handle_count = hc, obj_size = 4096, obj_name = n\<rparr>"

definition run_state :: "drm_gem_object \<Rightarrow> nat idr_list \<Rightarrow> nat idr_list \<Rightarrow> u32 \<Rightarrow> gem" where
  "run_state ob tbl names i =
     \<lparr>driver = run_driver, objects = [7 \<mapsto> ob], files = [5 \<mapsto> tbl], object_name_idr = names,
      globals = \<lparr>fr_id = i, fr_time = 0\<rparr>, events = []\<rparr>"

lemmas run_simps = run_driver_def run_object_def run_state_def set_object_def

lemma get_again_first:
  "idr_list_get_new_above alloc g tbl q = (Inr h, g', tbl') \<Longrightarrow> idr_list_get_again alloc g tbl q = Some (Inr h, g', tbl')"
  by (subst idr_list_get_again_unfold) simp

lemma run_get_again:
  "idr_list_get_again True \<lparr>fr_id = 0, fr_time = 0\<rparr> tbl q = Some (Inr 1, \<lparr>fr_id = 1, fr_time = 0\<rparr>, idr_list_add tbl 1 q)"
  "idr_list_get_again True \<lparr>fr_id = 1, fr_time = 0\<rparr> tbl q = Some (Inr 2, \<lparr>fr_id = 2, fr_time = 0\<rparr>, idr_list_add tbl 2 q)"
  "idr_list_get_again True \<lparr>fr_id = 2, fr_time = 0\<rparr> tbl q = Some (Inr 3, \<lparr>fr_id = 3, fr_time = 0\<rparr>, idr_list_add tbl 3 q)"
  by (rule get_again_first, simp add: idr_list_get_new_above_def Let_def)+

abbreviation run_tbl :: "nat idr_list" where
  "run_tbl \<equiv> idr_list_add idr_list_init 1 (Some 7)"

abbreviation run_names :: "nat idr_list" where
  "run_names \<equiv> idr_list_add idr_list_init 2 (Some 7)"

lemma run_find: "idr_list_find (idr_list_add idr_list_init i q) i = q"
  by (simp add: idr_list_find_lookup lookup_idr_list_add)

lemma run_init:
  "drm_gem_private_object_init 7 4096 (drm_gem_open 5 (drm_gem_init run_driver \<lparr>fr_id = 0, fr_time = 0\<rparr>)) =
     Inr (run_state (run_object 1 0 0) idr_list_init idr_list_init 0)"
  by (simp add: drm_gem_private_object_init_def drm_gem_open_def drm_gem_init_def run_simps)

lemma run_create:
  "drm_gem_handle_create True 5 7 (run_state (run_object 1 0 0) idr_list_init idr_list_init 0) =
     Some (Inr (Inr 1, run_state (run_object 2 1 0) run_tbl idr_list_init 1))"
  by (simp add: drm_gem_handle_create_def run_simps run_get_again handle_reference_eq)

lemma run_flink:
  "drm_gem_flink_ioctl True 5 1 (run_state (run_object 2 1 0) run_tbl idr_list_init 1) =
     Some (Inr (Inr 2, run_state (run_object 3 1 2) run_tbl run_names 2))"
  by (simp add: drm_gem_flink_ioctl_def drm_gem_object_lookup_def flink_name_def run_find run_get_again run_simps
      drm_gem_object_reference_def kref_get_def unreference_and_return_def drm_gem_object_unreference_unlocked_def
      kref_put_def Let_def)

lemma run_open:
  "drm_gem_open_ioctl True 5 2 (run_state (run_object 3 1 2) run_tbl run_names 2) =
     Some (Inr (Inr (3, 4096), run_state (run_object 4 2 2) (idr_list_add run_tbl 3 (Some 7)) run_names 3))"
  by (simp add: drm_gem_open_ioctl_def drm_gem_handle_create_def run_find run_get_again run_simps handle_reference_eq
      drm_gem_object_reference_def kref_get_def drm_gem_object_unreference_unlocked_def kref_put_def Let_def)

lemma run_room: "unat r < 4294967294 \<Longrightarrow> room (run_state (run_object r hc n) tbl names i)"
  by (simp add: room_def run_simps)

lemma run_wrap: "wrap_left (globals (run_state ob tbl names i))"
  by (simp add: wrap_left_def run_simps)

lemma run_reach:
  "gem_reach (run_state (run_object 1 0 0) idr_list_init idr_list_init 0) ((\<lambda>_. 0)(7 := 1))"
  "gem_reach (run_state (run_object 2 1 0) run_tbl idr_list_init 1) ((\<lambda>_. 0)(7 := 1))"
proof -
  let ?s0 = "drm_gem_init run_driver \<lparr>fr_id = 0, fr_time = 0\<rparr>"
  have empty: "room ?s0" "wrap_left (globals ?s0)" "room (drm_gem_open 5 ?s0)" "wrap_left (globals (drm_gem_open 5 ?s0))"
    by (simp_all add: room_def wrap_left_def drm_gem_init_def drm_gem_open_def)
  have "gem_reach ?s0 (\<lambda>_. 0)" by (rule gem_reach.start) simp
  then have "gem_reach (drm_gem_open 5 ?s0) (gem_held (Open 5) ?s0 (\<lambda>_. 0))"
    by (rule gem_reach.call) (simp_all add: empty, simp add: drm_gem_init_def)
  then have "gem_reach (drm_gem_open 5 ?s0) (\<lambda>_. 0)" by simp
  then have "gem_reach (run_state (run_object 1 0 0) idr_list_init idr_list_init 0)
      (gem_held (Object_init 7 4096) (drm_gem_open 5 ?s0) (\<lambda>_. 0))"
    by (rule gem_reach.call) (simp_all add: empty run_init, simp add: drm_gem_open_def drm_gem_init_def)
  then show r1: "gem_reach (run_state (run_object 1 0 0) idr_list_init idr_list_init 0) ((\<lambda>_. 0)(7 := 1))" by simp
  let ?s2 = "run_state (run_object 1 0 0) idr_list_init idr_list_init 0"
  have "gem_reach (run_state (run_object 2 1 0) run_tbl idr_list_init 1) (gem_held (Handle_create True 5 7) ?s2 ((\<lambda>_. 0)(7 := 1)))"
    by (rule gem_reach.call [OF r1])
      (simp_all add: run_room run_wrap run_create ret_state_def, simp add: run_state_def)
  then show "gem_reach (run_state (run_object 2 1 0) run_tbl idr_list_init 1) ((\<lambda>_. 0)(7 := 1))" by simp
qed

subsection \<open>Properties\<close>

text \<open>
  Claim C2. In every state that calls of the GEM interface lead to, an object's reference count is the
  number of its handles in all open files, plus the references of the driver, plus one for its global
  name, its handle count is the number of its handles, every handle and every name denotes an object
  whose memory has not been freed, and no further legal call stops the kernel (a use of freed memory
  or \<open>drm_gem_object_ref_bug\<close>).
\<close>

theorem gem_refcounts_exact:
  assumes "gem_reach s E"
  shows "(\<forall>p ob. objects s p = Some ob \<longrightarrow>
       unat (handle_count ob) = card (held (handles s) p) \<and>
       unat (refcount ob) = card (held (handles s) p) + E p + (if obj_name ob \<noteq> 0 then 1 else 0))
   \<and> (\<forall>f tbl h p. files s f = Some tbl \<and> idr_list_find tbl h = Some p \<longrightarrow> objects s p \<noteq> None)
   \<and> (\<forall>n p. idr_list_find (object_name_idr s) n = Some p \<longrightarrow> (\<exists>ob. objects s p = Some ob \<and> obj_name ob = n))
   \<and> (\<forall>op e. gem_legal op s E \<and> room s \<and> wrap_left (globals s) \<longrightarrow> gem_exec op s \<noteq> Some (Inl e))"
proof (intro conjI)
  have inv: "gem_inv E s" using assms by (rule gem_reach_inv)
  then have ok: "refs_ok (handles s) E s" by (simp add: gem_inv_def)
  then show "\<forall>p ob. objects s p = Some ob \<longrightarrow>
       unat (handle_count ob) = card (held (handles s) p) \<and>
       unat (refcount ob) = card (held (handles s) p) + E p + (if obj_name ob \<noteq> 0 then 1 else 0)"
    by (auto simp: refs_ok_def cell_ok_def split: option.splits)
  show "\<forall>f tbl h p. files s f = Some tbl \<and> idr_list_find tbl h = Some p \<longrightarrow> objects s p \<noteq> None"
    using handles_find [OF inv] refs_ok_objects [OF ok] by (metis option.distinct(1))
  have "names_ok s" using ok by (simp add: refs_ok_def)
  then show "\<forall>n p. idr_list_find (object_name_idr s) n = Some p \<longrightarrow> (\<exists>ob. objects s p = Some ob \<and> obj_name ob = n)"
    unfolding names_ok_def by (auto simp: idr_list_find_lookup split: option.splits)
  show "\<forall>op e. gem_legal op s E \<and> room s \<and> wrap_left (globals s) \<longrightarrow> gem_exec op s \<noteq> Some (Inl e)"
    using gem_call_ok [OF inv] by (metis old.sum.distinct(1) option.distinct(1) option.inject)
qed

theorem gem_refcounts_exact_witness:
  "objects (run_state (run_object 2 1 0) run_tbl idr_list_init 1) 7 = Some (run_object 2 1 0) \<and>
   card (held (handles (run_state (run_object 2 1 0) run_tbl idr_list_init 1)) 7) = 1 \<and>
   unat (refcount (run_object 2 1 0)) = 1 + 1"
proof -
  let ?s = "run_state (run_object 2 1 0) run_tbl idr_list_init 1"
  have ob: "objects ?s 7 = Some (run_object 2 1 0)" by (simp add: run_state_def)
  with gem_refcounts_exact [OF run_reach(2)] have "unat (handle_count (run_object 2 1 0)) = card (held (handles ?s) 7)"
    by blast
  with ob show ?thesis by (simp add: run_object_def)
qed

text \<open>
  Claim C32. When memory is available, creating a handle returns if and only if some handle between 1
  and \<open>0x7ffffffe\<close> is unused in the file; the retry loop of a file whose handles are all in use does
  not end.
\<close>

theorem drm_gem_handle_create_ends_iff:
  assumes "gem_reach s E" "files s f = Some tbl" "objects s p \<noteq> None" "wrap_left (globals s)"
  shows "drm_gem_handle_create True f p s \<noteq> None \<longleftrightarrow>
     (\<exists>j. 0 < j \<and> j < 0x7FFFFFFF \<and> idr_list_find tbl (of_nat j) = None)"
proof -
  have "idr_globals_cover (globals s) tbl"
    using gem_reach_inv [OF assms(1)] assms(2) by (simp add: gem_inv_def tables_ok_def)
  note ends = idr_list_get_again_ends_iff [OF this assms(4), of "Some p"]
  have "drm_gem_handle_create True f p s \<noteq> None \<longleftrightarrow> (\<exists>y. idr_list_get_again True (globals s) tbl (Some p) = Some y)"
    using assms(2,3) by (auto simp: drm_gem_handle_create_def Let_def split: option.splits sum.splits)
  with ends show ?thesis by simp
qed

theorem drm_gem_handle_create_ends_iff_witness:
  "drm_gem_handle_create True 5 7 (run_state (run_object 1 0 0) idr_list_init idr_list_init 0) \<noteq> None"
proof -
  let ?s = "run_state (run_object 1 0 0) idr_list_init idr_list_init 0"
  have f: "files ?s 5 = Some idr_list_init" "objects ?s 7 \<noteq> None" by (simp_all add: run_state_def)
  have "idr_list_find (idr_list_init :: nat idr_list) (of_nat 2) = None"
    by (simp add: idr_list_find_lookup idl.lookup_empty)
  then have "\<exists>j. 0 < j \<and> j < 0x7FFFFFFF \<and> idr_list_find (idr_list_init :: nat idr_list) (of_nat j) = None"
    by (intro exI [of _ 2]) simp
  with drm_gem_handle_create_ends_iff [OF run_reach(1) f run_wrap] show ?thesis by blast
qed

text \<open>
  Claim C31. A name that \<open>drm_gem_flink_ioctl\<close> hands out for a handle leads back to the object: opening
  it, in any file, gives a new handle for the same object and the object's size, and no other handle
  changes.
\<close>

theorem drm_gem_flink_open_roundtrip:
  assumes "gem_reach s E" "room s" "room s1" "wrap_left (globals s)" "wrap_left (globals s1)"
    and "files s f = Some tbl" "files s1 f' = Some tbl'"
    and "drm_gem_flink_ioctl alloc f h s = Some (Inr (Inr n, s1))"
    and "drm_gem_open_ioctl alloc' f' n s1 = Some (Inr (Inr (h', sz), s2))"
  shows "\<exists>p ob. idr_list_find tbl h = Some p \<and> objects s p = Some ob \<and> sz = obj_size ob \<and>
     (f', h', p) \<notin> handles s \<and> handles s2 = insert (f', h', p) (handles s)"
proof -
  have inv: "gem_inv E s" using assms(1) by (rule gem_reach_inv)
  from drm_gem_flink_ok [OF inv assms(4,2,6,8)] obtain p ob ob' where
    s1: "gem_inv E s1" "handles s1 = handles s" "n \<noteq> 0" and
    p: "idr_list_find tbl h = Some p" "objects s p = Some ob" "objects s1 p = Some ob'" "obj_name ob' = n" "obj_size ob' = obj_size ob"
    by auto
  have "idr_list_find (object_name_idr s1) n = Some p"
    using s1 p by (auto simp: gem_inv_def refs_ok_def cell_ok_def idr_list_find_lookup dest!: spec [of _ p])
  with drm_gem_open_ioctl_ok [OF s1(1) assms(5,3,7,9)] p s1(2) show ?thesis by auto
qed

theorem drm_gem_flink_open_roundtrip_witness:
  "handles (run_state (run_object 4 2 2) (idr_list_add run_tbl 3 (Some 7)) run_names 3) =
     insert (5, 3, 7) (handles (run_state (run_object 2 1 0) run_tbl idr_list_init 1))"
proof -
  let ?s = "run_state (run_object 2 1 0) run_tbl idr_list_init 1"
  have f: "files ?s 5 = Some run_tbl" "files (run_state (run_object 3 1 2) run_tbl run_names 2) 5 = Some run_tbl"
    by (simp_all add: run_state_def)
  have r: "room ?s" "room (run_state (run_object 3 1 2) run_tbl run_names 2)" by (simp_all add: run_room)
  from drm_gem_flink_open_roundtrip [OF run_reach(2) r run_wrap run_wrap f run_flink run_open]
  show ?thesis by (auto simp: run_find)
qed

end
