(* ===== verification/Drm_Idr.thy ===== *)
theory Drm_Idr
  imports Id_Map
begin

text \<open>
  The id allocator of \<open>drm_sun_idr.c\<close> (\<open>struct idr\<close> and the functions \<open>idr_*\<close>, \<open>fr_*\<close>), the
  Solaris replacement for the radix-tree IDR of Linux. The ids below \<open>0x7fffffff\<close> are divided
  into consecutive ranges, one for every distinct \<open>start\<close> a client has asked for; a range keeps
  its freed ids on a stack and the smallest id it has never issued. The ids in use are in a
  balanced tree.

  The singly linked lists of ranges and of freed ids are lists, and \<open>NULL\<close> is the empty list.
  The tree is the kernel's \<open>avl(9F)\<close> package, which is not part of this repository: it is the
  parameter \<open>A\<close> of the operations below, and what they rely on is the predicate \<open>avl_laws\<close>.
  \<open>avl_store\<close> is the assignment \<open>ide->obj = obj\<close> to a node of the tree, \<open>avl_walk\<close> the sequence
  of nodes \<open>avl_first\<close>, \<open>AVL_NEXT\<close>, \<open>AVL_NEXT\<close>, ...
\<close>

record ('o, 't) avl_ops =
  avl_create :: 't
  avl_find :: "'t \<Rightarrow> u32 \<Rightarrow> 'o option"
  avl_add :: "'t \<Rightarrow> u32 \<Rightarrow> 'o \<Rightarrow> 't"
  avl_remove :: "'t \<Rightarrow> u32 \<Rightarrow> 't"
  avl_store :: "'t \<Rightarrow> u32 \<Rightarrow> 'o \<Rightarrow> 't"
  avl_walk :: "'t \<Rightarrow> (u32 \<times> 'o) list"

definition avl_laws :: "('o, 't) avl_ops \<Rightarrow> ('t \<Rightarrow> bool) \<Rightarrow> bool" where
  "avl_laws A ok \<longleftrightarrow>
     id_map (avl_create A) (avl_find A) (avl_add A) (avl_remove A) ok \<and>
     (\<forall>t i x. ok t \<and> avl_find A t i \<noteq> None \<longrightarrow>
        ok (avl_store A t i x) \<and> avl_find A (avl_store A t i x) = (avl_find A t)(i := Some x)) \<and>
     (\<forall>t. ok t \<longrightarrow> sorted_wrt (<) (map fst (avl_walk A t)) \<and> map_of (avl_walk A t) = avl_find A t)"

record idr_free_id_range =
  fr_start :: u32
  fr_end :: u32
  min_unused_id :: u32
  free_ids :: "u32 list"

record 't idr =
  used_ids :: 't
  free_id_ranges :: "idr_free_id_range list"

definition fr_isfull :: "idr_free_id_range \<Rightarrow> bool" where
  "fr_isfull rng \<longleftrightarrow> fr_end rng \<le> min_unused_id rng"

definition fr_new :: "u32 \<Rightarrow> idr_free_id_range" where
  "fr_new start = \<lparr>fr_start = start, fr_end = 0x7FFFFFFF, min_unused_id = start, free_ids = []\<rparr>"

text \<open>\<open>fr_destroy\<close> frees a range with its stack of ids and returns the next one.\<close>

definition fr_destroy :: "idr_free_id_range list \<Rightarrow> idr_free_id_range list" where
  "fr_destroy ranges = tl ranges"

fun fr_get :: "idr_free_id_range list \<Rightarrow> u32 \<Rightarrow> idr_free_id_range option" where
  "fr_get [] start = None"
| "fr_get (entry # rest) start = (if fr_start entry \<noteq> start then fr_get rest start else Some entry)"

text \<open>
  The tail of \<open>fr_insert\<close>, with \<open>prev\<close> found: the new range is linked behind \<open>prev\<close>, the ends are
  adjusted, and when \<open>prev\<close> had already issued ids from \<open>start\<close> on, its bookkeeping is divided.
  The loop moves the freed ids from \<open>start\<close> on to the new range, pushing each on its stack.
\<close>

definition fr_link :: "idr_free_id_range \<Rightarrow> idr_free_id_range list \<Rightarrow> u32 \<Rightarrow> idr_free_id_range list" where
  "fr_link prev rest start =
     (let n = fr_new start;
          prev = prev\<lparr>fr_end := start\<rparr>;
          n = (case rest of [] \<Rightarrow> n | nx # _ \<Rightarrow> n\<lparr>fr_end := fr_start nx\<rparr>)
      in if fr_isfull prev
         then prev\<lparr>min_unused_id := start, free_ids := filter (\<lambda>i. i < start) (free_ids prev)\<rparr>
              # n\<lparr>min_unused_id := min_unused_id prev,
                  free_ids := rev (filter (\<lambda>i. \<not> i < start) (free_ids prev))\<rparr> # rest
         else prev # n # rest)"

fun fr_insert :: "idr_free_id_range list \<Rightarrow> u32 \<Rightarrow> idr_free_id_range list" where
  "fr_insert [] start = []"
| "fr_insert (prev # rest) start =
     (case rest of
        [] \<Rightarrow> fr_link prev rest start
      | nx # _ \<Rightarrow> if fr_start nx < start then prev # fr_insert rest start
                  else fr_link prev rest start)"

definition idr_compare :: "u32 \<Rightarrow> u32 \<Rightarrow> int" where
  "idr_compare a b = (if a < b then -1 else if b < a then 1 else 0)"

text \<open>The id as the \<open>int\<close> the C function returns: \<open>-1\<close> when the range has none left.\<close>

definition idr_get_free_id_in_range :: "idr_free_id_range \<Rightarrow> u32 \<times> idr_free_id_range" where
  "idr_get_free_id_in_range rng =
     (case free_ids rng of
        idp # rest \<Rightarrow> (idp, rng\<lparr>free_ids := rest\<rparr>)
      | [] \<Rightarrow>
          if \<not> fr_isfull rng
          then (min_unused_id rng, rng\<lparr>min_unused_id := min_unused_id rng + 1\<rparr>)
          else (-1, rng))"

definition idr_init :: "('o ptr, 't) avl_ops \<Rightarrow> 't idr" where
  "idr_init A = \<lparr>used_ids = avl_create A, free_id_ranges = [fr_new 0]\<rparr>"

text \<open>The loop \<open>while (range)\<close> of \<open>idr_get_new_above\<close>.\<close>

fun idr_try_ranges :: "idr_free_id_range list \<Rightarrow> u32 option \<times> idr_free_id_range list" where
  "idr_try_ranges [] = (None, [])"
| "idr_try_ranges (rng # rest) =
     (case idr_get_free_id_in_range rng of (newid, rng') \<Rightarrow>
        if 0 \<le> sint newid then (Some newid, rng' # rest)
        else case idr_try_ranges rest of (res, rest') \<Rightarrow> (res, rng' # rest'))"

text \<open>The same loop entered at the range that begins at \<open>start\<close>, inside the whole list.\<close>

fun idr_try_from :: "u32 \<Rightarrow> idr_free_id_range list \<Rightarrow> u32 option \<times> idr_free_id_range list" where
  "idr_try_from start [] = (None, [])"
| "idr_try_from start (rng # rest) =
     (if fr_start rng = start then idr_try_ranges (rng # rest)
      else case idr_try_from start rest of (res, rest') \<Rightarrow> (res, rng # rest'))"

text \<open>\<open>alloc\<close> says whether \<open>kmem_alloc(KM_NOSLEEP)\<close> delivers the tree node.\<close>

definition idr_get_new_above ::
  "('o ptr, 't) avl_ops \<Rightarrow> bool \<Rightarrow> 't idr \<Rightarrow> 'o ptr \<Rightarrow> u32 \<Rightarrow> u32 result \<times> 't idr" where
  "idr_get_new_above A alloc idrp ob start =
     (if sint start < 0 then (Inl EINVAL, idrp)
      else
        let ranges = (case fr_get (free_id_ranges idrp) start of
                        Some rng \<Rightarrow> free_id_ranges idrp
                      | None \<Rightarrow> fr_insert (free_id_ranges idrp) start)
        in case idr_try_from start ranges of
             (None, ranges) \<Rightarrow> (Inl EPERM, idrp\<lparr>free_id_ranges := ranges\<rparr>)
           | (Some newid, ranges) \<Rightarrow>
               if \<not> alloc then (Inl ENOMEM, idrp\<lparr>free_id_ranges := ranges\<rparr>)
               else (Inr newid, idrp\<lparr>free_id_ranges := ranges,
                                     used_ids := avl_add A (used_ids idrp) newid ob\<rparr>))"

definition idr_find_used_id :: "('o ptr, 't) avl_ops \<Rightarrow> 't idr \<Rightarrow> u32 \<Rightarrow> 'o ptr option" where
  "idr_find_used_id A idrp i = avl_find A (used_ids idrp) i"

definition idr_find :: "('o ptr, 't) avl_ops \<Rightarrow> 't idr \<Rightarrow> u32 \<Rightarrow> 'o ptr" where
  "idr_find A idrp i =
     (case idr_find_used_id A idrp i of Some ob \<Rightarrow> ob | None \<Rightarrow> None)"

text \<open>
  The loop \<open>while (range->end <= id) range = range->next\<close> of \<open>idr_remove\<close>, and the push on the
  stack of the range it stops at. Running off the list would dereference \<open>NULL\<close>.
\<close>

fun fr_push_free :: "idr_free_id_range list \<Rightarrow> u32 \<Rightarrow> idr_free_id_range list option" where
  "fr_push_free [] i = None"
| "fr_push_free (rng # rest) i =
     (if fr_end rng \<le> i then map_option ((#) rng) (fr_push_free rest i)
      else Some (rng\<lparr>free_ids := i # free_ids rng\<rparr> # rest))"

definition idr_remove :: "('o ptr, 't) avl_ops \<Rightarrow> bool \<Rightarrow> 't idr \<Rightarrow> u32 \<Rightarrow> unit result \<times> 't idr" where
  "idr_remove A alloc idrp i =
     (case idr_find_used_id A idrp i of
        None \<Rightarrow> (Inl EINVAL, idrp)
      | Some ide \<Rightarrow>
          if \<not> alloc then (Inl ENOMEM, idrp)
          else case fr_push_free (free_id_ranges idrp) i of
                 None \<Rightarrow> (Inl BUG, idrp)
               | Some ranges \<Rightarrow>
                   (Inr (), idrp\<lparr>free_id_ranges := ranges, used_ids := avl_remove A (used_ids idrp) i\<rparr>))"

definition idr_replace ::
  "('o ptr, 't) avl_ops \<Rightarrow> 't idr \<Rightarrow> 'o ptr \<Rightarrow> u32 \<Rightarrow> 'o ptr result \<times> 't idr" where
  "idr_replace A idrp ob i =
     (case idr_find_used_id A idrp i of
        None \<Rightarrow> (Inl EINVAL, idrp)
      | Some old \<Rightarrow> (Inr old, idrp\<lparr>used_ids := avl_store A (used_ids idrp) i ob\<rparr>))"

text \<open>
  \<open>idr_for_each\<close> with a callback that works on its \<open>data\<close> argument and leaves the tree alone; a
  non-zero return value stops the walk and is the result.
\<close>

fun for_each_entry :: "(u32 \<Rightarrow> 'o \<Rightarrow> 'd \<Rightarrow> int \<times> 'd) \<Rightarrow> (u32 \<times> 'o) list \<Rightarrow> 'd \<Rightarrow> int \<times> 'd" where
  "for_each_entry fn [] data = (0, data)"
| "for_each_entry fn ((i, ob) # rest) data =
     (case fn i ob data of (ret, data) \<Rightarrow>
        if ret \<noteq> 0 then (ret, data) else for_each_entry fn rest data)"

definition idr_for_each ::
  "('o ptr, 't) avl_ops \<Rightarrow> 't idr \<Rightarrow> (u32 \<Rightarrow> 'o ptr \<Rightarrow> 'd \<Rightarrow> int \<times> 'd) \<Rightarrow> 'd \<Rightarrow> int \<times> 'd" where
  "idr_for_each A idrp fn data = for_each_entry fn (avl_walk A (used_ids idrp)) data"

definition idr_pre_get :: "'t idr \<Rightarrow> int \<Rightarrow> unit result" where
  "idr_pre_get idrp flag = Inl EPERM"

text \<open>\<open>idr_destroy\<close> empties the tree and frees the ranges one by one until the list is \<open>NULL\<close>.\<close>

function fr_destroy_all :: "idr_free_id_range list \<Rightarrow> idr_free_id_range list" where
  "fr_destroy_all ranges = (if ranges = [] then [] else fr_destroy_all (fr_destroy ranges))"
  by pat_completeness auto
termination
  by (relation "measure length") (auto simp: fr_destroy_def)

declare fr_destroy_all.simps [simp del]

definition idr_destroy :: "('o ptr, 't) avl_ops \<Rightarrow> 't idr \<Rightarrow> 't idr" where
  "idr_destroy A idrp = \<lparr>used_ids = avl_create A, free_id_ranges = fr_destroy_all (free_id_ranges idrp)\<rparr>"

definition idr_remove_all :: "('o ptr, 't) avl_ops \<Rightarrow> 't idr \<Rightarrow> 't idr" where
  "idr_remove_all A idrp = (let idrp = idr_destroy A idrp in idr_init A)"

subsection \<open>Well-formed ranges and the ids they account for\<close>

abbreviation ID_LIMIT :: u32 where
  "ID_LIMIT \<equiv> 0x7FFFFFFF"

text \<open>One range: its freed ids are distinct ids it has issued.\<close>

definition fr_ok :: "idr_free_id_range \<Rightarrow> bool" where
  "fr_ok r \<longleftrightarrow> fr_start r \<le> min_unused_id r \<and> min_unused_id r \<le> fr_end r \<and> fr_end r \<le> ID_LIMIT \<and>
     distinct (free_ids r) \<and> (\<forall>i \<in> set (free_ids r). fr_start r \<le> i \<and> i < min_unused_id r)"

text \<open>The ranges follow each other without gaps from \<open>b\<close> to the limit.\<close>

fun fr_chain :: "u32 \<Rightarrow> idr_free_id_range list \<Rightarrow> bool" where
  "fr_chain b [] = False"
| "fr_chain b (r # rs) =
     (fr_start r = b \<and> fr_ok r \<and>
      (if rs = [] then fr_end r = ID_LIMIT else b < fr_end r \<and> fr_chain (fr_end r) rs))"

text \<open>The ids issued and not given back.\<close>

definition fr_live :: "idr_free_id_range \<Rightarrow> u32 set" where
  "fr_live r = {i. fr_start r \<le> i \<and> i < min_unused_id r \<and> i \<notin> set (free_ids r)}"

definition live_ids :: "idr_free_id_range list \<Rightarrow> u32 set" where
  "live_ids rs = (\<Union>r \<in> set rs. fr_live r)"

lemma live_ids_simps [simp]:
  "live_ids [] = {}" "live_ids (r # rs) = fr_live r \<union> live_ids rs"
  by (simp_all add: live_ids_def)

lemma fr_live_bounds: "fr_ok r \<Longrightarrow> i \<in> fr_live r \<Longrightarrow> fr_start r \<le> i \<and> i < fr_end r"
  by (auto simp: fr_live_def fr_ok_def)

lemma fr_chain_le: "fr_chain b rs \<Longrightarrow> b \<le> ID_LIMIT"
  by (cases rs) (auto simp: fr_ok_def)

lemma live_ids_bounds: "fr_chain b rs \<Longrightarrow> i \<in> live_ids rs \<Longrightarrow> b \<le> i \<and> i < ID_LIMIT"
proof (induction rs arbitrary: b)
  case (Cons r rs)
  show ?case
  proof (cases "i \<in> fr_live r")
    case True
    with Cons.prems fr_live_bounds [of r i] show ?thesis
      by (auto simp: fr_ok_def)
  next
    case False
    with Cons show ?thesis
      by (auto split: if_splits) (meson less_imp_le order_trans)+
  qed
qed simp

lemma fr_chain_starts: "fr_chain b rs \<Longrightarrow> r \<in> set rs \<Longrightarrow> b \<le> fr_start r"
  by (induction rs arbitrary: b) (auto split: if_splits, fastforce)

subsection \<open>Taking an id\<close>

lemma fr_take_spec:
  assumes "fr_ok r" and "idr_get_free_id_in_range r = (i, r')" and "0 \<le> sint i"
  shows "fr_ok r' \<and> fr_start r' = fr_start r \<and> fr_end r' = fr_end r
     \<and> fr_start r \<le> i \<and> i < fr_end r \<and> i \<notin> fr_live r \<and> fr_live r' = insert i (fr_live r)"
proof (cases "free_ids r")
  case Nil
  with assms have nf: "min_unused_id r < fr_end r" "i = min_unused_id r"
    "r' = r\<lparr>min_unused_id := i + 1\<rparr>"
    by (auto simp: idr_get_free_id_in_range_def fr_isfull_def split: if_splits)
  from assms(1) Nil have le: "fr_start r \<le> i" "fr_end r \<le> ID_LIMIT"
    by (simp_all add: fr_ok_def nf)
  have up: "i + 1 \<le> fr_end r" "fr_start r \<le> i + 1" "j < i + 1 \<longleftrightarrow> j < i \<or> j = i" for j
    using word_plus_one_le [OF nf(1)] word_less_plus_one [OF nf(1)] le
    by (auto simp: nf(2) le_less)
  have "fr_live r = {j. fr_start r \<le> j \<and> j < i}" "fr_live r' = {j. fr_start r \<le> j \<and> j < i + 1}"
    by (simp_all add: fr_live_def Nil nf)
  then have "i \<notin> fr_live r \<and> fr_live r' = insert i (fr_live r)"
    using le up(3) by auto
  moreover have "fr_ok r'"
    using up(1,2) le by (simp add: fr_ok_def nf(3) Nil)
  ultimately show ?thesis
    using nf le by simp
next
  case (Cons a rest)
  with assms show ?thesis
    by (auto simp: idr_get_free_id_in_range_def fr_ok_def fr_live_def)
qed

lemma fr_take_none:
  assumes "fr_ok r" and "idr_get_free_id_in_range r = (i, r')" and "\<not> 0 \<le> sint i"
  shows "r' = r \<and> fr_live r = {j. fr_start r \<le> j \<and> j < fr_end r}"
proof -
  have "free_ids r = []"
  proof (rule ccontr)
    assume "free_ids r \<noteq> []"
    then obtain a rest where "free_ids r = a # rest" by (cases "free_ids r") auto
    with assms show False
      by (auto simp: idr_get_free_id_in_range_def fr_ok_def sint_nonneg_iff)
  qed
  moreover have "fr_isfull r"
  proof (rule ccontr)
    assume "\<not> fr_isfull r"
    with assms \<open>free_ids r = []\<close> show False
      by (auto simp: idr_get_free_id_in_range_def fr_ok_def fr_isfull_def sint_nonneg_iff)
  qed
  ultimately show ?thesis
    using assms by (auto simp: idr_get_free_id_in_range_def fr_ok_def fr_isfull_def fr_live_def)
qed

lemma idr_try_ranges_chain:
  assumes "fr_chain b rs" and "idr_try_ranges rs = (Some i, rs')"
  shows "fr_chain b rs' \<and> b \<le> i \<and> i < ID_LIMIT \<and> i \<notin> live_ids rs \<and> live_ids rs' = insert i (live_ids rs)"
  using assms
proof (induction rs arbitrary: b rs')
  case (Cons r rs)
  obtain j r' where take: "idr_get_free_id_in_range r = (j, r')" by force
  have ok: "fr_ok r" "fr_start r = b" using Cons.prems by auto
  show ?case
  proof (cases "0 \<le> sint j")
    case True
    with Cons.prems take have ij: "i = j" "rs' = r' # rs" by auto
    note spec = fr_take_spec [OF ok(1) take True]
    have "i \<notin> live_ids rs"
      using Cons.prems(1) spec live_ids_bounds [of "fr_end r" rs i] ij
      by (auto split: if_splits)
    with spec ij Cons.prems(1) ok show ?thesis
      by (auto simp: fr_ok_def split: if_splits)
  next
    case False
    note none = fr_take_none [OF ok(1) take False]
    with Cons.prems take False obtain rs'' where rec: "idr_try_ranges rs = (Some i, rs'')" "rs' = r # rs''"
      by (auto split: prod.splits)
    then have ne: "rs \<noteq> []" by auto
    with Cons.prems(1) have ch: "fr_chain (fr_end r) rs" "b < fr_end r" by auto
    note IH = Cons.IH [OF ch(1) rec(1)]
    then have "rs'' \<noteq> []" by (cases rs'') auto
    moreover have "i \<notin> fr_live r" using none IH by auto
    ultimately show ?thesis
      using IH ch ok rec ne by auto
  qed
qed simp

lemma idr_try_ranges_none:
  assumes "fr_chain b rs" and "idr_try_ranges rs = (None, rs')"
  shows "rs' = rs \<and> {j. b \<le> j \<and> j < ID_LIMIT} \<subseteq> live_ids rs"
  using assms
proof (induction rs arbitrary: b rs')
  case (Cons r rs)
  obtain j r' where take: "idr_get_free_id_in_range r = (j, r')" by force
  have ok: "fr_ok r" "fr_start r = b" using Cons.prems by auto
  have neg: "\<not> 0 \<le> sint j"
    using Cons.prems(2) take by (auto split: if_splits)
  obtain rs'' where rec: "idr_try_ranges rs = (None, rs'')" "rs' = r' # rs''"
    using Cons.prems(2) take neg by (auto split: prod.splits)
  note none = fr_take_none [OF ok(1) take neg]
  show ?case
  proof (cases "rs = []")
    case True
    with Cons.prems(1) rec none ok show ?thesis by auto
  next
    case False
    with Cons.prems(1) have "fr_chain (fr_end r) rs" by simp
    note IH = Cons.IH [OF this rec(1)]
    have "{j. b \<le> j \<and> j < ID_LIMIT} \<subseteq> {j. b \<le> j \<and> j < fr_end r} \<union> {j. fr_end r \<le> j \<and> j < ID_LIMIT}"
      by (auto simp: not_less)
    with IH none rec ok show ?thesis by auto
  qed
qed simp

lemma idr_try_from_chain:
  assumes "fr_chain b rs" and "start \<in> fr_start ` set rs" and "idr_try_from start rs = (Some i, rs')"
  shows "fr_chain b rs' \<and> start \<le> i \<and> i < ID_LIMIT \<and> i \<notin> live_ids rs \<and> live_ids rs' = insert i (live_ids rs)"
  using assms
proof (induction rs arbitrary: b rs')
  case (Cons r rs)
  show ?case
  proof (cases "fr_start r = start")
    case True
    with Cons.prems idr_try_ranges_chain [of b "r # rs" i rs'] show ?thesis by auto
  next
    case False
    with Cons.prems have in_rs: "start \<in> fr_start ` set rs" by auto
    then have ne: "rs \<noteq> []" by auto
    with Cons.prems(1) have ch: "fr_chain (fr_end r) rs" "fr_start r = b" "fr_ok r" "b < fr_end r" by auto
    obtain rs'' where rec: "idr_try_from start rs = (Some i, rs'')" "rs' = r # rs''"
      using Cons.prems(3) False by (auto split: prod.splits)
    note IH = Cons.IH [OF ch(1) in_rs rec(1)]
    then have "rs'' \<noteq> []" by (cases rs'') auto
    moreover have "fr_end r \<le> start"
      using in_rs fr_chain_starts [OF ch(1)] by auto
    then have "i \<notin> fr_live r"
      using IH fr_live_bounds [OF ch(3), of i] by force
    ultimately show ?thesis
      using IH ch rec by auto
  qed
qed simp

lemma idr_try_from_none:
  assumes "fr_chain b rs" and "start \<in> fr_start ` set rs" and "idr_try_from start rs = (None, rs')"
  shows "rs' = rs \<and> {j. start \<le> j \<and> j < ID_LIMIT} \<subseteq> live_ids rs"
  using assms
proof (induction rs arbitrary: b rs')
  case (Cons r rs)
  show ?case
  proof (cases "fr_start r = start")
    case True
    with Cons.prems idr_try_ranges_none [of b "r # rs" rs'] show ?thesis by auto
  next
    case False
    with Cons.prems have in_rs: "start \<in> fr_start ` set rs" by auto
    then have "rs \<noteq> []" by auto
    with Cons.prems(1) have ch: "fr_chain (fr_end r) rs" by auto
    obtain rs'' where rec: "idr_try_from start rs = (None, rs'')" "rs' = r # rs''"
      using Cons.prems(3) False by (auto split: prod.splits)
    from Cons.IH [OF ch in_rs rec(1)] rec show ?thesis by auto
  qed
qed simp

subsection \<open>Splitting a range\<close>

lemma fr_get_None: "fr_get rs start = None \<longleftrightarrow> start \<notin> fr_start ` set rs"
  by (induction rs) auto

lemma fr_link_spec:
  assumes ok: "fr_ok prev" and lt: "fr_start prev < start" "start \<le> fr_end prev"
    and "end": "fr_end prev = (case rest of [] \<Rightarrow> ID_LIMIT | nx # _ \<Rightarrow> fr_start nx)"
  obtains p n where "fr_link prev rest start = p # n # rest"
    and "fr_ok p" "fr_start p = fr_start prev" "fr_end p = start"
    and "fr_ok n" "fr_start n = start" "fr_end n = fr_end prev"
    and "fr_live p \<union> fr_live n = fr_live prev"
proof (cases "start \<le> min_unused_id prev")
  case True
  let ?p = "prev\<lparr>fr_end := start, min_unused_id := start, free_ids := filter (\<lambda>i. i < start) (free_ids prev)\<rparr>"
  let ?n = "\<lparr>fr_start = start, fr_end = fr_end prev, min_unused_id = min_unused_id prev,
             free_ids = rev (filter (\<lambda>i. \<not> i < start) (free_ids prev))\<rparr>"
  show ?thesis
  proof (rule that [of ?p ?n])
    show "fr_link prev rest start = ?p # ?n # rest"
      using True "end" by (simp add: fr_link_def fr_new_def fr_isfull_def Let_def split: list.splits)
    show "fr_ok ?p" "fr_ok ?n"
      using ok lt True by (auto simp: fr_ok_def)
    show "fr_live ?p \<union> fr_live ?n = fr_live prev"
      using True lt by (auto simp: fr_live_def)
  qed simp_all
next
  case False
  let ?p = "prev\<lparr>fr_end := start\<rparr>"
  let ?n = "\<lparr>fr_start = start, fr_end = fr_end prev, min_unused_id = start, free_ids = []\<rparr>"
  show ?thesis
  proof (rule that [of ?p ?n])
    show "fr_link prev rest start = ?p # ?n # rest"
      using False "end" by (simp add: fr_link_def fr_new_def fr_isfull_def Let_def split: list.splits)
    show "fr_ok ?p" "fr_ok ?n"
      using ok lt False by (auto simp: fr_ok_def)
    show "fr_live ?p \<union> fr_live ?n = fr_live prev"
      by (auto simp: fr_live_def)
  qed simp_all
qed

lemma fr_insert_chain:
  assumes "fr_chain b rs" and "b < start" and "start \<le> ID_LIMIT" and "start \<notin> fr_start ` set rs"
  shows "fr_chain b (fr_insert rs start) \<and> live_ids (fr_insert rs start) = live_ids rs
     \<and> start \<in> fr_start ` set (fr_insert rs start)"
  using assms
proof (induction rs arbitrary: b)
  case (Cons prev rest)
  have ok: "fr_ok prev" "fr_start prev = b" using Cons.prems by auto
  have "end": "fr_end prev = (case rest of [] \<Rightarrow> ID_LIMIT | nx # _ \<Rightarrow> fr_start nx)"
    using Cons.prems(1) by (auto split: list.splits if_splits)
  show ?case
  proof (cases "\<exists>nx r. rest = nx # r \<and> fr_start nx < start")
    case True
    then obtain nx r where r: "rest = nx # r" "fr_start nx < start" by auto
    with Cons.prems(1) "end" have ch: "fr_chain (fr_end prev) rest" "fr_end prev < start" "b < fr_end prev"
      by auto
    from Cons.IH [OF ch(1,2)] Cons.prems
    have IH: "fr_chain (fr_end prev) (fr_insert rest start)" "live_ids (fr_insert rest start) = live_ids rest"
      "start \<in> fr_start ` set (fr_insert rest start)"
      by auto
    then have "fr_insert rest start \<noteq> []" by auto
    then have "fr_chain b (prev # fr_insert rest start)"
      using IH(1) ok ch(3) by (simp only: fr_chain.simps) simp
    moreover have "fr_insert (prev # rest) start = prev # fr_insert rest start"
      using r by (simp only: fr_insert.simps list.case if_True)
    moreover have "start \<in> fr_start ` set (prev # fr_insert rest start)"
      using IH(3) by auto
    ultimately show ?thesis
      using IH(2) by (simp only: live_ids_simps)
  next
    case False
    then have here: "fr_insert (prev # rest) start = fr_link prev rest start"
      by (cases rest) auto
    have le: "start \<le> fr_end prev"
      using False "end" Cons.prems(3) by (auto split: list.splits)
    from fr_link_spec [OF ok(1) _ le "end"] Cons.prems(2) ok(2)
    obtain p n where pn: "fr_link prev rest start = p # n # rest"
      "fr_ok p" "fr_start p = b" "fr_end p = start" "fr_ok n" "fr_start n = start"
      "fr_end n = fr_end prev" "fr_live p \<union> fr_live n = fr_live prev"
      by metis
    have "start < fr_end prev" if "rest \<noteq> []"
      using that le Cons.prems(4) "end" by (cases rest) (auto simp: order_le_less)
    with Cons.prems(1,2) pn here show ?thesis
      by (auto split: if_splits)
  qed
qed simp

subsection \<open>Giving an id back\<close>

lemma fr_push_spec:
  assumes "fr_ok r" and "i \<in> fr_live r" and "r' = r\<lparr>free_ids := i # free_ids r\<rparr>"
  shows "fr_ok r' \<and> fr_live r' = fr_live r - {i}"
  using assms by (auto simp: fr_ok_def fr_live_def)

lemma fr_push_free_chain:
  assumes "fr_chain b rs" and "i \<in> live_ids rs"
  shows "\<exists>rs'. fr_push_free rs i = Some rs' \<and> fr_chain b rs' \<and> live_ids rs' = live_ids rs - {i}"
  using assms
proof (induction rs arbitrary: b)
  case (Cons r rs)
  have ok: "fr_ok r" "fr_start r = b" using Cons.prems by auto
  show ?case
  proof (cases "fr_end r \<le> i")
    case True
    then have notin: "i \<notin> fr_live r"
      using fr_live_bounds [OF ok(1), of i] by auto
    with Cons.prems have in_rs: "i \<in> live_ids rs" by simp
    then have "rs \<noteq> []" by auto
    with Cons.prems(1) have ch: "fr_chain (fr_end r) rs" "b < fr_end r" by auto
    from Cons.IH [OF ch(1) in_rs] obtain rs' where rs':
      "fr_push_free rs i = Some rs'" "fr_chain (fr_end r) rs'" "live_ids rs' = live_ids rs - {i}"
      by blast
    from rs'(2) have "rs' \<noteq> []" by (cases rs') auto
    then have "fr_chain b (r # rs')"
      using rs'(2) ok ch(2) by (simp only: fr_chain.simps) simp
    moreover have "live_ids (r # rs') = live_ids (r # rs) - {i}"
      using rs'(3) notin by auto
    ultimately show ?thesis
      using True rs'(1) by simp
  next
    case False
    have "i \<notin> live_ids rs"
      using Cons.prems(1) False live_ids_bounds [of "fr_end r" rs i]
      by (cases "rs = []") auto
    with Cons.prems have "i \<in> fr_live r" by simp
    from fr_push_spec [OF ok(1) this refl] False Cons.prems(1) \<open>i \<notin> live_ids rs\<close> show ?thesis
      by auto
  qed
qed simp

subsection \<open>The invariant of an allocator\<close>

text \<open>
  The ranges form a chain from 0 and every id in the tree is accounted for as issued. (Equality
  does not hold in general: see \<open>idr_get_new_above_enomem\<close>.)
\<close>

definition idr_inv :: "('o ptr, 't) avl_ops \<Rightarrow> ('t \<Rightarrow> bool) \<Rightarrow> 't idr \<Rightarrow> bool" where
  "idr_inv A ok idrp \<longleftrightarrow>
     ok (used_ids idrp) \<and> fr_chain 0 (free_id_ranges idrp) \<and>
     dom (avl_find A (used_ids idrp)) \<subseteq> live_ids (free_id_ranges idrp)"

lemma avl_lawsD:
  assumes "avl_laws A ok"
  shows "ok (avl_create A)"
    and "avl_find A (avl_create A) i = None"
    and "ok t \<Longrightarrow> avl_find A t i = None \<Longrightarrow>
         ok (avl_add A t i x) \<and> avl_find A (avl_add A t i x) = (avl_find A t)(i := Some x)"
    and "ok t \<Longrightarrow> avl_find A t i \<noteq> None \<Longrightarrow>
         ok (avl_remove A t i) \<and> avl_find A (avl_remove A t i) = (avl_find A t)(i := None)"
    and "ok t \<Longrightarrow> avl_find A t i \<noteq> None \<Longrightarrow>
         ok (avl_store A t i x) \<and> avl_find A (avl_store A t i x) = (avl_find A t)(i := Some x)"
    and "ok t \<Longrightarrow> sorted_wrt (<) (map fst (avl_walk A t)) \<and> map_of (avl_walk A t) = avl_find A t"
proof -
  have m: "id_map (avl_create A) (avl_find A) (avl_add A) (avl_remove A) ok"
    using assms by (simp add: avl_laws_def)
  show "ok (avl_create A)" "avl_find A (avl_create A) i = None"
    by (fact id_map.invar_empty [OF m] id_map.lookup_empty [OF m])+
  show "ok (avl_add A t i x) \<and> avl_find A (avl_add A t i x) = (avl_find A t)(i := Some x)"
    if "ok t" "avl_find A t i = None"
    using id_map.invar_add [OF m that] id_map.lookup_add [OF m that] by blast
  show "ok (avl_remove A t i) \<and> avl_find A (avl_remove A t i) = (avl_find A t)(i := None)"
    if "ok t" "avl_find A t i \<noteq> None"
    using id_map.invar_remove [OF m that] id_map.lookup_remove [OF m that] by blast
qed (use assms in \<open>auto simp: avl_laws_def\<close>)

text \<open>The ranges an allocation at \<open>start\<close> works on.\<close>

lemma idr_ranges_for:
  assumes "fr_chain 0 rs" and "0 \<le> sint start"
    and "rs1 = (case fr_get rs start of Some r \<Rightarrow> rs | None \<Rightarrow> fr_insert rs start)"
  shows "fr_chain 0 rs1 \<and> live_ids rs1 = live_ids rs \<and> start \<in> fr_start ` set rs1"
proof (cases "fr_get rs start")
  case None
  then have notin: "start \<notin> fr_start ` set rs" by (simp add: fr_get_None)
  have "start \<noteq> 0"
    using assms(1) notin by (cases rs) auto
  then have "0 < start"
    by (simp add: word_neq_0_conv)
  then show ?thesis
    using fr_insert_chain [OF assms(1) _ _ notin] assms(2,3) None by (simp add: sint_nonneg_iff)
next
  case (Some r)
  then have "start \<in> fr_start ` set rs"
    using fr_get_None [of rs start] by auto
  with Some assms show ?thesis by simp
qed

lemma idr_get_new_above_success:
  assumes laws: "avl_laws A ok" and inv: "idr_inv A ok idrp"
    and succ: "idr_get_new_above A alloc idrp ob start = (Inr i, idrp')"
  shows "idr_inv A ok idrp' \<and> start \<le> i \<and> i < ID_LIMIT \<and> i \<notin> live_ids (free_id_ranges idrp)
     \<and> live_ids (free_id_ranges idrp') = insert i (live_ids (free_id_ranges idrp))
     \<and> avl_find A (used_ids idrp) i = None
     \<and> avl_find A (used_ids idrp') = (avl_find A (used_ids idrp))(i := Some ob)"
proof -
  let ?rs = "free_id_ranges idrp"
  define rs1 where "rs1 = (case fr_get ?rs start of Some r \<Rightarrow> ?rs | None \<Rightarrow> fr_insert ?rs start)"
  from succ obtain rs2 where tr: "idr_try_from start rs1 = (Some i, rs2)" "0 \<le> sint start"
    "idrp' = idrp\<lparr>free_id_ranges := rs2, used_ids := avl_add A (used_ids idrp) i ob\<rparr>"
    by (auto simp: idr_get_new_above_def rs1_def Let_def split: if_splits prod.splits option.splits)
  have chain: "fr_chain 0 ?rs" and ok: "ok (used_ids idrp)"
    and sub: "dom (avl_find A (used_ids idrp)) \<subseteq> live_ids ?rs"
    using inv by (simp_all add: idr_inv_def)
  note rs1 = idr_ranges_for [OF chain tr(2) rs1_def]
  with idr_try_from_chain [of 0 rs1 start i rs2] tr(1)
  have spec: "fr_chain 0 rs2" "start \<le> i" "i < ID_LIMIT" "i \<notin> live_ids ?rs"
    "live_ids rs2 = insert i (live_ids ?rs)"
    by auto
  then have none: "avl_find A (used_ids idrp) i = None"
    using sub by auto
  note add = avl_lawsD(3) [OF laws ok none, of ob]
  show ?thesis
    using spec none add sub by (auto simp: idr_inv_def tr(3))
qed

lemma idr_remove_spec:
  assumes laws: "avl_laws A ok" and inv: "idr_inv A ok idrp" and used: "idr_find_used_id A idrp i \<noteq> None"
  shows "\<exists>idrp'. idr_remove A True idrp i = (Inr (), idrp') \<and> idr_inv A ok idrp'
     \<and> live_ids (free_id_ranges idrp') = live_ids (free_id_ranges idrp) - {i}
     \<and> avl_find A (used_ids idrp') = (avl_find A (used_ids idrp))(i := None)"
proof -
  have ok: "ok (used_ids idrp)" and chain: "fr_chain 0 (free_id_ranges idrp)"
    and sub: "dom (avl_find A (used_ids idrp)) \<subseteq> live_ids (free_id_ranges idrp)"
    using inv by (simp_all add: idr_inv_def)
  have "i \<in> live_ids (free_id_ranges idrp)"
    using used sub by (auto simp: idr_find_used_id_def)
  from fr_push_free_chain [OF chain this] obtain rs' where rs':
    "fr_push_free (free_id_ranges idrp) i = Some rs'" "fr_chain 0 rs'"
    "live_ids rs' = live_ids (free_id_ranges idrp) - {i}"
    by blast
  note rem = avl_lawsD(4) [OF laws ok used [unfolded idr_find_used_id_def]]
  have "dom ((avl_find A (used_ids idrp))(i := None)) \<subseteq> live_ids rs'"
    using sub by (auto simp only: dom_fun_upd rs'(3) simp_thms if_True)
  with used rs' rem show ?thesis
    by (auto simp: idr_remove_def idr_inv_def)
qed

lemma idr_replace_spec:
  assumes "avl_laws A ok" and "idr_inv A ok idrp" and "idr_replace A idrp ob i = (r, idrp')"
  shows "idr_inv A ok idrp' \<and> free_id_ranges idrp' = free_id_ranges idrp
     \<and> dom (avl_find A (used_ids idrp')) = dom (avl_find A (used_ids idrp))"
proof (cases "avl_find A (used_ids idrp) i")
  case None
  with assms show ?thesis by (auto simp: idr_replace_def idr_find_used_id_def)
next
  case (Some x)
  with assms(2) have ok: "ok (used_ids idrp)" by (simp add: idr_inv_def)
  have "dom ((avl_find A (used_ids idrp))(i := Some ob)) = dom (avl_find A (used_ids idrp))"
    using Some by (simp add: insert_absorb domI)
  with avl_lawsD(5) [OF assms(1) ok, of i ob] Some assms(2,3) show ?thesis
    by (clarsimp simp add: idr_replace_def idr_find_used_id_def idr_inv_def simp del: fun_upd_apply dom_fun_upd)
qed

lemma idr_init_inv: "avl_laws A ok \<Longrightarrow> idr_inv A ok (idr_init A) \<and> live_ids (free_id_ranges (idr_init A)) = {}
     \<and> dom (avl_find A (used_ids (idr_init A))) = {}"
  by (auto simp: idr_inv_def idr_init_def fr_new_def fr_ok_def fr_live_def live_ids_def avl_lawsD)

text \<open>A failed allocation may still have taken an id from the ranges, but leaves the tree alone.\<close>

lemma idr_get_new_above_failure:
  assumes "avl_laws A ok" and inv: "idr_inv A ok idrp"
    and fail: "idr_get_new_above A alloc idrp ob start = (Inl e, idrp')"
  shows "idr_inv A ok idrp' \<and> used_ids idrp' = used_ids idrp
     \<and> (e = EINVAL \<and> sint start < 0 \<and> idrp' = idrp
        \<or> e = EPERM \<and> live_ids (free_id_ranges idrp') = live_ids (free_id_ranges idrp)
           \<and> {j. start \<le> j \<and> j < ID_LIMIT} \<subseteq> live_ids (free_id_ranges idrp)
        \<or> e = ENOMEM \<and> \<not> alloc \<and> (\<exists>i. start \<le> i \<and> i < ID_LIMIT \<and> i \<notin> live_ids (free_id_ranges idrp)
           \<and> live_ids (free_id_ranges idrp') = insert i (live_ids (free_id_ranges idrp))))"
proof (cases "sint start < 0")
  case True
  with fail inv show ?thesis by (auto simp: idr_get_new_above_def)
next
  case False
  let ?rs = "free_id_ranges idrp"
  define rs1 where "rs1 = (case fr_get ?rs start of Some r \<Rightarrow> ?rs | None \<Rightarrow> fr_insert ?rs start)"
  obtain res rs2 where tr: "idr_try_from start rs1 = (res, rs2)" by force
  have chain: "fr_chain 0 ?rs" using inv by (simp add: idr_inv_def)
  have rs1: "fr_chain 0 rs1 \<and> live_ids rs1 = live_ids ?rs \<and> start \<in> fr_start ` set rs1"
    using idr_ranges_for [OF chain _ rs1_def] False by simp
  have eq: "idr_get_new_above A alloc idrp ob start =
    (case (res, rs2) of (None, ranges) \<Rightarrow> (Inl EPERM, idrp\<lparr>free_id_ranges := ranges\<rparr>)
     | (Some newid, ranges) \<Rightarrow> if \<not> alloc then (Inl ENOMEM, idrp\<lparr>free_id_ranges := ranges\<rparr>)
         else (Inr newid, idrp\<lparr>free_id_ranges := ranges, used_ids := avl_add A (used_ids idrp) newid ob\<rparr>))"
    using False by (simp add: idr_get_new_above_def tr flip: rs1_def)
  show ?thesis
  proof (cases res)
    case None
    with idr_try_from_none [of 0 rs1 start rs2] tr rs1 eq fail inv show ?thesis
      by (auto simp: idr_inv_def)
  next
    case (Some i)
    with idr_try_from_chain [of 0 rs1 start i rs2] tr rs1 eq fail inv show ?thesis
      by (auto simp: idr_inv_def split: if_splits)
  qed
qed

subsection \<open>Runs of the allocator\<close>

text \<open>
  The states a client can reach. With \<open>lossless\<close> every allocation of memory succeeds.
\<close>

inductive idr_reachable :: "('o ptr, 't) avl_ops \<Rightarrow> bool \<Rightarrow> 't idr \<Rightarrow> bool" for A lossless where
  init: "idr_reachable A lossless (idr_init A)"
| get_new_above: "idr_reachable A lossless s \<Longrightarrow> lossless \<longrightarrow> alloc \<Longrightarrow>
    idr_get_new_above A alloc s ob start = (r, s') \<Longrightarrow> idr_reachable A lossless s'"
| remove: "idr_reachable A lossless s \<Longrightarrow> idr_remove A alloc s i = (r', s') \<Longrightarrow> idr_reachable A lossless s'"
| replace: "idr_reachable A lossless s \<Longrightarrow> idr_replace A s ob i = (r'', s') \<Longrightarrow> idr_reachable A lossless s'"
| remove_all: "idr_reachable A lossless s \<Longrightarrow> idr_reachable A lossless (idr_remove_all A s)"

definition idr_no_leak :: "('o ptr, 't) avl_ops \<Rightarrow> 't idr \<Rightarrow> bool" where
  "idr_no_leak A s \<longleftrightarrow> dom (avl_find A (used_ids s)) = live_ids (free_id_ranges s)"

lemma idr_remove_inv:
  assumes "avl_laws A ok" and "idr_inv A ok s" and "idr_remove A alloc s i = (r, s')"
  shows "idr_inv A ok s' \<and> r \<noteq> Inl BUG \<and> (idr_no_leak A s \<longrightarrow> idr_no_leak A s')"
proof (cases "idr_find_used_id A s i = None \<or> \<not> alloc")
  case True
  with assms show ?thesis by (auto simp: idr_remove_def split: option.splits)
next
  case False
  with idr_remove_spec [OF assms(1,2), of i] assms(3) show ?thesis
    by (auto simp: idr_no_leak_def)
qed

lemma idr_reachable_inv:
  assumes "avl_laws A ok" and "idr_reachable A lossless s"
  shows "idr_inv A ok s \<and> (lossless \<longrightarrow> idr_no_leak A s)"
  using assms(2)
proof (induction rule: idr_reachable.induct)
  case init
  with idr_init_inv [OF assms(1)] show ?case by (simp add: idr_no_leak_def)
next
  case (get_new_above s alloc ob start r s')
  then have inv: "idr_inv A ok s" by simp
  show ?case
  proof (cases r)
    case (Inl e)
    with idr_get_new_above_failure [OF assms(1) inv, of alloc ob start e s'] get_new_above
    show ?thesis
      by (auto simp: idr_no_leak_def)
  next
    case (Inr i)
    with idr_get_new_above_success [OF assms(1) inv, of alloc ob start i s'] get_new_above
    show ?thesis
      by (simp add: idr_no_leak_def)
  qed
next
  case (remove s alloc i r' s')
  with idr_remove_inv [OF assms(1)] show ?case by blast
next
  case (replace s ob i r'' s')
  with idr_replace_spec [OF assms(1)] show ?case by (fastforce simp: idr_no_leak_def)
next
  case (remove_all s)
  with idr_init_inv [OF assms(1)] show ?case by (simp add: idr_remove_all_def idr_no_leak_def)
qed

subsection \<open>A concrete tree\<close>

text \<open>
  Strictly sorted association lists satisfy \<open>avl_laws\<close>: the hypotheses of the properties below can
  be met.
\<close>

fun sal_add :: "(u32 \<times> 'o) list \<Rightarrow> u32 \<Rightarrow> 'o \<Rightarrow> (u32 \<times> 'o) list" where
  "sal_add [] i x = [(i, x)]"
| "sal_add ((j, y) # t) i x = (if i < j then (i, x) # (j, y) # t else (j, y) # sal_add t i x)"

definition sal_avl :: "('o, (u32 \<times> 'o) list) avl_ops" where
  "sal_avl = \<lparr>avl_create = [], avl_find = map_of, avl_add = sal_add,
     avl_remove = (\<lambda>t i. filter (\<lambda>(j, y). j \<noteq> i) t),
     avl_store = (\<lambda>t i x. map (\<lambda>(j, y). if j = i then (j, x) else (j, y)) t),
     avl_walk = (\<lambda>t. t)\<rparr>"

definition sal_ok :: "(u32 \<times> 'o) list \<Rightarrow> bool" where
  "sal_ok t \<longleftrightarrow> sorted_wrt (<) (map fst t)"

lemma set_sal_add: "set (sal_add t i x) = insert (i, x) (set t)"
  by (induction t i x rule: sal_add.induct) auto

lemma sal_ok_add: "sal_ok t \<Longrightarrow> map_of t i = None \<Longrightarrow> sal_ok (sal_add t i x)"
proof (induction t i x rule: sal_add.induct)
  case (2 j y t i x)
  then show ?case
    by (cases "i < j") (force simp: sal_ok_def set_sal_add map_of_eq_None_iff neq_iff split: if_splits)+
qed (simp add: sal_ok_def)

lemma map_of_sal_add: "map_of t i = None \<Longrightarrow> map_of (sal_add t i x) = (map_of t)(i := Some x)"
  by (induction t i x rule: sal_add.induct) (auto simp: fun_eq_iff split: if_splits)

lemma sal_ok_filter: "sal_ok t \<Longrightarrow> sal_ok (filter P t)"
  by (induction t) (auto simp: sal_ok_def)

lemma map_of_sal_remove: "map_of (filter (\<lambda>(j, y). j \<noteq> i) t) = (map_of t)(i := None)"
  by (induction t) (auto simp: fun_eq_iff)

lemma map_of_sal_store_at:
  "map_of (map (\<lambda>(j, y). if j = i then (j, x) else (j, y)) t) k =
   (if k = i \<and> map_of t i \<noteq> None then Some x else map_of t k)"
  by (induction t) auto

lemma map_of_sal_store:
  "map_of t i \<noteq> None \<Longrightarrow>
   map_of (map (\<lambda>(j, y). if j = i then (j, x) else (j, y)) t) = (map_of t)(i := Some x)"
  by (rule ext) (auto simp: map_of_sal_store_at)

lemma sal_ok_store: "sal_ok t \<Longrightarrow> sal_ok (map (\<lambda>(j, y). if j = i then (j, x) else (j, y)) t)"
proof -
  have "map fst (map (\<lambda>(j, y). if j = i then (j, x) else (j, y)) t) = map fst t"
    by (induction t) auto
  then show "sal_ok t \<Longrightarrow> sal_ok (map (\<lambda>(j, y). if j = i then (j, x) else (j, y)) t)"
    by (simp only: sal_ok_def)
qed

lemma sal_avl_laws: "avl_laws sal_avl sal_ok"
  unfolding avl_laws_def id_map_def
  by (simp add: sal_avl_def sal_ok_add map_of_sal_add sal_ok_filter map_of_sal_remove
      map_of_sal_store sal_ok_store) (simp add: sal_ok_def)

subsection \<open>Properties\<close>

lemma idr_find_eq: "idr_find A idrp i = (case avl_find A (used_ids idrp) i of Some ob \<Rightarrow> ob | None \<Rightarrow> None)"
  by (simp add: idr_find_def idr_find_used_id_def)

text \<open>
  Claim C1. The id that \<open>idr_get_new_above\<close> returns is at least \<open>start\<close> and below \<open>0x7fffffff\<close>, was
  not in use, from then on finds the object, and changes no other lookup; the invariant of the
  allocator is kept.
\<close>

theorem idr_get_new_above_fresh:
  assumes "avl_laws A ok" and "idr_inv A ok idrp"
    and "idr_get_new_above A alloc idrp ob start = (Inr i, idrp')"
  shows "start \<le> i \<and> i < 0x7FFFFFFF \<and> idr_find_used_id A idrp i = None
     \<and> idr_find A idrp' = (idr_find A idrp)(i := ob) \<and> idr_inv A ok idrp'"
proof -
  note s = idr_get_new_above_success [OF assms]
  then have "idr_find A idrp' = (idr_find A idrp)(i := ob)"
    by (auto simp: fun_eq_iff idr_find_eq)
  with s show ?thesis
    by (simp add: idr_find_used_id_def)
qed

theorem idr_get_new_above_fresh_witness:
  "(5 :: u32) \<le> 5 \<and> idr_find sal_avl (snd (idr_get_new_above sal_avl True (idr_init sal_avl) (Some ''obj'') 5)) 5 = Some ''obj''"
proof -
  have run: "idr_get_new_above sal_avl True (idr_init sal_avl) (Some ''obj'') 5 =
    (Inr 5, \<lparr>used_ids = [(5, Some ''obj'')],
             free_id_ranges = [\<lparr>fr_start = 0, fr_end = 5, min_unused_id = 0, free_ids = []\<rparr>,
                               \<lparr>fr_start = 5, fr_end = 0x7FFFFFFF, min_unused_id = 6, free_ids = []\<rparr>]\<rparr>)"
    by (simp add: idr_get_new_above_def idr_init_def sal_avl_def fr_new_def fr_link_def fr_isfull_def
        idr_get_free_id_in_range_def Let_def)
  have inv: "idr_inv (sal_avl :: (string option, _) avl_ops) sal_ok (idr_init sal_avl)"
    by (rule conjunct1 [OF idr_init_inv [OF sal_avl_laws]])
  show ?thesis
    using idr_get_new_above_fresh [OF sal_avl_laws inv run] run by simp
qed

text \<open>
  Claim C15. In every state that a client can reach from \<open>idr_init\<close> by allocating, removing and
  replacing, also when memory allocations fail, the ranges and the tree agree; and as long as no
  allocation of memory has failed, the ids in use are exactly those issued and not given back, so
  none is lost.
\<close>

theorem idr_reachable_consistent:
  assumes "avl_laws A ok" and "idr_reachable A lossless s"
  shows "idr_inv A ok s
     \<and> (lossless \<longrightarrow> {i. idr_find_used_id A s i \<noteq> None} = live_ids (free_id_ranges s))"
  using idr_reachable_inv [OF assms] by (auto simp: idr_no_leak_def idr_find_used_id_def)

theorem idr_reachable_consistent_witness:
  "{i. idr_find_used_id (sal_avl :: (string option, _) avl_ops) (idr_init sal_avl) i \<noteq> None}
     = live_ids (free_id_ranges (idr_init (sal_avl :: (string option, _) avl_ops)))"
proof -
  have "idr_reachable (sal_avl :: (string option, _) avl_ops) True (idr_init sal_avl)"
    by (rule idr_reachable.init)
  from idr_reachable_consistent [OF sal_avl_laws this] show ?thesis by simp
qed

text \<open>
  Removing an id that is in use succeeds when memory for the free-list entry is available:
  the walk over the ranges finds the range of the id before it runs off the list, the id is
  no longer found, every other lookup is unchanged, and the id is available again.
\<close>

theorem idr_remove_correct:
  assumes "avl_laws A ok" and "idr_inv A ok idrp" and "idr_find_used_id A idrp i \<noteq> None"
  shows "\<exists>idrp'. idr_remove A True idrp i = (Inr (), idrp') \<and> idr_inv A ok idrp'
     \<and> idr_find A idrp' = (idr_find A idrp)(i := None) \<and> i \<notin> live_ids (free_id_ranges idrp')"
proof -
  from idr_remove_spec [OF assms] obtain idrp' where s:
    "idr_remove A True idrp i = (Inr (), idrp')" "idr_inv A ok idrp'"
    "live_ids (free_id_ranges idrp') = live_ids (free_id_ranges idrp) - {i}"
    "avl_find A (used_ids idrp') = (avl_find A (used_ids idrp))(i := None)"
    by blast
  then have "idr_find A idrp' = (idr_find A idrp)(i := None)"
    by (auto simp: fun_eq_iff idr_find_eq)
  with s show ?thesis by blast
qed

theorem idr_remove_correct_witness:
  "\<exists>idrp' :: (u32 \<times> string option) list idr.
     idr_remove sal_avl True (snd (idr_get_new_above sal_avl True (idr_init sal_avl) (Some ''obj'') 0)) 0
       = (Inr (), idrp') \<and> idr_find sal_avl idrp' 0 = None"
proof -
  let ?s = "\<lparr>used_ids = [(0, Some ''obj'')], free_id_ranges =
      [\<lparr>fr_start = 0, fr_end = 0x7FFFFFFF, min_unused_id = 1, free_ids = []\<rparr>]\<rparr>"
  have run: "idr_get_new_above sal_avl True (idr_init sal_avl) (Some ''obj'') 0 = (Inr 0, ?s)"
    by (simp add: idr_get_new_above_def idr_init_def sal_avl_def fr_new_def fr_isfull_def
        idr_get_free_id_in_range_def Let_def)
  have inv: "idr_inv sal_avl sal_ok ?s"
    using idr_get_new_above_success [OF sal_avl_laws _ run] idr_init_inv [OF sal_avl_laws] by blast
  have "idr_find_used_id sal_avl ?s 0 \<noteq> None"
    by (simp add: idr_find_used_id_def sal_avl_def)
  from idr_remove_correct [OF sal_avl_laws inv this] run show ?thesis
    by auto
qed

text \<open>
  When the tree node cannot be allocated, \<open>idr_get_new_above\<close> returns \<open>-ENOMEM\<close> after it has
  taken an id out of its range and does not put it back: that id is neither in use nor available
  any more.
\<close>

theorem idr_get_new_above_enomem:
  assumes "avl_laws A ok" and "idr_inv A ok idrp"
    and "idr_get_new_above A alloc idrp ob start = (Inl ENOMEM, idrp')"
  shows "\<exists>i. start \<le> i \<and> i \<notin> live_ids (free_id_ranges idrp) \<and> i \<in> live_ids (free_id_ranges idrp')
     \<and> idr_find_used_id A idrp' i = None"
proof -
  from idr_get_new_above_failure [OF assms] obtain i where i:
    "start \<le> i" "i \<notin> live_ids (free_id_ranges idrp)"
    "live_ids (free_id_ranges idrp') = insert i (live_ids (free_id_ranges idrp))"
    "used_ids idrp' = used_ids idrp"
    by auto
  moreover have "idr_find_used_id A idrp' i = None"
    using i assms(2) by (auto simp: idr_inv_def idr_find_used_id_def)
  ultimately show ?thesis by auto
qed

theorem idr_get_new_above_enomem_witness:
  "\<exists>i. (3 :: u32) \<le> i \<and>
     i \<in> live_ids (free_id_ranges (snd (idr_get_new_above sal_avl False (idr_init sal_avl) (Some ''obj'') 3)))"
proof -
  have run: "idr_get_new_above sal_avl False (idr_init sal_avl) (Some ''obj'') 3 =
    (Inl ENOMEM, \<lparr>used_ids = [],
             free_id_ranges = [\<lparr>fr_start = 0, fr_end = 3, min_unused_id = 0, free_ids = []\<rparr>,
                               \<lparr>fr_start = 3, fr_end = 0x7FFFFFFF, min_unused_id = 4, free_ids = []\<rparr>]\<rparr>)"
    by (simp add: idr_get_new_above_def idr_init_def sal_avl_def fr_new_def fr_link_def fr_isfull_def
        idr_get_free_id_in_range_def Let_def)
  have inv: "idr_inv (sal_avl :: (string option, _) avl_ops) sal_ok (idr_init sal_avl)"
    by (rule conjunct1 [OF idr_init_inv [OF sal_avl_laws]])
  show ?thesis
    using idr_get_new_above_enomem [OF sal_avl_laws inv run] by (simp only: run snd_conv) blast
qed

text \<open>
  \<open>idr_for_each\<close> calls its callback on every id in use, exactly once and in increasing
  order, for as long as the callback returns 0.
\<close>

theorem idr_for_each_visits:
  assumes "avl_laws A ok" and "idr_inv A ok idrp"
  shows "\<exists>visited. idr_for_each A idrp (\<lambda>i ob acc. (0, acc @ [(i, ob)])) [] = (0, visited)
     \<and> sorted_wrt (<) (map fst visited) \<and> map_of visited = idr_find_used_id A idrp"
proof -
  have "for_each_entry (\<lambda>i ob acc. (0, acc @ [(i, ob)])) es acc = (0, acc @ es)" for es :: "(u32 \<times> 'a option) list" and acc
    by (induction es arbitrary: acc) auto
  then show ?thesis
    using avl_lawsD(6) [OF assms(1), of "used_ids idrp"] assms(2)
    by (auto simp: idr_for_each_def idr_inv_def idr_find_used_id_def fun_eq_iff)
qed

theorem idr_for_each_visits_witness:
  "\<exists>visited :: (u32 \<times> string option) list.
     idr_for_each sal_avl (idr_init sal_avl) (\<lambda>i ob acc. (0, acc @ [(i, ob)])) [] = (0, visited)"
  using idr_for_each_visits [OF sal_avl_laws conjunct1 [OF idr_init_inv [OF sal_avl_laws]]] by blast

end
