(* ===== verification/Drm_Lock.thy ===== *)
theory Drm_Lock
  imports Drm_Prelude
begin

text \<open>
  The hardware lock (\<open>drm_lock.c\<close>, and \<open>drm_master_release\<close> of \<open>drm_fops.c\<close>): a word that holds a
  context and two flags, taken and released with compare-and-swap, with a queue of sleeping processes
  and a second, preferred, kind of waiter, the kernel's idle lock.

  A compare-and-swap loop is one step on the word that the successful round has read. The section
  under \<open>lock_mutex\<close> from one wait to the next is a step as well.
\<close>

subsection \<open>State\<close>

text \<open>
  The flags and the macros that read the word are in \<open>drm.h\<close>, which is not part of the repository:
  the flags are two values without common bits, a word consists of them and the context.
\<close>

record lock_h =
  LOCK_HELD :: u32
  LOCK_CONT :: u32
  LOCKING_CONTEXT :: "u32 \<Rightarrow> u32"
  LOCK_IS_HELD :: "u32 \<Rightarrow> bool"

definition lock_h_ok :: "lock_h \<Rightarrow> bool" where
  "lock_h_ok L \<longleftrightarrow> LOCK_HELD L \<noteq> 0 \<and> LOCK_CONT L \<noteq> 0 \<and> LOCK_HELD L AND LOCK_CONT L = 0 \<and>
     LOCKING_CONTEXT L = (\<lambda>w. w AND NOT (LOCK_HELD L OR LOCK_CONT L)) \<and>
     LOCK_IS_HELD L = (\<lambda>w. w AND LOCK_HELD L \<noteq> 0)"

record drm_lock_data =
  hw_lock :: "u32 ptr"
  file_priv :: "nat ptr"
  lock_time :: nat
  kernel_waiters :: u32
  user_waiters :: u32
  idle_has_lock :: bool

text \<open>The fields of the device and of its files that the lock uses.\<close>

record lock_dev =
  lck :: drm_lock_data
  lock_count :: "nat \<Rightarrow> u64"
  stat_locks :: nat
  stat_unlocks :: nat

text \<open>The argument of the ioctls; of the flags only \<open>_DRM_LOCK_QUIESCENT\<close> matters.\<close>

record drm_lock_arg =
  context_arg :: u32
  quiescent_arg :: bool

definition DRM_KERNEL_CONTEXT :: u32 where
  "DRM_KERNEL_CONTEXT = 0"

subsection \<open>Taking and freeing the word\<close>

definition drm_lock_take :: "lock_h \<Rightarrow> u32 \<Rightarrow> drm_lock_data \<Rightarrow> (bool \<times> drm_lock_data) result" where
  "drm_lock_take L ctx d =
     (case hw_lock d of
        None \<Rightarrow> Inl BUG
      | Some old \<Rightarrow>
          let new = (if old AND LOCK_HELD L \<noteq> 0 then old OR LOCK_CONT L
                     else ctx OR LOCK_HELD L OR
                          (if user_waiters d + kernel_waiters d > 1 then LOCK_CONT L else 0));
              d = d\<lparr>hw_lock := Some new\<rparr>
          in if LOCKING_CONTEXT L old = ctx \<and> old AND LOCK_HELD L \<noteq> 0 then Inr (False, d)
             else Inr (LOCKING_CONTEXT L new = ctx \<and> new AND LOCK_HELD L \<noteq> 0, d))"

definition drm_lock_transfer :: "lock_h \<Rightarrow> u32 \<Rightarrow> drm_lock_data \<Rightarrow> drm_lock_data result" where
  "drm_lock_transfer L ctx d =
     (if hw_lock d = None then Inl BUG
      else Inr (d\<lparr>file_priv := None, hw_lock := Some (ctx OR LOCK_HELD L)\<rparr>))"

text \<open>The result is the value returned, and whether the sleepers are woken.\<close>

definition drm_lock_free :: "lock_h \<Rightarrow> u32 \<Rightarrow> drm_lock_data \<Rightarrow> (nat \<times> bool \<times> drm_lock_data) result" where
  "drm_lock_free L ctx d =
     (if kernel_waiters d \<noteq> 0
      then (case drm_lock_transfer L 0 d of
              Inl e \<Rightarrow> Inl e
            | Inr d \<Rightarrow> Inr (1, False, d\<lparr>idle_has_lock := True\<rparr>))
      else
        (case hw_lock d of
           None \<Rightarrow> Inl BUG
         | Some old \<Rightarrow>
             let d = d\<lparr>hw_lock := Some (LOCKING_CONTEXT L old)\<rparr>
             in if LOCK_IS_HELD L old \<and> LOCKING_CONTEXT L old \<noteq> ctx then Inr (1, False, d)
                else Inr (0, True, d)))"

definition drm_idlelock_take :: "lock_h \<Rightarrow> drm_lock_data \<Rightarrow> drm_lock_data result" where
  "drm_idlelock_take L d =
     (let d = d\<lparr>kernel_waiters := kernel_waiters d + 1\<rparr>
      in if idle_has_lock d then Inr d
         else (case drm_lock_take L DRM_KERNEL_CONTEXT d of
                 Inl e \<Rightarrow> Inl e
               | Inr (ret, d) \<Rightarrow> Inr (if ret then d\<lparr>idle_has_lock := True\<rparr> else d)))"

text \<open>The result says whether the sleepers are woken.\<close>

definition drm_idlelock_release :: "drm_lock_data \<Rightarrow> (bool \<times> drm_lock_data) result" where
  "drm_idlelock_release d =
     (let d = d\<lparr>kernel_waiters := kernel_waiters d - 1\<rparr>
      in if kernel_waiters d = 0 \<and> idle_has_lock d
         then if hw_lock d = None then Inl BUG
              else Inr (True, d\<lparr>hw_lock := Some DRM_KERNEL_CONTEXT, idle_has_lock := False\<rparr>)
         else Inr (False, d))"

definition drm_i_have_hw_lock :: "lock_h \<Rightarrow> nat \<Rightarrow> lock_dev \<Rightarrow> bool" where
  "drm_i_have_hw_lock L file s =
     (lock_count s file \<noteq> 0 \<and>
      (case hw_lock (lck s) of None \<Rightarrow> False | Some w \<Rightarrow> LOCK_IS_HELD L w \<and> file_priv (lck s) = Some file))"

subsection \<open>The ioctls\<close>

text \<open>
  \<open>dmaq\<close> is the callback \<open>dma_quiescent\<close>: absent, or whether it returns a value other than 0. A call
  that does not return sleeps in \<open>cv_wait_sig\<close>. A value returned on the right is the non-negative
  \<open>int\<close> of the code.
\<close>

datatype lock_out = Asleep | Returned "errno + nat"

definition lock_finish :: "bool option \<Rightarrow> drm_lock_arg \<Rightarrow> nat \<Rightarrow> lock_out" where
  "lock_finish dmaq arg ret =
     (if ret \<noteq> 0 then Returned (Inr ret)
      else if dmaq = Some True \<and> quiescent_arg arg then Returned (Inl EBUSY)
      else Returned (Inr 0))"

text \<open>One round of the loop; \<open>ret\<close> is the variable, \<open>now\<close> the time.\<close>

definition lock_round ::
  "lock_h \<Rightarrow> nat \<Rightarrow> bool option \<Rightarrow> nat \<Rightarrow> drm_lock_arg \<Rightarrow> nat \<Rightarrow> lock_dev \<Rightarrow> (lock_out \<times> lock_dev) result" where
  "lock_round L now dmaq file arg ret s =
     (case drm_lock_take L (context_arg arg) (lck s) of
        Inl e \<Rightarrow> Inl e
      | Inr (True, d) \<Rightarrow>
          Inr (lock_finish dmaq arg ret,
               s\<lparr>lck := d\<lparr>file_priv := Some file, lock_time := now, user_waiters := user_waiters d - 1\<rparr>,
                 stat_locks := stat_locks s + 1\<rparr>)
      | Inr (False, d) \<Rightarrow> Inr (Asleep, s\<lparr>lck := d\<rparr>))"

definition drm_lock ::
  "lock_h \<Rightarrow> bool \<Rightarrow> nat \<Rightarrow> bool option \<Rightarrow> nat \<Rightarrow> drm_lock_arg \<Rightarrow> lock_dev \<Rightarrow> (lock_out \<times> lock_dev) result" where
  "drm_lock L dma_queue now dmaq file arg s =
     (let s = s\<lparr>lock_count := (lock_count s)(file := lock_count s file + 1)\<rparr>
      in if context_arg arg = DRM_KERNEL_CONTEXT then Inr (Returned (Inl EINVAL), s)
         else if hw_lock (lck s) = None then Inr (Returned (Inl EINVAL), s)
         else if dma_queue \<and> sint (context_arg arg) < 0 then Inr (Returned (Inl EINVAL), s)
         else lock_round L now dmaq file arg 0 (s\<lparr>lck := (lck s)\<lparr>user_waiters := user_waiters (lck s) + 1\<rparr>\<rparr>))"

text \<open>How the loop goes on when \<open>cv_wait_sig\<close> returns \<open>r\<close>: 0 after a signal, else a positive value.\<close>

definition drm_lock_wake ::
  "lock_h \<Rightarrow> nat \<Rightarrow> bool option \<Rightarrow> nat \<Rightarrow> drm_lock_arg \<Rightarrow> nat \<Rightarrow> lock_dev \<Rightarrow> (lock_out \<times> lock_dev) result" where
  "drm_lock_wake L now dmaq file arg r s =
     (if r = 0
      then Inr (Returned (Inl EINTR), s\<lparr>lck := (lck s)\<lparr>user_waiters := user_waiters (lck s) - 1\<rparr>\<rparr>)
      else lock_round L now dmaq file arg r s)"

definition drm_unlock :: "lock_h \<Rightarrow> drm_lock_arg \<Rightarrow> lock_dev \<Rightarrow> (unit result \<times> bool \<times> lock_dev) result" where
  "drm_unlock L arg s =
     (if context_arg arg = DRM_KERNEL_CONTEXT then Inr (Inl EINVAL, False, s)
      else
        let s = s\<lparr>stat_unlocks := stat_unlocks s + 1\<rparr>
        in (case drm_lock_free L (context_arg arg) (lck s) of
              Inl e \<Rightarrow> Inl e
            | Inr (_, bc, d) \<Rightarrow> Inr (Inr (), bc, s\<lparr>lck := d\<rparr>)))"

text \<open>What closing a file does to the lock.\<close>

definition drm_master_release :: "lock_h \<Rightarrow> nat \<Rightarrow> lock_dev \<Rightarrow> (bool \<times> lock_dev) result" where
  "drm_master_release L file s =
     (if drm_i_have_hw_lock L file s
      then (case hw_lock (lck s) of
              None \<Rightarrow> Inl BUG
            | Some w \<Rightarrow>
                (case drm_lock_free L (LOCKING_CONTEXT L w) (lck s) of
                   Inl e \<Rightarrow> Inl e
                 | Inr (_, bc, d) \<Rightarrow> Inr (bc, s\<lparr>lck := d\<rparr>)))
      else Inr (False, s))"

subsection \<open>Processes\<close>

text \<open>
  Sleeping processes with the file, the argument and whether they have been woken since, and the
  context and file whose call has taken the lock and which have not given it back.
\<close>

record lock_sys =
  ldev :: lock_dev
  sleepers :: "nat \<Rightarrow> (nat \<times> drm_lock_arg \<times> bool) option"
  holder :: "(u32 \<times> nat) option"

definition wake_all :: "bool \<Rightarrow> lock_sys \<Rightarrow> lock_sys" where
  "wake_all bc S = (if bc then S\<lparr>sleepers := (\<lambda>t. map_option (\<lambda>(f, a, _). (f, a, True)) (sleepers S t))\<rparr> else S)"

text \<open>Any return but those two comes with the lock, also \<open>-EBUSY\<close>.\<close>

definition took :: "errno + nat \<Rightarrow> bool" where
  "took r \<longleftrightarrow> r \<noteq> Inl EINVAL \<and> r \<noteq> Inl EINTR"

fun after_call :: "nat \<Rightarrow> nat \<Rightarrow> drm_lock_arg \<Rightarrow> lock_out \<Rightarrow> lock_dev \<Rightarrow> lock_sys \<Rightarrow> lock_sys" where
  "after_call t f a Asleep s S = S\<lparr>ldev := s, sleepers := (sleepers S)(t \<mapsto> (f, a, False))\<rparr>"
| "after_call t f a (Returned r) s S =
     S\<lparr>ldev := s, sleepers := (sleepers S)(t := None), holder := (if took r then Some (context_arg a, f) else holder S)\<rparr>"

text \<open>A context that does not use the bits of the flags.\<close>

definition ctx_ok :: "lock_h \<Rightarrow> u32 \<Rightarrow> bool" where
  "ctx_ok L c \<longleftrightarrow> c AND (LOCK_HELD L OR LOCK_CONT L) = 0"

text \<open>
  The steps. Only the holder unlocks; the kernel releases an idle lock it has asked for; counters do
  not overflow. A sleeper can go on at any time.
\<close>

inductive lock_step :: "lock_h \<Rightarrow> bool \<Rightarrow> bool option \<Rightarrow> lock_sys \<Rightarrow> lock_sys \<Rightarrow> bool"
  for L dma_queue dmaq where
  lock: "sleepers S t = None \<Longrightarrow> ctx_ok L (context_arg a) \<Longrightarrow> lock_count (ldev S) f + 1 \<noteq> 0 \<Longrightarrow>
    drm_lock L dma_queue now dmaq f a (ldev S) = Inr (out, s) \<Longrightarrow> lock_step L dma_queue dmaq S (after_call t f a out s S)"
| wake: "sleepers S t = Some (f, a, b) \<Longrightarrow> drm_lock_wake L now dmaq f a r (ldev S) = Inr (out, s) \<Longrightarrow>
    lock_step L dma_queue dmaq S (after_call t f a out s S)"
| unlock: "holder S = Some (context_arg a, f) \<Longrightarrow> drm_unlock L a (ldev S) = Inr (r, bc, s) \<Longrightarrow>
    lock_step L dma_queue dmaq S (wake_all bc (S\<lparr>ldev := s, holder := None\<rparr>))"
| idle_take: "kernel_waiters (lck (ldev S)) + 1 \<noteq> 0 \<Longrightarrow> drm_idlelock_take L (lck (ldev S)) = Inr d \<Longrightarrow>
    lock_step L dma_queue dmaq S (S\<lparr>ldev := (ldev S)\<lparr>lck := d\<rparr>\<rparr>)"
| idle_release: "kernel_waiters (lck (ldev S)) \<noteq> 0 \<Longrightarrow> drm_idlelock_release (lck (ldev S)) = Inr (bc, d) \<Longrightarrow>
    lock_step L dma_queue dmaq S (wake_all bc (S\<lparr>ldev := (ldev S)\<lparr>lck := d\<rparr>\<rparr>))"
| close: "drm_master_release L f (ldev S) = Inr (bc, s) \<Longrightarrow>
    lock_step L dma_queue dmaq S (wake_all bc (S\<lparr>ldev := s,
      holder := (if \<exists>c. holder S = Some (c, f) then None else holder S)\<rparr>))"

definition lock_init :: lock_sys where
  "lock_init = \<lparr>ldev = \<lparr>lck = \<lparr>hw_lock = Some 0, file_priv = None, lock_time = 0, kernel_waiters = 0, user_waiters = 0,
        idle_has_lock = False\<rparr>, lock_count = (\<lambda>_. 0), stat_locks = 0, stat_unlocks = 0\<rparr>,
     sleepers = (\<lambda>_. None), holder = None\<rparr>"

inductive lock_reach :: "lock_h \<Rightarrow> bool \<Rightarrow> bool option \<Rightarrow> lock_sys \<Rightarrow> bool" for L dma_queue dmaq where
  start: "lock_reach L dma_queue dmaq lock_init"
| step: "lock_reach L dma_queue dmaq S \<Longrightarrow> lock_step L dma_queue dmaq S S' \<Longrightarrow> lock_reach L dma_queue dmaq S'"

subsection \<open>The word\<close>

lemma lock_h_bits:
  assumes "lock_h_ok L"
  shows "\<not> (bit (LOCK_HELD L) n \<and> bit (LOCK_CONT L) n)"
proof -
  have "bit (LOCK_HELD L AND LOCK_CONT L) n = bit (0 :: u32) n" using assms by (simp add: lock_h_ok_def)
  then show ?thesis by (simp add: bit_and_iff)
qed

lemma is_held_iff: "lock_h_ok L \<Longrightarrow> LOCK_IS_HELD L w \<longleftrightarrow> w AND LOCK_HELD L \<noteq> 0"
  by (simp add: lock_h_ok_def)

lemma word_of_cont:
  assumes "lock_h_ok L"
  shows "LOCKING_CONTEXT L (w OR LOCK_CONT L) = LOCKING_CONTEXT L w"
    and "LOCK_IS_HELD L (w OR LOCK_CONT L) = LOCK_IS_HELD L w"
proof -
  show "LOCKING_CONTEXT L (w OR LOCK_CONT L) = LOCKING_CONTEXT L w"
    using assms by (auto simp: lock_h_ok_def bit_eq_iff bit_simps)
  have "(w OR LOCK_CONT L) AND LOCK_HELD L = w AND LOCK_HELD L"
    using lock_h_bits [OF assms] by (auto simp: bit_eq_iff bit_simps)
  then show "LOCK_IS_HELD L (w OR LOCK_CONT L) = LOCK_IS_HELD L w" using assms by (simp add: is_held_iff)
qed

lemma ctx_ok_bits: "ctx_ok L c \<longleftrightarrow> (\<forall>n < 32. bit c n \<longrightarrow> \<not> bit (LOCK_HELD L) n \<and> \<not> bit (LOCK_CONT L) n)"
  by (auto simp: ctx_ok_def bit_eq_iff bit_simps)

lemma word_taken:
  assumes "lock_h_ok L" and x: "x = LOCK_CONT L \<or> x = 0"
  shows "LOCK_IS_HELD L (c OR LOCK_HELD L OR x)"
    and "LOCKING_CONTEXT L (c OR LOCK_HELD L OR x) = c \<longleftrightarrow> ctx_ok L c"
proof -
  have "bit ((c OR LOCK_HELD L OR x) AND LOCK_HELD L) n" if "bit (LOCK_HELD L) n" for n
    using that by (simp add: bit_simps)
  moreover obtain n where "bit (LOCK_HELD L) n" using assms(1) by (auto simp: lock_h_ok_def bit_eq_iff)
  ultimately have "(c OR LOCK_HELD L OR x) AND LOCK_HELD L \<noteq> 0" by (metis bit_0_eq bot_apply bot_bool_def)
  then show "LOCK_IS_HELD L (c OR LOCK_HELD L OR x)" using assms(1) by (simp add: is_held_iff)
  have lc: "LOCKING_CONTEXT L = (\<lambda>w. w AND NOT (LOCK_HELD L OR LOCK_CONT L))"
    using assms(1) by (simp add: lock_h_ok_def)
  show "LOCKING_CONTEXT L (c OR LOCK_HELD L OR x) = c \<longleftrightarrow> ctx_ok L c"
    using x unfolding lc ctx_ok_bits by (elim disjE) (auto simp: bit_eq_iff bit_simps)
qed

lemma word_freed:
  assumes "lock_h_ok L"
  shows "\<not> LOCK_IS_HELD L (LOCKING_CONTEXT L w)" "\<not> LOCK_IS_HELD L 0" "LOCKING_CONTEXT L 0 = 0"
  using assms by (auto simp: lock_h_ok_def bit_eq_iff bit_simps)

lemma drm_lock_take_held:
  assumes "lock_h_ok L" "hw_lock d = Some w" "LOCK_IS_HELD L w"
  shows "drm_lock_take L c d = Inr (False, d\<lparr>hw_lock := Some (w OR LOCK_CONT L)\<rparr>)"
  using assms word_of_cont(1) [OF assms(1), of w] by (simp add: drm_lock_take_def Let_def is_held_iff)

lemma drm_lock_take_free:
  assumes "lock_h_ok L" "hw_lock d = Some w" "\<not> LOCK_IS_HELD L w"
  obtains w' where "drm_lock_take L c d = Inr (ctx_ok L c, d\<lparr>hw_lock := Some w'\<rparr>)" "LOCK_IS_HELD L w'"
    "ctx_ok L c \<Longrightarrow> LOCKING_CONTEXT L w' = c"
proof -
  let ?x = "if user_waiters d + kernel_waiters d > 1 then LOCK_CONT L else 0"
  have x: "?x = LOCK_CONT L \<or> ?x = 0" by simp
  note t = word_taken [OF assms(1) x, of c]
  have "drm_lock_take L c d = Inr (ctx_ok L c, d\<lparr>hw_lock := Some (c OR LOCK_HELD L OR ?x)\<rparr>)"
    unfolding drm_lock_take_def Let_def assms(2) option.case
    using assms t by (simp add: is_held_iff)
  with that t show ?thesis by blast
qed

subsection \<open>The invariant\<close>

text \<open>
  Who has the lock agrees with the word, the kernel waits only while a process has the lock, and when
  nobody has it every sleeper has been woken.
\<close>

definition sleepers_ok ::
  "lock_h \<Rightarrow> bool \<Rightarrow> (nat \<Rightarrow> u64) \<Rightarrow> (nat \<Rightarrow> (nat \<times> drm_lock_arg \<times> bool) option) \<Rightarrow> bool" where
  "sleepers_ok L h cnt m \<longleftrightarrow> (\<forall>t f a b. m t = Some (f, a, b) \<longrightarrow>
     (h \<or> b) \<and> ctx_ok L (context_arg a) \<and> context_arg a \<noteq> 0 \<and> cnt f \<noteq> 0)"

lemma sleepers_okD:
  "sleepers_ok L h cnt m \<Longrightarrow> m t = Some (f, a, b) \<Longrightarrow> ctx_ok L (context_arg a) \<and> context_arg a \<noteq> 0 \<and> cnt f \<noteq> 0"
  unfolding sleepers_ok_def by blast

lemma sleepers_ok_held: "sleepers_ok L h cnt m \<Longrightarrow> sleepers_ok L True cnt m"
  unfolding sleepers_ok_def by blast

lemma sleepers_ok_count: "sleepers_ok L h cnt m \<Longrightarrow> cnt f + 1 \<noteq> 0 \<Longrightarrow> sleepers_ok L h (cnt(f := cnt f + 1)) m"
  by (simp add: sleepers_ok_def) meson

lemma sleepers_ok_leave: "sleepers_ok L h cnt m \<Longrightarrow> sleepers_ok L h cnt (m(t := None))"
  by (simp add: sleepers_ok_def)

lemma sleepers_ok_enter:
  "sleepers_ok L True cnt m \<Longrightarrow> ctx_ok L (context_arg a) \<Longrightarrow> context_arg a \<noteq> 0 \<Longrightarrow> cnt f \<noteq> 0 \<Longrightarrow>
   sleepers_ok L True cnt (m(t \<mapsto> (f, a, b)))"
  by (simp add: sleepers_ok_def)

lemma sleepers_ok_wake_all:
  assumes "sleepers_ok L h cnt m"
  shows "sleepers_ok L h' cnt (\<lambda>t. map_option (\<lambda>(f, a, _). (f, a, True)) (m t))"
  unfolding sleepers_ok_def
proof (intro allI impI)
  fix t f a b
  assume "map_option (\<lambda>(f, a, _). (f, a, True)) (m t) = Some (f, a, b)"
  then obtain b' where "m t = Some (f, a, b')" "b" by (auto split: prod.splits)
  with assms show "(h' \<or> b) \<and> ctx_ok L (context_arg a) \<and> context_arg a \<noteq> 0 \<and> cnt f \<noteq> 0"
    unfolding sleepers_ok_def by blast
qed

definition lock_inv :: "lock_h \<Rightarrow> lock_sys \<Rightarrow> bool" where
  "lock_inv L S \<longleftrightarrow>
     (let s = ldev S; d = lck s
      in \<exists>w. hw_lock d = Some w \<and>
         (idle_has_lock d \<longrightarrow> kernel_waiters d \<noteq> 0 \<and> LOCK_IS_HELD L w \<and> LOCKING_CONTEXT L w = 0 \<and> holder S = None) \<and>
         (\<forall>c f. holder S = Some (c, f) \<longrightarrow> LOCK_IS_HELD L w \<and> LOCKING_CONTEXT L w = c \<and> c \<noteq> 0 \<and>
            \<not> idle_has_lock d \<and> file_priv d = Some f \<and> lock_count s f \<noteq> 0) \<and>
         (LOCK_IS_HELD L w \<longrightarrow> idle_has_lock d \<or> holder S \<noteq> None) \<and>
         (kernel_waiters d \<noteq> 0 \<longrightarrow> LOCK_IS_HELD L w) \<and>
         sleepers_ok L (LOCK_IS_HELD L w) (lock_count s) (sleepers S))"

lemma lock_inv_init: "lock_h_ok L \<Longrightarrow> lock_inv L lock_init"
  by (simp add: lock_inv_def lock_init_def word_freed sleepers_ok_def)

lemma lock_inv_word:
  assumes "lock_inv L S"
  obtains w where "hw_lock (lck (ldev S)) = Some w"
  using assms by (auto simp: lock_inv_def Let_def)

lemma lock_round_ok:
  assumes L: "lock_h_ok L" and inv: "lock_inv L (S\<lparr>ldev := s\<rparr>)" and c: "ctx_ok L (context_arg a)" "context_arg a \<noteq> 0"
    and f: "lock_count s f \<noteq> 0" and run: "lock_round L now dmaq f a ret s = Inr (out, s')"
  shows "lock_inv L (after_call t f a out s' S)"
proof -
  obtain w where w: "hw_lock (lck s) = Some w" using lock_inv_word [OF inv] by auto
  show ?thesis
  proof (cases "LOCK_IS_HELD L w")
    case True
    then have "out = Asleep" "s' = s\<lparr>lck := (lck s)\<lparr>hw_lock := Some (w OR LOCK_CONT L)\<rparr>\<rparr>"
      using run drm_lock_take_held [OF L w] by (simp_all add: lock_round_def)
    then show ?thesis
      using inv w True c f by (auto simp: lock_inv_def Let_def word_of_cont [OF L] intro: sleepers_ok_enter)
  next
    case False
    obtain w' where w': "drm_lock_take L (context_arg a) (lck s) = Inr (True, (lck s)\<lparr>hw_lock := Some w'\<rparr>)"
      "LOCK_IS_HELD L w'" "LOCKING_CONTEXT L w' = context_arg a"
      using drm_lock_take_free [OF L w False, of "context_arg a"] c(1) by auto
    have out: "out = lock_finish dmaq a ret"
      and s': "s' = s\<lparr>lck := (lck s)\<lparr>hw_lock := Some w', file_priv := Some f, lock_time := now,
          user_waiters := user_waiters (lck s) - 1\<rparr>, stat_locks := stat_locks s + 1\<rparr>"
      using run w'(1) by (simp_all add: lock_round_def)
    obtain r where r: "out = Returned r" "took r"
      using out by (auto simp: lock_finish_def took_def split: if_splits)
    have idle: "\<not> idle_has_lock (lck s)" using inv w False by (auto simp: lock_inv_def Let_def)
    show ?thesis
      using inv w False c f w' idle by (auto simp: r s' lock_inv_def Let_def intro: sleepers_ok_leave sleepers_ok_held)
  qed
qed

lemma lock_inv_lock:
  assumes L: "lock_h_ok L" and inv: "lock_inv L S" and t: "sleepers S t = None" and c: "ctx_ok L (context_arg a)"
    and f: "lock_count (ldev S) f + 1 \<noteq> 0" and run: "drm_lock L dma_queue now dmaq f a (ldev S) = Inr (out, s)"
  shows "lock_inv L (after_call t f a out s S)"
proof -
  let ?s = "(ldev S)\<lparr>lock_count := (lock_count (ldev S))(f := lock_count (ldev S) f + 1)\<rparr>"
  let ?s1 = "?s\<lparr>lck := (lck ?s)\<lparr>user_waiters := user_waiters (lck ?s) + 1\<rparr>\<rparr>"
  have 1: "lock_inv L (S\<lparr>ldev := ?s1\<rparr>)" and n: "lock_inv L (S\<lparr>ldev := ?s\<rparr>)"
    using inv f by (auto simp: lock_inv_def Let_def intro: sleepers_ok_count)
  have 2: "lock_inv L (S\<lparr>ldev := ?s, sleepers := (sleepers S)(t := None)\<rparr>)"
    using n by (auto simp: lock_inv_def Let_def intro: sleepers_ok_leave)
  let ?bad = "context_arg a = 0 \<or> hw_lock (lck (ldev S)) = None \<or> dma_queue \<and> sint (context_arg a) < 0"
  have run': "(if ?bad then Inr (Returned (Inl EINVAL), ?s) else lock_round L now dmaq f a 0 ?s1) = Inr (out, s)"
    unfolding run [symmetric] drm_lock_def Let_def DRM_KERNEL_CONTEXT_def by simp
  show ?thesis
  proof (cases ?bad)
    case True
    with run' have "out = Returned (Inl EINVAL)" "s = ?s" by simp_all
    with 2 show ?thesis by (simp add: took_def)
  next
    case False
    with run' have r: "lock_round L now dmaq f a 0 ?s1 = Inr (out, s)" and nz: "context_arg a \<noteq> 0" by (simp_all split: if_splits)
    from lock_round_ok [OF L 1 c nz _ r] f show ?thesis by simp
  qed
qed

lemma lock_inv_wake:
  assumes L: "lock_h_ok L" and inv: "lock_inv L S" and t: "sleepers S t = Some (f, a, b)"
    and run: "drm_lock_wake L now dmaq f a r (ldev S) = Inr (out, s)"
  shows "lock_inv L (after_call t f a out s S)"
proof (cases "r = 0")
  case True
  with run inv show ?thesis by (auto simp: drm_lock_wake_def took_def lock_inv_def Let_def intro: sleepers_ok_leave)
next
  case False
  have "ctx_ok L (context_arg a)" "context_arg a \<noteq> 0" "lock_count (ldev S) f \<noteq> 0" and i: "lock_inv L (S\<lparr>ldev := ldev S\<rparr>)"
    using inv t by (auto simp: lock_inv_def Let_def dest: sleepers_okD)
  from lock_round_ok [OF L i this(1-3)] run False show ?thesis by (simp add: drm_lock_wake_def)
qed

text \<open>Freeing the lock by its holder hands it to the kernel or wakes the sleepers.\<close>

lemma drm_lock_free_ok:
  assumes L: "lock_h_ok L" and inv: "lock_inv L S" and w: "hw_lock (lck (ldev S)) = Some w" "LOCK_IS_HELD L w"
    and free: "drm_lock_free L (LOCKING_CONTEXT L w) (lck (ldev S)) = Inr (r, bc, d)"
    and s: "lck s = d" "lock_count s = lock_count (ldev S)"
  shows "lock_inv L (wake_all bc (S\<lparr>ldev := s, holder := None\<rparr>))"
proof (cases "kernel_waiters (lck (ldev S)) = 0")
  case True
  then have "bc" and d: "d = (lck (ldev S))\<lparr>hw_lock := Some (LOCKING_CONTEXT L w)\<rparr>"
    using free w by (simp_all add: drm_lock_free_def Let_def)
  moreover have "\<not> idle_has_lock (lck (ldev S))" using inv True by (auto simp: lock_inv_def Let_def)
  ultimately show ?thesis
    using inv w True by (auto simp: lock_inv_def Let_def wake_all_def s word_freed [OF L] intro: sleepers_ok_wake_all)
next
  case False
  have z: "ctx_ok L 0" by (simp add: ctx_ok_def)
  have "\<not> bc" and d: "d = (lck (ldev S))\<lparr>file_priv := None, hw_lock := Some (0 OR LOCK_HELD L), idle_has_lock := True\<rparr>"
    using free w False by (auto simp: drm_lock_free_def drm_lock_transfer_def)
  then show ?thesis
    using inv False word_taken [OF L, of 0 0] z by (auto simp: lock_inv_def Let_def wake_all_def s)
qed

lemma lock_inv_unlock:
  assumes L: "lock_h_ok L" and inv: "lock_inv L S" and h: "holder S = Some (context_arg a, f)"
    and run: "drm_unlock L a (ldev S) = Inr (r, bc, s)"
  shows "lock_inv L (wake_all bc (S\<lparr>ldev := s, holder := None\<rparr>))"
proof -
  obtain w where w: "hw_lock (lck (ldev S)) = Some w" "LOCK_IS_HELD L w" "LOCKING_CONTEXT L w = context_arg a" "context_arg a \<noteq> 0"
    using inv h by (auto simp: lock_inv_def Let_def)
  obtain r' d where "drm_lock_free L (LOCKING_CONTEXT L w) (lck (ldev S)) = Inr (r', bc, d)"
    "s = (ldev S)\<lparr>stat_unlocks := stat_unlocks (ldev S) + 1, lck := d\<rparr>"
    using run w(3,4) by (auto simp: drm_unlock_def Let_def DRM_KERNEL_CONTEXT_def split: sum.splits)
  with drm_lock_free_ok [OF L inv w(1,2)] show ?thesis by simp
qed

lemma lock_inv_idle_take:
  assumes L: "lock_h_ok L" and inv: "lock_inv L S" and k: "kernel_waiters (lck (ldev S)) + 1 \<noteq> 0"
    and run: "drm_idlelock_take L (lck (ldev S)) = Inr d"
  shows "lock_inv L (S\<lparr>ldev := (ldev S)\<lparr>lck := d\<rparr>\<rparr>)"
proof -
  let ?d = "(lck (ldev S))\<lparr>kernel_waiters := kernel_waiters (lck (ldev S)) + 1\<rparr>"
  obtain w where w: "hw_lock (lck (ldev S)) = Some w" using lock_inv_word [OF inv] .
  then have w1: "hw_lock ?d = Some w" by simp
  show ?thesis
  proof (cases "idle_has_lock (lck (ldev S))")
    case True
    then have "d = ?d" using run by (simp add: drm_idlelock_take_def)
    with inv w k True show ?thesis by (auto simp: lock_inv_def Let_def)
  next
    case idle: False
    then have take: "drm_idlelock_take L (lck (ldev S)) =
        (case drm_lock_take L 0 ?d of Inl e \<Rightarrow> Inl e | Inr (ret, d) \<Rightarrow> Inr (if ret then d\<lparr>idle_has_lock := True\<rparr> else d))"
      by (simp add: drm_idlelock_take_def DRM_KERNEL_CONTEXT_def)
    show ?thesis
    proof (cases "LOCK_IS_HELD L w")
      case True
      then have "d = ?d\<lparr>hw_lock := Some (w OR LOCK_CONT L)\<rparr>"
        using run take drm_lock_take_held [OF L w1 True, of 0] by simp
      with inv w k True idle show ?thesis by (auto simp: lock_inv_def Let_def word_of_cont [OF L])
    next
      case False
      have z: "ctx_ok L 0" by (simp add: ctx_ok_def)
      obtain w' where w': "drm_lock_take L 0 ?d = Inr (True, ?d\<lparr>hw_lock := Some w'\<rparr>)" "LOCK_IS_HELD L w'" "LOCKING_CONTEXT L w' = 0"
        by (rule drm_lock_take_free [OF L w1 False, of 0]) (use z in simp)
      then have "d = ?d\<lparr>hw_lock := Some w', idle_has_lock := True\<rparr>" using run take by simp
      with inv w k w' False idle show ?thesis
        by (cases "holder S") (auto simp: lock_inv_def Let_def intro: sleepers_ok_held)
    qed
  qed
qed

lemma lock_inv_idle_release:
  assumes L: "lock_h_ok L" and inv: "lock_inv L S" and k: "kernel_waiters (lck (ldev S)) \<noteq> 0"
    and run: "drm_idlelock_release (lck (ldev S)) = Inr (bc, d)"
  shows "lock_inv L (wake_all bc (S\<lparr>ldev := (ldev S)\<lparr>lck := d\<rparr>\<rparr>))"
proof (cases "kernel_waiters (lck (ldev S)) - 1 = 0 \<and> idle_has_lock (lck (ldev S))")
  case True
  obtain w where w: "hw_lock (lck (ldev S)) = Some w" using lock_inv_word [OF inv] .
  with run True have "bc" "d = (lck (ldev S))\<lparr>kernel_waiters := 0, hw_lock := Some 0, idle_has_lock := False\<rparr>"
    by (simp_all add: drm_idlelock_release_def Let_def DRM_KERNEL_CONTEXT_def)
  with inv True show ?thesis
    by (auto simp: lock_inv_def Let_def wake_all_def word_freed [OF L] intro: sleepers_ok_wake_all)
next
  case False
  then have "\<not> bc" "d = (lck (ldev S))\<lparr>kernel_waiters := kernel_waiters (lck (ldev S)) - 1\<rparr>"
    using run by (auto simp: drm_idlelock_release_def Let_def)
  with inv False k show ?thesis by (auto simp: lock_inv_def Let_def wake_all_def)
qed

lemma lock_inv_close:
  assumes L: "lock_h_ok L" and inv: "lock_inv L S" and run: "drm_master_release L f (ldev S) = Inr (bc, s)"
  shows "lock_inv L (wake_all bc (S\<lparr>ldev := s, holder := (if \<exists>c. holder S = Some (c, f) then None else holder S)\<rparr>))"
proof (cases "drm_i_have_hw_lock L f (ldev S)")
  case False
  then have "\<not> (\<exists>c. holder S = Some (c, f))" using inv by (auto simp: lock_inv_def Let_def drm_i_have_hw_lock_def)
  moreover have "S\<lparr>ldev := ldev S\<rparr> = S" by simp
  ultimately show ?thesis using run False inv by (auto simp: drm_master_release_def wake_all_def)
next
  case True
  then obtain w where w: "hw_lock (lck (ldev S)) = Some w" "LOCK_IS_HELD L w" "file_priv (lck (ldev S)) = Some f"
    by (auto simp: drm_i_have_hw_lock_def split: option.splits)
  have h: "(if \<exists>c. holder S = Some (c, f) then None else holder S) = None"
    using inv w by (cases "holder S") (auto simp: lock_inv_def Let_def)
  obtain r d where "drm_lock_free L (LOCKING_CONTEXT L w) (lck (ldev S)) = Inr (r, bc, d)" "s = (ldev S)\<lparr>lck := d\<rparr>"
    using run True w(1) by (auto simp: drm_master_release_def split: sum.splits)
  with drm_lock_free_ok [OF L inv w(1,2)] show ?thesis unfolding h by simp
qed

lemma lock_reach_inv:
  assumes "lock_h_ok L"
  shows "lock_reach L dma_queue dmaq S \<Longrightarrow> lock_inv L S"
proof (induction rule: lock_reach.induct)
  case start
  then show ?case by (rule lock_inv_init [OF assms])
next
  case (step S S')
  from step.hyps(2) show ?case
  proof (cases rule: lock_step.cases)
    case lock
    then show ?thesis by (simp add: lock_inv_lock [OF assms step.IH])
  next
    case wake
    then show ?thesis by (simp add: lock_inv_wake [OF assms step.IH])
  next
    case unlock
    then show ?thesis by (simp add: lock_inv_unlock [OF assms step.IH])
  next
    case idle_take
    then show ?thesis by (simp add: lock_inv_idle_take [OF assms step.IH])
  next
    case idle_release
    then show ?thesis by (simp add: lock_inv_idle_release [OF assms step.IH])
  next
    case (close f)
    then show ?thesis by (simp only: lock_inv_close [OF assms step.IH])
  qed
qed

subsection \<open>Properties\<close>


text \<open>
  A process that had to wait for the lock and got it does not see success: the call returns
  the positive value that \<open>cv_wait_sig\<close> left in \<open>ret\<close>, whatever the request was, and without asking
  the driver whether its DMA is quiescent.
\<close>

theorem drm_lock_contended_return:
  assumes "lock_h_ok L" "hw_lock (lck s) = Some w" "\<not> LOCK_IS_HELD L w" "ctx_ok L (context_arg a)" "r \<noteq> 0"
  shows "\<exists>s'. drm_lock_wake L now dmaq f a r s = Inr (Returned (Inr r), s') \<and> Inr r \<noteq> (Inr 0 :: errno + nat) \<and>
     file_priv (lck s') = Some f \<and> (\<exists>w'. hw_lock (lck s') = Some w' \<and> LOCK_IS_HELD L w' \<and> LOCKING_CONTEXT L w' = context_arg a)"
proof -
  obtain w' where "drm_lock_take L (context_arg a) (lck s) = Inr (True, (lck s)\<lparr>hw_lock := Some w'\<rparr>)"
    "LOCK_IS_HELD L w'" "LOCKING_CONTEXT L w' = context_arg a"
    by (rule drm_lock_take_free [OF assms(1-3), of "context_arg a"]) (use assms(4) in simp)
  with assms(5) show ?thesis by (simp add: drm_lock_wake_def lock_round_def lock_finish_def)
qed

text \<open>
  A context that uses the bits of the flags, which the ioctl lets pass when the driver has no
  DMA queue, never gets the lock: the call marks a free lock as held and goes to sleep, and from then
  on every attempt of every context fails until somebody frees a lock that nobody has taken.
\<close>

theorem drm_lock_bad_context_wedges:
  assumes "lock_h_ok L" "hw_lock (lck s) = Some w" "\<not> LOCK_IS_HELD L w" "\<not> ctx_ok L (context_arg a)"
  shows "\<exists>s'. drm_lock L False now dmaq f a s = Inr (Asleep, s') \<and>
     (\<forall>c. \<exists>d. drm_lock_take L c (lck s') = Inr (False, d)) \<and>
     (\<forall>r. r \<noteq> 0 \<longrightarrow> (\<exists>s''. drm_lock_wake L now dmaq f a r s' = Inr (Asleep, s'')))"
proof -
  let ?s = "s\<lparr>lock_count := (lock_count s)(f := lock_count s f + 1), lck := (lck s)\<lparr>user_waiters := user_waiters (lck s) + 1\<rparr>\<rparr>"
  have nz: "context_arg a \<noteq> 0" using assms(4) by (auto simp: ctx_ok_def)
  have w: "hw_lock (lck ?s) = Some w" using assms(2) by simp
  obtain w' where t: "drm_lock_take L (context_arg a) (lck ?s) = Inr (False, (lck ?s)\<lparr>hw_lock := Some w'\<rparr>)" "LOCK_IS_HELD L w'"
    by (rule drm_lock_take_free [OF assms(1) w assms(3), of "context_arg a"]) (use assms(4) in simp)
  let ?s' = "?s\<lparr>lck := (lck ?s)\<lparr>hw_lock := Some w'\<rparr>\<rparr>"
  have run: "drm_lock L False now dmaq f a s = Inr (Asleep, ?s')"
    using nz assms(2) t(1) by (simp add: drm_lock_def Let_def DRM_KERNEL_CONTEXT_def lock_round_def)
  have held: "drm_lock_take L c (lck ?s') = Inr (False, (lck ?s')\<lparr>hw_lock := Some (w' OR LOCK_CONT L)\<rparr>)" for c
    by (rule drm_lock_take_held [OF assms(1) _ t(2)]) simp
  then have "\<forall>c. \<exists>d. drm_lock_take L c (lck ?s') = Inr (False, d)" by blast
  moreover have "\<forall>r. r \<noteq> 0 \<longrightarrow> (\<exists>s''. drm_lock_wake L now dmaq f a r ?s' = Inr (Asleep, s''))"
    unfolding drm_lock_wake_def lock_round_def held by simp
  ultimately show ?thesis using run by blast
qed

subsection \<open>A run\<close>

text \<open>The flags of the published interface, and two files that want the lock.\<close>

definition run_lock_h :: lock_h where
  "run_lock_h = \<lparr>LOCK_HELD = 0x80000000, LOCK_CONT = 0x40000000, LOCKING_CONTEXT = (\<lambda>w. w AND NOT 0xC0000000),
     LOCK_IS_HELD = (\<lambda>w. w AND 0x80000000 \<noteq> 0)\<rparr>"

lemma run_lock_h_ok: "lock_h_ok run_lock_h"
  by (simp add: lock_h_ok_def run_lock_h_def)

definition run_arg :: "u32 \<Rightarrow> drm_lock_arg" where
  "run_arg c = \<lparr>context_arg = c, quiescent_arg = True\<rparr>"

definition run_locked :: lock_sys where
  "run_locked = after_call 3 5 (run_arg 2) (Returned (Inr 0))
     (lock_dev.make \<lparr>hw_lock = Some 0x80000002, file_priv = Some 5, lock_time = 9, kernel_waiters = 0, user_waiters = 0,
        idle_has_lock = False\<rparr> ((\<lambda>_. 0)(5 := 1)) 1 0) lock_init"

lemma run_locked_reach: "lock_reach run_lock_h True (Some False) run_locked"
proof -
  have "drm_lock run_lock_h True 9 (Some False) 5 (run_arg 2) (ldev lock_init) =
      Inr (Returned (Inr 0), lock_dev.make \<lparr>hw_lock = Some 0x80000002, file_priv = Some 5, lock_time = 9, kernel_waiters = 0,
        user_waiters = 0, idle_has_lock = False\<rparr> ((\<lambda>_. 0)(5 := 1)) 1 0)"
    by (simp add: drm_lock_def lock_round_def drm_lock_take_def lock_finish_def run_lock_h_def run_arg_def lock_init_def
        DRM_KERNEL_CONTEXT_def lock_dev.make_def Let_def)
  moreover have "ctx_ok run_lock_h (context_arg (run_arg 2))" by (simp add: ctx_ok_def run_lock_h_def run_arg_def)
  ultimately have "lock_step run_lock_h True (Some False) lock_init run_locked"
    unfolding run_locked_def by (intro lock_step.lock) (simp_all add: lock_init_def)
  with lock_reach.start show ?thesis by (rule lock_reach.step)
qed


theorem drm_lock_contended_return_witness:
  "\<exists>s'. drm_lock_wake run_lock_h 9 (Some True) 5 (run_arg 2) 1 (ldev lock_init) = Inr (Returned (Inr 1), s') \<and>
     file_priv (lck s') = Some 5"
proof -
  have "hw_lock (lck (ldev lock_init)) = Some 0" "\<not> LOCK_IS_HELD run_lock_h 0" "ctx_ok run_lock_h (context_arg (run_arg 2))"
    by (simp_all add: lock_init_def run_lock_h_def ctx_ok_def run_arg_def)
  from drm_lock_contended_return [OF run_lock_h_ok this, of 1 9 "Some True" 5] show ?thesis by auto
qed

theorem drm_lock_bad_context_wedges_witness:
  "\<exists>s'. drm_lock run_lock_h False 9 None 5 (run_arg 0xC0000001) (ldev lock_init) = Inr (Asleep, s')"
proof -
  have "hw_lock (lck (ldev lock_init)) = Some 0" "\<not> LOCK_IS_HELD run_lock_h 0" "\<not> ctx_ok run_lock_h (context_arg (run_arg 0xC0000001))"
    by (simp_all add: lock_init_def run_lock_h_def ctx_ok_def run_arg_def)
  from drm_lock_bad_context_wedges [OF run_lock_h_ok this, of 9 None 5] show ?thesis by blast
qed

end
