(* ===== verification/Drm_Auth.thy ===== *)
theory Drm_Auth
  imports Id_Map
begin

text \<open>
  Authentication by magic numbers (\<open>drm_auth.c\<close>): a client asks for a number, passes it to the
  master by other means, and the master has the client authenticated by presenting the number. The
  numbers waiting for that are in a small hash table of linked lists with a head and a tail pointer;
  such a list is the list of its entries, and the array of heads a function of the index.
\<close>

subsection \<open>The table\<close>

record drm_magic_entry =
  magic :: u32
  priv :: nat

type_synonym magiclist = "nat \<Rightarrow> drm_magic_entry list"

definition DRM_HASH_SIZE :: nat where
  "DRM_HASH_SIZE = 16"

definition drm_hash_magic :: "u32 \<Rightarrow> nat" where
  "drm_hash_magic m = unat (m AND (of_nat DRM_HASH_SIZE - 1))"

definition drm_find_file :: "magiclist \<Rightarrow> u32 \<Rightarrow> nat ptr" where
  "drm_find_file tbl m = map_option priv (find (\<lambda>pt. magic pt = m) (tbl (drm_hash_magic m)))"

definition magic_append :: "magiclist \<Rightarrow> u32 \<Rightarrow> nat \<Rightarrow> magiclist" where
  "magic_append tbl m f = tbl(drm_hash_magic m := tbl (drm_hash_magic m) @ [\<lparr>magic = m, priv = f\<rparr>])"

definition drm_add_magic :: "bool \<Rightarrow> magiclist \<Rightarrow> nat \<Rightarrow> u32 \<Rightarrow> unit result \<times> magiclist" where
  "drm_add_magic alloc tbl f m = (if \<not> alloc then (Inl ENOMEM, tbl) else (Inr (), magic_append tbl m f))"

text \<open>The walk that unlinks the first entry with the number, and mends \<open>head\<close>, \<open>tail\<close> and \<open>prev->next\<close>.\<close>

fun magic_unlink :: "u32 \<Rightarrow> drm_magic_entry list \<Rightarrow> drm_magic_entry list option" where
  "magic_unlink m [] = None"
| "magic_unlink m (pt # rest) = (if magic pt = m then Some rest else map_option ((#) pt) (magic_unlink m rest))"

definition drm_remove_magic :: "magiclist \<Rightarrow> u32 \<Rightarrow> unit result \<times> magiclist" where
  "drm_remove_magic tbl m =
     (case magic_unlink m (tbl (drm_hash_magic m)) of
        None \<Rightarrow> (Inl EINVAL, tbl)
      | Some rest \<Rightarrow> (Inr (), tbl(drm_hash_magic m := rest)))"

text \<open>No number twice, every number in its list: the table is an id map.\<close>

definition magic_inv :: "magiclist \<Rightarrow> bool" where
  "magic_inv tbl \<longleftrightarrow> (\<forall>k. distinct (map magic (tbl k)) \<and> (\<forall>pt \<in> set (tbl k). drm_hash_magic (magic pt) = k))"

lemma find_magic_None: "find (\<lambda>pt. magic pt = m) l = None \<longleftrightarrow> m \<notin> magic ` set l"
  by (auto simp: find_None_iff)

lemma find_magic_append:
  "find (\<lambda>pt. magic pt = m) (l @ [e]) =
     (case find (\<lambda>pt. magic pt = m) l of Some x \<Rightarrow> Some x | None \<Rightarrow> if magic e = m then Some e else None)"
  by (induction l) auto

lemma magic_unlink_spec:
  "distinct (map magic l) \<Longrightarrow> m \<in> magic ` set l \<Longrightarrow>
   \<exists>rest. magic_unlink m l = Some rest \<and> set (map magic rest) = set (map magic l) - {m} \<and> distinct (map magic rest) \<and>
     set rest \<subseteq> set l \<and> (\<forall>n. find (\<lambda>pt. magic pt = n) rest = (if n = m then None else find (\<lambda>pt. magic pt = n) l))"
proof (induction l)
  case (Cons pt l)
  show ?case
  proof (cases "magic pt = m")
    case True
    then have "m \<notin> magic ` set l" using Cons.prems by auto
    then have "find (\<lambda>pt. magic pt = m) l = None" by (simp add: find_magic_None)
    with True Cons.prems show ?thesis by auto
  next
    case False
    with Cons obtain rest where "magic_unlink m l = Some rest" "set (map magic rest) = set (map magic l) - {m}"
      "distinct (map magic rest)" "set rest \<subseteq> set l"
      "\<forall>n. find (\<lambda>pt. magic pt = n) rest = (if n = m then None else find (\<lambda>pt. magic pt = n) l)" by auto
    with False Cons.prems show ?thesis by auto
  qed
qed simp

lemma magic_unlink_None: "m \<notin> magic ` set l \<Longrightarrow> magic_unlink m l = None"
  by (induction l) auto

lemma drm_find_file_None: "drm_find_file tbl m = None \<longleftrightarrow> m \<notin> magic ` set (tbl (drm_hash_magic m))"
  by (simp add: drm_find_file_def find_magic_None)

lemma drm_find_file_append:
  "drm_find_file tbl m = None \<Longrightarrow> drm_find_file (magic_append tbl m f) = (drm_find_file tbl)(m \<mapsto> f)"
  by (rule ext) (auto simp: drm_find_file_def magic_append_def find_magic_append split: option.splits)

lemma magic_inv_append: "magic_inv tbl \<Longrightarrow> drm_find_file tbl m = None \<Longrightarrow> magic_inv (magic_append tbl m f)"
  by (auto simp: magic_inv_def magic_append_def drm_find_file_None)

lemma drm_remove_magic_spec:
  assumes inv: "magic_inv tbl" and m: "drm_find_file tbl m \<noteq> None"
  shows "fst (drm_remove_magic tbl m) = Inr () \<and> magic_inv (snd (drm_remove_magic tbl m)) \<and>
     drm_find_file (snd (drm_remove_magic tbl m)) = (drm_find_file tbl)(m := None)"
proof -
  have d: "distinct (map magic (tbl (drm_hash_magic m)))" and i: "m \<in> magic ` set (tbl (drm_hash_magic m))"
    using inv m by (auto simp: magic_inv_def drm_find_file_None)
  from magic_unlink_spec [OF d i] obtain rest where r: "magic_unlink m (tbl (drm_hash_magic m)) = Some rest"
    "distinct (map magic rest)" "set rest \<subseteq> set (tbl (drm_hash_magic m))"
    "\<forall>n. find (\<lambda>pt. magic pt = n) rest = (if n = m then None else find (\<lambda>pt. magic pt = n) (tbl (drm_hash_magic m)))" by auto
  have "magic_inv (tbl(drm_hash_magic m := rest))"
    using inv r(2,3) by (auto simp: magic_inv_def)
  moreover have "drm_find_file (tbl(drm_hash_magic m := rest)) = (drm_find_file tbl)(m := None)"
    by (rule ext) (auto simp: drm_find_file_def r(4))
  ultimately show ?thesis by (simp add: drm_remove_magic_def r(1))
qed

interpretation mgl: id_map "\<lambda>_. []" drm_find_file magic_append "\<lambda>tbl m. snd (drm_remove_magic tbl m)" magic_inv
proof unfold_locales
  show "drm_find_file (\<lambda>_. []) i = None" for i by (simp add: drm_find_file_def)
  show "magic_inv (\<lambda>_. [])" by (simp add: magic_inv_def)
qed (simp_all add: drm_find_file_append magic_inv_append drm_remove_magic_spec)

subsection \<open>The ioctls\<close>

record auth_file =
  fmagic :: u32
  authenticated :: bool

text \<open>
  \<open>sequence\<close> is the static variable of \<open>drm_getmagic\<close>; a file that is not open is \<open>None\<close>, and a
  pointer to it dangles.
\<close>

record auth_state =
  magic_seq :: u32
  magics :: magiclist
  afiles :: "nat \<Rightarrow> auth_file option"

text \<open>
  The loop of \<open>drm_getmagic\<close>: the next number that no waiting file has. It is run under the global
  mutex, so the compare-and-swap of \<open>sequence\<close> succeeds. It ends when some number is free.
\<close>

partial_function (option) next_magic :: "magiclist \<Rightarrow> u32 \<Rightarrow> u32 option" where
  "next_magic tbl sq = (if drm_find_file tbl (sq + 1) \<noteq> None then next_magic tbl (sq + 1) else Some (sq + 1))"

definition drm_getmagic :: "bool \<Rightarrow> nat \<Rightarrow> auth_state \<Rightarrow> (u32 \<times> auth_state) result option" where
  "drm_getmagic alloc f s =
     (case afiles s f of
        None \<Rightarrow> Some (Inl BUG)
      | Some x \<Rightarrow>
          if fmagic x \<noteq> 0 then Some (Inr (fmagic x, s))
          else
            (case next_magic (magics s) (magic_seq s) of
               None \<Rightarrow> None
             | Some m \<Rightarrow>
                 Some (Inr (m, s\<lparr>magic_seq := m, afiles := (afiles s)(f \<mapsto> x\<lparr>fmagic := m\<rparr>),
                              magics := snd (drm_add_magic alloc (magics s) f m)\<rparr>))))"

definition drm_authmagic :: "u32 \<Rightarrow> auth_state \<Rightarrow> (unit result \<times> auth_state) result" where
  "drm_authmagic m s =
     (case drm_find_file (magics s) m of
        None \<Rightarrow> Inr (Inl EINVAL, s)
      | Some f \<Rightarrow>
          (case afiles s f of
             None \<Rightarrow> Inl BUG
           | Some x \<Rightarrow>
               Inr (Inr (), s\<lparr>afiles := (afiles s)(f \<mapsto> x\<lparr>authenticated := True\<rparr>),
                              magics := snd (drm_remove_magic (magics s) m)\<rparr>)))"

text \<open>
  Opening a file, by root (or as the first file, which becomes the master) or not, and what
  \<open>drm_release\<close> does about a waiting number.
\<close>

definition auth_open :: "bool \<Rightarrow> nat \<Rightarrow> auth_state \<Rightarrow> auth_state" where
  "auth_open root f s = s\<lparr>afiles := (afiles s)(f \<mapsto> \<lparr>fmagic = 0, authenticated = root\<rparr>)\<rparr>"

definition auth_release :: "nat \<Rightarrow> auth_state \<Rightarrow> auth_state result" where
  "auth_release f s =
     (case afiles s f of
        None \<Rightarrow> Inl BUG
      | Some x \<Rightarrow>
          let s = (if fmagic x \<noteq> 0 then s\<lparr>magics := snd (drm_remove_magic (magics s) (fmagic x))\<rparr> else s)
          in Inr (s\<lparr>afiles := (afiles s)(f := None)\<rparr>))"

subsection \<open>Runs\<close>

text \<open>A run stops before the 32-bit sequence wraps.\<close>

inductive auth_reach :: "auth_state \<Rightarrow> bool" where
  init: "auth_reach \<lparr>magic_seq = 0, magics = (\<lambda>_. []), afiles = (\<lambda>_. None)\<rparr>"
| opened: "auth_reach s \<Longrightarrow> afiles s f = None \<Longrightarrow> auth_reach (auth_open root f s)"
| got: "auth_reach s \<Longrightarrow> magic_seq s + 1 \<noteq> 0 \<Longrightarrow> drm_getmagic alloc f s = Some (Inr (m, s')) \<Longrightarrow> auth_reach s'"
| auth: "auth_reach s \<Longrightarrow> drm_authmagic m s = Inr (r, s') \<Longrightarrow> auth_reach s'"
| closed: "auth_reach s \<Longrightarrow> auth_release f s = Inr s' \<Longrightarrow> auth_reach s'"

text \<open>
  A waiting number belongs to the open file that was given it, and no two files have the same:
  stated for the lookups \<open>F\<close> of the table and the numbers \<open>N\<close> of the open files.
\<close>

definition auth_rel :: "(u32 \<Rightarrow> nat option) \<Rightarrow> (nat \<Rightarrow> u32 option) \<Rightarrow> u32 \<Rightarrow> bool" where
  "auth_rel F N sq \<longleftrightarrow>
     (\<forall>m f. F m = Some f \<longrightarrow> m \<noteq> 0 \<and> N f = Some m) \<and>
     (\<forall>f m. N f = Some m \<longrightarrow> m \<le> sq) \<and>
     (\<forall>f g m. N f = Some m \<longrightarrow> N g = Some m \<longrightarrow> m \<noteq> 0 \<longrightarrow> f = g)"

definition file_magics :: "auth_state \<Rightarrow> nat \<Rightarrow> u32 option" where
  "file_magics s f = map_option fmagic (afiles s f)"

definition auth_inv :: "auth_state \<Rightarrow> bool" where
  "auth_inv s \<longleftrightarrow> magic_inv (magics s) \<and> auth_rel (drm_find_file (magics s)) (file_magics s) (magic_seq s)"

lemma word_le_inc: "sq + 1 \<noteq> 0 \<Longrightarrow> (m :: u32) \<le> sq \<Longrightarrow> m < sq + 1"
  using unatSuc [of sq] by (simp add: word_less_nat_alt word_le_nat_alt add.commute)

lemma auth_rel_fresh: "auth_rel F N sq \<Longrightarrow> sq + 1 \<noteq> 0 \<Longrightarrow> N f \<noteq> Some (sq + 1) \<and> F (sq + 1) = None"
  using word_le_inc [of sq "sq + 1"] by (cases "F (sq + 1)") (auto simp: auth_rel_def)

lemma auth_rel_number:
  assumes rel: "auth_rel F N sq" and sq: "sq + 1 \<noteq> 0" and f: "N f = Some 0"
  shows "auth_rel F (N(f \<mapsto> sq + 1)) (sq + 1)" "auth_rel (F(sq + 1 \<mapsto> f)) (N(f \<mapsto> sq + 1)) (sq + 1)"
proof -
  have le: "m \<le> sq + 1" if "N g = Some m" for g m
    using rel that word_le_inc [OF sq, of m] by (auto simp: auth_rel_def)
  have ne: "N g \<noteq> Some (sq + 1)" for g using auth_rel_fresh [OF rel sq] by simp
  have no: "F m \<noteq> Some f" for m using rel f by (auto simp: auth_rel_def)
  show "auth_rel F (N(f \<mapsto> sq + 1)) (sq + 1)" "auth_rel (F(sq + 1 \<mapsto> f)) (N(f \<mapsto> sq + 1)) (sq + 1)"
    using rel sq le ne no unfolding auth_rel_def by (auto split: if_splits)
qed

lemma auth_rel_drop: "auth_rel F N sq \<Longrightarrow> auth_rel (F(m := None)) N sq"
  by (auto simp: auth_rel_def)

lemma auth_rel_close: "auth_rel F N sq \<Longrightarrow> (\<And>m. F m \<noteq> Some f) \<Longrightarrow> auth_rel F (N(f := None)) sq"
  by (auto simp: auth_rel_def)

lemma auth_rel_open: "auth_rel F N sq \<Longrightarrow> N f = None \<Longrightarrow> auth_rel F (N(f \<mapsto> 0)) sq"
  by (auto simp: auth_rel_def)

text \<open>Removing a number that is not there changes nothing, so removal always acts on the lookups.\<close>

lemma drm_remove_magic_lookup:
  assumes "magic_inv tbl"
  shows "magic_inv (snd (drm_remove_magic tbl m)) \<and> drm_find_file (snd (drm_remove_magic tbl m)) = (drm_find_file tbl)(m := None)"
proof (cases "drm_find_file tbl m")
  case None
  then have "snd (drm_remove_magic tbl m) = tbl"
    by (simp add: drm_remove_magic_def magic_unlink_None drm_find_file_None)
  with None assms show ?thesis by (simp add: fun_upd_idem)
qed (use drm_remove_magic_spec [OF assms] in simp)

lemma auth_inv_next:
  assumes "auth_inv s" "magic_seq s + 1 \<noteq> 0"
  shows "next_magic (magics s) (magic_seq s) = Some (magic_seq s + 1)" "drm_find_file (magics s) (magic_seq s + 1) = None"
proof -
  show n: "drm_find_file (magics s) (magic_seq s + 1) = None"
    using auth_rel_fresh assms by (auto simp: auth_inv_def)
  show "next_magic (magics s) (magic_seq s) = Some (magic_seq s + 1)"
    by (subst next_magic.simps) (simp add: n)
qed

lemma auth_inv_getmagic:
  assumes inv: "auth_inv s" and sq: "magic_seq s + 1 \<noteq> 0" and run: "drm_getmagic alloc f s = Some (Inr (m, s'))"
  shows "auth_inv s'"
proof -
  obtain x where x: "afiles s f = Some x" using run by (auto simp: drm_getmagic_def split: option.splits)
  show ?thesis
  proof (cases "fmagic x = 0")
    case False
    with run x inv show ?thesis by (simp add: drm_getmagic_def)
  next
    case True
    let ?m = "magic_seq s + 1"
    note n = auth_inv_next [OF inv sq]
    have s': "s' = s\<lparr>magic_seq := ?m, afiles := (afiles s)(f \<mapsto> x\<lparr>fmagic := ?m\<rparr>),
        magics := (if alloc then magic_append (magics s) ?m f else magics s)\<rparr>"
      using run x True n(1) by (auto simp: drm_getmagic_def drm_add_magic_def)
    have N: "file_magics s' = (file_magics s)(f \<mapsto> ?m)" "file_magics s f = Some 0"
      using x True by (auto simp: file_magics_def s' fun_eq_iff)
    have rel: "auth_rel (drm_find_file (magics s)) (file_magics s) (magic_seq s)" and mi: "magic_inv (magics s)"
      using inv by (simp_all add: auth_inv_def)
    show ?thesis
      using auth_rel_number [OF rel sq N(2)] mi magic_inv_append [OF mi n(2)] drm_find_file_append [OF n(2)]
      by (auto simp: auth_inv_def N(1)) (simp_all add: s')
  qed
qed

lemma auth_inv_file:
  assumes "auth_inv s" "drm_find_file (magics s) m = Some f"
  obtains x where "afiles s f = Some x" "fmagic x = m" "m \<noteq> 0"
  using assms by (auto simp: auth_inv_def auth_rel_def file_magics_def)

lemma auth_inv_authmagic:
  assumes inv: "auth_inv s" and run: "drm_authmagic m s = Inr (r, s')"
  shows "auth_inv s'"
proof (cases "drm_find_file (magics s) m")
  case None
  with assms show ?thesis by (simp add: drm_authmagic_def)
next
  case (Some f)
  obtain x where x: "afiles s f = Some x" using auth_inv_file [OF inv Some] .
  have mi: "magic_inv (magics s)" using inv by (simp add: auth_inv_def)
  have s': "s' = s\<lparr>afiles := (afiles s)(f \<mapsto> x\<lparr>authenticated := True\<rparr>), magics := snd (drm_remove_magic (magics s) m)\<rparr>"
    using run Some x by (simp add: drm_authmagic_def)
  have "file_magics s' = file_magics s" using x by (auto simp: file_magics_def s' fun_eq_iff)
  with drm_remove_magic_lookup [OF mi, of m] inv show ?thesis
    by (simp add: auth_inv_def auth_rel_drop) (simp add: s' auth_rel_drop)
qed

lemma auth_inv_release:
  assumes inv: "auth_inv s" and run: "auth_release f s = Inr s'"
  shows "auth_inv s'"
proof -
  obtain x where x: "afiles s f = Some x" using run by (auto simp: auth_release_def split: option.splits)
  have mi: "magic_inv (magics s)" and rel: "auth_rel (drm_find_file (magics s)) (file_magics s) (magic_seq s)"
    using inv by (simp_all add: auth_inv_def)
  have N: "file_magics s f = Some (fmagic x)" "file_magics s' = (file_magics s)(f := None)" "magic_seq s' = magic_seq s"
    using run x by (auto simp: auth_release_def Let_def file_magics_def fun_eq_iff split: if_splits)
  have z: "drm_find_file (magics s) 0 = None"
    using rel by (cases "drm_find_file (magics s) 0") (auto simp: auth_rel_def)
  have F: "magic_inv (magics s') \<and> drm_find_file (magics s') = (drm_find_file (magics s))(fmagic x := None)"
    using run x mi z drm_remove_magic_lookup [OF mi, of "fmagic x"]
    by (auto simp: auth_release_def Let_def fun_upd_idem split: if_splits)
  have "((drm_find_file (magics s))(fmagic x := None)) m \<noteq> Some f" for m
    using rel N(1) by (auto simp: auth_rel_def)
  then have "auth_rel ((drm_find_file (magics s))(fmagic x := None)) ((file_magics s)(f := None)) (magic_seq s)"
    by (rule auth_rel_close [OF auth_rel_drop [OF rel]])
  then show ?thesis using F by (simp add: auth_inv_def N)
qed

lemma auth_reach_inv: "auth_reach s \<Longrightarrow> auth_inv s"
proof (induction rule: auth_reach.induct)
  case init
  then show ?case by (simp add: auth_inv_def mgl.invar_empty mgl.lookup_empty auth_rel_def file_magics_def)
next
  case (opened s f root)
  then have "file_magics s f = None" by (simp add: file_magics_def)
  moreover have "file_magics (auth_open root f s) = (file_magics s)(f \<mapsto> 0)"
    by (auto simp: file_magics_def auth_open_def fun_eq_iff)
  ultimately show ?case
    using opened auth_rel_open by (simp add: auth_inv_def) (simp add: auth_open_def)
next
  case (got s alloc f m s')
  then show ?case using auth_inv_getmagic by blast
next
  case (auth s m r s')
  then show ?case using auth_inv_authmagic by blast
next
  case (closed s f s')
  then show ?case using auth_inv_release by blast
qed

subsection \<open>Properties\<close>


definition auth_run :: auth_state where
  "auth_run = \<lparr>magic_seq = 1, magics = (\<lambda>_. [])(1 := [\<lparr>magic = 1, priv = 7\<rparr>]),
     afiles = [7 \<mapsto> \<lparr>fmagic = 1, authenticated = False\<rparr>]\<rparr>"

lemma auth_run_reach: "auth_reach auth_run"
proof -
  let ?s = "auth_open False 7 \<lparr>magic_seq = 0, magics = (\<lambda>_. []), afiles = (\<lambda>_. None)\<rparr>"
  have "auth_reach ?s" by (rule auth_reach.opened [OF auth_reach.init]) simp
  moreover have "next_magic (\<lambda>_. []) 0 = Some 1" by (subst next_magic.simps) (simp add: drm_find_file_def)
  then have "drm_getmagic True 7 ?s = Some (Inr (1, auth_run))"
    by (simp add: drm_getmagic_def auth_open_def auth_run_def drm_add_magic_def magic_append_def drm_hash_magic_def
        DRM_HASH_SIZE_def)
  ultimately show ?thesis by (elim auth_reach.got) (simp_all add: auth_open_def)
qed


end
