(* ===== verification/Drm_Context.thy ===== *)
theory Drm_Context
  imports Drm_Idr
begin

text \<open>
  Drawing contexts (\<open>drm_context.c\<close>, and what \<open>drm_release\<close> of \<open>drm_fops.c\<close> does with the contexts of
  a file that is closed): handles from the id allocator, a list of the contexts with the files that
  made them, and the per-context map that is stored in the allocator under the handle.
\<close>

subsection \<open>State and operations\<close>

text \<open>The values of \<open>sys/errno.h\<close>; an error is returned as its negation in an \<open>int\<close>.\<close>

fun errno_value :: "errno \<Rightarrow> nat" where
  "errno_value EPERM = 1" | "errno_value ENOENT = 2" | "errno_value EINTR = 4" | "errno_value EIO = 5"
| "errno_value ENXIO = 6" | "errno_value EAGAIN = 11" | "errno_value ENOMEM = 12" | "errno_value EACCES = 13"
| "errno_value EFAULT = 14" | "errno_value EBUSY = 16" | "errno_value EEXIST = 17" | "errno_value ENODEV = 19"
| "errno_value EINVAL = 22" | "errno_value ENOSPC = 28" | "errno_value ERANGE = 34" | "errno_value ENOTSUP = 48"
| "errno_value EPROTO = 71" | "errno_value BUG = 0"

definition int_return :: "u32 result \<Rightarrow> u32" where
  "int_return r = (case r of Inl e \<Rightarrow> - of_nat (errno_value e) | Inr v \<Rightarrow> v)"

record drm_ctx_list =
  chandle :: u32
  tag :: nat

record drm_map_list =
  map_ptr :: "nat ptr"
  user_token :: u64

record 't ctx_dev =
  ctx_idr :: "'t idr"
  ctxlist :: "drm_ctx_list list"
  ctx_count :: int
  last_context :: u32
  context_flag :: bool
  maplist :: "drm_map_list list"

definition drm_ctxbitmap_free :: "(nat ptr, 't) avl_ops \<Rightarrow> bool \<Rightarrow> u32 \<Rightarrow> 't ctx_dev \<Rightarrow> 't ctx_dev" where
  "drm_ctxbitmap_free A alloc h s = s\<lparr>ctx_idr := snd (idr_remove A alloc (ctx_idr s) h)\<rparr>"

text \<open>
  \<open>reserved\<close> is \<open>DRM_RESERVED_CONTEXTS\<close>, of a header that is not part of the repository. The allocator
  does not return \<open>-EAGAIN\<close>, so the loop ends in its first round; \<open>idr_pre_get\<close> returns \<open>-1\<close>.
\<close>

definition drm_ctxbitmap_next :: "(nat ptr, 't) avl_ops \<Rightarrow> u32 \<Rightarrow> bool \<Rightarrow> 't ctx_dev \<Rightarrow> u32 \<times> 't ctx_dev" where
  "drm_ctxbitmap_next A reserved alloc s =
     (if idr_pre_get (ctx_idr s) 0 = Inr () then (int_return (Inl ENOMEM), s)
      else (case idr_get_new_above A alloc (ctx_idr s) None reserved of
              (r, idrp) \<Rightarrow> (int_return r, s\<lparr>ctx_idr := idrp\<rparr>)))"

definition drm_ctxbitmap_init :: "(nat ptr, 't) avl_ops \<Rightarrow> 't ctx_dev \<Rightarrow> 't ctx_dev" where
  "drm_ctxbitmap_init A s = s\<lparr>ctx_idr := idr_init A\<rparr>"

definition drm_ctxbitmap_cleanup :: "(nat ptr, 't) avl_ops \<Rightarrow> 't ctx_dev \<Rightarrow> 't ctx_dev" where
  "drm_ctxbitmap_cleanup A s = s\<lparr>ctx_idr := idr_remove_all A (ctx_idr s)\<rparr>"

text \<open>The result is the token, which the caller gets as the handle of the map.\<close>

definition drm_getsareactx :: "(nat ptr, 't) avl_ops \<Rightarrow> u32 \<Rightarrow> 't ctx_dev \<Rightarrow> u64 result" where
  "drm_getsareactx A h s =
     (case idr_find A (ctx_idr s) h of
        None \<Rightarrow> Inl EINVAL
      | Some m \<Rightarrow>
          (case find (\<lambda>e. map_ptr e = Some m) (maplist s) of
             None \<Rightarrow> Inl EINVAL
           | Some e \<Rightarrow> if user_token e = 0 then Inl EINVAL else Inr (user_token e)))"

definition drm_setsareactx :: "(nat ptr, 't) avl_ops \<Rightarrow> u32 \<Rightarrow> u64 \<Rightarrow> 't ctx_dev \<Rightarrow> unit result \<times> 't ctx_dev" where
  "drm_setsareactx A h token s =
     (case find (\<lambda>e. map_ptr e \<noteq> None \<and> user_token e = token) (maplist s) of
        None \<Rightarrow> (Inl EINVAL, s)
      | Some e \<Rightarrow>
          (case idr_replace A (ctx_idr s) (map_ptr e) h of
             (Inl _, idrp) \<Rightarrow> (Inl EINVAL, s\<lparr>ctx_idr := idrp\<rparr>)
           | (Inr _, idrp) \<Rightarrow> (Inr (), s\<lparr>ctx_idr := idrp\<rparr>)))"

definition drm_context_switch :: "u32 \<Rightarrow> 't ctx_dev \<Rightarrow> unit result \<times> 't ctx_dev" where
  "drm_context_switch new s =
     (if context_flag s then (Inl EBUSY, s)
      else (Inr (), s\<lparr>context_flag := new \<noteq> last_context s\<rparr>))"

definition drm_context_switch_complete :: "u32 \<Rightarrow> 't ctx_dev \<Rightarrow> 't ctx_dev" where
  "drm_context_switch_complete new s = s\<lparr>last_context := new, context_flag := False\<rparr>"

text \<open>The contexts handed out when the caller's array is large enough, and the count.\<close>

definition drm_resctx :: "nat \<Rightarrow> nat \<Rightarrow> u32 list \<times> nat" where
  "drm_resctx reserved count = (if count \<ge> reserved then map of_nat [0..<reserved] else [], reserved)"

text \<open>
  \<open>alloc1\<close> and \<open>alloc2\<close> are the memory for the allocator, \<open>alloc\<close> is the entry of the list. The
  result is the handle that the caller gets with the value 0.
\<close>

definition drm_addctx ::
  "(nat ptr, 't) avl_ops \<Rightarrow> u32 \<Rightarrow> bool \<Rightarrow> bool \<Rightarrow> bool \<Rightarrow> nat \<Rightarrow> 't ctx_dev \<Rightarrow> u32 result \<times> 't ctx_dev" where
  "drm_addctx A reserved alloc1 alloc2 alloc file s =
     (let (h, s) = drm_ctxbitmap_next A reserved alloc1 s;
          (h, s) = (if h = 0 then drm_ctxbitmap_next A reserved alloc2 s else (h, s))
      in if h = -1 then (Inl ENOMEM, s)
         else if \<not> alloc then (Inl ENOMEM, s)
         else (Inr h, s\<lparr>ctxlist := \<lparr>chandle = h, tag = file\<rparr> # ctxlist s, ctx_count := ctx_count s + 1\<rparr>))"

definition drm_getctx :: "u32" where
  "drm_getctx = 0"

definition drm_switchctx :: "u32 \<Rightarrow> 't ctx_dev \<Rightarrow> unit result \<times> 't ctx_dev" where
  "drm_switchctx h s = drm_context_switch h s"

definition drm_newctx :: "u32 \<Rightarrow> 't ctx_dev \<Rightarrow> 't ctx_dev" where
  "drm_newctx h s = drm_context_switch_complete h s"

definition drm_rmctx :: "(nat ptr, 't) avl_ops \<Rightarrow> bool \<Rightarrow> u32 \<Rightarrow> 't ctx_dev \<Rightarrow> 't ctx_dev" where
  "drm_rmctx A alloc h s =
     (let s = (if h \<noteq> 0 then drm_ctxbitmap_free A alloc h s else s)
      in s\<lparr>ctxlist := filter (\<lambda>pos. chandle pos \<noteq> h) (ctxlist s),
           ctx_count := ctx_count s - int (length (filter (\<lambda>pos. chandle pos = h) (ctxlist s)))\<rparr>)"

text \<open>The loop of \<open>drm_release\<close> over the contexts of a file.\<close>

fun release_ctxs :: "(nat ptr, 't) avl_ops \<Rightarrow> bool \<Rightarrow> nat \<Rightarrow> drm_ctx_list list \<Rightarrow> 't ctx_dev \<Rightarrow> drm_ctx_list list \<times> 't ctx_dev" where
  "release_ctxs A alloc file [] s = ([], s)"
| "release_ctxs A alloc file (pos # rest) s =
     (if tag pos = file \<and> chandle pos \<noteq> 0
      then release_ctxs A alloc file rest ((drm_ctxbitmap_free A alloc (chandle pos) s)\<lparr>ctx_count := ctx_count s - 1\<rparr>)
      else (case release_ctxs A alloc file rest s of (l, s) \<Rightarrow> (pos # l, s)))"

definition ctx_release :: "(nat ptr, 't) avl_ops \<Rightarrow> bool \<Rightarrow> nat \<Rightarrow> 't ctx_dev \<Rightarrow> 't ctx_dev" where
  "ctx_release A alloc file s = (case release_ctxs A alloc file (ctxlist s) s of (l, s) \<Rightarrow> s\<lparr>ctxlist := l\<rparr>)"

subsection \<open>The invariant\<close>

text \<open>
  The contexts that are listed have pairwise different handles, each of them is an id the allocator
  has in use, and the count is right.
\<close>

definition ctx_used :: "(nat ptr, 't) avl_ops \<Rightarrow> 't ctx_dev \<Rightarrow> u32 set" where
  "ctx_used A s = dom (avl_find A (used_ids (ctx_idr s)))"

definition ctx_inv :: "(nat ptr, 't) avl_ops \<Rightarrow> ('t \<Rightarrow> bool) \<Rightarrow> 't ctx_dev \<Rightarrow> bool" where
  "ctx_inv A ok s \<longleftrightarrow> idr_inv A ok (ctx_idr s) \<and> distinct (map chandle (ctxlist s)) \<and>
     chandle ` set (ctxlist s) \<subseteq> ctx_used A s \<and> ctx_count s = int (length (ctxlist s))"

lemma ctxbitmap_next_spec:
  assumes laws: "avl_laws A ok" and inv: "idr_inv A ok (ctx_idr s)" and res: "0 \<le> sint reserved"
    and run: "drm_ctxbitmap_next A reserved alloc s = (h, s')"
  shows "idr_inv A ok (ctx_idr s') \<and> s' = s\<lparr>ctx_idr := ctx_idr s'\<rparr> \<and>
    (alloc \<and> h \<notin> ctx_used A s \<and> reserved \<le> h \<and> h < 0x7FFFFFFF \<and> ctx_used A s' = insert h (ctx_used A s) \<or>
     h = -1 \<and> ctx_used A s' = ctx_used A s \<and> {j. reserved \<le> j \<and> j < 0x7FFFFFFF} \<subseteq> live_ids (free_id_ranges (ctx_idr s)) \<or>
     h = 0xFFFFFFF4 \<and> \<not> alloc \<and> ctx_used A s' = ctx_used A s)"
proof -
  obtain r idrp where g: "idr_get_new_above A alloc (ctx_idr s) None reserved = (r, idrp)" by force
  with run have s': "h = int_return r" "s' = s\<lparr>ctx_idr := idrp\<rparr>"
    by (simp_all add: drm_ctxbitmap_next_def idr_pre_get_def)
  show ?thesis
  proof (cases r)
    case (Inl e)
    from idr_get_new_above_failure [OF laws inv g [unfolded Inl]] res
    consider "e = EPERM" "{j. reserved \<le> j \<and> j < 0x7FFFFFFF} \<subseteq> live_ids (free_id_ranges (ctx_idr s))"
      | "e = ENOMEM" "\<not> alloc" by force
    then show ?thesis
      using idr_get_new_above_failure [OF laws inv g [unfolded Inl]] s' Inl
      by cases (simp_all add: ctx_used_def int_return_def)
  next
    case (Inr i)
    note f = idr_get_new_above_success [OF laws inv g [unfolded Inr]]
    then have "avl_find A (used_ids (ctx_idr s)) i = None" by blast
    then have "i \<notin> ctx_used A s" by (auto simp: ctx_used_def)
    moreover have "ctx_used A s' = insert i (ctx_used A s)" using f s' by (simp add: ctx_used_def)
    moreover have alloc using g Inr by (auto simp: idr_get_new_above_def split: if_splits prod.splits option.splits)
    ultimately show ?thesis using f s' Inr by (simp add: int_return_def)
  qed
qed

lemma ctxbitmap_free_spec:
  assumes "avl_laws A ok" "idr_inv A ok (ctx_idr s)" "h \<in> ctx_used A s"
  shows "idr_inv A ok (ctx_idr (drm_ctxbitmap_free A True h s)) \<and>
    ctx_used A (drm_ctxbitmap_free A True h s) = ctx_used A s - {h}"
proof -
  have "idr_find_used_id A (ctx_idr s) h \<noteq> None" using assms(3) by (auto simp: ctx_used_def idr_find_used_id_def)
  from idr_remove_spec [OF assms(1,2) this] obtain idrp' where
    "idr_remove A True (ctx_idr s) h = (Inr (), idrp')" "idr_inv A ok idrp'"
    "avl_find A (used_ids idrp') = (avl_find A (used_ids (ctx_idr s)))(h := None)" by blast
  then show ?thesis by (simp add: drm_ctxbitmap_free_def ctx_used_def)
qed

lemma ctxbitmap_free_fields [simp]:
  "ctxlist (drm_ctxbitmap_free A alloc h s) = ctxlist s" "ctx_count (drm_ctxbitmap_free A alloc h s) = ctx_count s"
  by (simp_all add: drm_ctxbitmap_free_def)

text \<open>What the loop over the contexts of a file does.\<close>

lemma release_ctxs_spec:
  assumes laws: "avl_laws A ok"
  shows "release_ctxs A True file l s = (l', s') \<Longrightarrow> idr_inv A ok (ctx_idr s) \<Longrightarrow> distinct (map chandle l) \<Longrightarrow>
    chandle ` set l \<subseteq> ctx_used A s \<Longrightarrow>
    idr_inv A ok (ctx_idr s') \<and> l' = filter (\<lambda>pos. \<not> (tag pos = file \<and> chandle pos \<noteq> 0)) l \<and>
    ctx_used A s' = ctx_used A s - chandle ` {pos \<in> set l. tag pos = file \<and> chandle pos \<noteq> 0} \<and>
    ctx_count s' = ctx_count s - int (length l) + int (length l')"
proof (induction l arbitrary: s l' s')
  case (Cons pos l)
  show ?case
  proof (cases "tag pos = file \<and> chandle pos \<noteq> 0")
    case True
    let ?s = "(drm_ctxbitmap_free A True (chandle pos) s)\<lparr>ctx_count := ctx_count s - 1\<rparr>"
    have "chandle pos \<in> ctx_used A s" using Cons.prems(4) by simp
    note f = ctxbitmap_free_spec [OF laws Cons.prems(2) this]
    then have u: "ctx_used A ?s = ctx_used A s - {chandle pos}" by (simp add: ctx_used_def)
    have run: "release_ctxs A True file l ?s = (l', s')" using Cons.prems(1) True by simp
    have sub: "chandle ` set l \<subseteq> ctx_used A ?s" using Cons.prems(3,4) unfolding u by (auto simp: image_iff)
    have "idr_inv A ok (ctx_idr ?s)" "distinct (map chandle l)" using f Cons.prems(3) by simp_all
    from Cons.IH [OF run this sub] True show ?thesis by (auto simp: u)
  next
    case False
    then obtain l2 where "release_ctxs A True file l s = (l2, s')" "l' = pos # l2"
      using Cons.prems(1) by (auto split: prod.splits)
    with Cons.IH [of s l2 s'] Cons.prems False show ?thesis by auto
  qed
qed simp

subsection \<open>Properties\<close>

text \<open>
  Claim C37. Adding a context. When the allocator gets its memory, the new context has a handle of at
  least the number of reserved contexts that no context had, it is listed once, for the file that
  asked, and the invariant is kept; or \<open>-ENOMEM\<close> is returned and the list is unchanged. When the
  allocator does not get its memory but has an id, the call returns success with the negative error
  number as the handle.
\<close>

theorem drm_addctx_correct:
  assumes laws: "avl_laws A ok" and inv: "ctx_inv A ok s" and res: "0 < reserved" "reserved \<le> 0x7FFFFFFF"
    and run: "drm_addctx A reserved alloc1 alloc2 alloc f s = (r, s')"
  shows "(alloc1 \<longrightarrow> ctx_inv A ok s' \<and>
       (case r of
          Inl e \<Rightarrow> e = ENOMEM \<and> ctxlist s' = ctxlist s
        | Inr h \<Rightarrow> reserved \<le> h \<and> h \<notin> ctx_used A s \<and> h \<notin> chandle ` set (ctxlist s) \<and>
            ctxlist s' = \<lparr>chandle = h, tag = f\<rparr> # ctxlist s))
   \<and> (\<not> alloc1 \<and> alloc \<and> (\<exists>i. reserved \<le> i \<and> i < 0x7FFFFFFF \<and> i \<notin> live_ids (free_id_ranges (ctx_idr s))) \<longrightarrow>
        r = Inr 0xFFFFFFF4)"
proof -
  obtain h s1 where n: "drm_ctxbitmap_next A reserved alloc1 s = (h, s1)" by force
  have iv: "idr_inv A ok (ctx_idr s)" using inv by (simp add: ctx_inv_def)
  have nonneg: "0 \<le> sint reserved" using res by (simp add: sint_nonneg_iff)
  note spec = ctxbitmap_next_spec [OF laws iv nonneg n]
  have nz: "h \<noteq> 0" using spec res by auto
  have r: "(r, s') = (if h = -1 then (Inl ENOMEM, s1) else if \<not> alloc then (Inl ENOMEM, s1)
      else (Inr h, s1\<lparr>ctxlist := \<lparr>chandle = h, tag = f\<rparr> # ctxlist s1, ctx_count := ctx_count s1 + 1\<rparr>))"
    using run nz by (simp add: drm_addctx_def n)
  have s1: "s1 = s\<lparr>ctx_idr := ctx_idr s1\<rparr>" using spec by blast
  have l1: "ctxlist s1 = ctxlist s" "ctx_count s1 = ctx_count s" by (subst s1, simp)+
  have inv1: "ctx_inv A ok s1" using inv spec l1 unfolding ctx_inv_def by fastforce
  have ok: ?thesis if new: "alloc1" "h \<notin> ctx_used A s" "reserved \<le> h" "h < 0x7FFFFFFF"
    "ctx_used A s1 = insert h (ctx_used A s)"
  proof -
    have "h \<noteq> -1" using new(4) by auto
    moreover have notin: "h \<notin> chandle ` set (ctxlist s)" using inv new(2) by (auto simp: ctx_inv_def)
    moreover have "ctx_inv A ok (s1\<lparr>ctxlist := \<lparr>chandle = h, tag = f\<rparr> # ctxlist s1, ctx_count := ctx_count s1 + 1\<rparr>)"
      using inv1 notin new(5) l1 by (auto simp: ctx_inv_def ctx_used_def)
    ultimately show ?thesis using r new inv1 l1 by (cases alloc) simp_all
  qed
  from spec consider "alloc1" "h \<notin> ctx_used A s" "reserved \<le> h" "h < 0x7FFFFFFF"
      "ctx_used A s1 = insert h (ctx_used A s)"
    | "h = -1" "{j. reserved \<le> j \<and> j < 0x7FFFFFFF} \<subseteq> live_ids (free_id_ranges (ctx_idr s))"
    | "h = 0xFFFFFFF4" "\<not> alloc1" by blast
  then show ?thesis
  proof cases
    case 1
    then show ?thesis by (rule ok)
  next
    case 2
    with r inv1 l1 show ?thesis by auto
  next
    case 3
    with r show ?thesis by (auto split: if_splits)
  qed
qed

theorem drm_addctx_correct_witness:
  "\<exists>s'. drm_addctx sal_avl 3 True True True 8
     \<lparr>ctx_idr = idr_init sal_avl, ctxlist = [], ctx_count = 0, last_context = 0, context_flag = False, maplist = []\<rparr>
     = (Inr 3, s') \<and> ctx_inv sal_avl sal_ok s'"
proof -
  let ?s = "\<lparr>ctx_idr = idr_init (sal_avl :: (nat ptr, _) avl_ops), ctxlist = [], ctx_count = 0, last_context = 0,
    context_flag = False, maplist = []\<rparr>"
  have inv: "ctx_inv sal_avl sal_ok ?s"
  proof -
    have "idr_inv sal_avl sal_ok (idr_init (sal_avl :: (nat ptr, _) avl_ops)) \<and>
      dom (avl_find sal_avl (used_ids (idr_init (sal_avl :: (nat ptr, _) avl_ops)))) = {}"
      using idr_init_inv [OF sal_avl_laws] by blast
    then show ?thesis by (simp add: ctx_inv_def ctx_used_def)
  qed
  obtain s' where run: "drm_addctx sal_avl 3 True True True 8 ?s = (Inr 3, s')"
    by (simp add: drm_addctx_def drm_ctxbitmap_next_def idr_pre_get_def int_return_def idr_get_new_above_def
        idr_init_def sal_avl_def fr_new_def fr_link_def fr_isfull_def idr_get_free_id_in_range_def Let_def)
  from drm_addctx_correct [OF sal_avl_laws inv _ _ run] run show ?thesis by auto
qed

text \<open>
  Closing a file releases exactly the contexts that the file made: they leave the list
  and their handles become free, the contexts of the other files keep theirs, and the count stays
  the length of the list. A context with the kernel's handle 0 stays.
\<close>

theorem ctx_release_correct:
  assumes laws: "avl_laws A ok" and inv: "ctx_inv A ok s" and run: "ctx_release A True f s = s'"
  shows "ctx_inv A ok s' \<and>
    ctxlist s' = filter (\<lambda>pos. \<not> (tag pos = f \<and> chandle pos \<noteq> 0)) (ctxlist s) \<and>
    ctx_used A s' = ctx_used A s - chandle ` {pos \<in> set (ctxlist s). tag pos = f \<and> chandle pos \<noteq> 0}"
proof -
  obtain l s1 where r: "release_ctxs A True f (ctxlist s) s = (l, s1)" by force
  have i: "idr_inv A ok (ctx_idr s)" "distinct (map chandle (ctxlist s))" "chandle ` set (ctxlist s) \<subseteq> ctx_used A s"
    "ctx_count s = int (length (ctxlist s))"
    using inv by (simp_all add: ctx_inv_def)
  let ?P = "\<lambda>pos. tag pos = f \<and> chandle pos \<noteq> 0"
  note sp = release_ctxs_spec [OF laws r i(1-3)]
  have s': "s' = s1\<lparr>ctxlist := l\<rparr>" using run r by (simp add: ctx_release_def)
  have sub: "chandle ` set (filter (\<lambda>pos. \<not> ?P pos) (ctxlist s)) \<subseteq> ctx_used A s - chandle ` {pos \<in> set (ctxlist s). ?P pos}"
    using i(2,3) by (auto simp: distinct_map inj_on_def)
  show ?thesis
    using sp sub i(4) distinct_map_filter [OF i(2)] unfolding s' ctx_inv_def
    by (simp add: ctx_used_def)
qed

theorem ctx_release_correct_witness:
  "\<exists>s. ctx_inv sal_avl sal_ok s \<and> ctxlist s = [\<lparr>chandle = 3, tag = 8\<rparr>] \<and>
     ctxlist (ctx_release sal_avl True 8 s) = []"
proof -
  let ?i = "\<lparr>used_ids = [(3, None)], free_id_ranges =
      [\<lparr>fr_start = 0, fr_end = 3, min_unused_id = 0, free_ids = []\<rparr>,
       \<lparr>fr_start = 3, fr_end = 0x7FFFFFFF, min_unused_id = 4, free_ids = []\<rparr>]\<rparr> :: (u32 \<times> nat ptr) list idr"
  let ?s = "\<lparr>ctx_idr = ?i, ctxlist = [\<lparr>chandle = 3, tag = 8\<rparr>], ctx_count = 1, last_context = 0,
    context_flag = False, maplist = []\<rparr>"
  have run: "idr_get_new_above (sal_avl :: (nat ptr, _) avl_ops) True (idr_init sal_avl) None 3 = (Inr 3, ?i)"
    by (simp add: idr_get_new_above_def idr_init_def sal_avl_def fr_new_def fr_link_def fr_isfull_def
        idr_get_free_id_in_range_def Let_def)
  have "idr_inv sal_avl sal_ok ?i"
    using idr_get_new_above_success [OF sal_avl_laws _ run] idr_init_inv [OF sal_avl_laws] by blast
  then have inv: "ctx_inv sal_avl sal_ok ?s" by (simp add: ctx_inv_def ctx_used_def sal_avl_def)
  from ctx_release_correct [OF sal_avl_laws inv refl, of 8] inv show ?thesis by (intro exI [of _ ?s]) simp
qed

end
