(* ===== verification/Ring_List.thy ===== *)
theory Ring_List
  imports Drm_Prelude
begin

text \<open>
  The circular lists of \<open>drm_linux_list.h\<close> as lists: a ring is written from its head, so the
  successor of the last element is the first. \<open>ring_next\<close> and \<open>ring_prev\<close> follow the links,
  \<open>insert_after\<close> is \<open>list_add\<close> and \<open>remove1\<close> is \<open>list_del\<close>.
\<close>

fun ring_next_in :: "'a \<Rightarrow> 'a list \<Rightarrow> 'a \<Rightarrow> 'a" where
  "ring_next_in h [] n = h"
| "ring_next_in h (x # xs) n =
     (if x = n then (case xs of [] \<Rightarrow> h | y # _ \<Rightarrow> y) else ring_next_in h xs n)"

definition ring_next :: "'a list \<Rightarrow> 'a \<Rightarrow> 'a" where
  "ring_next ring n = ring_next_in (hd ring) ring n"

fun ring_prev_in :: "'a \<Rightarrow> 'a list \<Rightarrow> 'a \<Rightarrow> 'a" where
  "ring_prev_in p [] n = p"
| "ring_prev_in p (x # xs) n = (if x = n then p else ring_prev_in x xs n)"

definition ring_prev :: "'a list \<Rightarrow> 'a \<Rightarrow> 'a" where
  "ring_prev ring n = ring_prev_in (last ring) ring n"

fun insert_after :: "'a \<Rightarrow> 'a \<Rightarrow> 'a list \<Rightarrow> 'a list" where
  "insert_after p n [] = []"
| "insert_after p n (x # xs) = (if x = p then x # n # xs else x # insert_after p n xs)"

subsection \<open>Where an element stands\<close>

lemma ring_next_in_split:
  "n \<notin> set as \<Longrightarrow> ring_next_in h (as @ n # bs) n = (case bs of [] \<Rightarrow> h | y # _ \<Rightarrow> y)"
  by (induction as) auto

lemma ring_next_split:
  assumes "ring = as @ n # bs" and "n \<notin> set as"
  shows "ring_next ring n = (case bs of [] \<Rightarrow> hd ring | y # _ \<Rightarrow> y)"
  unfolding ring_next_def assms(1) by (rule ring_next_in_split [OF assms(2)])

lemma ring_prev_in_split:
  "n \<notin> set as \<Longrightarrow> n \<noteq> p \<Longrightarrow> ring_prev_in q (as @ p # n # bs) n = p"
  by (induction as arbitrary: q) auto

lemma ring_prev_split:
  assumes "ring = as @ p # n # bs" and "n \<notin> set as" and "n \<noteq> p"
  shows "ring_prev ring n = p"
  unfolding ring_prev_def assms(1) by (rule ring_prev_in_split [OF assms(2,3)])

lemma insert_after_split:
  "p \<notin> set as \<Longrightarrow> insert_after p n (as @ p # bs) = as @ p # n # bs"
  by (induction as) auto

lemma set_insert_after: "p \<in> set xs \<Longrightarrow> set (insert_after p n xs) = insert n (set xs)"
  by (induction xs) auto

lemma insert_after_notin: "p \<notin> set xs \<Longrightarrow> insert_after p n xs = xs"
  by (induction xs) auto

lemma distinct_insert_after:
  "distinct xs \<Longrightarrow> n \<notin> set xs \<Longrightarrow> distinct (insert_after p n xs)"
proof (induction xs)
  case (Cons x xs)
  then show ?case
    by (cases "p \<in> set xs") (auto simp: set_insert_after insert_after_notin)
qed simp

lemma remove1_split: "n \<notin> set as \<Longrightarrow> remove1 n (as @ n # bs) = as @ bs"
  by (simp add: remove1_append)

lemma remove1_insert_after:
  assumes "n \<notin> set xs" and "p \<noteq> n"
  shows "remove1 n (insert_after p n xs) = xs"
  using assms by (induction xs) auto

text \<open>An element other than the head has its predecessor right before it.\<close>

lemma ring_split_prev:
  assumes "distinct (h # xs)" and "n \<in> set xs"
  obtains as bs where "h # xs = as @ ring_prev (h # xs) n # n # bs"
    and "n \<notin> set as" and "n \<noteq> ring_prev (h # xs) n"
proof -
  obtain as' bs where s: "xs = as' @ n # bs" "n \<notin> set as'"
    using assms(2) by (meson split_list_first)
  have ne: "n \<notin> set (h # as')"
    using assms s by auto
  then obtain p as where "h # as' = as @ [p]"
    by (cases "h # as'" rule: rev_cases) auto
  with s have eq: "h # xs = as @ p # n # bs" and n: "n \<notin> set as" "n \<noteq> p"
    using ne by (auto simp: append_eq_append_conv2 simp flip: append_Cons)
  from ring_prev_split [OF eq n] eq n show thesis
    by (intro that [of as bs]) simp_all
qed

lemma ring_next_in_mem: "ring_next_in h xs n \<in> insert h (set xs)"
proof (induction xs)
  case (Cons x xs)
  then show ?case by (cases xs) auto
qed simp

lemma ring_next_mem: "n \<in> set ring \<Longrightarrow> ring_next ring n \<in> set ring"
  using ring_next_in_mem [of "hd ring" ring n] by (cases ring) (auto simp: ring_next_def)

end
