(* ===== verification/Drm_Mm.thy ===== *)
theory Drm_Mm
  imports Ring_List
begin

text \<open>
  The range allocator \<open>drm_mm.c\<close> / \<open>drm_mm.h\<close>: it hands out blocks of an address range (the
  graphics translation table, the stolen memory). The blocks are on the circular \<open>node_list\<close> in
  address order; a node says with \<open>hole_follows\<close> that the space up to the next block is free, and
  is then also on the \<open>hole_stack\<close>, most recently freed first.

  A node is a number, its address; \<open>nodes\<close> is the memory in which the structures live, and
  \<open>HEAD\<close> is the address of the \<open>head_node\<close> inside \<open>struct drm_mm\<close>. \<open>node_list\<close> is the ring
  written from the head. \<open>scan_prev\<close> holds the \<open>node_list.prev\<close> pointers of the nodes that
  \<open>drm_mm_scan_add_block\<close> has unlinked. \<open>unsigned long\<close> is 64 bits wide and wraps, which
  \<open>drm_mm_init\<close> uses on purpose. One \<open>drm_mm\<close> is modelled, so the \<open>mm\<close> back pointer of a
  node is left out. A \<open>BUG_ON\<close> that fires is the result \<open>Inl BUG\<close>. \<open>drm_mm_replace_node\<close>, which
  nothing calls, works on the raw link fields and is not modelled.
\<close>

record drm_mm_node =
  hole_follows :: bool
  scanned_block :: bool
  scanned_prev_free :: bool
  scanned_next_free :: bool
  scanned_preceeds_hole :: bool
  allocated :: bool
  color :: u64
  start :: u64
  size :: u64

type_synonym color_adjust_fn =
  "(nat \<Rightarrow> drm_mm_node) \<Rightarrow> nat list \<Rightarrow> nat \<Rightarrow> u64 \<Rightarrow> u64 \<times> u64 \<Rightarrow> u64 \<times> u64"

record drm_mm =
  nodes :: "nat \<Rightarrow> drm_mm_node"
  node_list :: "nat list"
  hole_stack :: "nat list"
  unused_nodes :: "nat list"
  num_unused :: int
  scan_check_range :: bool
  scan_alignment :: u32
  scan_color :: u64
  scan_size :: u64
  scan_hit_start :: u64
  scan_hit_end :: u64
  scanned_blocks :: u32
  scan_start :: u64
  scan_end :: u64
  prev_scanned_node :: "nat option"
  scan_prev :: "nat \<Rightarrow> nat"
  color_adjust :: "color_adjust_fn option"

definition HEAD :: nat where
  "HEAD = 0"

definition MM_UNUSED_TARGET :: int where
  "MM_UNUSED_TARGET = 4"

definition upd_node :: "nat \<Rightarrow> (drm_mm_node \<Rightarrow> drm_mm_node) \<Rightarrow> drm_mm \<Rightarrow> drm_mm" where
  "upd_node n f mm = mm\<lparr>nodes := (nodes mm)(n := f (nodes mm n))\<rparr>"

text \<open>The zeroed structure that \<open>kzalloc\<close> returns.\<close>

definition zero_node :: drm_mm_node where
  "zero_node = \<lparr>hole_follows = False, scanned_block = False, scanned_prev_free = False,
     scanned_next_free = False, scanned_preceeds_hole = False, allocated = False,
     color = 0, start = 0, size = 0\<rparr>"

subsection \<open>Holes\<close>

definition hole_node_start' :: "drm_mm_node \<Rightarrow> u64" where
  "hole_node_start' node = start node + size node"

definition drm_mm_hole_node_start :: "drm_mm \<Rightarrow> nat \<Rightarrow> u64 result" where
  "drm_mm_hole_node_start mm h =
     (if \<not> hole_follows (nodes mm h) then Inl BUG else Inr (hole_node_start' (nodes mm h)))"

definition hole_node_end' :: "drm_mm \<Rightarrow> nat \<Rightarrow> u64" where
  "hole_node_end' mm h = start (nodes mm (ring_next (node_list mm) h))"

definition drm_mm_hole_node_end :: "drm_mm \<Rightarrow> nat \<Rightarrow> u64" where
  "drm_mm_hole_node_end mm h = hole_node_end' mm h"

text \<open>The call through \<open>mm->color_adjust\<close>, when it is set.\<close>

definition call_color_adjust :: "drm_mm \<Rightarrow> nat \<Rightarrow> u64 \<Rightarrow> u64 \<times> u64 \<Rightarrow> u64 \<times> u64" where
  "call_color_adjust mm h col se =
     (case color_adjust mm of None \<Rightarrow> se | Some f \<Rightarrow> f (nodes mm) (node_list mm) h col se)"

text \<open>The block \<open>if (alignment)\<close>: round up, with the remainder in an \<open>unsigned\<close>.\<close>

definition align_start :: "u64 \<Rightarrow> u32 \<Rightarrow> u64" where
  "align_start s alignment =
     (if alignment \<noteq> 0
      then let tmp = (ucast (s mod ucast alignment) :: u32)
           in if tmp \<noteq> 0 then s + ucast (alignment - tmp) else s
      else s)"

definition check_free_hole :: "u64 \<Rightarrow> u64 \<Rightarrow> u64 \<Rightarrow> u32 \<Rightarrow> bool" where
  "check_free_hole s e sz alignment =
     (if e - s < sz then False
      else let s = align_start s alignment in s + sz \<le> e)"

subsection \<open>Memory for nodes\<close>

text \<open>
  \<open>kz\<close> is what \<open>kzalloc\<close> returns: the address of a fresh structure, which it has zeroed, or
  \<open>NULL\<close>; then a structure is taken from the reserve.
\<close>

definition drm_mm_kmalloc :: "nat option \<Rightarrow> drm_mm \<Rightarrow> nat option \<times> drm_mm" where
  "drm_mm_kmalloc kz mm =
     (case kz of
        Some child \<Rightarrow> (Some child, upd_node child (\<lambda>_. zero_node) mm)
      | None \<Rightarrow>
          (case unused_nodes mm of
             [] \<Rightarrow> (None, mm)
           | child # rest \<Rightarrow> (Some child, mm\<lparr>unused_nodes := rest, num_unused := num_unused mm - 1\<rparr>)))"

text \<open>\<open>kz i\<close> is the result of the \<open>i\<close>-th call of \<open>kzalloc\<close> in the loop.\<close>

function pre_get_loop :: "(nat \<Rightarrow> nat option) \<Rightarrow> nat \<Rightarrow> drm_mm \<Rightarrow> unit result \<times> drm_mm" where
  "pre_get_loop kz i mm =
     (if num_unused mm < MM_UNUSED_TARGET then
        (case kz i of
           None \<Rightarrow> (if num_unused mm < 2 then Inl ENOMEM else Inr (), mm)
         | Some node \<Rightarrow>
             pre_get_loop kz (Suc i)
               (upd_node node (\<lambda>_. zero_node)
                  (mm\<lparr>num_unused := num_unused mm + 1, unused_nodes := unused_nodes mm @ [node]\<rparr>)))
      else (Inr (), mm))"
  by pat_completeness auto
termination
  by (relation "measure (\<lambda>(kz, i, mm). nat (MM_UNUSED_TARGET - num_unused mm))")
    (auto simp: upd_node_def)

declare pre_get_loop.simps [simp del]

definition drm_mm_pre_get :: "(nat \<Rightarrow> nat option) \<Rightarrow> drm_mm \<Rightarrow> unit result \<times> drm_mm" where
  "drm_mm_pre_get kz mm = pre_get_loop kz 0 mm"

subsection \<open>Inserting a block into a hole\<close>

text \<open>
  The part that \<open>drm_mm_insert_helper\<close> and \<open>drm_mm_insert_helper_range\<close> share once the adjusted
  start and end are known: unlink a hole that is used from its start, fill in and link the node, and
  record the hole that remains behind it.
\<close>

definition insert_at :: "nat \<Rightarrow> nat \<Rightarrow> u64 \<Rightarrow> u64 \<Rightarrow> u64 \<Rightarrow> u64 \<Rightarrow> u64 \<Rightarrow> drm_mm \<Rightarrow> drm_mm" where
  "insert_at hole_node node hole_start hole_end adj_start sz col mm =
     (let mm = (if adj_start = hole_start
                then upd_node hole_node (\<lambda>x. x\<lparr>hole_follows := False\<rparr>)
                       (mm\<lparr>hole_stack := remove1 hole_node (hole_stack mm)\<rparr>)
                else mm);
          mm = upd_node node (\<lambda>x. x\<lparr>start := adj_start, size := sz, color := col, allocated := True\<rparr>) mm;
          mm = mm\<lparr>node_list := insert_after hole_node node (node_list mm)\<rparr>;
          mm = upd_node node (\<lambda>x. x\<lparr>hole_follows := False\<rparr>) mm
      in if hole_node_start' (nodes mm node) < hole_end
         then upd_node node (\<lambda>x. x\<lparr>hole_follows := True\<rparr>) (mm\<lparr>hole_stack := node # hole_stack mm\<rparr>)
         else mm)"

definition drm_mm_insert_helper ::
  "nat \<Rightarrow> nat \<Rightarrow> u64 \<Rightarrow> u32 \<Rightarrow> u64 \<Rightarrow> drm_mm \<Rightarrow> drm_mm result" where
  "drm_mm_insert_helper hole_node node sz alignment col mm =
     (case drm_mm_hole_node_start mm hole_node of
        Inl e \<Rightarrow> Inl e
      | Inr hole_start \<Rightarrow>
          if allocated (nodes mm node) then Inl BUG
          else
            let hole_end = drm_mm_hole_node_end mm hole_node;
                (adj_start, adj_end) = call_color_adjust mm hole_node col (hole_start, hole_end);
                adj_start = align_start adj_start alignment
            in if adj_start + sz > adj_end then Inl BUG
               else Inr (insert_at hole_node node hole_start hole_end adj_start sz col mm))"

definition drm_mm_insert_helper_range ::
  "nat \<Rightarrow> nat \<Rightarrow> u64 \<Rightarrow> u32 \<Rightarrow> u64 \<Rightarrow> u64 \<Rightarrow> u64 \<Rightarrow> drm_mm \<Rightarrow> drm_mm result" where
  "drm_mm_insert_helper_range hole_node node sz alignment col rstart rend mm =
     (case drm_mm_hole_node_start mm hole_node of
        Inl e \<Rightarrow> Inl e
      | Inr hole_start \<Rightarrow>
          if \<not> hole_follows (nodes mm hole_node) \<or> allocated (nodes mm node) then Inl BUG
          else
            let hole_end = drm_mm_hole_node_end mm hole_node;
                adj_start = (if hole_start < rstart then rstart else hole_start);
                adj_end = (if rend < hole_end then rend else hole_end);
                (adj_start, adj_end) = call_color_adjust mm hole_node col (adj_start, adj_end);
                adj_start = align_start adj_start alignment
            in if adj_start + sz > adj_end then Inl BUG
               else if adj_start + sz > rend then Inl BUG
               else Inr (insert_at hole_node node hole_start hole_end adj_start sz col mm))"

subsection \<open>Searching for a hole\<close>

text \<open>
  The loop over the hole stack of both search functions. \<open>lim\<close> is the range of
  \<open>drm_mm_search_free_in_range_generic\<close>; without one this is \<open>drm_mm_search_free_generic\<close>.
  \<open>best\<close> and \<open>best_size\<close> are the loop's variables.
\<close>

fun search_holes ::
  "drm_mm \<Rightarrow> u64 \<Rightarrow> u32 \<Rightarrow> u64 \<Rightarrow> (u64 \<times> u64) option \<Rightarrow> bool \<Rightarrow> nat list \<Rightarrow> nat option \<Rightarrow> u64 \<Rightarrow> nat option result"
where
  "search_holes mm sz alignment col lim best_match [] best best_size = Inr best"
| "search_holes mm sz alignment col lim best_match (entry # rest) best best_size =
     (case drm_mm_hole_node_start mm entry of
        Inl e \<Rightarrow> Inl e
      | Inr adj_start \<Rightarrow>
          let adj_end = drm_mm_hole_node_end mm entry;
              (adj_start, adj_end) =
                (case lim of None \<Rightarrow> (adj_start, adj_end)
                 | Some (rstart, rend) \<Rightarrow>
                     (if adj_start < rstart then rstart else adj_start,
                      if rend < adj_end then rend else adj_end));
              (adj_start, adj_end) = call_color_adjust mm entry col (adj_start, adj_end)
          in if color_adjust mm \<noteq> None \<and> adj_end \<le> adj_start
             then search_holes mm sz alignment col lim best_match rest best best_size
             else if \<not> check_free_hole adj_start adj_end sz alignment
             then search_holes mm sz alignment col lim best_match rest best best_size
             else if \<not> best_match then Inr (Some entry)
             else if size (nodes mm entry) < best_size
             then search_holes mm sz alignment col lim best_match rest (Some entry) (size (nodes mm entry))
             else search_holes mm sz alignment col lim best_match rest best best_size)"

definition drm_mm_search_free_generic ::
  "drm_mm \<Rightarrow> u64 \<Rightarrow> u32 \<Rightarrow> u64 \<Rightarrow> bool \<Rightarrow> nat option result" where
  "drm_mm_search_free_generic mm sz alignment col best_match =
     (if scanned_blocks mm \<noteq> 0 then Inl BUG
      else search_holes mm sz alignment col None best_match (hole_stack mm) None (- 1))"

definition drm_mm_search_free_in_range_generic ::
  "drm_mm \<Rightarrow> u64 \<Rightarrow> u32 \<Rightarrow> u64 \<Rightarrow> u64 \<Rightarrow> u64 \<Rightarrow> bool \<Rightarrow> nat option result" where
  "drm_mm_search_free_in_range_generic mm sz alignment col rstart rend best_match =
     (if scanned_blocks mm \<noteq> 0 then Inl BUG
      else search_holes mm sz alignment col (Some (rstart, rend)) best_match (hole_stack mm) None (- 1))"

definition drm_mm_search_free :: "drm_mm \<Rightarrow> u64 \<Rightarrow> u32 \<Rightarrow> bool \<Rightarrow> nat option result" where
  "drm_mm_search_free mm sz alignment best_match = drm_mm_search_free_generic mm sz alignment 0 best_match"

definition drm_mm_search_free_in_range ::
  "drm_mm \<Rightarrow> u64 \<Rightarrow> u32 \<Rightarrow> u64 \<Rightarrow> u64 \<Rightarrow> bool \<Rightarrow> nat option result" where
  "drm_mm_search_free_in_range mm sz alignment rstart rend best_match =
     drm_mm_search_free_in_range_generic mm sz alignment 0 rstart rend best_match"

subsection \<open>Allocating\<close>

text \<open>
  The loop of \<open>drm_mm_create_block\<close>: the first hole on the stack that contains the block. The error
  message when there is none is left out.
\<close>

fun create_block_loop ::
  "nat option \<Rightarrow> drm_mm \<Rightarrow> u64 \<Rightarrow> u64 \<Rightarrow> nat list \<Rightarrow> (nat option \<times> drm_mm) result" where
  "create_block_loop kz mm bstart sz [] = Inr (None, mm)"
| "create_block_loop kz mm bstart sz (hole # rest) =
     (case drm_mm_hole_node_start mm hole of
        Inl e \<Rightarrow> Inl e
      | Inr hole_start \<Rightarrow>
          let hole_end = drm_mm_hole_node_end mm hole; bend = bstart + sz
          in if bstart < hole_start \<or> hole_end < bend then create_block_loop kz mm bstart sz rest
             else
               (case drm_mm_kmalloc kz mm of
                  (None, mm) \<Rightarrow> Inr (None, mm)
                | (Some node, mm) \<Rightarrow>
                    let mm = upd_node node (\<lambda>x. x\<lparr>start := bstart, size := sz, allocated := True\<rparr>) mm;
                        mm = mm\<lparr>node_list := insert_after hole node (node_list mm)\<rparr>;
                        mm = (if bstart = hole_start
                              then upd_node hole (\<lambda>x. x\<lparr>hole_follows := False\<rparr>)
                                     (mm\<lparr>hole_stack := remove1 hole (hole_stack mm)\<rparr>)
                              else mm);
                        mm = upd_node node (\<lambda>x. x\<lparr>hole_follows := False\<rparr>) mm;
                        mm = (if bend \<noteq> hole_end
                              then upd_node node (\<lambda>x. x\<lparr>hole_follows := True\<rparr>)
                                     (mm\<lparr>hole_stack := node # hole_stack mm\<rparr>)
                              else mm)
                    in Inr (Some node, mm)))"

definition drm_mm_create_block ::
  "nat option \<Rightarrow> drm_mm \<Rightarrow> u64 \<Rightarrow> u64 \<Rightarrow> (nat option \<times> drm_mm) result" where
  "drm_mm_create_block kz mm bstart sz = create_block_loop kz mm bstart sz (hole_stack mm)"

definition drm_mm_get_block_generic ::
  "nat option \<Rightarrow> nat \<Rightarrow> u64 \<Rightarrow> u32 \<Rightarrow> u64 \<Rightarrow> drm_mm \<Rightarrow> (nat option \<times> drm_mm) result" where
  "drm_mm_get_block_generic kz hole_node sz alignment col mm =
     (case drm_mm_kmalloc kz mm of
        (None, mm) \<Rightarrow> Inr (None, mm)
      | (Some node, mm) \<Rightarrow>
          (case drm_mm_insert_helper hole_node node sz alignment col mm of
             Inl e \<Rightarrow> Inl e | Inr mm \<Rightarrow> Inr (Some node, mm)))"

definition drm_mm_get_block ::
  "nat option \<Rightarrow> nat \<Rightarrow> u64 \<Rightarrow> u32 \<Rightarrow> drm_mm \<Rightarrow> (nat option \<times> drm_mm) result" where
  "drm_mm_get_block kz parent sz alignment mm = drm_mm_get_block_generic kz parent sz alignment 0 mm"

definition drm_mm_get_block_range_generic ::
  "nat option \<Rightarrow> nat \<Rightarrow> u64 \<Rightarrow> u32 \<Rightarrow> u64 \<Rightarrow> u64 \<Rightarrow> u64 \<Rightarrow> drm_mm \<Rightarrow> (nat option \<times> drm_mm) result" where
  "drm_mm_get_block_range_generic kz hole_node sz alignment col rstart rend mm =
     (case drm_mm_kmalloc kz mm of
        (None, mm) \<Rightarrow> Inr (None, mm)
      | (Some node, mm) \<Rightarrow>
          (case drm_mm_insert_helper_range hole_node node sz alignment col rstart rend mm of
             Inl e \<Rightarrow> Inl e | Inr mm \<Rightarrow> Inr (Some node, mm)))"

definition drm_mm_get_block_range ::
  "nat option \<Rightarrow> nat \<Rightarrow> u64 \<Rightarrow> u32 \<Rightarrow> u64 \<Rightarrow> u64 \<Rightarrow> drm_mm \<Rightarrow> (nat option \<times> drm_mm) result" where
  "drm_mm_get_block_range kz parent sz alignment rstart rend mm =
     drm_mm_get_block_range_generic kz parent sz alignment 0 rstart rend mm"

text \<open>The \<open>_atomic\<close> variants differ in the flags given to \<open>kzalloc\<close> only.\<close>

definition drm_mm_get_block_atomic ::
  "nat option \<Rightarrow> nat \<Rightarrow> u64 \<Rightarrow> u32 \<Rightarrow> drm_mm \<Rightarrow> (nat option \<times> drm_mm) result" where
  "drm_mm_get_block_atomic kz parent sz alignment mm = drm_mm_get_block_generic kz parent sz alignment 0 mm"

definition drm_mm_get_block_atomic_range ::
  "nat option \<Rightarrow> nat \<Rightarrow> u64 \<Rightarrow> u32 \<Rightarrow> u64 \<Rightarrow> u64 \<Rightarrow> drm_mm \<Rightarrow> (nat option \<times> drm_mm) result" where
  "drm_mm_get_block_atomic_range kz parent sz alignment rstart rend mm =
     drm_mm_get_block_range_generic kz parent sz alignment 0 rstart rend mm"

definition drm_mm_insert_node_generic ::
  "drm_mm \<Rightarrow> nat \<Rightarrow> u64 \<Rightarrow> u32 \<Rightarrow> u64 \<Rightarrow> drm_mm result" where
  "drm_mm_insert_node_generic mm node sz alignment col =
     (case drm_mm_search_free_generic mm sz alignment col False of
        Inl e \<Rightarrow> Inl e
      | Inr None \<Rightarrow> Inl ENOSPC
      | Inr (Some hole_node) \<Rightarrow> drm_mm_insert_helper hole_node node sz alignment col mm)"

definition drm_mm_insert_node :: "drm_mm \<Rightarrow> nat \<Rightarrow> u64 \<Rightarrow> u32 \<Rightarrow> drm_mm result" where
  "drm_mm_insert_node mm node sz alignment = drm_mm_insert_node_generic mm node sz alignment 0"

definition drm_mm_insert_node_in_range_generic ::
  "drm_mm \<Rightarrow> nat \<Rightarrow> u64 \<Rightarrow> u32 \<Rightarrow> u64 \<Rightarrow> u64 \<Rightarrow> u64 \<Rightarrow> drm_mm result" where
  "drm_mm_insert_node_in_range_generic mm node sz alignment col rstart rend =
     (case drm_mm_search_free_in_range_generic mm sz alignment col rstart rend False of
        Inl e \<Rightarrow> Inl e
      | Inr None \<Rightarrow> Inl ENOSPC
      | Inr (Some hole_node) \<Rightarrow>
          drm_mm_insert_helper_range hole_node node sz alignment col rstart rend mm)"

definition drm_mm_insert_node_in_range ::
  "drm_mm \<Rightarrow> nat \<Rightarrow> u64 \<Rightarrow> u32 \<Rightarrow> u64 \<Rightarrow> u64 \<Rightarrow> drm_mm result" where
  "drm_mm_insert_node_in_range mm node sz alignment rstart rend =
     drm_mm_insert_node_in_range_generic mm node sz alignment 0 rstart rend"

subsection \<open>Freeing\<close>

definition drm_mm_remove_node :: "nat \<Rightarrow> drm_mm \<Rightarrow> drm_mm result" where
  "drm_mm_remove_node node mm =
     (let n = nodes mm node; prev_node = ring_prev (node_list mm) node
      in if scanned_block n \<or> scanned_prev_free n \<or> scanned_next_free n then Inl BUG
         else if hole_follows n \<and> hole_node_start' n = hole_node_end' mm node then Inl BUG
         else if \<not> hole_follows n \<and> hole_node_start' n \<noteq> hole_node_end' mm node then Inl BUG
         else
           let mm = (if hole_follows n then mm\<lparr>hole_stack := remove1 node (hole_stack mm)\<rparr> else mm);
               mm = (if \<not> hole_follows (nodes mm prev_node)
                     then upd_node prev_node (\<lambda>x. x\<lparr>hole_follows := True\<rparr>)
                            (mm\<lparr>hole_stack := prev_node # hole_stack mm\<rparr>)
                     else mm\<lparr>hole_stack := prev_node # remove1 prev_node (hole_stack mm)\<rparr>);
               mm = mm\<lparr>node_list := remove1 node (node_list mm)\<rparr>
           in Inr (upd_node node (\<lambda>x. x\<lparr>allocated := False\<rparr>) mm))"

definition drm_mm_put_block :: "nat \<Rightarrow> drm_mm \<Rightarrow> drm_mm result" where
  "drm_mm_put_block node mm =
     (case drm_mm_remove_node node mm of
        Inl e \<Rightarrow> Inl e
      | Inr mm \<Rightarrow>
          if num_unused mm < MM_UNUSED_TARGET
          then Inr (mm\<lparr>unused_nodes := node # unused_nodes mm, num_unused := num_unused mm + 1\<rparr>)
          else Inr mm)"

subsection \<open>Scanning for blocks to evict\<close>

definition drm_mm_init_scan :: "u64 \<Rightarrow> u32 \<Rightarrow> u64 \<Rightarrow> drm_mm \<Rightarrow> drm_mm" where
  "drm_mm_init_scan sz alignment col mm =
     mm\<lparr>scan_color := col, scan_alignment := alignment, scan_size := sz, scanned_blocks := 0,
        scan_hit_start := 0, scan_hit_end := 0, scan_check_range := False, prev_scanned_node := None\<rparr>"

definition drm_mm_init_scan_with_range :: "u64 \<Rightarrow> u32 \<Rightarrow> u64 \<Rightarrow> u64 \<Rightarrow> u64 \<Rightarrow> drm_mm \<Rightarrow> drm_mm" where
  "drm_mm_init_scan_with_range sz alignment col rstart rend mm =
     mm\<lparr>scan_color := col, scan_alignment := alignment, scan_size := sz, scanned_blocks := 0,
        scan_hit_start := 0, scan_hit_end := 0, scan_start := rstart, scan_end := rend,
        scan_check_range := True, prev_scanned_node := None\<rparr>"

text \<open>The first part of \<open>drm_mm_scan_add_block\<close>: mark the node and unlink it from behind \<open>prev_node\<close>.\<close>

definition scan_unlink :: "nat \<Rightarrow> nat \<Rightarrow> drm_mm \<Rightarrow> drm_mm" where
  "scan_unlink node prev_node mm =
     (let preceeds = hole_follows (nodes mm prev_node);
          mm = mm\<lparr>scanned_blocks := scanned_blocks mm + 1\<rparr>;
          mm = upd_node node (\<lambda>x. x\<lparr>scanned_block := True, scanned_preceeds_hole := preceeds\<rparr>) mm;
          mm = upd_node prev_node (\<lambda>x. x\<lparr>hole_follows := True\<rparr>) mm
      in mm\<lparr>node_list := remove1 node (node_list mm), scan_prev := (scan_prev mm)(node := prev_node),
            prev_scanned_node := Some node\<rparr>)"

definition drm_mm_scan_add_block :: "nat \<Rightarrow> drm_mm \<Rightarrow> (bool \<times> drm_mm) result" where
  "drm_mm_scan_add_block node mm =
     (if scanned_block (nodes mm node) then Inl BUG
      else
        let prev_node = ring_prev (node_list mm) node;
            mm = scan_unlink node prev_node mm;
            hole_start = hole_node_start' (nodes mm prev_node);
            hole_end = drm_mm_hole_node_end mm prev_node;
            adj_start = (if scan_check_range mm \<and> hole_start < scan_start mm then scan_start mm else hole_start);
            adj_end = (if scan_check_range mm \<and> scan_end mm < hole_end then scan_end mm else hole_end);
            (adj_start, adj_end) = call_color_adjust mm prev_node (scan_color mm) (adj_start, adj_end)
        in if check_free_hole adj_start adj_end (scan_size mm) (scan_alignment mm)
           then Inr (True, mm\<lparr>scan_hit_start := hole_start, scan_hit_end := hole_end\<rparr>)
           else Inr (False, mm))"

definition drm_mm_scan_remove_block :: "nat \<Rightarrow> drm_mm \<Rightarrow> (bool \<times> drm_mm) result" where
  "drm_mm_scan_remove_block node mm =
     (let mm = mm\<lparr>scanned_blocks := scanned_blocks mm - 1\<rparr>
      in if \<not> scanned_block (nodes mm node) then Inl BUG
         else
           let mm = upd_node node (\<lambda>x. x\<lparr>scanned_block := False\<rparr>) mm;
               prev_node = scan_prev mm node;
               preceeds = scanned_preceeds_hole (nodes mm node);
               mm = upd_node prev_node (\<lambda>x. x\<lparr>hole_follows := preceeds\<rparr>) mm;
               mm = mm\<lparr>node_list := insert_after prev_node node (node_list mm)\<rparr>
           in Inr (scan_hit_start mm < drm_mm_hole_node_end mm node \<and> start (nodes mm node) < scan_hit_end mm, mm))"

subsection \<open>Setting up, taking down, accounting\<close>

text \<open>\<open>head->next->next == head\<close>.\<close>

definition drm_mm_clean :: "drm_mm \<Rightarrow> bool" where
  "drm_mm_clean mm \<longleftrightarrow> ring_next (node_list mm) (ring_next (node_list mm) HEAD) = HEAD"

definition drm_mm_init :: "u64 \<Rightarrow> u64 \<Rightarrow> drm_mm \<Rightarrow> drm_mm" where
  "drm_mm_init rstart sz mm =
     (let mm = mm\<lparr>hole_stack := [], unused_nodes := [], num_unused := 0, scanned_blocks := 0,
                 node_list := [HEAD]\<rparr>;
          mm = upd_node HEAD (\<lambda>x. x\<lparr>hole_follows := True, scanned_block := False, scanned_prev_free := False,
                 scanned_next_free := False, start := rstart + sz, size := rstart - (rstart + sz)\<rparr>) mm
      in mm\<lparr>hole_stack := hole_stack mm @ [HEAD], color_adjust := None\<rparr>)"

definition drm_mm_takedown :: "drm_mm \<Rightarrow> drm_mm result" where
  "drm_mm_takedown mm =
     (if ring_next (node_list mm) HEAD \<noteq> HEAD then Inr mm
      else
        let mm = mm\<lparr>num_unused := num_unused mm - int (length (unused_nodes mm)), unused_nodes := []\<rparr>
        in if num_unused mm \<noteq> 0 then Inl BUG else Inr mm)"

definition drm_mm_debug_hole :: "drm_mm \<Rightarrow> nat \<Rightarrow> u64" where
  "drm_mm_debug_hole mm entry =
     (if hole_follows (nodes mm entry)
      then hole_node_end' mm entry - hole_node_start' (nodes mm entry) else 0)"

text \<open>The totals that \<open>drm_mm_debug_table\<close> prints: all, used, free.\<close>

fun debug_table_loop :: "drm_mm \<Rightarrow> nat list \<Rightarrow> u64 \<Rightarrow> u64 \<Rightarrow> u64 \<times> u64" where
  "debug_table_loop mm [] total_used total_free = (total_used, total_free)"
| "debug_table_loop mm (entry # rest) total_used total_free =
     debug_table_loop mm rest (total_used + size (nodes mm entry)) (total_free + drm_mm_debug_hole mm entry)"

definition drm_mm_debug_table :: "drm_mm \<Rightarrow> u64 \<times> u64 \<times> u64" where
  "drm_mm_debug_table mm =
     (case debug_table_loop mm (tl (node_list mm)) 0 (drm_mm_debug_hole mm HEAD) of
        (total_used, total_free) \<Rightarrow> (total_free + total_used, total_used, total_free))"

end
