(* ===== verification/Drm_Mm_Inv.thy ===== *)
theory Drm_Mm_Inv
  imports Drm_Mm
begin

text \<open>
  The invariant of the range allocator between operations, and that inserting, reserving
  and removing keep it. No \<open>BUG_ON\<close> of these operations can fire when the invariant holds.
\<close>

subsection \<open>The layout of the address range\<close>

text \<open>The space behind a node, up to \<open>v\<close>: it is not negative, and flagged exactly when not empty.\<close>

definition hole_ok :: "drm_mm_node \<Rightarrow> u64 \<Rightarrow> bool" where
  "hole_ok x v \<longleftrightarrow> hole_node_start' x \<le> v \<and> (hole_follows x \<longleftrightarrow> hole_node_start' x < v)"

definition first_start :: "(nat \<Rightarrow> drm_mm_node) \<Rightarrow> nat list \<Rightarrow> u64 \<Rightarrow> u64" where
  "first_start N xs e = (case xs of [] \<Rightarrow> e | y # _ \<Rightarrow> start (N y))"

fun chain :: "(nat \<Rightarrow> drm_mm_node) \<Rightarrow> nat list \<Rightarrow> u64 \<Rightarrow> bool" where
  "chain N [] e = True"
| "chain N (x # xs) e = (hole_ok (N x) (first_start N xs e) \<and> chain N xs e)"

text \<open>
  A block in the list: not empty, it does not wrap around, is marked allocated and is not being
  scanned. (Removing an empty block between two neighbours would leave an empty hole that is flagged.)
\<close>

definition block_ok :: "drm_mm_node \<Rightarrow> bool" where
  "block_ok x \<longleftrightarrow> size x \<noteq> 0 \<and> unat (start x) + unat (size x) < 2 ^ 64 \<and> allocated x \<and>
     \<not> scanned_block x \<and> \<not> scanned_prev_free x \<and> \<not> scanned_next_free x"

text \<open>
  Rounding a start up to an alignment (at most \<open>2^32\<close>) must not wrap around: the managed range ends
  at least 4 GiB below the end of the address space.
\<close>

definition mm_inv :: "drm_mm \<Rightarrow> bool" where
  "mm_inv mm \<longleftrightarrow>
     (\<exists>ns. node_list mm = HEAD # ns) \<and> distinct (node_list mm) \<and>
     chain (nodes mm) (node_list mm) (start (nodes mm HEAD)) \<and>
     (\<forall>n \<in> set (tl (node_list mm)). block_ok (nodes mm n)) \<and>
     distinct (hole_stack mm) \<and>
     set (hole_stack mm) = {n \<in> set (node_list mm). hole_follows (nodes mm n)} \<and>
     unat (start (nodes mm HEAD)) + 2 ^ 32 \<le> 2 ^ 64 \<and>
     scanned_blocks mm = 0"

lemma first_start_simps [simp]:
  "first_start N [] e = e" "first_start N (y # ys) e = start (N y)"
  by (simp_all add: first_start_def)

lemma first_start_append: "first_start N (xs @ ys) e = first_start N xs (first_start N ys e)"
  by (cases xs) auto

lemma chain_append: "chain N (xs @ ys) e \<longleftrightarrow> chain N xs (first_start N ys e) \<and> chain N ys e"
  by (induction xs) (auto simp: first_start_append)

lemma chain_cong:
  assumes "\<And>x. x \<in> set xs \<Longrightarrow> hole_ok (N x) = hole_ok (N' x) \<and> start (N x) = start (N' x)"
  shows "chain N xs e = chain N' xs e"
  using assms by (induction xs) (auto simp: first_start_def split: list.splits)

lemma chain_le_end:
  "chain N xs e \<Longrightarrow> (\<forall>x \<in> set xs. unat (start (N x)) + unat (size (N x)) < 2 ^ 64) \<Longrightarrow>
   x \<in> set xs \<Longrightarrow> hole_node_start' (N x) \<le> e"
proof (induction xs arbitrary: x)
  case (Cons y ys)
  have nowrap: "start (N z) \<le> hole_node_start' (N z)" if "z \<in> set (y # ys)" for z
  proof -
    have "unat (start (N z)) + unat (size (N z)) < 2 ^ 64"
      using Cons.prems(2) that by blast
    then show ?thesis
      by (simp add: hole_node_start'_def word_le_nat_alt unat_add_nowrap)
  qed
  have first: "first_start N ys e \<le> e"
  proof (cases ys)
    case (Cons z zs)
    then show ?thesis
      using Cons.IH Cons.prems nowrap [of z] by (auto intro: order_trans)
  qed simp
  show ?case
    using Cons first by (auto simp: hole_ok_def)
qed simp

text \<open>Where a node of the list stands: what precedes it and what the hole behind it ends at.\<close>

lemma mm_inv_split:
  assumes "mm_inv mm" and "h \<in> set (node_list mm)"
  obtains as bs where "node_list mm = as @ h # bs" "h \<notin> set as" "h \<notin> set bs"
    and "hole_node_end' mm h = first_start (nodes mm) bs (start (nodes mm HEAD))"
    and "hole_ok (nodes mm h) (hole_node_end' mm h)"
    and "chain (nodes mm) as (start (nodes mm h))"
    and "chain (nodes mm) bs (start (nodes mm HEAD))"
proof -
  obtain as bs where s: "node_list mm = as @ h # bs" "h \<notin> set as"
    using assms(2) by (meson split_list_first)
  have d: "distinct (node_list mm)" and hd: "hd (node_list mm) = HEAD"
    and ch: "chain (nodes mm) (node_list mm) (start (nodes mm HEAD))"
    using assms(1) by (auto simp: mm_inv_def)
  have e: "hole_node_end' mm h = first_start (nodes mm) bs (start (nodes mm HEAD))"
    using ring_next_split [OF s] hd by (cases bs) (simp_all add: hole_node_end'_def)
  show thesis
    by (rule that [OF s _ e]) (use d ch e s in \<open>auto simp: chain_append\<close>)
qed

lemma nodes_upd_node [simp]:
  "nodes (upd_node n f mm) = (nodes mm)(n := f (nodes mm n))"
  "node_list (upd_node n f mm) = node_list mm"
  "hole_stack (upd_node n f mm) = hole_stack mm"
  "scanned_blocks (upd_node n f mm) = scanned_blocks mm"
  "unused_nodes (upd_node n f mm) = unused_nodes mm"
  "num_unused (upd_node n f mm) = num_unused mm"
  "color_adjust (upd_node n f mm) = color_adjust mm"
  by (simp_all add: upd_node_def)

subsection \<open>Inserting\<close>

text \<open>The structure after \<open>insert_at\<close>, field by field.\<close>

lemma insert_at_fields:
  assumes "h \<noteq> n"
  shows "node_list (insert_at h n hs he s sz col mm) = insert_after h n (node_list mm)"
    and "nodes (insert_at h n hs he s sz col mm) = (nodes mm)
      (h := (nodes mm h)\<lparr>hole_follows := hole_follows (nodes mm h) \<and> s \<noteq> hs\<rparr>,
       n := (nodes mm n)\<lparr>start := s, size := sz, color := col, allocated := True, hole_follows := s + sz < he\<rparr>)"
    and "hole_stack (insert_at h n hs he s sz col mm) =
      (if s + sz < he then [n] else []) @ (if s = hs then remove1 h (hole_stack mm) else hole_stack mm)"
    and "scanned_blocks (insert_at h n hs he s sz col mm) = scanned_blocks mm"
    and "color_adjust (insert_at h n hs he s sz col mm) = color_adjust mm"
    and "unused_nodes (insert_at h n hs he s sz col mm) = unused_nodes mm"
    and "num_unused (insert_at h n hs he s sz col mm) = num_unused mm"
  using assms by (auto simp: insert_at_def Let_def hole_node_start'_def fun_eq_iff)

definition node_clear :: "drm_mm_node \<Rightarrow> bool" where
  "node_clear x \<longleftrightarrow> \<not> allocated x \<and> \<not> scanned_block x \<and> \<not> scanned_prev_free x \<and> \<not> scanned_next_free x"

lemma insert_at_inv:
  assumes inv: "mm_inv mm" and h: "h \<in> set (node_list mm)" "hole_follows (nodes mm h)"
    and n: "n \<notin> set (node_list mm)" "node_clear (nodes mm n)"
    and hs: "hs = hole_node_start' (nodes mm h)" and he: "he = hole_node_end' mm h"
    and fit: "hs \<le> s" "unat s + unat sz < 2 ^ 64" "s + sz \<le> he" and sz: "sz \<noteq> 0"
  shows "mm_inv (insert_at h n hs he s sz col mm)"
proof -
  let ?mm = "insert_at h n hs he s sz col mm"
  have hn: "h \<noteq> n" using h n by auto
  note f = insert_at_fields [OF hn]
  obtain as bs where sp: "node_list mm = as @ h # bs" "h \<notin> set as" "h \<notin> set bs"
    "hole_node_end' mm h = first_start (nodes mm) bs (start (nodes mm HEAD))"
    "hole_ok (nodes mm h) (hole_node_end' mm h)" "chain (nodes mm) as (start (nodes mm h))"
    "chain (nodes mm) bs (start (nodes mm HEAD))"
    using mm_inv_split [OF inv h(1)] by blast
  have ring: "node_list ?mm = as @ h # n # bs"
    using f(1) sp insert_after_split by simp
  have nas: "n \<notin> set as" "n \<notin> set bs"
    using n(1) sp(1) by auto
  obtain ns where ns: "node_list mm = HEAD # ns" and d: "distinct (node_list mm)"
    using inv by (auto simp: mm_inv_def)
  have HEADn: "HEAD \<noteq> n"
    using ns n(1) by auto
  have start_eq: "start (nodes ?mm x) = start (nodes mm x)" if "x \<noteq> n" for x
    using that by (simp add: f)
  have same: "nodes ?mm x = nodes mm x" if "x \<noteq> h" "x \<noteq> n" for x
    using that by (simp add: f)
  have "chain (nodes ?mm) as e = chain (nodes mm) as e" for e
    by (rule chain_cong) (metis same sp(2) nas(1))
  then have chain_as: "chain (nodes ?mm) as (start (nodes mm h))"
    using sp(6) by simp
  have "chain (nodes ?mm) bs e = chain (nodes mm) bs e" for e
    by (rule chain_cong) (metis same sp(3) nas(2))
  then have chain_bs: "chain (nodes ?mm) bs (start (nodes mm HEAD))"
    using sp(7) by simp
  have first_bs: "first_start (nodes ?mm) bs (start (nodes mm HEAD)) = he"
  proof (cases bs)
    case (Cons a list)
    with nas have "a \<noteq> n" by auto
    from start_eq [OF this] sp(4) he Cons show ?thesis by simp
  qed (use sp(4) he in simp)
  have hole_h: "hole_ok (nodes ?mm h) s"
    using fit(1) h(2) hn by (auto simp: f hole_ok_def hs hole_node_start'_def)
  have hole_n: "hole_ok (nodes ?mm n) he"
    using fit(3) by (simp add: f hole_ok_def hole_node_start'_def)
  have start_n: "start (nodes ?mm n) = s" by (simp add: f)
  have ch: "chain (nodes ?mm) (node_list ?mm) (start (nodes ?mm HEAD))"
    using chain_as chain_bs first_bs hole_h hole_n start_n start_eq [OF hn] start_eq [OF HEADn]
    by (simp add: ring chain_append)
  have ne: "as @ h # n # bs = HEAD # (tl (as @ h # n # bs))"
    using ns sp(1) by (cases as) auto
  have tl: "set (tl (as @ h # n # bs)) = insert n (set (tl (node_list mm)))"
    using sp(1) by (cases as) auto
  have blocks: "block_ok (nodes ?mm x)" if "x \<in> set (tl (node_list ?mm))" for x
  proof (cases "x = n")
    case True
    with fit(2) n(2) sz show ?thesis by (simp add: f block_ok_def node_clear_def)
  next
    case False
    with that tl ring inv have "block_ok (nodes mm x)" by (auto simp: mm_inv_def)
    with False show ?thesis by (auto simp: f block_ok_def)
  qed
  have hsd: "distinct (hole_stack mm)" "set (hole_stack mm) = {n \<in> set (node_list mm). hole_follows (nodes mm n)}"
    using inv by (auto simp: mm_inv_def)
  have holes: "set (hole_stack ?mm) = {x \<in> set (node_list ?mm). hole_follows (nodes ?mm x)}"
    unfolding ring using hsd h n(1) hn sp(1) by (auto simp: f set_remove1_eq)
  have dist: "distinct (hole_stack ?mm)"
    using hsd n(1) by (auto simp: f distinct_remove1 dest: notin_set_remove1)
  have dl: "distinct (node_list ?mm)"
    using f(1) d n(1) by (simp add: distinct_insert_after)
  show ?thesis
    unfolding mm_inv_def
    using ne ch blocks holes dist dl inv start_eq [OF HEADn] ring f(4)
    by (auto simp: mm_inv_def)
qed

subsection \<open>Rounding up and the test for space\<close>

lemma align_start_spec:
  assumes "unat s + 2 ^ 32 \<le> 2 ^ 64"
  shows "unat s \<le> unat (align_start s al)" and "unat (align_start s al) < unat s + 2 ^ 32"
    and "al \<noteq> 0 \<Longrightarrow> unat al dvd unat (align_start s al)"
    and "unat s \<le> a \<Longrightarrow> al = 0 \<or> unat al dvd a \<Longrightarrow> unat (align_start s al) \<le> a"
proof -
  let ?r = "unat s mod unat al"
  have al: "unat al < 2 ^ 32" using unat_u32_less [of al] by simp
  have "unat s \<le> unat (align_start s al) \<and> unat (align_start s al) < unat s + 2 ^ 32 \<and>
      (al \<noteq> 0 \<longrightarrow> unat al dvd unat (align_start s al)) \<and>
      (unat s \<le> a \<and> (al = 0 \<or> unat al dvd a) \<longrightarrow> unat (align_start s al) \<le> a)"
  proof (cases "al = 0")
    case True
    then show ?thesis by (simp add: align_start_def)
  next
    case False
    then have pos: "0 < unat al" by (simp add: unat_gt_0)
    then have r: "?r < unat al" by simp
    have tmp: "unat (ucast (s mod ucast al) :: u32) = ?r"
      using r al by (simp add: unsigned_ucast_eq unat_mod unat_ucast_u32_u64 take_bit_nat_eq_self)
    show ?thesis
    proof (cases "?r = 0")
      case True
      then have "(ucast (s mod ucast al) :: u32) = 0"
        using tmp by (simp add: unat_eq_0)
      with True False pos show ?thesis
        by (auto simp: align_start_def Let_def dvd_eq_mod_eq_0)
    next
      case nz: False
      then have ne: "(ucast (s mod ucast al) :: u32) \<noteq> 0"
        using tmp by (metis unat_0)
      have d: "unat (al - ucast (s mod ucast al)) = unat al - ?r"
        using tmp r by (subst unat_sub_le) (simp_all add: word_le_nat_alt)
      have v: "unat (align_start s al) = unat s + (unat al - ?r)"
        using False ne d assms al
        by (simp add: align_start_def Let_def, subst unat_add_nowrap) (simp_all add: unat_ucast_u32_u64)
      have up: "unat s + (unat al - ?r) = (unat s div unat al + 1) * unat al"
      proof -
        have "(unat s div unat al + 1) * unat al = unat s div unat al * unat al + unat al" by simp
        with r div_mult_mod_eq [of "unat s" "unat al"] show ?thesis by linarith
      qed
      then have dv: "unat al dvd unat (align_start s al)"
        by (simp add: v)
      have "unat (align_start s al) \<le> a" if le: "unat s \<le> a" and "unat al dvd a"
      proof -
        obtain k where k: "a = unat al * k" using \<open>unat al dvd a\<close> by blast
        have "unat s div unat al * unat al < unat s"
          using nz div_mult_mod_eq [of "unat s" "unat al"] by linarith
        with le k have "unat s div unat al < k"
          by (metis mult.commute mult_less_cancel1 order_less_le_trans)
        then have "(unat s div unat al + 1) * unat al \<le> k * unat al"
          by (intro mult_right_mono) simp_all
        with k up v show ?thesis by (simp add: mult.commute)
      qed
      with v al r nz dv False show ?thesis by auto
    qed
  qed
  then show "unat s \<le> unat (align_start s al)" and "unat (align_start s al) < unat s + 2 ^ 32"
    and "al \<noteq> 0 \<Longrightarrow> unat al dvd unat (align_start s al)"
    and "unat s \<le> a \<Longrightarrow> al = 0 \<or> unat al dvd a \<Longrightarrow> unat (align_start s al) \<le> a"
    by auto
qed

text \<open>
  Under either of two conditions that exclude wrap-around, the test says exactly that the rounded-up
  block ends at or before \<open>e\<close>.
\<close>

lemma check_free_hole_iff:
  assumes "s \<le> e \<and> unat e + 2 ^ 32 \<le> 2 ^ 64 \<or> unat s + unat sz + 2 ^ 32 \<le> 2 ^ 64"
  shows "check_free_hole s e sz al \<longleftrightarrow> unat (align_start s al) + unat sz \<le> unat e"
proof -
  let ?d = "align_start s al"
  have room: "unat s + 2 ^ 32 \<le> 2 ^ 64"
    using assms by (auto simp: word_le_nat_alt)
  note a = align_start_spec(1,2) [OF room, of al]
  have sub: "unat (e - s) = unat e - unat s" if "s \<le> e"
    using that by (rule unat_sub_le)
  show ?thesis
  proof
    assume chk: "check_free_hole s e sz al"
    then have le: "\<not> e - s < sz" "?d + sz \<le> e"
      by (auto simp: check_free_hole_def Let_def split: if_splits)
    have "unat ?d + unat sz < 2 ^ 64"
      using assms
    proof
      assume as: "s \<le> e \<and> unat e + 2 ^ 32 \<le> 2 ^ 64"
      then have "unat sz \<le> unat e - unat s"
        using le(1) sub by (simp add: word_less_nat_alt)
      with as a show ?thesis by (simp add: word_le_nat_alt) linarith
    next
      assume "unat s + unat sz + 2 ^ 32 \<le> 2 ^ 64"
      with a show ?thesis by simp
    qed
    with le(2) show "unat ?d + unat sz \<le> unat e"
      by (simp add: word_le_nat_alt unat_add_nowrap)
  next
    assume fit: "unat ?d + unat sz \<le> unat e"
    then have se: "s \<le> e" using a by (simp add: word_le_nat_alt)
    have "unat ?d + unat sz < 2 ^ 64"
      using fit unat_u64_less [of e] by simp
    with fit a sub [OF se] show "check_free_hole s e sz al"
      by (auto simp: check_free_hole_def Let_def word_le_nat_alt word_less_nat_alt unat_add_nowrap)
  qed
qed

subsection \<open>Searching\<close>

text \<open>The part of a hole that a request may use: clipped to the range, then adjusted for colours.\<close>

definition hole_window :: "drm_mm \<Rightarrow> u64 \<Rightarrow> (u64 \<times> u64) option \<Rightarrow> nat \<Rightarrow> u64 \<times> u64" where
  "hole_window mm col lim h =
     call_color_adjust mm h col
       (case lim of None \<Rightarrow> (hole_node_start' (nodes mm h), hole_node_end' mm h)
        | Some (rstart, rend) \<Rightarrow>
            (if hole_node_start' (nodes mm h) < rstart then rstart else hole_node_start' (nodes mm h),
             if rend < hole_node_end' mm h then rend else hole_node_end' mm h))"

definition fits :: "drm_mm \<Rightarrow> u64 \<Rightarrow> u32 \<Rightarrow> u64 \<Rightarrow> (u64 \<times> u64) option \<Rightarrow> nat \<Rightarrow> bool" where
  "fits mm sz al col lim h \<longleftrightarrow>
     (case hole_window mm col lim h of (s, e) \<Rightarrow>
        (color_adjust mm \<noteq> None \<longrightarrow> s < e) \<and> check_free_hole s e sz al)"

text \<open>Without \<open>best_match\<close> the search returns the first hole of the stack that fits.\<close>

lemma search_holes_first:
  assumes "\<forall>h \<in> set hs. hole_follows (nodes mm h)"
  shows "search_holes mm sz al col lim False hs best bs =
     Inr (case find (fits mm sz al col lim) hs of None \<Rightarrow> best | Some h \<Rightarrow> Some h)"
  using assms
  by (induction hs)
    (auto simp: fits_def hole_window_def drm_mm_hole_node_start_def drm_mm_hole_node_end_def Let_def
      not_le split: prod.splits option.splits)

text \<open>The colour callback may only shrink the window.\<close>

definition color_law :: "drm_mm \<Rightarrow> bool" where
  "color_law mm \<longleftrightarrow> (\<forall>f. color_adjust mm = Some f \<longrightarrow>
     (\<forall>N ns h col s e. s \<le> fst (f N ns h col (s, e)) \<and> snd (f N ns h col (s, e)) \<le> e))"

lemma color_lawD:
  assumes "color_law mm"
  shows "s \<le> fst (call_color_adjust mm h col (s, e)) \<and> snd (call_color_adjust mm h col (s, e)) \<le> e"
  using assms by (auto simp: color_law_def call_color_adjust_def split: option.splits)

text \<open>The arguments of a range-restricted request cannot wrap around.\<close>

definition range_args_ok :: "drm_mm \<Rightarrow> u64 \<Rightarrow> u64 \<Rightarrow> bool" where
  "range_args_ok mm sz rstart \<longleftrightarrow>
     unat rstart + unat sz + 2 ^ 32 \<le> 2 ^ 64 \<and> unat (start (nodes mm HEAD)) + unat sz + 2 ^ 32 \<le> 2 ^ 64"

lemma mm_inv_hole_end_le:
  assumes "mm_inv mm" and "h \<in> set (node_list mm)"
  shows "hole_node_start' (nodes mm h) \<le> hole_node_end' mm h \<and> hole_node_end' mm h \<le> start (nodes mm HEAD)"
proof -
  obtain as bs where sp: "node_list mm = as @ h # bs" "h \<notin> set as" "h \<notin> set bs"
    "hole_node_end' mm h = first_start (nodes mm) bs (start (nodes mm HEAD))"
    "hole_ok (nodes mm h) (hole_node_end' mm h)" "chain (nodes mm) bs (start (nodes mm HEAD))"
    using mm_inv_split [OF assms] by metis
  obtain ns where ns: "node_list mm = HEAD # ns"
    using assms(1) by (auto simp: mm_inv_def)
  have sub: "set bs \<subseteq> set (tl (node_list mm))"
    using sp(1) by (cases as) auto
  have nowrap: "unat (start (nodes mm x)) + unat (size (nodes mm x)) < 2 ^ 64" if "x \<in> set bs" for x
    using that sub assms(1) by (auto simp: mm_inv_def block_ok_def)
  have "first_start (nodes mm) bs (start (nodes mm HEAD)) \<le> start (nodes mm HEAD)"
  proof (cases bs)
    case (Cons y ys)
    then have "start (nodes mm y) \<le> hole_node_start' (nodes mm y)"
      using nowrap [of y] by (simp add: hole_node_start'_def word_le_nat_alt unat_add_nowrap)
    also have "\<dots> \<le> start (nodes mm HEAD)"
      using chain_le_end [OF sp(6), of y] nowrap Cons by auto
    finally show ?thesis using Cons by simp
  qed simp
  with sp show ?thesis by (simp add: hole_ok_def)
qed

text \<open>What a fitting hole guarantees about the block that is cut out of it.\<close>

lemma fits_block:
  assumes inv: "mm_inv mm" and law: "color_law mm" and h: "h \<in> set (node_list mm)"
    and fit: "fits mm sz al col lim h" and win: "hole_window mm col lim h = (s, e)"
    and range: "\<forall>rstart rend. lim = Some (rstart, rend) \<longrightarrow> range_args_ok mm sz rstart"
  shows "hole_node_start' (nodes mm h) \<le> align_start s al"
    and "unat (align_start s al) + unat sz < 2 ^ 64"
    and "align_start s al + sz \<le> e \<and> e \<le> hole_node_end' mm h"
    and "al \<noteq> 0 \<Longrightarrow> unat al dvd unat (align_start s al)"
    and "lim = Some (rstart, rend) \<Longrightarrow> rstart \<le> align_start s al \<and> e \<le> rend"
proof -
  let ?hs = "hole_node_start' (nodes mm h)" and ?he = "hole_node_end' mm h"
  note bounds = mm_inv_hole_end_le [OF inv h]
  have E: "unat (start (nodes mm HEAD)) + 2 ^ 32 \<le> 2 ^ 64"
    using inv by (simp add: mm_inv_def)
  have chk: "check_free_hole s e sz al" and cs: "color_adjust mm \<noteq> None \<Longrightarrow> s < e"
    using fit win by (auto simp: fits_def)
  define p where "p = (case lim of None \<Rightarrow> (?hs, ?he) | Some (rs, re) \<Rightarrow>
      (if ?hs < rs then rs else ?hs, if re < ?he then re else ?he))"
  have p: "?hs \<le> fst p" "snd p \<le> ?he"
    "\<And>rs re. lim = Some (rs, re) \<Longrightarrow> rs \<le> fst p \<and> snd p \<le> re \<and> (fst p = rs \<or> fst p = ?hs)"
    by (auto simp: p_def split: option.splits prod.splits)
  have se: "(s, e) = call_color_adjust mm h col (fst p, snd p)"
    using win by (simp add: hole_window_def p_def)
  then have sp: "fst p \<le> s" "e \<le> snd p"
    using color_lawD [OF law, of "fst p" h col "snd p"] by (metis fst_conv, metis snd_conv)
  then have lo: "?hs \<le> s" and hi: "e \<le> ?he"
    using p by auto
  have cond: "s \<le> e \<and> unat e + 2 ^ 32 \<le> 2 ^ 64 \<or> unat s + unat sz + 2 ^ 32 \<le> 2 ^ 64"
  proof (cases "color_adjust mm \<noteq> None \<or> lim = None")
    case True
    then have "s \<le> e"
      using cs se bounds by (cases "color_adjust mm") (auto simp: p_def call_color_adjust_def)
    with hi bounds E show ?thesis by (auto simp: word_le_nat_alt)
  next
    case False
    then obtain rs re where r: "lim = Some (rs, re)" by auto
    have "s = fst p"
      using False se by (cases p) (auto simp: call_color_adjust_def)
    then have "s = rs \<or> s = ?hs" using p(3) [OF r] by auto
    moreover have "unat ?hs \<le> unat (start (nodes mm HEAD))"
      using bounds by (auto simp: word_le_nat_alt)
    ultimately show ?thesis
      using range r by (auto simp: range_args_ok_def)
  qed
  then have room: "unat s + 2 ^ 32 \<le> 2 ^ 64"
    by (auto simp: word_le_nat_alt)
  note al = align_start_spec(1-3) [OF room, of al]
  have fit': "unat (align_start s al) + unat sz \<le> unat e"
    using chk check_free_hole_iff [OF cond] by simp
  then show nw: "unat (align_start s al) + unat sz < 2 ^ 64"
    using unat_u64_less [of e] by simp
  show "?hs \<le> align_start s al"
    using lo al(1) by (simp add: word_le_nat_alt)
  show "align_start s al + sz \<le> e \<and> e \<le> ?he"
    using fit' nw hi by (simp add: word_le_nat_alt unat_add_nowrap)
  show "al \<noteq> 0 \<Longrightarrow> unat al dvd unat (align_start s al)"
    by (rule al(3))
  show "rstart \<le> align_start s al \<and> e \<le> rend" if "lim = Some (rstart, rend)"
    using p(3) [OF that] sp al(1) by (auto simp: word_le_nat_alt)
qed

subsection \<open>The abstract state: which blocks are handed out\<close>

definition blocks :: "drm_mm \<Rightarrow> nat \<Rightarrow> (nat \<times> nat) option" where
  "blocks mm n =
     (if n \<in> set (tl (node_list mm)) then Some (unat (start (nodes mm n)), unat (size (nodes mm n))) else None)"

definition region :: "drm_mm \<Rightarrow> nat \<times> nat" where
  "region mm = (unat (hole_node_start' (nodes mm HEAD)), unat (start (nodes mm HEAD)))"

text \<open>A node that can be handed to the allocator: not linked, and cleared.\<close>

definition fresh_node :: "drm_mm \<Rightarrow> nat \<Rightarrow> bool" where
  "fresh_node mm n \<longleftrightarrow> n \<notin> set (node_list mm) \<and> node_clear (nodes mm n)"

lemma mm_inv_tl: "mm_inv mm \<Longrightarrow> set (node_list mm) = insert HEAD (set (tl (node_list mm)))"
  by (auto simp: mm_inv_def)

lemma insert_at_blocks:
  assumes inv: "mm_inv mm" and h: "h \<in> set (node_list mm)" and n: "n \<notin> set (node_list mm)"
  shows "blocks (insert_at h n hs he s sz col mm) = (blocks mm)(n := Some (unat s, unat sz))"
    and "region (insert_at h n hs he s sz col mm) = region mm"
    and "fresh_node mm m \<Longrightarrow> m \<noteq> n \<Longrightarrow> fresh_node (insert_at h n hs he s sz col mm) m"
proof -
  have hn: "h \<noteq> n" using h n by auto
  note f = insert_at_fields [OF hn]
  obtain ns where ns: "node_list mm = HEAD # ns" using inv by (auto simp: mm_inv_def)
  have HEADn: "HEAD \<noteq> n" using ns n by auto
  have tl: "set (tl (insert_after h n (node_list mm))) = insert n (set (tl (node_list mm)))"
    using h ns by (auto simp: set_insert_after)
  show "blocks (insert_at h n hs he s sz col mm) = (blocks mm)(n := Some (unat s, unat sz))"
    using n by (auto simp: blocks_def fun_eq_iff f tl)
  show "region (insert_at h n hs he s sz col mm) = region mm"
    using HEADn by (simp add: region_def f hole_node_start'_def)
  show "fresh_node mm m \<Longrightarrow> m \<noteq> n \<Longrightarrow> fresh_node (insert_at h n hs he s sz col mm) m"
    using h by (auto simp: fresh_node_def f set_insert_after node_clear_def)
qed

text \<open>One insertion into a hole that fits, for both flavours.\<close>

lemma insert_into_fitting:
  assumes inv: "mm_inv mm" and law: "color_law mm" and h: "h \<in> set (hole_stack mm)"
    and n: "fresh_node mm n" and sz: "sz \<noteq> 0" and fit: "fits mm sz al col lim h"
    and range: "\<forall>rstart rend. lim = Some (rstart, rend) \<longrightarrow> range_args_ok mm sz rstart"
  obtains s :: u64 and mm' where
    "(case lim of None \<Rightarrow> drm_mm_insert_helper h n sz al col mm
      | Some (rstart, rend) \<Rightarrow> drm_mm_insert_helper_range h n sz al col rstart rend mm) = Inr mm'"
    and "mm_inv mm'" "blocks mm' = (blocks mm)(n := Some (unat s, unat sz))" "region mm' = region mm"
    and "al \<noteq> 0 \<longrightarrow> unat al dvd unat s" "color (nodes mm' n) = col"
    and "\<And>rstart rend. lim = Some (rstart, rend) \<Longrightarrow> unat rstart \<le> unat s \<and> unat s + unat sz \<le> unat rend"
    and "\<And>m. fresh_node mm m \<Longrightarrow> m \<noteq> n \<Longrightarrow> fresh_node mm' m"
    and "color_adjust mm' = color_adjust mm" "unused_nodes mm' = unused_nodes mm" "num_unused mm' = num_unused mm"
proof -
  let ?hs = "hole_node_start' (nodes mm h)" and ?he = "hole_node_end' mm h"
  have hl: "h \<in> set (node_list mm)" "hole_follows (nodes mm h)"
    using inv h by (auto simp: mm_inv_def)
  have nl: "n \<notin> set (node_list mm)" "node_clear (nodes mm n)"
    using n by (auto simp: fresh_node_def)
  obtain s e where win: "hole_window mm col lim h = (s, e)" by force
  note b = fits_block [OF inv law hl(1) fit win range]
  let ?mm = "insert_at h n ?hs ?he (align_start s al) sz col mm"
  have inv': "mm_inv ?mm"
    using insert_at_inv [OF inv hl nl refl refl _ _ _ sz] b(1,2,3) by auto
  have fin: "unat (align_start s al) + unat sz = unat (align_start s al + sz)"
    using b(2) by (simp add: unat_add_nowrap)
  have ok: "(case lim of None \<Rightarrow> drm_mm_insert_helper h n sz al col mm
      | Some (rstart, rend) \<Rightarrow> drm_mm_insert_helper_range h n sz al col rstart rend mm) = Inr ?mm"
    using win hl(2) nl(2) b(3) b(5)
    by (auto simp: drm_mm_insert_helper_def drm_mm_insert_helper_range_def drm_mm_hole_node_start_def
        drm_mm_hole_node_end_def hole_window_def node_clear_def Let_def not_le [symmetric]
        split: option.splits prod.splits)
  have hn: "h \<noteq> n" using hl nl by auto
  show thesis
  proof (rule that [where s = "align_start s al", OF ok inv'])
    show "blocks ?mm = (blocks mm)(n := Some (unat (align_start s al), unat sz))" "region ?mm = region mm"
      using insert_at_blocks [OF inv hl(1) nl(1)] by blast+
    show "al \<noteq> 0 \<longrightarrow> unat al dvd unat (align_start s al)" using b(4) by blast
    show "color (nodes ?mm n) = col" using insert_at_fields [OF hn] by simp
    show "unat rstart \<le> unat (align_start s al) \<and> unat (align_start s al) + unat sz \<le> unat rend"
      if "lim = Some (rstart, rend)" for rstart rend
      using b(3) b(5) [OF that] that fin by (auto simp: word_le_nat_alt)
    show "fresh_node ?mm m" if "fresh_node mm m" "m \<noteq> n" for m
      using insert_at_blocks(3) [OF inv hl(1) nl(1) that] .
  qed (use insert_at_fields [OF hn] in simp_all)
qed

subsection \<open>Removing\<close>

lemma remove_node_spec:
  assumes inv: "mm_inv mm" and n: "blocks mm n \<noteq> None"
  obtains mm' where "drm_mm_remove_node n mm = Inr mm'" and "mm_inv mm'"
    and "blocks mm' = (blocks mm)(n := None)" "region mm' = region mm" "fresh_node mm' n"
    and "node_list mm' = remove1 n (node_list mm)" "hd (hole_stack mm') = ring_prev (node_list mm) n"
    and "\<And>m. m \<noteq> n \<Longrightarrow> fresh_node mm m \<Longrightarrow> fresh_node mm' m"
    and "color_adjust mm' = color_adjust mm" "unused_nodes mm' = unused_nodes mm" "num_unused mm' = num_unused mm"
proof -
  obtain ns where ns: "node_list mm = HEAD # ns" and d: "distinct (HEAD # ns)" and nin: "n \<in> set ns"
    using inv n by (auto simp: mm_inv_def blocks_def split: if_splits)
  let ?N = "nodes mm" and ?E = "start (nodes mm HEAD)"
  obtain p as bs where sp: "node_list mm = as @ p # n # bs" and nas: "n \<notin> set as" "n \<noteq> p"
    and p: "ring_prev (node_list mm) n = p"
    using ring_split_prev [OF d nin] ns by metis
  have dl: "distinct (as @ p # n # bs)" using d ns sp by simp
  have blk: "block_ok (?N n)" using inv ns nin by (auto simp: mm_inv_def)
  have ch: "chain ?N as (start (?N p))" "hole_ok (?N p) (start (?N n))"
    "hole_ok (?N n) (first_start ?N bs ?E)" "chain ?N bs ?E"
  proof -
    have "chain ?N (as @ p # n # bs) ?E"
      using inv by (simp add: mm_inv_def flip: sp)
    then show "chain ?N as (start (?N p))" "hole_ok (?N p) (start (?N n))"
      "hole_ok (?N n) (first_start ?N bs ?E)" "chain ?N bs ?E"
      by (simp_all add: chain_append)
  qed
  have HEADn: "HEAD \<noteq> n" using d nin by auto
  have hend: "hole_node_end' mm n = first_start ?N bs ?E"
  proof -
    have "hd (node_list mm) = HEAD" by (simp add: ns)
    then show ?thesis
      using ring_next_split [of "node_list mm" "as @ [p]" n bs] sp nas
      by (cases bs) (auto simp: hole_node_end'_def)
  qed
  let ?v = "first_start ?N bs ?E"
  have lt: "hole_node_start' (?N p) < ?v"
  proof -
    have "start (?N n) < hole_node_start' (?N n)"
      using blk by (simp add: block_ok_def hole_node_start'_def word_less_nat_alt unat_add_nowrap unat_gt_0)
    with ch(2,3) show ?thesis by (auto simp: hole_ok_def)
  qed
  define mm' where "mm' = mm\<lparr>nodes := ?N(p := (?N p)\<lparr>hole_follows := True\<rparr>, n := (?N n)\<lparr>allocated := False\<rparr>),
     node_list := remove1 n (node_list mm), hole_stack := p # remove1 p (remove1 n (hole_stack mm))\<rparr>"
  have hstack: "distinct (hole_stack mm)" "set (hole_stack mm) = {x \<in> set (node_list mm). hole_follows (?N x)}"
    using inv by (auto simp: mm_inv_def)
  have idem: "remove1 n (hole_stack mm) = hole_stack mm" if "\<not> hole_follows (?N n)"
    using that hstack by (simp add: remove1_idem)
  have idem': "remove1 p (remove1 n (hole_stack mm)) = remove1 n (hole_stack mm)" if "\<not> hole_follows (?N p)"
    using that hstack by (simp add: remove1_idem)
  have upd_p: "?N(n := x, p := (?N p)\<lparr>hole_follows := True\<rparr>) = ?N(n := x)" if "hole_follows (?N p)" for x
    using that nas(2) by (auto simp: fun_eq_iff)
  have eq: "drm_mm_remove_node n mm = Inr mm'"
    using blk ch(3) hend nas(2) idem idem' upd_p
    by (auto simp: drm_mm_remove_node_def p mm'_def Let_def block_ok_def hole_ok_def upd_node_def fun_upd_twist)
  have ring': "node_list mm' = as @ p # bs"
    using sp nas by (simp add: mm'_def remove1_append)
  have same: "nodes mm' x = ?N x" if "x \<noteq> p" "x \<noteq> n" for x
    using that by (simp add: mm'_def)
  have sas: "nodes mm' x = ?N x" if "x \<in> set as \<or> x \<in> set bs" for x
    using that same [of x] dl by auto
  then have "chain (nodes mm') as e = chain ?N as e" for e
    by (intro chain_cong) simp
  moreover have "chain (nodes mm') bs e = chain ?N bs e" for e
    using sas by (intro chain_cong) simp
  moreover have "first_start (nodes mm') bs ?E = ?v"
    using sas by (cases bs) auto
  moreover have st: "start (nodes mm' x) = start (?N x)" for x
    by (simp add: mm'_def)
  moreover have "hole_ok (nodes mm' p) ?v"
    using lt nas(2) by (simp add: mm'_def hole_ok_def hole_node_start'_def)
  ultimately have "chain (nodes mm') (node_list mm') (start (nodes mm' HEAD))"
    using ch by (simp add: ring' chain_append)
  moreover have tl: "set (tl (node_list mm')) = set (tl (node_list mm)) - {n}" "\<exists>ms. node_list mm' = HEAD # ms"
    using ns d HEADn by (auto simp: mm'_def set_remove1_eq)
  moreover have "block_ok (nodes mm' x)" if "x \<in> set (tl (node_list mm'))" for x
    using that inv tl by (auto simp: mm_inv_def mm'_def block_ok_def)
  moreover have "set (hole_stack mm') = {x \<in> set (node_list mm'). hole_follows (nodes mm' x)}"
    unfolding ring' using hstack sp dl by (auto simp: mm'_def set_remove1_eq distinct_remove1)
  ultimately have inv': "mm_inv mm'"
    using inv st dl hstack(1) unfolding mm_inv_def
    by (auto simp: ring' mm'_def distinct_remove1 set_remove1_eq)
  show thesis
  proof (rule that [OF eq inv'])
    show "blocks mm' = (blocks mm)(n := None)"
      using tl by (auto simp: blocks_def fun_eq_iff mm'_def)
    show "region mm' = region mm"
      using HEADn by (simp add: region_def mm'_def hole_node_start'_def)
    show "fresh_node mm' n"
      using d ns blk by (auto simp: fresh_node_def mm'_def node_clear_def block_ok_def)
    show "fresh_node mm' m" if "m \<noteq> n" "fresh_node mm m" for m
      using that by (auto simp: fresh_node_def mm'_def node_clear_def dest: notin_set_remove1)
  qed (simp_all add: mm'_def p)
qed

subsection \<open>Blocks are ordered, disjoint and inside the range\<close>

lemma chain_sorted:
  "chain N (x # ys) e \<Longrightarrow> (\<forall>y \<in> set ys. unat (start (N y)) + unat (size (N y)) < 2 ^ 64) \<Longrightarrow>
   sorted_wrt (\<lambda>x y. hole_node_start' (N x) \<le> start (N y)) (x # ys)"
proof (induction ys arbitrary: x)
  case (Cons y ys)
  have IH: "sorted_wrt (\<lambda>x y. hole_node_start' (N x) \<le> start (N y)) (y # ys)"
    by (rule Cons.IH) (use Cons.prems in auto)
  have "start (N y) \<le> hole_node_start' (N y)"
    using Cons.prems(2) by (simp add: hole_node_start'_def word_le_nat_alt unat_add_nowrap)
  with Cons.prems(1) have le: "hole_node_start' (N x) \<le> start (N y)" "hole_node_start' (N x) \<le> hole_node_start' (N y)"
    by (auto simp: hole_ok_def)
  have "hole_node_start' (N x) \<le> start (N z)" if "z \<in> set ys" for z
    using le(2) IH that order_trans by (auto simp only: sorted_wrt.simps)
  with IH le show ?case by simp
qed simp

lemma mm_inv_blocks:
  assumes inv: "mm_inv mm" and a: "blocks mm a = Some (x, l)"
  shows "fst (region mm) \<le> x \<and> x + l \<le> snd (region mm) \<and> 0 < l"
    and "blocks mm b = Some (y, k) \<Longrightarrow> a \<noteq> b \<Longrightarrow> x + l \<le> y \<or> y + k \<le> x"
proof -
  obtain ns where ns: "node_list mm = HEAD # ns" and ok: "\<forall>n \<in> set ns. block_ok (nodes mm n)"
    and ch: "chain (nodes mm) (HEAD # ns) (start (nodes mm HEAD))"
    using inv by (auto simp: mm_inv_def)
  have nw: "\<forall>n \<in> set ns. unat (start (nodes mm n)) + unat (size (nodes mm n)) < 2 ^ 64"
    using ok by (simp add: block_ok_def)
  have fin: "unat (hole_node_start' (nodes mm n)) = unat (start (nodes mm n)) + unat (size (nodes mm n))"
    if "n \<in> set ns" for n
    using nw that by (simp add: hole_node_start'_def unat_add_nowrap)
  note srt = chain_sorted [OF ch nw]
  have ain: "a \<in> set ns" "x = unat (start (nodes mm a))" "l = unat (size (nodes mm a))"
    using a ns by (auto simp: blocks_def split: if_splits)
  have "hole_node_start' (nodes mm a) \<le> start (nodes mm HEAD)"
    using chain_le_end [of "nodes mm" ns _ a] ch nw ain(1) by auto
  then show "fst (region mm) \<le> x \<and> x + l \<le> snd (region mm) \<and> 0 < l"
    using srt ain fin [OF ain(1)] ok by (auto simp: region_def word_le_nat_alt block_ok_def unat_gt_0)
  assume b: "blocks mm b = Some (y, k)" and ne: "a \<noteq> b"
  have bin: "b \<in> set ns" "y = unat (start (nodes mm b))" "k = unat (size (nodes mm b))"
    using b ns by (auto simp: blocks_def split: if_splits)
  obtain i j where ij: "i < length ns" "j < length ns" "ns ! i = a" "ns ! j = b"
    using ain(1) bin(1) by (auto simp: in_set_conv_nth)
  with ne have "i < j \<or> j < i" by (metis nat_neq_iff)
  have srt': "sorted_wrt (\<lambda>x y. hole_node_start' (nodes mm x) \<le> start (nodes mm y)) ns"
    using srt by (simp only: sorted_wrt.simps)
  note nth = srt' [unfolded sorted_wrt_iff_nth_less, rule_format]
  from \<open>i < j \<or> j < i\<close> show "x + l \<le> y \<or> y + k \<le> x"
  proof
    assume "i < j"
    with nth [of i j] ij have "hole_node_start' (nodes mm a) \<le> start (nodes mm b)"
      by simp
    with ain bin fin [OF ain(1)] show ?thesis by (simp add: word_le_nat_alt)
  next
    assume "j < i"
    with nth [of j i] ij have "hole_node_start' (nodes mm b) \<le> start (nodes mm a)"
      by simp
    with ain bin fin [OF bin(1)] show ?thesis by (simp add: word_le_nat_alt)
  qed
qed

subsection \<open>Initialising\<close>

lemma drm_mm_init_inv:
  assumes "sz \<noteq> 0" and "unat rstart + unat sz + 2 ^ 32 \<le> 2 ^ 64"
  shows "mm_inv (drm_mm_init rstart sz mm)" and "blocks (drm_mm_init rstart sz mm) = Map.empty"
    and "region (drm_mm_init rstart sz mm) = (unat rstart, unat rstart + unat sz)"
proof -
  have u: "unat (rstart + sz) = unat rstart + unat sz"
    using assms(2) by (simp add: unat_add_nowrap)
  have lt: "rstart < rstart + sz"
    using assms(1) u by (simp add: word_less_nat_alt unat_gt_0)
  show "mm_inv (drm_mm_init rstart sz mm)"
    using lt u assms(2)
    by (auto simp: mm_inv_def drm_mm_init_def Let_def hole_ok_def hole_node_start'_def)
  show "blocks (drm_mm_init rstart sz mm) = Map.empty"
    by (simp add: blocks_def drm_mm_init_def Let_def fun_eq_iff)
  show "region (drm_mm_init rstart sz mm) = (unat rstart, unat rstart + unat sz)"
    using u by (simp add: region_def drm_mm_init_def Let_def hole_node_start'_def)
qed

lemma hole_ok_cong:
  "start x = start y \<Longrightarrow> size x = size y \<Longrightarrow> hole_follows x = hole_follows y \<Longrightarrow> hole_ok x = hole_ok y"
  by (simp add: hole_ok_def fun_eq_iff hole_node_start'_def)

end
