(* ===== verification/Range_Alloc.thy ===== *)
theory Range_Alloc
  imports Drm_Prelude
begin

text \<open>
  The interface of a range allocator, as its clients (the GTT and stolen-memory code) rely on it:
  which blocks \<open>(start, length)\<close> are handed out, inside which region, and what allocating and
  freeing do to them. The clients' facts are proved from the laws once: blocks stay disjoint and
  inside the region under every sequence of operations, and never add up to more than the region.
\<close>

datatype ('n, 'r) range_op = Alloc 'n 'r | Free 'n

text \<open>A sequence of operations; one that fails leaves the state as it was.\<close>

fun range_step :: "('s \<Rightarrow> 'n \<Rightarrow> 'r \<Rightarrow> 's option) \<Rightarrow> ('s \<Rightarrow> 'n \<Rightarrow> 's option) \<Rightarrow> 's \<Rightarrow> ('n, 'r) range_op \<Rightarrow> 's" where
  "range_step alloc free s (Alloc n r) = (case alloc s n r of None \<Rightarrow> s | Some s' \<Rightarrow> s')"
| "range_step alloc free s (Free n) = (case free s n of None \<Rightarrow> s | Some s' \<Rightarrow> s')"

text \<open>The caller allocates with structures that are not in use and frees blocks that it holds.\<close>

fun legal_op ::
  "('s \<Rightarrow> 'n \<Rightarrow> bool) \<Rightarrow> ('s \<Rightarrow> 'n \<Rightarrow> (nat \<times> nat) option) \<Rightarrow> ('r \<Rightarrow> bool) \<Rightarrow> 's \<Rightarrow> ('n, 'r) range_op \<Rightarrow> bool" where
  "legal_op fresh blks req_ok s (Alloc n r) = (fresh s n \<and> req_ok r)"
| "legal_op fresh blks req_ok s (Free n) = (blks s n \<noteq> None)"

fun legal_ops ::
  "('s \<Rightarrow> ('n, 'r) range_op \<Rightarrow> bool) \<Rightarrow> ('s \<Rightarrow> ('n, 'r) range_op \<Rightarrow> 's) \<Rightarrow> 's \<Rightarrow> ('n, 'r) range_op list \<Rightarrow> bool" where
  "legal_ops legal step s [] = True"
| "legal_ops legal step s (x # xs) = (legal s x \<and> legal_ops legal step (step s x) xs)"

definition apart :: "nat \<times> nat \<Rightarrow> nat \<times> nat \<Rightarrow> bool" where
  "apart p q \<longleftrightarrow> fst p + snd p \<le> fst q \<or> fst q + snd q \<le> fst p"

lemma apart_sym: "apart p q = apart q p"
  by (auto simp: apart_def)

locale range_allocator =
  fixes invar :: "'s \<Rightarrow> bool"
    and blks :: "'s \<Rightarrow> 'n \<Rightarrow> (nat \<times> nat) option"
    and rgn :: "'s \<Rightarrow> nat \<times> nat"
    and fresh :: "'s \<Rightarrow> 'n \<Rightarrow> bool"
    and req_ok :: "'r \<Rightarrow> bool"
    and len :: "'r \<Rightarrow> nat"
    and alloc :: "'s \<Rightarrow> 'n \<Rightarrow> 'r \<Rightarrow> 's option"
    and free :: "'s \<Rightarrow> 'n \<Rightarrow> 's option"
  assumes finite_blks: "invar s \<Longrightarrow> finite (dom (blks s))"
    and inside: "invar s \<Longrightarrow> blks s a = Some (x, l) \<Longrightarrow> fst (rgn s) \<le> x \<and> x + l \<le> snd (rgn s)"
    and disjoint: "invar s \<Longrightarrow> blks s a = Some p \<Longrightarrow> blks s b = Some q \<Longrightarrow> a \<noteq> b \<Longrightarrow> apart p q"
    and alloc_law: "invar s \<Longrightarrow> fresh s n \<Longrightarrow> req_ok r \<Longrightarrow> alloc s n r = Some s' \<Longrightarrow>
      invar s' \<and> rgn s' = rgn s \<and> (\<exists>x. blks s' = (blks s)(n \<mapsto> (x, len r)))"
    and free_law: "invar s \<Longrightarrow> blks s n \<noteq> None \<Longrightarrow>
      \<exists>s'. free s n = Some s' \<and> invar s' \<and> rgn s' = rgn s \<and> blks s' = (blks s)(n := None) \<and> fresh s' n"
    and fresh_unused: "invar s \<Longrightarrow> fresh s n \<Longrightarrow> blks s n = None"
begin

definition used :: "'s \<Rightarrow> nat" where
  "used s = (\<Sum>n \<in> dom (blks s). snd (the (blks s n)))"

lemma used_le_region:
  assumes "invar s"
  shows "used s \<le> snd (rgn s) - fst (rgn s)"
proof -
  let ?I = "\<lambda>n. {fst (the (blks s n))..<fst (the (blks s n)) + snd (the (blks s n))}"
  have "card (\<Union>n \<in> dom (blks s). ?I n) = (\<Sum>n \<in> dom (blks s). card (?I n))"
  proof (rule card_UN_disjoint)
    show "finite (dom (blks s))" by (rule finite_blks [OF assms])
    show "\<forall>i\<in>dom (blks s). finite (?I i)" by simp
    show "\<forall>i\<in>dom (blks s). \<forall>j\<in>dom (blks s). i \<noteq> j \<longrightarrow> ?I i \<inter> ?I j = {}"
    proof (intro ballI impI)
      fix i j assume "i \<in> dom (blks s)" "j \<in> dom (blks s)" "i \<noteq> j"
      then obtain p q where "blks s i = Some p" "blks s j = Some q" "apart p q"
        using disjoint [OF assms] by (metis domD)
      then show "?I i \<inter> ?I j = {}" by (auto simp: apart_def)
    qed
  qed
  moreover have "(\<Union>n \<in> dom (blks s). ?I n) \<subseteq> {fst (rgn s)..<snd (rgn s)}"
    using inside [OF assms] by fastforce
  then have "card (\<Union>n \<in> dom (blks s). ?I n) \<le> card {fst (rgn s)..<snd (rgn s)}"
    by (rule card_mono [OF finite_atLeastLessThan])
  ultimately show ?thesis by (simp add: used_def)
qed

lemma step_law:
  assumes "invar s" and "legal_op fresh blks req_ok s x"
  shows "invar (range_step alloc free s x) \<and> rgn (range_step alloc free s x) = rgn s"
proof (cases x)
  case (Alloc n r)
  with assms alloc_law [of s n r] show ?thesis by (auto split: option.splits)
next
  case (Free n)
  with assms free_law [of s n] show ?thesis by auto
qed

lemma run_law:
  assumes "invar s" and "legal_ops (legal_op fresh blks req_ok) (range_step alloc free) s xs"
  shows "invar (fold (\<lambda>x s. range_step alloc free s x) xs s) \<and>
    rgn (fold (\<lambda>x s. range_step alloc free s x) xs s) = rgn s"
  using assms
proof (induction xs arbitrary: s)
  case (Cons x xs)
  then show ?case using step_law [of s x] by simp
qed simp

text \<open>After any legal run, two holders never share an address, and the region bounds what is used.\<close>

theorem run_safe:
  assumes "invar s" and "legal_ops (legal_op fresh blks req_ok) (range_step alloc free) s xs"
    and "t = fold (\<lambda>x s. range_step alloc free s x) xs s"
  shows "a \<noteq> b \<Longrightarrow> blks t a = Some p \<Longrightarrow> blks t b = Some q \<Longrightarrow> apart p q"
    and "used t \<le> snd (rgn s) - fst (rgn s)"
proof -
  have t: "invar t" "rgn t = rgn s"
    using run_law [OF assms(1,2)] by (simp_all add: assms(3))
  show "a \<noteq> b \<Longrightarrow> blks t a = Some p \<Longrightarrow> blks t b = Some q \<Longrightarrow> apart p q"
    using disjoint [OF t(1)] by blast
  show "used t \<le> snd (rgn s) - fst (rgn s)"
    using used_le_region [OF t(1)] t(2) by simp
qed

lemma alloc_then_free:
  assumes "invar s" "fresh s n" "req_ok r" "alloc s n r = Some s'"
  shows "\<exists>s''. free s' n = Some s'' \<and> blks s'' = blks s \<and> rgn s'' = rgn s \<and> invar s''"
proof -
  obtain x where a: "invar s'" "rgn s' = rgn s" "blks s' = (blks s)(n \<mapsto> (x, len r))"
    using alloc_law [OF assms] by auto
  obtain s'' where "free s' n = Some s''" "invar s''" "rgn s'' = rgn s'" "blks s'' = (blks s')(n := None)"
    using free_law [of s' n] a by auto
  with a fresh_unused [OF assms(1,2)] show ?thesis by auto
qed

end

end
