(* ===== verification/Drm_Mm_Props.thy ===== *)
theory Drm_Mm_Props
  imports Drm_Mm_Inv Range_Alloc
begin

text \<open>
  What the range allocator promises, stated on the abstract state (\<open>blocks\<close> and \<open>region\<close>):
  insertion succeeds exactly when there is room, freeing is total, the totals of the debug table add
  up, and the allocator implements the interface \<open>range_allocator\<close>.
\<close>

subsection \<open>Room for a request\<close>

definition free_at :: "drm_mm \<Rightarrow> nat \<Rightarrow> nat \<Rightarrow> bool" where
  "free_at mm a l \<longleftrightarrow> fst (region mm) \<le> a \<and> a + l \<le> snd (region mm) \<and>
     (\<forall>b p. blocks mm b = Some p \<longrightarrow> apart (a, l) p)"

definition aligned :: "u32 \<Rightarrow> nat \<Rightarrow> bool" where
  "aligned al a \<longleftrightarrow> al = 0 \<or> unat al dvd a"

definition in_lim :: "(u64 \<times> u64) option \<Rightarrow> nat \<Rightarrow> nat \<Rightarrow> bool" where
  "in_lim lim a l \<longleftrightarrow> (case lim of None \<Rightarrow> True | Some (rs, re) \<Rightarrow> unat rs \<le> a \<and> a + l \<le> unat re)"

text \<open>The state after a successful allocation of \<open>[s, s + sz)\<close> for node \<open>n\<close>.\<close>

definition placed :: "drm_mm \<Rightarrow> drm_mm \<Rightarrow> nat \<Rightarrow> u64 \<Rightarrow> nat \<Rightarrow> bool" where
  "placed mm mm' n sz s \<longleftrightarrow> mm_inv mm' \<and> blocks mm' = (blocks mm)(n \<mapsto> (s, unat sz)) \<and>
     region mm' = region mm \<and> free_at mm s (unat sz)"

lemma fresh_blocks: "fresh_node mm n \<Longrightarrow> blocks mm n = None"
  by (auto simp: fresh_node_def blocks_def dest: list.set_sel(2) [rotated])
    (metis list.sel(2) list.set_sel(2))

lemma mm_inv_apart:
  "mm_inv mm \<Longrightarrow> blocks mm a = Some p \<Longrightarrow> blocks mm b = Some q \<Longrightarrow> a \<noteq> b \<Longrightarrow> apart p q"
  using mm_inv_blocks(2) [of mm a "fst p" "snd p" b "fst q" "snd q"] by (simp add: apart_def)

lemma placedI:
  assumes inv: "mm_inv mm'" and b: "blocks mm' = (blocks mm)(n \<mapsto> (s, unat sz))"
    and r: "region mm' = region mm" and n: "blocks mm n = None"
  shows "placed mm mm' n sz s"
proof -
  have bn: "blocks mm' n = Some (s, unat sz)" by (simp add: b)
  have "apart (s, unat sz) p" if "blocks mm m = Some p" for m p
  proof -
    have "m \<noteq> n" "blocks mm' m = Some p" using that n b by auto
    then show ?thesis using mm_inv_apart [OF inv bn] by auto
  qed
  with mm_inv_blocks(1) [OF inv bn] r show ?thesis
    by (auto simp: placed_def inv b free_at_def)
qed

lemma chain_gap:
  "chain N (x # ys) e \<Longrightarrow> unat (hole_node_start' (N x)) \<le> a \<Longrightarrow> a + l \<le> unat e \<Longrightarrow>
   (\<forall>y \<in> set ys. unat (start (N y)) + unat (size (N y)) < 2 ^ 64 \<and>
      apart (a, l) (unat (start (N y)), unat (size (N y)))) \<Longrightarrow>
   \<exists>as h bs. x # ys = as @ h # bs \<and> unat (hole_node_start' (N h)) \<le> a \<and> a + l \<le> unat (first_start N bs e)"
proof (induction ys arbitrary: x)
  case Nil
  then show ?case by (intro exI [of _ "[]"] exI [of _ x]) simp
next
  case (Cons y ys)
  show ?case
  proof (cases "a + l \<le> unat (start (N y))")
    case True
    with Cons.prems show ?thesis
      by (intro exI [of _ "[]"] exI [of _ x] exI [of _ "y # ys"]) simp
  next
    case False
    then have "unat (hole_node_start' (N y)) \<le> a"
      using Cons.prems(4) by (simp add: apart_def hole_node_start'_def unat_add_nowrap)
    moreover have "chain N (y # ys) e" using Cons.prems(1) by simp
    ultimately obtain as h bs where "y # ys = as @ h # bs" "unat (hole_node_start' (N h)) \<le> a"
      "a + l \<le> unat (first_start N bs e)"
      using Cons.IH [of y] Cons.prems by auto
    then show ?thesis
      by (intro exI [of _ "x # as"] exI [of _ h] exI [of _ bs]) simp
  qed
qed

text \<open>A free interval lies in one hole, which is on the stack.\<close>

lemma free_at_hole:
  assumes inv: "mm_inv mm" and f: "free_at mm a l" and l: "0 < l"
  obtains h where "h \<in> set (hole_stack mm)" "unat (hole_node_start' (nodes mm h)) \<le> a"
    "a + l \<le> unat (hole_node_end' mm h)"
proof -
  obtain ns where ns: "node_list mm = HEAD # ns" and ok: "\<forall>n \<in> set ns. block_ok (nodes mm n)"
    and ch: "chain (nodes mm) (HEAD # ns) (start (nodes mm HEAD))" and d: "distinct (HEAD # ns)"
    using inv by (auto simp: mm_inv_def)
  have "\<forall>y \<in> set ns. unat (start (nodes mm y)) + unat (size (nodes mm y)) < 2 ^ 64 \<and>
      apart (a, l) (unat (start (nodes mm y)), unat (size (nodes mm y)))"
  proof
    fix y assume y: "y \<in> set ns"
    then have "blocks mm y = Some (unat (start (nodes mm y)), unat (size (nodes mm y)))"
      using ns by (simp add: blocks_def)
    with y ok f show "unat (start (nodes mm y)) + unat (size (nodes mm y)) < 2 ^ 64 \<and>
        apart (a, l) (unat (start (nodes mm y)), unat (size (nodes mm y)))"
      by (simp only: free_at_def block_ok_def)
  qed
  then obtain as h bs where sp: "HEAD # ns = as @ h # bs" "unat (hole_node_start' (nodes mm h)) \<le> a"
      "a + l \<le> unat (first_start (nodes mm) bs (start (nodes mm HEAD)))"
    using chain_gap [OF ch, of a l] f by (auto simp: free_at_def region_def)
  have hin: "h \<in> set (node_list mm)" using sp(1) ns by simp
  have "h \<notin> set as" using sp(1) d by auto
  then have "ring_next (node_list mm) h = (case bs of [] \<Rightarrow> HEAD | y # _ \<Rightarrow> y)"
    using ring_next_split [OF trans [OF ns sp(1)]] ns by (cases bs) simp_all
  then have he: "hole_node_end' mm h = first_start (nodes mm) bs (start (nodes mm HEAD))"
    by (cases bs) (simp_all add: hole_node_end'_def)
  have "hole_ok (nodes mm h) (hole_node_end' mm h)"
    using mm_inv_split [OF inv hin] by blast
  then have "hole_follows (nodes mm h)"
    using sp he l by (auto simp: hole_ok_def word_less_nat_alt)
  with hin inv sp he show thesis
    by (intro that [of h]) (auto simp: mm_inv_def)
qed

text \<open>Without colours, a hole around a free and suitable interval passes the test of the search.\<close>

lemma free_at_fits:
  assumes inv: "mm_inv mm" and col: "color_adjust mm = None" and f: "free_at mm a (unat sz)"
    and sz: "sz \<noteq> 0" and al: "aligned al a" and lim: "in_lim lim a (unat sz)"
    and range: "\<forall>rs re. lim = Some (rs, re) \<longrightarrow> range_args_ok mm sz rs"
  shows "\<exists>h \<in> set (hole_stack mm). fits mm sz al c lim h"
proof -
  obtain h where h: "h \<in> set (hole_stack mm)" "unat (hole_node_start' (nodes mm h)) \<le> a"
    "a + unat sz \<le> unat (hole_node_end' mm h)"
    using free_at_hole [OF inv f] sz by (metis unat_gt_0)
  let ?hs = "hole_node_start' (nodes mm h)" and ?he = "hole_node_end' mm h"
  define s e where "s = (case lim of None \<Rightarrow> ?hs | Some (rs, re) \<Rightarrow> if ?hs < rs then rs else ?hs)"
    and "e = (case lim of None \<Rightarrow> ?he | Some (rs, re) \<Rightarrow> if re < ?he then re else ?he)"
  have win: "hole_window mm c lim h = (s, e)"
    by (auto simp: hole_window_def call_color_adjust_def col s_def e_def split: option.splits)
  have sa: "unat s \<le> a" and ae: "a + unat sz \<le> unat e"
    using h lim by (auto simp: s_def e_def in_lim_def split: option.splits)
  have E: "unat (start (nodes mm HEAD)) + 2 ^ 32 \<le> 2 ^ 64"
    using inv by (simp add: mm_inv_def)
  have "e \<le> ?he"
    by (auto simp: e_def split: option.splits)
  moreover have "?he \<le> start (nodes mm HEAD)"
    using mm_inv_hole_end_le [OF inv, of h] h(1) inv by (auto simp: mm_inv_def)
  ultimately have cond: "s \<le> e \<and> unat e + 2 ^ 32 \<le> 2 ^ 64"
    using sa ae E by (auto simp: word_le_nat_alt)
  then have "unat s + 2 ^ 32 \<le> 2 ^ 64"
    by (auto simp: word_le_nat_alt)
  from align_start_spec(4) [OF this sa, of al] al have "unat (align_start s al) \<le> a"
    by (simp add: aligned_def)
  then have "check_free_hole s e sz al"
    using check_free_hole_iff [OF disjI1 [OF cond]] ae by simp
  with win col have "fits mm sz al c lim h"
    by (simp add: fits_def)
  with h(1) show ?thesis by blast
qed

subsection \<open>Insertion\<close>

definition insert_lim :: "drm_mm \<Rightarrow> nat \<Rightarrow> u64 \<Rightarrow> u32 \<Rightarrow> u64 \<Rightarrow> (u64 \<times> u64) option \<Rightarrow> drm_mm result" where
  "insert_lim mm n sz al col lim =
     (case lim of None \<Rightarrow> drm_mm_insert_node_generic mm n sz al col
      | Some (rs, re) \<Rightarrow> drm_mm_insert_node_in_range_generic mm n sz al col rs re)"

text \<open>Both flavours: the first fitting hole of the stack is used, otherwise \<open>-ENOSPC\<close>.\<close>

lemma insert_lim_cases:
  assumes inv: "mm_inv mm" and law: "color_law mm" and n: "fresh_node mm n" and sz: "sz \<noteq> 0"
    and range: "\<forall>rs re. lim = Some (rs, re) \<longrightarrow> range_args_ok mm sz rs"
  obtains (full) "insert_lim mm n sz al col lim = Inl ENOSPC" "\<forall>h \<in> set (hole_stack mm). \<not> fits mm sz al col lim h"
  | (ok) s mm' where "insert_lim mm n sz al col lim = Inr mm'" "placed mm mm' n sz s"
      "aligned al s" "in_lim lim s (unat sz)" "color (nodes mm' n) = col"
      "color_adjust mm' = color_adjust mm" "unused_nodes mm' = unused_nodes mm" "num_unused mm' = num_unused mm"
      "\<forall>m. fresh_node mm m \<longrightarrow> m \<noteq> n \<longrightarrow> fresh_node mm' m"
proof -
  have hf: "\<forall>h \<in> set (hole_stack mm). hole_follows (nodes mm h)" and sb: "scanned_blocks mm = 0"
    using inv by (auto simp: mm_inv_def)
  note srch = search_holes_first [OF hf]
  show thesis
  proof (cases "find (fits mm sz al col lim) (hole_stack mm)")
    case None
    show thesis
    proof (rule full)
      show "insert_lim mm n sz al col lim = Inl ENOSPC"
        using None sb srch
        by (auto simp: insert_lim_def drm_mm_insert_node_generic_def drm_mm_insert_node_in_range_generic_def
            drm_mm_search_free_generic_def drm_mm_search_free_in_range_generic_def split: option.splits)
      show "\<forall>h \<in> set (hole_stack mm). \<not> fits mm sz al col lim h"
        using None by (simp add: find_None_iff)
    qed
  next
    case (Some h)
    then have h: "h \<in> set (hole_stack mm)" "fits mm sz al col lim h"
      by (auto simp: find_Some_iff)
    have eq: "insert_lim mm n sz al col lim =
        (case lim of None \<Rightarrow> drm_mm_insert_helper h n sz al col mm
         | Some (rs, re) \<Rightarrow> drm_mm_insert_helper_range h n sz al col rs re mm)"
      using Some sb srch
      by (auto simp: insert_lim_def drm_mm_insert_node_generic_def drm_mm_insert_node_in_range_generic_def
          drm_mm_search_free_generic_def drm_mm_search_free_in_range_generic_def split: option.splits)
    show thesis
    proof (rule insert_into_fitting [OF inv law h(1) n sz h(2) range], fold eq)
      fix s :: u64 and mm'
      assume a: "insert_lim mm n sz al col lim = Inr mm'" "mm_inv mm'"
        "blocks mm' = (blocks mm)(n \<mapsto> (unat s, unat sz))" "region mm' = region mm"
        "al \<noteq> 0 \<longrightarrow> unat al dvd unat s" "color (nodes mm' n) = col"
        and l: "\<And>rs re. lim = Some (rs, re) \<Longrightarrow> unat rs \<le> unat s \<and> unat s + unat sz \<le> unat re"
        and m: "\<And>m. fresh_node mm m \<Longrightarrow> m \<noteq> n \<Longrightarrow> fresh_node mm' m"
        and c: "color_adjust mm' = color_adjust mm" "unused_nodes mm' = unused_nodes mm" "num_unused mm' = num_unused mm"
      show thesis
      proof (rule ok [OF a(1) placedI [OF a(2-4) fresh_blocks [OF n]] _ _ a(6) c])
        show "aligned al (unat s)" using a(5) by (auto simp: aligned_def)
        show "in_lim lim (unat s) (unat sz)" using l by (auto simp: in_lim_def split: option.splits)
        show "\<forall>m. fresh_node mm m \<longrightarrow> m \<noteq> n \<longrightarrow> fresh_node mm' m" using m by blast
      qed
    qed
  qed
qed

text \<open>A freshly started allocator for \<open>[4096, 69632)\<close>, for examples.\<close>

definition mm_zero :: drm_mm where
  "mm_zero = \<lparr>nodes = (\<lambda>_. zero_node), node_list = [], hole_stack = [], unused_nodes = [], num_unused = 0,
     scan_check_range = False, scan_alignment = 0, scan_color = 0, scan_size = 0, scan_hit_start = 0,
     scan_hit_end = 0, scanned_blocks = 0, scan_start = 0, scan_end = 0, prev_scanned_node = None,
     scan_prev = (\<lambda>_. 0), color_adjust = None\<rparr>"

definition mm_example :: drm_mm where
  "mm_example = drm_mm_init 4096 65536 mm_zero"

lemma mm_example_facts:
  "mm_inv mm_example" "blocks mm_example = Map.empty" "region mm_example = (4096, 69632)"
  "color_adjust mm_example = None" "color_law mm_example" "fresh_node mm_example 1" "fresh_node mm_example 2"
  "start (nodes mm_example HEAD) = 69632" "node_list mm_example = [HEAD]" "unused_nodes mm_example = []"
proof -
  show c: "color_adjust mm_example = None" "node_list mm_example = [HEAD]" "unused_nodes mm_example = []"
    by (simp_all add: mm_example_def drm_mm_init_def Let_def)
  then show "color_law mm_example" by (simp add: color_law_def)
  show "mm_inv mm_example" "blocks mm_example = Map.empty" "region mm_example = (4096, 69632)"
    using drm_mm_init_inv [of 65536 4096 mm_zero] by (simp_all add: mm_example_def)
  show "start (nodes mm_example HEAD) = 69632" "fresh_node mm_example 1" "fresh_node mm_example 2"
    by (simp_all add: mm_example_def drm_mm_init_def Let_def fresh_node_def node_clear_def HEAD_def
        mm_zero_def zero_node_def)
qed



text \<open>
  The same for a request that is restricted to \<open>[rs, re)\<close>: a block that is placed also lies
  in that window, and without a colour callback \<open>-ENOSPC\<close> means that no aligned free interval of the
  size lies in it. The hypothesis excludes requests whose end could wrap around.
\<close>

theorem drm_mm_insert_node_in_range_correct:
  assumes "mm_inv mm" "color_law mm" "fresh_node mm n" "sz \<noteq> 0" "range_args_ok mm sz rs"
  shows "(\<exists>s mm'. drm_mm_insert_node_in_range_generic mm n sz al col rs re = Inr mm' \<and> placed mm mm' n sz s \<and>
            aligned al s \<and> unat rs \<le> s \<and> s + unat sz \<le> unat re)
       \<or> (drm_mm_insert_node_in_range_generic mm n sz al col rs re = Inl ENOSPC \<and>
            (color_adjust mm = None \<longrightarrow>
               (\<forall>a. aligned al a \<longrightarrow> unat rs \<le> a \<longrightarrow> a + unat sz \<le> unat re \<longrightarrow> \<not> free_at mm a (unat sz))))"
proof -
  have eq: "insert_lim mm n sz al col (Some (rs, re)) = drm_mm_insert_node_in_range_generic mm n sz al col rs re"
    by (simp add: insert_lim_def)
  have r: "\<forall>rs' re'. Some (rs, re) = Some (rs', re') \<longrightarrow> range_args_ok mm sz rs'"
    using assms(5) by simp
  show ?thesis
  proof (rule insert_lim_cases [OF assms(1-4) r, of al col, unfolded eq])
    assume "\<forall>h \<in> set (hole_stack mm). \<not> fits mm sz al col (Some (rs, re)) h"
    then have "\<not> free_at mm a (unat sz)" if "color_adjust mm = None" "aligned al a" "unat rs \<le> a" "a + unat sz \<le> unat re" for a
      using free_at_fits [OF assms(1) that(1) _ assms(4) that(2) _ r] that by (auto simp: in_lim_def)
    then show "drm_mm_insert_node_in_range_generic mm n sz al col rs re = Inl ENOSPC \<Longrightarrow> ?thesis" by blast
  qed (simp add: in_lim_def, blast)
qed

theorem drm_mm_insert_node_in_range_correct_witness:
  "(\<exists>s mm'. drm_mm_insert_node_in_range_generic mm_example 1 8192 4096 3 10000 30000 = Inr mm' \<and>
      placed mm_example mm' 1 8192 s \<and> aligned 4096 s \<and> 10000 \<le> s \<and> s + 8192 \<le> 30000)"
proof -
  have "free_at mm_example 12288 (unat (8192 :: u64))" "aligned 4096 12288" "range_args_ok mm_example 8192 10000"
    by (simp_all add: free_at_def aligned_def mm_example_facts range_args_ok_def)
  then show ?thesis
    using drm_mm_insert_node_in_range_correct [of mm_example 1 8192 10000 4096 3 30000] mm_example_facts by force
qed

subsection \<open>Freeing\<close>

text \<open>
  Removing a block that is handed out never trips an assertion: the block disappears, every
  other block stays, the invariant holds, the structure can be used again, and the hole that
  contains the freed space is the first one the next search looks at.
\<close>

theorem drm_mm_remove_node_correct:
  assumes "mm_inv mm" and "blocks mm n = Some (x, l)"
  shows "\<exists>mm'. drm_mm_remove_node n mm = Inr mm' \<and> mm_inv mm' \<and> blocks mm' = (blocks mm)(n := None) \<and>
     region mm' = region mm \<and> fresh_node mm' n \<and> free_at mm' x l \<and>
     hd (hole_stack mm') = ring_prev (node_list mm) n"
proof -
  have nn: "blocks mm n \<noteq> None" using assms(2) by simp
  obtain mm' where r: "drm_mm_remove_node n mm = Inr mm'" "mm_inv mm'" "blocks mm' = (blocks mm)(n := None)"
    "region mm' = region mm" "fresh_node mm' n" "hd (hole_stack mm') = ring_prev (node_list mm) n"
    using remove_node_spec [OF assms(1) nn] by metis
  have "free_at mm' x l"
    using mm_inv_blocks(1) [OF assms] mm_inv_apart [OF assms(1,2)] r(3,4) by (auto simp: free_at_def split: if_splits)
  with r show ?thesis by blast
qed

lemma mm_example_insert:
  obtains mm' s where "drm_mm_insert_node_generic mm_example 1 8192 4096 3 = Inr mm'" "mm_inv mm'"
    "blocks mm' = [1 \<mapsto> (s, 8192)]" "color_adjust mm' = None" "fresh_node mm' 2" "node_list mm' = [HEAD, 1]"
    "region mm' = (4096, 69632)"
proof -
  define mm' where "mm' = insert_at HEAD 1 4096 69632 4096 8192 3 mm_example"
  have h: "hole_node_start' (nodes mm_example HEAD) = 4096" "hole_follows (nodes mm_example HEAD)"
    "hole_stack mm_example = [HEAD]" "scanned_blocks mm_example = 0" "hole_node_end' mm_example HEAD = 69632"
    "\<not> allocated (nodes mm_example 1)"
    by (simp_all add: mm_example_def drm_mm_init_def Let_def hole_node_start'_def hole_node_end'_def ring_next_def
        HEAD_def mm_zero_def zero_node_def)
  have eq: "drm_mm_insert_node_generic mm_example 1 8192 4096 3 = Inr mm'"
    by (simp add: drm_mm_insert_node_generic_def drm_mm_search_free_generic_def h mm_example_facts
        drm_mm_hole_node_start_def drm_mm_hole_node_end_def Let_def call_color_adjust_def check_free_hole_def
        align_start_def drm_mm_insert_helper_def mm'_def del: One_nat_def)
  have HEAD1: "HEAD \<noteq> 1" by (simp add: HEAD_def)
  have fr: "1 \<notin> set (node_list mm_example)" "node_clear (nodes mm_example 1)" "HEAD \<in> set (node_list mm_example)"
    using mm_example_facts(6) by (simp_all add: fresh_node_def mm_example_facts)
  have inv: "mm_inv mm'"
    unfolding mm'_def
    by (rule insert_at_inv [OF mm_example_facts(1) fr(3) h(2) fr(1,2)]) (simp_all add: h)
  note b = insert_at_blocks [OF mm_example_facts(1) fr(3,1), of 4096 69632 4096 8192 3, folded mm'_def]
  show thesis
  proof (rule that [OF eq inv])
    show "blocks mm' = [1 \<mapsto> (4096, 8192)]" using b(1) by (simp add: mm_example_facts)
    show "region mm' = (4096, 69632)" using b(2) by (simp add: mm_example_facts)
    show "color_adjust mm' = None" "node_list mm' = [HEAD, 1]"
      by (simp_all add: mm'_def insert_at_fields [OF HEAD1] mm_example_facts del: One_nat_def)
    show "fresh_node mm' 2"
      unfolding mm'_def
      by (rule insert_at_blocks(3) [OF mm_example_facts(1) fr(3,1)]) (simp_all add: mm_example_facts)
  qed
qed

theorem drm_mm_remove_node_correct_witness:
  "\<exists>mm x l mm'. mm_inv mm \<and> blocks mm 1 = Some (x, l) \<and> drm_mm_remove_node 1 mm = Inr mm' \<and> free_at mm' x l"
proof (rule mm_example_insert)
  fix mm' s assume m: "mm_inv mm'" "blocks mm' = [1 \<mapsto> (s, 8192)]"
  then have b: "blocks mm' 1 = Some (s, 8192)" by simp
  from drm_mm_remove_node_correct [OF m(1) b] m(1) b show ?thesis by blast
qed

subsection \<open>The interface of a range allocator\<close>

definition mm_state :: "drm_mm \<Rightarrow> bool" where
  "mm_state mm \<longleftrightarrow> mm_inv mm \<and> color_law mm"

definition mm_alloc :: "drm_mm \<Rightarrow> nat \<Rightarrow> u64 \<times> u32 \<Rightarrow> drm_mm option" where
  "mm_alloc mm n r = (case drm_mm_insert_node mm n (fst r) (snd r) of Inl _ \<Rightarrow> None | Inr mm' \<Rightarrow> Some mm')"

definition mm_free :: "drm_mm \<Rightarrow> nat \<Rightarrow> drm_mm option" where
  "mm_free mm n = (case drm_mm_remove_node n mm of Inl _ \<Rightarrow> None | Inr mm' \<Rightarrow> Some mm')"

lemma mm_alloc_law:
  assumes "mm_state mm" "fresh_node mm n" "fst r \<noteq> 0" "mm_alloc mm n r = Some mm'"
  shows "mm_state mm' \<and> region mm' = region mm \<and> (\<exists>x. blocks mm' = (blocks mm)(n \<mapsto> (x, unat (fst r))))"
proof -
  have a: "mm_inv mm" "color_law mm" using assms(1) by (simp_all add: mm_state_def)
  have eq: "insert_lim mm n (fst r) (snd r) 0 None = drm_mm_insert_node mm n (fst r) (snd r)"
    by (simp add: insert_lim_def drm_mm_insert_node_def)
  show ?thesis
    by (rule insert_lim_cases [OF a assms(2,3), of None "snd r" 0, unfolded eq])
      (use assms(4) a in \<open>auto simp: mm_alloc_def mm_state_def placed_def color_law_def\<close>)
qed

lemma mm_free_law:
  assumes "mm_state mm" "blocks mm n \<noteq> None"
  shows "\<exists>mm'. mm_free mm n = Some mm' \<and> mm_state mm' \<and> region mm' = region mm \<and>
    blocks mm' = (blocks mm)(n := None) \<and> fresh_node mm' n"
proof -
  have a: "mm_inv mm" "color_law mm" using assms(1) by (simp_all add: mm_state_def)
  show ?thesis
    by (rule remove_node_spec [OF a(1) assms(2)])
      (use a(2) in \<open>auto simp: mm_free_def mm_state_def color_law_def\<close>)
qed

interpretation mma: range_allocator mm_state blocks region fresh_node "\<lambda>r. fst r \<noteq> 0" "\<lambda>r. unat (fst r)" mm_alloc mm_free
proof (unfold_locales, goal_cases)
  case (1 s)
  then show ?case by (intro finite_subset [OF _ finite_set [of "tl (node_list s)"]]) (auto simp: blocks_def split: if_splits)
next
  case (2 s a x l)
  then show ?case using mm_inv_blocks(1) [of s a x l] by (simp add: mm_state_def)
next
  case (3 s a p b q)
  then show ?case by (intro mm_inv_apart [of s a p b q]) (simp_all add: mm_state_def)
next
  case (4 s n r s')
  then show ?case by (intro mm_alloc_law)
next
  case (5 s n)
  then show ?case by (intro mm_free_law)
next
  case (6 s n)
  then show ?case by (intro fresh_blocks)
qed

text \<open>
  Claim C19. Start from an initialised allocator and let callers allocate with unused structures and
  free what they hold, in any order: no two live blocks ever overlap, all lie in the range given to
  \<open>drm_mm_init\<close>, and their sizes never add up to more than it.
\<close>

theorem drm_mm_run_safe:
  assumes "sz \<noteq> 0" "unat rstart + unat sz + 2 ^ 32 \<le> 2 ^ 64"
    and "legal_ops (legal_op fresh_node blocks (\<lambda>r. fst r \<noteq> 0)) (range_step mm_alloc mm_free) (drm_mm_init rstart sz mm) xs"
    and "t = fold (\<lambda>x s. range_step mm_alloc mm_free s x) xs (drm_mm_init rstart sz mm)"
  shows "(\<forall>a b p q. a \<noteq> b \<and> blocks t a = Some p \<and> blocks t b = Some q \<longrightarrow> apart p q) \<and>
    (\<forall>a x l. blocks t a = Some (x, l) \<longrightarrow> unat rstart \<le> x \<and> x + l \<le> unat rstart + unat sz) \<and>
    (\<Sum>n \<in> dom (blocks t). snd (the (blocks t n))) \<le> unat sz"
proof -
  have inv: "mm_state (drm_mm_init rstart sz mm)"
    using drm_mm_init_inv(1) [OF assms(1,2)] by (simp add: mm_state_def color_law_def drm_mm_init_def Let_def)
  note rg = drm_mm_init_inv(3) [OF assms(1,2)]
  have t: "mm_state t" "region t = (unat rstart, unat rstart + unat sz)"
    using mma.run_law [OF inv assms(3)] rg by (simp_all add: assms(4))
  show ?thesis
    using mma.run_safe [OF inv assms(3,4)] mma.inside [OF t(1)] t(2) rg
    by (auto simp: mma.used_def)
qed

theorem drm_mm_run_safe_witness:
  "\<exists>t. t = fold (\<lambda>x s. range_step mm_alloc mm_free s x) [Alloc 1 (8192, 4096)] mm_example \<and>
     (\<Sum>n \<in> dom (blocks t). snd (the (blocks t n))) \<le> 65536"
proof -
  have "legal_ops (legal_op fresh_node blocks (\<lambda>r. fst r \<noteq> 0)) (range_step mm_alloc mm_free) (drm_mm_init 4096 65536 mm_zero)
      [Alloc 1 (8192, 4096)]"
    using mm_example_facts(6) by (simp add: mm_example_def)
  from drm_mm_run_safe [OF _ _ this refl] show ?thesis
    by (simp add: mm_example_def)
qed

subsection \<open>Reserving a fixed interval\<close>

text \<open>The reserve of structures: counted correctly, unlinked, cleared, without repetition.\<close>

definition reserve_ok :: "drm_mm \<Rightarrow> bool" where
  "reserve_ok mm \<longleftrightarrow> num_unused mm = int (length (unused_nodes mm)) \<and> distinct (unused_nodes mm) \<and>
     (\<forall>n \<in> set (unused_nodes mm). fresh_node mm n)"

text \<open>What \<open>kzalloc\<close> returns is not in use.\<close>

definition kz_ok :: "nat option \<Rightarrow> drm_mm \<Rightarrow> bool" where
  "kz_ok kz mm \<longleftrightarrow> (\<forall>c. kz = Some c \<longrightarrow> c \<notin> set (node_list mm) \<and> c \<notin> set (unused_nodes mm))"

lemma kmalloc_spec:
  assumes inv: "mm_inv mm" and res: "reserve_ok mm" and kz: "kz_ok kz mm"
  obtains (none) "drm_mm_kmalloc kz mm = (None, mm)" "kz = None" "unused_nodes mm = []"
  | (some) n mm' where "drm_mm_kmalloc kz mm = (Some n, mm')" "mm_inv mm'" "reserve_ok mm'" "fresh_node mm' n"
      "n \<notin> set (unused_nodes mm')" "blocks mm' = blocks mm" "region mm' = region mm" "hole_stack mm' = hole_stack mm"
      "\<forall>h \<in> set (node_list mm). nodes mm' h = nodes mm h" "node_list mm' = node_list mm" "color_adjust mm' = color_adjust mm"
proof (cases kz)
  case (Some c)
  have c: "c \<notin> set (node_list mm)" "c \<notin> set (unused_nodes mm)" using kz Some by (auto simp: kz_ok_def)
  let ?mm = "upd_node c (\<lambda>_. zero_node) mm"
  have same: "\<forall>h \<in> set (node_list mm). nodes ?mm h = nodes mm h" using c by auto
  have HEADc: "HEAD \<noteq> c" using inv c by (auto simp: mm_inv_def)
  have tlc: "c \<notin> set (tl (node_list mm))" using c mm_inv_tl [OF inv] by auto
  have "chain (nodes ?mm) (node_list mm) e = chain (nodes mm) (node_list mm) e" for e
    by (rule chain_cong) (use same in simp)
  then have inv': "mm_inv ?mm"
    using inv c HEADc by (auto simp: mm_inv_def)
  show thesis
  proof (rule some [of c ?mm])
    show "drm_mm_kmalloc kz mm = (Some c, ?mm)" by (simp add: drm_mm_kmalloc_def Some)
    show "reserve_ok ?mm" using res c by (auto simp: reserve_ok_def fresh_node_def)
    show "fresh_node ?mm c" using c by (simp add: fresh_node_def node_clear_def zero_node_def)
    show "blocks ?mm = blocks mm" using tlc by (auto simp: blocks_def fun_eq_iff)
    show "region ?mm = region mm" using HEADc by (simp add: region_def)
  qed (use c same inv' in simp_all)
next
  case None
  show thesis
  proof (cases "unused_nodes mm")
    case Nil
    then show thesis by (intro none) (simp_all add: drm_mm_kmalloc_def None)
  next
    case (Cons c cs)
    let ?mm = "mm\<lparr>unused_nodes := cs, num_unused := num_unused mm - 1\<rparr>"
    show thesis
    proof (rule some [of c ?mm])
      show "drm_mm_kmalloc kz mm = (Some c, ?mm)" by (simp add: drm_mm_kmalloc_def None Cons)
      show "reserve_ok ?mm" "fresh_node ?mm c" "c \<notin> set (unused_nodes ?mm)"
        using res Cons by (auto simp: reserve_ok_def fresh_node_def)
      show "mm_inv ?mm" using inv by (simp add: mm_inv_def)
    qed (simp_all add: blocks_def region_def fun_eq_iff)
  qed
qed

text \<open>The loop's work on the hole it picks is \<open>insert_at\<close>, with the colour left as it is.\<close>

lemma create_block_loop_pick:
  assumes "\<forall>h \<in> set hs. hole_follows (nodes mm h)"
  shows "create_block_loop kz mm bstart sz hs =
    (case find (\<lambda>h. hole_node_start' (nodes mm h) \<le> bstart \<and> bstart + sz \<le> hole_node_end' mm h) hs of
       None \<Rightarrow> Inr (None, mm)
     | Some h \<Rightarrow> create_block_loop kz mm bstart sz [h])"
  using assms
  by (induction hs) (auto simp: drm_mm_hole_node_start_def drm_mm_hole_node_end_def Let_def not_less)

lemma create_block_loop_insert:
  assumes "hole_follows (nodes mm h)" "hole_node_start' (nodes mm h) \<le> bstart" "bstart + sz \<le> hole_node_end' mm h"
    and "drm_mm_kmalloc kz mm = (Some n, mm1)" "h \<noteq> n" "nodes mm1 h = nodes mm h"
  shows "create_block_loop kz mm bstart sz [h] =
    Inr (Some n, insert_at h n (hole_node_start' (nodes mm h)) (hole_node_end' mm h) bstart sz (color (nodes mm1 n)) mm1)"
proof -
  have lt: "(bstart + sz \<noteq> hole_node_end' mm h) = (bstart + sz < hole_node_end' mm h)"
    using assms(3) by auto
  have ns: "\<not> bstart < hole_node_start' (nodes mm h)" "\<not> hole_node_end' mm h < bstart + sz"
    using assms(2,3) by auto
  show ?thesis
    using assms(1,4,5,6) ns lt
    by (auto simp: drm_mm_hole_node_start_def drm_mm_hole_node_end_def Let_def insert_at_def upd_node_def
        hole_node_start'_def fun_upd_twist)
qed

lemma hole_node_end_le:
  assumes "mm_inv mm" "h \<in> set (hole_stack mm)"
  shows "h \<in> set (node_list mm)" "hole_follows (nodes mm h)"
    "unat (hole_node_end' mm h) \<le> snd (region mm)"
  using assms mm_inv_hole_end_le [of mm h] by (auto simp: mm_inv_def region_def word_le_nat_alt)

text \<open>
  \<open>drm_mm_create_block\<close> reserves exactly the interval asked for: it returns a node that
  now holds it, or NULL with nothing changed, the latter exactly when the interval is not entirely
  free or no structure can be had. The invariant and the reserve's bookkeeping are kept.
\<close>

theorem drm_mm_create_block_correct:
  assumes inv: "mm_inv mm" and res: "reserve_ok mm" and kz: "kz_ok kz mm"
    and sz: "sz \<noteq> 0" and nw: "unat bstart + unat sz < 2 ^ 64"
  shows "(\<exists>n mm'. drm_mm_create_block kz mm bstart sz = Inr (Some n, mm') \<and> placed mm mm' n sz (unat bstart) \<and>
            blocks mm n = None \<and> reserve_ok mm' \<and> free_at mm (unat bstart) (unat sz))
       \<or> (drm_mm_create_block kz mm bstart sz = Inr (None, mm) \<and>
            (\<not> free_at mm (unat bstart) (unat sz) \<or> kz = None \<and> unused_nodes mm = []))"
proof -
  let ?P = "\<lambda>h. hole_node_start' (nodes mm h) \<le> bstart \<and> bstart + sz \<le> hole_node_end' mm h"
  have hf: "\<forall>h \<in> set (hole_stack mm). hole_follows (nodes mm h)" using inv by (auto simp: mm_inv_def)
  note pick = create_block_loop_pick [OF hf, of kz bstart sz, folded drm_mm_create_block_def]
  have fin: "unat (bstart + sz) = unat bstart + unat sz" using nw by (simp add: unat_add_nowrap)
  show ?thesis
  proof (cases "find ?P (hole_stack mm)")
    case None
    have "\<not> free_at mm (unat bstart) (unat sz)"
    proof
      assume "free_at mm (unat bstart) (unat sz)"
      then obtain h where "h \<in> set (hole_stack mm)" "?P h"
        using free_at_hole [OF inv] sz fin by (metis unat_gt_0 word_le_nat_alt)
      with None show False by (auto simp: find_None_iff)
    qed
    with None pick show ?thesis by simp
  next
    case (Some h)
    then have h: "h \<in> set (hole_stack mm)" "?P h" by (auto simp: find_Some_iff)
    note hl = hole_node_end_le [OF inv h(1)]
    show ?thesis
    proof (rule kmalloc_spec [OF inv res kz], goal_cases none some)
      case none
      then have "drm_mm_create_block kz mm bstart sz = Inr (None, mm)"
        using pick Some h hl by (simp add: drm_mm_hole_node_start_def drm_mm_hole_node_end_def Let_def)
      with none show ?thesis by simp
    next
      case (some n mm1)
      have hn: "h \<noteq> n" "n \<notin> set (node_list mm1)" using some(4,10) hl(1) by (auto simp: fresh_node_def)
      let ?mm = "insert_at h n (hole_node_start' (nodes mm h)) (hole_node_end' mm h) bstart sz (color (nodes mm1 n)) mm1"
      have eq: "drm_mm_create_block kz mm bstart sz = Inr (Some n, ?mm)"
        using pick Some create_block_loop_insert [OF hl(2) _ _ some(1) hn(1)] h(2) some(9) hl(1) by simp
      have he: "hole_node_end' mm1 h = hole_node_end' mm h"
        using some(9,10) ring_next_mem [OF hl(1)] by (simp add: hole_node_end'_def)
      have inv': "mm_inv ?mm"
        by (rule insert_at_inv [OF some(2)]) (use some(4,9,10) hl h(2) fin nw sz he in \<open>auto simp: fresh_node_def\<close>)
      have b: "blocks ?mm = (blocks mm)(n \<mapsto> (unat bstart, unat sz))" "region ?mm = region mm"
        using insert_at_blocks(1,2) [OF some(2) _ hn(2)] hl(1) some(6,7,10) by simp_all
      have bn: "blocks mm n = None" using fresh_blocks [OF some(4)] some(6) by simp
      have "reserve_ok ?mm"
        using some(3,5) hl(1) some(10)
        by (auto simp: reserve_ok_def insert_at_fields [OF hn(1)] intro!: insert_at_blocks(3) [OF some(2) _ hn(2)])
      moreover have "placed mm ?mm n sz (unat bstart)" by (rule placedI [OF inv' b bn])
      ultimately show ?thesis using eq bn by (auto simp: placed_def)
    qed
  qed
qed

theorem drm_mm_create_block_correct_witness:
  "(\<exists>n mm'. drm_mm_create_block (Some 5) mm_example 8192 4096 = Inr (Some n, mm') \<and>
      placed mm_example mm' n 4096 8192 \<and> reserve_ok mm')"
proof -
  have "num_unused mm_example = 0" by (simp add: mm_example_def drm_mm_init_def Let_def)
  then have "reserve_ok mm_example" "kz_ok (Some 5) mm_example" "free_at mm_example 8192 4096"
    by (simp_all add: reserve_ok_def kz_ok_def mm_example_facts HEAD_def free_at_def)
  then show ?thesis
    using drm_mm_create_block_correct [of mm_example "Some 5" 4096 8192] mm_example_facts(1) by auto
qed

subsection \<open>Accounting\<close>

lemma debug_table_loop_sum:
  "debug_table_loop mm xs u f =
     (u + (\<Sum>x\<leftarrow>xs. size (nodes mm x)), f + (\<Sum>x\<leftarrow>xs. drm_mm_debug_hole mm x))"
  by (induction xs arbitrary: u f) (simp_all add: add.assoc)

lemma debug_hole_value:
  assumes "mm_inv mm" "h \<in> set (node_list mm)"
  shows "drm_mm_debug_hole mm h = hole_node_end' mm h - hole_node_start' (nodes mm h)"
proof -
  have "hole_ok (nodes mm h) (hole_node_end' mm h)"
    using mm_inv_split [OF assms] by blast
  then show ?thesis by (auto simp: drm_mm_debug_hole_def hole_ok_def)
qed

text \<open>From a node on, sizes and holes telescope to the distance from its end to the end of the range.\<close>

lemma debug_telescope:
  assumes "mm_inv mm" "node_list mm = as @ x # ys"
  shows "drm_mm_debug_hole mm x + (\<Sum>y\<leftarrow>ys. size (nodes mm y) + drm_mm_debug_hole mm y)
    = start (nodes mm HEAD) - hole_node_start' (nodes mm x)"
  using assms(2)
proof (induction ys arbitrary: as x)
  case Nil
  have "distinct (as @ [x])" "hd (as @ [x]) = HEAD" using assms(1) Nil by (auto simp: mm_inv_def)
  then have "hole_node_end' mm x = start (nodes mm HEAD)"
    using ring_next_split [OF Nil] Nil by (simp add: hole_node_end'_def)
  then show ?case using debug_hole_value [OF assms(1), of x] Nil by simp
next
  case (Cons y ys)
  have "distinct (as @ x # y # ys)" using assms(1) Cons.prems by (simp add: mm_inv_def)
  then have "hole_node_end' mm x = start (nodes mm y)"
    using ring_next_split [OF Cons.prems] by (simp add: hole_node_end'_def)
  then have x: "drm_mm_debug_hole mm x = start (nodes mm y) - hole_node_start' (nodes mm x)"
    using debug_hole_value [OF assms(1), of x] Cons.prems by simp
  have "drm_mm_debug_hole mm x + (\<Sum>z\<leftarrow>y # ys. size (nodes mm z) + drm_mm_debug_hole mm z) =
      drm_mm_debug_hole mm x + size (nodes mm y) +
      (drm_mm_debug_hole mm y + (\<Sum>z\<leftarrow>ys. size (nodes mm z) + drm_mm_debug_hole mm z))"
    by (simp add: add.assoc)
  also have "\<dots> = drm_mm_debug_hole mm x + size (nodes mm y) + (start (nodes mm HEAD) - hole_node_start' (nodes mm y))"
    using Cons.IH [of "as @ [x]" y] Cons.prems by simp
  also have "\<dots> = start (nodes mm HEAD) - hole_node_start' (nodes mm x)"
    unfolding x by (simp add: hole_node_start'_def [of "nodes mm y"])
  finally show ?case .
qed

lemma unat_sum_list_nowrap:
  fixes xs :: "u64 list"
  shows "(\<Sum>x\<leftarrow>xs. unat x) < 2 ^ 64 \<Longrightarrow> unat (\<Sum>x\<leftarrow>xs. x) = (\<Sum>x\<leftarrow>xs. unat x)"
  by (induction xs) (simp_all add: unat_add_nowrap)

text \<open>
  The totals printed by \<open>drm_mm_debug_table\<close> are right: the first is the length of the
  managed range, the second the sum of the sizes handed out, the third what is left.
\<close>

theorem drm_mm_debug_table_totals:
  assumes inv: "mm_inv mm"
  shows "drm_mm_debug_table mm = (total_all, total_used, total_free) \<Longrightarrow>
    unat total_all = snd (region mm) - fst (region mm) \<and>
    unat total_used = (\<Sum>n \<in> dom (blocks mm). snd (the (blocks mm n))) \<and>
    unat total_free = unat total_all - unat total_used"
proof -
  assume t: "drm_mm_debug_table mm = (total_all, total_used, total_free)"
  obtain ns where ns: "node_list mm = HEAD # ns" and d: "distinct ns"
    using inv by (auto simp: mm_inv_def)
  let ?sz = "\<lambda>x. size (nodes mm x)"
  have u: "total_used = (\<Sum>x\<leftarrow>ns. ?sz x)" and f: "total_all = total_free + total_used"
    and tf: "total_free = drm_mm_debug_hole mm HEAD + (\<Sum>x\<leftarrow>ns. drm_mm_debug_hole mm x)"
    using t by (auto simp: drm_mm_debug_table_def debug_table_loop_sum ns)
  have "total_all = start (nodes mm HEAD) - hole_node_start' (nodes mm HEAD)"
    using debug_telescope [OF inv, of "[]" HEAD ns] ns by (simp add: u f tf sum_list_addf algebra_simps)
  moreover have "hole_node_start' (nodes mm HEAD) \<le> start (nodes mm HEAD)"
    using mm_inv_hole_end_le [OF inv, of HEAD] ns by auto
  ultimately have all: "unat total_all = snd (region mm) - fst (region mm)"
    by (simp add: region_def unat_sub_le)
  have st: "mm_state (mm\<lparr>color_adjust := None\<rparr>)"
    using inv by (simp add: mm_state_def mm_inv_def color_law_def)
  have dom: "dom (blocks mm) = set ns" by (auto simp: blocks_def ns split: if_splits)
  have sum: "(\<Sum>n \<in> dom (blocks mm). snd (the (blocks mm n))) = (\<Sum>x\<leftarrow>ns. unat (?sz x))"
    unfolding dom using d by (subst sum_list_distinct_conv_sum_set) (auto simp: blocks_def ns intro: sum.cong)
  have bl: "blocks (mm\<lparr>color_adjust := None\<rparr>) = blocks mm" "region (mm\<lparr>color_adjust := None\<rparr>) = region mm"
    by (simp_all add: blocks_def region_def fun_eq_iff)
  have le: "(\<Sum>x\<leftarrow>ns. unat (?sz x)) \<le> unat total_all"
    using mma.used_le_region [OF st] by (simp add: mma.used_def bl sum all)
  then have used: "unat total_used = (\<Sum>x\<leftarrow>ns. unat (?sz x))"
    using unat_sum_list_nowrap [of "map ?sz ns"] unat_u64_less [of total_all] by (simp add: u comp_def)
  have "total_free = total_all - total_used" using f by simp
  then have "unat total_free = unat total_all - unat total_used"
    using le used by (simp add: unat_sub_le word_le_nat_alt)
  with all used sum show ?thesis by simp
qed

theorem drm_mm_debug_table_totals_witness:
  "\<exists>total_all total_used total_free. drm_mm_debug_table mm_example = (total_all, total_used, total_free) \<and>
     unat total_all = 65536 \<and> unat total_used = 0 \<and> unat total_free = 65536"
proof -
  obtain a u f where t: "drm_mm_debug_table mm_example = (a, u, f)" by (cases "drm_mm_debug_table mm_example")
  from drm_mm_debug_table_totals [OF mm_example_facts(1) t] t show ?thesis
    by (simp add: mm_example_facts)
qed

text \<open>
  \<open>drm_mm_clean\<close> does not answer whether the allocator is empty: it tests
  \<open>head->next->next == head\<close>, which also holds while exactly one block is handed out. It is true
  exactly when at most one block is; \<open>drm_mm_takedown\<close> tests the list itself and refuses then.
\<close>

theorem drm_mm_clean_iff:
  assumes "mm_inv mm"
  shows "drm_mm_clean mm \<longleftrightarrow> card (dom (blocks mm)) \<le> 1"
proof -
  obtain ns where ns: "node_list mm = HEAD # ns" and d: "distinct (HEAD # ns)"
    using assms by (auto simp: mm_inv_def)
  have dom: "dom (blocks mm) = set ns" by (auto simp: blocks_def ns split: if_splits)
  have c: "card (dom (blocks mm)) = length ns" unfolding dom using d by (simp add: distinct_card)
  show ?thesis
    using d unfolding c drm_mm_clean_def ns by (cases ns; cases "tl ns") (auto simp: ring_next_def split: list.splits)
qed

theorem drm_mm_clean_iff_witness:
  "drm_mm_clean mm_example \<and> (\<exists>mm. mm_inv mm \<and> blocks mm 1 \<noteq> None \<and> drm_mm_clean mm)"
proof (rule mm_example_insert)
  fix mm' s assume m: "mm_inv mm'" "blocks mm' = [1 \<mapsto> (s, 8192)]"
  then have "drm_mm_clean mm'" by (subst drm_mm_clean_iff) simp_all
  moreover have "drm_mm_clean mm_example"
    by (subst drm_mm_clean_iff) (simp_all add: mm_example_facts)
  ultimately show ?thesis using m by auto
qed

end
