(* ===== verification/Drm_Mm_Scan.thy ===== *)
theory Drm_Mm_Scan
  imports Drm_Mm_Props
begin

text \<open>
  Scanning for blocks to evict. Adding blocks to a scan unlinks them; removing them in the reverse
  order puts the allocator back as it was, and tells which of them lie in the hole that the scan
  found. Removing in any other order is not supported by the code.
\<close>

fun scan_remove_all :: "nat list \<Rightarrow> drm_mm \<Rightarrow> (nat list \<times> drm_mm) result" where
  "scan_remove_all [] mm = Inr ([], mm)"
| "scan_remove_all (n # ns) mm =
     (case drm_mm_scan_remove_block n mm of
        Inl e \<Rightarrow> Inl e
      | Inr (evict, mm) \<Rightarrow>
          (case scan_remove_all ns mm of
             Inl e \<Rightarrow> Inl e
           | Inr (es, mm) \<Rightarrow> Inr (if evict then n # es else es, mm)))"

subsection \<open>States that differ in scan bookkeeping only\<close>

definition node_core :: "drm_mm_node \<Rightarrow> drm_mm_node" where
  "node_core x = x\<lparr>scanned_preceeds_hole := False\<rparr>"

definition scan_eq :: "drm_mm \<Rightarrow> drm_mm \<Rightarrow> bool" where
  "scan_eq m m' \<longleftrightarrow> node_list m = node_list m' \<and> hole_stack m = hole_stack m' \<and> scanned_blocks m = scanned_blocks m' \<and>
     color_adjust m = color_adjust m' \<and> unused_nodes m = unused_nodes m' \<and> num_unused m = num_unused m' \<and>
     (\<forall>x. node_core (nodes m x) = node_core (nodes m' x)) \<and>
     (\<forall>x. scanned_block (nodes m x) \<longrightarrow>
        scan_prev m x = scan_prev m' x \<and> scanned_preceeds_hole (nodes m x) = scanned_preceeds_hole (nodes m' x))"

lemma node_core_fields:
  assumes "node_core x = node_core y"
  shows "hole_follows x = hole_follows y" "scanned_block x = scanned_block y" "scanned_prev_free x = scanned_prev_free y"
    "scanned_next_free x = scanned_next_free y" "allocated x = allocated y" "color x = color y"
    "start x = start y" "size x = size y"
  using assms by (cases x; cases y; simp add: node_core_def)+

lemma node_core_upd [simp]:
  "node_core (x\<lparr>hole_follows := b\<rparr>) = (node_core x)\<lparr>hole_follows := b\<rparr>"
  "node_core (x\<lparr>scanned_block := b\<rparr>) = (node_core x)\<lparr>scanned_block := b\<rparr>"
  "node_core (x\<lparr>scanned_preceeds_hole := b\<rparr>) = node_core x"
  by (simp_all add: node_core_def)

lemma scan_eq_nodes:
  assumes "scan_eq m m'"
  shows "hole_follows (nodes m x) = hole_follows (nodes m' x)" "scanned_block (nodes m x) = scanned_block (nodes m' x)"
    "scanned_prev_free (nodes m x) = scanned_prev_free (nodes m' x)" "scanned_next_free (nodes m x) = scanned_next_free (nodes m' x)"
    "allocated (nodes m x) = allocated (nodes m' x)" "color (nodes m x) = color (nodes m' x)"
    "start (nodes m x) = start (nodes m' x)" "size (nodes m x) = size (nodes m' x)"
  using assms node_core_fields [of "nodes m x" "nodes m' x"] by (simp_all add: scan_eq_def)

lemma scan_eq_refl [simp]: "scan_eq m m"
  by (simp add: scan_eq_def)

text \<open>The invariant and the abstract state do not look at the bookkeeping.\<close>

lemma scan_eq_inv:
  assumes "scan_eq m m'"
  shows "mm_inv m = mm_inv m'" "blocks m = blocks m'" "region m = region m'" "fresh_node m = fresh_node m'"
proof -
  note e = scan_eq_nodes [OF assms]
  have l: "node_list m = node_list m'" "hole_stack m = hole_stack m'" "scanned_blocks m = scanned_blocks m'"
    using assms by (simp_all add: scan_eq_def)
  have "chain (nodes m) xs v = chain (nodes m') xs v" for xs v
    by (rule chain_cong) (intro conjI hole_ok_cong e)
  then show "mm_inv m = mm_inv m'"
    by (simp add: mm_inv_def l e block_ok_def)
  show "blocks m = blocks m'" "region m = region m'" "fresh_node m = fresh_node m'"
    by (simp_all add: blocks_def region_def fresh_node_def node_clear_def hole_node_start'_def l e fun_eq_iff)
qed

subsection \<open>Removing undoes adding\<close>

lemma scan_remove_cong:
  assumes eq: "scan_eq m m'" and n: "scanned_block (nodes m n)"
  shows "\<exists>r r' k k'. drm_mm_scan_remove_block n m = Inr (r, k) \<and> drm_mm_scan_remove_block n m' = Inr (r', k') \<and> scan_eq k k'"
proof -
  note e = scan_eq_nodes [OF eq]
  have l: "node_list m = node_list m'" "hole_stack m = hole_stack m'" "scanned_blocks m = scanned_blocks m'"
    "color_adjust m = color_adjust m'" "unused_nodes m = unused_nodes m'" "num_unused m = num_unused m'"
    "scan_prev m n = scan_prev m' n" "scanned_preceeds_hole (nodes m n) = scanned_preceeds_hole (nodes m' n)"
    "\<And>x. node_core (nodes m x) = node_core (nodes m' x)"
    "\<And>x. scanned_block (nodes m x) \<Longrightarrow> scan_prev m x = scan_prev m' x \<and>
       scanned_preceeds_hole (nodes m x) = scanned_preceeds_hole (nodes m' x)"
    using eq n e(2) by (auto simp: scan_eq_def)
  have n': "scanned_block (nodes m' n)" using n e(2) by simp
  show ?thesis
    using n n' l by (auto simp: drm_mm_scan_remove_block_def Let_def scan_eq_def upd_node_def)
qed

definition scan_window :: "drm_mm \<Rightarrow> nat \<Rightarrow> u64 \<times> u64" where
  "scan_window m p =
     (let hs = hole_node_start' (nodes m p); he = hole_node_end' m p
      in call_color_adjust m p (scan_color m)
           (if scan_check_range m \<and> hs < scan_start m then scan_start m else hs,
            if scan_check_range m \<and> scan_end m < he then scan_end m else he))"

text \<open>The outcome of adding a block, with the hole that it leaves.\<close>

lemma scan_add_block_eq:
  assumes n: "\<not> scanned_block (nodes m n)" and p: "p = ring_prev (node_list m) n" and k: "k = scan_unlink n p m"
  shows "drm_mm_scan_add_block n m =
    (if check_free_hole (fst (scan_window k p)) (snd (scan_window k p)) (scan_size k) (scan_alignment k)
     then Inr (True, k\<lparr>scan_hit_start := hole_node_start' (nodes k p), scan_hit_end := hole_node_end' k p\<rparr>)
     else Inr (False, k))"
  unfolding drm_mm_scan_add_block_def Let_def p [symmetric] k [symmetric] scan_window_def drm_mm_hole_node_end_def
  using n by (simp split: prod.split)

lemma scan_unlink_fields [simp]:
  "node_list (scan_unlink n p m) = remove1 n (node_list m)" "hole_stack (scan_unlink n p m) = hole_stack m"
  "scanned_blocks (scan_unlink n p m) = scanned_blocks m + 1" "color_adjust (scan_unlink n p m) = color_adjust m"
  "unused_nodes (scan_unlink n p m) = unused_nodes m" "num_unused (scan_unlink n p m) = num_unused m"
  "scan_size (scan_unlink n p m) = scan_size m" "scan_alignment (scan_unlink n p m) = scan_alignment m"
  "scan_check_range (scan_unlink n p m) = scan_check_range m" "scan_start (scan_unlink n p m) = scan_start m"
  "scan_end (scan_unlink n p m) = scan_end m" "scan_color (scan_unlink n p m) = scan_color m"
  "scan_hit_start (scan_unlink n p m) = scan_hit_start m" "scan_hit_end (scan_unlink n p m) = scan_hit_end m"
  "scan_prev (scan_unlink n p m) = (scan_prev m)(n := p)"
  by (simp_all add: scan_unlink_def Let_def upd_node_def)

lemma scan_unlink_nodes:
  "n \<noteq> p \<Longrightarrow> nodes (scan_unlink n p m) =
    (nodes m)(n := (nodes m n)\<lparr>scanned_block := True, scanned_preceeds_hole := hole_follows (nodes m p)\<rparr>,
       p := (nodes m p)\<lparr>hole_follows := True\<rparr>)"
  by (simp add: scan_unlink_def Let_def)

lemma scan_add_remove:
  assumes inv: "distinct (node_list m)" "node_list m = HEAD # ns" "n \<in> set ns"
    and n: "\<not> scanned_block (nodes m n)"
    and add: "drm_mm_scan_add_block n m = Inr (hit, m1)"
  shows "\<exists>r k. drm_mm_scan_remove_block n m1 = Inr (r, k) \<and> scan_eq k m \<and> scanned_block (nodes m1 n)"
proof -
  obtain as p bs where sp: "node_list m = as @ p # n # bs" and nas: "n \<notin> set as" "n \<noteq> p"
    and p: "p = ring_prev (node_list m) n"
    using ring_split_prev [of HEAD ns n] inv by metis
  have pas: "p \<notin> set as" using inv(1) sp by auto
  let ?k = "scan_unlink n p m"
  have "m1 = ?k \<or> m1 = ?k\<lparr>scan_hit_start := hole_node_start' (nodes ?k p), scan_hit_end := hole_node_end' ?k p\<rparr>"
    using add unfolding scan_add_block_eq [OF n p refl] by (simp split: if_splits)
  then have m1: "nodes m1 = nodes ?k" "node_list m1 = node_list ?k" "scanned_blocks m1 = scanned_blocks ?k"
    "hole_stack m1 = hole_stack m" "color_adjust m1 = color_adjust m" "unused_nodes m1 = unused_nodes m"
    "num_unused m1 = num_unused m" "scan_prev m1 = scan_prev ?k"
    by auto
  have ins: "insert_after p n (remove1 n (node_list m)) = node_list m"
    using insert_after_split [OF pas] sp nas by (simp add: remove1_append)
  show ?thesis
    using nas(2) ins n
    by (simp add: drm_mm_scan_remove_block_def Let_def m1 scan_unlink_nodes upd_node_def scan_eq_def node_core_def)
qed

subsection \<open>Scans in progress\<close>

text \<open>\<open>m\<close> is reached from \<open>mm0\<close> by adding the blocks \<open>U\<close>, the most recent one first.\<close>

inductive scan_path :: "drm_mm \<Rightarrow> nat list \<Rightarrow> drm_mm \<Rightarrow> bool" for mm0 where
  scan_start: "scan_path mm0 [] mm0"
| scan_add: "scan_path mm0 U m \<Longrightarrow> blocks mm0 n \<noteq> None \<Longrightarrow> n \<notin> set U \<Longrightarrow>
    drm_mm_scan_add_block n m = Inr (hit, m1) \<Longrightarrow> scan_path mm0 (n # U) m1"

definition scan_inv :: "drm_mm \<Rightarrow> nat list \<Rightarrow> drm_mm \<Rightarrow> bool" where
  "scan_inv mm0 U m \<longleftrightarrow> node_list m = filter (\<lambda>x. x \<notin> set U) (node_list mm0) \<and> HEAD \<notin> set U \<and>
     (\<forall>x. start (nodes m x) = start (nodes mm0 x) \<and> size (nodes m x) = size (nodes mm0 x)) \<and>
     (\<forall>x \<in> set (tl (node_list mm0)). scanned_block (nodes m x) \<longleftrightarrow> x \<in> set U)"

lemma remove1_filter_notin:
  "distinct xs \<Longrightarrow> remove1 n (filter (\<lambda>x. x \<notin> set U) xs) = filter (\<lambda>x. x \<notin> set (n # U)) xs"
proof -
  assume "distinct xs"
  then have "remove1 n (filter (\<lambda>x. x \<notin> set U) xs) = filter (\<lambda>x. x \<noteq> n) (filter (\<lambda>x. x \<notin> set U) xs)"
    by (intro distinct_remove1_removeAll [THEN trans]) (simp_all add: removeAll_filter_not_eq eq_commute)
  then show ?thesis by (simp add: conj_commute)
qed

text \<open>One more block: where it stood, and the state it leaves.\<close>

lemma scan_inv_split:
  assumes inv: "mm_inv mm0" and si: "scan_inv mm0 U m" and n: "blocks mm0 n \<noteq> None" "n \<notin> set U"
  obtains ns as p bs where "node_list m = HEAD # ns" "n \<in> set ns" "distinct (node_list m)"
    "node_list m = as @ p # n # bs" "n \<notin> set as" "n \<noteq> p" "p = ring_prev (node_list m) n" "\<not> scanned_block (nodes m n)"
proof -
  obtain ms where ms: "node_list mm0 = HEAD # ms" "distinct (HEAD # ms)" using inv by (auto simp: mm_inv_def)
  have nin: "n \<in> set ms" using n(1) ms by (auto simp: blocks_def split: if_splits)
  have l: "node_list m = HEAD # filter (\<lambda>x. x \<notin> set U) ms"
    using si ms by (simp add: scan_inv_def)
  have d: "distinct (HEAD # filter (\<lambda>x. x \<notin> set U) ms)" "n \<in> set (filter (\<lambda>x. x \<notin> set U) ms)"
    using ms n nin by auto
  have sb: "\<not> scanned_block (nodes m n)" using si ms nin n(2) by (simp add: scan_inv_def)
  obtain as bs where "node_list m = as @ ring_prev (node_list m) n # n # bs" "n \<notin> set as" "n \<noteq> ring_prev (node_list m) n"
    using ring_split_prev [OF d] unfolding l by blast
  moreover have "distinct (node_list m)" using d(1) l by simp
  ultimately show thesis using that [OF l d(2) _ _ _ _ refl sb] by blast
qed

lemma scan_add_inv:
  assumes inv: "mm_inv mm0" and si: "scan_inv mm0 U m" and n: "blocks mm0 n \<noteq> None" "n \<notin> set U"
  obtains p k where "p = ring_prev (node_list m) n" "k = scan_unlink n p m" "scan_inv mm0 (n # U) k" "n \<noteq> p"
    "p \<in> set (node_list k)" "\<not> scanned_block (nodes m n)"
proof -
  obtain ns as p bs where sp: "node_list m = HEAD # ns" "n \<in> set ns" "distinct (node_list m)"
    "node_list m = as @ p # n # bs" "n \<notin> set as" "n \<noteq> p" "p = ring_prev (node_list m) n" "\<not> scanned_block (nodes m n)"
    using scan_inv_split [OF assms] by blast
  have d: "distinct (node_list mm0)" using inv by (simp add: mm_inv_def)
  have "HEAD \<noteq> n" using sp(1-3) by auto
  then have "scan_inv mm0 (n # U) (scan_unlink n p m)"
    using si sp(6) remove1_filter_notin [OF d, of n U] by (auto simp: scan_inv_def scan_unlink_nodes)
  then show thesis
    using that [OF sp(7) refl _ sp(6) _ sp(8)] sp(4,5,6) by (auto simp: remove1_append)
qed

lemma scan_inv_upd:
  "scan_inv mm0 U (k\<lparr>scan_hit_start := a, scan_hit_end := b\<rparr>) = scan_inv mm0 U k"
  by (simp add: scan_inv_def)

lemma scan_path_inv:
  assumes "scan_path mm0 U m" "mm_inv mm0"
  shows "scan_inv mm0 U m \<and> set U \<subseteq> dom (blocks mm0)"
  using assms
proof induction
  case scan_start
  then show ?case by (auto simp: scan_inv_def mm_inv_def block_ok_def)
next
  case (scan_add U m n hit m1)
  obtain p k where pk: "p = ring_prev (node_list m) n" "k = scan_unlink n p m" "scan_inv mm0 (n # U) k"
    "\<not> scanned_block (nodes m n)"
    using scan_add_inv scan_add by metis
  from scan_add.hyps(4) pk(3) scan_add show ?case
    unfolding scan_add_block_eq [OF pk(4,1,2)] by (auto simp: scan_inv_upd split: if_splits)
qed

text \<open>Unlinking blocks keeps the list in address order.\<close>

lemma scan_inv_order:
  assumes inv: "mm_inv mm0" and si: "scan_inv mm0 U m"
  shows "sorted_wrt (\<lambda>x y. hole_node_start' (nodes m x) \<le> start (nodes m y)) (node_list m)"
    and "x \<in> set (node_list m) \<Longrightarrow> hole_node_start' (nodes m x) \<le> start (nodes m HEAD)"
    and "x \<in> set (node_list m) \<Longrightarrow> x \<noteq> HEAD \<Longrightarrow>
      unat (hole_node_start' (nodes m x)) = unat (start (nodes m x)) + unat (size (nodes m x))"
proof -
  obtain ms where ms: "node_list mm0 = HEAD # ms" and ok: "\<forall>n \<in> set ms. block_ok (nodes mm0 n)"
    and ch: "chain (nodes mm0) (HEAD # ms) (start (nodes mm0 HEAD))"
    using inv by (auto simp: mm_inv_def)
  have nw: "\<forall>n \<in> set ms. unat (start (nodes mm0 n)) + unat (size (nodes mm0 n)) < 2 ^ 64"
    using ok by (simp add: block_ok_def)
  have eq: "hole_node_start' (nodes m x) = hole_node_start' (nodes mm0 x)" "start (nodes m x) = start (nodes mm0 x)"
    "size (nodes m x) = size (nodes mm0 x)" for x
    using si by (simp_all add: scan_inv_def hole_node_start'_def)
  have l: "node_list m = filter (\<lambda>x. x \<notin> set U) (HEAD # ms)" using si ms by (simp add: scan_inv_def)
  show "sorted_wrt (\<lambda>x y. hole_node_start' (nodes m x) \<le> start (nodes m y)) (node_list m)"
    unfolding l eq by (rule sorted_wrt_filter [OF chain_sorted [OF ch nw]])
  assume x: "x \<in> set (node_list m)"
  then have xin: "x \<in> set (node_list mm0)" using l ms by (auto split: if_splits)
  show "hole_node_start' (nodes m x) \<le> start (nodes m HEAD)"
    unfolding eq using mm_inv_hole_end_le [OF inv xin] by (auto intro: order_trans)
  show "unat (hole_node_start' (nodes m x)) = unat (start (nodes m x)) + unat (size (nodes m x))" if "x \<noteq> HEAD"
    using nw xin ms that by (auto simp: eq(2,3) hole_node_start'_def unat_add_nowrap)
qed

text \<open>The space behind a listed node: it is not negative and no listed block reaches into it.\<close>

lemma scan_inv_hole:
  assumes inv: "mm_inv mm0" and si: "scan_inv mm0 U m" and x: "x \<in> set (node_list m)"
  shows "hole_node_start' (nodes m x) \<le> hole_node_end' m x" "hole_node_end' m x \<le> start (nodes m HEAD)"
    and "y \<in> set (node_list m) \<Longrightarrow> y \<noteq> HEAD \<Longrightarrow>
      hole_node_start' (nodes m y) \<le> hole_node_start' (nodes m x) \<or> hole_node_end' m x \<le> start (nodes m y)"
    and "unat (hole_node_start' (nodes m HEAD)) \<le> unat (hole_node_start' (nodes m x))"
proof -
  obtain ms where ms: "node_list mm0 = HEAD # ms" and dms: "distinct (HEAD # ms)"
    using inv by (auto simp: mm_inv_def)
  have ns: "node_list m = HEAD # filter (\<lambda>x. x \<notin> set U) ms" and d: "distinct (node_list m)"
    using si ms dms by (auto simp: scan_inv_def)
  obtain as bs where sp: "node_list m = as @ x # bs" "x \<notin> set as" using x by (meson split_list_first)
  note ord = scan_inv_order [OF inv si]
  have he: "hole_node_end' m x = first_start (nodes m) bs (start (nodes m HEAD))"
    using ring_next_split [OF sp] ns by (cases bs) (simp_all add: hole_node_end'_def)
  have up: "start (nodes m z) \<le> hole_node_start' (nodes m z)" if "z \<in> set (node_list m)" "z \<noteq> HEAD" for z
    using ord(3) [OF that] by (simp add: word_le_nat_alt)
  have ordl: "hole_node_start' (nodes m a) \<le> start (nodes m b)" if "node_list m = us @ a # vs" "b \<in> set vs" for a b us vs
    using ord(1) that by (auto simp: sorted_wrt_append)
  have HEADbs: "HEAD \<notin> set bs" using d sp ns by (cases as) auto
  show "hole_node_start' (nodes m x) \<le> hole_node_end' m x"
    using ordl [OF sp(1)] ord(2) [OF x] he by (cases bs) auto
  show "hole_node_end' m x \<le> start (nodes m HEAD)"
  proof (cases bs)
    case (Cons b cs)
    then have "b \<in> set (node_list m)" "b \<noteq> HEAD" using sp HEADbs by auto
    with up [OF this] ord(2) he Cons show ?thesis by (auto intro: order_trans)
  qed (simp add: he)
  have before: "hole_node_start' (nodes m a) \<le> hole_node_start' (nodes m x)" if a: "a \<in> set as" for a
  proof -
    have "x \<noteq> HEAD" using a sp ns d by (cases as) auto
    moreover obtain us vs where "as = us @ a # vs" using a by (meson split_list)
    then have "hole_node_start' (nodes m a) \<le> start (nodes m x)" using ordl [of us a "vs @ x # bs" x] sp by simp
    ultimately show ?thesis using up [OF x] by (auto intro: order_trans)
  qed
  show "hole_node_start' (nodes m y) \<le> hole_node_start' (nodes m x) \<or> hole_node_end' m x \<le> start (nodes m y)"
    if y: "y \<in> set (node_list m)" "y \<noteq> HEAD"
  proof -
    consider "y \<in> set as" | "y = x" | "y \<in> set bs" using y sp by auto
    then show ?thesis
    proof cases
      case 3
      then obtain b cs where bs: "bs = b # cs" by (cases bs) auto
      have "start (nodes m b) \<le> start (nodes m y)"
      proof (cases "y = b")
        case False
        with 3 bs have "y \<in> set cs" by auto
        then have "hole_node_start' (nodes m b) \<le> start (nodes m y)" using ordl [of "as @ [x]" b cs y] sp bs by simp
        moreover have "b \<in> set (node_list m)" "b \<noteq> HEAD" using sp bs HEADbs by auto
        ultimately show ?thesis using up [of b] by (auto intro: order_trans)
      qed simp
      with he bs show ?thesis by simp
    qed (use before in auto)
  qed
  show "unat (hole_node_start' (nodes m HEAD)) \<le> unat (hole_node_start' (nodes m x))"
    using before [of HEAD] sp ns by (cases as) (auto simp: word_le_nat_alt)
qed

subsection \<open>Unwinding a scan\<close>

lemma scan_eq_trans: "scan_eq a b \<Longrightarrow> scan_eq b c \<Longrightarrow> scan_eq a c"
proof -
  assume ab: "scan_eq a b" and bc: "scan_eq b c"
  have "scanned_block (nodes a x) = scanned_block (nodes b x)" for x by (rule scan_eq_nodes(2) [OF ab])
  with ab bc show ?thesis by (simp add: scan_eq_def)
qed

lemma scan_remove_flag:
  assumes "drm_mm_scan_remove_block n m = Inr (r, k)"
  shows "scan_hit_start k = scan_hit_start m" "scan_hit_end k = scan_hit_end m"
    "r = (scan_hit_start k < hole_node_end' k n \<and> start (nodes k n) < scan_hit_end k)"
  using assms by (auto simp: drm_mm_scan_remove_block_def Let_def drm_mm_hole_node_end_def upd_node_def split: if_splits)

text \<open>Removing the blocks of a scan in the reverse order restores the state and flags the blocks in the hit.\<close>

lemma scan_unwind:
  assumes "scan_path mm0 U m" "mm_inv mm0" "scan_eq m' m"
  shows "\<exists>es m2. scan_remove_all U m' = Inr (es, m2) \<and> scan_eq m2 mm0 \<and> set es \<subseteq> set U \<and> (distinct U \<longrightarrow> distinct es) \<and>
    (\<forall>b x l. b \<in> set U \<and> blocks mm0 b = Some (x, l) \<and> unat (scan_hit_start m') < x + l \<and>
       x < unat (scan_hit_end m') \<longrightarrow> b \<in> set es) \<and> (scan_hit_end m' = 0 \<longrightarrow> es = [])"
  using assms
proof (induction arbitrary: m')
  case scan_start
  then show ?case by simp
next
  case (scan_add U m n hit m1)
  note si = scan_path_inv [OF scan_add.hyps(1) scan_add.prems(1), THEN conjunct1]
  obtain ns as p bs where sp: "node_list m = HEAD # ns" "n \<in> set ns" "distinct (node_list m)" "\<not> scanned_block (nodes m n)"
    using scan_inv_split [OF scan_add.prems(1) si scan_add.hyps(2,3)] by metis
  obtain r k where rk: "drm_mm_scan_remove_block n m1 = Inr (r, k)" "scan_eq k m" "scanned_block (nodes m1 n)"
    using scan_add_remove [OF sp(3,1,2,4) scan_add.hyps(4)] by blast
  have "scanned_block (nodes m' n)" using rk(3) scan_eq_nodes(2) [OF scan_add.prems(2)] by simp
  from scan_remove_cong [OF scan_add.prems(2) this] rk
  obtain r' k' where rk': "drm_mm_scan_remove_block n m' = Inr (r', k')" "scan_eq k' k" by auto
  have km: "scan_eq k' m" by (rule scan_eq_trans [OF rk'(2) rk(2)])
  note fl = scan_remove_flag [OF rk'(1)]
  obtain es m2 where IH: "scan_remove_all U k' = Inr (es, m2)" "scan_eq m2 mm0" "set es \<subseteq> set U" "distinct U \<longrightarrow> distinct es"
    "\<forall>b x l. b \<in> set U \<and> blocks mm0 b = Some (x, l) \<and> unat (scan_hit_start k') < x + l \<and>
       x < unat (scan_hit_end k') \<longrightarrow> b \<in> set es" "scan_hit_end k' = 0 \<longrightarrow> es = []"
    using scan_add.IH [OF scan_add.prems(1) km] by blast
  have r': "r'" if "blocks mm0 n = Some (x, l)" "unat (scan_hit_start m') < x + l" "x < unat (scan_hit_end m')" for x l
  proof -
    have xl: "x = unat (start (nodes m n))" "l = unat (size (nodes m n))"
      using that(1) si by (auto simp: blocks_def scan_inv_def split: if_splits)
    have nin: "n \<in> set (node_list m)" "n \<noteq> HEAD" using sp by auto
    have he: "hole_node_end' k' n = hole_node_end' m n"
      using km scan_eq_nodes(7) [OF km] by (simp add: hole_node_end'_def scan_eq_def)
    have "x + l \<le> unat (hole_node_end' m n)"
      using scan_inv_order(3) [OF scan_add.prems(1) si nin] scan_inv_hole(1) [OF scan_add.prems(1) si nin(1)] xl
      by (simp add: word_le_nat_alt)
    with that xl show ?thesis
      using fl scan_eq_nodes(7) [OF km] by (simp add: word_less_nat_alt he)
  qed
  have z: "\<not> r'" if "scan_hit_end m' = 0" using that fl by simp
  show ?case
    using rk'(1) IH fl(1,2) r' z scan_add.hyps(3) by auto
qed

subsection \<open>A hit\<close>

definition scan_lim :: "drm_mm \<Rightarrow> (u64 \<times> u64) option" where
  "scan_lim m = (if scan_check_range m then Some (scan_start m, scan_end m) else None)"

text \<open>The scan's request, which adding blocks leaves alone.\<close>

lemma scan_add_params:
  assumes "drm_mm_scan_add_block n m = Inr (hit, m1)"
  shows "color_adjust m1 = color_adjust m" "scan_size m1 = scan_size m" "scan_alignment m1 = scan_alignment m"
    "scan_lim m1 = scan_lim m" "\<not> hit \<Longrightarrow> scan_hit_end m1 = scan_hit_end m"
proof -
  have "\<not> scanned_block (nodes m n)"
    using assms by (auto simp: drm_mm_scan_add_block_def split: if_splits)
  then show "color_adjust m1 = color_adjust m" "scan_size m1 = scan_size m" "scan_alignment m1 = scan_alignment m"
    "scan_lim m1 = scan_lim m" "\<not> hit \<Longrightarrow> scan_hit_end m1 = scan_hit_end m"
    using assms scan_add_block_eq [OF _ refl refl, of m n] by (auto simp: scan_lim_def split: if_splits)
qed

lemma scan_path_params:
  "scan_path mm0 U m \<Longrightarrow> color_adjust m = color_adjust mm0 \<and> scan_size m = scan_size mm0 \<and>
     scan_alignment m = scan_alignment mm0 \<and> scan_lim m = scan_lim mm0"
  by (induction rule: scan_path.induct) (auto dest: scan_add_params)

text \<open>The interval reported by a hit: it holds a suitable place, and only scanned blocks reach into it.\<close>

definition hit_ok :: "drm_mm \<Rightarrow> nat list \<Rightarrow> drm_mm \<Rightarrow> bool" where
  "hit_ok mm0 U m \<longleftrightarrow>
     (\<exists>a. aligned (scan_alignment mm0) a \<and> in_lim (scan_lim mm0) a (unat (scan_size mm0)) \<and>
        unat (scan_hit_start m) \<le> a \<and> a + unat (scan_size mm0) \<le> unat (scan_hit_end m)) \<and>
     fst (region mm0) \<le> unat (scan_hit_start m) \<and> unat (scan_hit_end m) \<le> snd (region mm0) \<and>
     (\<forall>b x l. blocks mm0 b = Some (x, l) \<and> b \<notin> set U \<longrightarrow> x + l \<le> unat (scan_hit_start m) \<or> unat (scan_hit_end m) \<le> x)"

lemma scan_window_place:
  assumes E: "unat (start (nodes k HEAD)) + 2 ^ 32 \<le> 2 ^ 64" and col: "color_adjust k = None"
    and b: "hs \<le> he" "he \<le> start (nodes k HEAD)" "hs = hole_node_start' (nodes k p)" "he = hole_node_end' k p"
    and chk: "check_free_hole (fst (scan_window k p)) (snd (scan_window k p)) (scan_size k) (scan_alignment k)"
    and range: "\<forall>rs re. scan_lim k = Some (rs, re) \<longrightarrow> range_args_ok k (scan_size k) rs"
  shows "\<exists>a. aligned (scan_alignment k) a \<and> in_lim (scan_lim k) a (unat (scan_size k)) \<and>
    unat hs \<le> a \<and> a + unat (scan_size k) \<le> unat he"
proof -
  obtain s e where se: "scan_window k p = (s, e)" by force
  have s: "s = (if scan_check_range k \<and> hs < scan_start k then scan_start k else hs)"
    and e: "e = (if scan_check_range k \<and> scan_end k < he then scan_end k else he)"
    using se col b(3,4) by (auto simp: scan_window_def call_color_adjust_def Let_def)
  have cond: "s \<le> e \<and> unat e + 2 ^ 32 \<le> 2 ^ 64 \<or> unat s + unat (scan_size k) + 2 ^ 32 \<le> 2 ^ 64"
  proof (cases "scan_check_range k")
    case True
    then have "range_args_ok k (scan_size k) (scan_start k)" using range by (simp add: scan_lim_def)
    then show ?thesis using b(1,2) s by (auto simp: range_args_ok_def word_le_nat_alt)
  next
    case False
    then show ?thesis using b(1,2) s e E by (auto simp: word_le_nat_alt)
  qed
  let ?a = "unat (align_start s (scan_alignment k))"
  have "unat s + 2 ^ 32 \<le> 2 ^ 64" using cond by (auto simp: word_le_nat_alt)
  note al = align_start_spec(1,3) [OF this, of "scan_alignment k"]
  have fit: "?a + unat (scan_size k) \<le> unat e"
    using chk check_free_hole_iff [OF cond] se by simp
  have "aligned (scan_alignment k) ?a" using al(2) by (auto simp: aligned_def)
  moreover have "in_lim (scan_lim k) ?a (unat (scan_size k))"
    using fit al(1) s e by (auto simp: in_lim_def scan_lim_def word_less_nat_alt split: if_splits)
  moreover have "unat hs \<le> ?a" using al(1) s by (auto simp: word_less_nat_alt split: if_splits)
  moreover have "?a + unat (scan_size k) \<le> unat he" using fit e by (auto simp: word_less_nat_alt split: if_splits)
  ultimately show ?thesis by blast
qed

lemma scan_hit:
  assumes inv: "mm_inv mm0" and col: "color_adjust mm0 = None" and path: "scan_path mm0 U m"
    and n: "blocks mm0 n \<noteq> None" "n \<notin> set U" and add: "drm_mm_scan_add_block n m = Inr (True, m1)"
    and range: "\<forall>rs re. scan_lim mm0 = Some (rs, re) \<longrightarrow> range_args_ok mm0 (scan_size mm0) rs"
  shows "hit_ok mm0 (n # U) m1"
proof -
  note si = scan_path_inv [OF path inv, THEN conjunct1]
  obtain p k where pk: "p = ring_prev (node_list m) n" "k = scan_unlink n p m" "scan_inv mm0 (n # U) k"
    "p \<in> set (node_list k)" "\<not> scanned_block (nodes m n)"
    using scan_add_inv [OF inv si n] by metis
  have chk: "check_free_hole (fst (scan_window k p)) (snd (scan_window k p)) (scan_size k) (scan_alignment k)"
    and m1: "m1 = k\<lparr>scan_hit_start := hole_node_start' (nodes k p), scan_hit_end := hole_node_end' k p\<rparr>"
    using add unfolding scan_add_block_eq [OF pk(5,1,2)] by (auto split: if_splits)
  note pm = scan_path_params [OF path]
  have pk': "scan_size k = scan_size mm0" "scan_alignment k = scan_alignment mm0" "scan_lim k = scan_lim mm0" "color_adjust k = None"
  proof -
    have "scan_lim k = scan_lim m" by (simp add: pk(2) scan_lim_def)
    with pm show "scan_lim k = scan_lim mm0" by simp
  qed (use pm col in \<open>simp_all add: pk(2)\<close>)
  have HEADk: "start (nodes k HEAD) = start (nodes mm0 HEAD)" "hole_node_start' (nodes k HEAD) = hole_node_start' (nodes mm0 HEAD)"
    using pk(3) by (simp_all add: scan_inv_def hole_node_start'_def)
  note h = scan_inv_hole [OF inv pk(3,4)]
  have E: "unat (start (nodes k HEAD)) + 2 ^ 32 \<le> 2 ^ 64" using inv by (simp add: mm_inv_def HEADk)
  have "\<forall>rs re. scan_lim k = Some (rs, re) \<longrightarrow> range_args_ok k (scan_size k) rs"
    using range by (simp add: pk' range_args_ok_def HEADk)
  from scan_window_place [OF E pk'(4) h(1,2) refl refl chk this]
  have place: "\<exists>a. aligned (scan_alignment mm0) a \<and> in_lim (scan_lim mm0) a (unat (scan_size mm0)) \<and>
      unat (scan_hit_start m1) \<le> a \<and> a + unat (scan_size mm0) \<le> unat (scan_hit_end m1)"
    by (simp add: pk' m1)
  have rg: "fst (region mm0) \<le> unat (scan_hit_start m1)" "unat (scan_hit_end m1) \<le> snd (region mm0)"
    using h(2,4) by (simp_all add: m1 region_def HEADk word_le_nat_alt)
  have "x + l \<le> unat (scan_hit_start m1) \<or> unat (scan_hit_end m1) \<le> x"
    if b: "blocks mm0 b = Some (x, l)" "b \<notin> set (n # U)" for b x l
  proof -
    have bl: "b \<in> set (tl (node_list mm0))" "x = unat (start (nodes k b))" "l = unat (size (nodes k b))"
      using b(1) pk(3) by (auto simp: blocks_def scan_inv_def split: if_splits)
    have "b \<noteq> HEAD" using bl(1) inv by (auto simp: mm_inv_def)
    moreover have "b \<in> set (node_list k)"
      using bl(1) b(2) pk(3) by (simp add: scan_inv_def) (metis list.sel(2) list.set_sel(2))
    ultimately show ?thesis
      using h(3) [of b] scan_inv_order(3) [OF inv pk(3), of b] by (simp add: m1 bl word_le_nat_alt)
  qed
  with place rg show ?thesis unfolding hit_ok_def by blast
qed

text \<open>Once the scanned blocks in the hit are gone, the place that it reported is free.\<close>

lemma hit_free:
  assumes hit: "hit_ok mm0 U m" and sub: "blocks mm2 = (blocks mm0) |` (- set es)" "region mm2 = region mm0"
    and fl: "\<forall>b x l. b \<in> set U \<and> blocks mm0 b = Some (x, l) \<and> unat (scan_hit_start m) < x + l \<and>
       x < unat (scan_hit_end m) \<longrightarrow> b \<in> set es"
  shows "\<exists>a. aligned (scan_alignment mm0) a \<and> in_lim (scan_lim mm0) a (unat (scan_size mm0)) \<and>
    free_at mm2 a (unat (scan_size mm0))"
proof -
  obtain a where a: "aligned (scan_alignment mm0) a" "in_lim (scan_lim mm0) a (unat (scan_size mm0))"
    "unat (scan_hit_start m) \<le> a" "a + unat (scan_size mm0) \<le> unat (scan_hit_end m)"
    using hit by (auto simp: hit_ok_def)
  have "apart (a, unat (scan_size mm0)) (x, l)" if "blocks mm2 b = Some (x, l)" for b x l
  proof -
    have b: "b \<notin> set es" "blocks mm0 b = Some (x, l)" using that sub by (auto simp: restrict_map_def split: if_splits)
    then have "x + l \<le> unat (scan_hit_start m) \<or> unat (scan_hit_end m) \<le> x"
      using hit fl by (meson hit_ok_def not_le)
    with a show ?thesis by (auto simp: apart_def)
  qed
  with a hit show ?thesis
    by (intro exI [of _ a]) (auto simp: free_at_def sub hit_ok_def)
qed

lemma scan_path_distinct: "scan_path mm0 U m \<Longrightarrow> distinct U"
  by (induction rule: scan_path.induct) auto

text \<open>Adding a further block to a scan always succeeds.\<close>

lemma scan_add_total:
  assumes "mm_inv mm0" "scan_path mm0 U m" "blocks mm0 n \<noteq> None" "n \<notin> set U"
  obtains hit m1 where "drm_mm_scan_add_block n m = Inr (hit, m1)" "scan_path mm0 (n # U) m1"
proof -
  note si = scan_path_inv [OF assms(2,1), THEN conjunct1]
  obtain p k where pk: "p = ring_prev (node_list m) n" "k = scan_unlink n p m" "\<not> scanned_block (nodes m n)"
    using scan_add_inv [OF assms(1) si assms(3,4)] by metis
  obtain hit m1 where "drm_mm_scan_add_block n m = Inr (hit, m1)"
    using scan_add_block_eq [OF pk(3,1,2)] by (auto split: if_splits)
  with scan_add [OF assms(2-4) this] that show thesis by blast
qed

text \<open>
  Claim C22. Take any sequence of blocks added to a scan and remove them in the reverse order: no
  assertion fires and the allocator is as it was before the scan, whatever the outcome of the
  additions, except for the scan's own bookkeeping. If no hit was reported, no block is flagged.
\<close>

theorem drm_mm_scan_lifo_restores:
  assumes "mm_inv mm0" "scan_path mm0 U m"
  shows "\<exists>es m2. scan_remove_all U m = Inr (es, m2) \<and> scan_eq m2 mm0 \<and> mm_inv m2 \<and> blocks m2 = blocks mm0 \<and>
     hole_stack m2 = hole_stack mm0 \<and> node_list m2 = node_list mm0 \<and> set es \<subseteq> set U \<and> (scan_hit_end m = 0 \<longrightarrow> es = [])"
proof -
  obtain es m2 where u: "scan_remove_all U m = Inr (es, m2)" "scan_eq m2 mm0" "set es \<subseteq> set U" "scan_hit_end m = 0 \<longrightarrow> es = []"
    using scan_unwind [OF assms(2,1) scan_eq_refl] by blast
  have "mm_inv m2" "blocks m2 = blocks mm0"
    using scan_eq_inv [OF u(2)] assms(1) by auto
  moreover have "hole_stack m2 = hole_stack mm0" "node_list m2 = node_list mm0"
    using u(2) by (simp_all add: scan_eq_def)
  ultimately show ?thesis using u by blast
qed

theorem drm_mm_scan_lifo_restores_witness:
  "\<exists>mm0 m es m2. scan_path mm0 [1] m \<and> scan_remove_all [1] m = Inr (es, m2) \<and> node_list m \<noteq> node_list mm0 \<and>
     node_list m2 = node_list mm0"
proof (rule mm_example_insert)
  fix mm' s assume m: "mm_inv mm'" "blocks mm' = [1 \<mapsto> (s, 8192)]" "node_list mm' = [HEAD, 1]"
  have b: "blocks mm' 1 \<noteq> None" using m by simp
  have si: "scan_inv mm' [] mm'" using scan_path_inv [OF scan_start m(1)] by simp
  obtain p k where pk: "p = ring_prev (node_list mm') 1" "k = scan_unlink 1 p mm'" "\<not> scanned_block (nodes mm' 1)"
    using scan_add_inv [OF m(1) si b] by auto
  obtain hit m1 where add: "drm_mm_scan_add_block 1 mm' = Inr (hit, m1)" "node_list m1 = node_list k"
    using scan_add_block_eq [OF pk(3,1,2)] by (auto split: if_splits)
  have path: "scan_path mm' [1] m1" by (rule scan_add [OF scan_start b _ add(1)]) simp
  have "node_list m1 = [HEAD]" using add(2) by (simp add: pk(2) m(3) HEAD_def)
  then have ne: "node_list m1 \<noteq> node_list mm'" by (simp add: m(3))
  from drm_mm_scan_lifo_restores [OF m(1) path] path ne show ?thesis by blast
qed

end
