(* ===== verification/I915_Evict.thy ===== *)
theory I915_Evict
  imports Drm_Mm_Scan
begin

text \<open>
  Eviction from the graphics translation table, \<open>i915_gem_evict.c\<close>, with the release of an object's
  block, \<open>i915_gem_object_unbind\<close> of \<open>i915_gem.c\<close>. Objects are numbers into the store \<open>objs\<close>; the
  inactive and the active list are lists of objects. \<open>gpu obj\<close> is the outcome of the steps of
  \<open>i915_gem_object_unbind\<close> that talk to the hardware (waiting for the GPU, releasing the fence);
  the reference counts taken while objects are on the eviction list are left out.
\<close>

record i915_gem_object =
  pin_count :: nat
  gtt_space :: "nat option"
  gtt_offset :: u32
  map_and_fenceable :: bool

record i915_mm =
  gtt_mm :: drm_mm
  objs :: "nat \<Rightarrow> i915_gem_object"
  inactive_list :: "nat list"
  active_list :: "nat list"
  unbound_list :: "nat list"
  mappable_end :: u64

definition mark_free ::
  "(nat \<Rightarrow> i915_gem_object) \<Rightarrow> nat \<Rightarrow> nat list \<Rightarrow> drm_mm \<Rightarrow> (bool \<times> nat list \<times> drm_mm) result" where
  "mark_free ob obj unwind mm =
     (if pin_count (ob obj) \<noteq> 0 then Inr (False, unwind, mm)
      else (case gtt_space (ob obj) of
              None \<Rightarrow> Inl BUG
            | Some node \<Rightarrow>
                (case drm_mm_scan_add_block node mm of
                   Inl e \<Rightarrow> Inl e | Inr (hit, mm) \<Rightarrow> Inr (hit, obj # unwind, mm))))"

text \<open>The two loops over the object lists: stop at the first hit.\<close>

fun mark_list ::
  "(nat \<Rightarrow> i915_gem_object) \<Rightarrow> nat list \<Rightarrow> nat list \<Rightarrow> drm_mm \<Rightarrow> (bool \<times> nat list \<times> drm_mm) result" where
  "mark_list ob [] unwind mm = Inr (False, unwind, mm)"
| "mark_list ob (obj # rest) unwind mm =
     (case mark_free ob obj unwind mm of
        Inl e \<Rightarrow> Inl e
      | Inr (hit, unwind, mm) \<Rightarrow> if hit then Inr (True, unwind, mm) else mark_list ob rest unwind mm)"

text \<open>The loop behind the label \<open>none\<close>: a block that is flagged there is a bug.\<close>

fun unwind_none :: "(nat \<Rightarrow> i915_gem_object) \<Rightarrow> nat list \<Rightarrow> drm_mm \<Rightarrow> drm_mm result" where
  "unwind_none ob [] mm = Inr mm"
| "unwind_none ob (obj # rest) mm =
     (case drm_mm_scan_remove_block (the (gtt_space (ob obj))) mm of
        Inl e \<Rightarrow> Inl e
      | Inr (ret, mm) \<Rightarrow> if ret then Inl BUG else unwind_none ob rest mm)"

text \<open>The first loop behind \<open>found\<close>: flagged objects move to the front of the eviction list.\<close>

fun unwind_found ::
  "(nat \<Rightarrow> i915_gem_object) \<Rightarrow> nat list \<Rightarrow> nat list \<Rightarrow> drm_mm \<Rightarrow> (nat list \<times> drm_mm) result" where
  "unwind_found ob [] eviction mm = Inr (eviction, mm)"
| "unwind_found ob (obj # rest) eviction mm =
     (case drm_mm_scan_remove_block (the (gtt_space (ob obj))) mm of
        Inl e \<Rightarrow> Inl e
      | Inr (evict, mm) \<Rightarrow> unwind_found ob rest (if evict then obj # eviction else eviction) mm)"

definition i915_gem_object_unbind :: "(nat \<Rightarrow> unit result) \<Rightarrow> nat \<Rightarrow> i915_mm \<Rightarrow> (unit result \<times> i915_mm) result" where
  "i915_gem_object_unbind gpu obj d =
     (case gtt_space (objs d obj) of
        None \<Rightarrow> Inr (Inr (), d)
      | Some node \<Rightarrow>
          if pin_count (objs d obj) \<noteq> 0 then Inr (Inl EBUSY, d)
          else (case gpu obj of
                  Inl e \<Rightarrow> Inr (Inl e, d)
                | Inr _ \<Rightarrow>
                    (case drm_mm_put_block node (gtt_mm d) of
                       Inl e \<Rightarrow> Inl e
                     | Inr mm \<Rightarrow>
                         Inr (Inr (), d\<lparr>gtt_mm := mm,
                            objs := (objs d)(obj := (objs d obj)\<lparr>gtt_space := None, gtt_offset := 0, map_and_fenceable := True\<rparr>),
                            inactive_list := remove1 obj (inactive_list d), active_list := remove1 obj (active_list d),
                            unbound_list := unbound_list d @ [obj]\<rparr>))))"

text \<open>The second loop behind \<open>found\<close>: after the first error nothing more is unbound.\<close>

fun unbind_all :: "(nat \<Rightarrow> unit result) \<Rightarrow> nat list \<Rightarrow> unit result \<Rightarrow> i915_mm \<Rightarrow> (unit result \<times> i915_mm) result" where
  "unbind_all gpu [] ret d = Inr (ret, d)"
| "unbind_all gpu (obj # rest) ret d =
     (case ret of
        Inl e \<Rightarrow> unbind_all gpu rest ret d
      | Inr _ \<Rightarrow>
          (case i915_gem_object_unbind gpu obj d of
             Inl e \<Rightarrow> Inl e
           | Inr (ret, d) \<Rightarrow> unbind_all gpu rest ret d))"

definition i915_gem_evict_something ::
  "(nat \<Rightarrow> unit result) \<Rightarrow> u32 \<Rightarrow> u32 \<Rightarrow> u32 \<Rightarrow> bool \<Rightarrow> bool \<Rightarrow> i915_mm \<Rightarrow> (unit result \<times> i915_mm) result" where
  "i915_gem_evict_something gpu min_size alignment cache_level mappable nonblocking d =
     (let mm = (if mappable
                then drm_mm_init_scan_with_range (scast min_size) alignment (ucast cache_level) 0 (mappable_end d) (gtt_mm d)
                else drm_mm_init_scan (scast min_size) alignment (ucast cache_level) (gtt_mm d))
      in (case mark_list (objs d) (inactive_list d @ (if nonblocking then [] else active_list d)) [] mm of
            Inl e \<Rightarrow> Inl e
          | Inr (found, unwind, mm) \<Rightarrow>
              if found
              then (case unwind_found (objs d) unwind [] mm of
                      Inl e \<Rightarrow> Inl e
                    | Inr (eviction, mm) \<Rightarrow> unbind_all gpu eviction (Inr ()) (d\<lparr>gtt_mm := mm\<rparr>))
              else (case unwind_none (objs d) unwind mm of
                      Inl e \<Rightarrow> Inl e
                    | Inr mm \<Rightarrow> Inr (Inl ENOSPC, d\<lparr>gtt_mm := mm\<rparr>))))"

subsection \<open>The scan\<close>

definition node_of :: "(nat \<Rightarrow> i915_gem_object) \<Rightarrow> nat \<Rightarrow> nat" where
  "node_of ob obj = the (gtt_space (ob obj))"

text \<open>The allocator's invariant, no colours, and every listed object has a block of its own.\<close>

definition evict_ok :: "i915_mm \<Rightarrow> bool" where
  "evict_ok d \<longleftrightarrow> mm_inv (gtt_mm d) \<and> color_adjust (gtt_mm d) = None \<and>
     distinct (map (node_of (objs d)) (inactive_list d @ active_list d)) \<and>
     (\<forall>x \<in> set (inactive_list d @ active_list d). gtt_space (objs d x) \<noteq> None \<and> blocks (gtt_mm d) (node_of (objs d) x) \<noteq> None)"

lemma mark_list_spec:
  assumes inv: "mm_inv mm0" and col: "color_adjust mm0 = None"
    and range: "\<forall>rs re. scan_lim mm0 = Some (rs, re) \<longrightarrow> range_args_ok mm0 (scan_size mm0) rs"
  shows "scan_path mm0 (map (node_of ob) U) m \<Longrightarrow> scan_hit_end m = 0 \<Longrightarrow> distinct (map (node_of ob) (xs @ U)) \<Longrightarrow>
    (\<forall>x \<in> set xs. gtt_space (ob x) \<noteq> None \<and> blocks mm0 (node_of ob x) \<noteq> None) \<Longrightarrow>
    \<exists>hit U' m'. mark_list ob xs U m = Inr (hit, U', m') \<and> scan_path mm0 (map (node_of ob) U') m' \<and>
      (hit \<longrightarrow> hit_ok mm0 (map (node_of ob) U') m') \<and> (\<not> hit \<longrightarrow> scan_hit_end m' = 0) \<and>
      set U' \<subseteq> set U \<union> {x \<in> set xs. pin_count (ob x) = 0}"
proof (induction xs arbitrary: U m)
  case (Cons x xs)
  show ?case
  proof (cases "pin_count (ob x) = 0")
    case False
    then have "mark_list ob (x # xs) U m = mark_list ob xs U m" by (simp add: mark_free_def)
    moreover have "\<exists>hit U' m'. mark_list ob xs U m = Inr (hit, U', m') \<and> scan_path mm0 (map (node_of ob) U') m' \<and>
      (hit \<longrightarrow> hit_ok mm0 (map (node_of ob) U') m') \<and> (\<not> hit \<longrightarrow> scan_hit_end m' = 0) \<and>
      set U' \<subseteq> set U \<union> {x \<in> set xs. pin_count (ob x) = 0}"
      by (rule Cons.IH [OF Cons.prems(1,2)]) (use Cons.prems(3,4) in auto)
    ultimately show ?thesis by auto
  next
    case True
    let ?n = "node_of ob x"
    have n: "blocks mm0 ?n \<noteq> None" "?n \<notin> set (map (node_of ob) U)" "gtt_space (ob x) = Some ?n"
      using Cons.prems(3,4) by (auto simp: node_of_def)
    obtain hit m1 where add: "drm_mm_scan_add_block ?n m = Inr (hit, m1)" "scan_path mm0 (?n # map (node_of ob) U) m1"
      using scan_add_total [OF inv Cons.prems(1) n(1,2)] by blast
    have mf: "mark_free ob x U m = Inr (hit, x # U, m1)"
      using True n(3) add(1) by (simp add: mark_free_def)
    show ?thesis
    proof (cases hit)
      case True
      with scan_hit [OF inv col Cons.prems(1) n(1,2) _ range] add mf \<open>pin_count (ob x) = 0\<close> show ?thesis by auto
    next
      case False
      then have z: "scan_hit_end m1 = 0" using scan_add_params(5) [OF add(1)] Cons.prems(2) by simp
      have "\<exists>hit U' m'. mark_list ob xs (x # U) m1 = Inr (hit, U', m') \<and> scan_path mm0 (map (node_of ob) U') m' \<and>
        (hit \<longrightarrow> hit_ok mm0 (map (node_of ob) U') m') \<and> (\<not> hit \<longrightarrow> scan_hit_end m' = 0) \<and>
        set U' \<subseteq> set (x # U) \<union> {x \<in> set xs. pin_count (ob x) = 0}"
        by (rule Cons.IH [OF _ z]) (use add(2) Cons.prems(3,4) in auto)
      with mf False \<open>pin_count (ob x) = 0\<close> show ?thesis by auto
    qed
  qed
qed auto

lemma unwind_none_spec:
  "scan_remove_all (map (node_of ob) U) m = Inr ([], m') \<Longrightarrow> unwind_none ob U m = Inr m'"
  by (induction U arbitrary: m) (auto simp: node_of_def split: sum.splits prod.splits if_splits)

lemma unwind_found_spec:
  "scan_remove_all (map (node_of ob) U) m = Inr (es, m') \<Longrightarrow>
   \<exists>ev'. unwind_found ob U ev m = Inr (ev' @ ev, m') \<and> map (node_of ob) ev' = rev es \<and> set ev' \<subseteq> set U"
proof (induction U arbitrary: m es ev)
  case (Cons x U)
  obtain r k where k: "drm_mm_scan_remove_block (node_of ob x) m = Inr (r, k)"
    using Cons.prems by (auto split: sum.splits prod.splits)
  obtain fs where fs: "scan_remove_all (map (node_of ob) U) k = Inr (fs, m')" "es = (if r then node_of ob x # fs else fs)"
    using Cons.prems k by (auto split: sum.splits prod.splits)
  obtain ev' where "unwind_found ob U (if r then x # ev else ev) k = Inr (ev' @ (if r then x # ev else ev), m')"
    "map (node_of ob) ev' = rev fs" "set ev' \<subseteq> set U"
    using Cons.IH [OF fs(1)] by metis
  with k fs(2) show ?case
    by (intro exI [of _ "ev' @ (if r then [x] else [])"]) (auto simp flip: node_of_def)
qed simp

subsection \<open>Unbinding\<close>

lemma put_block_spec:
  assumes "mm_inv mm" "blocks mm n \<noteq> None"
  obtains mm' where "drm_mm_put_block n mm = Inr mm'" "mm_inv mm'" "blocks mm' = (blocks mm)(n := None)"
    "region mm' = region mm" "color_adjust mm' = color_adjust mm"
proof (rule remove_node_spec [OF assms])
  fix mm1 assume r: "drm_mm_remove_node n mm = Inr mm1" "mm_inv mm1" "blocks mm1 = (blocks mm)(n := None)"
    "region mm1 = region mm" "color_adjust mm1 = color_adjust mm"
  let ?mm = "if num_unused mm1 < MM_UNUSED_TARGET
     then mm1\<lparr>unused_nodes := n # unused_nodes mm1, num_unused := num_unused mm1 + 1\<rparr> else mm1"
  have "blocks ?mm = blocks mm1" "region ?mm = region mm1" "mm_inv ?mm = mm_inv mm1" "color_adjust ?mm = color_adjust mm1"
    by (simp_all add: blocks_def region_def mm_inv_def fun_eq_iff)
  then show thesis by (intro that [of ?mm]) (simp_all add: drm_mm_put_block_def r)
qed

lemma unbind_all_spec:
  assumes "\<forall>x \<in> set ev. gpu x = Inr ()"
  shows "mm_inv (gtt_mm d) \<Longrightarrow> distinct ev \<Longrightarrow> distinct (map (node_of (objs d)) ev) \<Longrightarrow>
    (\<forall>x \<in> set ev. gtt_space (objs d x) \<noteq> None \<and> blocks (gtt_mm d) (node_of (objs d) x) \<noteq> None \<and> pin_count (objs d x) = 0) \<Longrightarrow>
    \<exists>d'. unbind_all gpu ev (Inr ()) d = Inr (Inr (), d') \<and> mm_inv (gtt_mm d') \<and> region (gtt_mm d') = region (gtt_mm d) \<and>
      color_adjust (gtt_mm d') = color_adjust (gtt_mm d) \<and>
      blocks (gtt_mm d') = (blocks (gtt_mm d)) |` (- node_of (objs d) ` set ev) \<and>
      (\<forall>x. x \<notin> set ev \<longrightarrow> objs d' x = objs d x) \<and> (\<forall>x \<in> set ev. gtt_space (objs d' x) = None)"
  using assms
proof (induction ev arbitrary: d)
  case (Cons x ev)
  let ?n = "node_of (objs d) x"
  have x: "gtt_space (objs d x) = Some ?n" "blocks (gtt_mm d) ?n \<noteq> None" "pin_count (objs d x) = 0"
    using Cons.prems(4) by (auto simp: node_of_def)
  obtain mm' where pb: "drm_mm_put_block ?n (gtt_mm d) = Inr mm'" "mm_inv mm'" "blocks mm' = (blocks (gtt_mm d))(?n := None)"
    "region mm' = region (gtt_mm d)" "color_adjust mm' = color_adjust (gtt_mm d)"
    using put_block_spec [OF Cons.prems(1) x(2)] by blast
  define d1 where "d1 = d\<lparr>gtt_mm := mm', objs := (objs d)(x := (objs d x)\<lparr>gtt_space := None, gtt_offset := 0, map_and_fenceable := True\<rparr>),
     inactive_list := remove1 x (inactive_list d), active_list := remove1 x (active_list d), unbound_list := unbound_list d @ [x]\<rparr>"
  have ub: "i915_gem_object_unbind gpu x d = Inr (Inr (), d1)"
    using x Cons.prems(5) pb(1) by (simp add: i915_gem_object_unbind_def d1_def)
  have same: "node_of (objs d1) y = node_of (objs d) y" "objs d1 y = objs d y" if "y \<in> set ev" for y
    using that Cons.prems(2) by (auto simp: d1_def node_of_def)
  then have im: "map (node_of (objs d1)) ev = map (node_of (objs d)) ev" by simp
  have ne: "node_of (objs d) y \<noteq> ?n" if "y \<in> set ev" for y
    using that Cons.prems(3) by (metis distinct.simps(2) image_eqI list.set_map list.simps(9))
  have "\<exists>d'. unbind_all gpu ev (Inr ()) d1 = Inr (Inr (), d') \<and> mm_inv (gtt_mm d') \<and> region (gtt_mm d') = region (gtt_mm d1) \<and>
      color_adjust (gtt_mm d') = color_adjust (gtt_mm d1) \<and>
      blocks (gtt_mm d') = (blocks (gtt_mm d1)) |` (- node_of (objs d1) ` set ev) \<and>
      (\<forall>x. x \<notin> set ev \<longrightarrow> objs d' x = objs d1 x) \<and> (\<forall>x \<in> set ev. gtt_space (objs d' x) = None)"
  proof (rule Cons.IH)
    show "mm_inv (gtt_mm d1)" by (simp add: d1_def pb)
    show "distinct (map (node_of (objs d1)) ev)" unfolding im using Cons.prems(3) by simp
    show "\<forall>x \<in> set ev. gtt_space (objs d1 x) \<noteq> None \<and> blocks (gtt_mm d1) (node_of (objs d1) x) \<noteq> None \<and> pin_count (objs d1 x) = 0"
    proof
      fix y assume y: "y \<in> set ev"
      have "blocks (gtt_mm d1) = (blocks (gtt_mm d))(?n := None)" by (simp add: d1_def pb)
      with y same [OF y] ne [OF y] Cons.prems(4) show "gtt_space (objs d1 y) \<noteq> None \<and> blocks (gtt_mm d1) (node_of (objs d1) y) \<noteq> None \<and> pin_count (objs d1 y) = 0"
        by simp
    qed
  qed (use Cons.prems im in auto)
  then obtain d' where d': "unbind_all gpu ev (Inr ()) d1 = Inr (Inr (), d')" "mm_inv (gtt_mm d')" "region (gtt_mm d') = region (gtt_mm d1)"
    "color_adjust (gtt_mm d') = color_adjust (gtt_mm d1)"
    "blocks (gtt_mm d') = (blocks (gtt_mm d1)) |` (- node_of (objs d1) ` set ev)"
    "\<forall>x. x \<notin> set ev \<longrightarrow> objs d' x = objs d1 x" "\<forall>x \<in> set ev. gtt_space (objs d' x) = None" by blast
  have b: "blocks (gtt_mm d') = (blocks (gtt_mm d)) |` (- node_of (objs d) ` set (x # ev))"
  proof -
    have "node_of (objs d1) ` set ev = node_of (objs d) ` set ev" using same(1) by (metis image_cong)
    then show ?thesis using d'(5) by (auto simp: d1_def pb restrict_map_def fun_eq_iff)
  qed
  show ?case
  proof (intro exI [of _ d'] conjI)
    show "unbind_all gpu (x # ev) (Inr ()) d = Inr (Inr (), d')" by (simp add: ub d')
    show "region (gtt_mm d') = region (gtt_mm d)" "color_adjust (gtt_mm d') = color_adjust (gtt_mm d)"
      by (simp_all add: d' d1_def pb)
    show "\<forall>y. y \<notin> set (x # ev) \<longrightarrow> objs d' y = objs d y" using d'(6) by (simp add: d1_def)
    show "\<forall>y \<in> set (x # ev). gtt_space (objs d' y) = None" using d'(6,7) Cons.prems(2) by (simp add: d1_def)
  qed (use d' b in auto)
qed auto

subsection \<open>Eviction makes room\<close>

definition evict_lim :: "bool \<Rightarrow> i915_mm \<Rightarrow> (u64 \<times> u64) option" where
  "evict_lim mappable d = (if mappable then Some (0, mappable_end d) else None)"

lemma init_scan_facts:
  fixes mappable d sz alignment col
  defines "mm0 \<equiv> (if mappable then drm_mm_init_scan_with_range sz alignment col 0 (mappable_end d) (gtt_mm d)
     else drm_mm_init_scan sz alignment col (gtt_mm d))"
  shows "mm_inv mm0 = mm_inv (mm0\<lparr>scan_color := 0\<rparr>)" "blocks mm0 = blocks (gtt_mm d)" "region mm0 = region (gtt_mm d)"
    "color_adjust mm0 = color_adjust (gtt_mm d)" "scan_size mm0 = sz" "scan_alignment mm0 = alignment"
    "scan_lim mm0 = evict_lim mappable d" "scan_hit_end mm0 = 0" "start (nodes mm0 HEAD) = start (nodes (gtt_mm d) HEAD)"
    "mm_inv (gtt_mm d) \<Longrightarrow> mm_inv mm0"
  by (simp_all add: mm0_def drm_mm_init_scan_with_range_def drm_mm_init_scan_def scan_lim_def evict_lim_def
      mm_inv_def blocks_def region_def fun_eq_iff)

text \<open>The whole function, when the GPU never reports an error.\<close>

lemma evict_something_spec:
  assumes ok: "evict_ok d" and gpu: "\<forall>x. gpu x = Inr ()"
    and range: "mappable \<longrightarrow> range_args_ok (gtt_mm d) (scast min_size) 0"
  obtains (none) d' where "i915_gem_evict_something gpu min_size alignment cl mappable nonblocking d = Inr (Inl ENOSPC, d')"
      "mm_inv (gtt_mm d')" "blocks (gtt_mm d') = blocks (gtt_mm d)" "objs d' = objs d"
  | (found) ev d' where "i915_gem_evict_something gpu min_size alignment cl mappable nonblocking d = Inr (Inr (), d')"
      "mm_inv (gtt_mm d')" "color_adjust (gtt_mm d') = None" "start (nodes (gtt_mm d') HEAD) = start (nodes (gtt_mm d) HEAD)"
      "blocks (gtt_mm d') = (blocks (gtt_mm d)) |` (- node_of (objs d) ` set ev)"
      "set ev \<subseteq> {x \<in> set (inactive_list d @ active_list d). pin_count (objs d x) = 0}"
      "\<exists>a. aligned alignment a \<and> in_lim (evict_lim mappable d) a (unat (scast min_size :: u64)) \<and>
         free_at (gtt_mm d') a (unat (scast min_size :: u64))"
proof -
  let ?ob = "objs d" and ?xs = "inactive_list d @ (if nonblocking then [] else active_list d)"
  define mm0 where "mm0 = (if mappable
     then drm_mm_init_scan_with_range (scast min_size) alignment (ucast cl) 0 (mappable_end d) (gtt_mm d)
     else drm_mm_init_scan (scast min_size) alignment (ucast cl) (gtt_mm d))"
  note i = init_scan_facts [where mappable = mappable and sz = "scast min_size" and alignment = alignment and
      col = "ucast cl" and d = d, folded mm0_def]
  have inv: "mm_inv mm0" and col: "color_adjust mm0 = None" using ok i by (simp_all add: evict_ok_def)
  have rng: "\<forall>rs re. scan_lim mm0 = Some (rs, re) \<longrightarrow> range_args_ok mm0 (scan_size mm0) rs"
    using range i by (simp add: evict_lim_def range_args_ok_def)
  have xs: "distinct (map (node_of ?ob) (?xs @ []))"
    "\<forall>x \<in> set ?xs. gtt_space (?ob x) \<noteq> None \<and> blocks mm0 (node_of ?ob x) \<noteq> None"
    using ok i by (auto simp: evict_ok_def)
  have p0: "scan_path mm0 (map (node_of ?ob) []) mm0" by (simp add: scan_start)
  obtain hit U m where ml: "mark_list ?ob ?xs [] mm0 = Inr (hit, U, m)" "scan_path mm0 (map (node_of ?ob) U) m"
    "hit \<longrightarrow> hit_ok mm0 (map (node_of ?ob) U) m" "\<not> hit \<longrightarrow> scan_hit_end m = 0" "set U \<subseteq> {x \<in> set ?xs. pin_count (?ob x) = 0}"
    using mark_list_spec [OF inv col rng p0 i(8) xs] by auto
  obtain es m2 where un: "scan_remove_all (map (node_of ?ob) U) m = Inr (es, m2)" "scan_eq m2 mm0"
    "distinct (map (node_of ?ob) U) \<longrightarrow> distinct es"
    "\<forall>b x l. b \<in> set (map (node_of ?ob) U) \<and> blocks mm0 b = Some (x, l) \<and> unat (scan_hit_start m) < x + l \<and>
       x < unat (scan_hit_end m) \<longrightarrow> b \<in> set es" "scan_hit_end m = 0 \<longrightarrow> es = []"
    using scan_unwind [OF ml(2) inv scan_eq_refl] by blast
  note e2 = scan_eq_inv [OF un(2)]
  have head2: "start (nodes m2 HEAD) = start (nodes (gtt_mm d) HEAD)" "color_adjust m2 = None"
    using scan_eq_nodes(7) [OF un(2)] un(2) i(9) col by (simp_all add: scan_eq_def)
  show thesis
  proof (cases hit)
    case False
    then have "es = []" using ml(4) un(5) by simp
    with un(1) have "unwind_none ?ob U m = Inr m2" by (intro unwind_none_spec) simp
    then show thesis
      using False ml(1) inv e2 i(2)
      by (intro none [of "d\<lparr>gtt_mm := m2\<rparr>"]) (simp_all add: i915_gem_evict_something_def Let_def flip: mm0_def)
  next
    case True
    obtain ev where ev: "unwind_found ?ob U [] m = Inr (ev, m2)" "map (node_of ?ob) ev = rev es" "set ev \<subseteq> set U"
      using unwind_found_spec [OF un(1), of "[]"] by auto
    let ?d = "d\<lparr>gtt_mm := m2\<rparr>"
    have des: "distinct (map (node_of ?ob) ev)"
      using scan_path_distinct [OF ml(2)] un(3) by (simp add: ev(2))
    have evx: "\<forall>x \<in> set ev. gtt_space (?ob x) \<noteq> None \<and> blocks m2 (node_of ?ob x) \<noteq> None \<and> pin_count (?ob x) = 0"
      using xs(2) ml(5) ev(3) e2(2) by auto
    have "\<exists>d'. unbind_all gpu ev (Inr ()) ?d = Inr (Inr (), d') \<and> mm_inv (gtt_mm d') \<and> region (gtt_mm d') = region (gtt_mm ?d) \<and>
      color_adjust (gtt_mm d') = color_adjust (gtt_mm ?d) \<and>
      blocks (gtt_mm d') = (blocks (gtt_mm ?d)) |` (- node_of (objs ?d) ` set ev) \<and>
      (\<forall>x. x \<notin> set ev \<longrightarrow> objs d' x = objs ?d x) \<and> (\<forall>x \<in> set ev. gtt_space (objs d' x) = None)"
      by (rule unbind_all_spec) (use gpu inv e2 des evx in \<open>auto simp: distinct_map\<close>)
    then obtain d' where d': "unbind_all gpu ev (Inr ()) ?d = Inr (Inr (), d')" "mm_inv (gtt_mm d')" "region (gtt_mm d') = region m2"
      "color_adjust (gtt_mm d') = color_adjust m2" "blocks (gtt_mm d') = (blocks m2) |` (- node_of ?ob ` set ev)"
      by auto
    have ses: "node_of ?ob ` set ev = set es" by (metis ev(2) list.set_map set_rev)
    have bl: "blocks (gtt_mm d') = (blocks mm0) |` (- set es)" using d'(5) e2(2) ses by simp
    have "region (gtt_mm d') = region mm0" using d'(3) e2(3) by simp
    from hit_free [OF _ bl this un(4)] ml(3) True
    have place: "\<exists>a. aligned alignment a \<and> in_lim (evict_lim mappable d) a (unat (scast min_size :: u64)) \<and>
         free_at (gtt_mm d') a (unat (scast min_size :: u64))"
      by (simp add: i)
    have st: "start (nodes (gtt_mm d') HEAD) = start (nodes (gtt_mm d) HEAD)"
    proof -
      have "unat (start (nodes (gtt_mm d') HEAD)) = unat (start (nodes (gtt_mm d) HEAD))"
        using d'(3) e2(3) i(3) by (simp add: region_def)
      then show ?thesis by (simp add: unsigned_word_eqI)
    qed
    show thesis
    proof (rule found [OF _ d'(2) _ st _ _ place])
      show "i915_gem_evict_something gpu min_size alignment cl mappable nonblocking d = Inr (Inr (), d')"
        using True ml(1) ev(1) d'(1) by (simp add: i915_gem_evict_something_def Let_def flip: mm0_def)
      show "color_adjust (gtt_mm d') = None" using d'(4) head2 by simp
      show "blocks (gtt_mm d') = (blocks (gtt_mm d)) |` (- node_of ?ob ` set ev)" using bl i(2) ses by simp
      show "set ev \<subseteq> {x \<in> set (inactive_list d @ active_list d). pin_count (?ob x) = 0}"
        using ev(3) ml(5) by (auto split: if_splits)
    qed
  qed
qed

text \<open>The request that the scan was made for, as \<open>i915_gem_object_bind_to_gtt\<close> issues it.\<close>

definition insert_req :: "bool \<Rightarrow> u64 \<Rightarrow> drm_mm \<Rightarrow> nat \<Rightarrow> u64 \<Rightarrow> u32 \<Rightarrow> u64 \<Rightarrow> drm_mm result" where
  "insert_req mappable mend mm n sz al col =
     (if mappable then drm_mm_insert_node_in_range_generic mm n sz al col 0 mend
      else drm_mm_insert_node_generic mm n sz al col)"

lemma insert_req_succeeds:
  assumes inv: "mm_inv mm" and col: "color_adjust mm = None" and n: "fresh_node mm n" and sz: "sz \<noteq> 0"
    and range: "mappable \<longrightarrow> range_args_ok mm sz 0"
    and place: "\<exists>a. aligned al a \<and> in_lim (if mappable then Some (0, mend) else None) a (unat sz) \<and> free_at mm a (unat sz)"
  shows "\<exists>mm'. insert_req mappable mend mm n sz al c = Inr mm'"
proof -
  let ?lim = "if mappable then Some (0, mend) else None"
  have eq: "insert_lim mm n sz al c ?lim = insert_req mappable mend mm n sz al c"
    by (simp add: insert_lim_def insert_req_def)
  have rng: "\<forall>rs re. ?lim = Some (rs, re) \<longrightarrow> range_args_ok mm sz rs" using range by simp
  have law: "color_law mm" using col by (simp add: color_law_def)
  have "\<exists>h \<in> set (hole_stack mm). fits mm sz al c ?lim h"
    using place free_at_fits [OF inv col _ sz _ _ rng] by blast
  then show ?thesis
    by (cases rule: insert_lim_cases [OF inv law n sz rng, of al c, unfolded eq]) auto
qed



end
