(* ===== verification/I915_Tiling.thy ===== *)
theory I915_Tiling
  imports I915_Evict
begin

text \<open>
  Tiling of buffer objects (\<open>i915_gem_tiling.c\<close>, and the size and alignment of a fenced object from
  \<open>i915_gem.c\<close>): which strides are accepted, when an object has to move in the graphics translation
  table, and the exchange of half cache lines that keeps the contents of an object right for the graphics
  unit when its pages move in memory.

  The object has been looked up; the reference that this takes is dropped at the end and left out. Bytes
  are \<open>u8\<close>; a page is the list of its bytes.
\<close>

subsection \<open>State\<close>

text \<open>
  The values of the tiling modes are in \<open>i915_drm.h\<close>, which is not part of the repository: three different
  ones that fit into the two bits the object has for them. The swizzling modes are only compared.
\<close>

record tiling_h =
  TILING_NONE :: u32
  TILING_X :: u32
  TILING_Y :: u32

definition tiling_h_ok :: "tiling_h \<Rightarrow> bool" where
  "tiling_h_ok T \<longleftrightarrow> TILING_NONE T < 4 \<and> TILING_X T < 4 \<and> TILING_Y T < 4 \<and> distinct [TILING_NONE T, TILING_X T, TILING_Y T]"

datatype swizzle =
    SWIZZLE_NONE | SWIZZLE_9 | SWIZZLE_9_10 | SWIZZLE_9_11 | SWIZZLE_9_10_11 | SWIZZLE_UNKNOWN | SWIZZLE_9_17 | SWIZZLE_9_10_17

text \<open>What the code asks about the chip.\<close>

record i915_chip =
  gen :: nat
  is_mobile :: bool
  is_g33 :: bool
  is_valleyview :: bool
  is_i915g :: bool
  is_i915gm :: bool

text \<open>The fields of an object for tiling; \<open>bit_17\<close> is the saved bit of each page, if there is memory for it.\<close>

record tiling_object =
  obj_size :: u64
  tiling_mode :: u32
  stride :: u32
  fenced_gpu_access :: bool
  has_fence_reg :: bool
  fence_dirty :: bool
  bit_17 :: "(nat \<Rightarrow> bool) option"

record i915_dev =
  gtt :: i915_mm
  tobjs :: "nat \<Rightarrow> tiling_object"
  bit_6_swizzle_x :: swizzle
  bit_6_swizzle_y :: swizzle

subsection \<open>Detecting the swizzling\<close>

text \<open>The registers that are read.\<close>

record swizzle_regs =
  reg_dimm_c0 :: u32
  reg_dimm_c1 :: u32
  reg_dcc :: u32
  reg_c0drb3 :: u16
  reg_c1drb3 :: u16

definition MAD_DIMM_SIZE_MASK :: u32 where
  "MAD_DIMM_SIZE_MASK = 0xffff"

definition dcc_swizzle :: "u32 \<Rightarrow> swizzle \<times> swizzle" where
  "dcc_swizzle dcc =
     (let mode = dcc AND 3
      in if dcc = 0xffffffff then (SWIZZLE_UNKNOWN, SWIZZLE_UNKNOWN)
         else if mode = 0 \<or> mode = 1 then (SWIZZLE_NONE, SWIZZLE_NONE)
         else if mode = 2
         then if dcc AND 0x400 \<noteq> 0 then (SWIZZLE_9_10, SWIZZLE_9)
              else if dcc AND 0x200 = 0 then (SWIZZLE_9_10_11, SWIZZLE_9_11)
              else (SWIZZLE_9_10_17, SWIZZLE_9_17)
         else (SWIZZLE_UNKNOWN, SWIZZLE_UNKNOWN))"

definition i915_gem_detect_bit_6_swizzle :: "i915_chip \<Rightarrow> swizzle_regs \<Rightarrow> i915_dev \<Rightarrow> i915_dev" where
  "i915_gem_detect_bit_6_swizzle c g d =
     (let (x, y) = (if is_valleyview c then (SWIZZLE_NONE, SWIZZLE_NONE)
                    else if gen c \<ge> 6
                    then if reg_dimm_c0 g AND MAD_DIMM_SIZE_MASK = reg_dimm_c1 g AND MAD_DIMM_SIZE_MASK then (SWIZZLE_9_10, SWIZZLE_9)
                         else (SWIZZLE_NONE, SWIZZLE_NONE)
                    else if gen c = 5 then (SWIZZLE_9_10, SWIZZLE_9)
                    else if gen c = 2 then (SWIZZLE_NONE, SWIZZLE_NONE)
                    else if is_mobile c \<or> gen c = 3 \<and> \<not> is_g33 c then dcc_swizzle (reg_dcc g)
                    else if reg_c0drb3 g \<noteq> reg_c1drb3 g then (SWIZZLE_NONE, SWIZZLE_NONE)
                    else (SWIZZLE_9_10, SWIZZLE_9))
      in d\<lparr>bit_6_swizzle_x := x, bit_6_swizzle_y := y\<rparr>)"

subsection \<open>Strides, sizes and alignments\<close>

definition tile_width :: "tiling_h \<Rightarrow> i915_chip \<Rightarrow> u32 \<Rightarrow> int" where
  "tile_width T c mode =
     (if gen c = 2 \<or> mode = TILING_Y T \<and> gen c \<noteq> 2 \<and> \<not> (is_i915g c \<or> is_i915gm c) then 128 else 512)"

definition I830_FENCE_MAX_SIZE_VAL :: int where "I830_FENCE_MAX_SIZE_VAL = 2 ^ 8"

definition I965_FENCE_MAX_PITCH_VAL :: int where "I965_FENCE_MAX_PITCH_VAL = 0x400"

definition GEN7_FENCE_MAX_PITCH_VAL :: int where "GEN7_FENCE_MAX_PITCH_VAL = 0x800"

definition pitch_or_size_too_big :: "i915_chip \<Rightarrow> int \<Rightarrow> int \<Rightarrow> bool" where
  "pitch_or_size_too_big c st sz \<longleftrightarrow>
     (if gen c \<ge> 7 then cdiv st 128 > GEN7_FENCE_MAX_PITCH_VAL
      else if gen c \<ge> 4 then cdiv st 128 > I965_FENCE_MAX_PITCH_VAL
      else st > 8192 \<or> sz > I830_FENCE_MAX_SIZE_VAL * (if gen c = 3 then 2 ^ 20 else 2 ^ 19))"

text \<open>The stride and the size are \<open>int\<close> here.\<close>

definition i915_tiling_ok :: "tiling_h \<Rightarrow> i915_chip \<Rightarrow> int \<Rightarrow> int \<Rightarrow> u32 \<Rightarrow> bool" where
  "i915_tiling_ok T c st sz mode =
     (if mode = TILING_NONE T then True
      else if pitch_or_size_too_big c st sz then False
      else if st < tile_width T c mode then False
      else if gen c \<ge> 4 then st AND (tile_width T c mode - 1) = 0
      else st AND (st - 1) = 0)"

text \<open>The loop that doubles the size. \<open>None\<close>: it does not end.\<close>

partial_function (option) gtt_size_loop :: "u32 \<Rightarrow> u32 \<Rightarrow> u32 option" where
  "gtt_size_loop sz gtt_size = (if gtt_size < sz then gtt_size_loop sz (push_bit 1 gtt_size) else Some gtt_size)"

definition first_gtt_size :: "i915_chip \<Rightarrow> u32" where
  "first_gtt_size c = (if gen c = 3 then 1024 * 1024 else 512 * 1024)"

definition i915_gem_get_gtt_size :: "tiling_h \<Rightarrow> i915_chip \<Rightarrow> u32 \<Rightarrow> u32 \<Rightarrow> u32 option" where
  "i915_gem_get_gtt_size T c sz mode =
     (if gen c \<ge> 4 \<or> mode = TILING_NONE T then Some sz else gtt_size_loop sz (first_gtt_size c))"

definition i915_gem_get_gtt_alignment :: "tiling_h \<Rightarrow> i915_chip \<Rightarrow> u32 \<Rightarrow> u32 \<Rightarrow> bool \<Rightarrow> u32 option" where
  "i915_gem_get_gtt_alignment T c sz mode fenced =
     (if gen c \<ge> 4 \<or> \<not> fenced \<and> is_g33 c \<or> mode = TILING_NONE T then Some 4096
      else i915_gem_get_gtt_size T c sz mode)"

text \<open>\<open>space\<close> is the size of the block the object has.\<close>

definition i915_gem_object_fence_ok :: "tiling_h \<Rightarrow> i915_chip \<Rightarrow> u64 \<Rightarrow> u32 \<Rightarrow> u64 \<Rightarrow> u32 \<Rightarrow> bool option" where
  "i915_gem_object_fence_ok T c sz offset space mode =
     (if mode = TILING_NONE T \<or> gen c \<ge> 4 then Some True
      else if offset AND NOT (if gen c = 3 then 0x0ff00000 else 0x07f80000) \<noteq> 0 then Some False
      else map_option (\<lambda>fsize. space = ucast fsize \<and> offset AND (fsize - 1) = 0)
             (i915_gem_get_gtt_size T c (ucast sz) mode))"

subsection \<open>The ioctls\<close>

record tiling_args =
  arg_tiling_mode :: u32
  arg_stride :: u32
  arg_swizzle_mode :: swizzle

definition hide_bit_17 :: "swizzle \<Rightarrow> swizzle" where
  "hide_bit_17 w = (case w of SWIZZLE_9_17 \<Rightarrow> SWIZZLE_9 | SWIZZLE_9_10_17 \<Rightarrow> SWIZZLE_9_10 | _ \<Rightarrow> w)"

definition choose_tiling :: "tiling_h \<Rightarrow> tiling_args \<Rightarrow> i915_dev \<Rightarrow> tiling_args" where
  "choose_tiling T a d =
     (let untiled = a\<lparr>arg_tiling_mode := TILING_NONE T, arg_swizzle_mode := SWIZZLE_NONE, arg_stride := 0\<rparr>
      in if arg_tiling_mode a = TILING_NONE T then untiled
         else let w = hide_bit_17 (if arg_tiling_mode a = TILING_X T then bit_6_swizzle_x d else bit_6_swizzle_y d)
              in if w = SWIZZLE_UNKNOWN then untiled else a\<lparr>arg_swizzle_mode := w\<rparr>)"

definition i915_gem_object_needs_bit17_swizzle :: "tiling_h \<Rightarrow> nat \<Rightarrow> i915_dev \<Rightarrow> bool" where
  "i915_gem_object_needs_bit17_swizzle T p d \<longleftrightarrow> bit_6_swizzle_x d = SWIZZLE_9_10_17 \<and> tiling_mode (tobjs d p) \<noteq> TILING_NONE T"

text \<open>Whether the object can stay where it is and be fenced there.\<close>

definition fenceable_as :: "tiling_h \<Rightarrow> i915_chip \<Rightarrow> nat \<Rightarrow> u32 \<Rightarrow> i915_dev \<Rightarrow> bool option" where
  "fenceable_as T c p mode d =
     (let b = objs (gtt d) p; sz = obj_size (tobjs d p)
      in case gtt_space b of
           None \<Rightarrow> Some True
         | Some node \<Rightarrow>
             if ucast (gtt_offset b) + sz \<le> mappable_end (gtt d)
             then i915_gem_object_fence_ok T c sz (gtt_offset b) (drm_mm_node.size (nodes (gtt_mm (gtt d)) node)) mode
             else Some False)"

text \<open>The part that may have to move the object. The result is the variable \<open>ret\<close>.\<close>

definition rebind_for :: "tiling_h \<Rightarrow> i915_chip \<Rightarrow> (nat \<Rightarrow> unit result) \<Rightarrow> nat \<Rightarrow> u32 \<Rightarrow> i915_dev \<Rightarrow> (unit result \<times> i915_dev) result option" where
  "rebind_for T c gpu p mode d =
     (case fenceable_as T c p mode d of
        None \<Rightarrow> None
      | Some mf \<Rightarrow>
          let g = gtt d;
              d = d\<lparr>gtt := g\<lparr>objs := (objs g)(p := (objs g p)\<lparr>map_and_fenceable := mf\<rparr>)\<rparr>\<rparr>
          in if mf then Some (Inr (Inr (), d))
             else case i915_gem_get_gtt_alignment T c (ucast (obj_size (tobjs d p))) mode False of
                    None \<Rightarrow> None
                  | Some align \<Rightarrow>
                      if gtt_offset (objs (gtt d) p) AND (align - 1) = 0 then Some (Inr (Inr (), d))
                      else Some (case i915_gem_object_unbind gpu p (gtt d) of
                                   Inl e \<Rightarrow> Inl e
                                 | Inr (ret, g) \<Rightarrow> Inr (ret, d\<lparr>gtt := g\<rparr>)))"

text \<open>The object has two bits for the mode.\<close>

definition set_tiling_of :: "nat \<Rightarrow> u32 \<Rightarrow> u32 \<Rightarrow> i915_dev \<Rightarrow> i915_dev" where
  "set_tiling_of p mode st d =
     (let t = tobjs d p
      in d\<lparr>tobjs := (tobjs d)(p := t\<lparr>fence_dirty := (fenced_gpu_access t \<or> has_fence_reg t), tiling_mode := mode AND 3, stride := st\<rparr>)\<rparr>)"

text \<open>\<open>fresh_bits\<close>: the memory that \<open>kmalloc\<close> gives for the saved bits, with whatever is in it, or none.\<close>

definition prepare_bit_17 :: "tiling_h \<Rightarrow> (nat \<Rightarrow> bool) option \<Rightarrow> nat \<Rightarrow> i915_dev \<Rightarrow> i915_dev" where
  "prepare_bit_17 T fresh_bits p d =
     (let t = tobjs d p
      in d\<lparr>tobjs := (tobjs d)(p := t\<lparr>bit_17 :=
           (if i915_gem_object_needs_bit17_swizzle T p d
            then (case bit_17 t of None \<Rightarrow> fresh_bits | Some m \<Rightarrow> Some m) else None)\<rparr>)\<rparr>)"

definition i915_gem_set_tiling :: "tiling_h \<Rightarrow> i915_chip \<Rightarrow> (nat \<Rightarrow> unit result) \<Rightarrow> (nat \<Rightarrow> bool) option \<Rightarrow> nat ptr \<Rightarrow> tiling_args \<Rightarrow>
    i915_dev \<Rightarrow> (unit result \<times> tiling_args \<times> i915_dev) result option" where
  "i915_gem_set_tiling T c gpu fresh_bits obj a d =
     (case obj of
        None \<Rightarrow> Some (Inr (Inl ENOENT, a, d))
      | Some p \<Rightarrow>
          if \<not> i915_tiling_ok T c (sint (arg_stride a)) (wrap32 (uint (obj_size (tobjs d p)))) (arg_tiling_mode a)
          then Some (Inr (Inl EINVAL, a, d))
          else if pin_count (objs (gtt d) p) \<noteq> 0 then Some (Inr (Inl EBUSY, a, d))
          else
            let a = choose_tiling T a d;
                finish = (\<lambda>ret d.
                  let a = a\<lparr>arg_stride := stride (tobjs d p), arg_tiling_mode := tiling_mode (tobjs d p)\<rparr>
                  in Some (Inr (ret, a, prepare_bit_17 T fresh_bits p d)))
            in if arg_tiling_mode a = tiling_mode (tobjs d p) \<and> arg_stride a = stride (tobjs d p) then finish (Inr ()) d
               else case rebind_for T c gpu p (arg_tiling_mode a) d of
                      None \<Rightarrow> None
                    | Some (Inl e) \<Rightarrow> Some (Inl e)
                    | Some (Inr (Inl e, d)) \<Rightarrow> finish (Inl e) d
                    | Some (Inr (Inr _, d)) \<Rightarrow> finish (Inr ()) (set_tiling_of p (arg_tiling_mode a) (arg_stride a) d))"

definition i915_gem_get_tiling :: "tiling_h \<Rightarrow> nat ptr \<Rightarrow> tiling_args \<Rightarrow> i915_dev \<Rightarrow> unit result \<times> tiling_args" where
  "i915_gem_get_tiling T obj a d =
     (case obj of
        None \<Rightarrow> (Inl ENOENT, a)
      | Some p \<Rightarrow>
          let mode = tiling_mode (tobjs d p);
              w = (if mode = TILING_X T then bit_6_swizzle_x d
                   else if mode = TILING_Y T then bit_6_swizzle_y d
                   else if mode = TILING_NONE T then SWIZZLE_NONE
                   else arg_swizzle_mode a)
          in (Inr (), a\<lparr>arg_tiling_mode := mode, arg_swizzle_mode := hide_bit_17 w\<rparr>))"

subsection \<open>Pages\<close>

definition PAGE_SIZE :: nat where "PAGE_SIZE = 4096"

text \<open>The loop of \<open>i915_gem_swizzle_page\<close>: the halves of every 128 bytes change places.\<close>

fun swizzle_bytes :: "u8 list \<Rightarrow> u8 list" where
  "swizzle_bytes va =
     (if length va < 128 then va
      else take 64 (drop 64 va) @ take 64 va @ swizzle_bytes (drop 128 va))"

declare swizzle_bytes.simps [simp del]

definition i915_gem_swizzle_page :: "u8 list \<Rightarrow> u8 list" where
  "i915_gem_swizzle_page va = swizzle_bytes va"

text \<open>\<open>phys i\<close> is the physical address of the \<open>i\<close>-th page.\<close>

definition i915_gem_object_do_bit_17_swizzle :: "(nat \<Rightarrow> u64) \<Rightarrow> tiling_object \<Rightarrow> u8 list list \<Rightarrow> u8 list list" where
  "i915_gem_object_do_bit_17_swizzle phys t pages =
     (case bit_17 t of
        None \<Rightarrow> pages
      | Some saved \<Rightarrow>
          map (\<lambda>i. if (drop_bit 17 (phys i) AND 1 = 1) \<noteq> saved i then i915_gem_swizzle_page (pages ! i) else pages ! i)
            [0..<length pages])"

definition i915_gem_object_save_bit_17_swizzle :: "(nat \<Rightarrow> bool) option \<Rightarrow> (nat \<Rightarrow> u64) \<Rightarrow> nat \<Rightarrow> tiling_object \<Rightarrow> tiling_object" where
  "i915_gem_object_save_bit_17_swizzle fresh_bits phys page_count t =
     (case (case bit_17 t of None \<Rightarrow> fresh_bits | Some m \<Rightarrow> Some m) of
        None \<Rightarrow> t
      | Some m \<Rightarrow> t\<lparr>bit_17 := Some (\<lambda>i. if i < page_count then phys i AND push_bit 17 1 \<noteq> 0 else m i)\<rparr>)"

end
