(* ===== verification/I915_Tiling_Props.thy ===== *)
theory I915_Tiling_Props
  imports I915_Tiling
begin

text \<open>
  Properties of tiling: when the size of a fenced object can be computed, what an accepted request leaves
  behind, and that the exchange of half lines keeps the contents for the graphics unit.
\<close>

subsection \<open>Powers of two\<close>

lemma bit_top:
  fixes m :: int
  assumes "2 ^ k \<le> m" "m < 2 ^ (k + 1)"
  shows "bit m k"
proof -
  have "m div 2 ^ k = 1"
    using assms by (intro div_pos_geq [THEN trans]) (auto simp: div_pos_pos_trivial)
  then show ?thesis by (simp add: bit_iff_odd)
qed

lemma power_of_two:
  fixes n :: int
  assumes "0 < n" "n AND (n - 1) = 0"
  shows "\<exists>k. n = 2 ^ k"
proof -
  have "1 \<le> nat n" using assms(1) by linarith
  from ex_power_ivl1 [OF order_refl this] obtain k where k: "2 ^ k \<le> nat n" "nat n < 2 ^ (k + 1)" by blast
  have "int (2 ^ k) \<le> n" "n < int (2 ^ (k + 1))" using k assms(1) by linarith+
  then have i: "2 ^ k \<le> n" "n < 2 ^ (k + 1)" by simp_all
  show ?thesis
  proof (rule ccontr)
    assume "\<not> ?thesis"
    with i have "2 ^ k \<le> n - 1" by (metis add_le_imp_le_diff order_le_less zless_imp_add1_zle)
    with i have "bit n k" "bit (n - 1) k" by (auto intro!: bit_top)
    then have "bit (n AND (n - 1)) k" by (simp add: bit_and_iff)
    with assms(2) show False by simp
  qed
qed

lemma and_low_bits: "(n :: int) AND (2 ^ k - 1) = n mod 2 ^ k"
  by (simp add: take_bit_eq_mod [symmetric] take_bit_eq_mask mask_eq_exp_minus_1)

subsection \<open>Strides\<close>

lemma tile_width_cases: "tile_width T c mode = 2 ^ 7 \<or> tile_width T c mode = 2 ^ 9"
  by (simp add: tile_width_def)

text \<open>What is accepted is a positive multiple of the tile, and small enough for a fence register.\<close>

lemma tiling_ok_stride:
  assumes "i915_tiling_ok T c st sz mode" "mode \<noteq> TILING_NONE T"
  shows "tile_width T c mode dvd st \<and> 0 < st \<and> (gen c < 4 \<longrightarrow> st \<le> 8192 \<and> (\<exists>k. st = 2 ^ k)) \<and>
    (4 \<le> gen c \<longrightarrow> st < 128 * (if gen c \<ge> 7 then 0x801 else 0x401))"
proof -
  have tw: "tile_width T c mode \<le> st" and big: "\<not> pitch_or_size_too_big c st sz"
    using assms by (auto simp: i915_tiling_ok_def split: if_splits)
  then have pos: "0 < st" using tile_width_cases [of T c mode] by auto
  have max: "st < 128 * (if gen c \<ge> 7 then 0x801 else 0x401)" if "4 \<le> gen c"
    using that big pos by (auto simp: pitch_or_size_too_big_def cdiv_nonneg GEN7_FENCE_MAX_PITCH_VAL_def I965_FENCE_MAX_PITCH_VAL_def
      split: if_splits)
  show ?thesis
  proof (cases "4 \<le> gen c")
    case True
    with assms have "st AND (tile_width T c mode - 1) = 0" by (auto simp: i915_tiling_ok_def split: if_splits)
    then have "tile_width T c mode dvd st" using tile_width_cases [of T c mode] and_low_bits [of st] by (metis dvd_eq_mod_eq_0)
    with True max pos show ?thesis by simp
  next
    case False
    with assms have "st AND (st - 1) = 0" by (auto simp: i915_tiling_ok_def split: if_splits)
    with pos obtain k where k: "st = 2 ^ k" using power_of_two by blast
    with tw tile_width_cases [of T c mode] obtain j where j: "tile_width T c mode = 2 ^ j" "(2 :: int) ^ j \<le> 2 ^ k" by metis
    then have "j \<le> k" by simp
    with j k have "tile_width T c mode dvd st" by (simp add: le_imp_power_dvd)
    with False pos k big show ?thesis by (auto simp: pitch_or_size_too_big_def)
  qed
qed

subsection \<open>The size of a fenced object\<close>

lemma gtt_size_partial:
  assumes "gtt_size_loop sz g = Some y"
  shows "\<exists>k. y = push_bit k g \<and> \<not> y < sz"
proof (rule gtt_size_loop.raw_induct [of "\<lambda>sz g y. \<exists>k. y = push_bit k g \<and> \<not> y < sz", OF _ assms])
  fix loop sz g y
  assume IH: "\<And>sz g y. loop sz g = Some y \<Longrightarrow> \<exists>k. y = push_bit k g \<and> \<not> y < sz"
    and y: "(if g < sz then loop sz (push_bit 1 g) else Some g) = Some (y :: u32)"
  show "\<exists>k. y = push_bit k g \<and> \<not> y < sz"
  proof (cases "g < sz")
    case True
    with y have "loop sz (push_bit 1 g) = Some y" by simp
    from IH [OF this] obtain k where "y = push_bit k (push_bit 1 g)" "\<not> y < sz" by blast
    then show ?thesis by (intro exI [of _ "k + 1"]) (simp add: push_bit_push_bit)
  next
    case False
    with y show ?thesis by (intro exI [of _ 0]) simp
  qed
qed

lemma unat_two_power:
  assumes "j < 32"
  shows "unat ((2 :: u32) ^ j) = 2 ^ j"
proof -
  have "(2 :: nat) ^ j < 2 ^ 32" using assms by (intro power_strict_increasing) simp_all
  moreover have "unat (of_nat n :: u32) = n" if "n < 2 ^ 32" for n using that by (simp add: unat_of_nat take_bit_nat_eq_self_iff)
  moreover have "(of_nat (2 ^ j) :: u32) = 2 ^ j" by simp
  ultimately show ?thesis by metis
qed

lemma unat_push_power_le: "unat (push_bit k ((2 :: u32) ^ j)) \<le> 2 ^ 31"
proof (cases "j + k < 32")
  case True
  then have "(2 :: nat) ^ (j + k) \<le> 2 ^ 31" by (intro power_increasing) simp_all
  moreover have "push_bit k ((2 :: u32) ^ j) = 2 ^ (j + k)" by (simp add: push_bit_eq_mult power_add mult.commute)
  ultimately show ?thesis using unat_two_power [OF True] by simp
next
  case False
  then have "push_bit k ((2 :: u32) ^ j) = 0" by (simp add: push_bit_eq_mult power_add [symmetric] exp_eq_zero_iff)
  then show ?thesis by simp
qed

text \<open>Started from a power of two the loop ends at the first one that is large enough, if there is one.\<close>

lemma gtt_size_total:
  assumes "unat sz \<le> 2 ^ 31" "j < 32"
  shows "\<exists>k < 32. gtt_size_loop sz (2 ^ j) = Some (2 ^ k) \<and> j \<le> k \<and> unat sz \<le> 2 ^ k \<and> (k = j \<or> 2 ^ k < 2 * unat sz)"
  using assms(2)
proof (induction "31 - j" arbitrary: j)
  case 0
  then have j: "j = 31" by simp
  have "\<not> (2 :: u32) ^ 31 < sz" using assms(1) by (simp add: word_less_nat_alt)
  with j have "gtt_size_loop sz (2 ^ j) = Some (2 ^ 31)" by (subst gtt_size_loop.simps) simp
  with j assms(1) show ?case by (intro exI [of _ 31]) simp
next
  case (Suc n)
  show ?case
  proof (cases "(2 :: u32) ^ j < sz")
    case False
    then show ?thesis using Suc.prems unat_two_power [OF Suc.prems]
      by (subst gtt_size_loop.simps) (auto simp: word_less_nat_alt not_less intro!: exI [of _ j])
  next
    case True
    from Suc.hyps(2) have "n = 31 - Suc j" "Suc j < 32" by simp_all
    from Suc.hyps(1) [OF this] obtain k where k: "k < 32" "gtt_size_loop sz (2 ^ Suc j) = Some (2 ^ k)" "Suc j \<le> k" "unat sz \<le> 2 ^ k"
      "k = Suc j \<or> 2 ^ k < 2 * unat sz" by blast
    moreover have "gtt_size_loop sz (2 ^ j) = gtt_size_loop sz (2 ^ Suc j)"
      using True by (subst gtt_size_loop.simps) (simp add: mult.commute)
    moreover have "2 ^ Suc j < 2 * unat sz" using True unat_two_power [OF Suc.prems] by (simp add: word_less_nat_alt)
    ultimately show ?thesis by (intro exI [of _ k]) auto
  qed
qed

lemma first_gtt_size_power: "\<exists>j < 32. first_gtt_size c = 2 ^ j"
  by (cases "gen c = 3") (auto simp: first_gtt_size_def intro: exI [of _ 20] exI [of _ 19])

lemma gtt_size_None:
  assumes "unat sz > 2 ^ 31"
  shows "gtt_size_loop sz (first_gtt_size c) = None"
proof (cases "gtt_size_loop sz (first_gtt_size c)")
  case (Some y)
  obtain j where "first_gtt_size c = 2 ^ j" using first_gtt_size_power by blast
  with gtt_size_partial [OF Some] obtain k where "y = push_bit k (2 ^ j)" "\<not> y < sz" by auto
  with unat_push_power_le [of k j] assms have False by (simp add: word_less_nat_alt)
  then show ?thesis ..
qed simp

text \<open>
  Claim C24. On chips that need a fence region of a power of two the computation of its size ends exactly for
  sizes up to 2 to the 31, with the least such region from the smallest one on that holds the object. For
  larger objects the shifted size becomes 0 and the loop runs for ever in the kernel. The check of a
  tiling request does not keep them out: it takes the size as \<open>int\<close>, which is negative then.
\<close>

theorem i915_gem_get_gtt_size_ends_iff:
  assumes "gen c < 4" "mode \<noteq> TILING_NONE T"
  shows "((\<exists>g. i915_gem_get_gtt_size T c sz mode = Some g) \<longleftrightarrow> unat sz \<le> 2 ^ 31) \<and>
    (\<forall>g. i915_gem_get_gtt_size T c sz mode = Some g \<longrightarrow>
       (\<exists>k. unat g = 2 ^ k) \<and> first_gtt_size c \<le> g \<and> sz \<le> g \<and> (g = first_gtt_size c \<or> unat g < 2 * unat sz)) \<and>
    (unat sz > 2 ^ 31 \<longrightarrow> i915_tiling_ok T c 512 (wrap32 (uint sz)) mode)"
proof -
  obtain j where j: "j < 32" "first_gtt_size c = 2 ^ j" using first_gtt_size_power by blast
  have eq: "i915_gem_get_gtt_size T c sz mode = gtt_size_loop sz (2 ^ j)"
    using assms j by (simp add: i915_gem_get_gtt_size_def)
  have huge: "i915_tiling_ok T c 512 (wrap32 (uint sz)) mode" if "unat sz > 2 ^ 31"
  proof -
    have "(0x80000000 :: u32) \<le> sz" using that by (simp add: word_le_nat_alt)
    then have "2 ^ 31 \<le> uint sz" by (simp add: word_le_def)
    from bit_top [OF this] have "bit (uint sz) 31" using uint_lt2p [of sz] by simp
    then have "wrap32 (uint sz) < 0" by (simp add: wrap32_def signed_take_bit_negative_iff)
    moreover have "(512 :: int) AND 511 = 0" by simp
    ultimately show ?thesis using assms(1)
      by (auto simp: i915_tiling_ok_def pitch_or_size_too_big_def tile_width_def I830_FENCE_MAX_SIZE_VAL_def)
  qed
  show ?thesis
  proof (cases "unat sz \<le> 2 ^ 31")
    case True
    from gtt_size_total [OF this j(1)] obtain k where k: "k < 32" "gtt_size_loop sz (2 ^ j) = Some (2 ^ k)" "j \<le> k" "unat sz \<le> 2 ^ k"
      "k = j \<or> 2 ^ k < 2 * unat sz" by blast
    have "(2 :: nat) ^ j \<le> 2 ^ k" using k(3) by (intro power_increasing) simp_all
    with True eq k j unat_two_power [OF k(1)] unat_two_power [OF j(1)] show ?thesis by (auto simp: word_le_nat_alt)
  next
    case False
    with gtt_size_None [of sz c] eq j huge show ?thesis by simp
  qed
qed

subsection \<open>Pages that move\<close>

lemma swizzle_length [simp]: "length (swizzle_bytes va) = length va"
  by (induction va rule: swizzle_bytes.induct) (subst swizzle_bytes.simps, simp)

lemma swizzle_twice:
  assumes "128 dvd length va"
  shows "swizzle_bytes (swizzle_bytes va) = va"
  using assms
proof (induction va rule: swizzle_bytes.induct)
  case (1 va)
  show ?case
  proof (cases "length va < 128")
    case True
    then show ?thesis by (simp add: swizzle_bytes.simps)
  next
    case False
    let ?r = "swizzle_bytes (drop 128 va)"
    have s: "swizzle_bytes va = take 64 (drop 64 va) @ take 64 va @ ?r"
      using False by (subst swizzle_bytes.simps) simp
    have "128 dvd length (drop 128 va)" using False "1.prems" by (simp add: dvd_diff_nat)
    with "1.IH" False have IH: "swizzle_bytes ?r = drop 128 va" by blast
    have "swizzle_bytes (swizzle_bytes va) = take 64 va @ take 64 (drop 64 va) @ swizzle_bytes ?r"
      unfolding s using False by (subst swizzle_bytes.simps) simp
    also have "\<dots> = take 64 va @ take 64 (drop 64 va) @ drop 64 (drop 64 va)" by (simp add: IH)
    also have "\<dots> = va" by (simp only: append_take_drop_id)
    finally show ?thesis .
  qed
qed

text \<open>What the graphics unit sees of a page: with bit 17 of its address set it takes bit 6 the other way round.\<close>

definition gpu_page :: "u64 \<Rightarrow> u8 list \<Rightarrow> u8 list" where
  "gpu_page addr pg = (if bit addr 17 then i915_gem_swizzle_page pg else pg)"

lemma bit_17_tests: "drop_bit 17 (w :: u64) AND 1 = 1 \<longleftrightarrow> bit w 17" "w AND 131072 \<noteq> 0 \<longleftrightarrow> bit w 17"
  using bit_iff_and_push_bit_not_eq_0 [of w 17] by (simp_all add: and_one_eq bit_iff_odd_drop_bit odd_iff_mod_2_eq_one)

text \<open>
  Claim C23. When the pages of an object are given back, their bits 17 are saved; when the same contents come
  back at other addresses, the pages whose bit has changed are swizzled, and the graphics unit sees in
  every page what it saw before.
\<close>

theorem i915_gem_bit_17_roundtrip:
  assumes "\<forall>pg \<in> set pages. length pg = PAGE_SIZE" "bit_17 t \<noteq> None \<or> fresh_bits \<noteq> None"
    and "t' = i915_gem_object_save_bit_17_swizzle fresh_bits old_addr (length pages) t"
    and "pages' = i915_gem_object_do_bit_17_swizzle new_addr t' pages"
  shows "length pages' = length pages \<and>
    (\<forall>i < length pages. length (pages' ! i) = PAGE_SIZE \<and> gpu_page (new_addr i) (pages' ! i) = gpu_page (old_addr i) (pages ! i))"
proof -
  obtain m where m: "(case bit_17 t of None \<Rightarrow> fresh_bits | Some m \<Rightarrow> Some m) = Some m"
    using assms(2) by (cases "bit_17 t") auto
  then have "bit_17 t' = Some (\<lambda>i. if i < length pages then bit (old_addr i) 17 else m i)"
    by (simp add: assms(3) i915_gem_object_save_bit_17_swizzle_def bit_17_tests)
  then have pages': "pages' = map (\<lambda>i. if bit (new_addr i) 17 \<noteq> (if i < length pages then bit (old_addr i) 17 else m i)
      then i915_gem_swizzle_page (pages ! i) else pages ! i) [0..<length pages]"
    by (simp add: assms(4) i915_gem_object_do_bit_17_swizzle_def bit_17_tests)
  have "length (pages' ! i) = PAGE_SIZE \<and> gpu_page (new_addr i) (pages' ! i) = gpu_page (old_addr i) (pages ! i)"
    if i: "i < length pages" for i
  proof -
    from i assms(1) have "length (pages ! i) = PAGE_SIZE" by simp
    with i swizzle_twice [of "pages ! i"] show ?thesis
      by (auto simp: pages' gpu_page_def i915_gem_swizzle_page_def PAGE_SIZE_def)
  qed
  then show ?thesis by (simp add: pages')
qed

subsection \<open>Setting the tiling\<close>

text \<open>
  A place that suits a tiling mode: none, one with the alignment that is needed without a fence, or one
  that the processor can reach and a fence can cover.
\<close>

definition placed_ok :: "tiling_h \<Rightarrow> i915_chip \<Rightarrow> u64 \<Rightarrow> u32 \<Rightarrow> nat \<Rightarrow> i915_mm \<Rightarrow> bool" where
  "placed_ok T c sz mode p g \<longleftrightarrow>
     (case gtt_space (objs g p) of
        None \<Rightarrow> True
      | Some node \<Rightarrow>
          (\<exists>align. i915_gem_get_gtt_alignment T c (ucast sz) mode False = Some align \<and> gtt_offset (objs g p) AND (align - 1) = 0) \<or>
          map_and_fenceable (objs g p) \<and> ucast (gtt_offset (objs g p)) + sz \<le> mappable_end g \<and>
          i915_gem_object_fence_ok T c sz (gtt_offset (objs g p)) (drm_mm_node.size (nodes (gtt_mm g) node)) mode = Some True)"

lemma rebind_spec:
  assumes "rebind_for T c gpu p mode d = Some (Inr (ret, d'))"
  shows "tobjs d' = tobjs d \<and> bit_6_swizzle_x d' = bit_6_swizzle_x d \<and>
    (ret = Inr () \<longrightarrow> placed_ok T c (obj_size (tobjs d p)) mode p (gtt d'))"
proof -
  let ?g = "gtt d"
  obtain mf where mf: "fenceable_as T c p mode d = Some mf" using assms by (auto simp: rebind_for_def split: option.splits)
  let ?d = "d\<lparr>gtt := ?g\<lparr>objs := (objs ?g)(p := (objs ?g p)\<lparr>map_and_fenceable := mf\<rparr>)\<rparr>\<rparr>"
  show ?thesis
  proof (cases mf)
    case True
    then have "ret = Inr ()" "d' = ?d" using assms mf by (simp_all add: rebind_for_def Let_def)
    with mf True show ?thesis by (auto simp: placed_ok_def fenceable_as_def Let_def split: option.splits if_splits)
  next
    case False
    then obtain align where al: "i915_gem_get_gtt_alignment T c (ucast (obj_size (tobjs d p))) mode False = Some align"
      using assms mf by (auto simp: rebind_for_def Let_def split: option.splits)
    show ?thesis
    proof (cases "gtt_offset (objs ?g p) AND (align - 1) = 0")
      case True
      with False assms mf al show ?thesis by (auto simp: rebind_for_def Let_def placed_ok_def split: option.split)
    next
      case off: False
      from False off assms mf al obtain g' where u: "i915_gem_object_unbind gpu p (gtt ?d) = Inr (ret, g')" "d' = ?d\<lparr>gtt := g'\<rparr>"
        by (auto simp: rebind_for_def Let_def split: sum.splits prod.splits)
      then have "ret = Inr () \<Longrightarrow> gtt_space (objs g' p) = None"
        by (auto simp: i915_gem_object_unbind_def split: option.splits if_splits sum.splits)
      with u(2) show ?thesis by (auto simp: placed_ok_def)
    qed
  qed
qed

lemma choose_cases:
  "arg_tiling_mode (choose_tiling T a d) = TILING_NONE T \<and> arg_stride (choose_tiling T a d) = 0 \<or>
   arg_tiling_mode (choose_tiling T a d) = arg_tiling_mode a \<and> arg_stride (choose_tiling T a d) = arg_stride a"
  by (simp add: choose_tiling_def Let_def)

lemma prepare_fields [simp]:
  "q \<noteq> p \<Longrightarrow> tobjs (prepare_bit_17 T fb p d) q = tobjs d q" "gtt (prepare_bit_17 T fb p d) = gtt d"
  "tiling_mode (tobjs (prepare_bit_17 T fb p d) p) = tiling_mode (tobjs d p)" "stride (tobjs (prepare_bit_17 T fb p d) p) = stride (tobjs d p)"
  "obj_size (tobjs (prepare_bit_17 T fb p d) p) = obj_size (tobjs d p)" "fence_dirty (tobjs (prepare_bit_17 T fb p d) p) = fence_dirty (tobjs d p)"
  by (simp_all add: prepare_bit_17_def Let_def)

lemma set_tiling_of_fields [simp]:
  "q \<noteq> p \<Longrightarrow> tobjs (set_tiling_of p m st d) q = tobjs d q" "gtt (set_tiling_of p m st d) = gtt d"
  "tiling_mode (tobjs (set_tiling_of p m st d) p) = m AND 3" "stride (tobjs (set_tiling_of p m st d) p) = st"
  "obj_size (tobjs (set_tiling_of p m st d) p) = obj_size (tobjs d p)"
  "fence_dirty (tobjs (set_tiling_of p m st d) p) = (fenced_gpu_access (tobjs d p) \<or> has_fence_reg (tobjs d p))"
  by (simp_all add: set_tiling_of_def Let_def)

lemma two_bit_mode:
  assumes "(m :: u32) < 4"
  shows "m AND 3 = m"
proof -
  have "unat m < 4" using assms by (simp add: word_less_nat_alt)
  then have "unat m = 0 \<or> unat m = 1 \<or> unat m = 2 \<or> unat m = 3" by linarith
  then have "m = 0 \<or> m = 1 \<or> m = 2 \<or> m = 3" by (simp add: word_unat_eq_iff)
  then show ?thesis by (elim disjE) simp_all
qed

text \<open>The call once it has passed the checks, with the result of the middle part.\<close>

lemma set_tiling_cases:
  assumes "i915_gem_set_tiling T c gpu fb (Some p) a d = Some (Inr (ret, a', d'))"
  obtains (refused) e where "ret = Inl e" "d' = d"
  | (same) "ret = Inr ()" "i915_tiling_ok T c (sint (arg_stride a)) (wrap32 (uint (obj_size (tobjs d p)))) (arg_tiling_mode a)"
      "arg_tiling_mode (choose_tiling T a d) = tiling_mode (tobjs d p)" "arg_stride (choose_tiling T a d) = stride (tobjs d p)"
      "a' = (choose_tiling T a d)\<lparr>arg_stride := stride (tobjs d p), arg_tiling_mode := tiling_mode (tobjs d p)\<rparr>"
      "d' = prepare_bit_17 T fb p d"
  | (failed) e d1 where "ret = Inl e" "rebind_for T c gpu p (arg_tiling_mode (choose_tiling T a d)) d = Some (Inr (Inl e, d1))"
      "d' = prepare_bit_17 T fb p d1"
  | (changed) d1 where "ret = Inr ()" "i915_tiling_ok T c (sint (arg_stride a)) (wrap32 (uint (obj_size (tobjs d p)))) (arg_tiling_mode a)"
      "rebind_for T c gpu p (arg_tiling_mode (choose_tiling T a d)) d = Some (Inr (Inr (), d1))"
      "d' = prepare_bit_17 T fb p (set_tiling_of p (arg_tiling_mode (choose_tiling T a d)) (arg_stride (choose_tiling T a d)) d1)"
      "arg_stride a' = stride (tobjs d' p)" "arg_tiling_mode a' = tiling_mode (tobjs d' p)"
proof -
  let ?b = "choose_tiling T a d"
  let ?ok = "i915_tiling_ok T c (sint (arg_stride a)) (wrap32 (uint (obj_size (tobjs d p)))) (arg_tiling_mode a)"
  show thesis
  proof (cases "?ok \<and> pin_count (objs (gtt d) p) = 0")
    case False
    then show thesis using assms refused by (auto simp: i915_gem_set_tiling_def split: if_splits)
  next
    case True
    show thesis
    proof (cases "arg_tiling_mode ?b = tiling_mode (tobjs d p) \<and> arg_stride ?b = stride (tobjs d p)")
      case True
      with \<open>?ok \<and> _\<close> show thesis using assms by (intro same) (auto simp: i915_gem_set_tiling_def Let_def)
    next
      case False
      let ?r = "rebind_for T c gpu p (arg_tiling_mode ?b) d"
      have call: "(case ?r of None \<Rightarrow> None | Some (Inl e) \<Rightarrow> Some (Inl e)
          | Some (Inr (Inl e, d)) \<Rightarrow> Some (Inr (Inl e, ?b\<lparr>arg_stride := stride (tobjs d p), arg_tiling_mode := tiling_mode (tobjs d p)\<rparr>, prepare_bit_17 T fb p d))
          | Some (Inr (Inr _, d)) \<Rightarrow>
              let d = set_tiling_of p (arg_tiling_mode ?b) (arg_stride ?b) d
              in Some (Inr (Inr (), ?b\<lparr>arg_stride := stride (tobjs d p), arg_tiling_mode := tiling_mode (tobjs d p)\<rparr>, prepare_bit_17 T fb p d))) =
          Some (Inr (ret, a', d'))"
        using assms False \<open>?ok \<and> _\<close> by (simp only: i915_gem_set_tiling_def option.case Let_def if_True if_False not_True_eq_False conj_absorb simp_thms)
      then obtain r d1 where r: "?r = Some (Inr (r, d1))" by (auto split: option.splits sum.splits prod.splits)
      show thesis
      proof (cases r)
        case (Inl e)
        with call r show thesis by (intro failed) (auto simp: Let_def)
      next
        case (Inr u)
        with call r \<open>?ok \<and> _\<close> show thesis by (intro changed) (auto simp: Let_def)
      qed
    qed
  qed
qed


text \<open>
  The mode is not compared with the known ones, and the object has two bits for it: a request for mode 4 is
  checked and answered like one for a tiled object, and stored as mode 0 with its stride.
\<close>

theorem i915_gem_set_tiling_truncates:
  assumes "tiling_h_ok T" "gen c = 4" "pin_count (objs (gtt d) p) = 0" "gtt_space (objs (gtt d) p) = None" "bit_6_swizzle_y d = SWIZZLE_9"
    and "a = \<lparr>arg_tiling_mode = 4, arg_stride = 512, arg_swizzle_mode = SWIZZLE_NONE\<rparr>" "tiling_mode (tobjs d p) = TILING_NONE T"
  shows "\<exists>a' d'. i915_gem_set_tiling T c gpu fb (Some p) a d = Some (Inr (Inr (), a', d')) \<and>
    tiling_mode (tobjs d' p) = 0 \<and> stride (tobjs d' p) = 512 \<and> arg_swizzle_mode a' = SWIZZLE_9 \<and> arg_tiling_mode a' = 0"
proof -
  have ne: "TILING_NONE T \<noteq> 4" "TILING_X T \<noteq> 4" "TILING_Y T \<noteq> 4" using assms(1) by (auto simp: tiling_h_ok_def)
  have "sint (512 :: u32) = 512" "(512 :: int) AND 511 = 0" by (simp_all add: sint_uint)
  then have ok: "i915_tiling_ok T c (sint (arg_stride a)) z (arg_tiling_mode a)" for z
    using ne assms(2) by (simp add: assms(6) i915_tiling_ok_def pitch_or_size_too_big_def tile_width_def cdiv_nonneg I965_FENCE_MAX_PITCH_VAL_def)
  have ch: "choose_tiling T a d = a\<lparr>arg_swizzle_mode := SWIZZLE_9\<rparr>"
    using ne assms(5) by (simp add: choose_tiling_def assms(6) hide_bit_17_def)
  obtain d1 where re: "rebind_for T c gpu p 4 d = Some (Inr (Inr (), d1))"
    using assms(4) by (simp add: rebind_for_def fenceable_as_def Let_def)
  with ne ok ch assms(3,7) show ?thesis by (auto simp: i915_gem_set_tiling_def Let_def assms(6))
qed

subsection \<open>Examples\<close>

definition tiling_values :: tiling_h where
  "tiling_values = \<lparr>TILING_NONE = 0, TILING_X = 1, TILING_Y = 2\<rparr>"

definition i945 :: i915_chip where
  "i945 = \<lparr>gen = 3, is_mobile = False, is_g33 = False, is_valleyview = False, is_i915g = False, is_i915gm = False\<rparr>"

theorem i915_gem_get_gtt_size_ends_iff_witness:
  "\<not> (\<exists>g. i915_gem_get_gtt_size tiling_values i945 0xC0000000 1 = Some g) \<and> (\<exists>g. i915_gem_get_gtt_size tiling_values i945 0x300000 1 = Some g) \<and>
   i915_tiling_ok tiling_values i945 512 (wrap32 (uint (0xC0000000 :: u32))) 1"
proof -
  have c: "gen i945 < 4" "(1 :: u32) \<noteq> TILING_NONE tiling_values" by (simp_all add: i945_def tiling_values_def)
  from i915_gem_get_gtt_size_ends_iff [OF c, of "0xC0000000"] i915_gem_get_gtt_size_ends_iff [OF c, of "0x300000"]
  show ?thesis by simp
qed

theorem i915_gem_bit_17_roundtrip_witness:
  "gpu_page 0 (i915_gem_object_do_bit_17_swizzle (\<lambda>_. 0)
     (i915_gem_object_save_bit_17_swizzle (Some (\<lambda>_. True)) (\<lambda>_. 0x20000) 1
        \<lparr>obj_size = 4096, tiling_mode = 1, stride = 512, fenced_gpu_access = False, has_fence_reg = False, fence_dirty = False, bit_17 = None\<rparr>)
     [replicate 4096 7] ! 0) = gpu_page 0x20000 (replicate 4096 7)"
proof -
  let ?t = "\<lparr>obj_size = 4096, tiling_mode = 1, stride = 512, fenced_gpu_access = False, has_fence_reg = False, fence_dirty = False, bit_17 = None\<rparr>"
  have "\<forall>pg \<in> set [replicate 4096 (7 :: u8)]. length pg = PAGE_SIZE" by (simp add: PAGE_SIZE_def)
  from i915_gem_bit_17_roundtrip [OF this, of ?t "Some (\<lambda>_. True)" _ "\<lambda>_. 0x20000" _ "\<lambda>_. 0", OF _ refl refl]
  show ?thesis by simp
qed

definition tiling_run :: i915_dev where
  "tiling_run = \<lparr>gtt = \<lparr>gtt_mm = mm_example, objs = (\<lambda>_. \<lparr>pin_count = 0, gtt_space = None, gtt_offset = 0, map_and_fenceable = True\<rparr>),
       inactive_list = [], active_list = [], unbound_list = [1], mappable_end = 0x1000000\<rparr>,
     tobjs = (\<lambda>_. \<lparr>obj_size = 4096, tiling_mode = 0, stride = 0, fenced_gpu_access = False, has_fence_reg = True, fence_dirty = False, bit_17 = None\<rparr>),
     bit_6_swizzle_x = SWIZZLE_9_10_17, bit_6_swizzle_y = SWIZZLE_9_17\<rparr>"


end
