(* ===== verification/Drm_Rect.thy ===== *)
theory Drm_Rect
  imports Drm_Prelude
begin

text \<open>
  Rectangles, \<open>drm_rect.c\<close> and the inline functions of \<open>drm_rect.h\<close>: intersecting, clipping a
  scaled window, and computing scaling factors. A rectangle is the set of points with
  \<open>x1 \<le> x < x2\<close> and \<open>y1 \<le> y < y2\<close>. Functions that change a rectangle return it.
\<close>

record drm_rect =
  x1 :: int
  y1 :: int
  x2 :: int
  y2 :: int

subsection \<open>The inline functions\<close>

definition drm_rect_adjust_size :: "drm_rect \<Rightarrow> int \<Rightarrow> int \<Rightarrow> drm_rect" where
  "drm_rect_adjust_size r dw dh =
     r\<lparr>x1 := wrap32 (x1 r - dw div 2), y1 := wrap32 (y1 r - dh div 2),
       x2 := wrap32 (x2 r + wrap32 (dw + 1) div 2), y2 := wrap32 (y2 r + wrap32 (dh + 1) div 2)\<rparr>"

definition drm_rect_translate :: "drm_rect \<Rightarrow> int \<Rightarrow> int \<Rightarrow> drm_rect" where
  "drm_rect_translate r dx dy =
     r\<lparr>x1 := wrap32 (x1 r + dx), y1 := wrap32 (y1 r + dy), x2 := wrap32 (x2 r + dx), y2 := wrap32 (y2 r + dy)\<rparr>"

definition drm_rect_width :: "drm_rect \<Rightarrow> int" where
  "drm_rect_width r = wrap32 (x2 r - x1 r)"

definition drm_rect_height :: "drm_rect \<Rightarrow> int" where
  "drm_rect_height r = wrap32 (y2 r - y1 r)"

definition drm_rect_visible :: "drm_rect \<Rightarrow> bool" where
  "drm_rect_visible r \<longleftrightarrow> drm_rect_width r > 0 \<and> drm_rect_height r > 0"

definition drm_rect_equals :: "drm_rect \<Rightarrow> drm_rect \<Rightarrow> bool" where
  "drm_rect_equals r s \<longleftrightarrow> x1 r = x1 s \<and> x2 r = x2 s \<and> y1 r = y1 s \<and> y2 r = y2 s"

subsection \<open>Intersection and clipping\<close>

definition drm_rect_intersect :: "drm_rect \<Rightarrow> drm_rect \<Rightarrow> bool \<times> drm_rect" where
  "drm_rect_intersect r1 r2 =
     (let r = r1\<lparr>x1 := max (x1 r1) (x1 r2), y1 := max (y1 r1) (y1 r2),
                 x2 := min (x2 r1) (x2 r2), y2 := min (y2 r1) (y2 r2)\<rparr>
      in (drm_rect_visible r, r))"

text \<open>
  \<open>v = clamp_int64_t(tmp);\<close> expands to two statements: \<open>v = tmp = min(INT_MAX, tmp);\<close> and then
  \<open>tmp = max(INT_MIN, tmp);\<close>, so \<open>v\<close> gets the value before the lower clamp, converted to \<open>int\<close>.
\<close>

definition clamp_int64_t :: "int \<Rightarrow> int" where
  "clamp_int64_t tmp = wrap32 (min INT_MAX tmp)"

text \<open>One side of the window: \<open>diff\<close> is what is cut off there.\<close>

definition clip_low :: "int \<Rightarrow> int \<Rightarrow> int \<Rightarrow> int" where
  "clip_low v diff scale = (if diff > 0 then clamp_int64_t (v + diff * scale) else v)"

definition clip_high :: "int \<Rightarrow> int \<Rightarrow> int \<Rightarrow> int" where
  "clip_high v diff scale = (if diff > 0 then clamp_int64_t (v - diff * scale) else v)"

definition drm_rect_clip_scaled ::
  "drm_rect \<Rightarrow> drm_rect \<Rightarrow> drm_rect \<Rightarrow> int \<Rightarrow> int \<Rightarrow> bool \<times> drm_rect \<times> drm_rect" where
  "drm_rect_clip_scaled src dst clip hscale vscale =
     (let src = src\<lparr>x1 := clip_low (x1 src) (wrap32 (x1 clip - x1 dst)) hscale\<rparr>;
          src = src\<lparr>y1 := clip_low (y1 src) (wrap32 (y1 clip - y1 dst)) vscale\<rparr>;
          src = src\<lparr>x2 := clip_high (x2 src) (wrap32 (x2 dst - x2 clip)) hscale\<rparr>;
          src = src\<lparr>y2 := clip_high (y2 src) (wrap32 (y2 dst - y2 clip)) vscale\<rparr>;
          (vis, dst) = drm_rect_intersect dst clip
      in (vis, src, dst))"

subsection \<open>Scaling factors\<close>

definition drm_calc_scale :: "int \<Rightarrow> int \<Rightarrow> int result" where
  "drm_calc_scale src dst =
     (if src < 0 \<or> dst < 0 then Inl EINVAL
      else if dst = 0 then Inr 0 else Inr (cdiv src dst))"

text \<open>The common body of the horizontal and the vertical function, on the two extents.\<close>

definition calc_scale_checked :: "int \<Rightarrow> int \<Rightarrow> int \<Rightarrow> int \<Rightarrow> int result" where
  "calc_scale_checked sw dw mn mx =
     (case drm_calc_scale sw dw of
        Inl e \<Rightarrow> Inl e
      | Inr scale \<Rightarrow>
          if dw = 0 then Inr scale
          else if scale < mn \<or> scale > mx then Inl ERANGE else Inr scale)"

definition drm_rect_calc_hscale :: "drm_rect \<Rightarrow> drm_rect \<Rightarrow> int \<Rightarrow> int \<Rightarrow> int result" where
  "drm_rect_calc_hscale src dst min_hscale max_hscale =
     calc_scale_checked (drm_rect_width src) (drm_rect_width dst) min_hscale max_hscale"

definition drm_rect_calc_vscale :: "drm_rect \<Rightarrow> drm_rect \<Rightarrow> int \<Rightarrow> int \<Rightarrow> int result" where
  "drm_rect_calc_vscale src dst min_vscale max_vscale =
     calc_scale_checked (drm_rect_height src) (drm_rect_height dst) min_vscale max_vscale"

definition drm_rect_calc_hscale_relaxed ::
  "drm_rect \<Rightarrow> drm_rect \<Rightarrow> int \<Rightarrow> int \<Rightarrow> int result \<times> drm_rect \<times> drm_rect" where
  "drm_rect_calc_hscale_relaxed src dst min_hscale max_hscale =
     (let src_w = drm_rect_width src; dst_w = drm_rect_width dst
      in (case drm_calc_scale src_w dst_w of
            Inl e \<Rightarrow> (Inl e, src, dst)
          | Inr hscale \<Rightarrow>
              if dst_w = 0 then (Inr hscale, src, dst)
              else if hscale < min_hscale
              then (Inr min_hscale, src, drm_rect_adjust_size dst (wrap32 (cdiv src_w min_hscale - dst_w)) 0)
              else if hscale > max_hscale
              then (Inr max_hscale, drm_rect_adjust_size src (wrap32 (wrap32 (dst_w * max_hscale) - src_w)) 0, dst)
              else (Inr hscale, src, dst)))"

definition drm_rect_calc_vscale_relaxed ::
  "drm_rect \<Rightarrow> drm_rect \<Rightarrow> int \<Rightarrow> int \<Rightarrow> int result \<times> drm_rect \<times> drm_rect" where
  "drm_rect_calc_vscale_relaxed src dst min_vscale max_vscale =
     (let src_h = drm_rect_height src; dst_h = drm_rect_height dst
      in (case drm_calc_scale src_h dst_h of
            Inl e \<Rightarrow> (Inl e, src, dst)
          | Inr vscale \<Rightarrow>
              if dst_h = 0 then (Inr vscale, src, dst)
              else if vscale < min_vscale
              then (Inr min_vscale, src, drm_rect_adjust_size dst 0 (wrap32 (cdiv src_h min_vscale - dst_h)))
              else if vscale > max_vscale
              then (Inr max_vscale, drm_rect_adjust_size src 0 (wrap32 (wrap32 (dst_h * max_vscale) - src_h)), dst)
              else (Inr vscale, src, dst)))"

subsection \<open>Well-formed rectangles\<close>

text \<open>The coordinates and the extents fit in an \<open>int\<close>.\<close>

definition rect_ok :: "drm_rect \<Rightarrow> bool" where
  "rect_ok r \<longleftrightarrow> in_int (x1 r) \<and> in_int (y1 r) \<and> in_int (x2 r) \<and> in_int (y2 r) \<and>
     in_int (x2 r - x1 r) \<and> in_int (y2 r - y1 r)"

definition points :: "drm_rect \<Rightarrow> (int \<times> int) set" where
  "points r = {(x, y). x1 r \<le> x \<and> x < x2 r \<and> y1 r \<le> y \<and> y < y2 r}"

lemma points_empty_iff: "points r = {} \<longleftrightarrow> x2 r \<le> x1 r \<or> y2 r \<le> y1 r"
proof -
  have "(x1 r, y1 r) \<in> points r" if "x1 r < x2 r" "y1 r < y2 r"
    using that by (simp add: points_def)
  then show ?thesis by (auto simp: points_def not_less [symmetric])
qed

lemma rect_okD:
  assumes "rect_ok r"
  shows "drm_rect_width r = x2 r - x1 r" "drm_rect_height r = y2 r - y1 r"
    "drm_rect_visible r \<longleftrightarrow> points r \<noteq> {}"
  using assms by (auto simp: rect_ok_def drm_rect_width_def drm_rect_height_def drm_rect_visible_def points_empty_iff)

text \<open>Coordinates of a screen: any difference of two of them fits.\<close>

definition coords_small :: "drm_rect \<Rightarrow> bool" where
  "coords_small r \<longleftrightarrow> (\<forall>c \<in> {x1 r, y1 r, x2 r, y2 r}. - 1073741824 \<le> c \<and> c < 1073741824)"

lemma coords_small_ok: "coords_small r \<Longrightarrow> rect_ok r"
  by (auto simp: coords_small_def rect_ok_def in_int_def INT_MAX_def INT_MIN_def)

lemma coords_small_intersect: "coords_small r \<Longrightarrow> coords_small s \<Longrightarrow> coords_small (snd (drm_rect_intersect r s))"
  by (auto simp: coords_small_def drm_rect_intersect_def Let_def)

text \<open>
  \<open>drm_rect_intersect\<close> leaves exactly the points that lie in both rectangles, and returns
  whether there are any.
\<close>

theorem drm_rect_intersect_correct:
  assumes "coords_small r" "coords_small s"
  shows "points (snd (drm_rect_intersect r s)) = points r \<inter> points s \<and>
    (fst (drm_rect_intersect r s) \<longleftrightarrow> points r \<inter> points s \<noteq> {})"
proof -
  let ?t = "snd (drm_rect_intersect r s)"
  have p: "points ?t = points r \<inter> points s"
    by (auto simp: points_def drm_rect_intersect_def Let_def)
  have "rect_ok ?t" by (rule coords_small_ok [OF coords_small_intersect [OF assms]])
  from rect_okD(3) [OF this] p show ?thesis by (simp add: drm_rect_intersect_def Let_def)
qed

theorem drm_rect_intersect_correct_witness:
  "points (snd (drm_rect_intersect \<lparr>x1 = 0, y1 = 0, x2 = 10, y2 = 10\<rparr> \<lparr>x1 = 5, y1 = -3, x2 = 20, y2 = 4\<rparr>))
     = points \<lparr>x1 = 0, y1 = 0, x2 = 10, y2 = 10\<rparr> \<inter> points \<lparr>x1 = 5, y1 = -3, x2 = 20, y2 = 4\<rparr>"
  using drm_rect_intersect_correct [of "\<lparr>x1 = 0, y1 = 0, x2 = 10, y2 = 10\<rparr>" "\<lparr>x1 = 5, y1 = -3, x2 = 20, y2 = 4\<rparr>"]
  by (simp add: coords_small_def)

subsection \<open>Clipping in proportion\<close>

text \<open>
  A side of a window of width \<open>w * scale\<close> is moved by at most that width, so it does not overflow.
\<close>

lemma clip_low_exact:
  assumes "in_int v" "in_int (v + w * scale)" "0 \<le> scale" "d \<le> w" "0 \<le> w"
  shows "clip_low v d scale = v + max 0 d * scale"
proof (cases "d > 0")
  case True
  have "0 \<le> d * scale" "d * scale \<le> w * scale"
    using True assms by (auto intro: mult_right_mono)
  then have "in_int (v + d * scale)" using in_int_between [OF assms(1,2)] by simp
  then show ?thesis using True by (simp add: clip_low_def clamp_int64_t_def in_int_def)
qed (simp add: clip_low_def)

lemma clip_high_exact:
  assumes "in_int v" "in_int (v - w * scale)" "0 \<le> scale" "d \<le> w" "0 \<le> w"
  shows "clip_high v d scale = v - max 0 d * scale"
proof (cases "d > 0")
  case True
  have "0 \<le> d * scale" "d * scale \<le> w * scale"
    using True assms by (auto intro: mult_right_mono)
  then have "in_int (v - d * scale)" using in_int_between [OF assms(2,1)] by simp
  then show ?thesis using True by (simp add: clip_high_def clamp_int64_t_def in_int_def)
qed (simp add: clip_high_def)

text \<open>
  When the source window is the destination window scaled by the given factors and
  something stays visible, \<open>drm_rect_clip_scaled\<close> cuts the destination to the clip rectangle and the
  source by the same amounts times the factors: the offsets and extents of the two stay in
  proportion, and the source window only shrinks.
\<close>

theorem drm_rect_clip_scaled_correct:
  assumes "coords_small dst" "coords_small clip" "rect_ok src" "0 \<le> hscale" "0 \<le> vscale"
    and "x2 src - x1 src = (x2 dst - x1 dst) * hscale" "y2 src - y1 src = (y2 dst - y1 dst) * vscale"
    and "drm_rect_clip_scaled src dst clip hscale vscale = (True, src', dst')"
  shows "points dst' = points dst \<inter> points clip \<and>
    x1 src' - x1 src = (x1 dst' - x1 dst) * hscale \<and> x2 src' - x1 src' = (x2 dst' - x1 dst') * hscale \<and>
    y1 src' - y1 src = (y1 dst' - y1 dst) * vscale \<and> y2 src' - y1 src' = (y2 dst' - y1 dst') * vscale \<and>
    x1 src \<le> x1 src' \<and> x2 src' \<le> x2 src \<and> y1 src \<le> y1 src' \<and> y2 src' \<le> y2 src"
proof -
  have ps: "points (snd (drm_rect_intersect dst clip)) = points dst \<inter> points clip"
    by (auto simp: points_def drm_rect_intersect_def Let_def)
  have dst': "dst' = snd (drm_rect_intersect dst clip)" and vis: "fst (drm_rect_intersect dst clip)"
    and src': "src' = src\<lparr>x1 := clip_low (x1 src) (wrap32 (x1 clip - x1 dst)) hscale,
       y1 := clip_low (y1 src) (wrap32 (y1 clip - y1 dst)) vscale,
       x2 := clip_high (x2 src) (wrap32 (x2 dst - x2 clip)) hscale,
       y2 := clip_high (y2 src) (wrap32 (y2 dst - y2 clip)) vscale\<rparr>"
    using assms(8) by (auto simp: drm_rect_clip_scaled_def Let_def split: prod.splits)
  have d: "x1 dst' = max (x1 dst) (x1 clip)" "y1 dst' = max (y1 dst) (y1 clip)"
    "x2 dst' = min (x2 dst) (x2 clip)" "y2 dst' = min (y2 dst) (y2 clip)"
    by (simp_all add: dst' drm_rect_intersect_def Let_def)
  have "drm_rect_visible dst'" using vis by (simp add: dst' drm_rect_intersect_def Let_def)
  moreover have "rect_ok dst'" unfolding dst' by (rule coords_small_ok [OF coords_small_intersect [OF assms(1,2)]])
  ultimately have lt: "x1 dst' < x2 dst'" "y1 dst' < y2 dst'"
    using rect_okD(3) [of dst'] by (auto simp: points_empty_iff)
  have nw: "wrap32 (x1 clip - x1 dst) = x1 clip - x1 dst" "wrap32 (y1 clip - y1 dst) = y1 clip - y1 dst"
    "wrap32 (x2 dst - x2 clip) = x2 dst - x2 clip" "wrap32 (y2 dst - y2 clip) = y2 dst - y2 clip"
    using assms(1,2) by (simp_all add: coords_small_def in_int_def INT_MAX_def INT_MIN_def)
  have ok: "in_int (x1 src)" "in_int (y1 src)" "in_int (x2 src)" "in_int (y2 src)" using assms(3) by (simp_all add: rect_ok_def)
  have low: "x1 src' = x1 src + max 0 (x1 clip - x1 dst) * hscale"
    "y1 src' = y1 src + max 0 (y1 clip - y1 dst) * vscale"
    unfolding src' using lt d assms(4-7) ok
    by (simp_all add: nw clip_low_exact [where w = "x2 dst - x1 dst"] clip_low_exact [where w = "y2 dst - y1 dst"] flip: assms(6,7))
  have high: "x2 src' = x2 src - max 0 (x2 dst - x2 clip) * hscale"
    "y2 src' = y2 src - max 0 (y2 dst - y2 clip) * vscale"
    unfolding src' using lt d assms(4-7) ok
    by (simp_all add: nw clip_high_exact [where w = "x2 dst - x1 dst"] clip_high_exact [where w = "y2 dst - y1 dst"] flip: assms(6,7))
  have m: "max 0 (x1 clip - x1 dst) = x1 dst' - x1 dst" "max 0 (y1 clip - y1 dst) = y1 dst' - y1 dst"
    "max 0 (x2 dst - x2 clip) = x2 dst - x2 dst'" "max 0 (y2 dst - y2 clip) = y2 dst - y2 dst'"
    unfolding d by linarith+
  have nn: "0 \<le> x1 dst' - x1 dst" "0 \<le> y1 dst' - y1 dst" "0 \<le> x2 dst - x2 dst'" "0 \<le> y2 dst - y2 dst'"
    unfolding d by linarith+
  have pos: "0 \<le> (x1 dst' - x1 dst) * hscale" "0 \<le> (y1 dst' - y1 dst) * vscale"
    "0 \<le> (x2 dst - x2 dst') * hscale" "0 \<le> (y2 dst - y2 dst') * vscale"
    using nn assms(4,5) by simp_all
  have "x1 src \<le> x1 src' \<and> x2 src' \<le> x2 src \<and> y1 src \<le> y1 src' \<and> y2 src' \<le> y2 src"
    using low high pos unfolding m by linarith
  moreover have "x2 src' - x1 src' = (x2 dst' - x1 dst') * hscale" "y2 src' - y1 src' = (y2 dst' - y1 dst') * vscale"
    using low high assms(6,7) unfolding m by (simp_all add: algebra_simps)
  ultimately show ?thesis
    using low ps unfolding m by (simp add: dst')
qed

theorem drm_rect_clip_scaled_correct_witness:
  "\<exists>src' dst'. drm_rect_clip_scaled \<lparr>x1 = 0, y1 = 0, x2 = 200, y2 = 300\<rparr> \<lparr>x1 = 0, y1 = 0, x2 = 100, y2 = 100\<rparr>
      \<lparr>x1 = 10, y1 = 20, x2 = 1000, y2 = 70\<rparr> 2 3 = (True, src', dst') \<and> x2 src' - x1 src' = (x2 dst' - x1 dst') * 2"
proof -
  let ?s = "\<lparr>x1 = 0, y1 = 0, x2 = 200, y2 = 300\<rparr> :: drm_rect" and ?d = "\<lparr>x1 = 0, y1 = 0, x2 = 100, y2 = 100\<rparr> :: drm_rect"
  let ?c = "\<lparr>x1 = 10, y1 = 20, x2 = 1000, y2 = 70\<rparr> :: drm_rect"
  have ev: "drm_rect_clip_scaled ?s ?d ?c 2 3 = (True, \<lparr>x1 = 20, y1 = 60, x2 = 200, y2 = 210\<rparr>, \<lparr>x1 = 10, y1 = 20, x2 = 100, y2 = 70\<rparr>)"
    by (simp add: drm_rect_clip_scaled_def drm_rect_intersect_def drm_rect_visible_def drm_rect_width_def drm_rect_height_def
        clip_low_def clip_high_def clamp_int64_t_def in_int_def INT_MAX_def INT_MIN_def Let_def)
  from drm_rect_clip_scaled_correct [OF _ _ _ _ _ _ _ ev] ev show ?thesis
    by (simp add: coords_small_def rect_ok_def in_int_def INT_MAX_def INT_MIN_def)
qed

lemma wrap32_below:
  assumes "- 4294967296 + INT_MIN \<le> k" "k < INT_MIN"
  shows "wrap32 k = k + 4294967296"
proof -
  have "(k + 2147483648) mod 4294967296 = (k + 2147483648 + 4294967296) mod 4294967296"
    by (rule mod_add_self2 [symmetric])
  also have "\<dots> = k + 2147483648 + 4294967296"
    using assms by (intro mod_pos_pos_trivial) (simp_all add: INT_MIN_def)
  finally show ?thesis
    by (simp add: wrap32_def signed_take_bit_eq_take_bit_shift take_bit_eq_mod)
qed

text \<open>
  The lower clamp of \<open>clamp_int64_t\<close> does not act: when the right edge of the source window
  would fall below \<open>INT_MIN\<close> it wraps around to a value that is too large by 2^32, where the macro
  is meant to store \<open>INT_MIN\<close>. (The upper clamp works.)
\<close>

theorem drm_rect_clip_scaled_lower_clamp_lost:
  assumes "0 < wrap32 (x2 dst - x2 clip)"
    and "v = x2 src - wrap32 (x2 dst - x2 clip) * hscale" "- 4294967296 + INT_MIN \<le> v" "v < INT_MIN"
  shows "x2 (fst (snd (drm_rect_clip_scaled src dst clip hscale vscale))) = v + 4294967296"
proof -
  have "clip_high (x2 src) (wrap32 (x2 dst - x2 clip)) hscale = wrap32 (min INT_MAX v)"
    using assms(1,2) by (simp add: clip_high_def clamp_int64_t_def)
  also have "\<dots> = v + 4294967296"
    using assms(3,4) wrap32_below [OF assms(3,4)] by (simp add: INT_MAX_def INT_MIN_def min_def)
  finally show ?thesis by (simp add: drm_rect_clip_scaled_def Let_def split: prod.splits)
qed

theorem drm_rect_clip_scaled_lower_clamp_lost_witness:
  "x2 (fst (snd (drm_rect_clip_scaled \<lparr>x1 = 0, y1 = 0, x2 = 0, y2 = 10\<rparr> \<lparr>x1 = 0, y1 = 0, x2 = 40000, y2 = 10\<rparr>
      \<lparr>x1 = 0, y1 = 0, x2 = 0, y2 = 10\<rparr> 65536 65536))) = 1673527296"
proof -
  let ?s = "\<lparr>x1 = 0, y1 = 0, x2 = 0, y2 = 10\<rparr> :: drm_rect" and ?d = "\<lparr>x1 = 0, y1 = 0, x2 = 40000, y2 = 10\<rparr> :: drm_rect"
  have "wrap32 (x2 ?d - x2 ?s) = 40000" by (simp add: in_int_def INT_MAX_def INT_MIN_def)
  then show ?thesis
    using drm_rect_clip_scaled_lower_clamp_lost [of ?d ?s _ ?s 65536 65536, OF _ refl] by (simp add: INT_MIN_def)
qed

subsection \<open>Scaling factors\<close>

text \<open>
  The factor that \<open>drm_rect_calc_hscale\<close> computes: \<open>-EINVAL\<close> exactly for a negative
  width, 0 when the destination is empty, otherwise the integer part of the quotient of the widths,
  if that is within the limits.
\<close>

theorem drm_rect_calc_scale_correct:
  "(drm_rect_calc_hscale src dst mn mx = Inl EINVAL \<longleftrightarrow> drm_rect_width src < 0 \<or> drm_rect_width dst < 0) \<and>
   (drm_rect_calc_hscale src dst mn mx = Inr k \<longleftrightarrow>
      0 \<le> drm_rect_width src \<and> (drm_rect_width dst = 0 \<and> k = 0 \<or> 0 < drm_rect_width dst \<and> mn \<le> k \<and> k \<le> mx \<and>
        k * drm_rect_width dst \<le> drm_rect_width src \<and> drm_rect_width src < (k + 1) * drm_rect_width dst))"
proof -
  let ?s = "drm_rect_width src" and ?d = "drm_rect_width dst"
  have q: "?s div ?d = k \<longleftrightarrow> k * ?d \<le> ?s \<and> ?s < (k + 1) * ?d" if "0 < ?d" for k
  proof
    assume "?s div ?d = k"
    then show "k * ?d \<le> ?s \<and> ?s < (k + 1) * ?d"
      using int_div_bounds [OF that, of ?s] by simp
  next
    assume "k * ?d \<le> ?s \<and> ?s < (k + 1) * ?d"
    then show "?s div ?d = k"
      by (intro int_div_pos_eq [of _ _ _ "?s - k * ?d"]) (auto simp: algebra_simps)
  qed
  have e: "drm_rect_calc_hscale src dst mn mx = Inl EINVAL \<longleftrightarrow> ?s < 0 \<or> ?d < 0"
    by (auto simp: drm_rect_calc_hscale_def calc_scale_checked_def drm_calc_scale_def)
  have "drm_rect_calc_hscale src dst mn mx = Inr k \<longleftrightarrow>
      0 \<le> ?s \<and> (?d = 0 \<and> k = 0 \<or> 0 < ?d \<and> mn \<le> k \<and> k \<le> mx \<and> ?s div ?d = k)"
    by (auto simp: drm_rect_calc_hscale_def calc_scale_checked_def drm_calc_scale_def cdiv_nonneg)
  then show ?thesis using e q by auto
qed

text \<open>Shrinking by \<open>dw\<close> takes that much off the width, half on each side.\<close>

lemma adjust_size_shrink_w:
  assumes "rect_ok r" "dw \<le> 0" "0 \<le> x2 r - x1 r + dw"
  shows "rect_ok (drm_rect_adjust_size r dw 0)" "drm_rect_width (drm_rect_adjust_size r dw 0) = drm_rect_width r + dw"
    "drm_rect_height (drm_rect_adjust_size r dw 0) = drm_rect_height r"
    "x1 r \<le> x1 (drm_rect_adjust_size r dw 0)" "x2 (drm_rect_adjust_size r dw 0) \<le> x2 r"
    "\<bar>(x1 (drm_rect_adjust_size r dw 0) + x2 (drm_rect_adjust_size r dw 0)) - (x1 r + x2 r)\<bar> \<le> 1"
proof -
  have io: "in_int (x1 r)" "in_int (x2 r)" "in_int (y1 r)" "in_int (y2 r)" "in_int (x2 r - x1 r)" "in_int (y2 r - y1 r)"
    using assms(1) by (simp_all add: rect_ok_def)
  have dw: "in_int (dw + 1)"
    using io(5) assms(2,3) by (simp add: in_int_def INT_MAX_def INT_MIN_def)
  have b: "x1 r \<le> x1 r - dw div 2" "x1 r - dw div 2 \<le> x2 r" "x1 r \<le> x2 r + (dw + 1) div 2" "x2 r + (dw + 1) div 2 \<le> x2 r"
    using assms(2,3) by presburger+
  note i = in_int_between [OF io(1,2) b(1,2)] in_int_between [OF io(1,2) b(3,4)]
  let ?r = "drm_rect_adjust_size r dw 0"
  have f: "x1 ?r = x1 r - dw div 2" "x2 ?r = x2 r + (dw + 1) div 2" "y1 ?r = y1 r" "y2 ?r = y2 r"
    using dw i io by (simp_all add: drm_rect_adjust_size_def in_int_def INT_MAX_def INT_MIN_def)
  have h: "(dw + 1) div 2 + dw div 2 = dw" by presburger
  then have w: "x2 ?r - x1 ?r = x2 r - x1 r + dw" by (simp add: f)
  have z: "in_int (x2 r - x1 r + dw)"
    using io(5) assms(2,3) by (simp add: in_int_def INT_MAX_def INT_MIN_def)
  show ok: "rect_ok ?r" unfolding rect_ok_def w using io i z by (simp add: f)
  show "drm_rect_width ?r = drm_rect_width r + dw" "drm_rect_height ?r = drm_rect_height r"
    using rect_okD(1,2) [OF ok] rect_okD(1,2) [OF assms(1)] w by (simp_all add: f)
  show "x1 r \<le> x1 ?r" "x2 ?r \<le> x2 r" using b by (simp_all add: f)
  show "\<bar>(x1 ?r + x2 ?r) - (x1 r + x2 r)\<bar> \<le> 1" unfolding f by presburger
qed

text \<open>
  \<open>drm_rect_calc_hscale_relaxed\<close>, for non-empty windows and positive limits, always returns
  a factor within the limits and makes the windows fit it: the destination scaled by the factor is not
  wider than the source. To that end it only shrinks one of the two, keeping its centre up to a half
  pixel and its height, and changes nothing when the plain factor is within the limits. No
  intermediate result overflows.
\<close>

theorem drm_rect_calc_hscale_relaxed_correct:
  assumes ok: "rect_ok src" "rect_ok dst" and w: "0 \<le> drm_rect_width src" "0 < drm_rect_width dst"
    and lim: "0 < mn" "mn \<le> mx"
  shows "\<exists>k src' dst'. drm_rect_calc_hscale_relaxed src dst mn mx = (Inr k, src', dst') \<and> mn \<le> k \<and> k \<le> mx \<and>
     k * drm_rect_width dst' \<le> drm_rect_width src' \<and> 0 \<le> drm_rect_width dst' \<and>
     x1 src \<le> x1 src' \<and> x2 src' \<le> x2 src \<and> x1 dst \<le> x1 dst' \<and> x2 dst' \<le> x2 dst \<and>
     \<bar>(x1 src' + x2 src') - (x1 src + x2 src)\<bar> \<le> 1 \<and> \<bar>(x1 dst' + x2 dst') - (x1 dst + x2 dst)\<bar> \<le> 1 \<and>
     drm_rect_height src' = drm_rect_height src \<and> drm_rect_height dst' = drm_rect_height dst \<and>
     (drm_rect_calc_hscale src dst mn mx \<noteq> Inl ERANGE \<longrightarrow> src' = src \<and> dst' = dst)"
proof -
  let ?s = "drm_rect_width src" and ?d = "drm_rect_width dst"
  let ?k = "?s div ?d"
  have sc: "drm_calc_scale ?s ?d = Inr ?k" using w by (simp add: drm_calc_scale_def cdiv_nonneg)
  note k = int_div_bounds [OF w(2), of ?s]
  have er: "drm_rect_calc_hscale src dst mn mx = Inl ERANGE \<longleftrightarrow> ?k < mn \<or> mx < ?k"
    using w by (simp add: drm_rect_calc_hscale_def calc_scale_checked_def sc)
  consider "?k < mn" | "mx < ?k" | "mn \<le> ?k" "?k \<le> mx" by linarith
  then show ?thesis
  proof cases
    case 1
    have q: "0 \<le> ?s div mn" "mn * (?s div mn) \<le> ?s"
      using w lim int_div_bounds(1) [OF lim(1), of ?s] by (simp_all add: pos_imp_zdiv_nonneg_iff mult.commute)
    have "?s div mn \<le> ?d"
    proof -
      have "(?k + 1) * ?d \<le> mn * ?d" using 1 w(2) by (intro mult_right_mono) simp_all
      then have "?s < mn * ?d" using k(2) by linarith
      then have "mn * (?s div mn) < mn * ?d" using q(2) by linarith
      then show ?thesis using lim(1) by simp
    qed
    moreover have "in_int (?s div mn - ?d)"
      using q(1) \<open>?s div mn \<le> ?d\<close> ok(2) rect_okD(1) [OF ok(2)] by (simp add: rect_ok_def in_int_def INT_MAX_def INT_MIN_def)
    ultimately have ad: "?s div mn - ?d \<le> 0" "0 \<le> x2 dst - x1 dst + (?s div mn - ?d)" "wrap32 (?s div mn - ?d) = ?s div mn - ?d"
      using q(1) rect_okD(1) [OF ok(2)] by simp_all
    note a = adjust_size_shrink_w [OF ok(2) ad(1,2)]
    show ?thesis
      using 1 w lim er a q ad(3) by (auto simp: drm_rect_calc_hscale_relaxed_def sc Let_def cdiv_nonneg)
  next
    case 2
    have "mx * ?d \<le> ?k * ?d" using 2 w(2) by (intro mult_right_mono) simp_all
    then have le: "?d * mx \<le> ?s" using k(1) by (simp add: mult.commute)
    have nn: "0 \<le> ?d * mx" using w lim by simp
    have ii: "in_int (?d * mx)" "in_int (?d * mx - ?s)"
      using le nn ok(1) rect_okD(1) [OF ok(1)] by (simp_all add: rect_ok_def in_int_def INT_MAX_def INT_MIN_def)
    have ad: "?d * mx - ?s \<le> 0" "0 \<le> x2 src - x1 src + (?d * mx - ?s)"
      using le nn rect_okD(1) [OF ok(1)] by simp_all
    note a = adjust_size_shrink_w [OF ok(1) ad]
    show ?thesis
      using 2 w lim er a ii by (auto simp: drm_rect_calc_hscale_relaxed_def sc Let_def mult.commute)
  next
    case 3
    then show ?thesis
      using w k(1) er by (auto simp: drm_rect_calc_hscale_relaxed_def sc Let_def)
  qed
qed

theorem drm_rect_calc_hscale_relaxed_correct_witness:
  "\<exists>k src' dst'. drm_rect_calc_hscale_relaxed \<lparr>x1 = 0, y1 = 0, x2 = 100, y2 = 50\<rparr> \<lparr>x1 = 0, y1 = 0, x2 = 10, y2 = 50\<rparr> 2 4
      = (Inr k, src', dst') \<and> 2 \<le> k \<and> k \<le> 4 \<and> k * drm_rect_width dst' \<le> drm_rect_width src'"
proof -
  let ?s = "\<lparr>x1 = 0, y1 = 0, x2 = 100, y2 = 50\<rparr> :: drm_rect" and ?d = "\<lparr>x1 = 0, y1 = 0, x2 = 10, y2 = 50\<rparr> :: drm_rect"
  have "rect_ok ?s" "rect_ok ?d" "0 \<le> drm_rect_width ?s" "0 < drm_rect_width ?d"
    by (simp_all add: rect_ok_def drm_rect_width_def in_int_def INT_MAX_def INT_MIN_def)
  from drm_rect_calc_hscale_relaxed_correct [OF this, of 2 4] show ?thesis by auto
qed

definition transpose :: "drm_rect \<Rightarrow> drm_rect" where
  "transpose r = \<lparr>x1 = y1 r, y1 = x1 r, x2 = y2 r, y2 = x2 r\<rparr>"

text \<open>
  The vertical functions are the horizontal ones with the axes exchanged: they treat
  heights exactly as the others treat widths.
\<close>

theorem drm_rect_vscale_is_transposed_hscale:
  "drm_rect_calc_vscale src dst mn mx = drm_rect_calc_hscale (transpose src) (transpose dst) mn mx \<and>
   drm_rect_calc_vscale_relaxed src dst mn mx =
     (case drm_rect_calc_hscale_relaxed (transpose src) (transpose dst) mn mx of
        (r, src', dst') \<Rightarrow> (r, transpose src', transpose dst'))"
proof -
  have h: "drm_rect_width (transpose r) = drm_rect_height r" for r
    by (simp add: drm_rect_width_def drm_rect_height_def transpose_def)
  have t: "transpose (transpose r) = r" for r by (simp add: transpose_def)
  have a: "transpose (drm_rect_adjust_size (transpose r) d 0) = drm_rect_adjust_size r 0 d" for r d
    by (simp add: transpose_def drm_rect_adjust_size_def)
  show ?thesis
    by (simp add: drm_rect_calc_vscale_def drm_rect_calc_hscale_def drm_rect_calc_vscale_relaxed_def
        drm_rect_calc_hscale_relaxed_def h t a Let_def split: sum.split)
qed

end
