(* ===== verification/Drm_Modes.thy ===== *)
theory Drm_Modes
  imports Drm_Prelude "HOL-Library.Product_Lexorder" "HOL-Library.Multiset"
begin

text \<open>
  Display modes, \<open>drm_modes.c\<close>: derived timings, comparing, validating, pruning, sorting and merging
  lists of modes. The bits of \<open>flags\<close> and \<open>type\<close> come from libdrm's \<open>drm_mode.h\<close>, which is not part
  of this repository; a word of them is modelled as the set of its bits, so \<open>|=\<close> is union and a
  test of a bit is membership. (\<open>DRM_MODE_TYPE_CRTC_C\<close> there is the bit \<open>TYPE_CRTC\<close> together with
  \<open>DRM_MODE_TYPE_BUILTIN\<close>.) An \<open>int\<close> is an integer and its arithmetic wraps; an \<open>unsigned int\<close> is
  taken modulo 2^32 by \<open>to_u32\<close>. A list of modes is a list; modes are values.
\<close>

datatype mode_flag =
    FLAG_PHSYNC | FLAG_NHSYNC | FLAG_PVSYNC | FLAG_NVSYNC | FLAG_INTERLACE | FLAG_DBLSCAN
  | FLAG_DBLCLK | FLAG_OTHER nat

datatype mode_type =
    TYPE_BUILTIN | TYPE_CRTC | TYPE_PREFERRED | TYPE_DRIVER | TYPE_OTHER nat

datatype drm_mode_status =
    MODE_OK | MODE_HSYNC | MODE_VSYNC | MODE_H_ILLEGAL | MODE_V_ILLEGAL | MODE_BAD_WIDTH
  | MODE_NOMODE | MODE_NO_INTERLACE | MODE_NO_DBLESCAN | MODE_NO_VSCAN | MODE_MEM | MODE_VIRTUAL_X
  | MODE_VIRTUAL_Y | MODE_MEM_VIRT | MODE_NOCLOCK | MODE_CLOCK_HIGH | MODE_CLOCK_LOW
  | MODE_CLOCK_RANGE | MODE_BAD_HVALUE | MODE_BAD_VVALUE | MODE_BAD_VSCAN | MODE_HSYNC_NARROW
  | MODE_HSYNC_WIDE | MODE_HBLANK_NARROW | MODE_HBLANK_WIDE | MODE_VSYNC_NARROW | MODE_VSYNC_WIDE
  | MODE_VBLANK_NARROW | MODE_VBLANK_WIDE | MODE_PANEL | MODE_INTERLACE_WIDTH | MODE_ONE_WIDTH
  | MODE_ONE_HEIGHT | MODE_ONE_SIZE | MODE_NO_REDUCED | MODE_UNVERIFIED | MODE_BAD | MODE_ERROR

record drm_display_mode =
  base_id :: int
  name :: string
  status :: drm_mode_status
  mtype :: "mode_type set"
  clock :: int
  hdisplay :: int
  hsync_start :: int
  hsync_end :: int
  htotal :: int
  hskew :: int
  vdisplay :: int
  vsync_start :: int
  vsync_end :: int
  vtotal :: int
  vscan :: int
  flags :: "mode_flag set"
  width_mm :: int
  height_mm :: int
  crtc_hdisplay :: int
  crtc_hblank_start :: int
  crtc_hblank_end :: int
  crtc_hsync_start :: int
  crtc_hsync_end :: int
  crtc_htotal :: int
  crtc_hskew :: int
  crtc_vdisplay :: int
  crtc_vblank_start :: int
  crtc_vblank_end :: int
  crtc_vsync_start :: int
  crtc_vsync_end :: int
  crtc_vtotal :: int
  vrefresh :: int
  hsync :: int

definition to_u32 :: "int \<Rightarrow> int" where
  "to_u32 k = k mod 4294967296"

lemma to_u32_id [simp]: "0 \<le> k \<Longrightarrow> k < 4294967296 \<Longrightarrow> to_u32 k = k"
  by (simp add: to_u32_def)

subsection \<open>Derived values\<close>

definition drm_mode_width :: "drm_display_mode \<Rightarrow> int" where
  "drm_mode_width mode = hdisplay mode"

definition drm_mode_height :: "drm_display_mode \<Rightarrow> int" where
  "drm_mode_height mode = vdisplay mode"

text \<open>A division by zero is \<open>Inl BUG\<close>: the kernel traps.\<close>

definition drm_mode_hsync :: "drm_display_mode \<Rightarrow> int result" where
  "drm_mode_hsync mode =
     (if hsync mode \<noteq> 0 then Inr (hsync mode)
      else if htotal mode < 0 then Inr 0
      else if htotal mode = 0 then Inl BUG
      else let calc_val = to_u32 (cdiv (wrap32 (clock mode * 1000)) (htotal mode));
               calc_val = to_u32 (calc_val + 500)
           in Inr (wrap32 (calc_val div 1000)))"

definition drm_mode_vrefresh :: "drm_display_mode \<Rightarrow> int" where
  "drm_mode_vrefresh mode =
     (if vrefresh mode > 0 then vrefresh mode
      else if htotal mode > 0 \<and> vtotal mode > 0 then
        let calc_val = to_u32 (wrap32 (clock mode * 1000));
            calc_val = calc_val div htotal mode;
            refresh = wrap32 (to_u32 (calc_val + cdiv (vtotal mode) 2) div vtotal mode);
            refresh = (if FLAG_INTERLACE \<in> flags mode then wrap32 (refresh * 2) else refresh);
            refresh = (if FLAG_DBLSCAN \<in> flags mode then cdiv refresh 2 else refresh)
        in if vscan mode > 1 then cdiv refresh (vscan mode) else refresh
      else 0)"

text \<open>\<open>halve\<close> is the flag \<open>CRTC_INTERLACE_HALVE_V\<close> of \<open>adjust_flags\<close>, the only one that is looked at.\<close>

definition crtc_v_map :: "(int \<Rightarrow> int) \<Rightarrow> drm_display_mode \<Rightarrow> drm_display_mode" where
  "crtc_v_map f p = p\<lparr>crtc_vdisplay := f (crtc_vdisplay p), crtc_vsync_start := f (crtc_vsync_start p),
     crtc_vsync_end := f (crtc_vsync_end p), crtc_vtotal := f (crtc_vtotal p)\<rparr>"

definition drm_mode_set_crtcinfo :: "drm_display_mode \<Rightarrow> bool \<Rightarrow> drm_display_mode" where
  "drm_mode_set_crtcinfo p halve =
     (if TYPE_BUILTIN \<in> mtype p \<and> TYPE_CRTC \<notin> mtype p then p
      else
        let p = p\<lparr>crtc_hdisplay := hdisplay p, crtc_hsync_start := hsync_start p, crtc_hsync_end := hsync_end p,
                  crtc_htotal := htotal p, crtc_hskew := hskew p, crtc_vdisplay := vdisplay p,
                  crtc_vsync_start := vsync_start p, crtc_vsync_end := vsync_end p, crtc_vtotal := vtotal p\<rparr>;
            p = (if FLAG_INTERLACE \<in> flags p \<and> halve then crtc_v_map (\<lambda>v. cdiv v 2) p else p);
            p = (if FLAG_DBLSCAN \<in> flags p then crtc_v_map (\<lambda>v. wrap32 (v * 2)) p else p);
            p = (if vscan p > 1 then crtc_v_map (\<lambda>v. wrap32 (v * vscan p)) p else p)
        in p\<lparr>crtc_vblank_start := min (crtc_vsync_start p) (crtc_vdisplay p),
             crtc_vblank_end := max (crtc_vsync_end p) (crtc_vtotal p),
             crtc_hblank_start := min (crtc_hsync_start p) (crtc_hdisplay p),
             crtc_hblank_end := max (crtc_hsync_end p) (crtc_htotal p)\<rparr>)"

definition drm_mode_copy :: "drm_display_mode \<Rightarrow> drm_display_mode \<Rightarrow> drm_display_mode" where
  "drm_mode_copy dst src = src\<lparr>base_id := base_id dst\<rparr>"

text \<open>\<open>nmode\<close> is what \<open>drm_mode_create\<close> returns.\<close>

definition drm_mode_duplicate :: "drm_display_mode option \<Rightarrow> drm_display_mode \<Rightarrow> drm_display_mode option" where
  "drm_mode_duplicate nmode mode =
     (case nmode of None \<Rightarrow> None | Some nmode \<Rightarrow> Some (drm_mode_copy nmode mode))"

subsection \<open>Equality\<close>

text \<open>\<open>KHZ2PICOS(a)\<close> is \<open>1000000000UL/(a)\<close>: the clock is converted to 64 unsigned bits.\<close>

definition KHZ2PICOS :: "int \<Rightarrow> int" where
  "KHZ2PICOS a = 1000000000 div (a mod 18446744073709551616)"

definition drm_mode_equal_no_clocks :: "drm_display_mode \<Rightarrow> drm_display_mode \<Rightarrow> bool" where
  "drm_mode_equal_no_clocks m1 m2 \<longleftrightarrow>
     hdisplay m1 = hdisplay m2 \<and> hsync_start m1 = hsync_start m2 \<and> hsync_end m1 = hsync_end m2 \<and>
     htotal m1 = htotal m2 \<and> hskew m1 = hskew m2 \<and> vdisplay m1 = vdisplay m2 \<and>
     vsync_start m1 = vsync_start m2 \<and> vsync_end m1 = vsync_end m2 \<and> vtotal m1 = vtotal m2 \<and>
     vscan m1 = vscan m2 \<and> flags m1 = flags m2"

definition drm_mode_equal :: "drm_display_mode \<Rightarrow> drm_display_mode \<Rightarrow> bool" where
  "drm_mode_equal m1 m2 =
     (if clock m1 \<noteq> 0 \<and> clock m2 \<noteq> 0 then
        (if KHZ2PICOS (clock m1) \<noteq> KHZ2PICOS (clock m2) then False else drm_mode_equal_no_clocks m1 m2)
      else if clock m1 \<noteq> clock m2 then False else drm_mode_equal_no_clocks m1 m2)"

subsection \<open>Validating and pruning\<close>

definition validate_size1 :: "int \<Rightarrow> int \<Rightarrow> int \<Rightarrow> drm_display_mode \<Rightarrow> drm_display_mode" where
  "validate_size1 maxX maxY maxPitch mode =
     (let mode = (if maxPitch > 0 \<and> hdisplay mode > maxPitch then mode\<lparr>status := MODE_BAD_WIDTH\<rparr> else mode);
          mode = (if maxX > 0 \<and> hdisplay mode > maxX then mode\<lparr>status := MODE_VIRTUAL_X\<rparr> else mode)
      in if maxY > 0 \<and> vdisplay mode > maxY then mode\<lparr>status := MODE_VIRTUAL_Y\<rparr> else mode)"

definition drm_mode_validate_size :: "drm_display_mode list \<Rightarrow> int \<Rightarrow> int \<Rightarrow> int \<Rightarrow> drm_display_mode list" where
  "drm_mode_validate_size mode_list maxX maxY maxPitch = map (validate_size1 maxX maxY maxPitch) mode_list"

text \<open>The ranges are the pairs \<open>(min[i], max[i])\<close>.\<close>

fun clock_in_ranges :: "int \<Rightarrow> (int \<times> int) list \<Rightarrow> bool" where
  "clock_in_ranges c [] = False"
| "clock_in_ranges c ((mn, mx) # rs) = (if c \<ge> mn \<and> c \<le> mx then True else clock_in_ranges c rs)"

definition drm_mode_validate_clocks :: "drm_display_mode list \<Rightarrow> (int \<times> int) list \<Rightarrow> drm_display_mode list" where
  "drm_mode_validate_clocks mode_list ranges =
     map (\<lambda>mode. if \<not> clock_in_ranges (clock mode) ranges then mode\<lparr>status := MODE_CLOCK_RANGE\<rparr> else mode) mode_list"

fun drm_mode_prune_invalid :: "drm_display_mode list \<Rightarrow> drm_display_mode list" where
  "drm_mode_prune_invalid [] = []"
| "drm_mode_prune_invalid (mode # rest) =
     (if status mode \<noteq> MODE_OK then drm_mode_prune_invalid rest else mode # drm_mode_prune_invalid rest)"

definition drm_mode_list_concat :: "drm_display_mode list \<Rightarrow> drm_display_mode list \<Rightarrow> drm_display_mode list \<times> drm_display_mode list" where
  "drm_mode_list_concat head new = ([], new @ head)"

subsection \<open>Sorting\<close>

definition drm_mode_compare :: "drm_display_mode \<Rightarrow> drm_display_mode \<Rightarrow> int" where
  "drm_mode_compare a b =
     (let diff = (if TYPE_PREFERRED \<in> mtype b then 1 else 0) - (if TYPE_PREFERRED \<in> mtype a then 1 else 0)
      in if diff \<noteq> 0 then diff
         else let diff = wrap32 (wrap32 (hdisplay b * vdisplay b) - wrap32 (hdisplay a * vdisplay a))
              in if diff \<noteq> 0 then diff
                 else let diff = wrap32 (vrefresh b - vrefresh a)
                      in if diff \<noteq> 0 then diff else wrap32 (clock b - clock a))"

text \<open>The check of neighbours that precedes the sorting.\<close>

fun mode_ordered :: "drm_display_mode list \<Rightarrow> bool" where
  "mode_ordered (a # b # rest) = (if drm_mode_compare a b > 0 then False else mode_ordered (b # rest))"
| "mode_ordered _ = True"

text \<open>
  One round of the outer loop: the list is \<open>sorted @ cur # rest\<close>, where \<open>sorted\<close> ends with \<open>end\<close>. The
  inner loop walks over \<open>sorted\<close>; \<open>cur\<close> is moved before the first mode that is worse, or, when \<open>end\<close> is
  reached, stays and becomes \<open>end\<close>.
\<close>

fun place :: "drm_display_mode \<Rightarrow> drm_display_mode list \<Rightarrow> drm_display_mode list" where
  "place cur [] = [cur]"
| "place cur (x # xs) = (if drm_mode_compare x cur > 0 then cur # x # xs else x # place cur xs)"

fun sort_loop :: "drm_display_mode list \<Rightarrow> drm_display_mode list \<Rightarrow> drm_display_mode list" where
  "sort_loop done [] = done"
| "sort_loop done (cur # rest) = sort_loop (place cur done) rest"

definition drm_mode_sort :: "drm_display_mode list \<Rightarrow> drm_display_mode list" where
  "drm_mode_sort mode_list =
     (case mode_list of
        [] \<Rightarrow> []
      | first # rest \<Rightarrow> if mode_ordered mode_list then mode_list else sort_loop [first] rest)"

subsection \<open>Merging the probed modes\<close>

fun merge_probed :: "drm_display_mode \<Rightarrow> drm_display_mode list \<Rightarrow> drm_display_mode list option" where
  "merge_probed pmode [] = None"
| "merge_probed pmode (mode # rest) =
     (if drm_mode_equal pmode mode
      then Some (mode\<lparr>status := status pmode, mtype := mtype mode \<union> mtype pmode\<rparr> # rest)
      else map_option ((#) mode) (merge_probed pmode rest))"

fun drm_mode_connector_list_update :: "drm_display_mode list \<Rightarrow> drm_display_mode list \<Rightarrow> drm_display_mode list" where
  "drm_mode_connector_list_update modes [] = modes"
| "drm_mode_connector_list_update modes (pmode # probed) =
     drm_mode_connector_list_update
       (case merge_probed pmode modes of Some modes' \<Rightarrow> modes' | None \<Rightarrow> modes @ [pmode]) probed"

subsection \<open>Sorting is sorting\<close>

text \<open>The fields that are compared are those of a real mode, so the comparison does not overflow.\<close>

definition mode_sane :: "drm_display_mode \<Rightarrow> bool" where
  "mode_sane m \<longleftrightarrow> 0 \<le> hdisplay m \<and> hdisplay m \<le> 32767 \<and> 0 \<le> vdisplay m \<and> vdisplay m \<le> 32767 \<and>
     0 \<le> vrefresh m \<and> vrefresh m \<le> INT_MAX \<and> 0 \<le> clock m \<and> clock m \<le> INT_MAX"

text \<open>Favourability: preferred modes first, then larger ones, then faster ones, then the higher clock.\<close>

definition mode_key :: "drm_display_mode \<Rightarrow> bool \<times> int \<times> int \<times> int" where
  "mode_key m = (TYPE_PREFERRED \<notin> mtype m, - (hdisplay m * vdisplay m), - vrefresh m, - clock m)"

lemma mode_sane_area:
  assumes "mode_sane m"
  shows "0 \<le> hdisplay m * vdisplay m" "hdisplay m * vdisplay m \<le> 1073676289"
proof -
  have b: "0 \<le> hdisplay m" "hdisplay m \<le> 32767" "0 \<le> vdisplay m" "vdisplay m \<le> 32767"
    using assms by (simp_all add: mode_sane_def)
  then show "0 \<le> hdisplay m * vdisplay m" by simp
  have "hdisplay m * vdisplay m \<le> 32767 * 32767" using b by (intro mult_mono) simp_all
  then show "hdisplay m * vdisplay m \<le> 1073676289" by simp
qed

lemma compare_key:
  assumes "mode_sane a" "mode_sane b"
  shows "0 < drm_mode_compare a b \<longleftrightarrow> mode_key b < mode_key a"
proof -
  note ar = mode_sane_area [OF assms(1)] mode_sane_area [OF assms(2)]
  have i: "in_int (hdisplay a * vdisplay a)" "in_int (hdisplay b * vdisplay b)"
    "in_int (hdisplay b * vdisplay b - hdisplay a * vdisplay a)"
    unfolding in_int_def INT_MAX_def INT_MIN_def using ar by linarith+
  have j: "in_int (vrefresh b - vrefresh a)" "in_int (clock b - clock a)"
    using assms by (simp_all add: in_int_def INT_MAX_def INT_MIN_def mode_sane_def)
  have "drm_mode_compare a b =
     (if (TYPE_PREFERRED \<in> mtype a) \<noteq> (TYPE_PREFERRED \<in> mtype b)
      then (if TYPE_PREFERRED \<in> mtype b then 1 else - 1)
      else if hdisplay b * vdisplay b \<noteq> hdisplay a * vdisplay a then hdisplay b * vdisplay b - hdisplay a * vdisplay a
      else if vrefresh b \<noteq> vrefresh a then vrefresh b - vrefresh a else clock b - clock a)"
    using i j by (simp add: drm_mode_compare_def Let_def)
  then show ?thesis by (auto simp: mode_key_def less_prod_def)
qed

lemma place_props:
  assumes "mode_sane c" "\<forall>x \<in> set xs. mode_sane x"
  shows "mset (place c xs) = add_mset c (mset xs)"
    and "sorted (map mode_key xs) \<Longrightarrow> sorted (map mode_key (place c xs))"
    and "sorted (map mode_key xs) \<Longrightarrow>
      filter (\<lambda>x. mode_key k = mode_key x) (place c xs) = filter (\<lambda>x. mode_key k = mode_key x) (xs @ [c])"
proof -
  show m: "mset (place c xs) = add_mset c (mset xs)" by (induction xs) auto
  have s: "set (place c xs) = insert c (set xs)" for xs by (induction xs) auto
  show "sorted (map mode_key xs) \<Longrightarrow> sorted (map mode_key (place c xs))"
    using assms by (induction xs) (auto simp: compare_key s not_less)
  show "sorted (map mode_key xs) \<Longrightarrow>
      filter (\<lambda>x. mode_key k = mode_key x) (place c xs) = filter (\<lambda>x. mode_key k = mode_key x) (xs @ [c])"
    using assms
  proof (induction xs)
    case (Cons x xs)
    show ?case
    proof (cases "drm_mode_compare x c > 0")
      case True
      then have "mode_key c < mode_key x" using Cons.prems by (simp add: compare_key)
      then have "mode_key k \<noteq> mode_key y" if "mode_key k = mode_key c" "y \<in> set (x # xs)" for y
        using that Cons.prems(1) by (auto simp: order_less_le_trans less_le_not_le)
      then have "mode_key k = mode_key c \<Longrightarrow> filter (\<lambda>y. mode_key k = mode_key y) (x # xs) = []"
        by (auto simp: filter_empty_conv)
      with True show ?thesis by (cases "mode_key k = mode_key c") auto
    qed (use Cons in auto)
  qed simp
qed

lemma sort_loop_props:
  assumes "\<forall>x \<in> set xs. mode_sane x" "\<forall>x \<in> set ys. mode_sane x" "sorted (map mode_key xs)"
  shows "mset (sort_loop xs ys) = mset (xs @ ys) \<and> sorted (map mode_key (sort_loop xs ys)) \<and>
    (\<forall>k. filter (\<lambda>x. mode_key k = mode_key x) (sort_loop xs ys) = filter (\<lambda>x. mode_key k = mode_key x) (xs @ ys))"
  using assms
proof (induction ys arbitrary: xs)
  case (Cons y ys)
  have y: "mode_sane y" using Cons.prems by simp
  note p = place_props [OF y Cons.prems(1)]
  have set: "set (place y xs) = insert y (set xs)"
    using p(1) by (metis set_mset_add_mset_insert set_mset_mset)
  have "mset (sort_loop (place y xs) ys) = mset (place y xs @ ys) \<and> sorted (map mode_key (sort_loop (place y xs) ys)) \<and>
    (\<forall>k. filter (\<lambda>x. mode_key k = mode_key x) (sort_loop (place y xs) ys) = filter (\<lambda>x. mode_key k = mode_key x) (place y xs @ ys))"
    by (rule Cons.IH) (use Cons.prems set p(2) in auto)
  with p Cons.prems(3) show ?case by auto
qed auto

lemma mode_ordered_sorted:
  "\<forall>x \<in> set xs. mode_sane x \<Longrightarrow> mode_ordered xs \<longleftrightarrow> sorted (map mode_key xs)"
proof (induction xs rule: mode_ordered.induct)
  case (1 a b rest)
  then show ?case by (auto simp: compare_key not_less intro: order_trans)
qed auto

text \<open>
  Claim C9. \<open>drm_mode_sort\<close>, the hand-written insertion sort on the list links, is a stable sort by
  favourability: preferred modes first, then by decreasing area, refresh rate and clock. It returns
  exactly the stable sort of its argument (so a permutation of it), for modes whose fields do not
  overflow the comparison.
\<close>

theorem drm_mode_sort_correct:
  assumes "\<forall>x \<in> set ms. mode_sane x"
  shows "drm_mode_sort ms = sort_key mode_key ms"
proof -
  have "sort_key mode_key ms = drm_mode_sort ms"
  proof (cases ms)
    case (Cons x xs)
    show ?thesis
    proof (cases "mode_ordered ms")
      case True
      then have "drm_mode_sort ms = ms" using Cons by (simp add: drm_mode_sort_def)
      moreover have "sorted (map mode_key ms)" using mode_ordered_sorted [OF assms] True by simp
      ultimately show ?thesis by (intro properties_for_sort_key) simp_all
    next
      case False
      then have "drm_mode_sort ms = sort_loop [x] xs" using Cons by (simp add: drm_mode_sort_def)
      with sort_loop_props [of "[x]" xs] assms Cons show ?thesis
        by (intro properties_for_sort_key) auto
    qed
  qed (simp add: drm_mode_sort_def)
  then show ?thesis by simp
qed

definition mode0 :: drm_display_mode where
  "mode0 = \<lparr>base_id = 0, name = '''', status = MODE_OK, mtype = {}, clock = 0, hdisplay = 0, hsync_start = 0, hsync_end = 0,
     htotal = 0, hskew = 0, vdisplay = 0, vsync_start = 0, vsync_end = 0, vtotal = 0, vscan = 0, flags = {}, width_mm = 0,
     height_mm = 0, crtc_hdisplay = 0, crtc_hblank_start = 0, crtc_hblank_end = 0, crtc_hsync_start = 0, crtc_hsync_end = 0,
     crtc_htotal = 0, crtc_hskew = 0, crtc_vdisplay = 0, crtc_vblank_start = 0, crtc_vblank_end = 0, crtc_vsync_start = 0,
     crtc_vsync_end = 0, crtc_vtotal = 0, vrefresh = 0, hsync = 0\<rparr>"

definition mode_vga :: drm_display_mode where
  "mode_vga = mode0\<lparr>clock := 25175, hdisplay := 640, hsync_start := 656, hsync_end := 752, htotal := 800,
     vdisplay := 480, vsync_start := 490, vsync_end := 492, vtotal := 525\<rparr>"

definition mode_xga :: drm_display_mode where
  "mode_xga = mode0\<lparr>clock := 65000, hdisplay := 1024, hsync_start := 1048, hsync_end := 1184, htotal := 1344,
     vdisplay := 768, vsync_start := 771, vsync_end := 777, vtotal := 806, mtype := {TYPE_PREFERRED}\<rparr>"

theorem drm_mode_sort_correct_witness:
  "drm_mode_sort [mode_vga, mode_xga, mode_vga] = sort_key mode_key [mode_vga, mode_xga, mode_vga]"
  by (rule drm_mode_sort_correct) (simp add: mode_sane_def mode_vga_def mode_xga_def mode0_def INT_MAX_def)

subsection \<open>Validation\<close>

lemma prune_filter: "drm_mode_prune_invalid ms = filter (\<lambda>m. status m = MODE_OK) ms"
  by (induction ms) auto

lemma clock_in_ranges_iff: "clock_in_ranges c rs \<longleftrightarrow> (\<exists>(mn, mx) \<in> set rs. mn \<le> c \<and> c \<le> mx)"
  by (induction rs) auto

lemma validate_size1_status:
  "status (validate_size1 x y p m) = MODE_OK \<longleftrightarrow> status m = MODE_OK \<and>
     (p > 0 \<longrightarrow> hdisplay m \<le> p) \<and> (x > 0 \<longrightarrow> hdisplay m \<le> x) \<and> (y > 0 \<longrightarrow> vdisplay m \<le> y)"
  "status (validate_size1 x y p m) = MODE_OK \<Longrightarrow> validate_size1 x y p m = m"
  by (auto simp: validate_size1_def Let_def split: if_splits)

text \<open>
  Validating sizes and clocks and then pruning keeps exactly the good modes, unchanged and
  in their order: those that were good before, fit the limits on width, height and pitch (a limit that
  is not positive does not count), and whose clock lies in one of the ranges.
\<close>

theorem drm_mode_validation_correct:
  "drm_mode_prune_invalid (drm_mode_validate_clocks (drm_mode_validate_size ms maxX maxY maxPitch) ranges) =
     filter (\<lambda>m. status m = MODE_OK \<and> (maxPitch > 0 \<longrightarrow> hdisplay m \<le> maxPitch) \<and> (maxX > 0 \<longrightarrow> hdisplay m \<le> maxX) \<and>
       (maxY > 0 \<longrightarrow> vdisplay m \<le> maxY) \<and> (\<exists>(mn, mx) \<in> set ranges. mn \<le> clock m \<and> clock m \<le> mx)) ms"
proof -
  have c: "clock (validate_size1 maxX maxY maxPitch m) = clock m" for m by (simp add: validate_size1_def Let_def)
  show ?thesis
  proof (induction ms)
    case (Cons m ms)
    let ?v = "validate_size1 maxX maxY maxPitch m"
    have "status (if \<not> clock_in_ranges (clock ?v) ranges then ?v\<lparr>status := MODE_CLOCK_RANGE\<rparr> else ?v) = MODE_OK \<longleftrightarrow>
        clock_in_ranges (clock m) ranges \<and> status ?v = MODE_OK" by (simp add: c)
    with Cons show ?case
      using validate_size1_status [of maxX maxY maxPitch m]
      by (auto simp: drm_mode_validate_clocks_def drm_mode_validate_size_def prune_filter clock_in_ranges_iff c)
  qed (simp add: drm_mode_validate_clocks_def drm_mode_validate_size_def)
qed

theorem drm_mode_validation_correct_witness:
  "drm_mode_prune_invalid (drm_mode_validate_clocks (drm_mode_validate_size [mode_vga, mode_xga] 800 600 0) [(20000, 30000)]) = [mode_vga]"
  unfolding drm_mode_validation_correct by (simp add: mode_vga_def mode_xga_def mode0_def)

subsection \<open>Refresh rate and line rate\<close>

text \<open>
  Without a stored rate, \<open>drm_mode_vrefresh\<close> of a plain progressive mode is the frame rate
  \<open>clock * 1000 / htotal / vtotal\<close> rounded to the nearest integer: it is off from the line rate divided
  by the number of lines by at most half a line's worth. (For clocks of at most 2 GHz.)
\<close>

theorem drm_mode_vrefresh_correct:
  assumes "vrefresh m = 0" "0 \<le> clock m" "clock m \<le> 2000000" "0 < htotal m" "0 < vtotal m" "vtotal m \<le> 65535"
    and "FLAG_INTERLACE \<notin> flags m" "FLAG_DBLSCAN \<notin> flags m" "vscan m \<le> 1"
  shows "\<bar>2 * (drm_mode_vrefresh m * vtotal m - clock m * 1000 div htotal m)\<bar> \<le> vtotal m"
proof -
  let ?l = "clock m * 1000 div htotal m" and ?t = "vtotal m"
  have l: "0 \<le> ?l" "?l \<le> 2000000000"
  proof -
    show "0 \<le> ?l" using assms by (simp add: pos_imp_zdiv_nonneg_iff)
    have "?l \<le> clock m * 1000 div 1" using assms by (intro zdiv_mono2) simp_all
    then show "?l \<le> 2000000000" using assms(3) by simp
  qed
  have t2: "cdiv ?t 2 = ?t div 2" using assms(5) by (simp add: cdiv_nonneg)
  have tb: "0 \<le> ?t div 2" "2 * (?t div 2) \<le> ?t" "?t \<le> 2 * (?t div 2) + 1"
    using assms(5) by simp_all
  let ?r = "(?l + ?t div 2) div ?t"
  have u: "to_u32 (?l + ?t div 2) = ?l + ?t div 2" using l tb assms(6) by simp
  have r: "0 \<le> ?r" "?r \<le> 2147483647"
  proof -
    show "0 \<le> ?r" using l tb assms(5) by (simp add: pos_imp_zdiv_nonneg_iff)
    have "?r \<le> (?l + ?t div 2) div 1" using l tb assms(5) by (intro zdiv_mono2) simp_all
    then show "?r \<le> 2147483647" using l tb assms(6) by simp
  qed
  have c: "to_u32 (wrap32 (clock m * 1000)) = clock m * 1000"
    using assms(2,3) by (simp add: in_int_def INT_MAX_def INT_MIN_def)
  have "drm_mode_vrefresh m = ?r"
    using assms r u c t2 by (simp add: drm_mode_vrefresh_def Let_def in_int_def INT_MAX_def INT_MIN_def)
  moreover have "?r * ?t \<le> ?l + ?t div 2" "?l + ?t div 2 < (?r + 1) * ?t"
    using int_div_bounds [OF assms(5), of "?l + ?t div 2"] by simp_all
  ultimately show ?thesis using tb by (simp add: algebra_simps)
qed

theorem drm_mode_vrefresh_correct_witness:
  "\<bar>2 * (drm_mode_vrefresh mode_vga * 525 - 31468)\<bar> \<le> 525"
  using drm_mode_vrefresh_correct [of mode_vga] by (simp add: mode_vga_def mode0_def)

text \<open>
  \<open>drm_mode_hsync\<close> divides by zero exactly for a mode without a stored line rate whose total
  width is 0: the guard excludes negative widths only.
\<close>

theorem drm_mode_hsync_traps_iff:
  "drm_mode_hsync m = Inl BUG \<longleftrightarrow> hsync m = 0 \<and> htotal m = 0"
  by (auto simp: drm_mode_hsync_def Let_def)

subsection \<open>Timings for the CRTC\<close>

lemma if_v_map: "(if c then crtc_v_map f p else p) = crtc_v_map (\<lambda>v. if c then f v else v) p"
  by (simp add: crtc_v_map_def)

lemma crtc_v_map_fields [simp]:
  "crtc_vdisplay (crtc_v_map f p) = f (crtc_vdisplay p)" "crtc_vsync_start (crtc_v_map f p) = f (crtc_vsync_start p)"
  "crtc_vsync_end (crtc_v_map f p) = f (crtc_vsync_end p)" "crtc_vtotal (crtc_v_map f p) = f (crtc_vtotal p)"
  "crtc_hdisplay (crtc_v_map f p) = crtc_hdisplay p" "crtc_hsync_start (crtc_v_map f p) = crtc_hsync_start p"
  "crtc_hsync_end (crtc_v_map f p) = crtc_hsync_end p" "crtc_htotal (crtc_v_map f p) = crtc_htotal p"
  "flags (crtc_v_map f p) = flags p" "vscan (crtc_v_map f p) = vscan p"
  by (simp_all add: crtc_v_map_def)

lemma crtc_v_map_comp: "crtc_v_map g (crtc_v_map f p) = crtc_v_map (\<lambda>v. g (f v)) p"
  by (simp add: crtc_v_map_def)

lemma crtcinfo_fields:
  assumes "\<not> (TYPE_BUILTIN \<in> mtype m \<and> TYPE_CRTC \<notin> mtype m)"
  fixes halve
  defines "q \<equiv> drm_mode_set_crtcinfo m halve"
  defines "f1 \<equiv> \<lambda>v. if FLAG_INTERLACE \<in> flags m \<and> halve then cdiv v 2 else v"
    and "f2 \<equiv> \<lambda>v. if FLAG_DBLSCAN \<in> flags m then wrap32 (v * 2) else v"
    and "f3 \<equiv> \<lambda>v. if vscan m > 1 then wrap32 (v * vscan m) else v"
  shows "crtc_vdisplay q = f3 (f2 (f1 (vdisplay m)))" "crtc_vsync_start q = f3 (f2 (f1 (vsync_start m)))"
    "crtc_vsync_end q = f3 (f2 (f1 (vsync_end m)))" "crtc_vtotal q = f3 (f2 (f1 (vtotal m)))"
    "crtc_vblank_start q = min (crtc_vsync_start q) (crtc_vdisplay q)" "crtc_vblank_end q = max (crtc_vsync_end q) (crtc_vtotal q)"
    "crtc_hblank_start q = min (hsync_start m) (hdisplay m)" "crtc_hblank_end q = max (hsync_end m) (htotal m)"
proof -
  define p0 where "p0 = m\<lparr>crtc_hdisplay := hdisplay m, crtc_hsync_start := hsync_start m, crtc_hsync_end := hsync_end m,
     crtc_htotal := htotal m, crtc_hskew := hskew m, crtc_vdisplay := vdisplay m,
     crtc_vsync_start := vsync_start m, crtc_vsync_end := vsync_end m, crtc_vtotal := vtotal m\<rparr>"
  have f: "flags p0 = flags m" "vscan p0 = vscan m" by (simp_all add: p0_def)
  define p3 where "p3 = crtc_v_map (\<lambda>v. f3 (f2 (f1 v))) p0"
  have q: "q = p3\<lparr>crtc_vblank_start := min (crtc_vsync_start p3) (crtc_vdisplay p3),
     crtc_vblank_end := max (crtc_vsync_end p3) (crtc_vtotal p3),
     crtc_hblank_start := min (crtc_hsync_start p3) (crtc_hdisplay p3),
     crtc_hblank_end := max (crtc_hsync_end p3) (crtc_htotal p3)\<rparr>"
    unfolding q_def drm_mode_set_crtcinfo_def if_not_P [OF assms(1)] Let_def p0_def [symmetric] if_v_map crtc_v_map_comp
      crtc_v_map_fields(9,10) f p3_def f1_def f2_def f3_def by (rule refl)
  show "crtc_vdisplay q = f3 (f2 (f1 (vdisplay m)))" "crtc_vsync_start q = f3 (f2 (f1 (vsync_start m)))"
    "crtc_vsync_end q = f3 (f2 (f1 (vsync_end m)))" "crtc_vtotal q = f3 (f2 (f1 (vtotal m)))"
    "crtc_vblank_start q = min (crtc_vsync_start q) (crtc_vdisplay q)" "crtc_vblank_end q = max (crtc_vsync_end q) (crtc_vtotal q)"
    "crtc_hblank_start q = min (hsync_start m) (hdisplay m)" "crtc_hblank_end q = max (hsync_end m) (htotal m)"
    by (simp_all add: q p3_def p0_def)
qed

text \<open>
  For a mode with ordered timings, \<open>drm_mode_set_crtcinfo\<close> produces ordered CRTC timings
  whose blanking interval is the part outside the visible area: it starts where the visible area
  ends and ends at the total, and the sync pulse lies inside; interlacing, double scan and
  multi-scan scale all vertical values alike. (Values small enough that scaling does not overflow.)
\<close>

theorem drm_mode_set_crtcinfo_ordered:
  assumes "\<not> (TYPE_BUILTIN \<in> mtype m \<and> TYPE_CRTC \<notin> mtype m)"
    and h: "0 \<le> hdisplay m" "hdisplay m \<le> hsync_start m" "hsync_start m \<le> hsync_end m" "hsync_end m \<le> htotal m"
    and v: "0 \<le> vdisplay m" "vdisplay m \<le> vsync_start m" "vsync_start m \<le> vsync_end m" "vsync_end m \<le> vtotal m"
    and b: "vtotal m \<le> 65535" "vscan m \<le> 256" and q: "q = drm_mode_set_crtcinfo m halve"
  shows "crtc_hblank_start q = hdisplay m \<and> crtc_hblank_end q = htotal m \<and> crtc_vblank_start q = crtc_vdisplay q \<and>
    crtc_vblank_end q = crtc_vtotal q \<and> 0 \<le> crtc_vdisplay q \<and> crtc_vdisplay q \<le> crtc_vsync_start q \<and>
    crtc_vsync_start q \<le> crtc_vsync_end q \<and> crtc_vsync_end q \<le> crtc_vtotal q"
proof -
  define f1 where "f1 v = (if FLAG_INTERLACE \<in> flags m \<and> halve then cdiv v 2 else v)" for v
  define f2 where "f2 v = (if FLAG_DBLSCAN \<in> flags m then wrap32 (v * 2) else v)" for v
  define f3 where "f3 v = (if vscan m > 1 then wrap32 (v * vscan m) else v)" for v
  let ?f = "\<lambda>v. f3 (f2 (f1 v))"
  have f1: "0 \<le> f1 v \<and> f1 v \<le> 65535" "v \<le> w \<Longrightarrow> f1 v \<le> f1 w" if "0 \<le> v" "v \<le> 65535" "0 \<le> w" for v w
    using that by (auto simp: f1_def cdiv_nonneg zdiv_mono1)
  have f2: "f2 v = (if FLAG_DBLSCAN \<in> flags m then v * 2 else v)" if "0 \<le> v" "v \<le> 65535" for v
    using that by (simp add: f2_def in_int_def INT_MAX_def INT_MIN_def)
  have f3: "f3 v = (if vscan m > 1 then v * vscan m else v)" if "0 \<le> v" "v \<le> 131070" for v
  proof -
    have "v * vscan m \<le> 131070 * 256" if "vscan m > 1" using that \<open>0 \<le> v\<close> \<open>v \<le> 131070\<close> b(2) by (intro mult_mono) simp_all
    moreover have "0 \<le> v * vscan m" if "vscan m > 1" using that \<open>0 \<le> v\<close> by simp
    ultimately show ?thesis by (auto simp: f3_def in_int_def INT_MAX_def INT_MIN_def)
  qed
  have mono: "0 \<le> ?f v \<and> ?f v \<le> ?f w" if "0 \<le> v" "v \<le> w" "w \<le> 65535" for v w
  proof -
    have a: "0 \<le> f1 v" "f1 v \<le> f1 w" "f1 w \<le> 65535" using f1 [of v w] f1 [of w w] that by auto
    then have c: "0 \<le> f2 (f1 v)" "f2 (f1 v) \<le> f2 (f1 w)" "f2 (f1 w) \<le> 131070" by (auto simp: f2)
    then show ?thesis by (auto simp: f3 intro: mult_right_mono)
  qed
  have eqs: "crtc_vdisplay q = ?f (vdisplay m)" "crtc_vsync_start q = ?f (vsync_start m)"
    "crtc_vsync_end q = ?f (vsync_end m)" "crtc_vtotal q = ?f (vtotal m)"
    "crtc_vblank_start q = min (crtc_vsync_start q) (crtc_vdisplay q)" "crtc_vblank_end q = max (crtc_vsync_end q) (crtc_vtotal q)"
    "crtc_hblank_start q = min (hsync_start m) (hdisplay m)" "crtc_hblank_end q = max (hsync_end m) (htotal m)"
    using crtcinfo_fields [OF assms(1), of halve, folded f1_def f2_def f3_def] by (simp_all add: q)
  have "0 \<le> ?f (vdisplay m)" "?f (vdisplay m) \<le> ?f (vsync_start m)" "?f (vsync_start m) \<le> ?f (vsync_end m)"
    "?f (vsync_end m) \<le> ?f (vtotal m)"
    using mono [of "vdisplay m" "vsync_start m"] mono [of "vsync_start m" "vsync_end m"] mono [of "vsync_end m" "vtotal m"] v b
    by auto
  then show ?thesis using h by (simp add: eqs)
qed

theorem drm_mode_set_crtcinfo_ordered_witness:
  "crtc_vblank_start (drm_mode_set_crtcinfo mode_vga True) = crtc_vdisplay (drm_mode_set_crtcinfo mode_vga True)"
  using drm_mode_set_crtcinfo_ordered [of mode_vga _ True, OF _ _ _ _ _ _ _ _ _ _ _ refl] by (simp add: mode_vga_def mode0_def)

subsection \<open>Merging the probed modes\<close>

text \<open>What \<open>drm_mode_equal\<close> compares.\<close>

definition eq_key :: "drm_display_mode \<Rightarrow> int option \<times> int list \<times> mode_flag set" where
  "eq_key m = (if clock m = 0 then None else Some (KHZ2PICOS (clock m)),
     [hdisplay m, hsync_start m, hsync_end m, htotal m, hskew m, vdisplay m, vsync_start m, vsync_end m, vtotal m, vscan m],
     flags m)"

lemma drm_mode_equal_key: "drm_mode_equal m1 m2 \<longleftrightarrow> eq_key m1 = eq_key m2"
  by (auto simp: drm_mode_equal_def drm_mode_equal_no_clocks_def eq_key_def)

lemma merge_probed_None: "merge_probed p ms = None \<longleftrightarrow> eq_key p \<notin> eq_key ` set ms"
  by (induction ms) (auto simp: drm_mode_equal_key)

lemma merge_probed_Some:
  assumes "merge_probed p ms = Some ms'" "distinct (map eq_key ms)"
  shows "map eq_key ms' = map eq_key ms"
    and "r \<in> set ms' \<Longrightarrow> eq_key r = eq_key p \<and> status r = status p \<or> r \<in> set ms \<and> eq_key r \<noteq> eq_key p"
  using assms
proof (induction ms arbitrary: ms')
  case (Cons m ms)
  {
    case 1
    show ?case
    proof (cases "drm_mode_equal p m")
      case True
      then show ?thesis using 1 by (auto simp: eq_key_def)
    next
      case False
      then show ?thesis using 1 Cons.IH(1) by auto
    qed
  next
    case 2
    show ?case
    proof (cases "drm_mode_equal p m")
      case True
      then have k: "eq_key p = eq_key m" by (simp add: drm_mode_equal_key)
      have "eq_key (m\<lparr>status := status p, mtype := mtype m \<union> mtype p\<rparr>) = eq_key m" by (simp add: eq_key_def)
      moreover have "eq_key x \<noteq> eq_key m" if "x \<in> set ms" for x
        using 2(3) that by (metis image_eqI distinct.simps(2) list.set_map list.simps(9))
      ultimately show ?thesis using 2 True k by auto
    next
      case False
      then obtain ms1 where "merge_probed p ms = Some ms1" "ms' = m # ms1" using 2(2) by auto
      with 2 False Cons.IH(2) [of ms1] show ?thesis by (auto simp: drm_mode_equal_key)
    qed
  }
qed simp_all

lemma list_update_spec:
  assumes "distinct (map eq_key ms)" "\<forall>p \<in> set ps. status p = MODE_OK"
    and "\<forall>r \<in> set ms. status r = (if eq_key r \<in> K then MODE_OK else MODE_UNVERIFIED)"
  shows "distinct (map eq_key (drm_mode_connector_list_update ms ps)) \<and>
    eq_key ` set (drm_mode_connector_list_update ms ps) = eq_key ` set ms \<union> eq_key ` set ps \<and>
    (\<forall>r \<in> set (drm_mode_connector_list_update ms ps).
       status r = (if eq_key r \<in> K \<union> eq_key ` set ps then MODE_OK else MODE_UNVERIFIED))"
  using assms
proof (induction ps arbitrary: ms K)
  case (Cons p ps)
  let ?K = "insert (eq_key p) K"
  let ?ms = "case merge_probed p ms of Some ms' \<Rightarrow> ms' | None \<Rightarrow> ms @ [p]"
  have step: "distinct (map eq_key ?ms) \<and> eq_key ` set ?ms = insert (eq_key p) (eq_key ` set ms) \<and>
      (\<forall>r \<in> set ?ms. status r = (if eq_key r \<in> ?K then MODE_OK else MODE_UNVERIFIED))"
  proof (cases "merge_probed p ms")
    case None
    then have "eq_key p \<notin> eq_key ` set ms" by (simp add: merge_probed_None)
    with None Cons.prems show ?thesis by (auto simp: image_iff)
  next
    case (Some ms')
    note s = merge_probed_Some [OF Some Cons.prems(1)]
    have "eq_key p \<in> eq_key ` set ms" using Some merge_probed_None [of p ms] by auto
    moreover have "eq_key ` set ms' = eq_key ` set ms" by (metis s(1) list.set_map)
    ultimately have "eq_key ` set ms' = insert (eq_key p) (eq_key ` set ms)" by blast
    moreover have "status r = (if eq_key r \<in> ?K then MODE_OK else MODE_UNVERIFIED)" if "r \<in> set ms'" for r
      using s(2) [OF that] Cons.prems(2,3) by auto
    moreover have "distinct (map eq_key ms')" unfolding s(1) by (rule Cons.prems(1))
    ultimately show ?thesis using Some by simp
  qed
  have "distinct (map eq_key (drm_mode_connector_list_update ?ms ps)) \<and>
    eq_key ` set (drm_mode_connector_list_update ?ms ps) = eq_key ` set ?ms \<union> eq_key ` set ps \<and>
    (\<forall>r \<in> set (drm_mode_connector_list_update ?ms ps).
       status r = (if eq_key r \<in> ?K \<union> eq_key ` set ps then MODE_OK else MODE_UNVERIFIED))"
    by (rule Cons.IH) (use step Cons.prems in auto)
  with step show ?case by auto
qed simp

text \<open>
  Claim C33. Probing: when the modes of a connector are marked unverified before, contain no two equal
  ones, and the probed modes are good, then merging the probed modes and pruning leaves, up to the
  equality of \<open>drm_mode_equal\<close>, exactly the probed modes, each once.
\<close>

theorem drm_mode_probe_update_correct:
  assumes "distinct (map eq_key modes)" "\<forall>m \<in> set modes. status m = MODE_UNVERIFIED"
    and "\<forall>p \<in> set probed. status p = MODE_OK"
    and "r = drm_mode_prune_invalid (drm_mode_connector_list_update modes probed)"
  shows "(\<forall>p \<in> set probed. \<exists>m \<in> set r. drm_mode_equal p m) \<and> (\<forall>m \<in> set r. \<exists>p \<in> set probed. drm_mode_equal p m) \<and>
    (\<forall>i j. i < j \<and> j < length r \<longrightarrow> \<not> drm_mode_equal (r ! i) (r ! j))"
proof -
  let ?u = "drm_mode_connector_list_update modes probed"
  have "\<forall>r \<in> set modes. status r = (if eq_key r \<in> {} then MODE_OK else MODE_UNVERIFIED)" using assms(2) by simp
  from list_update_spec [OF assms(1,3) this]
  have u: "distinct (map eq_key ?u)" "eq_key ` set ?u = eq_key ` set modes \<union> eq_key ` set probed"
    "\<forall>r \<in> set ?u. status r = MODE_OK \<longleftrightarrow> eq_key r \<in> eq_key ` set probed" by auto
  have r: "r = filter (\<lambda>m. status m = MODE_OK) ?u" by (simp add: assms(4) prune_filter)
  have "\<exists>m \<in> set r. drm_mode_equal p m" if p: "p \<in> set probed" for p
  proof -
    have "eq_key p \<in> eq_key ` set ?u" using u(2) p by blast
    then obtain m where m: "m \<in> set ?u" "eq_key m = eq_key p" by (metis imageE)
    then have "status m = MODE_OK" using u(3) p by (metis image_eqI)
    with m show ?thesis unfolding r by (intro bexI [of _ m]) (auto simp: drm_mode_equal_key)
  qed
  moreover have "\<exists>p \<in> set probed. drm_mode_equal p m" if "m \<in> set r" for m
    using that u(3) unfolding r by (fastforce simp: drm_mode_equal_key)
  moreover have "\<not> drm_mode_equal (r ! i) (r ! j)" if "i < j" "j < length r" for i j
  proof -
    have "distinct (map eq_key r)" unfolding r using u(1) by (rule distinct_map_filter)
    then have "map eq_key r ! i \<noteq> map eq_key r ! j"      using that nth_eq_iff_index_eq [of "map eq_key r" i j] by simp
    with that show ?thesis by (simp add: drm_mode_equal_key)
  qed
  ultimately show ?thesis by blast
qed

theorem drm_mode_probe_update_correct_witness:
  "\<exists>m \<in> set (drm_mode_prune_invalid
     (drm_mode_connector_list_update [mode_vga\<lparr>status := MODE_UNVERIFIED\<rparr>] [mode_xga, mode_xga])). drm_mode_equal mode_xga m"
proof (rule drm_mode_probe_update_correct [where modes = "[mode_vga\<lparr>status := MODE_UNVERIFIED\<rparr>]" and probed = "[mode_xga, mode_xga]",
    OF _ _ _ refl, THEN conjunct1, THEN bspec])
  show "distinct (map eq_key [mode_vga\<lparr>status := MODE_UNVERIFIED\<rparr>])" by simp
  show "\<forall>m \<in> set [mode_vga\<lparr>status := MODE_UNVERIFIED\<rparr>]. status m = MODE_UNVERIFIED" by simp
  show "\<forall>p \<in> set [mode_xga, mode_xga]. status p = MODE_OK" by (simp add: mode_xga_def mode0_def)
  show "mode_xga \<in> set [mode_xga, mode_xga]" by simp
qed

end
