(* ===== verification/Drm_Modes_Gen.thy ===== *)
theory Drm_Modes_Gen
  imports Drm_Modes
begin

text \<open>
  Generating modes: the CVT and the GTF formulas of \<open>drm_modes.c\<close>. Every intermediate value is kept
  as the C code has it: \<open>unsigned int\<close> expressions modulo 2^32 (\<open>to_u32\<close>, and an operation on an \<open>int\<close>
  and an \<open>unsigned int\<close> is unsigned), \<open>int\<close> expressions wrapped; a division by zero is \<open>Inl BUG\<close>. The new
  mode that \<open>drm_mode_create\<close> returns is a parameter.
\<close>

subsection \<open>Names\<close>

text \<open>\<open>%d\<close>: the decimal digits of an integer.\<close>

function digits :: "nat \<Rightarrow> string" where
  "digits n = (if n < 10 then [char_of (48 + n)] else digits (n div 10) @ [char_of (48 + n mod 10)])"
  by pat_completeness auto
termination by (relation "measure id") auto

declare digits.simps [simp del]

definition show_int :: "int \<Rightarrow> string" where
  "show_int k = (if k < 0 then CHR ''-'' # digits (nat (- k)) else digits (nat k))"

text \<open>The buffer of \<open>DRM_DISPLAY_MODE_LEN\<close> bytes is larger than any two \<open>int\<close>s, so nothing is cut off.\<close>

definition drm_mode_set_name :: "drm_display_mode \<Rightarrow> drm_display_mode" where
  "drm_mode_set_name mode =
     mode\<lparr>name := show_int (hdisplay mode) @ ''x'' @ show_int (vdisplay mode) @
             (if FLAG_INTERLACE \<in> flags mode then ''i'' else '''')\<rparr>"

subsection \<open>CVT\<close>

definition udiv :: "int \<Rightarrow> int \<Rightarrow> int result" where
  "udiv a b = (if to_u32 b = 0 then Inl BUG else Inr (to_u32 a div to_u32 b))"

text \<open>The width of the vertical sync pulse, from the aspect ratio.\<close>

definition cvt_vsync :: "int \<Rightarrow> int \<Rightarrow> int" where
  "cvt_vsync hres vres =
     (if cmod vres 3 = 0 \<and> cdiv (wrap32 (vres * 4)) 3 = hres then 4
      else if cmod vres 9 = 0 \<and> cdiv (wrap32 (vres * 16)) 9 = hres then 5
      else if cmod vres 10 = 0 \<and> cdiv (wrap32 (vres * 16)) 10 = hres then 6
      else if cmod vres 4 = 0 \<and> cdiv (wrap32 (vres * 5)) 4 = hres then 7
      else if cmod vres 9 = 0 \<and> cdiv (wrap32 (vres * 15)) 9 = hres then 7
      else 10)"

text \<open>Full blanking; the result carries \<open>hperiod\<close>.\<close>

definition cvt_full :: "int \<Rightarrow> int \<Rightarrow> int \<Rightarrow> int \<Rightarrow> int \<Rightarrow> drm_display_mode \<Rightarrow> (int \<times> drm_display_mode) result" where
  "cvt_full vfieldrate vdisplay_rnd vmargin interlace vsync m =
     (let tmp1 = wrap32 (1000000000 - 550000 * vfieldrate);
          tmp2 = wrap32 ((vdisplay_rnd + 2 * vmargin + 3) * 2 + interlace)
      in (case udiv (wrap32 (tmp1 * 2)) (tmp2 * vfieldrate) of
            Inl e \<Rightarrow> Inl e
          | Inr hperiod \<Rightarrow>
              (case udiv 550000 hperiod of
                 Inl e \<Rightarrow> Inl e
               | Inr q \<Rightarrow>
                   let tmp1 = wrap32 (q + 1);
                       vsyncandback_porch = (if tmp1 < vsync + 3 then vsync + 3 else tmp1);
                       m = m\<lparr>vtotal := wrap32 (vdisplay_rnd + 2 * vmargin + vsyncandback_porch + 3)\<rparr>;
                       hblank_percentage = to_u32 (30000 - to_u32 (300 * hperiod) div 1000);
                       hblank_percentage = (if hblank_percentage < 20000 then 20000 else hblank_percentage)
                   in (case udiv (hdisplay m * hblank_percentage) (100000 - hblank_percentage) of
                         Inl e \<Rightarrow> Inl e
                       | Inr hb \<Rightarrow>
                           let hblank = wrap32 hb;
                               hblank = wrap32 (hblank - cmod hblank 16);
                               m = m\<lparr>htotal := wrap32 (hdisplay m + hblank)\<rparr>;
                               m = m\<lparr>hsync_end := wrap32 (hdisplay m + cdiv hblank 2)\<rparr>;
                               m = m\<lparr>hsync_start := wrap32 (hsync_end m - cdiv (wrap32 (htotal m * 8)) 100)\<rparr>;
                               m = m\<lparr>hsync_start := wrap32 (hsync_start m + (8 - cmod (hsync_start m) 8))\<rparr>;
                               m = m\<lparr>vsync_start := wrap32 (vdisplay m + 3)\<rparr>;
                               m = m\<lparr>vsync_end := wrap32 (vsync_start m + vsync)\<rparr>
                           in Inr (hperiod, m)))))"

definition cvt_reduced :: "int \<Rightarrow> int \<Rightarrow> int \<Rightarrow> int \<Rightarrow> drm_display_mode \<Rightarrow> (int \<times> drm_display_mode) result" where
  "cvt_reduced vfieldrate vdisplay_rnd vmargin vsync m =
     (let tmp1 = wrap32 (1000000000 - 460000 * vfieldrate);
          tmp2 = wrap32 (vdisplay_rnd + 2 * vmargin)
      in (case udiv tmp1 (tmp2 * vfieldrate) of
            Inl e \<Rightarrow> Inl e
          | Inr hperiod \<Rightarrow>
              (case udiv 460000 hperiod of
                 Inl e \<Rightarrow> Inl e
               | Inr q \<Rightarrow>
                   let vbilines = wrap32 (q + 1);
                       vbilines = (if vbilines < 3 + vsync + 6 then 3 + vsync + 6 else vbilines);
                       m = m\<lparr>vtotal := wrap32 (vdisplay_rnd + 2 * vmargin + vbilines)\<rparr>;
                       m = m\<lparr>htotal := wrap32 (hdisplay m + 160)\<rparr>;
                       m = m\<lparr>hsync_end := wrap32 (hdisplay m + 80)\<rparr>;
                       m = m\<lparr>hsync_start := wrap32 (hsync_end m - 32)\<rparr>;
                       m = m\<lparr>vsync_start := wrap32 (vdisplay m + 3)\<rparr>;
                       m = m\<lparr>vsync_end := wrap32 (vsync_start m + vsync)\<rparr>
                   in Inr (hperiod, m))))"

definition drm_cvt_mode ::
  "drm_display_mode option \<Rightarrow> int \<Rightarrow> int \<Rightarrow> int \<Rightarrow> bool \<Rightarrow> bool \<Rightarrow> bool \<Rightarrow> drm_display_mode option result" where
  "drm_cvt_mode created hres vres vr reduced interlaced margins =
     (case created of
        None \<Rightarrow> Inr None
      | Some m \<Rightarrow>
          let vr = (if vr = 0 then 60 else vr);
              vfieldrate = to_u32 (if interlaced then vr * 2 else vr);
              hdisplay_rnd = wrap32 (hres - cmod hres 8);
              hmargin = (if margins then cdiv (wrap32 (hdisplay_rnd * 18)) 1000 else 0);
              hmargin = (if margins then hmargin - cmod hmargin 8 else 0);
              m = m\<lparr>hdisplay := wrap32 (hdisplay_rnd + 2 * hmargin)\<rparr>;
              vdisplay_rnd = (if interlaced then cdiv vres 2 else vres);
              vmargin = (if margins then cdiv (wrap32 (vdisplay_rnd * 18)) 1000 else 0);
              m = m\<lparr>vdisplay := wrap32 (vres + 2 * vmargin)\<rparr>;
              interlace = (if interlaced then 1 else 0);
              vsync = cvt_vsync hres vres
          in (case (if \<not> reduced then cvt_full vfieldrate vdisplay_rnd vmargin interlace vsync m
                    else cvt_reduced vfieldrate vdisplay_rnd vmargin vsync m) of
                Inl e \<Rightarrow> Inl e
              | Inr (hperiod, m) \<Rightarrow>
                  (case udiv (htotal m * 1000000) hperiod of
                     Inl e \<Rightarrow> Inl e
                   | Inr c \<Rightarrow>
                       let m = m\<lparr>clock := wrap32 c\<rparr>;
                           m = m\<lparr>clock := wrap32 (clock m - cmod (clock m) 250)\<rparr>;
                           m = (if interlaced then m\<lparr>vtotal := wrap32 (vtotal m * 2), flags := flags m \<union> {FLAG_INTERLACE}\<rparr> else m);
                           m = drm_mode_set_name m
                       in Inr (Some (m\<lparr>flags := flags m \<union>
                            (if reduced then {FLAG_PHSYNC, FLAG_NVSYNC} else {FLAG_PVSYNC, FLAG_NHSYNC})\<rparr>)))))"

subsection \<open>GTF\<close>

text \<open>\<open>GTF_C_PRIME\<close> and \<open>GTF_M_PRIME\<close>.\<close>

definition gtf_c_prime :: "int \<Rightarrow> int \<Rightarrow> int \<Rightarrow> int" where
  "gtf_c_prime c2 k j2 = cdiv (wrap32 (cdiv (wrap32 ((c2 - j2) * k)) 256 + j2)) 2"

definition gtf_m_prime :: "int \<Rightarrow> int \<Rightarrow> int" where
  "gtf_m_prime m k = cdiv (wrap32 (k * m)) 256"

text \<open>Steps 7 to 14: the estimated line rate and the number of lines of a field.\<close>

definition gtf_lines :: "int \<Rightarrow> int \<Rightarrow> int \<Rightarrow> int \<Rightarrow> (int \<times> int) result" where
  "gtf_lines vdisplay_rnd vfieldrate_rqd top_margin interlace =
     (let tmp1 = to_u32 (1000000 - 550 * vfieldrate_rqd) div 500;
          tmp2 = to_u32 ((vdisplay_rnd + 2 * top_margin + 1) * 2 + interlace)
      in (case udiv (tmp2 * 1000 * vfieldrate_rqd) tmp1 of
            Inl e \<Rightarrow> Inl e
          | Inr hfreq_est \<Rightarrow>
              let vsync_plus_bp = wrap32 (to_u32 (550 * hfreq_est) div 1000);
                  vsync_plus_bp = cdiv (wrap32 (vsync_plus_bp + 500)) 1000;
                  vtotal_lines = to_u32 (vdisplay_rnd + top_margin + top_margin + vsync_plus_bp + 1)
              in if vtotal_lines = 0 \<or> to_u32 (vfieldrate_rqd * vtotal_lines) = 0 then Inl BUG
                 else Inr (hfreq_est, vtotal_lines)))"

text \<open>Steps 18 to 20: the blanking pixels of a line with the given active pixels.\<close>

definition gtf_hblank :: "int \<Rightarrow> int \<Rightarrow> int \<Rightarrow> int \<Rightarrow> int result" where
  "gtf_hblank c_prime m_prime hfreq_est total_active_pixels =
     (case udiv (wrap32 (m_prime * 1000000)) hfreq_est of
        Inl e \<Rightarrow> Inl e
      | Inr q \<Rightarrow>
          let ideal_duty_cycle = to_u32 (c_prime * 1000 - q)
          in (case udiv (total_active_pixels * ideal_duty_cycle) (100000 - ideal_duty_cycle) of
                Inl e \<Rightarrow> Inl e
              | Inr hblank \<Rightarrow> Inr (to_u32 (to_u32 (hblank + 8) div 16 * 2 * 8))))"

text \<open>Stage 2: fill in the mode; \<open>std\<close> says that the standard parameters are used.\<close>

definition gtf_pack :: "int \<Rightarrow> int \<Rightarrow> int \<Rightarrow> int \<Rightarrow> int \<Rightarrow> int \<Rightarrow> bool \<Rightarrow> bool \<Rightarrow> drm_display_mode \<Rightarrow> drm_display_mode" where
  "gtf_pack hdisplay_rnd vdisplay_rnd total_active_pixels hfreq_est vtotal_lines hblank interlaced std m =
     (let total_pixels = to_u32 (total_active_pixels + hblank);
          pixel_freq = to_u32 (total_pixels * hfreq_est) div 1000;
          hsync = wrap32 (to_u32 (8 * total_pixels) div 100);
          hsync = cdiv (wrap32 (hsync + 4)) 8;
          hsync = wrap32 (hsync * 8);
          hfront_porch = wrap32 (hblank div 2 - hsync);
          m = m\<lparr>hdisplay := wrap32 hdisplay_rnd, hsync_start := wrap32 (hdisplay_rnd + hfront_porch)\<rparr>;
          m = m\<lparr>hsync_end := wrap32 (hsync_start m + hsync), htotal := wrap32 total_pixels,
                vdisplay := wrap32 vdisplay_rnd, vsync_start := wrap32 (vdisplay_rnd + 1)\<rparr>;
          m = m\<lparr>vsync_end := wrap32 (vsync_start m + 3), vtotal := wrap32 vtotal_lines, clock := wrap32 pixel_freq\<rparr>;
          m = (if interlaced then m\<lparr>vtotal := wrap32 (vtotal m * 2), flags := flags m \<union> {FLAG_INTERLACE}\<rparr> else m);
          m = drm_mode_set_name m
      in m\<lparr>flags := (if std then {FLAG_NHSYNC, FLAG_PVSYNC} else {FLAG_PHSYNC, FLAG_NVSYNC})\<rparr>)"

definition drm_gtf_mode_complex ::
  "drm_display_mode option \<Rightarrow> int \<Rightarrow> int \<Rightarrow> int \<Rightarrow> bool \<Rightarrow> bool \<Rightarrow> int \<Rightarrow> int \<Rightarrow> int \<Rightarrow> int \<Rightarrow> drm_display_mode option result" where
  "drm_gtf_mode_complex created hres vres vr interlaced margins GTF_M GTF_2C GTF_K GTF_2J =
     (case created of
        None \<Rightarrow> Inr None
      | Some m \<Rightarrow>
          let hdisplay_rnd = to_u32 (cdiv (wrap32 (hres + 4)) 8);
              hdisplay_rnd = to_u32 (hdisplay_rnd * 8);
              vdisplay_rnd = to_u32 (if interlaced then cdiv vres 2 else vres);
              vfieldrate_rqd = to_u32 (if interlaced then vr * 2 else vr);
              top_margin = (if margins then wrap32 (to_u32 (vdisplay_rnd * 18 + 500) div 1000) else 0);
              interlace = (if interlaced then 1 else 0)
          in (case gtf_lines vdisplay_rnd vfieldrate_rqd top_margin interlace of
                Inl e \<Rightarrow> Inl e
              | Inr (hfreq_est, vtotal_lines) \<Rightarrow>
                  let left_margin = (if margins then wrap32 (to_u32 (hdisplay_rnd * 18 + 500) div 1000) else 0);
                      total_active_pixels = to_u32 (hdisplay_rnd + left_margin + left_margin)
                  in (case gtf_hblank (gtf_c_prime GTF_2C GTF_K GTF_2J) (gtf_m_prime GTF_M GTF_K) hfreq_est total_active_pixels of
                        Inl e \<Rightarrow> Inl e
                      | Inr hblank \<Rightarrow>
                          Inr (Some (gtf_pack hdisplay_rnd vdisplay_rnd total_active_pixels hfreq_est vtotal_lines hblank interlaced
                            (GTF_M = 600 \<and> GTF_2C = 80 \<and> GTF_K = 128 \<and> GTF_2J = 40) m)))))"

definition drm_gtf_mode ::
  "drm_display_mode option \<Rightarrow> int \<Rightarrow> int \<Rightarrow> int \<Rightarrow> bool \<Rightarrow> bool \<Rightarrow> drm_display_mode option result" where
  "drm_gtf_mode created hres vres vr lace margins = drm_gtf_mode_complex created hres vres vr lace margins 600 80 128 40"

subsection \<open>Modes from the command line\<close>

record drm_cmdline_mode =
  cmd_xres :: int
  cmd_yres :: int
  cmd_refresh :: int
  refresh_specified :: bool
  cmd_rb :: bool
  cmd_interlace :: bool
  cmd_cvt :: bool
  cmd_margins :: bool

definition drm_mode_create_from_cmdline_mode ::
  "drm_display_mode option \<Rightarrow> drm_cmdline_mode \<Rightarrow> drm_display_mode option result" where
  "drm_mode_create_from_cmdline_mode created cmd =
     (case (if cmd_cvt cmd
            then drm_cvt_mode created (cmd_xres cmd) (cmd_yres cmd) (if refresh_specified cmd then cmd_refresh cmd else 60)
                   (cmd_rb cmd) (cmd_interlace cmd) (cmd_margins cmd)
            else drm_gtf_mode created (cmd_xres cmd) (cmd_yres cmd) (if refresh_specified cmd then cmd_refresh cmd else 60)
                   (cmd_interlace cmd) (cmd_margins cmd)) of
        Inl e \<Rightarrow> Inl e
      | Inr None \<Rightarrow> Inr None
      | Inr (Some mode) \<Rightarrow> Inr (Some (drm_mode_set_crtcinfo mode True)))"

subsection \<open>CVT produces well-formed timings\<close>

lemma udiv_pos: "0 \<le> a \<Longrightarrow> a < 4294967296 \<Longrightarrow> 0 < b \<Longrightarrow> b < 4294967296 \<Longrightarrow> udiv a b = Inr (a div b)"
  by (simp add: udiv_def)

lemma wrap32_small: "- 2147483648 \<le> k \<Longrightarrow> k \<le> 2147483647 \<Longrightarrow> wrap32 k = k"
  by (simp add: in_int_def INT_MAX_def INT_MIN_def)

lemma cmod_nonneg: "0 \<le> a \<Longrightarrow> 0 < b \<Longrightarrow> cmod a b = a mod b"
  by (simp add: cmod_def cdiv_nonneg minus_div_mult_eq_mod)

lemma cvt_vsync_range: "4 \<le> cvt_vsync h v \<and> cvt_vsync h v \<le> 10"
  by (simp add: cvt_vsync_def)

text \<open>The quotient of a bounded numerator and denominator.\<close>

lemma int_div_range:
  fixes n p :: int
  assumes "0 < p" "lo * p \<le> n" "n \<le> hi * p"
  shows "lo \<le> n div p" "n div p \<le> hi"
proof -
  show "lo \<le> n div p" using zdiv_mono1 [OF assms(2,1)] assms(1) by simp
  show "n div p \<le> hi" using zdiv_mono1 [OF assms(3,1)] assms(1) by simp
qed

text \<open>The blanking pixels of a line, for a duty cycle between 20 and 30 percent.\<close>

lemma cvt_hblank_range:
  fixes H p :: int
  assumes "0 \<le> H" "20000 \<le> p" "p \<le> 30000"
  shows "H < 4 * (H * p div (100000 - p) + 1)" "7 * (H * p div (100000 - p)) \<le> 3 * H" "0 \<le> H * p div (100000 - p)"
proof -
  let ?q = "H * p div (100000 - p)"
  have pos: "0 < 100000 - p" using assms by simp
  note b = int_div_bounds [OF pos, of "H * p"]
  show nn: "0 \<le> ?q" using assms pos by (simp add: pos_imp_zdiv_nonneg_iff)
  have "H * 20000 \<le> H * p" using assms by (intro mult_left_mono) simp_all
  also have "\<dots> < (?q + 1) * (100000 - p)" by (rule b(2))
  also have "\<dots> \<le> (?q + 1) * 80000" using nn assms by (intro mult_left_mono) simp_all
  finally show "H < 4 * (?q + 1)" by simp
  have "?q * 70000 \<le> ?q * (100000 - p)" using nn assms by (intro mult_left_mono) simp_all
  also have "\<dots> \<le> H * p" by (rule b(1))
  also have "\<dots> \<le> H * 30000" using assms by (intro mult_left_mono) simp_all
  finally show "7 * ?q \<le> 3 * H" by simp
qed

lemma mode_sel:
  "hdisplay (m\<lparr>vtotal := x\<rparr>) = hdisplay m" "hdisplay (m\<lparr>htotal := x\<rparr>) = hdisplay m"
  "htotal (m\<lparr>htotal := x\<rparr>) = x" "htotal (m\<lparr>hsync_end := x\<rparr>) = htotal m"
  "hsync_end (m\<lparr>hsync_end := x\<rparr>) = x" "hsync_start (m\<lparr>hsync_start := x\<rparr>) = x" "vsync_start (m\<lparr>vsync_start := x\<rparr>) = x"
  "vdisplay (m\<lparr>vtotal := x\<rparr>) = vdisplay m" "vdisplay (m\<lparr>htotal := x\<rparr>) = vdisplay m"
  "vdisplay (m\<lparr>hsync_end := x\<rparr>) = vdisplay m" "vdisplay (m\<lparr>hsync_start := x\<rparr>) = vdisplay m"
  by simp_all

text \<open>What the two blanking computations have in common: ordered timings and a usable line period.\<close>

definition cvt_good :: "drm_display_mode \<Rightarrow> int \<Rightarrow> int \<Rightarrow> int \<Rightarrow> drm_display_mode \<Rightarrow> bool" where
  "cvt_good m lines vsync hp m' \<longleftrightarrow> 100 \<le> hp \<and> hp \<le> 100000 \<and> hdisplay m' = hdisplay m \<and> vdisplay m' = vdisplay m \<and> flags m' = flags m \<and>
     hdisplay m' \<le> hsync_start m' \<and> hsync_start m' < hsync_end m' \<and> hsync_end m' \<le> htotal m' \<and> 8 dvd htotal m' \<and> htotal m' \<le> 4294 \<and>
     vsync_start m' = vdisplay m + 3 \<and> vsync_end m' = vdisplay m + 3 + vsync \<and>
     lines + vsync + 6 \<le> vtotal m' \<and> vtotal m' \<le> 1000000"

lemma cvt_full_good:
  assumes f: "50 \<le> f" "f \<le> 240" and v: "0 \<le> vrnd" "0 \<le> vm" "vrnd + 2 * vm \<le> 4900" "il = 0 \<or> il = 1"
    and T: "20000 \<le> ((vrnd + 2 * vm + 3) * 2 + il) * f" and vs: "4 \<le> vsync" "vsync \<le> 10"
    and H: "300 \<le> hdisplay m" "hdisplay m \<le> 2200" "8 dvd hdisplay m" and V: "0 \<le> vdisplay m" "vdisplay m \<le> 5000"
  shows "\<exists>hp m'. cvt_full f vrnd vm il vsync m = Inr (hp, m') \<and> cvt_good m (vrnd + 2 * vm) vsync hp m'"
proof -
  let ?T = "(vrnd + 2 * vm + 3) * 2 + il"
  let ?N = "2000000000 - 1100000 * f"
  define hp where "hp = ?N div (?T * f)"
  have T0: "0 \<le> ?T" "?T \<le> 10000" using v by auto
  have Tf: "0 < ?T * f" "?T * f \<le> 2400000"
  proof -
    show "0 < ?T * f" using T by linarith
    have "?T * f \<le> 10000 * 240" using T0 f by (intro mult_mono) simp_all
    then show "?T * f \<le> 2400000" by simp
  qed
  have hp: "100 \<le> hp" "hp \<le> 100000"
    unfolding hp_def using int_div_range [OF Tf(1), of 100 ?N 100000] Tf T f by simp_all
  have u1: "udiv (wrap32 (wrap32 (1000000000 - 550000 * f) * 2)) (wrap32 ?T * f) = Inr hp"
  proof -
    have "wrap32 (wrap32 (1000000000 - 550000 * f) * 2) = ?N" "wrap32 ?T = ?T"
      using f T0 by (simp_all add: wrap32_small)
    then show ?thesis unfolding hp_def using Tf f by (simp add: udiv_pos)
  qed
  define q where "q = 550000 div hp"
  have u2: "udiv 550000 hp = Inr q" unfolding q_def using hp by (simp add: udiv_pos)
  have q: "0 \<le> q" "q \<le> 550000" using hp int_div_range [of hp 0 550000 550000] by (simp_all add: q_def)
  define vb where "vb = (if q + 1 < vsync + 3 then vsync + 3 else q + 1)"
  have vb: "vsync + 3 \<le> vb" "vb \<le> 550001" using q vs by (auto simp: vb_def)
  define p where "p = (if 30000 - 300 * hp div 1000 < 20000 then 20000 else 30000 - 300 * hp div 1000)"
  have pr: "0 \<le> 300 * hp div 1000" "300 * hp div 1000 \<le> 30000" using hp by (simp_all add: zdiv_mono1 [of "300 * hp" 30000000 1000, simplified])
  have p: "20000 \<le> p" "p \<le> 30000" using pr by (auto simp: p_def)
  have up: "to_u32 (30000 - to_u32 (300 * hp) div 1000) = 30000 - 300 * hp div 1000" using hp pr by simp
  let ?H = "hdisplay m"
  define hb where "hb = ?H * p div (100000 - p)"
  have Hp: "0 \<le> ?H * p" "?H * p \<le> 66000000"
  proof -
    show "0 \<le> ?H * p" using H p by simp
    have "?H * p \<le> 2200 * 30000" using H p by (intro mult_mono) simp_all
    then show "?H * p \<le> 66000000" by simp
  qed
  have u3: "udiv (?H * p) (100000 - p) = Inr hb" unfolding hb_def using Hp p by (simp add: udiv_pos)
  have hb: "?H < 4 * (hb + 1)" "7 * hb \<le> 3 * ?H" "0 \<le> hb"
    using cvt_hblank_range [of ?H p] H p by (simp_all add: hb_def)
  define B where "B = hb - hb mod 16"
  have B: "hb - 15 \<le> B" "B \<le> hb" "0 \<le> B" "16 dvd B"
    using hb(3) zmod_le_nonneg_dividend [OF hb(3), of 16] by (auto simp: B_def dvd_minus_mod)
  define ht where "ht = ?H + B"
  define hs where "hs = ?H + B div 2 - ht * 8 div 100"
  define m' where "m' = m\<lparr>vtotal := vrnd + 2 * vm + vb + 3, htotal := ht, hsync_end := ?H + B div 2,
     hsync_start := hs + (8 - hs mod 8), vsync_start := vdisplay m + 3, vsync_end := vdisplay m + 3 + vsync\<rparr>"
  have hs0: "0 \<le> hs" "hs \<le> 10000" "?H \<le> hs + (8 - hs mod 8)" "hs + (8 - hs mod 8) < ?H + B div 2" "?H + B div 2 \<le> ht"
    using B hb H by (simp_all add: hs_def ht_def)
  have w: "wrap32 (q + 1) = q + 1" "wrap32 (vrnd + 2 * vm + vb + 3) = vrnd + 2 * vm + vb + 3" "wrap32 hb = hb"
    "wrap32 (hb - cmod hb 16) = B" "wrap32 (?H + B) = ht" "wrap32 (?H + cdiv B 2) = ?H + B div 2"
    "wrap32 (?H + B div 2 - cdiv (wrap32 (ht * 8)) 100) = hs" "wrap32 (hs + (8 - cmod hs 8)) = hs + (8 - hs mod 8)"
    "wrap32 (vdisplay m + 3) = vdisplay m + 3" "wrap32 (vdisplay m + 3 + vsync) = vdisplay m + 3 + vsync"
  proof -
    have ht: "0 \<le> ht" "ht \<le> 4294" using B hb H by (simp_all add: ht_def)
    show "wrap32 (?H + B) = ht" using ht by (simp add: ht_def [symmetric] wrap32_small)
    show "wrap32 (?H + B div 2 - cdiv (wrap32 (ht * 8)) 100) = hs"
    proof -
      have "cdiv (wrap32 (ht * 8)) 100 = ht * 8 div 100" using ht by (simp add: wrap32_small cdiv_nonneg)
      then show ?thesis unfolding hs_def [symmetric] using hs0(1,2) by (simp only: hs_def [symmetric] wrap32_small)
    qed
    show "wrap32 (hb - cmod hb 16) = B" using hb B H by (simp add: cmod_nonneg B_def [symmetric] wrap32_small)
    show "wrap32 (?H + cdiv B 2) = ?H + B div 2" using hb B H by (simp add: cdiv_nonneg wrap32_small)
    show "wrap32 (hs + (8 - cmod hs 8)) = hs + (8 - hs mod 8)" using hs0(1,2) by (simp add: cmod_nonneg wrap32_small)
  qed (use q vb v hb H V vs in \<open>simp_all add: wrap32_small\<close>)
  have eq: "cvt_full f vrnd vm il vsync m = Inr (hp, m')"
    unfolding cvt_full_def Let_def u1 sum.case u2 w(1) vb_def [symmetric] up p_def [symmetric] mode_sel u3 w m'_def by simp
  have "8 dvd ht" using H(3) B(4) by (auto simp: ht_def intro: dvd_add dvd_trans [of 8 16])
  moreover have "ht \<le> 4294" using B hb H by (simp add: ht_def)
  ultimately have "cvt_good m (vrnd + 2 * vm) vsync hp m'"
    using hp hs0 vb v by (simp add: cvt_good_def m'_def)
  with eq show ?thesis by blast
qed

lemma cvt_reduced_good:
  assumes f: "50 \<le> f" "f \<le> 240" and v: "0 \<le> vrnd" "0 \<le> vm" "vrnd + 2 * vm \<le> 4900"
    and T: "10000 \<le> (vrnd + 2 * vm) * f" and vs: "4 \<le> vsync" "vsync \<le> 10"
    and H: "300 \<le> hdisplay m" "hdisplay m \<le> 2200" "8 dvd hdisplay m" and V: "0 \<le> vdisplay m" "vdisplay m \<le> 5000"
  shows "\<exists>hp m'. cvt_reduced f vrnd vm vsync m = Inr (hp, m') \<and> cvt_good m (vrnd + 2 * vm) vsync hp m'"
proof -
  let ?T = "vrnd + 2 * vm" and ?N = "1000000000 - 460000 * f"
  define hp where "hp = ?N div (?T * f)"
  have Tf: "0 < ?T * f" "?T * f \<le> 1200000"
  proof -
    show "0 < ?T * f" using T by linarith
    have "?T * f \<le> 4900 * 240" using v f by (intro mult_mono) simp_all
    then show "?T * f \<le> 1200000" by simp
  qed
  have hp: "100 \<le> hp" "hp \<le> 100000"
    unfolding hp_def using int_div_range [OF Tf(1), of 100 ?N 100000] Tf T f by simp_all
  have "wrap32 ?N = ?N" "wrap32 ?T = ?T" using f v by (simp_all add: wrap32_small)
  then have u1: "udiv (wrap32 ?N) (wrap32 ?T * f) = Inr hp" unfolding hp_def using Tf f by (simp add: udiv_pos)
  define q where "q = 460000 div hp"
  have u2: "udiv 460000 hp = Inr q" unfolding q_def using hp by (simp add: udiv_pos)
  have q: "0 \<le> q" "q \<le> 460000" using hp int_div_range [of hp 0 460000 460000] by (simp_all add: q_def)
  define vb where "vb = (if q + 1 < 3 + vsync + 6 then 3 + vsync + 6 else q + 1)"
  have vb: "vsync + 9 \<le> vb" "vb \<le> 460001" using q vs by (auto simp: vb_def)
  let ?H = "hdisplay m"
  define m' where "m' = m\<lparr>vtotal := ?T + vb, htotal := ?H + 160, hsync_end := ?H + 80,
     hsync_start := ?H + 80 - 32, vsync_start := vdisplay m + 3, vsync_end := vdisplay m + 3 + vsync\<rparr>"
  have w: "wrap32 (q + 1) = q + 1" "wrap32 (?T + vb) = ?T + vb" "wrap32 (?H + 160) = ?H + 160" "wrap32 (?H + 80) = ?H + 80"
    "wrap32 (?H + 80 - 32) = ?H + 80 - 32" "wrap32 (vdisplay m + 3) = vdisplay m + 3"
    "wrap32 (vdisplay m + 3 + vsync) = vdisplay m + 3 + vsync"
    using q vb v H V vs by (simp_all add: wrap32_small)
  have eq: "cvt_reduced f vrnd vm vsync m = Inr (hp, m')"
    unfolding cvt_reduced_def Let_def u1 sum.case u2 w(1) vb_def [symmetric] mode_sel w m'_def by simp
  have "8 dvd ?H + 160" using H(3) by presburger
  then have "cvt_good m ?T vsync hp m'"
    using hp H vb v vs by (simp add: cvt_good_def m'_def)
  with eq show ?thesis by blast
qed

text \<open>
  Claim C28. For resolutions from 320x240 to 2048x2160 and rates from 50 to 120 Hz, with full or reduced
  blanking, interlaced or not, with or without margins, \<open>drm_cvt_mode\<close> returns a mode (no division by
  zero, no overflow) whose timings are ordered: the horizontal sync pulse lies between the visible
  width and the total width, which are multiples of the character cell, the vertical one between the
  visible height and the total height; the clock is a positive multiple of the clock step.
\<close>

theorem drm_cvt_mode_well_formed:
  assumes h: "320 \<le> hres" "hres \<le> 2048" and v: "240 \<le> vres" "vres \<le> 2160" and r: "50 \<le> vr" "vr \<le> 120"
    and "flags new = {}"
  shows "\<exists>m. drm_cvt_mode (Some new) hres vres vr reduced interlaced margins = Inr (Some m) \<and>
     hdisplay m \<le> hsync_start m \<and> hsync_start m < hsync_end m \<and> hsync_end m \<le> htotal m \<and> 8 dvd hdisplay m \<and> 8 dvd htotal m \<and>
     vdisplay m < vsync_start m \<and> vsync_start m < vsync_end m \<and> vsync_end m < vtotal m \<and>
     0 < clock m \<and> 250 dvd clock m \<and> (FLAG_INTERLACE \<in> flags m \<longleftrightarrow> interlaced)"
proof -
  define f where "f = (if interlaced then vr * 2 else vr)"
  define hr where "hr = hres - hres mod 8"
  define hm0 where "hm0 = hr * 18 div 1000"
  define hm where "hm = (if margins then hm0 - hm0 mod 8 else 0)"
  define vrnd where "vrnd = (if interlaced then vres div 2 else vres)"
  define vm where "vm = (if margins then vrnd * 18 div 1000 else 0)"
  define vs where "vs = cvt_vsync hres vres"
  define il where "il = (if interlaced then 1 else 0 :: int)"
  define m0 where "m0 = new\<lparr>hdisplay := hr + 2 * hm, vdisplay := vres + 2 * vm\<rparr>"
  have f: "50 \<le> f" "f \<le> 240" using r by (auto simp: f_def)
  have hr: "312 \<le> hr" "hr \<le> 2048" "8 dvd hr" using h by (auto simp: hr_def dvd_minus_mod)
  have hm0: "0 \<le> hm0" "hm0 \<le> 36" using hr by (simp_all add: hm0_def)
  have hm: "0 \<le> hm" "hm \<le> 36" "8 dvd hm"
    using hm0 zmod_le_nonneg_dividend [OF hm0(1), of 8] by (auto simp: hm_def dvd_minus_mod)
  have vrnd: "120 \<le> vrnd" "vrnd \<le> 2160" using v by (auto simp: vrnd_def)
  have vm: "0 \<le> vm" "vm \<le> 38" using vrnd by (auto simp: vm_def)
  have vs: "4 \<le> vs" "vs \<le> 10" using cvt_vsync_range by (simp_all add: vs_def)
  have H: "300 \<le> hdisplay m0" "hdisplay m0 \<le> 2200" "8 dvd hdisplay m0" and V: "0 \<le> vdisplay m0" "vdisplay m0 \<le> 5000"
    using hr hm v vm by (auto simp: m0_def)
  have vf: "11950 \<le> vrnd * f"
  proof (cases interlaced)
    case True
    have "239 * 50 \<le> (2 * vrnd) * vr" using True v r by (intro mult_mono) (auto simp: vrnd_def)
    then show ?thesis using True by (simp add: f_def mult.assoc mult.commute)
  next
    case False
    have "240 * 50 \<le> vres * vr" using v r by (intro mult_mono) simp_all
    then show ?thesis using False by (simp add: f_def vrnd_def)
  qed
  have T1: "10000 \<le> (vrnd + 2 * vm) * f" and T2: "20000 \<le> ((vrnd + 2 * vm + 3) * 2 + il) * f"
  proof -
    have "vrnd * f \<le> (vrnd + 2 * vm) * f" using vm f by (intro mult_right_mono) simp_all
    then show "10000 \<le> (vrnd + 2 * vm) * f" using vf by linarith
    have "vrnd * f * 2 = (vrnd * 2) * f" by simp
    also have "\<dots> \<le> ((vrnd + 2 * vm + 3) * 2 + il) * f" using vm f by (intro mult_right_mono) (simp_all add: il_def)
    finally show "20000 \<le> ((vrnd + 2 * vm + 3) * 2 + il) * f" using vf by linarith
  qed
  obtain hp m1 where m1: "(if \<not> reduced then cvt_full f vrnd vm il vs m0 else cvt_reduced f vrnd vm vs m0) = Inr (hp, m1)"
    and good: "cvt_good m0 (vrnd + 2 * vm) vs hp m1"
  proof -
    have v0: "0 \<le> vrnd" "vrnd + 2 * vm \<le> 4900" and ilr: "il = 0 \<or> il = 1" using vrnd vm by (auto simp: il_def)
    show thesis
      using that cvt_full_good [OF f v0(1) vm(1) v0(2) ilr T2 vs H V] cvt_reduced_good [OF f v0(1) vm(1) v0(2) T1 vs H V]
      by (cases reduced) auto
  qed
  have g: "100 \<le> hp" "hp \<le> 100000" "300 \<le> htotal m1" "htotal m1 \<le> 4294"
    using good H by (auto simp: cvt_good_def)
  define c where "c = htotal m1 * 1000000 div hp"
  have uc: "udiv (htotal m1 * 1000000) hp = Inr c" unfolding c_def using g by (simp add: udiv_pos)
  have c: "1000 \<le> c" "c \<le> 42940000"
    unfolding c_def using int_div_range [of hp 1000 "htotal m1 * 1000000" 42940000] g by simp_all
  define m2 where "m2 = m1\<lparr>clock := c - c mod 250, vtotal := (if interlaced then vtotal m1 * 2 else vtotal m1),
     flags := (if interlaced then {FLAG_INTERLACE} else {})\<rparr>"
  have fl: "flags m1 = {}" using good assms(7) by (simp add: cvt_good_def m0_def)
  let ?r = "(drm_mode_set_name m2)\<lparr>flags := flags m2 \<union> (if reduced then {FLAG_PHSYNC, FLAG_NVSYNC} else {FLAG_PVSYNC, FLAG_NHSYNC})\<rparr>"
  have eq: "drm_cvt_mode (Some new) hres vres vr reduced interlaced margins = Inr (Some ?r)"
  proof -
    have a: "to_u32 (if interlaced then vr * 2 else vr) = f" "vr \<noteq> 0" using r by (auto simp: f_def)
    have b1: "wrap32 (hres - cmod hres 8) = hr" "(if interlaced then cdiv vres 2 else vres) = vrnd"
      "(if margins then cdiv (wrap32 (vrnd * 18)) 1000 else 0) = vm"
      using h v vrnd by (simp_all add: hr_def cmod_nonneg cdiv_nonneg wrap32_small vrnd_def vm_def)
    have c18: "cdiv (wrap32 (hr * 18)) 1000 = hm0" using hr by (simp add: hm0_def cdiv_nonneg wrap32_small)
    have b2: "(if margins then (if margins then hm0 else 0) - cmod (if margins then hm0 else 0) 8 else 0) = hm"
      using hm0 by (simp add: hm_def cmod_nonneg)
    have d: "wrap32 (hr + 2 * hm) = hr + 2 * hm" "wrap32 (vres + 2 * vm) = vres + 2 * vm"
      using hr hm v vm by (simp_all add: wrap32_small)
    have cc: "wrap32 c = c" "wrap32 (c - cmod c 250) = c - c mod 250" "wrap32 (vtotal m1 * 2) = vtotal m1 * 2"
      using c zmod_le_nonneg_dividend [of c 250] good vrnd vm vs by (simp_all add: wrap32_small cmod_nonneg cvt_good_def)
    have fin: "(if interlaced then m1\<lparr>clock := wrap32 c, clock := wrap32 (clock (m1\<lparr>clock := wrap32 c\<rparr>) - cmod (clock (m1\<lparr>clock := wrap32 c\<rparr>)) 250),
          vtotal := wrap32 (vtotal (m1\<lparr>clock := wrap32 c, clock := wrap32 (clock (m1\<lparr>clock := wrap32 c\<rparr>) - cmod (clock (m1\<lparr>clock := wrap32 c\<rparr>)) 250)\<rparr>) * 2),
          flags := flags (m1\<lparr>clock := wrap32 c, clock := wrap32 (clock (m1\<lparr>clock := wrap32 c\<rparr>) - cmod (clock (m1\<lparr>clock := wrap32 c\<rparr>)) 250)\<rparr>) \<union> {FLAG_INTERLACE}\<rparr>
        else m1\<lparr>clock := wrap32 c, clock := wrap32 (clock (m1\<lparr>clock := wrap32 c\<rparr>) - cmod (clock (m1\<lparr>clock := wrap32 c\<rparr>)) 250)\<rparr>) = m2"
      using fl by (simp add: cc m2_def)
    have nm: "flags (drm_mode_set_name m2) = flags m2" by (simp add: drm_mode_set_name_def)
    show ?thesis
      unfolding drm_cvt_mode_def option.case Let_def if_not_P [OF a(2)] a(1) b1 c18 b2 d m0_def [symmetric] vs_def [symmetric]
        il_def [symmetric] m1 sum.case prod.case uc fin nm by (rule refl)
  qed
  have r2: "hdisplay ?r = hdisplay m1" "hsync_start ?r = hsync_start m1" "hsync_end ?r = hsync_end m1" "htotal ?r = htotal m1"
    "vdisplay ?r = vdisplay m1" "vsync_start ?r = vsync_start m1" "vsync_end ?r = vsync_end m1" "clock ?r = c - c mod 250"
    "vtotal ?r = (if interlaced then vtotal m1 * 2 else vtotal m1)" "FLAG_INTERLACE \<in> flags ?r \<longleftrightarrow> interlaced"
    by (simp_all add: drm_mode_set_name_def m2_def)
  have vt: "vsync_end m1 < (if interlaced then vtotal m1 * 2 else vtotal m1)"
    using good vs vm v by (auto simp: cvt_good_def m0_def vrnd_def split: if_splits)
  have "0 < c - c mod 250" "250 dvd c - c mod 250" using c by (auto simp: dvd_minus_mod)
  with good H vt show ?thesis
    using eq vs unfolding r2 by (intro exI [of _ ?r]) (simp add: r2(1-9) cvt_good_def, simp add: m2_def)
qed

theorem drm_cvt_mode_well_formed_witness:
  "\<exists>m. drm_cvt_mode (Some mode0) 1024 768 60 False False False = Inr (Some m) \<and> hsync_end m \<le> htotal m \<and> vsync_end m < vtotal m \<and> 250 dvd clock m"
  using drm_cvt_mode_well_formed [of 1024 768 60 mode0 False False False] by (auto simp: mode0_def)

lemma mode0_sel: "vrefresh mode0 = 0" "vscan mode0 = 0" "flags mode0 = {}"
  by (simp_all add: mode0_def)

text \<open>
  Above that size the clock overflows: it is \<open>htotal * 1000000 / hperiod\<close> in 32 bits, so from
  a total width of 4295 on it is wrong. For 3840x2160 at 60 Hz with full blanking \<open>drm_cvt_mode\<close>
  computes a clock of 136250 kHz, for timings that need 712750 kHz, and the mode's refresh rate is 11 Hz.
\<close>

theorem drm_cvt_mode_clock_overflow:
  "case drm_cvt_mode (Some mode0) 3840 2160 60 False False False of
     Inr (Some m) \<Rightarrow> clock m = 136250 \<and> hdisplay m = 3840 \<and> htotal m = 5312 \<and> vdisplay m = 2160 \<and> vtotal m = 2237 \<and>
       drm_mode_vrefresh m = 11
   | _ \<Rightarrow> False"
proof -
  let ?m0 = "mode0\<lparr>hdisplay := 3840, vdisplay := 2160\<rparr>"
  define m1 where "m1 = ?m0\<lparr>vtotal := 2237, htotal := 5312, hsync_end := 4576, hsync_start := 4160, vsync_start := 2163, vsync_end := 2168\<rparr>"
  have full: "cvt_full 60 2160 0 0 5 ?m0 = Inr (7451, m1)"
  proof -
    have u: "udiv (wrap32 (wrap32 (1000000000 - 550000 * 60) * 2)) (wrap32 ((2160 + 2 * 0 + 3) * 2 + 0) * 60) = Inr 7451"
      "udiv 550000 7451 = Inr 73" "udiv (3840 * 27765) (100000 - 27765) = Inr 1475"
      by (simp_all add: udiv_def to_u32_def wrap32_small)
    have p: "(if to_u32 (30000 - to_u32 (300 * 7451) div 1000) < 20000 then 20000 else to_u32 (30000 - to_u32 (300 * 7451) div 1000)) = 27765"
      by (simp add: to_u32_def)
    have w: "wrap32 1475 = 1475" "wrap32 (1475 - cmod 1475 16) = 1472" "wrap32 (3840 + 1472) = 5312" "wrap32 (3840 + cdiv 1472 2) = 4576"
      "wrap32 (4576 - cdiv (wrap32 (5312 * 8)) 100) = 4152" "wrap32 (4152 + (8 - cmod 4152 8)) = 4160" "wrap32 (2160 + 3) = 2163" "wrap32 (2163 + 5) = 2168"
      by (simp_all add: wrap32_small cmod_def cdiv_def)
    have h: "hdisplay ?m0 = 3840" "vdisplay ?m0 = 2160" by simp_all
    show ?thesis
      unfolding cvt_full_def Let_def u sum.case p mode_sel h w m1_def by (simp add: wrap32_small)
  qed
  have a: "to_u32 60 = 60" "(60 :: int) \<noteq> 0" "wrap32 (3840 - cmod 3840 8) = 3840" "wrap32 (3840 + 2 * 0) = 3840" "wrap32 (2160 + 2 * 0) = 2160"
    "cvt_vsync 3840 2160 = 5" "udiv (5312 * 1000000) 7451 = Inr 136496" "wrap32 136496 = 136496" "wrap32 (136496 - cmod 136496 250) = 136250"
    by (simp_all add: cmod_def cdiv_def wrap32_small cvt_vsync_def udiv_def to_u32_def)
  have s: "htotal m1 = 5312" "clock (m1\<lparr>clock := x\<rparr>) = x" for x by (simp_all add: m1_def)
  define r where "r = (drm_mode_set_name (m1\<lparr>clock := 136496, clock := 136250\<rparr>))
      \<lparr>flags := flags (drm_mode_set_name (m1\<lparr>clock := 136496, clock := 136250\<rparr>)) \<union> {FLAG_PVSYNC, FLAG_NHSYNC}\<rparr>"
  have eq: "drm_cvt_mode (Some mode0) 3840 2160 60 False False False = Inr (Some r)"
    unfolding r_def drm_cvt_mode_def option.case Let_def if_not_P [OF a(2)] if_False not_False_eq_True if_True a full sum.case prod.case s
    by (rule refl)
  have f: "clock r = 136250" "hdisplay r = 3840" "htotal r = 5312" "vdisplay r = 2160" "vtotal r = 2237"
    "vrefresh r = 0" "vscan r = 0" "flags r = {FLAG_PVSYNC, FLAG_NHSYNC}"
    by (simp_all add: r_def drm_mode_set_name_def m1_def mode0_sel)
  have "drm_mode_vrefresh r = 11"
    by (simp add: drm_mode_vrefresh_def f to_u32_def wrap32_small cdiv_def)
  with f show ?thesis unfolding eq by simp
qed

text \<open>
  A mode generated by the GTF formula is never marked as interlaced: the final assignment
  overwrites \<open>flags\<close>, with the \<open>DRM_MODE_FLAG_INTERLACE\<close> bit set before, although the number of lines
  has been doubled for an interlaced mode.
\<close>

theorem drm_gtf_mode_loses_interlace:
  assumes "drm_gtf_mode_complex created hres vres vr interlaced margins M C2 K J2 = Inr (Some m)"
  shows "FLAG_INTERLACE \<notin> flags m \<and> (flags m = {FLAG_NHSYNC, FLAG_PVSYNC} \<or> flags m = {FLAG_PHSYNC, FLAG_NVSYNC})"
proof -
  have f: "flags (gtf_pack a b c d e g i std m0) = (if std then {FLAG_NHSYNC, FLAG_PVSYNC} else {FLAG_PHSYNC, FLAG_NVSYNC})"
    for a b c d e g i std m0 by (simp add: gtf_pack_def Let_def)
  obtain m0 where c: "created = Some m0" using assms by (cases created) (simp_all add: drm_gtf_mode_complex_def)
  have "\<exists>a b c d e g i std. m = gtf_pack a b c d e g i std m0"
    (is "\<exists>a b c d e g i std. ?m a b c d e g i std")
    using assms unfolding c drm_gtf_mode_complex_def Let_def option.case case_prod_unfold
    by (elim result_bindE) (simp only: sum.inject option.inject, metis)
  then obtain a b c d e g i std where m: "m = gtf_pack a b c d e g i std m0" by blast
  show ?thesis unfolding m f by simp
qed

theorem drm_gtf_mode_loses_interlace_witness:
  "case drm_gtf_mode_complex (Some mode0) 1024 768 60 True False 600 80 128 40 of
     Inr (Some m) \<Rightarrow> FLAG_INTERLACE \<notin> flags m \<and> vtotal m = 824 | _ \<Rightarrow> False"
proof -
  have ev: "case drm_gtf_mode_complex (Some mode0) 1024 768 60 True False 600 80 128 40 of
     Inr (Some m) \<Rightarrow> vtotal m = 824 | _ \<Rightarrow> False" by code_simp
  then show ?thesis
    using drm_gtf_mode_loses_interlace [of "Some mode0" 1024 768 60 True False 600 80 128 40]
    by (auto split: sum.splits option.splits)
qed

end
