(* ===== verification/Drm_Edid.thy ===== *)
theory Drm_Edid
  imports Drm_Prelude
begin

text \<open>
  Reading the EDID of a monitor and checking its blocks, the second part of \<open>drm_edid.c\<close>. An EDID is a
  list of bytes: blocks of 128, the first one the base block, whose byte 126 counts the others. The
  functions that repair a block in place return it. The I2C transfer is a parameter: a function from
  the state of the adapter, the segment (sent only when it is not 0), the start offset and the buffer
  to the value \<open>i2c_transfer\<close> returns, the new contents of the buffer, and the new state. A write
  past the end of the buffer of \<open>drm_do_get_edid\<close> is \<open>Inl BUG\<close>.
\<close>

definition EDID_LENGTH :: nat where "EDID_LENGTH = 128"

definition DRM_MAX_EDID_EXT_NUM :: nat where "DRM_MAX_EDID_EXT_NUM = 4"

subsection \<open>Blocks\<close>

definition block_at :: "u8 list \<Rightarrow> nat \<Rightarrow> u8 list" where
  "block_at raw i = take EDID_LENGTH (drop (i * EDID_LENGTH) raw)"

definition put_block :: "u8 list \<Rightarrow> nat \<Rightarrow> u8 list \<Rightarrow> u8 list" where
  "put_block raw i b = take (i * EDID_LENGTH) raw @ b @ drop (i * EDID_LENGTH + length b) raw"

definition edid_header :: "u8 list" where
  "edid_header = [0x00, 0xff, 0xff, 0xff, 0xff, 0xff, 0xff, 0x00]"

definition drm_edid_header_is_valid :: "u8 list \<Rightarrow> nat" where
  "drm_edid_header_is_valid raw_edid = length (filter (\<lambda>i. raw_edid ! i = edid_header ! i) [0..<length edid_header])"

definition edid_fixup :: int where "edid_fixup = 6"

text \<open>The checks after the header: the sum of all bytes, and the major version of a base block.\<close>

definition block_sum_ok :: "u8 list \<Rightarrow> bool" where
  "block_sum_ok raw_edid \<longleftrightarrow>
     (sum_list (take EDID_LENGTH raw_edid) = 0 \<or> raw_edid ! 0 = 0x02) \<and> (raw_edid ! 0 = 0 \<longrightarrow> raw_edid ! 18 = 1)"

definition drm_edid_block_valid :: "u8 list \<Rightarrow> nat \<Rightarrow> bool \<times> u8 list" where
  "drm_edid_block_valid raw_edid block =
     (let fixup = (if edid_fixup > 8 \<or> edid_fixup < 0 then 6 else edid_fixup);
          score = drm_edid_header_is_valid raw_edid
      in if block = 0 then
           (if score = 8 then (block_sum_ok raw_edid, raw_edid)
            else if int score \<ge> fixup
            then (let raw' = edid_header @ drop (length edid_header) raw_edid in (block_sum_ok raw', raw'))
            else (False, raw_edid))
         else (block_sum_ok raw_edid, raw_edid))"

fun valid_loop :: "nat \<Rightarrow> nat \<Rightarrow> u8 list \<Rightarrow> bool \<times> u8 list" where
  "valid_loop 0 i raw = (True, raw)"
| "valid_loop (Suc n) i raw =
     (case drm_edid_block_valid (block_at raw i) i of
        (ok, b) \<Rightarrow> let raw' = put_block raw i b in if ok then valid_loop n (Suc i) raw' else (False, raw'))"

definition drm_edid_is_valid :: "u8 list \<Rightarrow> bool \<times> u8 list" where
  "drm_edid_is_valid raw = valid_loop (Suc (unat (raw ! 126))) 0 raw"

subsection \<open>Fetching\<close>

type_synonym 'a i2c = "'a \<Rightarrow> u8 option \<Rightarrow> u8 \<Rightarrow> u8 list \<Rightarrow> int \<times> u8 list \<times> 'a"

text \<open>The loop over the retries; \<open>-6\<close> is \<open>-ENXIO\<close>.\<close>

fun probe_loop :: "'a i2c \<Rightarrow> u8 option \<Rightarrow> u8 \<Rightarrow> int \<Rightarrow> nat \<Rightarrow> 'a \<Rightarrow> u8 list \<Rightarrow> bool \<times> u8 list \<times> 'a" where
  "probe_loop xfer seg start xfers 0 a buf = (False, buf, a)"
| "probe_loop xfer seg start xfers (Suc retries) a buf =
     (case xfer a seg start buf of
        (ret, buf', a') \<Rightarrow>
          if ret = xfers then (True, buf', a')
          else if ret = - 6 then (False, buf', a')
          else probe_loop xfer seg start xfers retries a' buf')"

definition drm_do_probe_ddc_edid :: "'a i2c \<Rightarrow> 'a \<Rightarrow> u8 list \<Rightarrow> nat \<Rightarrow> bool \<times> u8 list \<times> 'a" where
  "drm_do_probe_ddc_edid xfer a buf block =
     (let start = word_of_nat (block * EDID_LENGTH);
          segment = word_of_nat (block div 2) :: u8
      in if segment \<noteq> 0 then probe_loop xfer (Some segment) start 3 5 a buf
         else probe_loop xfer None start 2 5 a buf)"

definition drm_edid_is_zero :: "u8 list \<Rightarrow> bool" where
  "drm_edid_is_zero in_edid \<longleftrightarrow> list_all (\<lambda>b. b = 0) (take (length in_edid div 4 * 4) in_edid)"

record edid_counters =
  null_edid_counter :: int
  bad_edid_counter :: u32

text \<open>
  The base block: \<open>Some True\<close> when it was read and is good, \<open>Some False\<close> for the label \<open>carp\<close>, \<open>None\<close>
  for the label \<open>out\<close>.
\<close>

fun base_fetch :: "'a i2c \<Rightarrow> nat \<Rightarrow> bool \<Rightarrow> u8 list \<Rightarrow> edid_counters \<Rightarrow> 'a \<Rightarrow> bool option \<times> u8 list \<times> edid_counters \<times> 'a" where
  "base_fetch xfer 0 first mem c a = (Some False, mem, c, a)"
| "base_fetch xfer (Suc n) first mem c a =
     (case drm_do_probe_ddc_edid xfer a (block_at mem 0) 0 of
        (False, b, a') \<Rightarrow> (None, put_block mem 0 b, c, a')
      | (True, b, a') \<Rightarrow>
          (case drm_edid_block_valid b 0 of
             (True, b') \<Rightarrow> (Some True, put_block mem 0 b', c, a')
           | (False, b') \<Rightarrow>
               if first \<and> drm_edid_is_zero b'
               then (Some False, put_block mem 0 b', c\<lparr>null_edid_counter := null_edid_counter c + 1\<rparr>, a')
               else base_fetch xfer n False (put_block mem 0 b') c a'))"

text \<open>One extension block \<open>j\<close> into the place \<open>slot\<close>: \<open>None\<close> when a transfer failed, else whether it is good.\<close>

fun ext_fetch :: "'a i2c \<Rightarrow> nat \<Rightarrow> nat \<Rightarrow> nat \<Rightarrow> u8 list \<Rightarrow> 'a \<Rightarrow> bool option \<times> u8 list \<times> 'a" where
  "ext_fetch xfer 0 j slot mem a = (Some False, mem, a)"
| "ext_fetch xfer (Suc n) j slot mem a =
     (case drm_do_probe_ddc_edid xfer a (block_at mem slot) j of
        (False, b, a') \<Rightarrow> (None, put_block mem slot b, a')
      | (True, b, a') \<Rightarrow>
          (case drm_edid_block_valid b j of
             (True, b') \<Rightarrow> (Some True, put_block mem slot b', a')
           | (False, b') \<Rightarrow> ext_fetch xfer n j slot (put_block mem slot b') a'))"

fun ext_loop :: "'a i2c \<Rightarrow> nat list \<Rightarrow> nat \<Rightarrow> u8 list \<Rightarrow> 'a \<Rightarrow> (nat option \<times> u8 list \<times> 'a) result" where
  "ext_loop xfer [] valid mem a = Inr (Some valid, mem, a)"
| "ext_loop xfer (j # js) valid mem a =
     (if (valid + 2) * EDID_LENGTH > length mem then Inl BUG
      else (case ext_fetch xfer 4 j (valid + 1) mem a of
              (None, mem', a') \<Rightarrow> Inr (None, mem', a')
            | (Some ok, mem', a') \<Rightarrow> ext_loop xfer js (if ok then valid + 1 else valid) mem' a'))"

text \<open>\<open>alloc\<close> is what \<open>kmalloc\<close> gives: memory of the size asked for, with some contents, or \<open>NULL\<close>.\<close>

definition drm_do_get_edid ::
  "'a i2c \<Rightarrow> u8 list option \<Rightarrow> edid_counters \<Rightarrow> 'a \<Rightarrow> (u8 list option \<times> edid_counters \<times> 'a) result" where
  "drm_do_get_edid xfer alloc c a =
     (case alloc of
        None \<Rightarrow> Inr (None, c, a)
      | Some mem \<Rightarrow>
          (case base_fetch xfer 4 True mem c a of
             (None, mem, c, a) \<Rightarrow> Inr (None, c, a)
           | (Some False, mem, c, a) \<Rightarrow> Inr (None, c\<lparr>bad_edid_counter := bad_edid_counter c + 1\<rparr>, a)
           | (Some True, mem, c, a) \<Rightarrow>
               let ext = unat (mem ! 126)
               in if ext = 0 then Inr (Some mem, c, a)
                  else (case ext_loop xfer [1..<Suc ext] 0 mem a of
                          Inl e \<Rightarrow> Inl e
                        | Inr (None, mem, a) \<Rightarrow> Inr (None, c, a)
                        | Inr (Some valid, mem, a) \<Rightarrow>
                            if valid \<noteq> ext
                            then Inr (Some (mem[127 := mem ! 127 + (mem ! 126 - word_of_nat valid), 126 := word_of_nat valid]), c, a)
                            else Inr (Some mem, c, a))))"

definition drm_probe_ddc :: "'a i2c \<Rightarrow> 'a \<Rightarrow> bool \<times> 'a" where
  "drm_probe_ddc xfer a = (case drm_do_probe_ddc_edid xfer a [0] 0 of (ok, _, a') \<Rightarrow> (ok, a'))"

definition drm_get_edid ::
  "'a i2c \<Rightarrow> u8 list option \<Rightarrow> edid_counters \<Rightarrow> 'a \<Rightarrow> (u8 list option \<times> edid_counters \<times> 'a) result" where
  "drm_get_edid xfer alloc c a =
     (case drm_probe_ddc xfer a of
        (False, a') \<Rightarrow> Inr (None, c, a')
      | (True, a') \<Rightarrow> drm_do_get_edid xfer alloc c a')"

subsection \<open>Blocks of a buffer\<close>

lemma length_block_at: "Suc i * EDID_LENGTH \<le> length raw \<Longrightarrow> length (block_at raw i) = EDID_LENGTH"
  by (simp add: block_at_def EDID_LENGTH_def)

lemma block_at_nth: "k < EDID_LENGTH \<Longrightarrow> Suc i * EDID_LENGTH \<le> length raw \<Longrightarrow> block_at raw i ! k = raw ! (i * EDID_LENGTH + k)"
  by (simp add: block_at_def EDID_LENGTH_def)

lemma length_put_block [simp]:
  "i * EDID_LENGTH + length b \<le> length raw \<Longrightarrow> length (put_block raw i b) = length raw"
  by (simp add: put_block_def)

lemma put_block_same: "Suc i * EDID_LENGTH \<le> length raw \<Longrightarrow> put_block raw i (block_at raw i) = raw"
proof -
  assume a: "Suc i * EDID_LENGTH \<le> length raw"
  have d: "drop (i * EDID_LENGTH + EDID_LENGTH) raw = drop EDID_LENGTH (drop (i * EDID_LENGTH) raw)" by (simp add: add.commute)
  show ?thesis
    unfolding put_block_def length_block_at [OF a] d unfolding block_at_def by (simp only: append_take_drop_id)
qed

lemma block_at_put_block:
  assumes "length b = EDID_LENGTH" "Suc i * EDID_LENGTH \<le> length raw"
  shows "block_at (put_block raw i b) k = (if k = i then b else block_at raw k)"
proof -
  have l: "length (take (i * EDID_LENGTH) raw) = i * EDID_LENGTH" using assms(2) by simp
  consider "k = i" | "k < i" | "i < k" by linarith
  then show ?thesis
  proof cases
    case 1
    then show ?thesis using assms by (simp add: block_at_def put_block_def l)
  next
    case 2
    then have "k * EDID_LENGTH + EDID_LENGTH \<le> i * EDID_LENGTH"
      by (metis Suc_leI mult_le_mono1 mult_Suc add.commute)
    then have le: "EDID_LENGTH \<le> i * EDID_LENGTH - k * EDID_LENGTH" "k * EDID_LENGTH \<le> i * EDID_LENGTH"
      "k * EDID_LENGTH - i * EDID_LENGTH = 0" by linarith+
    have "take EDID_LENGTH (drop (k * EDID_LENGTH) (take (i * EDID_LENGTH) raw @ xs)) =
        take EDID_LENGTH (drop (k * EDID_LENGTH) (take (i * EDID_LENGTH) raw))" for xs
      using le l by (simp only: drop_append take_append length_drop diff_is_0_eq [THEN iffD2] take_0 append_Nil2)
    moreover have "take EDID_LENGTH (drop (k * EDID_LENGTH) (take (i * EDID_LENGTH) raw)) = take EDID_LENGTH (drop (k * EDID_LENGTH) raw)"
      using le(1) by (simp add: drop_take min_absorb1)
    ultimately show ?thesis using 2 unfolding block_at_def put_block_def by presburger
  next
    case 3
    then obtain d where "k = Suc (i + d)" by (metis less_iff_Suc_add)
    then have k: "k * EDID_LENGTH = i * EDID_LENGTH + (EDID_LENGTH + d * EDID_LENGTH)" by (simp add: add_mult_distrib)
    have "drop (k * EDID_LENGTH) (put_block raw i b) = drop (d * EDID_LENGTH) (drop (i * EDID_LENGTH + EDID_LENGTH) raw)"
      unfolding put_block_def k assms(1) using l assms(1) by simp
    also have "\<dots> = drop (k * EDID_LENGTH) raw" unfolding k by (simp add: add.commute add.left_commute)
    finally show ?thesis using 3 by (simp add: block_at_def)
  qed
qed

subsection \<open>Valid blocks\<close>

lemma length_edid_header [simp]: "length edid_header = 8"
  by (simp add: edid_header_def)

lemma header_score_8:
  "drm_edid_header_is_valid raw = 8 \<longleftrightarrow> (\<forall>i < 8. raw ! i = edid_header ! i)"
  using length_filter_eq_iff [of "\<lambda>i. raw ! i = edid_header ! i" "[0..<8]"]
  by (auto simp: drm_edid_header_is_valid_def)

lemma header_score_fixed: "drm_edid_header_is_valid (edid_header @ xs) = 8"
  by (simp add: header_score_8 nth_append)

lemma block_valid_length: "drm_edid_block_valid b i = (ok, b') \<Longrightarrow> 8 \<le> length b \<Longrightarrow> length b' = length b"
  by (auto simp: drm_edid_block_valid_def Let_def split: if_splits)

text \<open>A block that passed passes again, unchanged; the place of an extension block does not matter.\<close>

lemma block_valid_idem: "drm_edid_block_valid b i = (True, b') \<Longrightarrow> drm_edid_block_valid b' i = (True, b')"
  by (auto simp: drm_edid_block_valid_def Let_def header_score_fixed split: if_splits)

lemma block_valid_ext: "0 < i \<Longrightarrow> drm_edid_block_valid b i = (block_sum_ok b, b)"
  by (simp add: drm_edid_block_valid_def Let_def)

lemma block_valid_base: "drm_edid_block_valid b 0 = (True, b) \<longleftrightarrow> drm_edid_header_is_valid b = 8 \<and> block_sum_ok b"
proof -
  have "drm_edid_header_is_valid b = 8" if "edid_header @ drop 8 b = b"
    using header_score_fixed [of "drop 8 b"] unfolding that .
  then show ?thesis by (auto simp: drm_edid_block_valid_def Let_def split: if_splits)
qed

lemma valid_loop_good:
  assumes "\<And>k. i \<le> k \<Longrightarrow> k < i + n \<Longrightarrow> drm_edid_block_valid (block_at raw k) k = (True, block_at raw k)"
    and "(i + n) * EDID_LENGTH \<le> length raw"
  shows "valid_loop n i raw = (True, raw)"
  using assms
proof (induction n arbitrary: i)
  case (Suc n)
  have "Suc i * EDID_LENGTH \<le> (i + Suc n) * EDID_LENGTH" by (intro mult_le_mono1) simp
  with Suc.prems(2) have "put_block raw i (block_at raw i) = raw" by (intro put_block_same) linarith
  moreover have "valid_loop n (Suc i) raw = (True, raw)" using Suc.prems by (intro Suc.IH) simp_all
  ultimately show ?case using Suc.prems(1) [of i] by (simp add: Let_def)
qed simp

subsection \<open>The fetched EDID\<close>

text \<open>What the driver relies on: a transfer of at most one block fills exactly the buffer it is given.\<close>

definition i2c_ok :: "'a i2c \<Rightarrow> bool" where
  "i2c_ok xfer \<longleftrightarrow> (\<forall>a seg start buf. length buf \<le> EDID_LENGTH \<longrightarrow> length (fst (snd (xfer a seg start buf))) = length buf)"

lemma i2c_okD: "i2c_ok xfer \<Longrightarrow> xfer a seg start buf = (ret, buf', a') \<Longrightarrow> length buf \<le> EDID_LENGTH \<Longrightarrow> length buf' = length buf"
  by (metis fst_conv i2c_ok_def snd_conv)

lemma probe_loop_length:
  "i2c_ok xfer \<Longrightarrow> probe_loop xfer seg start xfers n a buf = (ok, buf', a') \<Longrightarrow> length buf \<le> EDID_LENGTH \<Longrightarrow> length buf' = length buf"
proof (induction n arbitrary: a buf)
  case (Suc n)
  obtain ret b a1 where x: "xfer a seg start buf = (ret, b, a1)" by (metis prod_cases3)
  then have "length b = length buf" using Suc.prems i2c_okD by metis
  then show ?case using Suc.prems Suc.IH [of a1 b] x by (auto split: if_splits)
qed simp

lemma probe_length:
  "i2c_ok xfer \<Longrightarrow> drm_do_probe_ddc_edid xfer a buf block = (ok, buf', a') \<Longrightarrow> length buf \<le> EDID_LENGTH \<Longrightarrow> length buf' = length buf"
  by (auto simp: drm_do_probe_ddc_edid_def Let_def dest: probe_loop_length split: if_splits)

lemma base_fetch_spec:
  assumes "i2c_ok xfer" "base_fetch xfer n first mem c a = (r, mem', c', a')" "EDID_LENGTH \<le> length mem"
  shows "length mem' = length mem \<and> (r = Some True \<longrightarrow> drm_edid_block_valid (block_at mem' 0) 0 = (True, block_at mem' 0))"
  using assms(2,3)
proof (induction n arbitrary: first mem c a)
  case (Suc n)
  obtain ok b a1 where p: "drm_do_probe_ddc_edid xfer a (block_at mem 0) 0 = (ok, b, a1)" by (metis prod_cases3)
  have l: "length b = EDID_LENGTH" using probe_length [OF assms(1) p] Suc.prems(2) length_block_at [of 0 mem] by simp
  obtain v b' where v: "drm_edid_block_valid b 0 = (v, b')" by fastforce
  have l': "length b' = EDID_LENGTH" using block_valid_length [OF v] l by (simp add: EDID_LENGTH_def)
  have at: "block_at (put_block mem 0 b') 0 = b'" "length (put_block mem 0 b') = length mem" "length (put_block mem 0 b) = length mem"
    using block_at_put_block [of b' 0 mem 0] Suc.prems(2) l l' by simp_all
  show ?case
  proof (cases "ok \<and> \<not> v \<and> \<not> (first \<and> drm_edid_is_zero b')")
    case True
    then have "base_fetch xfer n False (put_block mem 0 b') c a1 = (r, mem', c', a')" using Suc.prems(1) p v by auto
    from Suc.IH [OF this] at Suc.prems(2) show ?thesis by simp
  next
    case False
    then show ?thesis using Suc.prems(1) p v at block_valid_idem [of b 0 b'] by (cases ok; cases v) (auto split: if_splits)
  qed
qed auto

lemma ext_fetch_spec:
  assumes "i2c_ok xfer" "ext_fetch xfer n j slot mem a = (r, mem', a')" "Suc slot * EDID_LENGTH \<le> length mem" "0 < j"
  shows "length mem' = length mem \<and> (\<forall>k. k \<noteq> slot \<longrightarrow> block_at mem' k = block_at mem k) \<and>
    (r = Some True \<longrightarrow> block_sum_ok (block_at mem' slot))"
  using assms(2,3)
proof (induction n arbitrary: mem a)
  case (Suc n)
  obtain ok b a1 where p: "drm_do_probe_ddc_edid xfer a (block_at mem slot) j = (ok, b, a1)" by (metis prod_cases3)
  have l: "length b = EDID_LENGTH" using probe_length [OF assms(1) p] Suc.prems(2) length_block_at [of slot mem] by simp
  have v: "drm_edid_block_valid b j = (block_sum_ok b, b)" using assms(4) by (rule block_valid_ext)
  have at: "block_at (put_block mem slot b) k = (if k = slot then b else block_at mem k)" "length (put_block mem slot b) = length mem" for k
    using block_at_put_block [OF l Suc.prems(2)] Suc.prems(2) l by simp_all
  show ?case
  proof (cases "ok \<and> \<not> block_sum_ok b")
    case True
    then have "ext_fetch xfer n j slot (put_block mem slot b) a1 = (r, mem', a')" using Suc.prems(1) p v by auto
    from Suc.IH [OF this] at Suc.prems(2) show ?thesis by simp
  next
    case False
    then show ?thesis using Suc.prems(1) p v at by (cases ok) auto
  qed
qed auto

lemma ext_loop_spec:
  assumes "i2c_ok xfer" "ext_loop xfer js valid mem a = Inr (Some v, mem', a')" "0 \<notin> set js"
    and "Suc valid * EDID_LENGTH \<le> length mem" "\<forall>k. 1 \<le> k \<and> k \<le> valid \<longrightarrow> block_sum_ok (block_at mem k)"
  shows "length mem' = length mem \<and> block_at mem' 0 = block_at mem 0 \<and> Suc v * EDID_LENGTH \<le> length mem \<and>
    (\<forall>k. 1 \<le> k \<and> k \<le> v \<longrightarrow> block_sum_ok (block_at mem' k))"
  using assms(2-)
proof (induction js arbitrary: valid mem a)
  case (Cons j js)
  have le: "Suc (Suc valid) * EDID_LENGTH \<le> length mem" using Cons.prems(1) by (auto split: if_splits)
  obtain r mem1 a1 where f: "ext_fetch xfer 4 j (Suc valid) mem a = (r, mem1, a1)" by (metis prod_cases3)
  note s = ext_fetch_spec [OF assms(1) f le]
  obtain ok where r: "r = Some ok" using Cons.prems(1) f by (cases r) (auto split: if_splits)
  have rec: "ext_loop xfer js (if ok then Suc valid else valid) mem1 a1 = Inr (Some v, mem', a')"
    using Cons.prems(1) le f r by (simp split: if_splits)
  have j: "0 < j" "0 \<notin> set js" using Cons.prems(2) by auto
  have good: "block_sum_ok (block_at mem1 k)" if "1 \<le> k" "k \<le> (if ok then Suc valid else valid)" for k
    using s [OF j(1)] r that Cons.prems(4) by (cases "k = Suc valid") (auto split: if_splits)
  have "Suc (if ok then Suc valid else valid) * EDID_LENGTH \<le> length mem1"
    using le Cons.prems(3) s [OF j(1)] by simp
  from Cons.IH [OF rec j(2) this] good s [OF j(1)] show ?case by simp
qed auto

lemma base_fetch_good: "base_fetch xfer n first mem c a = (Some True, mem', c', a') \<Longrightarrow> c' = c"
  by (induction n arbitrary: first mem a) (auto split: prod.splits bool.splits if_splits)

text \<open>Dropping blocks from the count keeps the base block good: its last byte is adjusted.\<close>

lemma adjusted_base_good:
  assumes "drm_edid_block_valid b 0 = (True, b)" "length b = EDID_LENGTH"
  shows "drm_edid_block_valid (b[127 := b ! 127 + (b ! 126 - w), 126 := w]) 0 = (True, b[127 := b ! 127 + (b ! 126 - w), 126 := w])"
proof -
  let ?b = "b[127 := b ! 127 + (b ! 126 - w), 126 := w]"
  have same: "?b ! i = b ! i" if "i < 126" for i using that by simp
  have h: "drm_edid_header_is_valid b = 8" "block_sum_ok b" using assms(1) by (simp_all add: block_valid_base)
  then have b0: "b ! 0 = 0" by (simp add: header_score_8 edid_header_def)
  have "sum_list ?b = sum_list b + (b ! 126 - w) + (w - b ! 126)"
    using assms(2) by (simp add: sum_list_upd EDID_LENGTH_def algebra_simps)
  then have "block_sum_ok ?b" using h(2) b0 assms(2) by (simp add: block_sum_ok_def EDID_LENGTH_def)
  moreover have "drm_edid_header_is_valid ?b = 8" using h(1) by (simp add: header_score_8)
  ultimately show ?thesis by (simp add: block_valid_base)
qed

lemma edid_valid_from_blocks:
  assumes "drm_edid_block_valid (block_at raw 0) 0 = (True, block_at raw 0)" "Suc v * EDID_LENGTH \<le> length raw"
    and "\<forall>k. 1 \<le> k \<and> k \<le> v \<longrightarrow> block_sum_ok (block_at raw k)" "unat (raw ! 126) = v"
  shows "drm_edid_is_valid raw = (True, raw)"
  unfolding drm_edid_is_valid_def assms(4)
proof (rule valid_loop_good)
  fix k assume "0 \<le> k" "k < 0 + Suc v"
  then show "drm_edid_block_valid (block_at raw k) k = (True, block_at raw k)"
    using assms(1,3) by (cases "k = 0") (auto simp: block_valid_ext)
qed (use assms(2) in simp)

text \<open>
  Claim C8. An EDID that \<open>drm_do_get_edid\<close> returns, whatever the monitor answers, passes
  \<open>drm_edid_is_valid\<close> without any further repair: the header and checksum of the base block are right
  also when the count of extension blocks had to be lowered, and the blocks it counts, at most four,
  were all read and are good. (The size of the buffer is \<open>EDID_LENGTH * (DRM_MAX_EDID_EXT_NUM + 1)\<close>.)
\<close>

theorem drm_do_get_edid_valid:
  assumes "i2c_ok xfer" "length mem = EDID_LENGTH * (DRM_MAX_EDID_EXT_NUM + 1)"
    and "drm_do_get_edid xfer (Some mem) c a = Inr (Some raw, c', a')"
  shows "drm_edid_is_valid raw = (True, raw) \<and> unat (raw ! 126) \<le> DRM_MAX_EDID_EXT_NUM \<and> length raw = length mem \<and> c' = c"
proof -
  have len: "length mem = 640" using assms(2) by (simp add: EDID_LENGTH_def DRM_MAX_EDID_EXT_NUM_def)
  obtain r m1 c1 a1 where b: "base_fetch xfer 4 True mem c a = (r, m1, c1, a1)" by (metis prod_cases4)
  have r: "r = Some True" using assms(3) b by (auto simp: drm_do_get_edid_def split: option.splits bool.splits)
  have c1: "c1 = c" using b r base_fetch_good by metis
  have s: "length m1 = 640" "drm_edid_block_valid (block_at m1 0) 0 = (True, block_at m1 0)"
    using base_fetch_spec [OF assms(1) b] len r by (simp_all add: EDID_LENGTH_def)
  have ix: "k < 128 \<Longrightarrow> length m = 640 \<Longrightarrow> block_at m 0 ! k = m ! k" for m :: "u8 list" and k
    by (simp add: block_at_nth EDID_LENGTH_def)
  let ?ext = "unat (m1 ! 126)"
  show ?thesis
  proof (cases "?ext = 0")
    case True
    then have "raw = m1" "c' = c" using assms(3) b r c1 by (auto simp: drm_do_get_edid_def Let_def)
    then show ?thesis using edid_valid_from_blocks [of m1 0] s True len by (simp add: EDID_LENGTH_def)
  next
    case False
    obtain v m2 a2 where e: "ext_loop xfer [1..<Suc ?ext] 0 m1 a1 = Inr (Some v, m2, a2)"
      and out: "raw = (if v \<noteq> ?ext then m2[127 := m2 ! 127 + (m2 ! 126 - word_of_nat v), 126 := word_of_nat v] else m2)" "c' = c1"
      using assms(3) b r False
      by (auto simp: drm_do_get_edid_def Let_def simp del: upt_Suc split: sum.splits option.splits prod.splits if_splits)
    have t: "length m2 = 640 \<and> block_at m2 0 = block_at m1 0 \<and> Suc v * EDID_LENGTH \<le> 640 \<and>
        (\<forall>k. 1 \<le> k \<and> k \<le> v \<longrightarrow> block_sum_ok (block_at m2 k))"
      using ext_loop_spec [OF assms(1) e] s(1) by (simp add: EDID_LENGTH_def del: upt_Suc)
    then have v: "v \<le> 4" by (simp add: EDID_LENGTH_def)
    have nths: "m2 ! 126 = m1 ! 126" "m2 ! 127 = m1 ! 127"
      using t s(1) ix [of 126 m1] ix [of 126 m2] ix [of 127 m1] ix [of 127 m2] by simp_all
    have raw126: "unat (raw ! 126) = v"
      using out(1) v t ix [of 126 m1] ix [of 126 m2] s(1) by (cases "v = ?ext") (simp_all add: unat_of_nat)
    have blocks: "block_at raw k = block_at m2 k" if "1 \<le> k" for k
      using that t unfolding out(1) by (simp add: block_at_def EDID_LENGTH_def drop_update_cancel)
    have "block_at raw 0 = (let b = block_at m2 0 in if v \<noteq> ?ext then b[127 := b ! 127 + (b ! 126 - word_of_nat v), 126 := word_of_nat v] else b)"
      using t nths unfolding out(1) by (simp add: block_at_def EDID_LENGTH_def take_update_swap)
    then have "drm_edid_block_valid (block_at raw 0) 0 = (True, block_at raw 0)"
      using adjusted_base_good [OF s(2), of "word_of_nat v"] s t length_block_at [of 0 m1]
      by (auto simp: Let_def EDID_LENGTH_def)
    then have "drm_edid_is_valid raw = (True, raw)"
      using raw126 t blocks out(1) by (intro edid_valid_from_blocks [of raw v]) auto
    moreover have "length raw = length mem" using out(1) t len by simp
    ultimately show ?thesis using raw126 v out(2) c1 by (simp add: DRM_MAX_EDID_EXT_NUM_def)
  qed
qed

subsection \<open>The size of the buffer\<close>

text \<open>A monitor that answers every request at once, with the block \<open>answer segment start\<close>.\<close>

definition steady_xfer :: "(u8 option \<Rightarrow> u8 \<Rightarrow> u8 list) \<Rightarrow> 'a i2c" where
  "steady_xfer answer a seg start buf = (if seg = None then 2 else 3, take (length buf) (answer seg start), a)"

definition answers_good :: "(u8 option \<Rightarrow> u8 \<Rightarrow> u8 list) \<Rightarrow> bool" where
  "answers_good answer \<longleftrightarrow> drm_edid_block_valid (answer None 0) 0 = (True, answer None 0) \<and>
     (\<forall>seg start. length (answer seg start) = EDID_LENGTH \<and> (seg \<noteq> None \<or> start \<noteq> 0 \<longrightarrow> block_sum_ok (answer seg start)))"

lemma steady_i2c_ok: "answers_good answer \<Longrightarrow> i2c_ok (steady_xfer answer)"
  by (simp add: i2c_ok_def steady_xfer_def answers_good_def min_absorb2)

lemma steady_probe:
  "drm_do_probe_ddc_edid (steady_xfer answer) a buf block =
     (True, take (length buf) (answer (if word_of_nat (block div 2) \<noteq> (0 :: u8) then Some (word_of_nat (block div 2)) else None) (word_of_nat (block * EDID_LENGTH))), a)"
proof -
  have p: "probe_loop (steady_xfer answer) seg start (if seg = None then 2 else 3) 5 a buf = (True, take (length buf) (answer seg start), a)" for seg start
    by (simp add: steady_xfer_def eval_nat_numeral)
  show ?thesis using p [of None] p [of "Some (word_of_nat (block div 2))"] by (auto simp: drm_do_probe_ddc_edid_def Let_def)
qed

lemma steady_ext_block:
  assumes "answers_good answer" "0 < j" "j < 256" "length buf = EDID_LENGTH"
  shows "\<exists>b. drm_do_probe_ddc_edid (steady_xfer answer) a buf j = (True, b, a) \<and> length b = EDID_LENGTH \<and> drm_edid_block_valid b j = (True, b)"
proof -
  have "j div 2 = 0 \<Longrightarrow> j = 1" using assms(2) by linarith
  moreover have "unat (word_of_nat (j div 2) :: u8) = j div 2"
    using assms(3) by (simp add: unat_of_nat)
  then have "word_of_nat (j div 2) = (0 :: u8) \<longleftrightarrow> j div 2 = 0" by (metis unat_0 unat_eq_zero)
  ultimately show ?thesis
    using assms by (auto simp: steady_probe answers_good_def block_valid_ext EDID_LENGTH_def)
qed

lemma steady_ext_loop:
  assumes "answers_good answer" "length mem = 640" "\<forall>j \<in> set js. 0 < j \<and> j < 256" "valid \<le> 4"
  shows "if valid + length js \<le> 4 then \<exists>m. ext_loop (steady_xfer answer) js valid mem a = Inr (Some (valid + length js), m, a)
    else ext_loop (steady_xfer answer) js valid mem a = Inl BUG"
  using assms(2-)
proof (induction js arbitrary: valid mem)
  case (Cons j js)
  show ?case
  proof (cases "valid = 4")
    case True
    then show ?thesis using Cons.prems(1) by (simp add: EDID_LENGTH_def)
  next
    case False
    then have "length (block_at mem (Suc valid)) = EDID_LENGTH"
      using Cons.prems length_block_at [of "Suc valid" mem] by (simp add: EDID_LENGTH_def)
    then obtain b where b: "drm_do_probe_ddc_edid (steady_xfer answer) a (block_at mem (Suc valid)) j = (True, b, a)"
      "length b = EDID_LENGTH" "drm_edid_block_valid b j = (True, b)"
      using steady_ext_block [OF assms(1), of j "block_at mem (Suc valid)" a] Cons.prems(2) by auto
    let ?m = "put_block mem (Suc valid) b"
    have "length ?m = 640" using b(2) Cons.prems(1,3) False by (simp add: EDID_LENGTH_def)
    then have "if Suc valid + length js \<le> 4 then \<exists>m. ext_loop (steady_xfer answer) js (Suc valid) ?m a = Inr (Some (Suc valid + length js), m, a)
      else ext_loop (steady_xfer answer) js (Suc valid) ?m a = Inl BUG"
      by (rule Cons.IH) (use Cons.prems(2,3) False in auto)
    moreover have "ext_fetch (steady_xfer answer) 4 j (Suc valid) mem a = (Some True, ?m, a)"
      using b by (simp add: eval_nat_numeral)
    then have eq: "ext_loop (steady_xfer answer) (j # js) valid mem a = ext_loop (steady_xfer answer) js (Suc valid) ?m a"
      using Cons.prems(1,3) False by (simp add: EDID_LENGTH_def)
    ultimately show ?thesis unfolding eq by (simp split: if_splits)
  qed
qed simp

text \<open>
  Claim C34. The buffer of \<open>drm_do_get_edid\<close> has room for four extension blocks, but the loop reads as many
  as the base block announces: for a monitor whose blocks are all good, it writes past the end of
  the buffer exactly when more than four are announced.
\<close>

theorem drm_do_get_edid_overrun:
  assumes "answers_good answer" "length mem = EDID_LENGTH * (DRM_MAX_EDID_EXT_NUM + 1)"
  shows "drm_do_get_edid (steady_xfer answer) (Some mem) c a = Inl BUG \<longleftrightarrow>
    DRM_MAX_EDID_EXT_NUM < unat (answer None 0 ! 126)"
proof -
  let ?b = "answer None 0" and ?m = "put_block mem 0 (answer None 0)"
  have len: "length mem = 640" using assms(2) by (simp add: EDID_LENGTH_def DRM_MAX_EDID_EXT_NUM_def)
  have b: "drm_edid_block_valid ?b 0 = (True, ?b)" "length ?b = 128"
    using assms(1) by (auto simp: answers_good_def EDID_LENGTH_def)
  have f: "base_fetch (steady_xfer answer) 4 True mem c a = (Some True, ?m, c, a)"
    using b len length_block_at [of 0 mem] by (simp add: eval_nat_numeral steady_probe EDID_LENGTH_def)
  have m: "length ?m = 640" "?m ! 126 = ?b ! 126" using len b(2) by (simp_all add: put_block_def nth_append)
  let ?ext = "unat (?b ! 126)"
  have "unat (?b ! 126) < 2 ^ LENGTH(8)" by (rule unsigned_less)
  then have js: "\<forall>j \<in> set [1..<Suc ?ext]. 0 < j \<and> j < 256" by auto
  have "length [1..<Suc ?ext] = ?ext" by simp
  then have l: "if ?ext \<le> 4 then \<exists>m. ext_loop (steady_xfer answer) [1..<Suc ?ext] 0 ?m a = Inr (Some ?ext, m, a)
    else ext_loop (steady_xfer answer) [1..<Suc ?ext] 0 ?m a = Inl BUG"
    using steady_ext_loop [OF assms(1) m(1) js, of 0 a] by (simp del: upt_Suc split: if_splits)
  show ?thesis
  proof (cases "?ext \<le> 4")
    case True
    with l obtain m' where "ext_loop (steady_xfer answer) [1..<Suc ?ext] 0 ?m a = Inr (Some ?ext, m', a)" by presburger
    with True f m show ?thesis by (simp add: drm_do_get_edid_def Let_def DRM_MAX_EDID_EXT_NUM_def del: upt_Suc)
  next
    case False
    with l have "ext_loop (steady_xfer answer) [1..<Suc ?ext] 0 ?m a = Inl BUG" by presburger
    with False f m show ?thesis by (simp add: drm_do_get_edid_def Let_def DRM_MAX_EDID_EXT_NUM_def del: upt_Suc)
  qed
qed

subsection \<open>Examples\<close>

text \<open>A base block with no timings, and a CEA extension block.\<close>

definition sample_base :: "u8 \<Rightarrow> u8 list" where
  "sample_base ext = edid_header @ replicate 10 0 @ [1, 3] @ replicate 106 0 @ [ext, 2 - ext]"

definition sample_ext :: "u8 list" where
  "sample_ext = 2 # replicate 127 0"

definition sample_answer :: "u8 \<Rightarrow> u8 option \<Rightarrow> u8 \<Rightarrow> u8 list" where
  "sample_answer ext seg start = (if seg = None \<and> start = 0 then sample_base ext else sample_ext)"

lemma sample_base_ok: "block_sum_ok (sample_base ext)"
  by (simp add: block_sum_ok_def sample_base_def edid_header_def EDID_LENGTH_def nth_append sum_list_replicate)

lemma sample_ext_ok: "block_sum_ok sample_ext"
  by (simp add: block_sum_ok_def sample_ext_def)

lemma sample_base_valid: "drm_edid_block_valid (sample_base ext) 0 = (True, sample_base ext)"
  unfolding block_valid_base sample_base_def
  by (rule conjI [OF header_score_fixed]) (rule sample_base_ok [unfolded sample_base_def])

lemma sample_answers_good: "answers_good (sample_answer ext)"
  by (auto simp: answers_good_def sample_answer_def sample_base_valid sample_ext_ok)
    (simp_all add: sample_base_def sample_ext_def EDID_LENGTH_def)

theorem drm_do_get_edid_overrun_witness:
  "drm_do_get_edid (steady_xfer (sample_answer 5)) (Some (replicate 640 0)) \<lparr>null_edid_counter = 0, bad_edid_counter = 0\<rparr> () = Inl BUG"
proof -
  have "sample_base 5 ! 126 = 5" by (simp add: sample_base_def nth_append)
  then show ?thesis
    using drm_do_get_edid_overrun [OF sample_answers_good, of "replicate 640 0" 5]
    by (simp add: sample_answer_def EDID_LENGTH_def DRM_MAX_EDID_EXT_NUM_def)
qed

theorem drm_do_get_edid_valid_witness:
  "drm_edid_is_valid (sample_base 1 @ sample_ext @ replicate 384 0) = (True, sample_base 1 @ sample_ext @ replicate 384 0)"
proof -
  let ?x = "steady_xfer (sample_answer 1)" and ?c = "\<lparr>null_edid_counter = 0, bad_edid_counter = 0\<rparr>"
  have "drm_do_get_edid ?x (Some (replicate 640 0)) ?c () = Inr (Some (sample_base 1 @ sample_ext @ replicate 384 0), ?c, ())"
    by code_simp
  from drm_do_get_edid_valid [OF steady_i2c_ok [OF sample_answers_good] _ this] show ?thesis
    by (simp add: EDID_LENGTH_def DRM_MAX_EDID_EXT_NUM_def)
qed

end
