(* ===== verification/Drm_Edid_Tables.thy ===== *)
theory Drm_Edid_Tables
  imports Drm_Modes
begin

text \<open>
  The constant tables of \<open>drm_edid.c\<close>: the modes of the VESA DMT standard, the established timings
  of the EDID base block, the size and rate lists of the established timings III descriptor and of
  the modes inferred from a monitor's range limits, the CEA-861 modes, and the list of monitors that
  need quirks. A table is split where it is long. The lemmas at the end are facts about all
  entries that the parser relies on.
\<close>

text \<open>The macro \<open>DRM_MODE\<close>: an initialiser; the fields it does not name are zero.\<close>

definition DRM_MODE ::
  "string \<Rightarrow> mode_type set \<Rightarrow> int \<Rightarrow> int \<Rightarrow> int \<Rightarrow> int \<Rightarrow> int \<Rightarrow> int \<Rightarrow> int \<Rightarrow> int \<Rightarrow> int \<Rightarrow> int \<Rightarrow> int \<Rightarrow> mode_flag set \<Rightarrow> drm_display_mode" where
  "DRM_MODE nm t c hds hss hse ht hsk vd vss vse vt vs f =
     mode0\<lparr>name := nm, status := MODE_OK, mtype := t, clock := c, hdisplay := hds, hsync_start := hss, hsync_end := hse,
           htotal := ht, hskew := hsk, vdisplay := vd, vsync_start := vss, vsync_end := vse, vtotal := vt, vscan := vs,
           flags := f\<rparr>"

datatype minimode = Minimode (mm_w: int) (mm_h: int) (mm_r: int) (mm_rb: int)

text \<open>The bits \<open>EDID_QUIRK_*\<close>; a \<open>u32\<close> of them is a set.\<close>

datatype edid_quirk_bit =
    QUIRK_PREFER_LARGE_60 | QUIRK_135_CLOCK_TOO_HIGH | QUIRK_PREFER_LARGE_75 | QUIRK_DETAILED_IN_CM
  | QUIRK_DETAILED_USE_MAXIMUM_SIZE | QUIRK_FIRST_DETAILED_PREFERRED | QUIRK_DETAILED_SYNC_PP
  | QUIRK_FORCE_REDUCED_BLANKING

definition edid_quirk_list :: "(string \<times> int \<times> edid_quirk_bit set) list" where
  "edid_quirk_list =
    [(''ACR'', 44358, {QUIRK_PREFER_LARGE_60}),
     (''API'', 30210, {QUIRK_PREFER_LARGE_60}),
     (''ACR'', 2423, {QUIRK_FIRST_DETAILED_PREFERRED}),
     (''MAX'', 1516, {QUIRK_PREFER_LARGE_60}),
     (''MAX'', 1918, {QUIRK_PREFER_LARGE_60}),
     (''EPI'', 59264, {QUIRK_135_CLOCK_TOO_HIGH}),
     (''EPI'', 8232, {QUIRK_PREFER_LARGE_60}),
     (''FCM'', 13600, {QUIRK_PREFER_LARGE_75, QUIRK_DETAILED_IN_CM}),
     (''LPL'', 0, {QUIRK_DETAILED_USE_MAXIMUM_SIZE}),
     (''LPL'', 10752, {QUIRK_DETAILED_USE_MAXIMUM_SIZE}),
     (''PHL'', 57364, {QUIRK_FIRST_DETAILED_PREFERRED}),
     (''PTS'', 765, {QUIRK_FIRST_DETAILED_PREFERRED}),
     (''SAM'', 541, {QUIRK_DETAILED_SYNC_PP}),
     (''SAM'', 596, {QUIRK_PREFER_LARGE_60}),
     (''SAM'', 638, {QUIRK_PREFER_LARGE_60}),
     (''VSC'', 5020, {QUIRK_FORCE_REDUCED_BLANKING})]"

definition drm_dmt_modes_1 :: "drm_display_mode list" where
  "drm_dmt_modes_1 =
    [DRM_MODE ''640x350'' {TYPE_DRIVER} 31500 640 672 736 832 0 350 382 385 445 0 {FLAG_PHSYNC, FLAG_NVSYNC},
     DRM_MODE ''640x400'' {TYPE_DRIVER} 31500 640 672 736 832 0 400 401 404 445 0 {FLAG_NHSYNC, FLAG_PVSYNC},
     DRM_MODE ''720x400'' {TYPE_DRIVER} 35500 720 756 828 936 0 400 401 404 446 0 {FLAG_NHSYNC, FLAG_PVSYNC},
     DRM_MODE ''640x480'' {TYPE_DRIVER} 25175 640 656 752 800 0 480 489 492 525 0 {FLAG_NHSYNC, FLAG_NVSYNC},
     DRM_MODE ''640x480'' {TYPE_DRIVER} 31500 640 664 704 832 0 480 489 492 520 0 {FLAG_NHSYNC, FLAG_NVSYNC},
     DRM_MODE ''640x480'' {TYPE_DRIVER} 31500 640 656 720 840 0 480 481 484 500 0 {FLAG_NHSYNC, FLAG_NVSYNC},
     DRM_MODE ''640x480'' {TYPE_DRIVER} 36000 640 696 752 832 0 480 481 484 509 0 {FLAG_NHSYNC, FLAG_NVSYNC},
     DRM_MODE ''800x600'' {TYPE_DRIVER} 36000 800 824 896 1024 0 600 601 603 625 0 {FLAG_PHSYNC, FLAG_PVSYNC},
     DRM_MODE ''800x600'' {TYPE_DRIVER} 40000 800 840 968 1056 0 600 601 605 628 0 {FLAG_PHSYNC, FLAG_PVSYNC},
     DRM_MODE ''800x600'' {TYPE_DRIVER} 50000 800 856 976 1040 0 600 637 643 666 0 {FLAG_PHSYNC, FLAG_PVSYNC},
     DRM_MODE ''800x600'' {TYPE_DRIVER} 49500 800 816 896 1056 0 600 601 604 625 0 {FLAG_PHSYNC, FLAG_PVSYNC},
     DRM_MODE ''800x600'' {TYPE_DRIVER} 56250 800 832 896 1048 0 600 601 604 631 0 {FLAG_PHSYNC, FLAG_PVSYNC},
     DRM_MODE ''800x600'' {TYPE_DRIVER} 73250 800 848 880 960 0 600 603 607 636 0 {FLAG_PHSYNC, FLAG_NVSYNC},
     DRM_MODE ''848x480'' {TYPE_DRIVER} 33750 848 864 976 1088 0 480 486 494 517 0 {FLAG_PHSYNC, FLAG_PVSYNC},
     DRM_MODE ''1024x768i'' {TYPE_DRIVER} 44900 1024 1032 1208 1264 0 768 768 772 817 0 {FLAG_PHSYNC, FLAG_PVSYNC, FLAG_INTERLACE},
     DRM_MODE ''1024x768'' {TYPE_DRIVER} 65000 1024 1048 1184 1344 0 768 771 777 806 0 {FLAG_NHSYNC, FLAG_NVSYNC},
     DRM_MODE ''1024x768'' {TYPE_DRIVER} 75000 1024 1048 1184 1328 0 768 771 777 806 0 {FLAG_NHSYNC, FLAG_NVSYNC},
     DRM_MODE ''1024x768'' {TYPE_DRIVER} 78750 1024 1040 1136 1312 0 768 769 772 800 0 {FLAG_PHSYNC, FLAG_PVSYNC},
     DRM_MODE ''1024x768'' {TYPE_DRIVER} 94500 1024 1072 1168 1376 0 768 769 772 808 0 {FLAG_PHSYNC, FLAG_PVSYNC},
     DRM_MODE ''1024x768'' {TYPE_DRIVER} 115500 1024 1072 1104 1184 0 768 771 775 813 0 {FLAG_PHSYNC, FLAG_NVSYNC},
     DRM_MODE ''1152x864'' {TYPE_DRIVER} 108000 1152 1216 1344 1600 0 864 865 868 900 0 {FLAG_PHSYNC, FLAG_PVSYNC},
     DRM_MODE ''1280x768'' {TYPE_DRIVER} 68250 1280 1328 1360 1440 0 768 771 778 790 0 {FLAG_PHSYNC, FLAG_NVSYNC},
     DRM_MODE ''1280x768'' {TYPE_DRIVER} 79500 1280 1344 1472 1664 0 768 771 778 798 0 {FLAG_NHSYNC, FLAG_PVSYNC},
     DRM_MODE ''1280x768'' {TYPE_DRIVER} 102250 1280 1360 1488 1696 0 768 771 778 805 0 {FLAG_PHSYNC, FLAG_NVSYNC},
     DRM_MODE ''1280x768'' {TYPE_DRIVER} 117500 1280 1360 1496 1712 0 768 771 778 809 0 {FLAG_NHSYNC, FLAG_PVSYNC},
     DRM_MODE ''1280x768'' {TYPE_DRIVER} 140250 1280 1328 1360 1440 0 768 771 778 813 0 {FLAG_PHSYNC, FLAG_NVSYNC},
     DRM_MODE ''1280x800'' {TYPE_DRIVER} 71000 1280 1328 1360 1440 0 800 803 809 823 0 {FLAG_PHSYNC, FLAG_NVSYNC},
     DRM_MODE ''1280x800'' {TYPE_DRIVER} 83500 1280 1352 1480 1680 0 800 803 809 831 0 {FLAG_PHSYNC, FLAG_NVSYNC},
     DRM_MODE ''1280x800'' {TYPE_DRIVER} 106500 1280 1360 1488 1696 0 800 803 809 838 0 {FLAG_NHSYNC, FLAG_PVSYNC},
     DRM_MODE ''1280x800'' {TYPE_DRIVER} 122500 1280 1360 1496 1712 0 800 803 809 843 0 {FLAG_NHSYNC, FLAG_PVSYNC},
     DRM_MODE ''1280x800'' {TYPE_DRIVER} 146250 1280 1328 1360 1440 0 800 803 809 847 0 {FLAG_PHSYNC, FLAG_NVSYNC},
     DRM_MODE ''1280x960'' {TYPE_DRIVER} 108000 1280 1376 1488 1800 0 960 961 964 1000 0 {FLAG_PHSYNC, FLAG_PVSYNC},
     DRM_MODE ''1280x960'' {TYPE_DRIVER} 148500 1280 1344 1504 1728 0 960 961 964 1011 0 {FLAG_PHSYNC, FLAG_PVSYNC},
     DRM_MODE ''1280x960'' {TYPE_DRIVER} 175500 1280 1328 1360 1440 0 960 963 967 1017 0 {FLAG_PHSYNC, FLAG_NVSYNC},
     DRM_MODE ''1280x1024'' {TYPE_DRIVER} 108000 1280 1328 1440 1688 0 1024 1025 1028 1066 0 {FLAG_PHSYNC, FLAG_PVSYNC},
     DRM_MODE ''1280x1024'' {TYPE_DRIVER} 135000 1280 1296 1440 1688 0 1024 1025 1028 1066 0 {FLAG_PHSYNC, FLAG_PVSYNC},
     DRM_MODE ''1280x1024'' {TYPE_DRIVER} 157500 1280 1344 1504 1728 0 1024 1025 1028 1072 0 {FLAG_PHSYNC, FLAG_PVSYNC}]"

definition drm_dmt_modes_2 :: "drm_display_mode list" where
  "drm_dmt_modes_2 =
    [DRM_MODE ''1280x1024'' {TYPE_DRIVER} 187250 1280 1328 1360 1440 0 1024 1027 1034 1084 0 {FLAG_PHSYNC, FLAG_NVSYNC},
     DRM_MODE ''1360x768'' {TYPE_DRIVER} 85500 1360 1424 1536 1792 0 768 771 777 795 0 {FLAG_PHSYNC, FLAG_PVSYNC},
     DRM_MODE ''1360x768'' {TYPE_DRIVER} 148250 1360 1408 1440 1520 0 768 771 776 813 0 {FLAG_PHSYNC, FLAG_NVSYNC},
     DRM_MODE ''1400x1050'' {TYPE_DRIVER} 101000 1400 1448 1480 1560 0 1050 1053 1057 1080 0 {FLAG_PHSYNC, FLAG_NVSYNC},
     DRM_MODE ''1400x1050'' {TYPE_DRIVER} 121750 1400 1488 1632 1864 0 1050 1053 1057 1089 0 {FLAG_NHSYNC, FLAG_PVSYNC},
     DRM_MODE ''1400x1050'' {TYPE_DRIVER} 156000 1400 1504 1648 1896 0 1050 1053 1057 1099 0 {FLAG_NHSYNC, FLAG_PVSYNC},
     DRM_MODE ''1400x1050'' {TYPE_DRIVER} 179500 1400 1504 1656 1912 0 1050 1053 1057 1105 0 {FLAG_NHSYNC, FLAG_PVSYNC},
     DRM_MODE ''1400x1050'' {TYPE_DRIVER} 208000 1400 1448 1480 1560 0 1050 1053 1057 1112 0 {FLAG_PHSYNC, FLAG_NVSYNC},
     DRM_MODE ''1440x900'' {TYPE_DRIVER} 88750 1440 1488 1520 1600 0 900 903 909 926 0 {FLAG_PHSYNC, FLAG_NVSYNC},
     DRM_MODE ''1440x900'' {TYPE_DRIVER} 106500 1440 1520 1672 1904 0 900 903 909 934 0 {FLAG_NHSYNC, FLAG_PVSYNC},
     DRM_MODE ''1440x900'' {TYPE_DRIVER} 136750 1440 1536 1688 1936 0 900 903 909 942 0 {FLAG_NHSYNC, FLAG_PVSYNC},
     DRM_MODE ''1440x900'' {TYPE_DRIVER} 157000 1440 1544 1696 1952 0 900 903 909 948 0 {FLAG_NHSYNC, FLAG_PVSYNC},
     DRM_MODE ''1440x900'' {TYPE_DRIVER} 182750 1440 1488 1520 1600 0 900 903 909 953 0 {FLAG_PHSYNC, FLAG_NVSYNC},
     DRM_MODE ''1600x1200'' {TYPE_DRIVER} 162000 1600 1664 1856 2160 0 1200 1201 1204 1250 0 {FLAG_PHSYNC, FLAG_PVSYNC},
     DRM_MODE ''1600x1200'' {TYPE_DRIVER} 175500 1600 1664 1856 2160 0 1200 1201 1204 1250 0 {FLAG_PHSYNC, FLAG_PVSYNC},
     DRM_MODE ''1600x1200'' {TYPE_DRIVER} 189000 1600 1664 1856 2160 0 1200 1201 1204 1250 0 {FLAG_PHSYNC, FLAG_PVSYNC},
     DRM_MODE ''1600x1200'' {TYPE_DRIVER} 202500 1600 1664 1856 2160 0 1200 1201 1204 1250 0 {FLAG_PHSYNC, FLAG_PVSYNC},
     DRM_MODE ''1600x1200'' {TYPE_DRIVER} 229500 1600 1664 1856 2160 0 1200 1201 1204 1250 0 {FLAG_PHSYNC, FLAG_PVSYNC},
     DRM_MODE ''1600x1200'' {TYPE_DRIVER} 268250 1600 1648 1680 1760 0 1200 1203 1207 1271 0 {FLAG_PHSYNC, FLAG_NVSYNC},
     DRM_MODE ''1680x1050'' {TYPE_DRIVER} 119000 1680 1728 1760 1840 0 1050 1053 1059 1080 0 {FLAG_PHSYNC, FLAG_NVSYNC},
     DRM_MODE ''1680x1050'' {TYPE_DRIVER} 146250 1680 1784 1960 2240 0 1050 1053 1059 1089 0 {FLAG_NHSYNC, FLAG_PVSYNC},
     DRM_MODE ''1680x1050'' {TYPE_DRIVER} 187000 1680 1800 1976 2272 0 1050 1053 1059 1099 0 {FLAG_NHSYNC, FLAG_PVSYNC},
     DRM_MODE ''1680x1050'' {TYPE_DRIVER} 214750 1680 1808 1984 2288 0 1050 1053 1059 1105 0 {FLAG_NHSYNC, FLAG_PVSYNC},
     DRM_MODE ''1680x1050'' {TYPE_DRIVER} 245500 1680 1728 1760 1840 0 1050 1053 1059 1112 0 {FLAG_PHSYNC, FLAG_NVSYNC},
     DRM_MODE ''1792x1344'' {TYPE_DRIVER} 204750 1792 1920 2120 2448 0 1344 1345 1348 1394 0 {FLAG_NHSYNC, FLAG_PVSYNC},
     DRM_MODE ''1792x1344'' {TYPE_DRIVER} 261000 1792 1888 2104 2456 0 1344 1345 1348 1417 0 {FLAG_NHSYNC, FLAG_PVSYNC},
     DRM_MODE ''1792x1344'' {TYPE_DRIVER} 333250 1792 1840 1872 1952 0 1344 1347 1351 1423 0 {FLAG_PHSYNC, FLAG_NVSYNC},
     DRM_MODE ''1856x1392'' {TYPE_DRIVER} 218250 1856 1952 2176 2528 0 1392 1393 1396 1439 0 {FLAG_NHSYNC, FLAG_PVSYNC},
     DRM_MODE ''1856x1392'' {TYPE_DRIVER} 288000 1856 1984 2208 2560 0 1392 1395 1399 1500 0 {FLAG_NHSYNC, FLAG_PVSYNC},
     DRM_MODE ''1856x1392'' {TYPE_DRIVER} 356500 1856 1904 1936 2016 0 1392 1395 1399 1474 0 {FLAG_PHSYNC, FLAG_NVSYNC},
     DRM_MODE ''1920x1200'' {TYPE_DRIVER} 154000 1920 1968 2000 2080 0 1200 1203 1209 1235 0 {FLAG_PHSYNC, FLAG_NVSYNC},
     DRM_MODE ''1920x1200'' {TYPE_DRIVER} 193250 1920 2056 2256 2592 0 1200 1203 1209 1245 0 {FLAG_NHSYNC, FLAG_PVSYNC},
     DRM_MODE ''1920x1200'' {TYPE_DRIVER} 245250 1920 2056 2264 2608 0 1200 1203 1209 1255 0 {FLAG_NHSYNC, FLAG_PVSYNC},
     DRM_MODE ''1920x1200'' {TYPE_DRIVER} 281250 1920 2064 2272 2624 0 1200 1203 1209 1262 0 {FLAG_NHSYNC, FLAG_PVSYNC},
     DRM_MODE ''1920x1200'' {TYPE_DRIVER} 317000 1920 1968 2000 2080 0 1200 1203 1209 1271 0 {FLAG_PHSYNC, FLAG_NVSYNC},
     DRM_MODE ''1920x1440'' {TYPE_DRIVER} 234000 1920 2048 2256 2600 0 1440 1441 1444 1500 0 {FLAG_NHSYNC, FLAG_PVSYNC},
     DRM_MODE ''1920x1440'' {TYPE_DRIVER} 297000 1920 2064 2288 2640 0 1440 1441 1444 1500 0 {FLAG_NHSYNC, FLAG_PVSYNC}]"

definition drm_dmt_modes_3 :: "drm_display_mode list" where
  "drm_dmt_modes_3 =
    [DRM_MODE ''1920x1440'' {TYPE_DRIVER} 380500 1920 1968 2000 2080 0 1440 1443 1447 1525 0 {FLAG_PHSYNC, FLAG_NVSYNC},
     DRM_MODE ''2560x1600'' {TYPE_DRIVER} 268500 2560 2608 2640 2720 0 1600 1603 1609 1646 0 {FLAG_PHSYNC, FLAG_NVSYNC},
     DRM_MODE ''2560x1600'' {TYPE_DRIVER} 348500 2560 2752 3032 3504 0 1600 1603 1609 1658 0 {FLAG_NHSYNC, FLAG_PVSYNC},
     DRM_MODE ''2560x1600'' {TYPE_DRIVER} 443250 2560 2768 3048 3536 0 1600 1603 1609 1672 0 {FLAG_NHSYNC, FLAG_PVSYNC},
     DRM_MODE ''2560x1600'' {TYPE_DRIVER} 505250 2560 2768 3048 3536 0 1600 1603 1609 1682 0 {FLAG_NHSYNC, FLAG_PVSYNC},
     DRM_MODE ''2560x1600'' {TYPE_DRIVER} 552750 2560 2608 2640 2720 0 1600 1603 1609 1694 0 {FLAG_PHSYNC, FLAG_NVSYNC}]"

definition drm_dmt_modes :: "drm_display_mode list" where
  "drm_dmt_modes = drm_dmt_modes_1 @ drm_dmt_modes_2 @ drm_dmt_modes_3"

definition edid_est_modes :: "drm_display_mode list" where
  "edid_est_modes =
    [DRM_MODE ''800x600'' {TYPE_DRIVER} 40000 800 840 968 1056 0 600 601 605 628 0 {FLAG_PHSYNC, FLAG_PVSYNC},
     DRM_MODE ''800x600'' {TYPE_DRIVER} 36000 800 824 896 1024 0 600 601 603 625 0 {FLAG_PHSYNC, FLAG_PVSYNC},
     DRM_MODE ''640x480'' {TYPE_DRIVER} 31500 640 656 720 840 0 480 481 484 500 0 {FLAG_NHSYNC, FLAG_NVSYNC},
     DRM_MODE ''640x480'' {TYPE_DRIVER} 31500 640 664 704 832 0 480 489 491 520 0 {FLAG_NHSYNC, FLAG_NVSYNC},
     DRM_MODE ''640x480'' {TYPE_DRIVER} 30240 640 704 768 864 0 480 483 486 525 0 {FLAG_NHSYNC, FLAG_NVSYNC},
     DRM_MODE ''640x480'' {TYPE_DRIVER} 25200 640 656 752 800 0 480 490 492 525 0 {FLAG_NHSYNC, FLAG_NVSYNC},
     DRM_MODE ''720x400'' {TYPE_DRIVER} 35500 720 738 846 900 0 400 421 423 449 0 {FLAG_NHSYNC, FLAG_NVSYNC},
     DRM_MODE ''720x400'' {TYPE_DRIVER} 28320 720 738 846 900 0 400 412 414 449 0 {FLAG_NHSYNC, FLAG_PVSYNC},
     DRM_MODE ''1280x1024'' {TYPE_DRIVER} 135000 1280 1296 1440 1688 0 1024 1025 1028 1066 0 {FLAG_PHSYNC, FLAG_PVSYNC},
     DRM_MODE ''1024x768'' {TYPE_DRIVER} 78800 1024 1040 1136 1312 0 768 769 772 800 0 {FLAG_PHSYNC, FLAG_PVSYNC},
     DRM_MODE ''1024x768'' {TYPE_DRIVER} 75000 1024 1048 1184 1328 0 768 771 777 806 0 {FLAG_NHSYNC, FLAG_NVSYNC},
     DRM_MODE ''1024x768'' {TYPE_DRIVER} 65000 1024 1048 1184 1344 0 768 771 777 806 0 {FLAG_NHSYNC, FLAG_NVSYNC},
     DRM_MODE ''1024x768i'' {TYPE_DRIVER} 44900 1024 1032 1208 1264 0 768 768 776 817 0 {FLAG_PHSYNC, FLAG_PVSYNC, FLAG_INTERLACE},
     DRM_MODE ''832x624'' {TYPE_DRIVER} 57284 832 864 928 1152 0 624 625 628 667 0 {FLAG_NHSYNC, FLAG_NVSYNC},
     DRM_MODE ''800x600'' {TYPE_DRIVER} 49500 800 816 896 1056 0 600 601 604 625 0 {FLAG_PHSYNC, FLAG_PVSYNC},
     DRM_MODE ''800x600'' {TYPE_DRIVER} 50000 800 856 976 1040 0 600 637 643 666 0 {FLAG_PHSYNC, FLAG_PVSYNC},
     DRM_MODE ''1152x864'' {TYPE_DRIVER} 108000 1152 1216 1344 1600 0 864 865 868 900 0 {FLAG_PHSYNC, FLAG_PVSYNC}]"

definition est3_modes :: "minimode list" where
  "est3_modes =
    [Minimode 640 350 85 0,
     Minimode 640 400 85 0,
     Minimode 720 400 85 0,
     Minimode 640 480 85 0,
     Minimode 848 480 60 0,
     Minimode 800 600 85 0,
     Minimode 1024 768 85 0,
     Minimode 1152 864 75 0,
     Minimode 1280 768 60 1,
     Minimode 1280 768 60 0,
     Minimode 1280 768 75 0,
     Minimode 1280 768 85 0,
     Minimode 1280 960 60 0,
     Minimode 1280 960 85 0,
     Minimode 1280 1024 60 0,
     Minimode 1280 1024 85 0,
     Minimode 1360 768 60 0,
     Minimode 1440 900 60 1,
     Minimode 1440 900 60 0,
     Minimode 1440 900 75 0,
     Minimode 1440 900 85 0,
     Minimode 1400 1050 60 1,
     Minimode 1400 1050 60 0,
     Minimode 1400 1050 75 0,
     Minimode 1400 1050 85 0,
     Minimode 1680 1050 60 1,
     Minimode 1680 1050 60 0,
     Minimode 1680 1050 75 0,
     Minimode 1680 1050 85 0,
     Minimode 1600 1200 60 0,
     Minimode 1600 1200 65 0,
     Minimode 1600 1200 70 0,
     Minimode 1600 1200 75 0,
     Minimode 1600 1200 85 0,
     Minimode 1792 1344 60 0,
     Minimode 1792 1344 85 0,
     Minimode 1856 1392 60 0,
     Minimode 1856 1392 75 0,
     Minimode 1920 1200 60 1,
     Minimode 1920 1200 60 0,
     Minimode 1920 1200 75 0,
     Minimode 1920 1200 85 0,
     Minimode 1920 1440 60 0,
     Minimode 1920 1440 75 0]"

definition extra_modes :: "minimode list" where
  "extra_modes =
    [Minimode 1024 576 60 0,
     Minimode 1366 768 60 0,
     Minimode 1600 900 60 0,
     Minimode 1680 945 60 0,
     Minimode 1920 1080 60 0,
     Minimode 2048 1152 60 0,
     Minimode 2048 1536 60 0]"

definition edid_cea_modes_1 :: "drm_display_mode list" where
  "edid_cea_modes_1 =
    [(DRM_MODE ''640x480'' {TYPE_DRIVER} 25175 640 656 752 800 0 480 490 492 525 0 {FLAG_NHSYNC, FLAG_NVSYNC})\<lparr>vrefresh := 60\<rparr>,
     (DRM_MODE ''720x480'' {TYPE_DRIVER} 27000 720 736 798 858 0 480 489 495 525 0 {FLAG_NHSYNC, FLAG_NVSYNC})\<lparr>vrefresh := 60\<rparr>,
     (DRM_MODE ''720x480'' {TYPE_DRIVER} 27000 720 736 798 858 0 480 489 495 525 0 {FLAG_NHSYNC, FLAG_NVSYNC})\<lparr>vrefresh := 60\<rparr>,
     (DRM_MODE ''1280x720'' {TYPE_DRIVER} 74250 1280 1390 1430 1650 0 720 725 730 750 0 {FLAG_PHSYNC, FLAG_PVSYNC})\<lparr>vrefresh := 60\<rparr>,
     (DRM_MODE ''1920x1080i'' {TYPE_DRIVER} 74250 1920 2008 2052 2200 0 1080 1084 1094 1125 0 {FLAG_PHSYNC, FLAG_PVSYNC, FLAG_INTERLACE})\<lparr>vrefresh := 60\<rparr>,
     (DRM_MODE ''1440x480i'' {TYPE_DRIVER} 27000 1440 1478 1602 1716 0 480 488 494 525 0 {FLAG_NHSYNC, FLAG_NVSYNC, FLAG_INTERLACE, FLAG_DBLCLK})\<lparr>vrefresh := 60\<rparr>,
     (DRM_MODE ''1440x480i'' {TYPE_DRIVER} 27000 1440 1478 1602 1716 0 480 488 494 525 0 {FLAG_NHSYNC, FLAG_NVSYNC, FLAG_INTERLACE, FLAG_DBLCLK})\<lparr>vrefresh := 60\<rparr>,
     (DRM_MODE ''1440x240'' {TYPE_DRIVER} 27000 1440 1478 1602 1716 0 240 244 247 262 0 {FLAG_NHSYNC, FLAG_NVSYNC, FLAG_DBLCLK})\<lparr>vrefresh := 60\<rparr>,
     (DRM_MODE ''1440x240'' {TYPE_DRIVER} 27000 1440 1478 1602 1716 0 240 244 247 262 0 {FLAG_NHSYNC, FLAG_NVSYNC, FLAG_DBLCLK})\<lparr>vrefresh := 60\<rparr>,
     (DRM_MODE ''2880x480i'' {TYPE_DRIVER} 54000 2880 2956 3204 3432 0 480 488 494 525 0 {FLAG_NHSYNC, FLAG_NVSYNC, FLAG_INTERLACE})\<lparr>vrefresh := 60\<rparr>,
     (DRM_MODE ''2880x480i'' {TYPE_DRIVER} 54000 2880 2956 3204 3432 0 480 488 494 525 0 {FLAG_NHSYNC, FLAG_NVSYNC, FLAG_INTERLACE})\<lparr>vrefresh := 60\<rparr>,
     (DRM_MODE ''2880x240'' {TYPE_DRIVER} 54000 2880 2956 3204 3432 0 240 244 247 262 0 {FLAG_NHSYNC, FLAG_NVSYNC})\<lparr>vrefresh := 60\<rparr>,
     (DRM_MODE ''2880x240'' {TYPE_DRIVER} 54000 2880 2956 3204 3432 0 240 244 247 262 0 {FLAG_NHSYNC, FLAG_NVSYNC})\<lparr>vrefresh := 60\<rparr>,
     (DRM_MODE ''1440x480'' {TYPE_DRIVER} 54000 1440 1472 1596 1716 0 480 489 495 525 0 {FLAG_NHSYNC, FLAG_NVSYNC})\<lparr>vrefresh := 60\<rparr>,
     (DRM_MODE ''1440x480'' {TYPE_DRIVER} 54000 1440 1472 1596 1716 0 480 489 495 525 0 {FLAG_NHSYNC, FLAG_NVSYNC})\<lparr>vrefresh := 60\<rparr>,
     (DRM_MODE ''1920x1080'' {TYPE_DRIVER} 148500 1920 2008 2052 2200 0 1080 1084 1089 1125 0 {FLAG_PHSYNC, FLAG_PVSYNC})\<lparr>vrefresh := 60\<rparr>,
     (DRM_MODE ''720x576'' {TYPE_DRIVER} 27000 720 732 796 864 0 576 581 586 625 0 {FLAG_NHSYNC, FLAG_NVSYNC})\<lparr>vrefresh := 50\<rparr>,
     (DRM_MODE ''720x576'' {TYPE_DRIVER} 27000 720 732 796 864 0 576 581 586 625 0 {FLAG_NHSYNC, FLAG_NVSYNC})\<lparr>vrefresh := 50\<rparr>,
     (DRM_MODE ''1280x720'' {TYPE_DRIVER} 74250 1280 1720 1760 1980 0 720 725 730 750 0 {FLAG_PHSYNC, FLAG_PVSYNC})\<lparr>vrefresh := 50\<rparr>,
     (DRM_MODE ''1920x1080i'' {TYPE_DRIVER} 74250 1920 2448 2492 2640 0 1080 1084 1094 1125 0 {FLAG_PHSYNC, FLAG_PVSYNC, FLAG_INTERLACE})\<lparr>vrefresh := 50\<rparr>,
     (DRM_MODE ''1440x576i'' {TYPE_DRIVER} 27000 1440 1464 1590 1728 0 576 580 586 625 0 {FLAG_NHSYNC, FLAG_NVSYNC, FLAG_INTERLACE, FLAG_DBLCLK})\<lparr>vrefresh := 50\<rparr>,
     (DRM_MODE ''1440x576i'' {TYPE_DRIVER} 27000 1440 1464 1590 1728 0 576 580 586 625 0 {FLAG_NHSYNC, FLAG_NVSYNC, FLAG_INTERLACE, FLAG_DBLCLK})\<lparr>vrefresh := 50\<rparr>,
     (DRM_MODE ''1440x288'' {TYPE_DRIVER} 27000 1440 1464 1590 1728 0 288 290 293 312 0 {FLAG_NHSYNC, FLAG_NVSYNC, FLAG_DBLCLK})\<lparr>vrefresh := 50\<rparr>,
     (DRM_MODE ''1440x288'' {TYPE_DRIVER} 27000 1440 1464 1590 1728 0 288 290 293 312 0 {FLAG_NHSYNC, FLAG_NVSYNC, FLAG_DBLCLK})\<lparr>vrefresh := 50\<rparr>,
     (DRM_MODE ''2880x576i'' {TYPE_DRIVER} 54000 2880 2928 3180 3456 0 576 580 586 625 0 {FLAG_NHSYNC, FLAG_NVSYNC, FLAG_INTERLACE})\<lparr>vrefresh := 50\<rparr>,
     (DRM_MODE ''2880x576i'' {TYPE_DRIVER} 54000 2880 2928 3180 3456 0 576 580 586 625 0 {FLAG_NHSYNC, FLAG_NVSYNC, FLAG_INTERLACE})\<lparr>vrefresh := 50\<rparr>,
     (DRM_MODE ''2880x288'' {TYPE_DRIVER} 54000 2880 2928 3180 3456 0 288 290 293 312 0 {FLAG_NHSYNC, FLAG_NVSYNC})\<lparr>vrefresh := 50\<rparr>,
     (DRM_MODE ''2880x288'' {TYPE_DRIVER} 54000 2880 2928 3180 3456 0 288 290 293 312 0 {FLAG_NHSYNC, FLAG_NVSYNC})\<lparr>vrefresh := 50\<rparr>,
     (DRM_MODE ''1440x576'' {TYPE_DRIVER} 54000 1440 1464 1592 1728 0 576 581 586 625 0 {FLAG_NHSYNC, FLAG_NVSYNC})\<lparr>vrefresh := 50\<rparr>,
     (DRM_MODE ''1440x576'' {TYPE_DRIVER} 54000 1440 1464 1592 1728 0 576 581 586 625 0 {FLAG_NHSYNC, FLAG_NVSYNC})\<lparr>vrefresh := 50\<rparr>,
     (DRM_MODE ''1920x1080'' {TYPE_DRIVER} 148500 1920 2448 2492 2640 0 1080 1084 1089 1125 0 {FLAG_PHSYNC, FLAG_PVSYNC})\<lparr>vrefresh := 50\<rparr>,
     (DRM_MODE ''1920x1080'' {TYPE_DRIVER} 74250 1920 2558 2602 2750 0 1080 1084 1089 1125 0 {FLAG_PHSYNC, FLAG_PVSYNC})\<lparr>vrefresh := 50\<rparr>,
     (DRM_MODE ''1920x1080'' {TYPE_DRIVER} 74250 1920 2448 2492 2640 0 1080 1084 1089 1125 0 {FLAG_PHSYNC, FLAG_PVSYNC})\<lparr>vrefresh := 25\<rparr>]"

definition edid_cea_modes_2 :: "drm_display_mode list" where
  "edid_cea_modes_2 =
    [(DRM_MODE ''1920x1080'' {TYPE_DRIVER} 74250 1920 2008 2052 2200 0 1080 1084 1089 1125 0 {FLAG_PHSYNC, FLAG_PVSYNC})\<lparr>vrefresh := 30\<rparr>,
     (DRM_MODE ''2880x480'' {TYPE_DRIVER} 108000 2880 2944 3192 3432 0 480 489 495 525 0 {FLAG_NHSYNC, FLAG_NVSYNC})\<lparr>vrefresh := 60\<rparr>,
     (DRM_MODE ''2880x480'' {TYPE_DRIVER} 108000 2880 2944 3192 3432 0 480 489 495 525 0 {FLAG_NHSYNC, FLAG_NVSYNC})\<lparr>vrefresh := 60\<rparr>,
     (DRM_MODE ''2880x576'' {TYPE_DRIVER} 108000 2880 2928 3184 3456 0 576 581 586 625 0 {FLAG_NHSYNC, FLAG_NVSYNC})\<lparr>vrefresh := 50\<rparr>,
     (DRM_MODE ''2880x576'' {TYPE_DRIVER} 108000 2880 2928 3184 3456 0 576 581 586 625 0 {FLAG_NHSYNC, FLAG_NVSYNC})\<lparr>vrefresh := 50\<rparr>,
     (DRM_MODE ''1920x1080i'' {TYPE_DRIVER} 72000 1920 1952 2120 2304 0 1080 1126 1136 1250 0 {FLAG_PHSYNC, FLAG_NVSYNC, FLAG_INTERLACE})\<lparr>vrefresh := 50\<rparr>,
     (DRM_MODE ''1920x1080i'' {TYPE_DRIVER} 148500 1920 2448 2492 2640 0 1080 1084 1094 1125 0 {FLAG_PHSYNC, FLAG_PVSYNC, FLAG_INTERLACE})\<lparr>vrefresh := 100\<rparr>,
     (DRM_MODE ''1280x720'' {TYPE_DRIVER} 148500 1280 1720 1760 1980 0 720 725 730 750 0 {FLAG_PHSYNC, FLAG_PVSYNC})\<lparr>vrefresh := 100\<rparr>,
     (DRM_MODE ''720x576'' {TYPE_DRIVER} 54000 720 732 796 864 0 576 581 586 625 0 {FLAG_NHSYNC, FLAG_NVSYNC})\<lparr>vrefresh := 100\<rparr>,
     (DRM_MODE ''720x576'' {TYPE_DRIVER} 54000 720 732 796 864 0 576 581 586 625 0 {FLAG_NHSYNC, FLAG_NVSYNC})\<lparr>vrefresh := 100\<rparr>,
     (DRM_MODE ''1440x576'' {TYPE_DRIVER} 54000 1440 1464 1590 1728 0 576 580 586 625 0 {FLAG_NHSYNC, FLAG_NVSYNC, FLAG_DBLCLK})\<lparr>vrefresh := 100\<rparr>,
     (DRM_MODE ''1440x576'' {TYPE_DRIVER} 54000 1440 1464 1590 1728 0 576 580 586 625 0 {FLAG_NHSYNC, FLAG_NVSYNC, FLAG_DBLCLK})\<lparr>vrefresh := 100\<rparr>,
     (DRM_MODE ''1920x1080i'' {TYPE_DRIVER} 148500 1920 2008 2052 2200 0 1080 1084 1094 1125 0 {FLAG_PHSYNC, FLAG_PVSYNC, FLAG_INTERLACE})\<lparr>vrefresh := 120\<rparr>,
     (DRM_MODE ''1280x720'' {TYPE_DRIVER} 148500 1280 1390 1430 1650 0 720 725 730 750 0 {FLAG_PHSYNC, FLAG_PVSYNC})\<lparr>vrefresh := 120\<rparr>,
     (DRM_MODE ''720x480'' {TYPE_DRIVER} 54000 720 736 798 858 0 480 489 495 525 0 {FLAG_NHSYNC, FLAG_NVSYNC})\<lparr>vrefresh := 120\<rparr>,
     (DRM_MODE ''720x480'' {TYPE_DRIVER} 54000 720 736 798 858 0 480 489 495 525 0 {FLAG_NHSYNC, FLAG_NVSYNC})\<lparr>vrefresh := 120\<rparr>,
     (DRM_MODE ''1440x480i'' {TYPE_DRIVER} 54000 1440 1478 1602 1716 0 480 488 494 525 0 {FLAG_NHSYNC, FLAG_NVSYNC, FLAG_INTERLACE, FLAG_DBLCLK})\<lparr>vrefresh := 120\<rparr>,
     (DRM_MODE ''1440x480i'' {TYPE_DRIVER} 54000 1440 1478 1602 1716 0 480 488 494 525 0 {FLAG_NHSYNC, FLAG_NVSYNC, FLAG_INTERLACE, FLAG_DBLCLK})\<lparr>vrefresh := 120\<rparr>,
     (DRM_MODE ''720x576'' {TYPE_DRIVER} 108000 720 732 796 864 0 576 581 586 625 0 {FLAG_NHSYNC, FLAG_NVSYNC})\<lparr>vrefresh := 200\<rparr>,
     (DRM_MODE ''720x576'' {TYPE_DRIVER} 108000 720 732 796 864 0 576 581 586 625 0 {FLAG_NHSYNC, FLAG_NVSYNC})\<lparr>vrefresh := 200\<rparr>,
     (DRM_MODE ''1440x576i'' {TYPE_DRIVER} 108000 1440 1464 1590 1728 0 576 580 586 625 0 {FLAG_NHSYNC, FLAG_NVSYNC, FLAG_INTERLACE, FLAG_DBLCLK})\<lparr>vrefresh := 200\<rparr>,
     (DRM_MODE ''1440x576i'' {TYPE_DRIVER} 108000 1440 1464 1590 1728 0 576 580 586 625 0 {FLAG_NHSYNC, FLAG_NVSYNC, FLAG_INTERLACE, FLAG_DBLCLK})\<lparr>vrefresh := 200\<rparr>,
     (DRM_MODE ''720x480'' {TYPE_DRIVER} 108000 720 736 798 858 0 480 489 495 525 0 {FLAG_NHSYNC, FLAG_NVSYNC})\<lparr>vrefresh := 240\<rparr>,
     (DRM_MODE ''720x480'' {TYPE_DRIVER} 108000 720 736 798 858 0 480 489 495 525 0 {FLAG_NHSYNC, FLAG_NVSYNC})\<lparr>vrefresh := 240\<rparr>,
     (DRM_MODE ''1440x480i'' {TYPE_DRIVER} 108000 1440 1478 1602 1716 0 480 488 494 525 0 {FLAG_NHSYNC, FLAG_NVSYNC, FLAG_INTERLACE, FLAG_DBLCLK})\<lparr>vrefresh := 240\<rparr>,
     (DRM_MODE ''1440x480i'' {TYPE_DRIVER} 108000 1440 1478 1602 1716 0 480 488 494 525 0 {FLAG_NHSYNC, FLAG_NVSYNC, FLAG_INTERLACE, FLAG_DBLCLK})\<lparr>vrefresh := 240\<rparr>,
     (DRM_MODE ''1280x720'' {TYPE_DRIVER} 59400 1280 3040 3080 3300 0 720 725 730 750 0 {FLAG_PHSYNC, FLAG_PVSYNC})\<lparr>vrefresh := 24\<rparr>,
     (DRM_MODE ''1280x720'' {TYPE_DRIVER} 74250 1280 3700 3740 3960 0 720 725 730 750 0 {FLAG_PHSYNC, FLAG_PVSYNC})\<lparr>vrefresh := 25\<rparr>,
     (DRM_MODE ''1280x720'' {TYPE_DRIVER} 74250 1280 3040 3080 3300 0 720 725 730 750 0 {FLAG_PHSYNC, FLAG_PVSYNC})\<lparr>vrefresh := 30\<rparr>,
     (DRM_MODE ''1920x1080'' {TYPE_DRIVER} 297000 1920 2008 2052 2200 0 1080 1084 1089 1125 0 {FLAG_PHSYNC, FLAG_PVSYNC})\<lparr>vrefresh := 120\<rparr>,
     (DRM_MODE ''1920x1080'' {TYPE_DRIVER} 297000 1920 2448 2492 2640 0 1080 1084 1094 1125 0 {FLAG_PHSYNC, FLAG_PVSYNC})\<lparr>vrefresh := 100\<rparr>]"

definition edid_cea_modes :: "drm_display_mode list" where
  "edid_cea_modes = edid_cea_modes_1 @ edid_cea_modes_2"

subsection \<open>All entries\<close>

text \<open>Timings in order: the sync pulse is not empty and lies between the visible part and the total.\<close>

definition timings_ok :: "drm_display_mode \<Rightarrow> bool" where
  "timings_ok m \<longleftrightarrow> 0 < hdisplay m \<and> hdisplay m \<le> hsync_start m \<and> hsync_start m < hsync_end m \<and> hsync_end m \<le> htotal m \<and>
     0 < vdisplay m \<and> vdisplay m \<le> vsync_start m \<and> vsync_start m < vsync_end m \<and> vsync_end m \<le> vtotal m"

lemma dmt_modes_ok: "list_all timings_ok drm_dmt_modes"
  by code_simp

lemma est_modes_ok: "list_all timings_ok edid_est_modes"
  by code_simp

lemma cea_modes_ok: "list_all timings_ok edid_cea_modes"
  by code_simp

end
