(* ===== verification/Drm_Edid_Blocks.thy ===== *)
theory Drm_Edid_Blocks
  imports Drm_Edid Drm_Edid_Tables
begin

text \<open>
  The parts of an EDID, from \<open>drm_edid.c\<close> and \<open>struct edid\<close>: the fields of the base block, the walk over
  all detailed timing descriptors (18 bytes each) of the base and the extension blocks, what is read
  from the monitor range descriptor, the vendor quirks, and the walk over the data blocks of a CEA
  extension. A descriptor is named by its offset in the EDID; a walk that calls a function on every
  element is the list of the elements. The pointer \<open>u8 *\<close> to an extension block is its number.
\<close>

subsection \<open>The base block\<close>

definition edid_mfg_id :: "u8 list \<Rightarrow> u8 \<times> u8" where "edid_mfg_id e = (e ! 8, e ! 9)"

definition edid_prod_code :: "u8 list \<Rightarrow> u8 \<times> u8" where "edid_prod_code e = (e ! 10, e ! 11)"

definition edid_version :: "u8 list \<Rightarrow> u8" where "edid_version e = e ! 18"

definition edid_revision :: "u8 list \<Rightarrow> u8" where "edid_revision e = e ! 19"

definition edid_input :: "u8 list \<Rightarrow> u8" where "edid_input e = e ! 20"

definition edid_width_cm :: "u8 list \<Rightarrow> u8" where "edid_width_cm e = e ! 21"

definition edid_height_cm :: "u8 list \<Rightarrow> u8" where "edid_height_cm e = e ! 22"

definition edid_features :: "u8 list \<Rightarrow> u8" where "edid_features e = e ! 24"

definition edid_extensions :: "u8 list \<Rightarrow> nat" where "edid_extensions e = unat (e ! 126)"

definition EDID_PRODUCT_ID :: "u8 list \<Rightarrow> int" where
  "EDID_PRODUCT_ID e = uint (fst (edid_prod_code e)) + uint (snd (edid_prod_code e)) * 256"

definition version_greater :: "u8 list \<Rightarrow> u8 \<Rightarrow> u8 \<Rightarrow> bool" where
  "version_greater e maj mnr \<longleftrightarrow> edid_version e > maj \<or> edid_version e = maj \<and> edid_revision e > mnr"

subsection \<open>Quirks\<close>

text \<open>The three letters of the vendor, packed in five bits each.\<close>

definition vendor_letters :: "u8 list \<Rightarrow> u8 list" where
  "vendor_letters e =
     (let (m0, m1) = edid_mfg_id e
      in [drop_bit 2 (m0 AND 0x7c) + 64, (push_bit 3 (m0 AND 0x3) OR drop_bit 5 (m1 AND 0xe0)) + 64, (m1 AND 0x1f) + 64])"

definition edid_vendor :: "u8 list \<Rightarrow> string \<Rightarrow> bool" where
  "edid_vendor e vendor \<longleftrightarrow> map unat (vendor_letters e) = map of_char (take 3 vendor)"

definition edid_get_quirks :: "u8 list \<Rightarrow> edid_quirk_bit set" where
  "edid_get_quirks e =
     (case find (\<lambda>(vendor, product, _). edid_vendor e vendor \<and> EDID_PRODUCT_ID e = product) edid_quirk_list of
        None \<Rightarrow> {}
      | Some (_, _, quirks) \<Rightarrow> quirks)"

subsection \<open>Detailed timings\<close>

definition CEA_EXT :: u8 where "CEA_EXT = 0x02"

definition VTB_EXT :: u8 where "VTB_EXT = 0x10"

text \<open>\<open>det_base + 18 * i\<close> in a CEA extension block at \<open>ext\<close>; the division is the one of \<open>int\<close>.\<close>

definition cea_for_each_detailed_block :: "u8 list \<Rightarrow> nat \<Rightarrow> nat list" where
  "cea_for_each_detailed_block e ext =
     (let d = e ! (ext + 2); n = cdiv (127 - uint d) 18
      in map (\<lambda>i. ext + unat d + 18 * i) [0..<nat n])"

definition vtb_for_each_detailed_block :: "u8 list \<Rightarrow> nat \<Rightarrow> nat list" where
  "vtb_for_each_detailed_block e ext =
     (let n = min (uint (e ! (ext + 2))) 6
      in if e ! (ext + 1) \<noteq> 1 then [] else map (\<lambda>i. ext + 5 + 18 * i) [0..<nat n])"

definition ext_detailed :: "u8 list \<Rightarrow> nat \<Rightarrow> nat list" where
  "ext_detailed e i =
     (let ext = i * EDID_LENGTH
      in if e ! ext = CEA_EXT then cea_for_each_detailed_block e ext
         else if e ! ext = VTB_EXT then vtb_for_each_detailed_block e ext else [])"

definition drm_for_each_detailed_block :: "u8 list \<Rightarrow> nat list" where
  "drm_for_each_detailed_block e =
     map (\<lambda>i. 54 + 18 * i) [0..<4] @ concat (map (ext_detailed e) [1..<Suc (edid_extensions e)])"

definition is_rb :: "u8 list \<Rightarrow> nat \<Rightarrow> bool \<Rightarrow> bool" where
  "is_rb e t data = (if e ! (t + 3) = 0xfd \<and> e ! (t + 15) AND 0x10 \<noteq> 0 then True else data)"

definition drm_monitor_supports_rb :: "u8 list \<Rightarrow> bool" where
  "drm_monitor_supports_rb e =
     (if edid_revision e \<ge> 4 then fold (is_rb e) (drm_for_each_detailed_block e) False
      else edid_input e AND 0x80 \<noteq> 0)"

definition find_gtf2 :: "u8 list \<Rightarrow> nat \<Rightarrow> nat option \<Rightarrow> nat option" where
  "find_gtf2 e t data = (if e ! (t + 3) = 0xfd \<and> e ! (t + 10) = 0x02 then Some t else data)"

definition gtf2_descriptor :: "u8 list \<Rightarrow> nat option" where
  "gtf2_descriptor e = fold (find_gtf2 e) (drm_for_each_detailed_block e) None"

definition drm_gtf2_hbreak :: "u8 list \<Rightarrow> int" where
  "drm_gtf2_hbreak e = (case gtf2_descriptor e of Some r \<Rightarrow> uint (e ! (r + 12)) * 2 | None \<Rightarrow> 0)"

definition drm_gtf2_2c :: "u8 list \<Rightarrow> int" where
  "drm_gtf2_2c e = (case gtf2_descriptor e of Some r \<Rightarrow> uint (e ! (r + 13)) | None \<Rightarrow> 0)"

definition drm_gtf2_m :: "u8 list \<Rightarrow> int" where
  "drm_gtf2_m e = (case gtf2_descriptor e of Some r \<Rightarrow> uint (e ! (r + 15)) * 256 + uint (e ! (r + 14)) | None \<Rightarrow> 0)"

definition drm_gtf2_k :: "u8 list \<Rightarrow> int" where
  "drm_gtf2_k e = (case gtf2_descriptor e of Some r \<Rightarrow> uint (e ! (r + 16)) | None \<Rightarrow> 0)"

definition drm_gtf2_2j :: "u8 list \<Rightarrow> int" where
  "drm_gtf2_2j e = (case gtf2_descriptor e of Some r \<Rightarrow> uint (e ! (r + 17)) | None \<Rightarrow> 0)"

datatype timing_level = LEVEL_DMT | LEVEL_GTF | LEVEL_GTF2 | LEVEL_CVT

definition standard_timing_level :: "u8 list \<Rightarrow> timing_level" where
  "standard_timing_level e =
     (if edid_revision e \<ge> 2 then
        (if edid_revision e \<ge> 4 \<and> edid_features e AND 1 \<noteq> 0 then LEVEL_CVT
         else if drm_gtf2_hbreak e \<noteq> 0 then LEVEL_GTF2 else LEVEL_GTF)
      else LEVEL_DMT)"

subsection \<open>CEA data blocks\<close>

text \<open>The number of the first CEA extension block.\<close>

definition drm_find_cea_extension :: "u8 list \<Rightarrow> nat option" where
  "drm_find_cea_extension e =
     (if edid_extensions e = 0 then None
      else find (\<lambda>i. e ! (i * EDID_LENGTH) = CEA_EXT) [1..<Suc (edid_extensions e)])"

definition cea_db_payload_len :: "u8 \<Rightarrow> nat" where "cea_db_payload_len db0 = unat (db0 AND 0x1f)"

definition cea_db_tag :: "u8 \<Rightarrow> nat" where "cea_db_tag db0 = unat (drop_bit 5 db0)"

definition cea_revision :: "u8 list \<Rightarrow> u8" where "cea_revision cea = cea ! 1"

definition cea_db_offsets :: "u8 list \<Rightarrow> (nat \<times> nat) result" where
  "cea_db_offsets cea =
     (let start = 4; fin = unat (cea ! 2); fin = (if fin = 0 then 127 else fin)
      in if fin < 4 \<or> fin > 127 then Inl ERANGE else Inr (start, fin))"

text \<open>The offsets \<open>i\<close> of \<open>for_each_cea_db(cea, i, start, end)\<close>.\<close>

function for_each_cea_db :: "u8 list \<Rightarrow> nat \<Rightarrow> nat \<Rightarrow> nat list" where
  "for_each_cea_db cea i fin =
     (if i < fin \<and> i + cea_db_payload_len (cea ! i) < fin
      then i # for_each_cea_db cea (i + cea_db_payload_len (cea ! i) + 1) fin else [])"
  by pat_completeness auto
termination by (relation "measure (\<lambda>(cea, i, fin). fin - i)") auto

declare for_each_cea_db.simps [simp del]

subsection \<open>The walks stay inside their blocks\<close>

lemma cea_detailed_in_block:
  assumes "t \<in> set (cea_for_each_detailed_block e ext)"
  shows "ext + unat (e ! (ext + 2)) \<le> t" "t + 18 \<le> ext + 127"
proof -
  let ?d = "e ! (ext + 2)"
  obtain i where i: "t = ext + unat ?d + 18 * i" "int i < cdiv (127 - uint ?d) 18"
    using assms by (auto simp: cea_for_each_detailed_block_def Let_def)
  then have "uint ?d \<le> 127" by (cases "uint ?d \<le> 127") (auto simp: cdiv_def sgn_if split: if_splits)
  then have "int i < (127 - uint ?d) div 18" using i(2) by (simp add: cdiv_nonneg)
  then have "18 * int i + 18 \<le> 127 - uint ?d" by linarith
  then have "int (18 * i + 18 + unat ?d) \<le> 127" unfolding uint_nat of_nat_add of_nat_mult by simp
  then have "18 * i + 18 + unat ?d \<le> 127" by linarith
  then show "ext + unat ?d \<le> t" "t + 18 \<le> ext + 127" using i(1) by simp_all
qed

lemma vtb_detailed_in_block:
  assumes "t \<in> set (vtb_for_each_detailed_block e ext)"
  shows "ext + 5 \<le> t \<and> t + 18 \<le> ext + 127"
  using assms by (auto simp: vtb_for_each_detailed_block_def Let_def split: if_splits)

lemma ext_detailed_in_block:
  assumes "t \<in> set (ext_detailed e i)"
  shows "i * EDID_LENGTH \<le> t \<and> t + 18 \<le> i * EDID_LENGTH + 127"
  using assms cea_detailed_in_block [of t e "i * EDID_LENGTH"] vtb_detailed_in_block [of t e "i * EDID_LENGTH"]
  by (auto simp: ext_detailed_def Let_def split: if_splits)

text \<open>
  Every descriptor that \<open>drm_for_each_detailed_block\<close> passes to its callback lies, with all of
  its 18 bytes, inside one block of the EDID and before that block's checksum, and the block is one
  of those that the base block counts, for any contents of the EDID (also for the wildest offsets
  in a CEA block). So the callbacks only touch bytes of the EDID.
\<close>

theorem drm_for_each_detailed_block_in_bounds:
  assumes "t \<in> set (drm_for_each_detailed_block e)"
  shows "\<exists>i \<le> edid_extensions e. i * EDID_LENGTH \<le> t \<and> t + 18 < Suc i * EDID_LENGTH"
proof -
  consider k where "k < 4" "t = 54 + 18 * k" | i where "1 \<le> i" "i \<le> edid_extensions e" "t \<in> set (ext_detailed e i)"
    using assms by (auto simp: drm_for_each_detailed_block_def simp del: upt_Suc)
  then show ?thesis
  proof cases
    case 1
    then show ?thesis by (intro exI [of _ 0]) (simp add: EDID_LENGTH_def)
  next
    case 2
    then show ?thesis using ext_detailed_in_block [OF 2(3)] by (intro exI [of _ i]) (simp add: EDID_LENGTH_def)
  qed
qed

theorem drm_for_each_detailed_block_in_bounds_witness:
  "\<exists>i \<le> edid_extensions (sample_base 0). i * EDID_LENGTH \<le> 108 \<and> 108 + 18 < Suc i * EDID_LENGTH"
proof (rule drm_for_each_detailed_block_in_bounds)
  have "(108 :: nat) \<in> set (map (\<lambda>i. 54 + 18 * i) [0..<4])" by code_simp
  then show "108 \<in> set (drm_for_each_detailed_block (sample_base 0))"
    unfolding drm_for_each_detailed_block_def set_append by (rule UnI1)
qed

subsection \<open>The walk over the data blocks\<close>

definition db_end :: "u8 list \<Rightarrow> nat \<Rightarrow> nat" where
  "db_end cea i = i + cea_db_payload_len (cea ! i) + 1"

lemma cea_dbs_bounds:
  "x \<in> set (for_each_cea_db cea i fin) \<Longrightarrow> i \<le> x \<and> db_end cea x \<le> fin"
proof (induction cea i fin rule: for_each_cea_db.induct)
  case (1 cea i fin)
  show ?case
  proof (cases "i < fin \<and> i + cea_db_payload_len (cea ! i) < fin")
    case True
    then have "x = i \<or> x \<in> set (for_each_cea_db cea (i + cea_db_payload_len (cea ! i) + 1) fin)"
      using "1.prems" for_each_cea_db.simps [of cea i fin] by simp
    then show ?thesis using "1.IH" True by (auto simp: db_end_def)
  next
    case False
    then show ?thesis using "1.prems" for_each_cea_db.simps [of cea i fin] by simp
  qed
qed

lemma cea_dbs_disjoint: "sorted_wrt (\<lambda>x y. db_end cea x \<le> y) (for_each_cea_db cea i fin)"
proof (induction cea i fin rule: for_each_cea_db.induct)
  case (1 cea i fin)
  show ?case
  proof (cases "i < fin \<and> i + cea_db_payload_len (cea ! i) < fin")
    case True
    then show ?thesis
      using "1.IH" cea_dbs_bounds for_each_cea_db.simps [of cea i fin] by (auto simp: db_end_def)
  next
    case False
    then have "for_each_cea_db cea i fin = []" by (subst for_each_cea_db.simps) auto
    then show ?thesis by simp
  qed
qed

text \<open>
  Claim C29. The walk over the data blocks of a CEA extension ends for every contents of the block, visits
  pairwise disjoint data blocks in increasing order, and reads only bytes 4 to 126; when the block
  has detailed timings (byte 2 is not 0), no byte belongs to both a data block and a detailed timing.
\<close>

theorem for_each_cea_db_correct:
  assumes "cea_db_offsets (block_at e k) = Inr (start, fin)" "Suc k * EDID_LENGTH \<le> length e"
    and "dbs = for_each_cea_db (block_at e k) start fin"
  shows "sorted_wrt (\<lambda>x y. db_end (block_at e k) x \<le> y) dbs \<and> length dbs \<le> 123 \<and>
    (\<forall>x \<in> set dbs. 4 \<le> x \<and> db_end (block_at e k) x \<le> 127 \<and>
       (block_at e k ! 2 \<noteq> 0 \<longrightarrow> (\<forall>t \<in> set (cea_for_each_detailed_block e (k * EDID_LENGTH)).
          k * EDID_LENGTH + db_end (block_at e k) x \<le> t)))"
proof -
  let ?cea = "block_at e k"
  have o: "start = 4" "fin = (if ?cea ! 2 = 0 then 127 else unat (?cea ! 2))" "fin \<le> 127"
    using assms(1) by (auto simp: cea_db_offsets_def Let_def unat_eq_zero split: if_splits)
  have x: "4 \<le> x \<and> db_end ?cea x \<le> fin" if "x \<in> set dbs" for x
    using cea_dbs_bounds that assms(3) o(1) by blast
  have s: "sorted_wrt (\<lambda>x y. db_end ?cea x \<le> y) dbs" unfolding assms(3) by (rule cea_dbs_disjoint)
  have "sorted_wrt (<) dbs" using s by (rule sorted_wrt_mono_rel [rotated]) (simp add: db_end_def)
  then have "length dbs = card (set dbs)" by (metis distinct_card strict_sorted_iff)
  also have "set dbs \<subseteq> {4..<127}"
  proof
    fix y assume "y \<in> set dbs"
    from x [OF this] o(3) show "y \<in> {4..<127}" by (simp add: db_end_def)
  qed
  then have "card (set dbs) \<le> card {4..<127 :: nat}" by (intro card_mono) simp_all
  finally have l: "length dbs \<le> 123" by simp
  have "k * EDID_LENGTH + db_end ?cea y \<le> t"
    if y: "y \<in> set dbs" and n: "?cea ! 2 \<noteq> 0" and t: "t \<in> set (cea_for_each_detailed_block e (k * EDID_LENGTH))" for y t
  proof -
    have "?cea ! 2 = e ! (k * EDID_LENGTH + 2)" using assms(2) by (simp add: block_at_nth EDID_LENGTH_def)
    then show ?thesis using x [OF y] n o(2) cea_detailed_in_block(1) [OF t] by simp
  qed
  then show ?thesis using s l x o(3) by fastforce
qed

theorem for_each_cea_db_correct_witness:
  "for_each_cea_db (block_at (sample_base 1 @ sample_ext) 1) 4 127 \<noteq> [] \<and>
   length (for_each_cea_db (block_at (sample_base 1 @ sample_ext) 1) 4 127) \<le> 123"
proof -
  have o: "cea_db_offsets (block_at (sample_base 1 @ sample_ext) 1) = Inr (4, 127)" by code_simp
  moreover have "Suc 1 * EDID_LENGTH \<le> length (sample_base 1 @ sample_ext)" by code_simp
  ultimately have "length (for_each_cea_db (block_at (sample_base 1 @ sample_ext) 1) 4 127) \<le> 123"
    using for_each_cea_db_correct by blast
  moreover have "for_each_cea_db (block_at (sample_base 1 @ sample_ext) 1) 4 127 \<noteq> []"
    by (subst for_each_cea_db.simps) code_simp
  ultimately show ?thesis by blast
qed

text \<open>Where byte 2 is 0, which means that there are none, the header itself is taken for a timing.\<close>

lemma cea_no_timings_misread:
  "e ! (ext + 2) = 0 \<Longrightarrow> cea_for_each_detailed_block e ext = map (\<lambda>i. ext + 18 * i) [0..<7]"
  by (simp add: cea_for_each_detailed_block_def cdiv_def)

end
