(* ===== verification/Drm_Edid_Cea.thy ===== *)
theory Drm_Edid_Cea
  imports Drm_Edid_Blocks
begin

text \<open>
  What \<open>drm_edid.c\<close> reads from the CEA extension of an EDID: the ELD handed to the audio driver, the
  short audio descriptors, the HDMI vendor block, the audio and colour capabilities, and the display
  information. \<open>drm_connector\<close> holds the fields of \<open>struct drm_connector\<close> and \<open>struct drm_display_info\<close>
  that the EDID code sets. A copy into the ELD buffer that does not fit is \<open>Inl BUG\<close>.
\<close>

datatype color_format = RGB444 | YCRCB444 | YCRCB422

record drm_connector =
  probed_modes :: "drm_display_mode list"
  info_width_mm :: int
  info_height_mm :: int
  info_bpc :: int
  color_formats :: "color_format set"
  cea_rev :: u8
  eld :: "u8 list"
  dvi_dual :: bool
  max_tmds_clock :: int
  latency_present :: "bool \<times> bool"
  video_latency :: "int \<times> int"
  audio_latency :: "int \<times> int"

definition MAX_ELD_BYTES :: nat where "MAX_ELD_BYTES = 128"

definition AUDIO_BLOCK :: nat where "AUDIO_BLOCK = 1"
definition VIDEO_BLOCK :: nat where "VIDEO_BLOCK = 2"
definition VENDOR_BLOCK :: nat where "VENDOR_BLOCK = 3"
definition SPEAKER_BLOCK :: nat where "SPEAKER_BLOCK = 4"
definition VIDEO_CAPABILITY_BLOCK :: nat where "VIDEO_CAPABILITY_BLOCK = 7"

lemmas block_tags = AUDIO_BLOCK_def VIDEO_BLOCK_def VENDOR_BLOCK_def SPEAKER_BLOCK_def VIDEO_CAPABILITY_BLOCK_def

subsection \<open>The HDMI vendor block\<close>

definition parse_hdmi_vsdb :: "drm_connector \<Rightarrow> u8 list \<Rightarrow> nat \<Rightarrow> drm_connector" where
  "parse_hdmi_vsdb c cea i =
     (let db = (\<lambda>k. cea ! (i + k)); len = cea_db_payload_len (db 0);
          c = (if len \<ge> 6 then c\<lparr>eld := (eld c)[5 := eld c ! 5 OR push_bit 1 (drop_bit 7 (db 6))],
                                 dvi_dual := (db 6 AND 1 \<noteq> 0)\<rparr> else c);
          c = (if len \<ge> 7 then c\<lparr>max_tmds_clock := uint (db 7) * 5\<rparr> else c);
          c = (if len \<ge> 8 then c\<lparr>latency_present := (drop_bit 7 (db 8) \<noteq> 0, drop_bit 6 (db 8) AND 1 \<noteq> 0)\<rparr> else c);
          c = (if len \<ge> 9 then c\<lparr>video_latency := (uint (db 9), snd (video_latency c))\<rparr> else c);
          c = (if len \<ge> 10 then c\<lparr>audio_latency := (uint (db 10), snd (audio_latency c))\<rparr> else c);
          c = (if len \<ge> 11 then c\<lparr>video_latency := (fst (video_latency c), uint (db 11))\<rparr> else c)
      in if len \<ge> 12 then c\<lparr>audio_latency := (fst (audio_latency c), uint (db 12))\<rparr> else c)"

definition cea_db_is_hdmi_vsdb :: "u8 list \<Rightarrow> nat \<Rightarrow> bool" where
  "cea_db_is_hdmi_vsdb cea i \<longleftrightarrow>
     cea_db_tag (cea ! i) = VENDOR_BLOCK \<and> cea_db_payload_len (cea ! i) \<ge> 5 \<and>
     uint (cea ! (i + 1)) + uint (cea ! (i + 2)) * 256 + uint (cea ! (i + 3)) * 65536 = 0x000C03"

subsection \<open>ELD\<close>

definition monitor_name :: "u8 list \<Rightarrow> nat \<Rightarrow> nat option \<Rightarrow> nat option" where
  "monitor_name e t data = (if e ! (t + 3) = 0xfc then Some (t + 5) else data)"

text \<open>The name up to the line feed.\<close>

definition eld_name :: "u8 list \<Rightarrow> u8 list" where
  "eld_name e =
     (case fold (monitor_name e) (drm_for_each_detailed_block e) None of
        None \<Rightarrow> []
      | Some p \<Rightarrow> takeWhile (\<lambda>b. b \<noteq> 0x0a) (map (\<lambda>k. e ! (p + k)) [0..<13]))"

definition eld_write :: "nat \<Rightarrow> u8 list \<Rightarrow> drm_connector \<Rightarrow> drm_connector result" where
  "eld_write off bs c =
     (if off + length bs \<le> length (eld c)
      then Inr (c\<lparr>eld := take off (eld c) @ bs @ drop (off + length bs) (eld c)\<rparr>) else Inl BUG)"

definition eld_set :: "nat \<Rightarrow> u8 \<Rightarrow> drm_connector \<Rightarrow> drm_connector" where
  "eld_set i v c = c\<lparr>eld := (eld c)[i := v]\<rparr>"

text \<open>One data block; the state carries \<open>sad_count\<close>.\<close>

definition eld_db :: "u8 list \<Rightarrow> nat \<Rightarrow> nat \<Rightarrow> drm_connector \<times> nat \<Rightarrow> (drm_connector \<times> nat) result" where
  "eld_db cea mnl i st =
     (case st of (c, sad_count) \<Rightarrow>
        let dbl = cea_db_payload_len (cea ! i); tag = cea_db_tag (cea ! i)
        in if tag = AUDIO_BLOCK then
             (let sad_count = dbl div 3
              in if dbl \<ge> 1
                 then (case eld_write (20 + mnl) (map (\<lambda>k. cea ! (i + 1 + k)) [0..<dbl]) c of
                         Inl err \<Rightarrow> Inl err | Inr c \<Rightarrow> Inr (c, sad_count))
                 else Inr (c, sad_count))
           else if tag = SPEAKER_BLOCK then Inr (if dbl \<ge> 1 then eld_set 7 (cea ! (i + 1)) c else c, sad_count)
           else if tag = VENDOR_BLOCK then Inr (if cea_db_is_hdmi_vsdb cea i then parse_hdmi_vsdb c cea i else c, sad_count)
           else Inr (c, sad_count))"

definition drm_edid_to_eld :: "drm_connector \<Rightarrow> u8 list \<Rightarrow> drm_connector result" where
  "drm_edid_to_eld c e =
     (let c = c\<lparr>eld := replicate MAX_ELD_BYTES 0\<rparr>
      in (case drm_find_cea_extension e of
            None \<Rightarrow> Inr c
          | Some k \<Rightarrow>
              let cea = block_at e k; mnl = length (eld_name e)
              in (case eld_write 20 (eld_name e) c of
                    Inl err \<Rightarrow> Inl err
                  | Inr c \<Rightarrow>
                      let c = eld_set 4 (push_bit 5 (cea ! 1) OR word_of_nat mnl) c;
                          c = eld_set 0 (push_bit 3 2) c;
                          c = eld_set 16 (e ! 8) c; c = eld_set 17 (e ! 9) c;
                          c = eld_set 18 (e ! 10) c; c = eld_set 19 (e ! 11) c;
                          dbs = (if cea_revision cea \<ge> 3
                                 then (case cea_db_offsets cea of Inl _ \<Rightarrow> for_each_cea_db cea 0 0
                                       | Inr (start, fin) \<Rightarrow> for_each_cea_db cea start fin)
                                 else [])
                      in (case fold_res (eld_db cea mnl) dbs (c, 0) of
                            Inl err \<Rightarrow> Inl err
                          | Inr (c, sad_count) \<Rightarrow>
                              let c = eld_set 5 (eld c ! 5 OR push_bit 4 (word_of_nat sad_count)) c
                              in Inr (eld_set 2 (word_of_nat ((20 + mnl + sad_count * 3 + 3) div 4)) c)))))"

subsection \<open>Short audio descriptors\<close>

record cea_sad =
  sad_format :: u8
  sad_channels :: u8
  sad_freq :: u8
  sad_byte2 :: u8

definition decode_sad :: "u8 list \<Rightarrow> nat \<Rightarrow> cea_sad" where
  "decode_sad cea p =
     \<lparr>sad_format = drop_bit 3 (cea ! p AND 0x78), sad_channels = cea ! p AND 0x7,
      sad_freq = cea ! (p + 1) AND 0x7F, sad_byte2 = cea ! (p + 2)\<rparr>"

text \<open>\<open>alloc\<close> says whether \<open>kcalloc\<close> succeeds; the result is the returned count with the table.\<close>

definition drm_edid_to_sad :: "bool \<Rightarrow> u8 list \<Rightarrow> cea_sad list result" where
  "drm_edid_to_sad alloc e =
     (case drm_find_cea_extension e of
        None \<Rightarrow> Inl ENOENT
      | Some k \<Rightarrow>
          let cea = block_at e k
          in if cea_revision cea < 3 then Inl ENOTSUP
             else (case cea_db_offsets cea of
                     Inl _ \<Rightarrow> Inl EPROTO
                   | Inr (start, fin) \<Rightarrow>
                       (case find (\<lambda>i. cea_db_tag (cea ! i) = AUDIO_BLOCK) (for_each_cea_db cea start fin) of
                          None \<Rightarrow> Inr []
                        | Some i \<Rightarrow>
                            let count = cea_db_payload_len (cea ! i) div 3
                            in if alloc then Inr (map (\<lambda>j. decode_sad cea (i + 1 + j * 3)) [0..<count]) else Inl ENOMEM)))"

subsection \<open>Latencies and capabilities\<close>

definition drm_av_sync_delay :: "drm_connector \<Rightarrow> drm_display_mode \<Rightarrow> int" where
  "drm_av_sync_delay c mode =
     (if \<not> fst (latency_present c) then 0
      else let second = (FLAG_INTERLACE \<in> flags mode \<and> snd (latency_present c));
               a = (if second then snd (audio_latency c) else fst (audio_latency c));
               v = (if second then snd (video_latency c) else fst (video_latency c))
           in if a = 255 \<or> v = 255 then 0
              else let a = (if a \<noteq> 0 then min (2 * (a - 1)) 500 else a);
                       v = (if v \<noteq> 0 then min (2 * (v - 1)) 500 else v)
                   in max (v - a) 0)"

text \<open>Connectors with the encoder they are driven by.\<close>

fun drm_select_eld :: "'enc \<Rightarrow> ('enc option \<times> drm_connector) list \<Rightarrow> drm_connector option" where
  "drm_select_eld encoder [] = None"
| "drm_select_eld encoder ((enc, c) # cs) =
     (if enc = Some encoder \<and> eld c ! 0 \<noteq> 0 then Some c else drm_select_eld encoder cs)"

definition drm_detect_hdmi_monitor :: "u8 list \<Rightarrow> bool" where
  "drm_detect_hdmi_monitor e =
     (case drm_find_cea_extension e of
        None \<Rightarrow> False
      | Some k \<Rightarrow>
          (case cea_db_offsets (block_at e k) of
             Inl _ \<Rightarrow> False
           | Inr (start, fin) \<Rightarrow> list_ex (cea_db_is_hdmi_vsdb (block_at e k)) (for_each_cea_db (block_at e k) start fin)))"

definition drm_detect_monitor_audio :: "u8 list \<Rightarrow> bool" where
  "drm_detect_monitor_audio e =
     (case drm_find_cea_extension e of
        None \<Rightarrow> False
      | Some k \<Rightarrow>
          let cea = block_at e k
          in if cea ! 3 AND 0x40 \<noteq> 0 then True
             else (case cea_db_offsets cea of
                     Inl _ \<Rightarrow> False
                   | Inr (start, fin) \<Rightarrow> list_ex (\<lambda>i. cea_db_tag (cea ! i) = AUDIO_BLOCK) (for_each_cea_db cea start fin)))"

definition drm_rgb_quant_range_selectable :: "u8 list \<Rightarrow> bool" where
  "drm_rgb_quant_range_selectable e =
     (case drm_find_cea_extension e of
        None \<Rightarrow> False
      | Some k \<Rightarrow>
          let cea = block_at e k
          in (case cea_db_offsets cea of
                Inl _ \<Rightarrow> False
              | Inr (start, fin) \<Rightarrow>
                  (case find (\<lambda>i. cea_db_tag (cea ! i) = VIDEO_CAPABILITY_BLOCK \<and> cea_db_payload_len (cea ! i) = 2)
                          (for_each_cea_db cea start fin) of
                     None \<Rightarrow> False
                   | Some i \<Rightarrow> cea ! (i + 2) AND 0x40 \<noteq> 0)))"

definition drm_add_display_info :: "u8 list \<Rightarrow> drm_connector \<Rightarrow> drm_connector" where
  "drm_add_display_info e c =
     (let c = c\<lparr>info_width_mm := uint (edid_width_cm e) * 10, info_height_mm := uint (edid_height_cm e) * 10,
                info_bpc := 0, color_formats := {}\<rparr>
      in if edid_revision e < 3 \<or> edid_input e AND 0x80 = 0 then c
         else let c = (case drm_find_cea_extension e of
                         None \<Rightarrow> c
                       | Some k \<Rightarrow>
                           let ext = block_at e k
                           in c\<lparr>cea_rev := ext ! 1,
                                color_formats := {RGB444} \<union> (if ext ! 3 AND 0x20 \<noteq> 0 then {YCRCB444} else {}) \<union>
                                  (if ext ! 3 AND 0x10 \<noteq> 0 then {YCRCB422} else {})\<rparr>)
              in if edid_revision e < 4 then c
                 else let depth = edid_input e AND 0x70
                      in c\<lparr>info_bpc := (if depth = 0x10 then 6 else if depth = 0x20 then 8 else if depth = 0x30 then 10
                                        else if depth = 0x40 then 12 else if depth = 0x50 then 14
                                        else if depth = 0x60 then 16 else 0),
                           color_formats := color_formats c \<union> {RGB444} \<union>
                             (if edid_features e AND 0x08 \<noteq> 0 then {YCRCB444} else {}) \<union>
                             (if edid_features e AND 0x10 \<noteq> 0 then {YCRCB422} else {})\<rparr>)"

subsection \<open>The ELD\<close>

lemma payload_len_le: "cea_db_payload_len b \<le> 31"
proof -
  have "b AND 0x1f \<le> 0x1f" by (rule word_and_le1)
  then show ?thesis by (simp add: cea_db_payload_len_def word_le_nat_alt)
qed

lemma eld_name_le: "length (eld_name e) \<le> 13"
  using length_takeWhile_le [of _ "map (\<lambda>k. e ! (p + k)) [0..<13]" for p]
  by (auto simp: eld_name_def split: option.splits intro: order_trans)

lemma byte_top_bit: "push_bit 1 (drop_bit 7 (b :: u8)) = 0 \<or> push_bit 1 (drop_bit 7 b) = 2"
proof -
  have "unat b < 2 ^ LENGTH(8)" by (rule unsigned_less)
  then have "unat (drop_bit 7 b) < 2" by (simp add: drop_bit_eq_div unat_div less_mult_imp_div_less)
  then have "drop_bit 7 b = 0 \<or> drop_bit 7 b = 1"
    by (metis less_2_cases unat_eq_zero word_unat_eq_iff unat_1 One_nat_def)
  then show ?thesis by auto
qed

definition audio_dbs :: "u8 list \<Rightarrow> nat list \<Rightarrow> nat list" where
  "audio_dbs cea dbs = filter (\<lambda>i. cea_db_tag (cea ! i) = AUDIO_BLOCK) dbs"

text \<open>The header fields that are set before the data blocks are read, and the audio data read so far.\<close>

definition eld_inv :: "u8 list \<Rightarrow> u8 \<Rightarrow> u8 list \<Rightarrow> nat list \<Rightarrow> drm_connector \<times> nat \<Rightarrow> bool" where
  "eld_inv cea w nm dbs st \<longleftrightarrow>
     (case st of (c, sad) \<Rightarrow>
        length (eld c) = MAX_ELD_BYTES \<and> eld c ! 0 = 16 \<and> eld c ! 4 = w \<and> take (length nm) (drop 20 (eld c)) = nm \<and>
        (eld c ! 5 = 0 \<or> eld c ! 5 = 2) \<and>
        (if audio_dbs cea dbs = [] then sad = 0
         else let i = last (audio_dbs cea dbs); len = cea_db_payload_len (cea ! i)
              in sad = len div 3 \<and>
                 take len (drop (20 + length nm) (eld c)) = map (\<lambda>k. cea ! (i + 1 + k)) [0..<len]))"

lemma eld_inv_low:
  assumes "eld_inv cea w nm dbs (c, sad)" "audio_dbs cea dbs' = audio_dbs cea dbs"
    and "eld c' = (eld c)[i := v]" "i = 7 \<or> i = 5 \<and> (v = 0 \<or> v = 2)"
  shows "eld_inv cea w nm dbs' (c', sad)"
proof -
  have "drop n ((eld c)[i := v]) = drop n (eld c)" if "20 \<le> n" for n using that assms(4) by auto
  moreover have "length (eld c) = 128" using assms(1) by (simp add: eld_inv_def MAX_ELD_BYTES_def)
  ultimately show ?thesis
    using assms by (auto simp: eld_inv_def Let_def nth_list_update split: if_splits)
qed

lemma parse_hdmi_vsdb_eld:
  "eld (parse_hdmi_vsdb c cea i) = eld c \<or>
   eld (parse_hdmi_vsdb c cea i) = (eld c)[5 := eld c ! 5 OR push_bit 1 (drop_bit 7 (cea ! (i + 6)))]"
  by (auto simp: parse_hdmi_vsdb_def Let_def)

lemma eld_db_step:
  assumes inv: "eld_inv cea w nm dbs st" and nm: "length nm \<le> 13"
  shows "\<exists>st'. eld_db cea (length nm) i st = Inr st' \<and> eld_inv cea w nm (dbs @ [i]) st'"
proof -
  obtain c sad where st: "st = (c, sad)" by fastforce
  note inv = inv [unfolded st]
  let ?len = "cea_db_payload_len (cea ! i)" and ?bs = "map (\<lambda>k. cea ! (i + 1 + k)) [0..<cea_db_payload_len (cea ! i)]"
  have len: "length (eld c) = 128" "?len \<le> 31" using inv payload_len_le by (auto simp: eld_inv_def MAX_ELD_BYTES_def)
  show ?thesis
  proof (cases "cea_db_tag (cea ! i) = AUDIO_BLOCK")
    case True
    then have a: "audio_dbs cea (dbs @ [i]) = audio_dbs cea dbs @ [i]" by (simp add: audio_dbs_def)
    show ?thesis
    proof (cases "?len \<ge> 1")
      case True': True
      let ?e = "take (20 + length nm) (eld c) @ ?bs @ drop (20 + length nm + ?len) (eld c)"
      have w: "eld_write (20 + length nm) ?bs c = Inr (c\<lparr>eld := ?e\<rparr>)" using len nm by (simp add: eld_write_def)
      have "?e ! k = eld c ! k" if "k < 20" for k using that len by (simp add: nth_append)
      moreover have "take (length nm) (drop 20 ?e) = take (length nm) (drop 20 (eld c))"
        using len nm by (simp add: drop_take)
      moreover have "take ?len (drop (20 + length nm) ?e) = ?bs" using len nm by simp
      moreover have "length ?e = 128" using len nm by simp
      ultimately have "eld_inv cea w nm (dbs @ [i]) (c\<lparr>eld := ?e\<rparr>, ?len div 3)"
        using inv unfolding eld_inv_def a by (simp add: MAX_ELD_BYTES_def)
      then show ?thesis using w True True' st by (simp add: eld_db_def Let_def)
    next
      case False
      then show ?thesis using inv True st a by (simp add: eld_db_def eld_inv_def Let_def)
    qed
  next
    case False
    then have a: "audio_dbs cea (dbs @ [i]) = audio_dbs cea dbs" by (simp add: audio_dbs_def)
    have keep: "eld_inv cea w nm (dbs @ [i]) (c', sad)" if "eld c' = eld c" for c'
      using inv unfolding eld_inv_def prod.case that a .
    have "eld_inv cea w nm (dbs @ [i]) (eld_set 7 v c, sad)" for v
      by (rule eld_inv_low [OF inv a, where i = 7 and v = v]) (simp_all add: eld_set_def)
    moreover have "eld_inv cea w nm (dbs @ [i]) (parse_hdmi_vsdb c cea i, sad)"
      using parse_hdmi_vsdb_eld [of c cea i]
    proof
      assume p: "eld (parse_hdmi_vsdb c cea i) = (eld c)[5 := eld c ! 5 OR push_bit 1 (drop_bit 7 (cea ! (i + 6)))]"
      have "eld c ! 5 = 0 \<or> eld c ! 5 = 2" using inv by (simp add: eld_inv_def)
      with byte_top_bit [of "cea ! (i + 6)"] show ?thesis by (intro eld_inv_low [OF inv a p]) auto
    qed (rule keep)
    ultimately show ?thesis using False keep [of c] st by (auto simp: eld_db_def Let_def)
  qed
qed

text \<open>
  The data blocks that \<open>drm_edid_to_eld\<close> looks at.
\<close>

definition eld_dbs :: "u8 list \<Rightarrow> nat list" where
  "eld_dbs cea =
     (if cea_revision cea \<ge> 3
      then (case cea_db_offsets cea of Inl _ \<Rightarrow> [] | Inr (start, fin) \<Rightarrow> for_each_cea_db cea start fin) else [])"

lemma eld_len_field: "mnl \<le> 13 \<Longrightarrow> sad \<le> 10 \<Longrightarrow> unat (word_of_nat ((20 + mnl + sad * 3 + 3) div 4) :: u8) = (23 + mnl + 3 * sad) div 4"
  by (simp add: unat_of_nat algebra_simps)

lemma eld_sad_field:
  assumes "b = 0 \<or> b = 2" "sad \<le> 10"
  shows "unat (drop_bit 4 ((b :: u8) OR push_bit 4 (word_of_nat sad))) = sad"
proof -
  have "drop_bit 4 ((b :: u8) OR push_bit 4 (word_of_nat n)) = word_of_nat n" if "n \<in> set [0..<11]" for n
    using that assms(1) by (auto simp: upt_rec)
  with assms(2) show ?thesis by (simp add: unat_of_nat)
qed

lemma eld_mnl_field:
  assumes "n \<le> 13"
  shows "unat ((push_bit 5 v OR word_of_nat n) AND 0x1f :: u8) = n"
proof -
  have m: "(0x1f :: u8) = mask 5" by (simp add: mask_eq_exp_minus_1)
  have "take_bit 5 n = n" using assms by (simp add: take_bit_nat_eq_self)
  then have "take_bit 5 (word_of_nat n :: u8) = word_of_nat n" by (simp add: take_bit_of_nat)
  then have "take_bit 5 (push_bit 5 v OR word_of_nat n :: u8) = word_of_nat n" by (simp add: take_bit_push_bit)
  then show ?thesis unfolding m using assms by (simp add: take_bit_eq_mask [symmetric] unat_of_nat)
qed

lemma eld_init_inv:
  assumes "length nm \<le> 13" "eld_write 20 nm (c\<lparr>eld := replicate MAX_ELD_BYTES 0\<rparr>) = Inr c1"
    and "c2 = eld_set 19 b19 (eld_set 18 b18 (eld_set 17 b17 (eld_set 16 b16 (eld_set 0 (push_bit 3 2) (eld_set 4 w c1)))))"
  shows "eld_inv cea w nm [] (c2, 0)"
proof -
  have e1: "eld c1 = replicate 20 0 @ nm @ replicate (108 - length nm) 0"
    using assms(1,2) by (auto simp: eld_write_def MAX_ELD_BYTES_def)
  let ?e = "(eld c1)[4 := w, 0 := push_bit 3 2, 16 := b16, 17 := b17, 18 := b18, 19 := b19]"
  have e2: "eld c2 = ?e" unfolding assms(3) by (simp add: eld_set_def)
  have "drop 20 ?e = drop 20 (eld c1)" by simp
  moreover have "length ?e = 128" using assms(1) by (simp add: e1)
  moreover have "?e ! 0 = 16" "?e ! 4 = w" "?e ! 5 = 0" using assms(1) by (simp_all add: e1 nth_append)
  ultimately show ?thesis unfolding eld_inv_def e2 prod.case by (simp add: e1 audio_dbs_def MAX_ELD_BYTES_def)
qed

text \<open>The last two assignments, to the bytes 5 and 2.\<close>

lemma eld_final:
  assumes "eld_inv cea w nm dbs (c, sad)" "length nm \<le> 13"
    and "c' = eld_set 2 (word_of_nat ((20 + length nm + sad * 3 + 3) div 4)) (eld_set 5 (eld c ! 5 OR push_bit 4 (word_of_nat sad)) c)"
    and "audio = audio_dbs cea dbs"
  shows "length (eld c') = MAX_ELD_BYTES \<and> eld c' ! 0 = 16 \<and> eld c' ! 4 = w \<and>
    sad = (if audio = [] then 0 else cea_db_payload_len (cea ! last audio) div 3) \<and>
    take (length nm) (drop 20 (eld c')) = nm \<and> unat (drop_bit 4 (eld c' ! 5)) = sad \<and>
    unat (eld c' ! 2) = (23 + length nm + 3 * sad) div 4 \<and>
    take (3 * sad) (drop (20 + length nm) (eld c')) =
      (if audio = [] then [] else map (\<lambda>k. cea ! (last audio + 1 + k)) [0..<3 * sad])"
proof -
  have b: "eld c ! 5 = 0 \<or> eld c ! 5 = 2" and l: "length (eld c) = 128"
    and n: "take (length nm) (drop 20 (eld c)) = nm" and h: "eld c ! 0 = 16" "eld c ! 4 = w"
    using assms(1) by (auto simp: eld_inv_def MAX_ELD_BYTES_def)
  have s: "sad = (if audio = [] then 0 else cea_db_payload_len (cea ! last audio) div 3)"
    using assms(1,4) by (auto simp: eld_inv_def Let_def split: if_splits)
  then have sad: "sad \<le> 10" using payload_len_le [of "cea ! last audio"] by auto
  have e': "eld c' = (eld c)[5 := eld c ! 5 OR push_bit 4 (word_of_nat sad), 2 := word_of_nat ((20 + length nm + sad * 3 + 3) div 4)]"
    unfolding assms(3) by (simp add: eld_set_def)
  have d: "drop k (eld c') = drop k (eld c)" if "20 \<le> k" for k using that by (simp add: e')
  have "take (3 * sad) (drop (20 + length nm) (eld c)) = (if audio = [] then [] else map (\<lambda>k. cea ! (last audio + 1 + k)) [0..<3 * sad])"
  proof (cases "audio = []")
    case True
    then show ?thesis using s by simp
  next
    case False
    let ?len = "cea_db_payload_len (cea ! last audio)"
    have "take ?len (drop (20 + length nm) (eld c)) = map (\<lambda>k. cea ! (last audio + 1 + k)) [0..<?len]"
      using assms(1,4) False by (simp add: eld_inv_def Let_def)
    then have "take (3 * sad) (take ?len (drop (20 + length nm) (eld c))) = take (3 * sad) (map (\<lambda>k. cea ! (last audio + 1 + k)) [0..<?len])"
      by simp
    moreover have "3 * sad \<le> ?len" using s False by simp
    ultimately show ?thesis using False by (simp add: min_absorb1 take_map)
  qed
  moreover have "eld c' ! 5 = eld c ! 5 OR push_bit 4 (word_of_nat sad)" "eld c' ! 2 = word_of_nat ((20 + length nm + sad * 3 + 3) div 4)"
    "eld c' ! 0 = 16" "eld c' ! 4 = w" "length (eld c') = 128"
    using l h by (simp_all add: e')
  ultimately show ?thesis
    using s n d eld_sad_field [OF b sad] eld_len_field [OF assms(2) sad] by (simp add: MAX_ELD_BYTES_def)
qed

text \<open>
  Claim C36. \<open>drm_edid_to_eld\<close> writes inside the 128 bytes of the ELD only, whatever the EDID says. Without a
  CEA extension the ELD is cleared. Otherwise the version is 2, the length of the monitor name is in
  the low bits of byte 4 and the name follows at byte 20, the number of short audio descriptors is in
  the high bits of byte 5, their bytes, those of the last audio data block, follow the name, and byte 2
  is the length of all that in words of four bytes, rounded up.
\<close>

theorem drm_edid_to_eld_correct:
  "\<exists>c'. drm_edid_to_eld c e = Inr c' \<and> length (eld c') = MAX_ELD_BYTES \<and>
     (case drm_find_cea_extension e of
        None \<Rightarrow> eld c' = replicate MAX_ELD_BYTES 0
      | Some k \<Rightarrow>
          let cea = block_at e k; nm = eld_name e; audio = audio_dbs cea (eld_dbs cea);
              sad = (if audio = [] then 0 else cea_db_payload_len (cea ! last audio) div 3)
          in eld c' ! 0 = push_bit 3 2 \<and> unat (eld c' ! 4 AND 0x1f) = length nm \<and> take (length nm) (drop 20 (eld c')) = nm \<and>
             unat (drop_bit 4 (eld c' ! 5)) = sad \<and> unat (eld c' ! 2) = (23 + length nm + 3 * sad) div 4 \<and>
             take (3 * sad) (drop (20 + length nm) (eld c')) =
               (if audio = [] then [] else map (\<lambda>k. cea ! (last audio + 1 + k)) [0..<3 * sad]))"
proof (cases "drm_find_cea_extension e")
  case None
  then show ?thesis by (simp add: drm_edid_to_eld_def)
next
  case (Some k)
  let ?cea = "block_at e k" and ?nm = "eld_name e" and ?w = "push_bit 5 (block_at e k ! 1) OR word_of_nat (length (eld_name e)) :: u8"
  have nm: "length ?nm \<le> 13" by (rule eld_name_le)
  then obtain c1 where w1: "eld_write 20 ?nm (c\<lparr>eld := replicate MAX_ELD_BYTES 0\<rparr>) = Inr c1"
    by (simp add: eld_write_def MAX_ELD_BYTES_def)
  let ?c2 = "eld_set 19 (e ! 11) (eld_set 18 (e ! 10) (eld_set 17 (e ! 9) (eld_set 16 (e ! 8) (eld_set 0 (push_bit 3 2) (eld_set 4 ?w c1)))))"
  have i0: "eld_inv ?cea ?w ?nm [] (?c2, 0)" by (rule eld_init_inv [OF nm w1 refl])
  have "\<exists>st. fold_res (eld_db ?cea (length ?nm)) (eld_dbs ?cea) (?c2, 0) = Inr st \<and> eld_inv ?cea ?w ?nm ([] @ eld_dbs ?cea) st"
    by (rule fold_res_prefix [where I = "eld_inv ?cea ?w ?nm", OF i0]) (erule eld_db_step [OF _ nm])
  then obtain c3 sad where f: "fold_res (eld_db ?cea (length ?nm)) (eld_dbs ?cea) (?c2, 0) = Inr (c3, sad)"
    and i1: "eld_inv ?cea ?w ?nm (eld_dbs ?cea) (c3, sad)"
    unfolding append_Nil by (metis surj_pair)
  define c4 where "c4 = eld_set 2 (word_of_nat ((20 + length ?nm + sad * 3 + 3) div 4)) (eld_set 5 (eld c3 ! 5 OR push_bit 4 (word_of_nat sad)) c3)"
  have dbs: "(if cea_revision ?cea \<ge> 3
      then (case cea_db_offsets ?cea of Inl _ \<Rightarrow> for_each_cea_db ?cea 0 0 | Inr (start, fin) \<Rightarrow> for_each_cea_db ?cea start fin)
      else []) = eld_dbs ?cea"
    by (simp add: eld_dbs_def for_each_cea_db.simps [of ?cea 0 0] split: sum.split)
  have r: "drm_edid_to_eld c e = Inr c4"
    unfolding drm_edid_to_eld_def Let_def Some option.case w1 sum.case dbs f prod.case c4_def by (rule refl)
  note fin = eld_final [OF i1 nm c4_def refl]
  then have s: "(if audio_dbs ?cea (eld_dbs ?cea) = [] then 0 else cea_db_payload_len (?cea ! last (audio_dbs ?cea (eld_dbs ?cea))) div 3) = sad"
    by (metis (no_types, lifting))
  have p: "(push_bit 3 2 :: u8) = 16" by simp
  have m: "unat (eld c4 ! 4 AND 0x1f) = length ?nm" using fin eld_mnl_field [OF nm] by metis
  show ?thesis
    unfolding Some option.case Let_def s p by (intro exI [of _ c4] conjI r m) (use fin in blast)+
qed

end
