(* ===== verification/Drm_Edid_Modes.thy ===== *)
theory Drm_Edid_Modes
  imports Drm_Edid_Cea Drm_Modes_Gen
begin

text \<open>
  The modes a monitor's EDID announces, the third part of \<open>drm_edid.c\<close>: standard, detailed, CVT,
  established, inferred and CEA modes, collected on the connector's list of probed modes. The state
  is the connector with the outcomes of the coming calls of \<open>drm_mode_create\<close>: the object id that is
  assigned, or \<open>None\<close> when memory or an id is missing. \<open>drm_mode_detailed\<close> also changes the EDID, so
  it is threaded where that matters. \<open>Inl BUG\<close> is a division by zero.
\<close>

subsection \<open>Creating modes\<close>

definition drm_mode_create :: "int option list \<Rightarrow> drm_display_mode option \<times> int option list" where
  "drm_mode_create ids =
     (case ids of
        [] \<Rightarrow> (None, [])
      | None # ids' \<Rightarrow> (None, ids')
      | Some i # ids' \<Rightarrow> (Some (mode0\<lparr>base_id := i\<rparr>), ids'))"

definition drm_mode_probed_add :: "drm_connector \<Rightarrow> drm_display_mode \<Rightarrow> drm_connector" where
  "drm_mode_probed_add c m = c\<lparr>probed_modes := probed_modes c @ [m]\<rparr>"

text \<open>The state of the functions that add modes: connector, creations, and the number of modes added.\<close>

type_synonym added = "drm_connector \<times> int option list \<times> nat"

definition add_mode :: "drm_display_mode option \<Rightarrow> int option list \<Rightarrow> drm_connector \<Rightarrow> nat \<Rightarrow> added" where
  "add_mode newmode ids c modes =
     (case newmode of None \<Rightarrow> (c, ids, modes) | Some m \<Rightarrow> (drm_mode_probed_add c m, ids, modes + 1))"

definition mode_is_rb :: "drm_display_mode \<Rightarrow> bool" where
  "mode_is_rb mode \<longleftrightarrow> wrap32 (htotal mode - hdisplay mode) = 160 \<and> wrap32 (hsync_end mode - hdisplay mode) = 80 \<and>
     wrap32 (hsync_end mode - hsync_start mode) = 32 \<and> wrap32 (vsync_start mode - vdisplay mode) = 3"

definition drm_mode_find_dmt ::
  "int option list \<Rightarrow> int \<Rightarrow> int \<Rightarrow> int \<Rightarrow> bool \<Rightarrow> drm_display_mode option \<times> int option list" where
  "drm_mode_find_dmt ids hsize vsize fresh rb =
     (case find (\<lambda>p. hsize = hdisplay p \<and> vsize = vdisplay p \<and> fresh = drm_mode_vrefresh p \<and> rb = mode_is_rb p) drm_dmt_modes of
        None \<Rightarrow> (None, ids)
      | Some p \<Rightarrow> (case drm_mode_create ids of (created, ids') \<Rightarrow> (drm_mode_duplicate created p, ids')))"

subsection \<open>Standard timings\<close>

definition bad_std_timing :: "u8 \<Rightarrow> u8 \<Rightarrow> bool" where
  "bad_std_timing a b \<longleftrightarrow> a = 0x00 \<and> b = 0x00 \<or> a = 0x01 \<and> b = 0x01 \<or> a = 0x20 \<and> b = 0x20"

text \<open>Width and height from the two bytes of a standard timing, with the first part of the HDTV hack.\<close>

definition std_size :: "u8 \<Rightarrow> u8 \<Rightarrow> u8 \<Rightarrow> int \<times> int \<times> int" where
  "std_size hb vb revision =
     (let aspect_ratio = drop_bit 6 (vb AND 0xc0); vfreq = uint (vb AND 0x3f);
          hsize = uint hb * 8 + 248; vrefresh_rate = vfreq + 60;
          vsize = (if aspect_ratio = 0 then (if revision < 3 then hsize else hsize * 10 div 16)
                   else if aspect_ratio = 1 then hsize * 3 div 4
                   else if aspect_ratio = 2 then hsize * 4 div 5 else hsize * 9 div 16)
      in if vrefresh_rate = 60 \<and> (hsize = 1360 \<and> vsize = 765 \<or> hsize = 1368 \<and> vsize = 769)
         then (1366, 768, vrefresh_rate) else (hsize, vsize, vrefresh_rate))"

text \<open>The last part: generate the mode with the formula of the monitor.\<close>

definition std_generate ::
  "int option list \<Rightarrow> u8 list \<Rightarrow> timing_level \<Rightarrow> int \<Rightarrow> int \<Rightarrow> int \<Rightarrow> (drm_display_mode option \<times> int option list) result" where
  "std_generate ids e timing_level hsize vsize rate =
     (case timing_level of
        LEVEL_DMT \<Rightarrow> Inr (None, ids)
      | LEVEL_GTF \<Rightarrow>
          (case drm_mode_create ids of (created, ids) \<Rightarrow>
             (case drm_gtf_mode created hsize vsize rate False False of Inl err \<Rightarrow> Inl err | Inr m \<Rightarrow> Inr (m, ids)))
      | LEVEL_GTF2 \<Rightarrow>
          (case drm_mode_create ids of (created, ids) \<Rightarrow>
             (case drm_gtf_mode created hsize vsize rate False False of
                Inl err \<Rightarrow> Inl err
              | Inr None \<Rightarrow> Inr (None, ids)
              | Inr (Some m) \<Rightarrow>
                  (case drm_mode_hsync m of
                     Inl err \<Rightarrow> Inl err
                   | Inr hs \<Rightarrow>
                       if hs > drm_gtf2_hbreak e
                       then (case drm_mode_create ids of (created, ids) \<Rightarrow>
                               (case drm_gtf_mode_complex created hsize vsize rate False False (drm_gtf2_m e) (drm_gtf2_2c e)
                                       (drm_gtf2_k e) (drm_gtf2_2j e) of
                                  Inl err \<Rightarrow> Inl err | Inr m \<Rightarrow> Inr (m, ids)))
                       else Inr (Some m, ids))))
      | LEVEL_CVT \<Rightarrow>
          (case drm_mode_create ids of (created, ids) \<Rightarrow>
             (case drm_cvt_mode created hsize vsize rate False False False of Inl err \<Rightarrow> Inl err | Inr m \<Rightarrow> Inr (m, ids))))"

definition drm_mode_std ::
  "drm_connector \<Rightarrow> int option list \<Rightarrow> u8 list \<Rightarrow> nat \<Rightarrow> u8 \<Rightarrow> (drm_display_mode option \<times> int option list) result" where
  "drm_mode_std c ids e t revision =
     (let hb = e ! t; vb = e ! (t + 1); timing_level = standard_timing_level e
      in if bad_std_timing hb vb then Inr (None, ids)
         else (case std_size hb vb revision of (hsize, vsize, rate) \<Rightarrow>
            if list_ex (\<lambda>m. hdisplay m = hsize \<and> vdisplay m = vsize \<and> drm_mode_vrefresh m = rate) (probed_modes c)
            then Inr (None, ids)
            else if hsize = 1366 \<and> vsize = 768 \<and> rate = 60 then
              (case drm_mode_create ids of (created, ids) \<Rightarrow>
                 (case drm_cvt_mode created 1366 768 rate False False False of
                    Inl err \<Rightarrow> Inl err
                  | Inr None \<Rightarrow> Inr (None, ids)
                  | Inr (Some m) \<Rightarrow>
                      Inr (Some (m\<lparr>hdisplay := 1366, hsync_start := wrap32 (hsync_start m - 1), hsync_end := wrap32 (hsync_end m - 1)\<rparr>), ids)))
            else (case (if drm_monitor_supports_rb e then drm_mode_find_dmt ids hsize vsize rate True else (None, ids)) of
                    (Some m, ids) \<Rightarrow> Inr (Some m, ids)
                  | (None, ids) \<Rightarrow>
                      (case drm_mode_find_dmt ids hsize vsize rate False of
                         (Some m, ids) \<Rightarrow> Inr (Some m, ids)
                       | (None, ids) \<Rightarrow> std_generate ids e timing_level hsize vsize rate))))"

subsection \<open>Detailed timings\<close>

definition cea_interlaced :: "(int \<times> int) list" where
  "cea_interlaced = [(1920, 1080), (720, 480), (1440, 480), (2880, 480), (720, 576), (1440, 576), (2880, 576)]"

definition interlace_step :: "int \<times> int \<Rightarrow> drm_display_mode \<Rightarrow> drm_display_mode" where
  "interlace_step wh mode =
     (if hdisplay mode = fst wh \<and> vdisplay mode = cdiv (snd wh) 2
      then mode\<lparr>vdisplay := wrap32 (vdisplay mode * 2), vsync_start := wrap32 (vsync_start mode * 2),
                vsync_end := wrap32 (vsync_end mode * 2), vtotal := wrap32 (vtotal mode * 2) OR 1\<rparr>
      else mode)"

definition drm_mode_do_interlace_quirk :: "drm_display_mode \<Rightarrow> u8 \<Rightarrow> drm_display_mode" where
  "drm_mode_do_interlace_quirk mode misc =
     (if misc AND 0x80 = 0 then mode
      else let mode = fold interlace_step cea_interlaced mode in mode\<lparr>flags := flags mode \<union> {FLAG_INTERLACE}\<rparr>)"

text \<open>The fields of \<open>struct detailed_pixel_timing\<close>, at byte 2 of the descriptor, put together.\<close>

record pixel_timing =
  pt_hactive :: int
  pt_vactive :: int
  pt_hblank :: int
  pt_vblank :: int
  pt_hsync_offset :: int
  pt_hsync_pulse_width :: int
  pt_vsync_offset :: int
  pt_vsync_pulse_width :: int
  pt_width_mm :: int
  pt_height_mm :: int

definition decode_pixel_timing :: "u8 list \<Rightarrow> nat \<Rightarrow> pixel_timing" where
  "decode_pixel_timing e t =
     (let B = (\<lambda>k. uint (e ! (t + k)))
      in \<lparr>pt_hactive = push_bit 4 (B 4 AND 0xf0) OR B 2,
          pt_vactive = push_bit 4 (B 7 AND 0xf0) OR B 5,
          pt_hblank = push_bit 8 (B 4 AND 0xf) OR B 3,
          pt_vblank = push_bit 8 (B 7 AND 0xf) OR B 6,
          pt_hsync_offset = push_bit 2 (B 11 AND 0xc0) OR B 8,
          pt_hsync_pulse_width = push_bit 4 (B 11 AND 0x30) OR B 9,
          pt_vsync_offset = drop_bit 2 (B 11 AND 0xc) OR drop_bit 4 (B 10),
          pt_vsync_pulse_width = push_bit 4 (B 11 AND 0x3) OR (B 10 AND 0xf),
          pt_width_mm = B 12 OR push_bit 4 (B 14 AND 0xf0),
          pt_height_mm = B 13 OR push_bit 8 (B 14 AND 0xf)\<rparr>)"

text \<open>The mode from the fields, with the totals corrected.\<close>

definition detailed_timings :: "pixel_timing \<Rightarrow> int \<Rightarrow> drm_display_mode \<Rightarrow> drm_display_mode" where
  "detailed_timings p clk mode =
     (let mode = mode\<lparr>clock := clk, hdisplay := pt_hactive p,
                       hsync_start := pt_hactive p + pt_hsync_offset p,
                       hsync_end := pt_hactive p + pt_hsync_offset p + pt_hsync_pulse_width p,
                       htotal := pt_hactive p + pt_hblank p, vdisplay := pt_vactive p,
                       vsync_start := pt_vactive p + pt_vsync_offset p,
                       vsync_end := pt_vactive p + pt_vsync_offset p + pt_vsync_pulse_width p,
                       vtotal := pt_vactive p + pt_vblank p\<rparr>;
          mode = (if hsync_end mode > htotal mode then mode\<lparr>htotal := hsync_end mode + 1\<rparr> else mode)
      in if vsync_end mode > vtotal mode then mode\<lparr>vtotal := vsync_end mode + 1\<rparr> else mode)"

text \<open>From the label \<open>set_size\<close> on.\<close>

definition detailed_size :: "u8 list \<Rightarrow> pixel_timing \<Rightarrow> edid_quirk_bit set \<Rightarrow> drm_display_mode \<Rightarrow> drm_display_mode" where
  "detailed_size e p quirks mode =
     (let mode = mode\<lparr>width_mm := pt_width_mm p, height_mm := pt_height_mm p\<rparr>;
          mode = (if QUIRK_DETAILED_IN_CM \<in> quirks then mode\<lparr>width_mm := width_mm mode * 10, height_mm := height_mm mode * 10\<rparr> else mode);
          mode = (if QUIRK_DETAILED_USE_MAXIMUM_SIZE \<in> quirks
                  then mode\<lparr>width_mm := uint (edid_width_cm e) * 10, height_mm := uint (edid_height_cm e) * 10\<rparr> else mode)
      in drm_mode_set_name (mode\<lparr>mtype := {TYPE_DRIVER}\<rparr>))"

definition drm_mode_detailed ::
  "int option list \<Rightarrow> u8 list \<Rightarrow> nat \<Rightarrow> edid_quirk_bit set \<Rightarrow> (drm_display_mode option \<times> u8 list \<times> int option list) result" where
  "drm_mode_detailed ids e t quirks =
     (let p = decode_pixel_timing e t; misc = e ! (t + 17)
      in if pt_hactive p < 64 \<or> pt_vactive p < 64 \<or> misc AND 0x20 \<noteq> 0 \<or>
            pt_hsync_pulse_width p = 0 \<or> pt_vsync_pulse_width p = 0 then Inr (None, e, ids)
         else (case drm_mode_create ids of (created, ids) \<Rightarrow>
           if QUIRK_FORCE_REDUCED_BLANKING \<in> quirks then
             (case drm_cvt_mode created (pt_hactive p) (pt_vactive p) 60 True False False of
                Inl err \<Rightarrow> Inl err
              | Inr None \<Rightarrow> Inr (None, e, ids)
              | Inr (Some mode) \<Rightarrow> Inr (Some (detailed_size e p quirks mode), e, ids))
           else (case created of
                   None \<Rightarrow> Inr (None, e, ids)
                 | Some mode \<Rightarrow>
                     let e = (if QUIRK_135_CLOCK_TOO_HIGH \<in> quirks then e[t := 0x40, t + 1 := 0x04] else e);
                         clk = (uint (e ! t) + uint (e ! (t + 1)) * 256) * 10;
                         mode = detailed_timings p clk mode;
                         mode = drm_mode_do_interlace_quirk mode misc;
                         e = (if QUIRK_DETAILED_SYNC_PP \<in> quirks then e[t + 17 := e ! (t + 17) OR 0x06] else e);
                         misc = e ! (t + 17);
                         mode = mode\<lparr>flags := flags mode \<union> (if misc AND 0x02 \<noteq> 0 then {FLAG_PHSYNC} else {FLAG_NHSYNC})
                                                         \<union> (if misc AND 0x04 \<noteq> 0 then {FLAG_PVSYNC} else {FLAG_NVSYNC})\<rparr>
                     in Inr (Some (detailed_size e p quirks mode), e, ids))))"

subsection \<open>Modes inferred from the range limits\<close>

definition range_limit :: "u8 list \<Rightarrow> nat \<Rightarrow> nat \<Rightarrow> u8 \<Rightarrow> int" where
  "range_limit e t k flag =
     uint (e ! (t + k)) + (if edid_revision e \<ge> 4 then (if e ! (t + 4) AND flag \<noteq> 0 then 255 else 0) else 0)"

definition mode_in_hsync_range :: "drm_display_mode \<Rightarrow> u8 list \<Rightarrow> nat \<Rightarrow> bool result" where
  "mode_in_hsync_range mode e t =
     (case drm_mode_hsync mode of
        Inl err \<Rightarrow> Inl err
      | Inr hs \<Rightarrow> Inr (hs \<le> range_limit e t 8 0x08 \<and> hs \<ge> range_limit e t 7 0x04))"

definition mode_in_vsync_range :: "drm_display_mode \<Rightarrow> u8 list \<Rightarrow> nat \<Rightarrow> bool" where
  "mode_in_vsync_range mode e t \<longleftrightarrow>
     drm_mode_vrefresh mode \<le> range_limit e t 6 0x02 \<and> drm_mode_vrefresh mode \<ge> range_limit e t 5 0x01"

definition range_pixel_clock :: "u8 list \<Rightarrow> nat \<Rightarrow> int" where
  "range_pixel_clock e t =
     (let t9 = e ! (t + 9)
      in if t9 = 0 \<or> t9 = 255 then 0
         else if edid_revision e \<ge> 4 \<and> e ! (t + 10) = 0x04 then to_u32 (uint t9 * 10000 - uint (drop_bit 2 (e ! (t + 12))) * 250)
         else uint t9 * 10000 + 5001)"

definition mode_in_range :: "drm_display_mode \<Rightarrow> u8 list \<Rightarrow> nat \<Rightarrow> bool result" where
  "mode_in_range mode e t =
     (case mode_in_hsync_range mode e t of
        Inl err \<Rightarrow> Inl err
      | Inr ok \<Rightarrow>
          Inr (ok \<and> mode_in_vsync_range mode e t \<and>
               \<not> (range_pixel_clock e t \<noteq> 0 \<and> to_u32 (clock mode) > range_pixel_clock e t) \<and>
               \<not> (edid_revision e \<ge> 4 \<and> e ! (t + 10) = 0x04 \<and> e ! (t + 13) \<noteq> 0 \<and>
                  hdisplay mode > 8 * (uint (e ! (t + 13)) + 256 * uint (e ! (t + 12) AND 0x3))) \<and>
               \<not> (mode_is_rb mode \<and> \<not> drm_monitor_supports_rb e)))"

fun inferred_loop :: "drm_display_mode \<Rightarrow> drm_display_mode list \<Rightarrow> bool \<Rightarrow> bool" where
  "inferred_loop mode [] ok = ok"
| "inferred_loop mode (m # ms) ok =
     (if hdisplay mode = hdisplay m \<and> vdisplay mode = vdisplay m \<and> drm_mode_vrefresh mode = drm_mode_vrefresh m then False
      else inferred_loop mode ms (if hdisplay mode \<le> hdisplay m \<and> vdisplay mode \<le> vdisplay m then True else ok))"

definition valid_inferred_mode :: "drm_connector \<Rightarrow> drm_display_mode \<Rightarrow> bool" where
  "valid_inferred_mode c mode = inferred_loop mode (probed_modes c) False"

definition dmt_range_step :: "u8 list \<Rightarrow> nat \<Rightarrow> drm_display_mode \<Rightarrow> added \<Rightarrow> added result" where
  "dmt_range_step e t p s =
     (case s of (c, ids, modes) \<Rightarrow>
        (case mode_in_range p e t of
           Inl err \<Rightarrow> Inl err
         | Inr ok \<Rightarrow>
             if ok \<and> valid_inferred_mode c p
             then (case drm_mode_create ids of (created, ids) \<Rightarrow> Inr (add_mode (drm_mode_duplicate created p) ids c modes))
             else Inr s))"

definition drm_dmt_modes_for_range :: "u8 list \<Rightarrow> nat \<Rightarrow> added \<Rightarrow> added result" where
  "drm_dmt_modes_for_range e t s = fold_res (dmt_range_step e t) drm_dmt_modes s"

definition fixup_mode_1366x768 :: "drm_display_mode \<Rightarrow> drm_display_mode" where
  "fixup_mode_1366x768 mode =
     (if hdisplay mode = 1368 \<and> vdisplay mode = 768
      then drm_mode_set_name (mode\<lparr>hdisplay := 1366, hsync_start := wrap32 (hsync_start mode - 1), hsync_end := wrap32 (hsync_end mode - 1)\<rparr>)
      else mode)"

text \<open>
  The common loop of \<open>drm_gtf_modes_for_range\<close> and \<open>drm_cvt_modes_for_range\<close>; \<open>gen\<close> is the call that
  generates the mode. When it returns \<open>NULL\<close> the loop ends.
\<close>

fun extra_loop ::
  "(drm_display_mode option \<Rightarrow> minimode \<Rightarrow> drm_display_mode option result) \<Rightarrow> u8 list \<Rightarrow> nat \<Rightarrow> minimode list \<Rightarrow> added \<Rightarrow> added result" where
  "extra_loop gen e t [] s = Inr s"
| "extra_loop gen e t (m # ms) (c, ids, modes) =
     (case drm_mode_create ids of (created, ids) \<Rightarrow>
        (case gen created m of
           Inl err \<Rightarrow> Inl err
         | Inr None \<Rightarrow> Inr (c, ids, modes)
         | Inr (Some newmode) \<Rightarrow>
             let newmode = fixup_mode_1366x768 newmode
             in (case mode_in_range newmode e t of
                   Inl err \<Rightarrow> Inl err
                 | Inr ok \<Rightarrow>
                     if \<not> ok \<or> \<not> valid_inferred_mode c newmode then extra_loop gen e t ms (c, ids, modes)
                     else extra_loop gen e t ms (drm_mode_probed_add c newmode, ids, modes + 1))))"

definition drm_gtf_modes_for_range :: "u8 list \<Rightarrow> nat \<Rightarrow> added \<Rightarrow> added result" where
  "drm_gtf_modes_for_range e t s =
     extra_loop (\<lambda>created m. drm_gtf_mode created (mm_w m) (mm_h m) (mm_r m) False False) e t extra_modes s"

definition drm_cvt_modes_for_range :: "u8 list \<Rightarrow> nat \<Rightarrow> added \<Rightarrow> added result" where
  "drm_cvt_modes_for_range e t s =
     (let rb = drm_monitor_supports_rb e
      in extra_loop (\<lambda>created m. drm_cvt_mode created (mm_w m) (mm_h m) (mm_r m) rb False False) e t extra_modes s)"

definition do_inferred_modes :: "u8 list \<Rightarrow> nat \<Rightarrow> added \<Rightarrow> added result" where
  "do_inferred_modes e t s =
     (if e ! (t + 3) \<noteq> 0xfd then Inr s
      else (case drm_dmt_modes_for_range e t s of
              Inl err \<Rightarrow> Inl err
            | Inr s \<Rightarrow>
                if \<not> version_greater e 1 1 then Inr s
                else let range_flags = e ! (t + 10)
                     in if range_flags = 0x02 \<or> range_flags = 0x00 then drm_gtf_modes_for_range e t s
                        else if range_flags = 0x04 then
                          (if \<not> version_greater e 1 3 then Inr s else drm_cvt_modes_for_range e t s)
                        else Inr s))"

definition add_inferred_modes :: "u8 list \<Rightarrow> added \<Rightarrow> added result" where
  "add_inferred_modes e s =
     (if version_greater e 1 0 then fold_res (do_inferred_modes e) (drm_for_each_detailed_block e) s else Inr s)"

subsection \<open>Established modes\<close>

text \<open>The pairs \<open>(i, j)\<close> of the two loops of \<open>drm_est3_modes\<close>, with the break.\<close>

definition est3_bits :: "(nat \<times> nat) list" where
  "est3_bits = concat (map (\<lambda>i. takeWhile (\<lambda>(i, j). i * 8 + (7 - j) < length est3_modes) (map (Pair i) [7, 6, 5, 4, 3, 2, 1])) [0..<6])"

definition est3_step :: "u8 list \<Rightarrow> nat \<Rightarrow> nat \<times> nat \<Rightarrow> added \<Rightarrow> added" where
  "est3_step e t ij s =
     (case ij of (i, j) \<Rightarrow> case s of (c, ids, modes) \<Rightarrow>
        if bit (e ! (t + 5 + i)) j
        then let m = est3_modes ! (i * 8 + (7 - j))
             in (case drm_mode_find_dmt ids (mm_w m) (mm_h m) (mm_r m) (mm_rb m \<noteq> 0) of (mode, ids) \<Rightarrow> add_mode mode ids c modes)
        else s)"

definition drm_est3_modes :: "u8 list \<Rightarrow> nat \<Rightarrow> added \<Rightarrow> added" where
  "drm_est3_modes e t s = fold (est3_step e t) est3_bits s"

definition do_established_modes :: "u8 list \<Rightarrow> nat \<Rightarrow> added \<Rightarrow> added" where
  "do_established_modes e t s = (if e ! (t + 3) = 0xf7 then drm_est3_modes e t s else s)"

definition est_step :: "int \<Rightarrow> nat \<Rightarrow> added \<Rightarrow> added" where
  "est_step est_bits i s =
     (case s of (c, ids, modes) \<Rightarrow>
        if bit est_bits i
        then (case drm_mode_create ids of (created, ids) \<Rightarrow> add_mode (drm_mode_duplicate created (edid_est_modes ! i)) ids c modes)
        else s)"

definition add_established_modes :: "u8 list \<Rightarrow> added \<Rightarrow> added" where
  "add_established_modes e s =
     (let est_bits = uint (e ! 35) OR push_bit 8 (uint (e ! 36)) OR push_bit 9 (uint (e ! 37 AND 0x80));
          s = fold (est_step est_bits) [0..<17] s
      in if version_greater e 1 0 then fold (do_established_modes e) (drm_for_each_detailed_block e) s else s)"

subsection \<open>Standard, CVT and detailed modes\<close>

definition std_step :: "u8 list \<Rightarrow> nat \<Rightarrow> added \<Rightarrow> added result" where
  "std_step e t s =
     (case s of (c, ids, modes) \<Rightarrow>
        (case drm_mode_std c ids e t (edid_revision e) of
           Inl err \<Rightarrow> Inl err
         | Inr (newmode, ids) \<Rightarrow> Inr (add_mode newmode ids c modes)))"

definition do_standard_modes :: "u8 list \<Rightarrow> nat \<Rightarrow> added \<Rightarrow> added result" where
  "do_standard_modes e t s =
     (if e ! (t + 3) = 0xfa then fold_res (std_step e) (map (\<lambda>i. t + 5 + 2 * i) [0..<6]) s else Inr s)"

definition add_standard_modes :: "u8 list \<Rightarrow> added \<Rightarrow> added result" where
  "add_standard_modes e s =
     (case fold_res (std_step e) (map (\<lambda>i. 38 + 2 * i) [0..<8]) s of
        Inl err \<Rightarrow> Inl err
      | Inr s \<Rightarrow>
          if version_greater e 1 0 then fold_res (do_standard_modes e) (drm_for_each_detailed_block e) s else Inr s)"

definition cvt_rates :: "int list" where "cvt_rates = [60, 85, 75, 60, 50]"

definition cvt_step :: "int \<Rightarrow> int \<Rightarrow> u8 \<Rightarrow> nat \<Rightarrow> added \<Rightarrow> added result" where
  "cvt_step w h code2 j s =
     (case s of (c, ids, modes) \<Rightarrow>
        if bit code2 j
        then (case drm_mode_create ids of (created, ids) \<Rightarrow>
                (case drm_cvt_mode created w h (cvt_rates ! j) (j = 0) False False of
                   Inl err \<Rightarrow> Inl err
                 | Inr newmode \<Rightarrow> Inr (add_mode newmode ids c modes)))
        else Inr s)"

definition cvt_code :: "u8 list \<Rightarrow> nat \<Rightarrow> added \<Rightarrow> added result" where
  "cvt_code e p s =
     (let code0 = e ! p; code1 = e ! (p + 1); code2 = e ! (p + 2)
      in if code0 = 0 \<and> code1 = 0 \<and> code2 = 0 then Inr s
         else let height = (uint code0 + push_bit 4 (uint (code1 AND 0xf0)) + 1) * 2;
                  aspect = code1 AND 0x0c;
                  width = (if aspect = 0x00 then cdiv (height * 4) 3 else if aspect = 0x04 then cdiv (height * 16) 9
                           else if aspect = 0x08 then cdiv (height * 16) 10 else cdiv (height * 15) 9)
              in fold_res (cvt_step width height code2) [1..<5] s)"

definition drm_cvt_modes :: "u8 list \<Rightarrow> nat \<Rightarrow> added \<Rightarrow> added result" where
  "drm_cvt_modes e t s = fold_res (cvt_code e) (map (\<lambda>i. t + 5 + 3 * i) [0..<4]) s"

definition do_cvt_mode :: "u8 list \<Rightarrow> nat \<Rightarrow> added \<Rightarrow> added result" where
  "do_cvt_mode e t s = (if e ! (t + 3) = 0xf8 then drm_cvt_modes e t s else Inr s)"

definition add_cvt_modes :: "u8 list \<Rightarrow> added \<Rightarrow> added result" where
  "add_cvt_modes e s =
     (if version_greater e 1 2 then fold_res (do_cvt_mode e) (drm_for_each_detailed_block e) s else Inr s)"

text \<open>The state of the detailed modes: the EDID, which they may change, and the flag \<open>preferred\<close>.\<close>

definition do_detailed_mode ::
  "edid_quirk_bit set \<Rightarrow> nat \<Rightarrow> u8 list \<times> bool \<times> added \<Rightarrow> (u8 list \<times> bool \<times> added) result" where
  "do_detailed_mode quirks t s =
     (case s of (e, preferred, c, ids, modes) \<Rightarrow>
        if e ! t = 0 \<and> e ! (t + 1) = 0 then Inr s
        else (case drm_mode_detailed ids e t quirks of
                Inl err \<Rightarrow> Inl err
              | Inr (None, e, ids) \<Rightarrow> Inr (e, preferred, c, ids, modes)
              | Inr (Some m, e, ids) \<Rightarrow>
                  let m = (if preferred then m\<lparr>mtype := mtype m \<union> {TYPE_PREFERRED}\<rparr> else m)
                  in Inr (e, False, drm_mode_probed_add c m, ids, modes + 1)))"

definition add_detailed_modes :: "u8 list \<Rightarrow> edid_quirk_bit set \<Rightarrow> added \<Rightarrow> (u8 list \<times> added) result" where
  "add_detailed_modes e quirks s =
     (let preferred = (if \<not> version_greater e 1 3 then edid_features e AND 0x02 \<noteq> 0 else True)
      in (case fold_res (do_detailed_mode quirks) (drm_for_each_detailed_block e) (e, preferred, s) of
            Inl err \<Rightarrow> Inl err
          | Inr (e, _, s) \<Rightarrow> Inr (e, s)))"

subsection \<open>CEA modes\<close>

definition cea_mode_alternate_clock :: "drm_display_mode \<Rightarrow> int" where
  "cea_mode_alternate_clock cea_mode =
     (let clk = to_u32 (clock cea_mode)
      in if cmod (vrefresh cea_mode) 6 \<noteq> 0 then clk
         else if vdisplay cea_mode = 240 \<or> vdisplay cea_mode = 480 then to_u32 (clk * 1001) div 1000
         else to_u32 (to_u32 (clk * 1000) + 1000) div 1001)"

definition cea_matches :: "drm_display_mode \<Rightarrow> drm_display_mode \<Rightarrow> bool" where
  "cea_matches to_match cea_mode \<longleftrightarrow>
     (KHZ2PICOS (clock to_match) = KHZ2PICOS (to_u32 (clock cea_mode)) \<or>
      KHZ2PICOS (clock to_match) = KHZ2PICOS (cea_mode_alternate_clock cea_mode)) \<and>
     drm_mode_equal_no_clocks to_match cea_mode"

fun cea_index :: "drm_display_mode \<Rightarrow> drm_display_mode list \<Rightarrow> nat \<Rightarrow> nat" where
  "cea_index to_match [] mode = 0"
| "cea_index to_match (m # ms) mode = (if cea_matches to_match m then mode + 1 else cea_index to_match ms (mode + 1))"

text \<open>The VIC, a \<open>u8\<close>; 0 when there is none.\<close>

definition drm_match_cea_mode :: "drm_display_mode \<Rightarrow> nat" where
  "drm_match_cea_mode to_match = (if clock to_match = 0 then 0 else cea_index to_match edid_cea_modes 0)"

text \<open>One probed mode: the new mode to be appended at the end, if any.\<close>

definition alternate_step ::
  "drm_display_mode \<Rightarrow> drm_display_mode list \<times> int option list \<Rightarrow> drm_display_mode list \<times> int option list" where
  "alternate_step mode s =
     (case s of (news, ids) \<Rightarrow>
        let vic = drm_match_cea_mode mode
        in if vic = 0 then s
           else let cea_mode = edid_cea_modes ! (vic - 1);
                    clock1 = to_u32 (clock cea_mode); clock2 = cea_mode_alternate_clock cea_mode
                in if clock1 = clock2 \<or> to_u32 (clock mode) \<noteq> clock1 \<and> to_u32 (clock mode) \<noteq> clock2 then s
                   else (case drm_mode_create ids of (created, ids) \<Rightarrow>
                           (case drm_mode_duplicate created cea_mode of
                              None \<Rightarrow> (news, ids)
                            | Some m \<Rightarrow>
                                (news @ [m\<lparr>clock := wrap32 (if to_u32 (clock mode) \<noteq> clock1 then clock1 else clock2)\<rparr>], ids))))"

definition add_alternate_cea_modes :: "u8 list \<Rightarrow> added \<Rightarrow> added" where
  "add_alternate_cea_modes e s =
     (case s of (c, ids, modes) \<Rightarrow>
        if drm_find_cea_extension e = None then s
        else (case fold alternate_step (probed_modes c) ([], ids) of (news, ids) \<Rightarrow>
                (fold (\<lambda>m c. drm_mode_probed_add c m) news c, ids, modes + length news)))"

definition cea_mode_step :: "u8 \<Rightarrow> added \<Rightarrow> added" where
  "cea_mode_step b s =
     (case s of (c, ids, modes) \<Rightarrow>
        let cea_mode = unat ((b AND 127) - 1)
        in if cea_mode < length edid_cea_modes
           then (case drm_mode_create ids of (created, ids) \<Rightarrow>
                   (case drm_mode_duplicate created (edid_cea_modes ! cea_mode) of
                      None \<Rightarrow> (c, ids, modes)
                    | Some m \<Rightarrow> (drm_mode_probed_add c (m\<lparr>vrefresh := 0\<rparr>), ids, modes + 1)))
           else s)"

definition do_cea_modes :: "u8 list \<Rightarrow> added \<Rightarrow> added" where
  "do_cea_modes bytes s = fold cea_mode_step bytes s"

definition add_cea_modes :: "u8 list \<Rightarrow> added \<Rightarrow> added" where
  "add_cea_modes e s =
     (case drm_find_cea_extension e of
        None \<Rightarrow> s
      | Some k \<Rightarrow>
          let cea = block_at e k
          in if cea_revision cea \<ge> 3 then
               (case cea_db_offsets cea of
                  Inl _ \<Rightarrow> s
                | Inr (start, fin) \<Rightarrow>
                    fold (\<lambda>i s. if cea_db_tag (cea ! i) = VIDEO_BLOCK
                                then do_cea_modes (map (\<lambda>k. cea ! (i + 1 + k)) [0..<cea_db_payload_len (cea ! i)]) s else s)
                      (for_each_cea_db cea start fin) s)
             else s)"

subsection \<open>The preferred mode\<close>

definition MODE_SIZE :: "drm_display_mode \<Rightarrow> int" where
  "MODE_SIZE m = wrap32 (hdisplay m * vdisplay m)"

definition MODE_REFRESH_DIFF :: "drm_display_mode \<Rightarrow> int \<Rightarrow> int" where
  "MODE_REFRESH_DIFF m target = \<bar>wrap32 (vrefresh m - target)\<bar>"

text \<open>The index of the mode that is to be preferred; the loop compares every later mode with the best so far.\<close>

definition prefer_step :: "drm_display_mode list \<Rightarrow> int \<Rightarrow> nat \<Rightarrow> nat \<Rightarrow> nat" where
  "prefer_step ms target i best =
     (if i = best then best
      else let cur = ms ! i;
               best = (if MODE_SIZE cur > MODE_SIZE (ms ! best) then i else best)
           in if MODE_SIZE cur = MODE_SIZE (ms ! best) \<and> MODE_REFRESH_DIFF cur target < MODE_REFRESH_DIFF (ms ! best) target
              then i else best)"

definition edid_fixup_preferred :: "edid_quirk_bit set \<Rightarrow> drm_connector \<Rightarrow> drm_connector" where
  "edid_fixup_preferred quirks c =
     (if probed_modes c = [] then c
      else let target = (if QUIRK_PREFER_LARGE_75 \<in> quirks then 75 else if QUIRK_PREFER_LARGE_60 \<in> quirks then 60 else 0);
               ms = probed_modes c;
               best = fold (prefer_step ms target) [0..<length ms] 0;
               ms' = map (\<lambda>m. m\<lparr>mtype := mtype m - {TYPE_PREFERRED}\<rparr>) ms
           in c\<lparr>probed_modes := ms'[best := (ms' ! best)\<lparr>mtype := mtype (ms' ! best) \<union> {TYPE_PREFERRED}\<rparr>]\<rparr>)"

subsection \<open>All modes\<close>

text \<open>The EDID is \<open>None\<close> for \<open>NULL\<close>; the repaired and changed EDID is returned.\<close>

definition drm_add_edid_modes ::
  "drm_connector \<Rightarrow> int option list \<Rightarrow> u8 list option \<Rightarrow> (nat \<times> drm_connector \<times> int option list \<times> u8 list option) result" where
  "drm_add_edid_modes c ids edid =
     (case edid of
        None \<Rightarrow> Inr (0, c, ids, None)
      | Some e \<Rightarrow>
          (case drm_edid_is_valid e of
             (False, e) \<Rightarrow> Inr (0, c, ids, Some e)
           | (True, e) \<Rightarrow>
               let quirks = edid_get_quirks e
               in (case add_detailed_modes e quirks (c, ids, 0) of
                     Inl err \<Rightarrow> Inl err
                   | Inr (e, s) \<Rightarrow>
                 (case add_cvt_modes e s of
                    Inl err \<Rightarrow> Inl err
                  | Inr s \<Rightarrow>
                 (case add_standard_modes e s of
                    Inl err \<Rightarrow> Inl err
                  | Inr s \<Rightarrow>
                      let s = add_established_modes e s
                      in (case (if edid_features e AND 1 \<noteq> 0 then add_inferred_modes e s else Inr s) of
                            Inl err \<Rightarrow> Inl err
                          | Inr s \<Rightarrow>
                              (case add_alternate_cea_modes e (add_cea_modes e s) of (c, ids, num_modes) \<Rightarrow>
                                 let c = (if quirks \<inter> {QUIRK_PREFER_LARGE_60, QUIRK_PREFER_LARGE_75} \<noteq> {}
                                          then edid_fixup_preferred quirks c else c)
                                 in Inr (num_modes, drm_add_display_info e c, ids, Some e))))))))"

definition noedid_step :: "int \<Rightarrow> int \<Rightarrow> drm_display_mode \<Rightarrow> added \<Rightarrow> added" where
  "noedid_step w h p s =
     (case s of (c, ids, modes) \<Rightarrow>
        if w \<noteq> 0 \<and> h \<noteq> 0 \<and> (hdisplay p > w \<or> vdisplay p > h) \<or> drm_mode_vrefresh p > 61 then s
        else (case drm_mode_create ids of (created, ids) \<Rightarrow> add_mode (drm_mode_duplicate created p) ids c modes))"

definition drm_add_modes_noedid :: "drm_connector \<Rightarrow> int option list \<Rightarrow> int \<Rightarrow> int \<Rightarrow> added" where
  "drm_add_modes_noedid c ids w h =
     (let w = (if w < 0 then 0 else w); h = (if h < 0 then 0 else h)
      in fold (noedid_step w h) drm_dmt_modes (c, ids, 0))"

subsection \<open>What the adding functions do to the connector\<close>

text \<open>
  From one state to a later one: some modes have been appended to the list of probed modes and
  counted, and nothing else of the connector has changed.
\<close>

definition extends :: "added \<Rightarrow> added \<Rightarrow> bool" where
  "extends s s' \<longleftrightarrow> (case s of (c, ids, n) \<Rightarrow> case s' of (c', ids', n') \<Rightarrow>
     \<exists>news. c' = c\<lparr>probed_modes := probed_modes c @ news\<rparr> \<and> n' = n + length news)"

named_theorems extends_intros \<open>steps that only append modes\<close>

lemma extends_refl [extends_intros]: "extends s s"
  by (cases s) (auto simp: extends_def intro!: exI [of _ "[]"])

lemma extends_ids [extends_intros]: "extends (c, ids, n) (c, ids', n)"
  by (auto simp: extends_def intro!: exI [of _ "[]"])

lemma extends_trans: "extends s1 s2 \<Longrightarrow> extends s2 s3 \<Longrightarrow> extends s1 s3"
proof -
  obtain c1 i1 n1 c2 i2 n2 c3 i3 n3 where s: "s1 = (c1, i1, n1)" "s2 = (c2, i2, n2)" "s3 = (c3, i3, n3)" by (metis prod_cases3)
  assume "extends s1 s2" "extends s2 s3"
  then obtain xs ys where "c2 = c1\<lparr>probed_modes := probed_modes c1 @ xs\<rparr>" "n2 = n1 + length xs"
    "c3 = c2\<lparr>probed_modes := probed_modes c2 @ ys\<rparr>" "n3 = n2 + length ys" by (auto simp: extends_def s)
  then have "c3 = c1\<lparr>probed_modes := probed_modes c1 @ (xs @ ys)\<rparr> \<and> n3 = n1 + length (xs @ ys)" by simp
  then show ?thesis unfolding extends_def s prod.case by blast
qed

lemma extends_probed_add [extends_intros]: "extends (c, ids, n) (drm_mode_probed_add c m, ids', n + 1)"
  by (auto simp: extends_def drm_mode_probed_add_def intro!: exI [of _ "[m]"])

lemma extends_add_mode [extends_intros]: "extends (c, ids, n) (add_mode m ids' c n)"
  using extends_ids extends_probed_add by (auto simp: add_mode_def split: option.splits)

lemma extends_add_modeD: "add_mode m ids' c n = s' \<Longrightarrow> extends (c, ids, n) s'"
  using extends_add_mode by blast

text \<open>Functions on the state that only append, total and fallible.\<close>

definition appends :: "(added \<Rightarrow> added) \<Rightarrow> bool" where
  "appends f \<longleftrightarrow> (\<forall>s. extends s (f s))"

definition appends_res :: "(added \<Rightarrow> added result) \<Rightarrow> bool" where
  "appends_res f \<longleftrightarrow> (\<forall>s s'. f s = Inr s' \<longrightarrow> extends s s')"

lemma appendsI: "(\<And>c ids n. extends (c, ids, n) (f (c, ids, n))) \<Longrightarrow> appends f"
  by (auto simp: appends_def)

lemma appends_resI: "(\<And>c ids n s'. f (c, ids, n) = Inr s' \<Longrightarrow> extends (c, ids, n) s') \<Longrightarrow> appends_res f"
  unfolding appends_res_def by (metis prod_cases3)

lemma appendsD: "appends f \<Longrightarrow> extends s (f s)"
  unfolding appends_def by blast

lemma appends_resD: "appends_res f \<Longrightarrow> f s = Inr s' \<Longrightarrow> extends s s'"
  unfolding appends_res_def by blast

lemma appends_id: "appends (\<lambda>s. s)"
  by (simp add: appends_def extends_refl)

lemma appends_res_Inr: "appends_res Inr"
  by (simp add: appends_res_def extends_refl)

lemma appends_if: "appends f \<Longrightarrow> appends g \<Longrightarrow> appends (\<lambda>s. if b then f s else g s)"
  by (cases b) simp_all

lemma appends_res_if: "appends_res f \<Longrightarrow> appends_res g \<Longrightarrow> appends_res (\<lambda>s. if b then f s else g s)"
  by (cases b) simp_all

lemma appends_comp: "appends f \<Longrightarrow> appends g \<Longrightarrow> appends (\<lambda>s. g (f s))"
  unfolding appends_def using extends_trans by blast

lemma appends_res_bind:
  assumes "appends_res f" "appends_res g"
  shows "appends_res (\<lambda>s. case f s of Inl err \<Rightarrow> Inl err | Inr s' \<Rightarrow> g s')"
proof (rule appends_resI)
  fix c ids n s'
  assume "(case f (c, ids, n) of Inl err \<Rightarrow> Inl err | Inr s' \<Rightarrow> g s') = Inr s'"
  then obtain s1 where "f (c, ids, n) = Inr s1" "g s1 = Inr s'" by (rule result_bindE)
  then show "extends (c, ids, n) s'" using assms extends_trans appends_resD by blast
qed

lemma appends_fold: "(\<And>x. appends (f x)) \<Longrightarrow> appends (fold f xs)"
proof (induction xs)
  case (Cons x xs)
  then show ?case using appends_comp [of "f x" "fold f xs"] by simp
qed (simp add: appends_id id_def)

lemma appends_fold_res: "(\<And>x. appends_res (f x)) \<Longrightarrow> appends_res (fold_res f xs)"
proof (induction xs)
  case Nil
  have "fold_res f [] = Inr" by auto
  then show ?case using appends_res_Inr by simp
next
  case (Cons x xs)
  have "fold_res f (x # xs) = (\<lambda>s. case f x s of Inl err \<Rightarrow> Inl err | Inr s' \<Rightarrow> fold_res f xs s')" by auto
  then show ?case using appends_res_bind [of "f x" "fold_res f xs"] Cons by metis
qed

subsection \<open>Every adding function only appends\<close>

lemma appends_dmt_range: "appends_res (drm_dmt_modes_for_range e t)"
proof -
  have "appends_res (dmt_range_step e t p)" for p
    by (rule appends_resI) (auto simp: dmt_range_step_def intro: extends_intros extends_add_modeD split: prod.splits sum.splits if_splits)
  then show ?thesis unfolding drm_dmt_modes_for_range_def by (rule appends_fold_res)
qed

lemma appends_extra_loop: "appends_res (extra_loop gen e t ms)"
proof -
  have "extra_loop gen e t ms s = Inr s' \<Longrightarrow> extends s s'" for s s'
  proof (induction gen e t ms s rule: extra_loop.induct)
    case (2 gen e t m ms c ids n)
    obtain created ids1 where cr: "drm_mode_create ids = (created, ids1)" by fastforce
    obtain om where g: "gen created m = Inr om" using "2.prems" cr by (cases "gen created m") auto
    show ?case
    proof (cases om)
      case None
      then show ?thesis using "2.prems" cr g by (auto intro: extends_intros)
    next
      case (Some m1)
      obtain ok where r: "mode_in_range (fixup_mode_1366x768 m1) e t = Inr ok"
        using "2.prems" cr g Some by (cases "mode_in_range (fixup_mode_1366x768 m1) e t") (auto simp: Let_def)
      show ?thesis
      proof (cases "\<not> ok \<or> \<not> valid_inferred_mode c (fixup_mode_1366x768 m1)")
        case True
        then have "extra_loop gen e t ms (c, ids1, n) = Inr s'" using "2.prems" cr g Some r by (simp add: Let_def)
        from "2.IH"(1) [OF cr [symmetric] g Some refl r True this] show ?thesis
          using extends_ids extends_trans by blast
      next
        case False
        then have "extra_loop gen e t ms (drm_mode_probed_add c (fixup_mode_1366x768 m1), ids1, n + 1) = Inr s'"
          using "2.prems" cr g Some r by (simp add: Let_def)
        from "2.IH"(2) [OF cr [symmetric] g Some refl r False this] show ?thesis
          using extends_probed_add extends_trans by blast
      qed
    qed
  qed (auto intro: extends_intros)
  then show ?thesis by (simp add: appends_res_def)
qed

lemma appends_inferred: "appends_res (add_inferred_modes e)"
proof -
  have "appends_res (do_inferred_modes e t)" for t
    unfolding do_inferred_modes_def drm_gtf_modes_for_range_def drm_cvt_modes_for_range_def Let_def
    by (intro appends_res_if appends_res_bind appends_res_Inr appends_dmt_range appends_extra_loop)
  then show ?thesis unfolding add_inferred_modes_def by (intro appends_res_if appends_fold_res appends_res_Inr)
qed

lemma appends_established: "appends (add_established_modes e)"
proof -
  have "appends (est3_step e t ij)" for t ij
    by (rule appendsI) (auto simp: est3_step_def Let_def intro: extends_intros split: prod.splits)
  then have "appends (do_established_modes e t)" for t
    unfolding do_established_modes_def drm_est3_modes_def by (intro appends_if appends_fold appends_id)
  then have do: "appends (fold (do_established_modes e) xs)" for xs by (rule appends_fold)
  have "appends (est_step b i)" for b i
    by (rule appendsI) (auto simp: est_step_def intro: extends_intros split: prod.splits)
  then have est: "appends (fold (est_step b) xs)" for b xs by (rule appends_fold)
  show ?thesis
    unfolding add_established_modes_def Let_def by (rule appends_if [OF appends_comp [OF est do] est])
qed

lemma appends_standard: "appends_res (add_standard_modes e)"
proof -
  have "appends_res (std_step e t)" for t
    by (rule appends_resI) (auto simp: std_step_def intro: extends_add_modeD split: prod.splits sum.splits)
  then show ?thesis
    unfolding add_standard_modes_def do_standard_modes_def
    by (intro appends_res_bind appends_res_if appends_fold_res appends_res_Inr)
qed

lemma appends_cvt: "appends_res (add_cvt_modes e)"
proof -
  have "appends_res (cvt_step w h b j)" for w h b j
    by (rule appends_resI) (auto simp: cvt_step_def intro: extends_refl extends_add_modeD split: prod.splits sum.splits if_splits)
  then show ?thesis
    unfolding add_cvt_modes_def do_cvt_mode_def drm_cvt_modes_def cvt_code_def Let_def
    by (intro appends_res_if appends_fold_res appends_res_Inr)
qed

lemma extends_detailed: "add_detailed_modes e quirks s = Inr (e', s') \<Longrightarrow> extends s s'"
proof -
  have step: "extends s0 (snd (snd st'))" if d: "do_detailed_mode quirks t st = Inr st'" and x: "extends s0 (snd (snd st))" for t st st' s0
  proof -
    obtain e1 p c ids n where st: "st = (e1, p, c, ids, n)" by (metis prod_cases5)
    have "extends (c, ids, n) (snd (snd st'))"
      using d unfolding do_detailed_mode_def st
      by (auto simp: Let_def intro: extends_intros extends_probed_add [simplified] split: prod.splits sum.splits option.splits if_splits)
    then show ?thesis using x extends_trans unfolding st snd_conv by blast
  qed
  assume "add_detailed_modes e quirks s = Inr (e', s')"
  then obtain p where "fold_res (do_detailed_mode quirks) (drm_for_each_detailed_block e)
      (e, if \<not> version_greater e 1 3 then edid_features e AND 0x02 \<noteq> 0 else True, s) = Inr (e', p, s')"
    unfolding add_detailed_modes_def Let_def by (auto split: sum.splits)
  from fold_res_invariant [where I = "\<lambda>st. extends s (snd (snd st))", OF this] step show ?thesis
    by (simp add: extends_refl)
qed

lemma appends_cea: "appends (add_cea_modes e)"
proof -
  have "appends (cea_mode_step b)" for b
    by (rule appendsI) (auto simp: cea_mode_step_def Let_def intro: extends_intros extends_probed_add [simplified] split: prod.splits option.splits)
  then have db: "appends (\<lambda>s. if P then do_cea_modes xs s else s)" for P xs
    unfolding do_cea_modes_def by (intro appends_if appends_fold appends_id)
  show ?thesis
    unfolding add_cea_modes_def Let_def
    by (cases "drm_find_cea_extension e"; cases "cea_db_offsets (block_at e (the (drm_find_cea_extension e)))")
      (auto intro!: appends_if appends_id appends_fold db split: prod.splits)
qed

lemma appends_alternate: "appends (add_alternate_cea_modes e)"
proof (rule appendsI)
  fix c :: drm_connector and ids n
  obtain news ids' where f: "fold alternate_step (probed_modes c) ([], ids) = (news, ids')" by fastforce
  have p: "fold (\<lambda>m c. drm_mode_probed_add c m) ms c = c\<lparr>probed_modes := probed_modes c @ ms\<rparr>" for ms c
    by (induction ms arbitrary: c) (simp_all add: drm_mode_probed_add_def)
  show "extends (c, ids, n) (add_alternate_cea_modes e (c, ids, n))"
  proof (cases "drm_find_cea_extension e")
    case None
    then show ?thesis by (simp add: add_alternate_cea_modes_def extends_refl)
  next
    case (Some k)
    then show ?thesis unfolding add_alternate_cea_modes_def prod.case f p extends_def by auto
  qed
qed

subsection \<open>The number of modes\<close>

lemma set_preferred_frame:
  assumes "i < length ms" "ms' = map (\<lambda>m. m\<lparr>mtype := mtype m - {TYPE_PREFERRED}\<rparr>) ms"
    and "m = ms'[b := (ms' ! b)\<lparr>mtype := mtype (ms' ! b) \<union> {TYPE_PREFERRED}\<rparr>] ! i"
  shows "mtype m - {TYPE_PREFERRED} = mtype (ms ! i) - {TYPE_PREFERRED}" "m\<lparr>mtype := T\<rparr> = (ms ! i)\<lparr>mtype := T\<rparr>"
  using assms by (cases "i = b"; auto)+

lemma fixup_preferred_frame:
  "length (probed_modes (edid_fixup_preferred quirks c)) = length (probed_modes c)"
  "i < length (probed_modes c) \<Longrightarrow> mtype (probed_modes (edid_fixup_preferred quirks c) ! i) - {TYPE_PREFERRED} = mtype (probed_modes c ! i) - {TYPE_PREFERRED}"
  "i < length (probed_modes c) \<Longrightarrow>
     (probed_modes (edid_fixup_preferred quirks c) ! i)\<lparr>mtype := T\<rparr> = (probed_modes c ! i)\<lparr>mtype := T\<rparr>"
  by (simp_all add: edid_fixup_preferred_def Let_def set_preferred_frame [OF _ refl refl] del: Un_insert_right)

lemma add_display_info_probed: "probed_modes (drm_add_display_info e c) = probed_modes c"
  by (simp add: drm_add_display_info_def Let_def split: option.splits)

text \<open>
  Claim C20. \<open>drm_add_edid_modes\<close> returns the number of modes it adds to the list of probed modes of the
  connector, on every path (no EDID, invalid EDID, failing allocations); the modes that were on
  the list before stay in their places and keep everything but perhaps the preferred bit.
\<close>

theorem drm_add_edid_modes_count:
  assumes "drm_add_edid_modes c ids edid = Inr (n, c', ids', edid')"
  shows "length (probed_modes c') = length (probed_modes c) + n \<and>
    (\<forall>i < length (probed_modes c). (probed_modes c' ! i)\<lparr>mtype := T\<rparr> = (probed_modes c ! i)\<lparr>mtype := T\<rparr> \<and>
       mtype (probed_modes c' ! i) - {TYPE_PREFERRED} = mtype (probed_modes c ! i) - {TYPE_PREFERRED})"
proof -
  consider "n = 0" "probed_modes c' = probed_modes c"
    | e1 e2 quirks s1 s2 s3 s4 c5 ids5 where
      "add_detailed_modes e1 quirks (c, ids, 0) = Inr (e2, s1)" "add_cvt_modes e2 s1 = Inr s2" "add_standard_modes e2 s2 = Inr s3"
      "(if edid_features e2 AND 1 \<noteq> 0 then add_inferred_modes e2 (add_established_modes e2 s3) else Inr (add_established_modes e2 s3)) = Inr s4"
      "add_alternate_cea_modes e2 (add_cea_modes e2 s4) = (c5, ids5, n)"
      "probed_modes c' = probed_modes (if quirks \<inter> {QUIRK_PREFER_LARGE_60, QUIRK_PREFER_LARGE_75} \<noteq> {} then edid_fixup_preferred quirks c5 else c5)"
    using assms unfolding drm_add_edid_modes_def
    by (auto simp: Let_def add_display_info_probed split: option.splits prod.splits bool.splits sum.splits)
  then show ?thesis
  proof cases
    case 2
    have "extends s3 s4"
      using 2(4) appends_resD [OF appends_inferred] appendsD [OF appends_established] extends_trans
      by (metis sum.inject(2))
    then have "extends (c, ids, 0) (c5, ids5, n)"
      using extends_detailed [OF 2(1)] appends_resD [OF appends_cvt 2(2)] appends_resD [OF appends_standard 2(3)]
        appendsD [OF appends_cea, of s4] appendsD [OF appends_alternate, of "add_cea_modes e2 s4"] 2(5) extends_trans
      by metis
    then obtain news where "probed_modes c5 = probed_modes c @ news" "n = length news" by (auto simp: extends_def)
    then show ?thesis using 2(6) by (auto simp: fixup_preferred_frame nth_append)
  qed auto
qed

definition conn0 :: drm_connector where
  "conn0 = \<lparr>probed_modes = [], info_width_mm = 0, info_height_mm = 0, info_bpc = 0, color_formats = {}, cea_rev = 0,
     eld = replicate 128 0, dvi_dual = False, max_tmds_clock = 0, latency_present = (False, False), video_latency = (0, 0),
     audio_latency = (0, 0)\<rparr>"

text \<open>A base block that announces the established timing 640x480.\<close>

definition est_base :: "u8 list" where
  "est_base = (sample_base 0)[35 := 0x20, 127 := 0xe2]"

theorem drm_add_edid_modes_count_witness:
  "length (probed_modes (drm_add_display_info est_base (drm_mode_probed_add conn0 ((edid_est_modes ! 5)\<lparr>base_id := 1\<rparr>)))) =
   length (probed_modes conn0) + 1"
proof -
  have "drm_add_edid_modes conn0 [Some 1] (Some est_base) =
      Inr (1, drm_add_display_info est_base (drm_mode_probed_add conn0 ((edid_est_modes ! 5)\<lparr>base_id := 1\<rparr>)), [], Some est_base)"
    by code_simp
  from drm_add_edid_modes_count [OF this] show ?thesis by simp
qed

end
