(* ===== verification/Drm_Edid_Detailed.thy ===== *)
theory Drm_Edid_Detailed
  imports Drm_Edid_Modes
begin

text \<open>
  Detailed timings, \<open>drm_mode_detailed\<close> of \<open>drm_edid.c\<close>: every mode it makes is well-formed, and its
  decoding of the packed fields against their encoding.
\<close>

subsection \<open>Detailed timings are well-formed\<close>

lemma byte_or_bounds:
  fixes x y :: int
  assumes "0 \<le> x" "x < 2 ^ n" "0 \<le> y" "y < 2 ^ n"
  shows "0 \<le> x OR y \<and> x OR y < 2 ^ n"
  using assms OR_upper [of x n y] by simp

lemma uint_u8: "0 \<le> uint (b :: u8)" "uint (b :: u8) < 256"
  using uint_bounded [of b] by simp_all

lemma byte_and_bounds: "0 \<le> uint (b :: u8) AND k \<and> uint b AND k < 256"
  using uint_u8 [of b] AND_upper1 [of "uint b" k] by (simp add: order_le_less_trans)

definition pt_ok :: "pixel_timing \<Rightarrow> bool" where
  "pt_ok p \<longleftrightarrow> (\<forall>v \<in> {pt_hactive p, pt_vactive p, pt_hblank p, pt_vblank p, pt_hsync_offset p, pt_hsync_pulse_width p,
     pt_vsync_offset p, pt_vsync_pulse_width p}. 0 \<le> v \<and> v < 65536)"

lemma decode_pt_ok: "pt_ok (decode_pixel_timing e t)"
proof -
  have p: "0 \<le> push_bit k (uint (b :: u8) AND m) \<and> push_bit k (uint b AND m) < 65536" if "k \<le> 8" for k b m
  proof -
    have "(uint b AND m) * 2 ^ k \<le> 255 * 2 ^ 8"
      using byte_and_bounds [of b m] that power_increasing [of k 8 "2 :: int"] by (intro mult_mono) simp_all
    then show ?thesis using byte_and_bounds [of b m] by (simp add: push_bit_eq_mult)
  qed
  have d: "0 \<le> drop_bit k v \<and> drop_bit k v < 65536" if "0 \<le> v" "v < 256" for k and v :: int
    using that zdiv_mono2 [of v 1 "2 ^ k"] by (simp add: drop_bit_eq_div pos_imp_zdiv_nonneg_iff)
  have b: "0 \<le> uint (x :: u8) \<and> uint x < 65536" for x using uint_u8 [of x] by simp
  have a: "0 \<le> uint (x :: u8) AND m \<and> uint x AND m < 65536" for x m using byte_and_bounds [of x m] by simp
  have o: "0 \<le> x OR y \<and> x OR y < 65536" if "0 \<le> x \<and> x < 65536" "0 \<le> y \<and> y < 65536" for x y :: int
    using byte_or_bounds [of x 16 y] that by simp
  have dd: "0 \<le> drop_bit k (uint (x :: u8)) \<and> drop_bit k (uint x) < 65536"
    "0 \<le> drop_bit k (uint (x :: u8) AND m) \<and> drop_bit k (uint x AND m) < 65536" for k x m
    using d uint_u8 [of x] byte_and_bounds [of x m] by blast+
  show ?thesis
    unfolding pt_ok_def decode_pixel_timing_def Let_def pixel_timing.select_convs
    by (intro ballI, elim insertE emptyE; hypsubst) (rule o p b a dd | simp)+
qed

lemma detailed_timings_ok:
  assumes "pt_ok p" "64 \<le> pt_hactive p" "64 \<le> pt_vactive p" "pt_hsync_pulse_width p \<noteq> 0" "pt_vsync_pulse_width p \<noteq> 0"
  shows "timings_ok (detailed_timings p clk m)" "vtotal (detailed_timings p clk m) < 262144"
  using assms by (auto simp: timings_ok_def detailed_timings_def pt_ok_def Let_def)

lemma interlace_step_ok:
  assumes "timings_ok m" "vtotal m < B" "B \<le> 1000000000"
  shows "timings_ok (interlace_step wh m) \<and> vtotal (interlace_step wh m) < 2 * B"
proof (cases "hdisplay m = fst wh \<and> vdisplay m = cdiv (snd wh) 2")
  case True
  have w: "wrap32 (v * 2) = v * 2" if "0 \<le> v" "v \<le> vtotal m" for v
    using that assms by (intro wrap32_id) (simp add: in_int_def INT_MAX_def INT_MIN_def)
  have o: "v * 2 OR 1 = v * 2 + 1" if "0 \<le> v" for v :: int by (simp add: or_one_eq)
  have "0 < vdisplay m" "vdisplay m \<le> vsync_start m" "vsync_start m < vsync_end m" "vsync_end m \<le> vtotal m"
    using assms(1) by (simp_all add: timings_ok_def)
  then show ?thesis
    using True assms w [of "vdisplay m"] w [of "vsync_start m"] w [of "vsync_end m"] w [of "vtotal m"] o [of "vtotal m"]
    by (simp add: interlace_step_def timings_ok_def)
next
  case False
  then show ?thesis using assms by (auto simp: interlace_step_def timings_ok_def)
qed

lemma interlace_fold_ok:
  assumes "timings_ok m" "vtotal m < B" "B * 2 ^ length whs \<le> 1000000000" "0 \<le> B"
  shows "timings_ok (fold interlace_step whs m)"
  using assms
proof (induction whs arbitrary: m B)
  case (Cons wh whs)
  have "(1 :: int) \<le> 2 ^ length (wh # whs)" by (rule one_le_power) simp
  then have "B * 1 \<le> B * 2 ^ length (wh # whs)" using Cons.prems(4) by (rule mult_left_mono)
  then have "B \<le> 1000000000" using Cons.prems(3) by linarith
  from interlace_step_ok [OF Cons.prems(1,2) this, of wh] show ?case
    using Cons.IH [of "interlace_step wh m" "2 * B"] Cons.prems(3,4) by (simp add: mult_ac)
qed simp

lemma interlace_quirk_ok: "timings_ok m \<Longrightarrow> vtotal m < 262144 \<Longrightarrow> timings_ok (drm_mode_do_interlace_quirk m misc)"
  using interlace_fold_ok [of m 262144 cea_interlaced]
  by (simp add: drm_mode_do_interlace_quirk_def Let_def timings_ok_def cea_interlaced_def)

lemma detailed_size_timings: "timings_ok (detailed_size e p quirks m) = timings_ok m"
  by (simp add: detailed_size_def drm_mode_set_name_def timings_ok_def Let_def)

text \<open>
  Claim C30. A mode that \<open>drm_mode_detailed\<close> makes of an EDID's detailed timing is well-formed, for all contents
  of the descriptor: at least 64 pixels wide, with sync pulses that are not empty and lie between the
  visible area and the total, also where the totals in the descriptor are too small; of the EDID only
  the pixel clock and the flags of this descriptor may change. (The quirk for reduced blanking
  computes its own timings.)
\<close>

theorem drm_mode_detailed_ok:
  assumes "drm_mode_detailed ids e t quirks = Inr (Some m, e', ids')" "QUIRK_FORCE_REDUCED_BLANKING \<notin> quirks"
  shows "timings_ok m \<and> 64 \<le> hdisplay m \<and> mtype m = {TYPE_DRIVER} \<and> length e' = length e \<and>
    (\<forall>k. k \<noteq> t \<and> k \<noteq> t + 1 \<and> k \<noteq> t + 17 \<longrightarrow> e' ! k = e ! k)"
proof -
  let ?p = "decode_pixel_timing e t"
  obtain created ids1 where cr: "drm_mode_create ids = (created, ids1)" by fastforce
  have g: "64 \<le> pt_hactive ?p" "64 \<le> pt_vactive ?p" "pt_hsync_pulse_width ?p \<noteq> 0" "pt_vsync_pulse_width ?p \<noteq> 0"
    using assms(1) by (auto simp: drm_mode_detailed_def Let_def split: if_splits)
  obtain m0 where m0: "created = Some m0"
    using assms cr by (cases created) (auto simp: drm_mode_detailed_def Let_def split: if_splits)
  obtain clk misc fl e1 where m: "m = detailed_size e1 ?p quirks ((drm_mode_do_interlace_quirk (detailed_timings ?p clk m0) misc)\<lparr>flags := fl\<rparr>)"
    using assms cr m0 by (auto simp: drm_mode_detailed_def Let_def split: if_splits)
  have e': "length e' = length e \<and> (\<forall>k. k \<noteq> t \<and> k \<noteq> t + 1 \<and> k \<noteq> t + 17 \<longrightarrow> e' ! k = e ! k)"
    using assms cr m0 by (auto simp: drm_mode_detailed_def Let_def split: if_splits)
  have "timings_ok (drm_mode_do_interlace_quirk (detailed_timings ?p clk m0) misc)"
    using detailed_timings_ok [OF decode_pt_ok g] by (rule interlace_quirk_ok)
  moreover have "timings_ok (q\<lparr>flags := f\<rparr>) = timings_ok q" for q f by (simp add: timings_ok_def)
  ultimately have "timings_ok m" by (simp add: m detailed_size_timings)
  moreover have "hdisplay (fold interlace_step whs q) = hdisplay q" for whs q
    by (induction whs arbitrary: q) (simp_all add: interlace_step_def)
  then have "hdisplay m = pt_hactive ?p"
    by (simp add: m detailed_size_def drm_mode_set_name_def drm_mode_do_interlace_quirk_def detailed_timings_def Let_def)
  moreover have "mtype m = {TYPE_DRIVER}" by (simp add: m detailed_size_def drm_mode_set_name_def Let_def)
  ultimately show ?thesis using e' g(1) by simp
qed

theorem drm_mode_detailed_ok_witness:
  "\<exists>m e'. drm_mode_detailed [Some 7] ((sample_base 0)[54 := 1, 56 := 200, 59 := 200, 63 := 8, 64 := 0x11]) 54 {} = Inr (Some m, e', []) \<and>
     timings_ok m"
proof -
  let ?e = "(sample_base 0)[54 := 1, 56 := 200, 59 := 200, 63 := 8, 64 := 0x11]"
  let ?r = "drm_mode_detailed [Some 7] ?e 54 {}"
  have "(case ?r of Inr (Some m, e', []) \<Rightarrow> True | _ \<Rightarrow> False)" by code_simp
  then obtain m e' where "?r = Inr (Some m, e', [])" by (auto split: sum.splits option.splits list.splits prod.splits)
  with drm_mode_detailed_ok [OF this] show ?thesis by auto
qed

subsection \<open>Decoding detailed timings\<close>

text \<open>
  The layout of a pixel timing in the EDID standard: the low bits of each value in a byte of its own,
  the high bits of the sizes in shared bytes, the high bits of the four sync values in byte 11, two
  bits each.
\<close>

definition encode_pixel_timing :: "pixel_timing \<Rightarrow> u8 list" where
  "encode_pixel_timing p =
     map word_of_int
      [0, 0, pt_hactive p mod 256, pt_hblank p mod 256, pt_hactive p div 256 * 16 + pt_hblank p div 256,
       pt_vactive p mod 256, pt_vblank p mod 256, pt_vactive p div 256 * 16 + pt_vblank p div 256,
       pt_hsync_offset p mod 256, pt_hsync_pulse_width p mod 256,
       pt_vsync_offset p mod 16 * 16 + pt_vsync_pulse_width p mod 16,
       pt_hsync_offset p div 256 * 64 + pt_hsync_pulse_width p div 256 * 16 +
         pt_vsync_offset p div 16 * 4 + pt_vsync_pulse_width p div 16,
       pt_width_mm p mod 256, pt_height_mm p mod 256, pt_width_mm p div 256 * 16 + pt_height_mm p div 256, 0, 0, 0]"

definition pt_encodable :: "pixel_timing \<Rightarrow> bool" where
  "pt_encodable p \<longleftrightarrow>
     (\<forall>v \<in> {pt_hactive p, pt_vactive p, pt_hblank p, pt_vblank p, pt_width_mm p, pt_height_mm p}. 0 \<le> v \<and> v < 4096) \<and>
     (\<forall>v \<in> {pt_hsync_offset p, pt_hsync_pulse_width p}. 0 \<le> v \<and> v < 1024) \<and>
     (\<forall>v \<in> {pt_vsync_offset p, pt_vsync_pulse_width p}. 0 \<le> v \<and> v < 64)"

lemma byte_masks:
  fixes b :: int
  assumes "0 \<le> b" "b < 256"
  shows "b AND 0xf0 = b div 16 * 16" "b AND 0xf = b mod 16" "b AND 0xc0 = b div 64 * 64"
    "b AND 0x30 = b div 16 mod 4 * 16" "b AND 0xc = b div 4 mod 4 * 4" "b AND 0x3 = b mod 4"
proof -
  have "\<forall>b \<in> set [0..255]. b AND 0xf0 = b div 16 * 16 \<and> b AND 0xf = b mod 16 \<and> b AND 0xc0 = b div 64 * 64 \<and>
    b AND 0x30 = b div 16 mod 4 * 16 \<and> b AND 0xc = b div 4 mod 4 * 4 \<and> b AND (0x3 :: int) = b mod 4"
    by code_simp
  moreover have "b \<in> set [0..255]" using assms by simp
  ultimately show "b AND 0xf0 = b div 16 * 16" "b AND 0xf = b mod 16" "b AND 0xc0 = b div 64 * 64"
    "b AND 0x30 = b div 16 mod 4 * 16" "b AND 0xc = b div 4 mod 4 * 4" "b AND 0x3 = b mod 4" by blast+
qed

lemma or_concat:
  fixes k l :: int
  assumes "0 \<le> k" "k < 2 ^ n"
  shows "l * 2 ^ n OR k = l * 2 ^ n + k" "k OR l * 2 ^ n = l * 2 ^ n + k"
proof -
  have "take_bit n k = k" using assms by (simp add: take_bit_int_eq_self)
  then have "k OR push_bit n l = k + push_bit n l" using concat_bit_def [of n k l] concat_bit_eq [of n k l] by simp
  then show "k OR l * 2 ^ n = l * 2 ^ n + k" by (simp add: push_bit_eq_mult)
  then show "l * 2 ^ n OR k = l * 2 ^ n + k" by (simp add: or.commute)
qed

lemma uint_byte: "0 \<le> v \<Longrightarrow> v < 256 \<Longrightarrow> uint (word_of_int v :: u8) = v"
  by (simp add: uint_word_of_int_eq take_bit_int_eq_self)

text \<open>Two twelve-bit values with shared high bits.\<close>

lemma decode_shared:
  assumes "0 \<le> v" "v < 4096" "0 \<le> w" "w < 4096" and b: "b = uint (word_of_int (v div 256 * 16 + w div 256) :: u8)"
  shows "push_bit 4 (b AND 0xf0) OR uint (word_of_int (v mod 256) :: u8) = v"
    "push_bit 8 (b AND 0xf) OR uint (word_of_int (w mod 256) :: u8) = w"
proof -
  have d: "0 \<le> v div 256" "v div 256 < 16" "0 \<le> w div 256" "w div 256 < 16" using assms by linarith+
  have b1: "b = v div 256 * 16 + w div 256" unfolding b using d by (intro uint_byte) linarith+
  have bb: "0 \<le> b" "b < 256" unfolding b1 using d by linarith+
  have "b div 16 = v div 256" "b mod 16 = w div 256" unfolding b1 using d by (simp_all add: div_pos_pos_trivial)
  then have m: "b AND 0xf0 = v div 256 * 16" "b AND 0xf = w div 256" using byte_masks(1,2) [OF bb] by simp_all
  have "push_bit 4 (b AND 0xf0) = v div 256 * 2 ^ 8" "push_bit 8 (b AND 0xf) = w div 256 * 2 ^ 8"
    by (simp_all add: m push_bit_eq_mult)
  then show "push_bit 4 (b AND 0xf0) OR uint (word_of_int (v mod 256) :: u8) = v"
    "push_bit 8 (b AND 0xf) OR uint (word_of_int (w mod 256) :: u8) = w"
    using or_concat(1) [of "v mod 256" 8 "v div 256"] or_concat(1) [of "w mod 256" 8 "w div 256"]
    by (simp_all add: uint_byte)
qed

text \<open>The sync values, with the high bits of all four in one byte.\<close>

lemma decode_sync:
  assumes "0 \<le> ho" "ho < 1024" "0 \<le> hw" "hw < 1024" "0 \<le> vo" "vo < 64" "0 \<le> vw" "vw < 64"
    and b: "b = uint (word_of_int (ho div 256 * 64 + hw div 256 * 16 + vo div 16 * 4 + vw div 16) :: u8)"
    and l: "l = uint (word_of_int (vo mod 16 * 16 + vw mod 16) :: u8)"
  shows "push_bit 2 (b AND 0xc0) OR uint (word_of_int (ho mod 256) :: u8) = ho"
    "push_bit 4 (b AND 0x30) OR uint (word_of_int (hw mod 256) :: u8) = hw"
    "drop_bit 2 (b AND 0xc) OR drop_bit 4 l = vo div 16 OR vo mod 16"
    "push_bit 4 (b AND 0x3) OR (l AND 0xf) = vw"
proof -
  define A B C D where "A = ho div 256" and "B = hw div 256" and "C = vo div 16" and "D = vw div 16"
  have d: "0 \<le> A" "A < 4" "0 \<le> B" "B < 4" "0 \<le> C" "C < 4" "0 \<le> D" "D < 4"
    unfolding A_def B_def C_def D_def using assms(1-8) by linarith+
  have b1: "b = A * 64 + B * 16 + C * 4 + D" unfolding b A_def [symmetric] B_def [symmetric] C_def [symmetric] D_def [symmetric]
    using d by (intro uint_byte) linarith+
  have bb: "0 \<le> b" "b < 256" unfolding b1 using d by linarith+
  have "b div 64 = A" "b div 16 = A * 4 + B" "b div 4 = A * 16 + B * 4 + C" unfolding b1 using d by linarith+
  moreover have "b mod 4 = D" unfolding b1 using d by presburger
  moreover have "(A * 4 + B) mod 4 = B" "(A * 16 + B * 4 + C) mod 4 = C" using d by presburger+
  ultimately have m: "b AND 0xc0 = A * 64" "b AND 0x30 = B * 16" "b AND 0xc = C * 4" "b AND 0x3 = D"
    using byte_masks(3-6) [OF bb] by simp_all
  have v: "0 \<le> vo mod 16" "vo mod 16 < 16" "0 \<le> vw mod 16" "vw mod 16 < 16" by simp_all
  have l1: "l = vo mod 16 * 16 + vw mod 16" unfolding l using v by (intro uint_byte) linarith+
  have lb: "0 \<le> l" "l < 256" unfolding l1 using v by linarith+
  have l2: "l div 16 = vo mod 16" "l mod 16 = vw mod 16" unfolding l1 using v by simp_all
  show "push_bit 2 (b AND 0xc0) OR uint (word_of_int (ho mod 256) :: u8) = ho"
    using or_concat(1) [of "ho mod 256" 8 A] by (simp add: m uint_byte push_bit_eq_mult A_def mult.commute)
  show "push_bit 4 (b AND 0x30) OR uint (word_of_int (hw mod 256) :: u8) = hw"
    using or_concat(1) [of "hw mod 256" 8 B] by (simp add: m uint_byte push_bit_eq_mult B_def mult.commute)
  show "drop_bit 2 (b AND 0xc) OR drop_bit 4 l = vo div 16 OR vo mod 16"
    by (simp add: m drop_bit_eq_div l2 C_def)
  show "push_bit 4 (b AND 0x3) OR (l AND 0xf) = vw"
    using or_concat(1) [of "vw mod 16" 4 D] by (simp add: m byte_masks(2) [OF lb] l2 push_bit_eq_mult D_def mult.commute)
qed

lemma encode_nths:
  "encode_pixel_timing p ! 2 = word_of_int (pt_hactive p mod 256)"
  "encode_pixel_timing p ! 3 = word_of_int (pt_hblank p mod 256)"
  "encode_pixel_timing p ! 4 = word_of_int (pt_hactive p div 256 * 16 + pt_hblank p div 256)"
  "encode_pixel_timing p ! 5 = word_of_int (pt_vactive p mod 256)"
  "encode_pixel_timing p ! 6 = word_of_int (pt_vblank p mod 256)"
  "encode_pixel_timing p ! 7 = word_of_int (pt_vactive p div 256 * 16 + pt_vblank p div 256)"
  "encode_pixel_timing p ! 8 = word_of_int (pt_hsync_offset p mod 256)"
  "encode_pixel_timing p ! 9 = word_of_int (pt_hsync_pulse_width p mod 256)"
  "encode_pixel_timing p ! 10 = word_of_int (pt_vsync_offset p mod 16 * 16 + pt_vsync_pulse_width p mod 16)"
  "encode_pixel_timing p ! 11 = word_of_int (pt_hsync_offset p div 256 * 64 + pt_hsync_pulse_width p div 256 * 16 +
     pt_vsync_offset p div 16 * 4 + pt_vsync_pulse_width p div 16)"
  "encode_pixel_timing p ! 12 = word_of_int (pt_width_mm p mod 256)"
  "encode_pixel_timing p ! 13 = word_of_int (pt_height_mm p mod 256)"
  "encode_pixel_timing p ! 14 = word_of_int (pt_width_mm p div 256 * 16 + pt_height_mm p div 256)"
  by (simp_all add: encode_pixel_timing_def)

text \<open>
  Claim C35. Decoding a detailed timing that was encoded as the EDID standard lays it out gives back every
  value, except that the two high bits of the vertical sync offset are shifted the wrong way: they are
  put on top of the low bits. So the round trip is exact for offsets below 16 lines, and only for
  those whose high and low bits happen to agree otherwise.
\<close>

theorem decode_encode_pixel_timing:
  assumes "pt_encodable p"
  shows "decode_pixel_timing (encode_pixel_timing p) 0 =
    p\<lparr>pt_vsync_offset := pt_vsync_offset p div 16 OR pt_vsync_offset p mod 16\<rparr>"
proof -
  have r: "0 \<le> pt_hactive p" "pt_hactive p < 4096" "0 \<le> pt_vactive p" "pt_vactive p < 4096" "0 \<le> pt_hblank p" "pt_hblank p < 4096"
    "0 \<le> pt_vblank p" "pt_vblank p < 4096" "0 \<le> pt_width_mm p" "pt_width_mm p < 4096" "0 \<le> pt_height_mm p" "pt_height_mm p < 4096"
    "0 \<le> pt_hsync_offset p" "pt_hsync_offset p < 1024" "0 \<le> pt_hsync_pulse_width p" "pt_hsync_pulse_width p < 1024"
    "0 \<le> pt_vsync_offset p" "pt_vsync_offset p < 64" "0 \<le> pt_vsync_pulse_width p" "pt_vsync_pulse_width p < 64"
    using assms by (auto simp: pt_encodable_def)
  note h = decode_shared [OF r(1,2,5,6) refl] and v = decode_shared [OF r(3,4,7,8) refl] and s = decode_shared [OF r(9,10,11,12) refl]
  note y = decode_sync [OF r(13-20) refl refl]
  have s': "k OR j = x" if "j OR k = x" for j k x :: int using that by (simp only: or.commute)
  show ?thesis
    unfolding decode_pixel_timing_def Let_def add_0 encode_nths h v y s(1) [THEN s'] s(2) [THEN s']
    by (rule pixel_timing.equality) simp_all
qed

text \<open>An offset of 16 lines is read as one line.\<close>

definition sample_pt :: pixel_timing where
  "sample_pt = \<lparr>pt_hactive = 1920, pt_vactive = 1080, pt_hblank = 280, pt_vblank = 45, pt_hsync_offset = 88,
     pt_hsync_pulse_width = 44, pt_vsync_offset = 16, pt_vsync_pulse_width = 5, pt_width_mm = 510, pt_height_mm = 287\<rparr>"

theorem decode_encode_pixel_timing_witness:
  "decode_pixel_timing (encode_pixel_timing sample_pt) 0 = sample_pt\<lparr>pt_vsync_offset := 1\<rparr>"
proof -
  have "pt_encodable sample_pt" by (simp add: pt_encodable_def sample_pt_def)
  from decode_encode_pixel_timing [OF this] show ?thesis by (simp add: sample_pt_def)
qed

end
