(* ===== verification/Drm_Edid_Facts.thy ===== *)
theory Drm_Edid_Facts
  imports Drm_Edid_Modes
begin

text \<open>
  Facts about the modes made from the tables and formulas of \<open>drm_edid.c\<close>: the established timings III,
  the CEA modes and their numbers, the modes for connectors without EDID, and an EDID on which the
  secondary GTF formula divides by zero.
\<close>

subsection \<open>Established timings III\<close>

text \<open>
  The loops of \<open>drm_est3_modes\<close> look at every entry of the table \<open>est3_modes\<close> exactly once and in
  order, except for each eighth one: the inner loop stops before bit 0, so the modes of these bits
  (1152x864 at 75 Hz, 1280x1024 at 85, 1400x1050 at 75, 1600x1200 at 70 and 1920x1200 at 60) are
  never added.
\<close>

theorem est3_bits_entries:
  "map (\<lambda>(i, j). i * 8 + (7 - j)) est3_bits = filter (\<lambda>m. m mod 8 \<noteq> 7) [0..<length est3_modes]"
  by code_simp

subsection \<open>A division by zero\<close>

text \<open>
  A base block of version 1.3 with the standard timing 648x486 at 60 Hz and a range descriptor with a
  secondary GTF curve whose offset C is 100 percent and whose gradient is 0.
\<close>

definition gtf2_base :: "u8 list" where
  "gtf2_base =
     (sample_base 0)[38 := 50, 39 := 0x40, 57 := 0xfd, 64 := 0x02, 66 := 1, 67 := 200, 71 := 200, 127 := 0x00]"

text \<open>
  There is an EDID that passes all checks and on which \<open>drm_add_edid_modes\<close> divides by zero: with a
  secondary GTF curve of this kind the duty cycle of the blanking becomes 100 percent, and the formula divides by
  the remaining part of the line. A monitor can so crash the kernel.
\<close>

theorem drm_add_edid_modes_gtf2_trap:
  "drm_edid_is_valid gtf2_base = (True, gtf2_base) \<and>
   drm_add_edid_modes conn0 [Some 1, Some 2] (Some gtf2_base) = Inl BUG"
  by code_simp

subsection \<open>CEA modes and their numbers\<close>

lemma cea_index_first:
  assumes "v < length ms" "cea_matches m (ms ! v)"
  shows "\<exists>k \<le> v. cea_index m ms i = i + k + 1 \<and> cea_matches m (ms ! k)"
  using assms
proof (induction ms arbitrary: v i)
  case (Cons a ms)
  show ?case
  proof (cases "cea_matches m a")
    case True
    then show ?thesis by (intro exI [of _ 0]) simp
  next
    case False
    then obtain w where "v = Suc w" "w < length ms" "cea_matches m (ms ! w)" using Cons.prems by (cases v) auto
    with Cons.IH [of w "i + 1"] obtain k where "k \<le> w" "cea_index m ms (i + 1) = i + 1 + k + 1" "cea_matches m (ms ! k)" by auto
    with False \<open>v = Suc w\<close> show ?thesis by (intro exI [of _ "Suc k"]) simp
  qed
qed simp

lemma cea_clocks: "list_all (\<lambda>m. 0 < clock m \<and> clock m < 4294967296) edid_cea_modes"
  by code_simp

lemma length_cea_modes: "length edid_cea_modes = 64"
  by code_simp

lemma vic_byte: "v < 64 \<Longrightarrow> unat (word_of_nat v :: u8) = v"
  by (simp add: unat_of_nat)

text \<open>
  The mode that is added for a short video descriptor of a CEA data block is recognised again: it
  has well-formed timings, and \<open>drm_match_cea_mode\<close> finds a video code for it, the smallest of those
  with the same timings, never a larger one than the code it was made from.
\<close>

theorem cea_mode_vic_roundtrip:
  assumes "v < length edid_cea_modes" "b AND 127 = word_of_nat (Suc v)"
    and "cea_mode_step b (c, Some i # ids, n) = (c', ids', n')" and "m = last (probed_modes c')" "vic = drm_match_cea_mode m"
  shows "probed_modes c' = probed_modes c @ [m] \<and> n' = n + 1 \<and> timings_ok m \<and> 1 \<le> vic \<and> vic \<le> v + 1 \<and>
    drm_mode_equal_no_clocks m (edid_cea_modes ! (vic - 1)) \<and> drm_mode_equal_no_clocks m (edid_cea_modes ! v)"
proof -
  let ?t = "edid_cea_modes ! v"
  have v: "v < 64" using assms(1) by (simp add: length_cea_modes)
  have t: "?t \<in> set edid_cea_modes" using assms(1) by simp
  then have clk: "0 < clock ?t" "clock ?t < 4294967296" "timings_ok ?t"
    using cea_clocks cea_modes_ok by (auto simp: list_all_iff)
  have c': "probed_modes c' = probed_modes c @ [?t\<lparr>base_id := i, vrefresh := 0\<rparr>]" "n' = n + 1"
    using assms(3) v
    by (auto simp: cea_mode_step_def Let_def assms(2) vic_byte length_cea_modes drm_mode_create_def drm_mode_duplicate_def
        drm_mode_copy_def drm_mode_probed_add_def)
  then have m: "m = ?t\<lparr>base_id := i, vrefresh := 0\<rparr>" using assms(4) by simp
  have eq: "drm_mode_equal_no_clocks m ?t" by (simp add: m drm_mode_equal_no_clocks_def)
  have "cea_matches m ?t" using clk eq by (simp add: m cea_matches_def)
  from cea_index_first [OF assms(1) this, of 0] obtain k
    where k: "k \<le> v" "cea_index m edid_cea_modes 0 = k + 1" "cea_matches m (edid_cea_modes ! k)" by auto
  then have "vic = k + 1" using clk assms(5) by (simp add: drm_match_cea_mode_def m)
  moreover have "timings_ok m" using clk(3) by (simp add: m timings_ok_def)
  ultimately show ?thesis using k c' m eq by (simp add: cea_matches_def)
qed

theorem cea_mode_vic_roundtrip_witness:
  "probed_modes (fst (cea_mode_step 0x83 (conn0, [Some 9], 0))) =
     [last (probed_modes (fst (cea_mode_step 0x83 (conn0, [Some 9], 0))))]"
proof -
  obtain c' ids' n' where s: "cea_mode_step 0x83 (conn0, [Some 9], 0) = (c', ids', n')" by (metis prod_cases3)
  have "(2 :: nat) < length edid_cea_modes" "(0x83 :: u8) AND 127 = word_of_nat (Suc 2)" by (simp_all add: length_cea_modes)
  from cea_mode_vic_roundtrip [OF this s refl refl] have "probed_modes c' = probed_modes conn0 @ [last (probed_modes c')]" by blast
  moreover have "probed_modes conn0 = []" by (simp add: conn0_def)
  ultimately show ?thesis unfolding s fst_conv by simp
qed

subsection \<open>Connectors without an EDID\<close>

definition no_id :: "drm_display_mode \<Rightarrow> drm_display_mode" where
  "no_id m = m\<lparr>base_id := 0\<rparr>"

lemma dmt_no_id: "list_all (\<lambda>m. base_id m = 0) drm_dmt_modes"
  by code_simp

lemma length_dmt_modes: "length drm_dmt_modes = 80"
  by code_simp

text \<open>Whether a mode of the table fits the limits.\<close>

definition noedid_fits :: "int \<Rightarrow> int \<Rightarrow> drm_display_mode \<Rightarrow> bool" where
  "noedid_fits w h p \<longleftrightarrow> (w \<le> 0 \<or> h \<le> 0 \<or> hdisplay p \<le> w \<and> vdisplay p \<le> h) \<and> drm_mode_vrefresh p \<le> 61"

lemma noedid_fold:
  assumes "list_all (\<lambda>m. base_id m = 0) ps" "length ps \<le> length ns"
    and "fold (noedid_step (if w < 0 then 0 else w) (if h < 0 then 0 else h)) ps (c, map Some ns, n) = (c', ids', n')"
  shows "map no_id (probed_modes c') = map no_id (probed_modes c) @ filter (noedid_fits w h) ps \<and>
    n' = n + length (filter (noedid_fits w h) ps)"
  using assms
proof (induction ps arbitrary: c ns n)
  case (Cons p ps)
  let ?w = "if w < 0 then 0 else w" and ?h = "if h < 0 then 0 else h"
  obtain i ns' where ns: "ns = i # ns'" using Cons.prems(2) by (cases ns) auto
  have fits: "(?w \<noteq> 0 \<and> ?h \<noteq> 0 \<and> (hdisplay p > ?w \<or> vdisplay p > ?h) \<or> drm_mode_vrefresh p > 61) \<longleftrightarrow> \<not> noedid_fits w h p"
    by (auto simp: noedid_fits_def)
  show ?case
  proof (cases "noedid_fits w h p")
    case True
    let ?c = "drm_mode_probed_add c (p\<lparr>base_id := i\<rparr>)"
    have "noedid_step ?w ?h p (c, map Some ns, n) = (?c, map Some ns', n + 1)"
      unfolding noedid_step_def prod.case fits
      by (simp add: True ns drm_mode_create_def drm_mode_duplicate_def drm_mode_copy_def add_mode_def mode0_def)
    then have "fold (noedid_step ?w ?h) ps (?c, map Some ns', n + 1) = (c', ids', n')" using Cons.prems(3) by simp
    moreover have "no_id (p\<lparr>base_id := i\<rparr>) = p" using Cons.prems(1) by (simp add: no_id_def)
    ultimately show ?thesis
      using Cons.IH [of ns' ?c "n + 1"] Cons.prems(1,2) True by (simp add: ns drm_mode_probed_add_def)
  next
    case False
    then have "noedid_step ?w ?h p (c, map Some ns, n) = (c, map Some ns, n)" unfolding noedid_step_def prod.case fits by simp
    then show ?thesis using Cons.IH [of ns c n] Cons.prems False by simp
  qed
qed simp

text \<open>
  Without an EDID, and when no allocation fails, \<open>drm_add_modes_noedid\<close> appends exactly those modes of
  the DMT table that fit the given size (if both dimensions are given) and refresh at most at 61 Hz, in
  the order of the table; all of them have well-formed timings, and the returned number is theirs.
\<close>

theorem drm_add_modes_noedid_correct:
  assumes "length drm_dmt_modes \<le> length ns" "drm_add_modes_noedid c (map Some ns) w h = (c', ids', n)"
  shows "map no_id (probed_modes c') = map no_id (probed_modes c) @ filter (noedid_fits w h) drm_dmt_modes \<and>
    n = length (filter (noedid_fits w h) drm_dmt_modes) \<and> list_all timings_ok (filter (noedid_fits w h) drm_dmt_modes)"
  using noedid_fold [OF dmt_no_id assms(1), of w h c 0 c' ids' n] assms(2) dmt_modes_ok
  by (simp add: drm_add_modes_noedid_def Let_def list_all_iff)

theorem drm_add_modes_noedid_correct_witness:
  "snd (snd (drm_add_modes_noedid conn0 (map Some [1..80]) 800 600)) = length (filter (noedid_fits 800 600) drm_dmt_modes)"
proof -
  obtain c' ids' n where r: "drm_add_modes_noedid conn0 (map Some [1..80]) 800 600 = (c', ids', n)" by (metis prod_cases3)
  have "length drm_dmt_modes \<le> length [1 .. 80 :: int]" unfolding length_dmt_modes by simp
  from drm_add_modes_noedid_correct [OF this r] show ?thesis unfolding r by simp
qed

end
