(* ===== verification/Drm_Mode_Object.thy ===== *)
theory Drm_Mode_Object
  imports Drm_Idr
begin

text \<open>
  Mode objects (\<open>drm_mode_object_get\<close>, \<open>_put\<close> and \<open>_find\<close> of \<open>drm_crtc.c\<close>): framebuffers, CRTCs,
  planes, connectors, encoders, modes, properties and blobs share one space of ids. An object is named by
  its type and its place in memory; the id it carries is part of the state.
\<close>

datatype mode_object_type =
    OBJECT_CRTC | OBJECT_CONNECTOR | OBJECT_ENCODER | OBJECT_MODE | OBJECT_PROPERTY | OBJECT_FB | OBJECT_BLOB | OBJECT_PLANE

type_synonym mode_ref = "mode_object_type \<times> nat"

record 't mode_config =
  crtc_idr :: "'t idr"
  object_id :: "mode_ref \<Rightarrow> u32"

text \<open>The id 0 is never given out. \<open>idr_pre_get\<close> returns \<open>-1\<close>, and there is no \<open>-EAGAIN\<close>.\<close>

definition drm_mode_object_get ::
  "(mode_ref ptr, 't) avl_ops \<Rightarrow> bool \<Rightarrow> mode_ref \<Rightarrow> ('t, 'z) mode_config_scheme \<Rightarrow> unit result \<times> ('t, 'z) mode_config_scheme" where
  "drm_mode_object_get A alloc r s =
     (if idr_pre_get (crtc_idr s) 0 = Inr () then (Inl ENOMEM, s)
      else (case idr_get_new_above A alloc (crtc_idr s) (Some r) 1 of
              (Inl e, idrp) \<Rightarrow> (Inl e, s\<lparr>crtc_idr := idrp\<rparr>)
            | (Inr new_id, idrp) \<Rightarrow> (Inr (), s\<lparr>crtc_idr := idrp, object_id := (object_id s)(r := new_id)\<rparr>)))"

definition drm_mode_object_put ::
  "(mode_ref ptr, 't) avl_ops \<Rightarrow> bool \<Rightarrow> mode_ref \<Rightarrow> ('t, 'z) mode_config_scheme \<Rightarrow> ('t, 'z) mode_config_scheme" where
  "drm_mode_object_put A alloc r s = s\<lparr>crtc_idr := snd (idr_remove A alloc (crtc_idr s) (object_id s r))\<rparr>"

definition drm_mode_object_find ::
  "(mode_ref ptr, 't) avl_ops \<Rightarrow> u32 \<Rightarrow> mode_object_type \<Rightarrow> ('t, 'z) mode_config_scheme \<Rightarrow> nat ptr" where
  "drm_mode_object_find A i ty s =
     (case idr_find A (crtc_idr s) i of
        None \<Rightarrow> None
      | Some (ty', q) \<Rightarrow> if ty' \<noteq> ty \<or> object_id s (ty', q) \<noteq> i then None else Some q)"

subsection \<open>Registered objects\<close>

text \<open>
  An object is registered when the id it carries leads to it. The invariant: whatever is found
  under an id carries that id.
\<close>

definition registered :: "(mode_ref ptr, 't) avl_ops \<Rightarrow> ('t, 'z) mode_config_scheme \<Rightarrow> mode_ref \<Rightarrow> bool" where
  "registered A s r \<longleftrightarrow> idr_find A (crtc_idr s) (object_id s r) = Some r"

definition ids_ok :: "(mode_ref ptr, 't) avl_ops \<Rightarrow> ('t \<Rightarrow> bool) \<Rightarrow> ('t, 'z) mode_config_scheme \<Rightarrow> bool" where
  "ids_ok A ok s \<longleftrightarrow> idr_inv A ok (crtc_idr s) \<and> idr_find A (crtc_idr s) 0 = None \<and>
     (\<forall>i r. idr_find A (crtc_idr s) i = Some r \<longrightarrow> object_id s r = i)"

lemma idr_find_upd:
  "avl_find A (used_ids idrp') = (avl_find A (used_ids idrp))(i := x) \<Longrightarrow>
     idr_find A idrp' = (idr_find A idrp)(i := (case x of None \<Rightarrow> None | Some ob \<Rightarrow> ob))"
  by (auto simp: fun_eq_iff idr_find_eq)

lemma ids_okD:
  assumes "ids_ok A ok s"
  shows "idr_inv A ok (crtc_idr s)" "idr_find A (crtc_idr s) 0 = None"
    "idr_find A (crtc_idr s) i = Some r \<Longrightarrow> object_id s r = i"
  using assms unfolding ids_ok_def by blast+

lemma ids_okI:
  "idr_inv A ok (crtc_idr s) \<Longrightarrow> idr_find A (crtc_idr s) 0 = None \<Longrightarrow>
     (\<And>i r. idr_find A (crtc_idr s) i = Some r \<Longrightarrow> object_id s r = i) \<Longrightarrow> ids_ok A ok s"
  unfolding ids_ok_def by blast

lemma registered_id: "ids_ok A ok s \<Longrightarrow> registered A s r \<Longrightarrow> object_id s r \<noteq> 0"
  using ids_okD(2) [of A ok s] by (auto simp: registered_def)

lemma registered_iff: "ids_ok A ok s \<Longrightarrow> registered A s r \<longleftrightarrow> (\<exists>i. idr_find A (crtc_idr s) i = Some r)"
  unfolding registered_def using ids_okD(3) [of A ok s] by metis

lemma drm_mode_object_find_iff:
  assumes "ids_ok A ok s"
  shows "drm_mode_object_find A i ty s = Some q \<longleftrightarrow> registered A s (ty, q) \<and> object_id s (ty, q) = i"
proof (cases "idr_find A (crtc_idr s) i")
  case None
  then show ?thesis by (auto simp: drm_mode_object_find_def registered_def)
next
  case (Some r)
  obtain ty' q' where r: "r = (ty', q')" by force
  have "object_id s (ty', q') = i" using ids_okD(3) [OF assms Some] r by simp
  then show ?thesis using Some r by (auto simp: drm_mode_object_find_def registered_def)
qed

lemma object_get_ok:
  assumes laws: "avl_laws A ok" and inv: "ids_ok A ok s" and new: "\<not> registered A s r"
    and run: "drm_mode_object_get A alloc r s = (ret, s')"
  shows "ids_ok A ok s' \<and>
    (case ret of
       Inl e \<Rightarrow> s' = s\<lparr>crtc_idr := crtc_idr s'\<rparr> \<and> registered A s' = registered A s \<and> (alloc \<longrightarrow> e = EPERM)
     | Inr _ \<Rightarrow> (\<exists>i. i \<noteq> 0 \<and> s' = s\<lparr>crtc_idr := crtc_idr s', object_id := (object_id s)(r := i)\<rparr>) \<and>
         registered A s' = (registered A s)(r := True))"
proof -
  have iv: "idr_inv A ok (crtc_idr s)" using inv by (simp add: ids_ok_def)
  obtain res idrp where g: "idr_get_new_above A alloc (crtc_idr s) (Some r) 1 = (res, idrp)" by force
  show ?thesis
  proof (cases res)
    case (Inl e)
    then have s': "ret = Inl e" "s' = s\<lparr>crtc_idr := idrp\<rparr>"
      using run g by (simp_all add: drm_mode_object_get_def idr_pre_get_def)
    note f = idr_get_new_above_failure [OF laws iv g [unfolded Inl]]
    have find: "idr_find A idrp = idr_find A (crtc_idr s)" using f by (simp add: fun_eq_iff idr_find_eq)
    have "alloc \<longrightarrow> e = EPERM" using f by (auto simp: sint_nonneg_iff)
    moreover have "ids_ok A ok s'"
      using f find ids_okD [OF inv] by (intro ids_okI) (simp_all add: s')
    ultimately show ?thesis using s' find by (simp add: registered_def fun_eq_iff)
  next
    case (Inr i)
    then have s': "ret = Inr ()" "s' = s\<lparr>crtc_idr := idrp, object_id := (object_id s)(r := i)\<rparr>"
      using run g by (simp_all add: drm_mode_object_get_def idr_pre_get_def)
    note f = idr_get_new_above_success [OF laws iv g [unfolded Inr]]
    have find: "idr_find A idrp = (idr_find A (crtc_idr s))(i := Some r)"
      using idr_find_upd [of A idrp "crtc_idr s" i "Some (Some r)"] f by simp
    have i: "i \<noteq> 0" using f by auto
    have old: "idr_find A (crtc_idr s) i = None" using f by (simp add: idr_find_eq)
    have none: "idr_find A (crtc_idr s) j \<noteq> Some r" for j
      using new inv unfolding registered_iff [OF inv] by blast
    have idr: "idr_inv A ok idrp" using f by blast
    have ids: "ids_ok A ok s'"
    proof (rule ids_okI)
      show "idr_inv A ok (crtc_idr s')" using idr by (simp add: s')
      show "idr_find A (crtc_idr s') 0 = None" using i ids_okD(2) [OF inv] by (simp add: s' find)
      show "object_id s' r' = j" if "idr_find A (crtc_idr s') j = Some r'" for j r'
        using that none [of j] ids_okD(3) [OF inv, of j r'] by (cases "j = i") (auto simp: s' find)
    qed
    have "registered A s' = (registered A s)(r := True)"
    proof
      fix r'
      show "registered A s' r' = ((registered A s)(r := True)) r'"
      proof (cases "r' = r")
        case True
        then show ?thesis by (simp add: registered_def s' find)
      next
        case False
        then show ?thesis using old by (auto simp: registered_def s' find)
      qed
    qed
    with ids i s' show ?thesis by auto
  qed
qed

lemma object_put_ok:
  assumes laws: "avl_laws A ok" and inv: "ids_ok A ok s" and reg: "registered A s r"
  shows "ids_ok A ok (drm_mode_object_put A True r s) \<and>
    registered A (drm_mode_object_put A True r s) = (registered A s)(r := False)"
proof -
  let ?i = "object_id s r"
  have iv: "idr_inv A ok (crtc_idr s)" using inv by (simp add: ids_ok_def)
  have used: "idr_find_used_id A (crtc_idr s) ?i \<noteq> None"
    using reg by (auto simp: registered_def idr_find_def split: option.splits)
  from idr_remove_spec [OF laws iv used] obtain idrp where f:
    "idr_remove A True (crtc_idr s) ?i = (Inr (), idrp)" "idr_inv A ok idrp"
    "avl_find A (used_ids idrp) = (avl_find A (used_ids (crtc_idr s)))(?i := None)" by blast
  have find: "idr_find A idrp = (idr_find A (crtc_idr s))(?i := None)"
    using idr_find_upd [OF f(3)] by simp
  have s': "drm_mode_object_put A True r s = s\<lparr>crtc_idr := idrp\<rparr>" using f(1) by (simp add: drm_mode_object_put_def)
  have "registered A (s\<lparr>crtc_idr := idrp\<rparr>) r' = ((registered A s)(r := False)) r'" for r'
    using reg by (auto simp: registered_def find)
  moreover have "ids_ok A ok (s\<lparr>crtc_idr := idrp\<rparr>)"
  proof (rule ids_okI)
    show "object_id (s\<lparr>crtc_idr := idrp\<rparr>) r' = j" if "idr_find A (crtc_idr (s\<lparr>crtc_idr := idrp\<rparr>)) j = Some r'" for j r'
      using that ids_okD(3) [OF inv, of j r'] by (cases "j = ?i") (auto simp: find)
  qed (use f(2) ids_okD(2) [OF inv] in \<open>simp_all add: find\<close>)
  ultimately show ?thesis by (simp add: s' fun_eq_iff)
qed

text \<open>When \<open>idr_remove\<close> has no memory the object stays registered; no caller looks at the result.\<close>

lemma object_put_no_memory: "drm_mode_object_put A False r s = s"
  by (simp add: drm_mode_object_put_def idr_remove_def split: option.splits)

end
