(* ===== verification/Drm_Property.thy ===== *)
theory Drm_Property
  imports Drm_Mode_Object
begin

text \<open>
  Properties of mode objects (\<open>drm_crtc.c\<close>): named values with a range, an enumeration or a set of bits as
  their type, that user space reads and changes on connectors, CRTCs and planes, and blobs of bytes such as
  the EDID of a monitor.

  Properties and blobs are cells of two heaps; the access to one that does not exist, or to an array
  out of its bounds, is \<open>Inl BUG\<close>. The flags of \<open>drm_mode.h\<close>, which is not in the repository, are sets of
  names, and \<open>len\<close> is its \<open>DRM_PROP_NAME_LEN\<close>. What the memory allocators return is an argument; freeing a
  null pointer does nothing.
\<close>

subsection \<open>State\<close>

datatype prop_flag = PROP_PENDING | PROP_RANGE | PROP_IMMUTABLE | PROP_ENUM | PROP_BLOB | PROP_BITMASK

record drm_property =
  prop_flags :: "prop_flag set"
  prop_name :: string
  prop_values :: "u64 list"
  enum_blob_list :: "(u64 \<times> string) list"

text \<open>The pointers to properties in \<open>struct drm_mode_config\<close>.\<close>

datatype property_slot =
    edid_property | dpms_property
  | dvi_i_subconnector_property | dvi_i_select_subconnector_property
  | tv_subconnector_property | tv_select_subconnector_property | tv_mode_property
  | tv_left_margin_property | tv_right_margin_property | tv_top_margin_property | tv_bottom_margin_property
  | tv_brightness_property | tv_contrast_property | tv_flicker_reduction_property | tv_overscan_property
  | tv_saturation_property | tv_hue_property
  | scaling_mode_property | dithering_mode_property | dirty_info_property

text \<open>
  \<open>obj_props\<close> has the \<open>properties\<close> of every object: \<open>None\<close> when the object cannot have any, otherwise the ids
  and values in use. \<open>edid_blob_ptr\<close> belongs to the connectors.
\<close>

record 't props_config = "'t mode_config" +
  properties :: "nat \<Rightarrow> drm_property option"
  property_list :: "nat list"
  blobs :: "nat \<Rightarrow> u8 list option"
  property_blob_list :: "nat list"
  slots :: "property_slot \<Rightarrow> nat ptr"
  obj_props :: "mode_ref \<Rightarrow> (u32 \<times> u64) list option"
  edid_blob_ptr :: "nat \<Rightarrow> nat ptr"

definition DRM_OBJECT_MAX_PROPERTY :: nat where "DRM_OBJECT_MAX_PROPERTY = 24"

text \<open>\<open>strncpy\<close> followed by a terminator at the end of the array.\<close>

definition copy_name :: "nat \<Rightarrow> string \<Rightarrow> string" where
  "copy_name len nm = take (len - 1) nm"

subsection \<open>Creating and destroying properties\<close>

text \<open>What the allocators return for a new property: its memory, its array, its id, its enumerations.\<close>

record prop_mem =
  new_prop :: "nat ptr"
  values_mem :: bool
  id_mem :: bool
  enum_mem :: "nat \<Rightarrow> bool"

definition drm_property_create ::
  "(mode_ref ptr, 't) avl_ops \<Rightarrow> nat \<Rightarrow> prop_mem \<Rightarrow> prop_flag set \<Rightarrow> string option \<Rightarrow> nat \<Rightarrow>
     ('t, 'z) props_config_scheme \<Rightarrow> nat ptr \<times> ('t, 'z) props_config_scheme" where
  "drm_property_create A len mem flags nm num_values s =
     (case new_prop mem of
        None \<Rightarrow> (None, s)
      | Some p \<Rightarrow>
          if num_values \<noteq> 0 \<and> \<not> values_mem mem then (None, s)
          else (case drm_mode_object_get A (id_mem mem) (OBJECT_PROPERTY, p) s of
                  (Inl e, s) \<Rightarrow> (None, s)
                | (Inr _, s) \<Rightarrow>
                    (Some p, s\<lparr>properties := (properties s)(p \<mapsto>
                                 \<lparr>prop_flags = flags, prop_name = (case nm of None \<Rightarrow> [] | Some n \<Rightarrow> copy_name len n),
                                  prop_values = replicate num_values 0, enum_blob_list = []\<rparr>),
                               property_list := property_list s @ [p]\<rparr>)))"

text \<open>The first entry of the list with the value gets the name.\<close>

fun rename_enum :: "u64 \<Rightarrow> string \<Rightarrow> (u64 \<times> string) list \<Rightarrow> (u64 \<times> string) list" where
  "rename_enum v nm [] = []"
| "rename_enum v nm ((w, old) # es) = (if w = v then (w, nm) # es else (w, old) # rename_enum v nm es)"

definition drm_property_add_enum ::
  "nat \<Rightarrow> bool \<Rightarrow> nat \<Rightarrow> nat \<Rightarrow> u64 \<Rightarrow> string \<Rightarrow> ('t, 'z) props_config_scheme \<Rightarrow>
     (unit result \<times> ('t, 'z) props_config_scheme) result" where
  "drm_property_add_enum len kzalloc p index v nm s =
     (case properties s p of
        None \<Rightarrow> Inl BUG
      | Some prop \<Rightarrow>
          if prop_flags prop \<inter> {PROP_ENUM, PROP_BITMASK} = {} then Inr (Inl EINVAL, s)
          else if PROP_BITMASK \<in> prop_flags prop \<and> v > 63 then Inr (Inl EINVAL, s)
          else if v \<in> fst ` set (enum_blob_list prop)
          then Inr (Inr (), s\<lparr>properties := (properties s)(p \<mapsto>
                 prop\<lparr>enum_blob_list := rename_enum v (copy_name len nm) (enum_blob_list prop)\<rparr>)\<rparr>)
          else if \<not> kzalloc then Inr (Inl ENOMEM, s)
          else if index \<ge> length (prop_values prop) then Inl BUG
          else Inr (Inr (), s\<lparr>properties := (properties s)(p \<mapsto>
                 prop\<lparr>prop_values := (prop_values prop)[index := v],
                      enum_blob_list := enum_blob_list prop @ [(v, copy_name len nm)]\<rparr>)\<rparr>))"

text \<open>\<open>rm\<close>: whether \<open>idr_remove\<close> gets its memory.\<close>

definition drm_property_destroy ::
  "(mode_ref ptr, 't) avl_ops \<Rightarrow> bool \<Rightarrow> nat \<Rightarrow> ('t, 'z) props_config_scheme \<Rightarrow> ('t, 'z) props_config_scheme result" where
  "drm_property_destroy A rm p s =
     (case properties s p of
        None \<Rightarrow> Inl BUG
      | Some prop \<Rightarrow>
          let s = drm_mode_object_put A rm (OBJECT_PROPERTY, p) s
          in Inr (s\<lparr>property_list := remove1 p (property_list s), properties := (properties s)(p := None)\<rparr>))"

fun add_enums ::
  "nat \<Rightarrow> (nat \<Rightarrow> bool) \<Rightarrow> nat \<Rightarrow> nat \<Rightarrow> (int \<times> string) list \<Rightarrow> ('t, 'z) props_config_scheme \<Rightarrow>
     (unit result \<times> ('t, 'z) props_config_scheme) result" where
  "add_enums len kzalloc p i [] s = Inr (Inr (), s)"
| "add_enums len kzalloc p i ((ty, nm) # props) s =
     (case drm_property_add_enum len (kzalloc i) p i (word_of_int ty) nm s of
        Inl e \<Rightarrow> Inl e
      | Inr (Inl e, s) \<Rightarrow> Inr (Inl e, s)
      | Inr (Inr _, s) \<Rightarrow> add_enums len kzalloc p (i + 1) props s)"

definition create_listed ::
  "(mode_ref ptr, 't) avl_ops \<Rightarrow> nat \<Rightarrow> prop_mem \<Rightarrow> bool \<Rightarrow> prop_flag set \<Rightarrow> string option \<Rightarrow> (int \<times> string) list \<Rightarrow>
     ('t, 'z) props_config_scheme \<Rightarrow> (nat ptr \<times> ('t, 'z) props_config_scheme) result" where
  "create_listed A len mem rm flags nm props s =
     (case drm_property_create A len mem flags nm (length props) s of
        (None, s) \<Rightarrow> Inr (None, s)
      | (Some p, s) \<Rightarrow>
          (case add_enums len (enum_mem mem) p 0 props s of
             Inl e \<Rightarrow> Inl e
           | Inr (Inr _, s) \<Rightarrow> Inr (Some p, s)
           | Inr (Inl _, s) \<Rightarrow>
               (case drm_property_destroy A rm p s of Inl e \<Rightarrow> Inl e | Inr s \<Rightarrow> Inr (None, s))))"

definition drm_property_create_enum ::
  "(mode_ref ptr, 't) avl_ops \<Rightarrow> nat \<Rightarrow> prop_mem \<Rightarrow> bool \<Rightarrow> prop_flag set \<Rightarrow> string option \<Rightarrow> (int \<times> string) list \<Rightarrow>
     ('t, 'z) props_config_scheme \<Rightarrow> (nat ptr \<times> ('t, 'z) props_config_scheme) result" where
  "drm_property_create_enum A len mem rm flags nm props s = create_listed A len mem rm (insert PROP_ENUM flags) nm props s"

definition drm_property_create_bitmask ::
  "(mode_ref ptr, 't) avl_ops \<Rightarrow> nat \<Rightarrow> prop_mem \<Rightarrow> bool \<Rightarrow> prop_flag set \<Rightarrow> string option \<Rightarrow> (int \<times> string) list \<Rightarrow>
     ('t, 'z) props_config_scheme \<Rightarrow> (nat ptr \<times> ('t, 'z) props_config_scheme) result" where
  "drm_property_create_bitmask A len mem rm flags nm props s = create_listed A len mem rm (insert PROP_BITMASK flags) nm props s"

definition drm_property_create_range ::
  "(mode_ref ptr, 't) avl_ops \<Rightarrow> nat \<Rightarrow> prop_mem \<Rightarrow> prop_flag set \<Rightarrow> string option \<Rightarrow> u64 \<Rightarrow> u64 \<Rightarrow>
     ('t, 'z) props_config_scheme \<Rightarrow> nat ptr \<times> ('t, 'z) props_config_scheme" where
  "drm_property_create_range A len mem flags nm mn mx s =
     (case drm_property_create A len mem (insert PROP_RANGE flags) nm 2 s of
        (None, s) \<Rightarrow> (None, s)
      | (Some p, s) \<Rightarrow>
          (Some p, s\<lparr>properties := (properties s)(p := map_option (\<lambda>prop. prop\<lparr>prop_values := (prop_values prop)[0 := mn, 1 := mx]\<rparr>)
             (properties s p))\<rparr>))"

subsection \<open>Values on objects\<close>

text \<open>\<open>property->base.id\<close>.\<close>

definition property_id :: "nat ptr \<Rightarrow> ('t, 'z) props_config_scheme \<Rightarrow> u32 result" where
  "property_id q s =
     (case q of
        None \<Rightarrow> Inl BUG
      | Some p \<Rightarrow> if properties s p = None then Inl BUG else Inr (object_id s (OBJECT_PROPERTY, p)))"

definition drm_object_attach_property ::
  "mode_ref \<Rightarrow> nat ptr \<Rightarrow> u64 \<Rightarrow> ('t, 'z) props_config_scheme \<Rightarrow> ('t, 'z) props_config_scheme result" where
  "drm_object_attach_property r q v s =
     (case obj_props s r of
        None \<Rightarrow> Inl BUG
      | Some ps \<Rightarrow>
          if length ps = DRM_OBJECT_MAX_PROPERTY then Inr s
          else (case property_id q s of
                  Inl e \<Rightarrow> Inl e
                | Inr i \<Rightarrow> Inr (s\<lparr>obj_props := (obj_props s)(r \<mapsto> ps @ [(i, v)])\<rparr>)))"

fun set_first :: "u32 \<Rightarrow> u64 \<Rightarrow> (u32 \<times> u64) list \<Rightarrow> (u32 \<times> u64) list option" where
  "set_first i v [] = None"
| "set_first i v ((j, w) # ps) = (if j = i then Some ((j, v) # ps) else map_option ((#) (j, w)) (set_first i v ps))"

definition drm_object_property_set_value ::
  "mode_ref \<Rightarrow> nat ptr \<Rightarrow> u64 \<Rightarrow> ('t, 'z) props_config_scheme \<Rightarrow> (unit result \<times> ('t, 'z) props_config_scheme) result" where
  "drm_object_property_set_value r q v s =
     (case obj_props s r of
        None \<Rightarrow> Inl BUG
      | Some [] \<Rightarrow> Inr (Inl EINVAL, s)
      | Some ps \<Rightarrow>
          (case property_id q s of
             Inl e \<Rightarrow> Inl e
           | Inr i \<Rightarrow>
               (case set_first i v ps of
                  None \<Rightarrow> Inr (Inl EINVAL, s)
                | Some ps' \<Rightarrow> Inr (Inr (), s\<lparr>obj_props := (obj_props s)(r \<mapsto> ps')\<rparr>))))"

definition drm_object_property_get_value ::
  "mode_ref \<Rightarrow> nat ptr \<Rightarrow> ('t, 'z) props_config_scheme \<Rightarrow> u64 result result" where
  "drm_object_property_get_value r q s =
     (case obj_props s r of
        None \<Rightarrow> Inl BUG
      | Some [] \<Rightarrow> Inr (Inl EINVAL)
      | Some ps \<Rightarrow>
          (case property_id q s of
             Inl e \<Rightarrow> Inl e
           | Inr i \<Rightarrow> Inr (case map_of ps i of None \<Rightarrow> Inl EINVAL | Some v \<Rightarrow> Inr v)))"

subsection \<open>Blobs\<close>

definition drm_property_create_blob ::
  "(mode_ref ptr, 't) avl_ops \<Rightarrow> nat ptr \<Rightarrow> bool \<Rightarrow> nat \<Rightarrow> u8 list ptr \<Rightarrow> ('t, 'z) props_config_scheme \<Rightarrow>
     (nat ptr \<times> ('t, 'z) props_config_scheme) result" where
  "drm_property_create_blob A mem alloc sz data s =
     (case data of
        None \<Rightarrow> Inr (None, s)
      | Some bytes \<Rightarrow>
          if sz = 0 then Inr (None, s)
          else (case mem of
                  None \<Rightarrow> Inr (None, s)
                | Some b \<Rightarrow>
                    (case drm_mode_object_get A alloc (OBJECT_BLOB, b) s of
                       (Inl e, s) \<Rightarrow> Inr (None, s)
                     | (Inr _, s) \<Rightarrow>
                         if length bytes < sz then Inl BUG
                         else Inr (Some b, s\<lparr>blobs := (blobs s)(b \<mapsto> take sz bytes),
                                             property_blob_list := property_blob_list s @ [b]\<rparr>))))"

definition drm_property_destroy_blob ::
  "(mode_ref ptr, 't) avl_ops \<Rightarrow> bool \<Rightarrow> nat \<Rightarrow> ('t, 'z) props_config_scheme \<Rightarrow> ('t, 'z) props_config_scheme result" where
  "drm_property_destroy_blob A rm b s =
     (case blobs s b of
        None \<Rightarrow> Inl BUG
      | Some bytes \<Rightarrow>
          let s = drm_mode_object_put A rm (OBJECT_BLOB, b) s
          in Inr (s\<lparr>property_blob_list := remove1 b (property_blob_list s), blobs := (blobs s)(b := None)\<rparr>))"

text \<open>\<open>EDID_LENGTH * (1 + edid->extensions)\<close>; an EDID has at least one block.\<close>

definition edid_size :: "u8 list \<Rightarrow> nat" where
  "edid_size edid = 128 * (1 + unat (edid ! 126))"

definition drm_mode_connector_update_edid_property ::
  "(mode_ref ptr, 't) avl_ops \<Rightarrow> nat ptr \<Rightarrow> bool \<Rightarrow> bool \<Rightarrow> nat \<Rightarrow> u8 list ptr \<Rightarrow> ('t, 'z) props_config_scheme \<Rightarrow>
     (unit result \<times> ('t, 'z) props_config_scheme) result" where
  "drm_mode_connector_update_edid_property A mem alloc rm c edid s =
     (case (case edid_blob_ptr s c of None \<Rightarrow> Inr s | Some b \<Rightarrow> drm_property_destroy_blob A rm b s) of
        Inl e \<Rightarrow> Inl e
      | Inr s \<Rightarrow>
          (case edid of
             None \<Rightarrow>
               drm_object_property_set_value (OBJECT_CONNECTOR, c) (slots s edid_property) 0
                 (s\<lparr>edid_blob_ptr := (edid_blob_ptr s)(c := None)\<rparr>)
           | Some bytes \<Rightarrow>
               if length bytes \<le> 126 then Inl BUG
               else (case drm_property_create_blob A mem alloc (edid_size bytes) edid s of
                       Inl e \<Rightarrow> Inl e
                     | Inr (None, s) \<Rightarrow> Inr (Inl EINVAL, s\<lparr>edid_blob_ptr := (edid_blob_ptr s)(c := None)\<rparr>)
                     | Inr (Some b, s) \<Rightarrow>
                         drm_object_property_set_value (OBJECT_CONNECTOR, c) (slots s edid_property)
                           (ucast (object_id s (OBJECT_BLOB, b))) (s\<lparr>edid_blob_ptr := (edid_blob_ptr s)(c \<mapsto> b)\<rparr>))))"

subsection \<open>Changing a value\<close>

text \<open>A shift by 64 or more is not defined in C.\<close>

definition drm_property_change_is_valid :: "drm_property \<Rightarrow> u64 \<Rightarrow> bool result" where
  "drm_property_change_is_valid prop v =
     (if PROP_IMMUTABLE \<in> prop_flags prop then Inr False
      else if PROP_RANGE \<in> prop_flags prop
      then (case prop_values prop of
              mn # mx # _ \<Rightarrow> Inr (\<not> (v < mn \<or> v > mx))
            | _ \<Rightarrow> Inl BUG)
      else if PROP_BITMASK \<in> prop_flags prop
      then (if \<forall>w \<in> set (prop_values prop). w < 64
            then Inr (v AND NOT (fold (\<lambda>w m. m OR push_bit (unat w) 1) (prop_values prop) 0) = 0)
            else Inl BUG)
      else if PROP_BLOB \<in> prop_flags prop then Inr True
      else Inr (v \<in> set (prop_values prop)))"

text \<open>\<open>hook\<close> is the driver's \<open>set_property\<close>, absent or what it returns.\<close>

definition drm_mode_connector_set_obj_prop ::
  "unit result ptr \<Rightarrow> nat \<Rightarrow> nat \<Rightarrow> u64 \<Rightarrow> ('t, 'z) props_config_scheme \<Rightarrow> (unit result \<times> ('t, 'z) props_config_scheme) result" where
  "drm_mode_connector_set_obj_prop hook c p v s =
     (case (if Some p = slots s dpms_property then Inr () else case hook of None \<Rightarrow> Inl EINVAL | Some ret \<Rightarrow> ret) of
        Inl e \<Rightarrow> Inr (Inl e, s)
      | Inr _ \<Rightarrow> drm_object_property_set_value (OBJECT_CONNECTOR, c) (Some p) v s)"

definition drm_mode_crtc_set_obj_prop ::
  "unit result ptr \<Rightarrow> nat \<Rightarrow> nat \<Rightarrow> u64 \<Rightarrow> ('t, 'z) props_config_scheme \<Rightarrow> (unit result \<times> ('t, 'z) props_config_scheme) result" where
  "drm_mode_crtc_set_obj_prop hook c p v s =
     (case (case hook of None \<Rightarrow> Inl EINVAL | Some ret \<Rightarrow> ret) of
        Inl e \<Rightarrow> Inr (Inl e, s)
      | Inr _ \<Rightarrow> drm_object_property_set_value (OBJECT_CRTC, c) (Some p) v s)"

definition drm_mode_plane_set_obj_prop ::
  "unit result ptr \<Rightarrow> nat \<Rightarrow> nat \<Rightarrow> u64 \<Rightarrow> ('t, 'z) props_config_scheme \<Rightarrow> (unit result \<times> ('t, 'z) props_config_scheme) result" where
  "drm_mode_plane_set_obj_prop hook pl p v s =
     (case (case hook of None \<Rightarrow> Inl EINVAL | Some ret \<Rightarrow> ret) of
        Inl e \<Rightarrow> Inr (Inl e, s)
      | Inr _ \<Rightarrow> drm_object_property_set_value (OBJECT_PLANE, pl) (Some p) v s)"

record drm_mode_obj_set_property =
  set_value :: u64
  set_prop_id :: u32
  set_obj_id :: u32
  set_obj_type :: mode_object_type

definition drm_mode_obj_set_property_ioctl ::
  "(mode_ref ptr, 't) avl_ops \<Rightarrow> bool \<Rightarrow> unit result ptr \<Rightarrow> drm_mode_obj_set_property \<Rightarrow> ('t, 'z) props_config_scheme \<Rightarrow>
     (unit result \<times> ('t, 'z) props_config_scheme) result" where
  "drm_mode_obj_set_property_ioctl A modeset hook arg s =
     (if \<not> modeset then Inr (Inl EINVAL, s)
      else (case drm_mode_object_find A (set_obj_id arg) (set_obj_type arg) s of
        None \<Rightarrow> Inr (Inl EINVAL, s)
      | Some q \<Rightarrow>
          (case obj_props s (set_obj_type arg, q) of
             None \<Rightarrow> Inr (Inl EINVAL, s)
           | Some ps \<Rightarrow>
               if set_prop_id arg \<notin> fst ` set ps then Inr (Inl EINVAL, s)
               else (case drm_mode_object_find A (set_prop_id arg) OBJECT_PROPERTY s of
                  None \<Rightarrow> Inr (Inl EINVAL, s)
                | Some p \<Rightarrow>
                    (case properties s p of
                       None \<Rightarrow> Inl BUG
                     | Some prop \<Rightarrow>
                         (case drm_property_change_is_valid prop (set_value arg) of
                            Inl e \<Rightarrow> Inl e
                          | Inr False \<Rightarrow> Inr (Inl EINVAL, s)
                          | Inr True \<Rightarrow>
                              (case set_obj_type arg of
                                 OBJECT_CONNECTOR \<Rightarrow> drm_mode_connector_set_obj_prop hook q p (set_value arg) s
                               | OBJECT_CRTC \<Rightarrow> drm_mode_crtc_set_obj_prop hook q p (set_value arg) s
                               | OBJECT_PLANE \<Rightarrow> drm_mode_plane_set_obj_prop hook q p (set_value arg) s
                               | _ \<Rightarrow> Inr (Inl EINVAL, s))))))))"

definition drm_mode_connector_property_set_ioctl ::
  "(mode_ref ptr, 't) avl_ops \<Rightarrow> bool \<Rightarrow> unit result ptr \<Rightarrow> u64 \<Rightarrow> u32 \<Rightarrow> u32 \<Rightarrow> ('t, 'z) props_config_scheme \<Rightarrow>
     (unit result \<times> ('t, 'z) props_config_scheme) result" where
  "drm_mode_connector_property_set_ioctl A modeset hook v prop_id connector_id s =
     drm_mode_obj_set_property_ioctl A modeset hook
       \<lparr>set_value = v, set_prop_id = prop_id, set_obj_id = connector_id, set_obj_type = OBJECT_CONNECTOR\<rparr> s"

subsection \<open>Reading\<close>

text \<open>
  The ioctls that read copy arrays to user memory when the caller's arrays are long enough, and always
  return how long they have to be. \<open>writable\<close> tells which elements can be written. The result has the arrays
  that were copied.
\<close>

definition copy_out :: "(nat \<Rightarrow> bool) \<Rightarrow> nat \<Rightarrow> 'x list \<Rightarrow> 'x list ptr result" where
  "copy_out writable count xs =
     (if count \<ge> length xs \<and> xs \<noteq> [] then (if \<forall>i < length xs. writable i then Inr (Some xs) else Inl EFAULT)
      else Inr None)"

definition drm_mode_obj_get_properties_ioctl ::
  "(mode_ref ptr, 't) avl_ops \<Rightarrow> bool \<Rightarrow> (nat \<Rightarrow> bool) \<Rightarrow> u32 \<Rightarrow> mode_object_type \<Rightarrow> nat \<Rightarrow> ('t, 'z) props_config_scheme \<Rightarrow>
     (nat \<times> (u32 \<times> u64) list ptr) result" where
  "drm_mode_obj_get_properties_ioctl A modeset writable i ty count s =
     (if \<not> modeset then Inl EINVAL
      else (case drm_mode_object_find A i ty s of
        None \<Rightarrow> Inl EINVAL
      | Some q \<Rightarrow>
          (case obj_props s (ty, q) of
             None \<Rightarrow> Inl EINVAL
           | Some ps \<Rightarrow> (case copy_out writable count ps of Inl e \<Rightarrow> Inl e | Inr out \<Rightarrow> Inr (length ps, out)))))"

record drm_mode_get_property =
  get_name :: string
  get_flags :: "prop_flag set"
  get_count_values :: nat
  get_values :: "u64 list ptr"
  get_count_enums :: "nat option"
  get_enums :: "(u64 \<times> string) list ptr"

text \<open>Nothing is ever put on the list of a blob property: \<open>blob_count\<close> is 0.\<close>

definition drm_mode_getproperty_ioctl ::
  "(mode_ref ptr, 't) avl_ops \<Rightarrow> bool \<Rightarrow> nat \<Rightarrow> (nat \<Rightarrow> bool) \<Rightarrow> (nat \<Rightarrow> bool) \<Rightarrow> u32 \<Rightarrow> nat \<Rightarrow> nat \<Rightarrow> ('t, 'z) props_config_scheme \<Rightarrow>
     drm_mode_get_property result result" where
  "drm_mode_getproperty_ioctl A modeset len wvalues wenums i count_values count_enums s =
     (if \<not> modeset then Inr (Inl EINVAL)
      else (case drm_mode_object_find A i OBJECT_PROPERTY s of
        None \<Rightarrow> Inr (Inl EINVAL)
      | Some p \<Rightarrow>
          (case properties s p of
             None \<Rightarrow> Inl BUG
           | Some prop \<Rightarrow>
               (case copy_out wvalues count_values (prop_values prop) of
                  Inl e \<Rightarrow> Inr (Inl e)
                | Inr vs \<Rightarrow>
                    let r = \<lparr>get_name = copy_name len (prop_name prop), get_flags = prop_flags prop,
                             get_count_values = length (prop_values prop), get_values = vs, get_count_enums = None, get_enums = None\<rparr>
                    in (case (if prop_flags prop \<inter> {PROP_ENUM, PROP_BITMASK} = {} then Inr r
                              else (case copy_out wenums count_enums (enum_blob_list prop) of
                                      Inl e \<Rightarrow> Inl e
                                    | Inr es \<Rightarrow> Inr (r\<lparr>get_count_enums := Some (length (enum_blob_list prop)), get_enums := es\<rparr>))) of
                          Inl e \<Rightarrow> Inr (Inl e)
                        | Inr r \<Rightarrow> Inr (Inr (if PROP_BLOB \<in> prop_flags prop then r\<lparr>get_count_enums := Some 0\<rparr> else r)))))))"

definition drm_mode_getblob_ioctl ::
  "(mode_ref ptr, 't) avl_ops \<Rightarrow> bool \<Rightarrow> bool \<Rightarrow> u32 \<Rightarrow> nat \<Rightarrow> ('t, 'z) props_config_scheme \<Rightarrow> (nat \<times> u8 list ptr) result result" where
  "drm_mode_getblob_ioctl A modeset writable i len s =
     (if \<not> modeset then Inr (Inl EINVAL)
      else (case drm_mode_object_find A i OBJECT_BLOB s of
        None \<Rightarrow> Inr (Inl EINVAL)
      | Some b \<Rightarrow>
          (case blobs s b of
             None \<Rightarrow> Inl BUG
           | Some bytes \<Rightarrow>
               if len = length bytes
               then (if writable then Inr (Inr (length bytes, Some bytes)) else Inr (Inl EFAULT))
               else Inr (Inr (length bytes, None)))))"

subsection \<open>The properties of the device\<close>

text \<open>\<open>K\<close> gives the constants of \<open>drm_mode.h\<close> by their names.\<close>

type_synonym mode_h = "string \<Rightarrow> int"

definition drm_dpms_enum_list :: "mode_h \<Rightarrow> (int \<times> string) list" where
  "drm_dpms_enum_list K =
     [(K ''DRM_MODE_DPMS_ON'', ''On''), (K ''DRM_MODE_DPMS_STANDBY'', ''Standby''), (K ''DRM_MODE_DPMS_SUSPEND'', ''Suspend''),
      (K ''DRM_MODE_DPMS_OFF'', ''Off'')]"

definition drm_scaling_mode_enum_list :: "mode_h \<Rightarrow> (int \<times> string) list" where
  "drm_scaling_mode_enum_list K =
     [(K ''DRM_MODE_SCALE_NONE'', ''None''), (K ''DRM_MODE_SCALE_FULLSCREEN'', ''Full''), (K ''DRM_MODE_SCALE_CENTER'', ''Center''),
      (K ''DRM_MODE_SCALE_ASPECT'', ''Full aspect'')]"

definition drm_dithering_mode_enum_list :: "mode_h \<Rightarrow> (int \<times> string) list" where
  "drm_dithering_mode_enum_list K =
     [(K ''DRM_MODE_DITHERING_OFF'', ''Off''), (K ''DRM_MODE_DITHERING_ON'', ''On''), (K ''DRM_MODE_DITHERING_AUTO'', ''Automatic'')]"

definition drm_dvi_i_select_enum_list :: "mode_h \<Rightarrow> (int \<times> string) list" where
  "drm_dvi_i_select_enum_list K =
     [(K ''DRM_MODE_SUBCONNECTOR_Automatic'', ''Automatic''), (K ''DRM_MODE_SUBCONNECTOR_DVID'', ''DVI-D''),
      (K ''DRM_MODE_SUBCONNECTOR_DVIA'', ''DVI-A'')]"

definition drm_dvi_i_subconnector_enum_list :: "mode_h \<Rightarrow> (int \<times> string) list" where
  "drm_dvi_i_subconnector_enum_list K =
     [(K ''DRM_MODE_SUBCONNECTOR_Unknown'', ''Unknown''), (K ''DRM_MODE_SUBCONNECTOR_DVID'', ''DVI-D''),
      (K ''DRM_MODE_SUBCONNECTOR_DVIA'', ''DVI-A'')]"

definition drm_tv_select_enum_list :: "mode_h \<Rightarrow> (int \<times> string) list" where
  "drm_tv_select_enum_list K =
     [(K ''DRM_MODE_SUBCONNECTOR_Automatic'', ''Automatic''), (K ''DRM_MODE_SUBCONNECTOR_Composite'', ''Composite''),
      (K ''DRM_MODE_SUBCONNECTOR_SVIDEO'', ''SVIDEO''), (K ''DRM_MODE_SUBCONNECTOR_Component'', ''Component''),
      (K ''DRM_MODE_SUBCONNECTOR_SCART'', ''SCART'')]"

definition drm_tv_subconnector_enum_list :: "mode_h \<Rightarrow> (int \<times> string) list" where
  "drm_tv_subconnector_enum_list K =
     [(K ''DRM_MODE_SUBCONNECTOR_Unknown'', ''Unknown''), (K ''DRM_MODE_SUBCONNECTOR_Composite'', ''Composite''),
      (K ''DRM_MODE_SUBCONNECTOR_SVIDEO'', ''SVIDEO''), (K ''DRM_MODE_SUBCONNECTOR_Component'', ''Component''),
      (K ''DRM_MODE_SUBCONNECTOR_SCART'', ''SCART'')]"

definition drm_dirty_info_enum_list :: "mode_h \<Rightarrow> (int \<times> string) list" where
  "drm_dirty_info_enum_list K =
     [(K ''DRM_MODE_DIRTY_OFF'', ''Off''), (K ''DRM_MODE_DIRTY_ON'', ''On''), (K ''DRM_MODE_DIRTY_ANNOTATE'', ''Annotate'')]"

text \<open>
  What the functions below share: the constants, the length of a name, and what the allocators return for
  each property.
\<close>

record prop_env =
  mode_consts :: mode_h
  name_len :: nat
  slot_mem :: "property_slot \<Rightarrow> prop_mem"
  remove_mem :: bool

definition set_slot :: "property_slot \<Rightarrow> nat ptr \<Rightarrow> ('t, 'z) props_config_scheme \<Rightarrow> ('t, 'z) props_config_scheme" where
  "set_slot sl q s = s\<lparr>slots := (slots s)(sl := q)\<rparr>"

definition enum_slot ::
  "(mode_ref ptr, 't) avl_ops \<Rightarrow> prop_env \<Rightarrow> property_slot \<Rightarrow> prop_flag set \<Rightarrow> string \<Rightarrow> (int \<times> string) list \<Rightarrow>
     ('t, 'z) props_config_scheme \<Rightarrow> ('t, 'z) props_config_scheme result" where
  "enum_slot A E sl flags nm props s =
     (case drm_property_create_enum A (name_len E) (slot_mem E sl) (remove_mem E) flags (Some nm) props s of
        Inl e \<Rightarrow> Inl e
      | Inr (q, s) \<Rightarrow> Inr (set_slot sl q s))"

definition range_slot ::
  "(mode_ref ptr, 't) avl_ops \<Rightarrow> prop_env \<Rightarrow> property_slot \<times> string \<Rightarrow> ('t, 'z) props_config_scheme \<Rightarrow>
     ('t, 'z) props_config_scheme result" where
  "range_slot A E e s =
     (case drm_property_create_range A (name_len E) (slot_mem E (fst e)) {} (Some (snd e)) 0 100 s of
        (q, s) \<Rightarrow> Inr (set_slot (fst e) q s))"

definition drm_mode_create_standard_connector_properties ::
  "(mode_ref ptr, 't) avl_ops \<Rightarrow> prop_env \<Rightarrow> ('t, 'z) props_config_scheme \<Rightarrow> ('t, 'z) props_config_scheme result" where
  "drm_mode_create_standard_connector_properties A E s =
     (case drm_property_create A (name_len E) (slot_mem E edid_property) {PROP_BLOB, PROP_IMMUTABLE} (Some ''EDID'') 0 s of
        (q, s) \<Rightarrow> enum_slot A E dpms_property {} ''DPMS'' (drm_dpms_enum_list (mode_consts E)) (set_slot edid_property q s))"

definition drm_mode_create_dvi_i_properties ::
  "(mode_ref ptr, 't) avl_ops \<Rightarrow> prop_env \<Rightarrow> ('t, 'z) props_config_scheme \<Rightarrow> ('t, 'z) props_config_scheme result" where
  "drm_mode_create_dvi_i_properties A E s =
     (if slots s dvi_i_select_subconnector_property \<noteq> None then Inr s
      else (case enum_slot A E dvi_i_select_subconnector_property {} ''select subconnector'' (drm_dvi_i_select_enum_list (mode_consts E)) s of
              Inl e \<Rightarrow> Inl e
            | Inr s \<Rightarrow>
                enum_slot A E dvi_i_subconnector_property {PROP_IMMUTABLE} ''subconnector'' (drm_dvi_i_subconnector_enum_list (mode_consts E)) s))"

text \<open>The loop over the TV modes ignores what \<open>drm_property_add_enum\<close> returns.\<close>

fun add_tv_modes ::
  "nat \<Rightarrow> (nat \<Rightarrow> bool) \<Rightarrow> nat ptr \<Rightarrow> nat \<Rightarrow> string list \<Rightarrow> ('t, 'z) props_config_scheme \<Rightarrow> ('t, 'z) props_config_scheme result" where
  "add_tv_modes len kzalloc q i [] s = Inr s"
| "add_tv_modes len kzalloc q i (nm # modes) s =
     (case q of
        None \<Rightarrow> Inl BUG
      | Some p \<Rightarrow>
          (case drm_property_add_enum len (kzalloc i) p i (of_nat i) nm s of
             Inl e \<Rightarrow> Inl e
           | Inr (ret, s) \<Rightarrow> add_tv_modes len kzalloc q (i + 1) modes s))"

definition tv_mode_slot ::
  "(mode_ref ptr, 't) avl_ops \<Rightarrow> prop_env \<Rightarrow> string list \<Rightarrow> ('t, 'z) props_config_scheme \<Rightarrow> ('t, 'z) props_config_scheme result" where
  "tv_mode_slot A E modes s =
     (case drm_property_create A (name_len E) (slot_mem E tv_mode_property) {PROP_ENUM} (Some ''mode'') (length modes) s of
        (q, s) \<Rightarrow> add_tv_modes (name_len E) (enum_mem (slot_mem E tv_mode_property)) q 0 modes (set_slot tv_mode_property q s))"

definition drm_mode_create_tv_properties ::
  "(mode_ref ptr, 't) avl_ops \<Rightarrow> prop_env \<Rightarrow> string list \<Rightarrow> ('t, 'z) props_config_scheme \<Rightarrow> ('t, 'z) props_config_scheme result" where
  "drm_mode_create_tv_properties A E modes s =
     (if slots s tv_select_subconnector_property \<noteq> None then Inr s
      else fold_res (\<lambda>f. f)
        ([enum_slot A E tv_select_subconnector_property {} ''select subconnector'' (drm_tv_select_enum_list (mode_consts E)),
          enum_slot A E tv_subconnector_property {PROP_IMMUTABLE} ''subconnector'' (drm_tv_subconnector_enum_list (mode_consts E))] @
         map (range_slot A E)
           [(tv_left_margin_property, ''left margin''), (tv_right_margin_property, ''right margin''),
            (tv_top_margin_property, ''top margin''), (tv_bottom_margin_property, ''bottom margin'')] @
         [tv_mode_slot A E modes] @
         map (range_slot A E)
           [(tv_brightness_property, ''brightness''), (tv_contrast_property, ''contrast''),
            (tv_flicker_reduction_property, ''flicker reduction''), (tv_overscan_property, ''overscan''),
            (tv_saturation_property, ''saturation''), (tv_hue_property, ''hue'')]) s)"

definition drm_mode_create_scaling_mode_property ::
  "(mode_ref ptr, 't) avl_ops \<Rightarrow> prop_env \<Rightarrow> ('t, 'z) props_config_scheme \<Rightarrow> ('t, 'z) props_config_scheme result" where
  "drm_mode_create_scaling_mode_property A E s =
     (if slots s scaling_mode_property \<noteq> None then Inr s
      else enum_slot A E scaling_mode_property {} ''scaling mode'' (drm_scaling_mode_enum_list (mode_consts E)) s)"

definition drm_mode_create_dithering_property ::
  "(mode_ref ptr, 't) avl_ops \<Rightarrow> prop_env \<Rightarrow> ('t, 'z) props_config_scheme \<Rightarrow> ('t, 'z) props_config_scheme result" where
  "drm_mode_create_dithering_property A E s =
     (if slots s dithering_mode_property \<noteq> None then Inr s
      else enum_slot A E dithering_mode_property {} ''dithering'' (drm_dithering_mode_enum_list (mode_consts E)) s)"

definition drm_mode_create_dirty_info_property ::
  "(mode_ref ptr, 't) avl_ops \<Rightarrow> prop_env \<Rightarrow> ('t, 'z) props_config_scheme \<Rightarrow> ('t, 'z) props_config_scheme result" where
  "drm_mode_create_dirty_info_property A E s =
     (if slots s dirty_info_property \<noteq> None then Inr s
      else enum_slot A E dirty_info_property {PROP_IMMUTABLE} ''dirty'' (drm_dirty_info_enum_list (mode_consts E)) s)"

end
