(* ===== verification/Drm_Fourcc.thy ===== *)
theory Drm_Fourcc
  imports Drm_Prelude
begin

text \<open>
  Pixel formats and the check of a framebuffer request (\<open>drm_crtc.c\<close>: \<open>drm_mode_legacy_fb_format\<close>,
  \<open>format_check\<close>, \<open>framebuffer_check\<close>, \<open>drm_fb_get_bpp_depth\<close> and the \<open>drm_format_*\<close> functions).

  The codes of the formats are in \<open>drm_fourcc.h\<close>, which is not part of the repository. A code is a
  name, or some other value, and the bit \<open>DRM_FORMAT_BIG_ENDIAN\<close>, which no name has: a \<open>switch\<close> on
  the code does not reach the case of a name when the bit is set.
\<close>

subsection \<open>Formats\<close>

datatype (plugins only: code size) drm_format =
    C8 | RGB332 | BGR233
  | XRGB4444 | XBGR4444 | RGBX4444 | BGRX4444 | ARGB4444 | ABGR4444 | RGBA4444 | BGRA4444
  | XRGB1555 | XBGR1555 | RGBX5551 | BGRX5551 | ARGB1555 | ABGR1555 | RGBA5551 | BGRA5551
  | RGB565 | BGR565 | RGB888 | BGR888
  | XRGB8888 | XBGR8888 | RGBX8888 | BGRX8888 | ARGB8888 | ABGR8888 | RGBA8888 | BGRA8888
  | XRGB2101010 | XBGR2101010 | RGBX1010102 | BGRX1010102 | ARGB2101010 | ABGR2101010 | RGBA1010102 | BGRA1010102
  | YUYV | YVYU | UYVY | VYUY | AYUV
  | NV12 | NV21 | NV16 | NV61 | NV24 | NV42
  | YUV410 | YVU410 | YUV411 | YVU411 | YUV420 | YVU420 | YUV422 | YVU422 | YUV444 | YVU444
  | OTHER_FORMAT nat

record pixel_format =
  fourcc :: drm_format
  big_endian :: bool

text \<open>A \<open>switch\<close> on the format goes to one of these cases.\<close>

definition is_case :: "pixel_format \<Rightarrow> drm_format set \<Rightarrow> bool" where
  "is_case format labels \<longleftrightarrow> \<not> big_endian format \<and> fourcc format \<in> labels"

definition drm_mode_legacy_fb_format :: "u32 \<Rightarrow> u32 \<Rightarrow> pixel_format" where
  "drm_mode_legacy_fb_format bpp depth =
     \<lparr>fourcc =
        (if bpp = 8 then C8
         else if bpp = 16 then if depth = 15 then XRGB1555 else RGB565
         else if bpp = 24 then RGB888
         else if bpp = 32 then if depth = 24 then XRGB8888 else if depth = 30 then XRGB2101010 else ARGB8888
         else XRGB8888),
      big_endian = False\<rparr>"

text \<open>The depth and the bits per pixel.\<close>

definition drm_fb_get_bpp_depth :: "pixel_format \<Rightarrow> nat \<times> nat" where
  "drm_fb_get_bpp_depth format =
     (if is_case format {C8, RGB332, BGR233} then (8, 8)
      else if is_case format {XRGB1555, XBGR1555, RGBX5551, BGRX5551, ARGB1555, ABGR1555, RGBA5551, BGRA5551} then (15, 16)
      else if is_case format {RGB565, BGR565} then (16, 16)
      else if is_case format {RGB888, BGR888} then (24, 24)
      else if is_case format {XRGB8888, XBGR8888, RGBX8888, BGRX8888} then (24, 32)
      else if is_case format {XRGB2101010, XBGR2101010, RGBX1010102, BGRX1010102,
                              ARGB2101010, ABGR2101010, RGBA1010102, BGRA1010102} then (30, 32)
      else if is_case format {ARGB8888, ABGR8888, RGBA8888, BGRA8888} then (32, 32)
      else (0, 0))"

definition drm_format_num_planes :: "pixel_format \<Rightarrow> nat" where
  "drm_format_num_planes format =
     (if is_case format {YUV410, YVU410, YUV411, YVU411, YUV420, YVU420, YUV422, YVU422, YUV444, YVU444} then 3
      else if is_case format {NV12, NV21, NV16, NV61, NV24, NV42} then 2
      else 1)"

definition drm_format_plane_cpp :: "pixel_format \<Rightarrow> nat \<Rightarrow> nat" where
  "drm_format_plane_cpp format plane =
     (if plane \<ge> drm_format_num_planes format then 0
      else if is_case format {YUYV, YVYU, UYVY, VYUY} then 2
      else if is_case format {NV12, NV21, NV16, NV61, NV24, NV42} then if plane \<noteq> 0 then 2 else 1
      else if is_case format {YUV410, YVU410, YUV411, YVU411, YUV420, YVU420, YUV422, YVU422, YUV444, YVU444} then 1
      else snd (drm_fb_get_bpp_depth format) div 8)"

definition drm_format_horz_chroma_subsampling :: "pixel_format \<Rightarrow> nat" where
  "drm_format_horz_chroma_subsampling format =
     (if is_case format {YUV411, YVU411, YUV410, YVU410} then 4
      else if is_case format {YUYV, YVYU, UYVY, VYUY, NV12, NV21, NV16, NV61, YUV422, YVU422, YUV420, YVU420} then 2
      else 1)"

definition drm_format_vert_chroma_subsampling :: "pixel_format \<Rightarrow> nat" where
  "drm_format_vert_chroma_subsampling format =
     (if is_case format {YUV410, YVU410} then 4
      else if is_case format {YUV420, YVU420, NV12, NV21} then 2
      else 1)"

subsection \<open>The check of a request\<close>

text \<open>The fields of \<open>struct drm_mode_fb_cmd2\<close> that are read; the arrays have four elements.\<close>

record drm_mode_fb_cmd2 =
  req_width :: u32
  req_height :: u32
  req_format :: pixel_format
  req_flags :: u32
  req_handles :: "nat \<Rightarrow> u32"
  req_pitches :: "nat \<Rightarrow> u32"
  req_offsets :: "nat \<Rightarrow> u32"

definition format_check :: "drm_mode_fb_cmd2 \<Rightarrow> unit result" where
  "format_check r =
     (case fourcc (req_format r) of OTHER_FORMAT _ \<Rightarrow> Inl EINVAL | _ \<Rightarrow> Inr ())"

definition plane_check :: "drm_mode_fb_cmd2 \<Rightarrow> nat \<Rightarrow> nat \<Rightarrow> nat \<Rightarrow> unit result" where
  "plane_check r hsub vsub i =
     (let width = req_width r div (if i \<noteq> 0 then of_nat hsub else 1);
          height = req_height r div (if i \<noteq> 0 then of_nat vsub else 1);
          cpp = of_nat (drm_format_plane_cpp (req_format r) i) :: u32
      in if req_handles r i = 0 then Inl EINVAL
         else if (ucast width :: u64) * ucast cpp > 0xFFFFFFFF then Inl ERANGE
         else if (ucast height :: u64) * ucast (req_pitches r i) + ucast (req_offsets r i) > 0xFFFFFFFF then Inl ERANGE
         else if req_pitches r i < width * cpp then Inl EINVAL
         else Inr ())"

definition framebuffer_check :: "drm_mode_fb_cmd2 \<Rightarrow> unit result" where
  "framebuffer_check r =
     (case format_check r of
        Inl e \<Rightarrow> Inl e
      | Inr _ \<Rightarrow>
          let hsub = drm_format_horz_chroma_subsampling (req_format r);
              vsub = drm_format_vert_chroma_subsampling (req_format r)
          in if req_width r = 0 \<or> req_width r mod of_nat hsub \<noteq> 0 then Inl EINVAL
             else if req_height r = 0 \<or> req_height r mod of_nat vsub \<noteq> 0 then Inl EINVAL
             else fold_res (\<lambda>i _. plane_check r hsub vsub i) [0..<drm_format_num_planes (req_format r)] ())"

subsection \<open>What the check establishes\<close>

text \<open>The arithmetic of the check without a width: the size of a plane in pixels, and a pixel's place.\<close>

definition plane_width :: "drm_mode_fb_cmd2 \<Rightarrow> nat \<Rightarrow> nat" where
  "plane_width r i = unat (req_width r) div (if i \<noteq> 0 then drm_format_horz_chroma_subsampling (req_format r) else 1)"

definition plane_height :: "drm_mode_fb_cmd2 \<Rightarrow> nat \<Rightarrow> nat" where
  "plane_height r i = unat (req_height r) div (if i \<noteq> 0 then drm_format_vert_chroma_subsampling (req_format r) else 1)"

definition pixel_at :: "drm_mode_fb_cmd2 \<Rightarrow> nat \<Rightarrow> nat \<Rightarrow> nat \<Rightarrow> nat set" where
  "pixel_at r i x y =
     (let a = unat (req_offsets r i) + y * unat (req_pitches r i) + x * drm_format_plane_cpp (req_format r) i
      in {a..<a + drm_format_plane_cpp (req_format r) i})"

lemma plane_cpp_le: "drm_format_plane_cpp f i \<le> 4"
  by (simp add: drm_format_plane_cpp_def drm_fb_get_bpp_depth_def)

lemma subsampling_bounds:
  "drm_format_horz_chroma_subsampling f \<in> {1, 2, 4}" "drm_format_vert_chroma_subsampling f \<in> {1, 2, 4}"
  by (simp_all add: drm_format_horz_chroma_subsampling_def drm_format_vert_chroma_subsampling_def)

lemma unat_of_nat_small: "k < 2 ^ 32 \<Longrightarrow> unat (of_nat k :: u32) = k"
  by (simp add: unsigned_of_nat take_bit_nat_eq_self)

lemma unat_div_small: "k < 2 ^ 32 \<Longrightarrow> unat ((w :: u32) div of_nat k) = unat w div k"
  by (simp add: unat_div unat_of_nat_small)

lemma unat_mult_u64: "unat (ucast (a :: u32) * ucast (b :: u32) :: u64) = unat a * unat b"
proof -
  have "unat a * unat b \<le> (2 ^ 32 - 1) * (2 ^ 32 - 1)"
    using unat_u32_less [of a] unat_u32_less [of b] by (intro mult_mono) simp_all
  then have "unat a * unat b < 2 ^ 64" by simp
  then show ?thesis by (simp add: unat_word_ariths unat_ucast_u32_u64)
qed

lemma unat_mult_add_u64: "unat (ucast (a :: u32) * ucast (b :: u32) + ucast (c :: u32) :: u64) = unat a * unat b + unat c"
proof -
  have "unat a * unat b \<le> (2 ^ 32 - 1) * (2 ^ 32 - 1)"
    using unat_u32_less [of a] unat_u32_less [of b] by (intro mult_mono) simp_all
  then have "unat a * unat b + unat c < 2 ^ 64" using unat_u32_less [of c] by simp
  then show ?thesis
    by (subst unat_add_nowrap) (simp_all add: unat_mult_u64 unat_ucast_u32_u64)
qed

lemma plane_check_iff:
  assumes "hsub = drm_format_horz_chroma_subsampling (req_format r)" "vsub = drm_format_vert_chroma_subsampling (req_format r)"
  shows "plane_check r hsub vsub i = Inr () \<longleftrightarrow>
    req_handles r i \<noteq> 0 \<and> plane_width r i * drm_format_plane_cpp (req_format r) i \<le> unat (req_pitches r i) \<and>
    plane_height r i * unat (req_pitches r i) + unat (req_offsets r i) < 2 ^ 32"
proof -
  let ?cpp = "drm_format_plane_cpp (req_format r) i"
  define w where "w = req_width r div (if i \<noteq> 0 then of_nat hsub else 1)"
  define h where "h = req_height r div (if i \<noteq> 0 then of_nat vsub else 1)"
  define c where "c = (of_nat ?cpp :: u32)"
  have small: "hsub < 2 ^ 32" "vsub < 2 ^ 32"
    using subsampling_bounds [of "req_format r"] assms by auto
  have w': "unat w = plane_width r i" and h': "unat h = plane_height r i"
    using small by (simp_all add: w_def h_def plane_width_def plane_height_def unat_div_small flip: assms)
  have c': "unat c = ?cpp" using plane_cpp_le [of "req_format r" i] by (simp add: c_def unat_of_nat_small)
  have mul: "unat (w * c) = unat w * unat c" if "unat w * unat c < 2 ^ 32"
    using that by (simp add: unat_word_ariths)
  have chk: "plane_check r hsub vsub i = Inr () \<longleftrightarrow> req_handles r i \<noteq> 0 \<and> \<not> unat w * unat c > 0xFFFFFFFF \<and>
    \<not> unat h * unat (req_pitches r i) + unat (req_offsets r i) > 0xFFFFFFFF \<and> \<not> unat (req_pitches r i) < unat (w * c)"
    unfolding plane_check_def Let_def w_def [symmetric] h_def [symmetric] c_def [symmetric]
      word_less_nat_alt unat_mult_u64 unat_mult_add_u64
    by simp
  show ?thesis
    unfolding chk w' [symmetric] h' [symmetric] c' [symmetric]
    using mul unat_u32_less [of "req_pitches r i"] by fastforce
qed

lemma fold_check_iff: "fold_res (\<lambda>i _. f i) is () = Inr () \<longleftrightarrow> (\<forall>i \<in> set is. f i = Inr ())"
proof (induction "is")
  case (Cons i "is")
  then show ?case by (cases "f i") auto
qed simp

lemma format_check_iff: "format_check r = Inr () \<longleftrightarrow> (\<forall>n. fourcc (req_format r) \<noteq> OTHER_FORMAT n)"
  by (simp add: format_check_def split: drm_format.split)

lemma unat_mod_small: "k < 2 ^ 32 \<Longrightarrow> (w :: u32) mod of_nat k = 0 \<longleftrightarrow> k dvd unat w"
  by (simp add: unat_mod unat_of_nat_small dvd_eq_mod_eq_0 flip: unat_eq_0)

lemma framebuffer_check_iff:
  "framebuffer_check r = Inr () \<longleftrightarrow>
     (\<forall>n. fourcc (req_format r) \<noteq> OTHER_FORMAT n) \<and> req_width r \<noteq> 0 \<and> req_height r \<noteq> 0 \<and>
     drm_format_horz_chroma_subsampling (req_format r) dvd unat (req_width r) \<and>
     drm_format_vert_chroma_subsampling (req_format r) dvd unat (req_height r) \<and>
     (\<forall>i < drm_format_num_planes (req_format r).
        req_handles r i \<noteq> 0 \<and> plane_width r i * drm_format_plane_cpp (req_format r) i \<le> unat (req_pitches r i) \<and>
        plane_height r i * unat (req_pitches r i) + unat (req_offsets r i) < 2 ^ 32)"
proof -
  have small: "drm_format_horz_chroma_subsampling (req_format r) < 2 ^ 32" "drm_format_vert_chroma_subsampling (req_format r) < 2 ^ 32"
    using subsampling_bounds [of "req_format r"] by auto
  show ?thesis
  proof (cases "format_check r")
    case (Inl e)
    then have "framebuffer_check r \<noteq> Inr ()" by (simp add: framebuffer_check_def)
    moreover have "format_check r \<noteq> Inr ()" using Inl by simp
    ultimately show ?thesis unfolding format_check_iff by blast
  next
    case (Inr u)
    then have ok: "\<forall>n. fourcc (req_format r) \<noteq> OTHER_FORMAT n" using format_check_iff [of r] by simp
    have "framebuffer_check r = Inr () \<longleftrightarrow> req_width r \<noteq> 0 \<and> req_height r \<noteq> 0 \<and>
      drm_format_horz_chroma_subsampling (req_format r) dvd unat (req_width r) \<and>
      drm_format_vert_chroma_subsampling (req_format r) dvd unat (req_height r) \<and>
      (\<forall>i \<in> set [0..<drm_format_num_planes (req_format r)].
         plane_check r (drm_format_horz_chroma_subsampling (req_format r)) (drm_format_vert_chroma_subsampling (req_format r)) i = Inr ())"
      using Inr by (auto simp: framebuffer_check_def Let_def fold_check_iff unat_mod_small [OF small(1)] unat_mod_small [OF small(2)])
    with ok show ?thesis by (simp add: plane_check_iff lessThan_def [symmetric] flip: lessThan_atLeast0) blast
  qed
qed

lemma pixel_inside:
  fixes x y w h p c :: nat
  assumes "w * c \<le> p" "x < w" "y < h"
  shows "y * p + x * c + c \<le> h * p"
proof -
  have "x * c + c = Suc x * c" by simp
  also have "\<dots> \<le> w * c" using assms(2) by (intro mult_le_mono) simp_all
  finally have "x * c + c \<le> p" using assms(1) by linarith
  then have "y * p + x * c + c \<le> Suc y * p" by simp
  also have "\<dots> \<le> h * p" using assms(3) by (intro mult_le_mono) simp_all
  finally show ?thesis .
qed

lemma pixels_apart:
  fixes w p c :: nat
  assumes "w * c \<le> p" "x < w" "x' < w" "(x, y) \<noteq> (x', y')"
  shows "{b + y * p + x * c..<b + y * p + x * c + c} \<inter> {b + y' * p + x' * c..<b + y' * p + x' * c + c} = {}"
proof -
  have before: "b + y * p + x * c + c \<le> b + y' * p + x' * c"
    if lt: "y < y' \<or> y = y' \<and> x < x'" "x < w" for x x' y y' b :: nat
  proof (cases "y < y'")
    case True
    from pixel_inside [OF assms(1) that(2) True] show ?thesis by linarith
  next
    case False
    with lt have eq: "y = y'" "x < x'" by auto
    have "x * c + c = Suc x * c" by simp
    also have "\<dots> \<le> x' * c" using eq(2) by (intro mult_le_mono) simp_all
    finally show ?thesis using eq(1) by simp
  qed
  consider "y < y' \<or> y = y' \<and> x < x'" | "y' < y \<or> y' = y \<and> x' < x"
    using assms(4) by (cases y y' rule: linorder_cases) (auto simp: neq_iff)
  then show ?thesis
  proof cases
    case 1
    from before [OF 1 assms(2), of b] show ?thesis by fastforce
  next
    case 2
    from before [OF 2 assms(3), of b] show ?thesis by fastforce
  qed
qed

text \<open>
  Claim C16. A request that \<open>framebuffer_check\<close> accepts describes memory: in every plane the bytes of
  each pixel lie between the plane's offset and the end of its rows, which fits in 32 bits, and
  different pixels share no byte; every plane has a buffer. The check is exact: it accepts a known
  format with a non-empty size that the chroma subsampling divides if and only if each plane has a
  buffer, a row is not longer than the pitch, and the plane ends within 32 bits.
\<close>

theorem framebuffer_check_correct:
  "(framebuffer_check r = Inr () \<longleftrightarrow>
      (\<forall>n. fourcc (req_format r) \<noteq> OTHER_FORMAT n) \<and> req_width r \<noteq> 0 \<and> req_height r \<noteq> 0 \<and>
      drm_format_horz_chroma_subsampling (req_format r) dvd unat (req_width r) \<and>
      drm_format_vert_chroma_subsampling (req_format r) dvd unat (req_height r) \<and>
      (\<forall>i < drm_format_num_planes (req_format r).
         req_handles r i \<noteq> 0 \<and> plane_width r i * drm_format_plane_cpp (req_format r) i \<le> unat (req_pitches r i) \<and>
         plane_height r i * unat (req_pitches r i) + unat (req_offsets r i) < 2 ^ 32))
   \<and> (framebuffer_check r = Inr () \<longrightarrow>
      (\<forall>i x y. i < drm_format_num_planes (req_format r) \<and> x < plane_width r i \<and> y < plane_height r i \<longrightarrow>
         req_handles r i \<noteq> 0 \<and> pixel_at r i x y \<subseteq> {unat (req_offsets r i)..<2 ^ 32} \<and>
         (\<forall>x' y'. x' < plane_width r i \<and> (x, y) \<noteq> (x', y') \<longrightarrow> pixel_at r i x y \<inter> pixel_at r i x' y' = {})))"
proof (intro conjI impI allI)
  fix i x y
  assume ok: "framebuffer_check r = Inr ()"
    and xy: "i < drm_format_num_planes (req_format r) \<and> x < plane_width r i \<and> y < plane_height r i"
  then have p: "req_handles r i \<noteq> 0" "plane_width r i * drm_format_plane_cpp (req_format r) i \<le> unat (req_pitches r i)"
    "plane_height r i * unat (req_pitches r i) + unat (req_offsets r i) < 2 ^ 32"
    unfolding framebuffer_check_iff by blast+
  show "req_handles r i \<noteq> 0" by (fact p(1))
  show "pixel_at r i x y \<subseteq> {unat (req_offsets r i)..<2 ^ 32}"
    using pixel_inside [OF p(2), of x y "plane_height r i"] xy p(3) by (auto simp: pixel_at_def Let_def)
  show "pixel_at r i x y \<inter> pixel_at r i x' y' = {}" if "x' < plane_width r i \<and> (x, y) \<noteq> (x', y')" for x' y'
    unfolding pixel_at_def Let_def by (rule pixels_apart [OF p(2)]) (use xy that in auto)
qed (rule framebuffer_check_iff)

definition nv12_request :: drm_mode_fb_cmd2 where
  "nv12_request = \<lparr>req_width = 640, req_height = 480, req_format = \<lparr>fourcc = NV12, big_endian = False\<rparr>, req_flags = 0,
     req_handles = (\<lambda>_. 5), req_pitches = (\<lambda>_. 640), req_offsets = (\<lambda>i. if i = 0 then 0 else 307200)\<rparr>"

theorem framebuffer_check_correct_witness:
  "framebuffer_check nv12_request = Inr () \<and> pixel_at nv12_request 0 2 3 \<subseteq> {0..<2 ^ 32}"
proof -
  have "framebuffer_check nv12_request = Inr ()"
    unfolding framebuffer_check_iff
    by (simp add: nv12_request_def drm_format_horz_chroma_subsampling_def drm_format_vert_chroma_subsampling_def
        drm_format_num_planes_def drm_format_plane_cpp_def is_case_def plane_width_def plane_height_def
        less_2_cases_iff all_conj_distrib imp_disjL imp_conjL)
  moreover have "0 < drm_format_num_planes (req_format nv12_request)" "2 < plane_width nv12_request 0"
    "3 < plane_height nv12_request 0" "unat (req_offsets nv12_request 0) = 0"
    by (simp_all add: nv12_request_def drm_format_num_planes_def is_case_def plane_width_def plane_height_def)
  ultimately show ?thesis
    using conjunct2 [OF framebuffer_check_correct [of nv12_request], rule_format, of 0 2 3] by simp
qed

lemma plane_cpp_zero_iff:
  "drm_format_plane_cpp f 0 = 0 \<longleftrightarrow>
      big_endian f \<or> (\<exists>n. fourcc f = OTHER_FORMAT n) \<or>
      fourcc f \<in> {XRGB4444, XBGR4444, RGBX4444, BGRX4444, ARGB4444, ABGR4444, RGBA4444, BGRA4444, AYUV}"
proof (cases "big_endian f")
  case True
  then show ?thesis
    by (simp add: drm_format_plane_cpp_def drm_fb_get_bpp_depth_def drm_format_num_planes_def is_case_def)
next
  case False
  then show ?thesis
    unfolding drm_format_plane_cpp_def drm_fb_get_bpp_depth_def drm_format_num_planes_def is_case_def
    by (cases "fourcc f") simp_all
qed

lemma plane_cpp_zero_planes:
  assumes "drm_format_plane_cpp f 0 = 0"
  shows "drm_format_num_planes f = 1" "drm_format_horz_chroma_subsampling f = 1" "drm_format_vert_chroma_subsampling f = 1"
proof -
  consider "big_endian f" | n where "fourcc f = OTHER_FORMAT n"
    | "fourcc f \<in> {XRGB4444, XBGR4444, RGBX4444, BGRX4444, ARGB4444, ABGR4444, RGBA4444, BGRA4444, AYUV}"
    using assms unfolding plane_cpp_zero_iff by blast
  then have "\<not> is_case f {YUV410, YVU410, YUV411, YVU411, YUV420, YVU420, YUV422, YVU422, YUV444, YVU444} \<and>
    \<not> is_case f {NV12, NV21, NV16, NV61, NV24, NV42} \<and> \<not> is_case f {YUYV, YVYU, UYVY, VYUY}"
    by cases (auto simp: is_case_def)
  then show "drm_format_num_planes f = 1" "drm_format_horz_chroma_subsampling f = 1" "drm_format_vert_chroma_subsampling f = 1"
    by (cases "big_endian f"; simp add: drm_format_num_planes_def drm_format_horz_chroma_subsampling_def
        drm_format_vert_chroma_subsampling_def is_case_def)+
qed

text \<open>
  The pitch is not checked for every format that is accepted: the bytes per pixel of a plane are
  taken to be 0 exactly for the formats with 4 bits per colour, for AYUV, and for every format in
  big-endian order. Such a request is accepted with any pitch, also 0, however wide it is, and for a
  planar big-endian format only the first plane is looked at.
\<close>

theorem framebuffer_check_unknown_size:
  "(drm_format_plane_cpp f 0 = 0 \<longleftrightarrow>
      big_endian f \<or> (\<exists>n. fourcc f = OTHER_FORMAT n) \<or>
      fourcc f \<in> {XRGB4444, XBGR4444, RGBX4444, BGRX4444, ARGB4444, ABGR4444, RGBA4444, BGRA4444, AYUV})
   \<and> (drm_format_plane_cpp f 0 = 0 \<and> (\<forall>n. fourcc f \<noteq> OTHER_FORMAT n) \<and> w \<noteq> 0 \<and> h \<noteq> 0 \<and> b 0 \<noteq> 0 \<and> pt 0 = 0 \<longrightarrow>
      framebuffer_check \<lparr>req_width = w, req_height = h, req_format = f, req_flags = fl, req_handles = b,
        req_pitches = pt, req_offsets = off\<rparr> = Inr ())"
proof -
  have cpp: "drm_format_plane_cpp f 0 = 0 \<longleftrightarrow>
      big_endian f \<or> (\<exists>n. fourcc f = OTHER_FORMAT n) \<or>
      fourcc f \<in> {XRGB4444, XBGR4444, RGBX4444, BGRX4444, ARGB4444, ABGR4444, RGBA4444, BGRA4444, AYUV}"
    by (rule plane_cpp_zero_iff)
  note one = plane_cpp_zero_planes
  have "framebuffer_check \<lparr>req_width = w, req_height = h, req_format = f, req_flags = fl, req_handles = b,
        req_pitches = pt, req_offsets = off\<rparr> = Inr ()"
    if "drm_format_plane_cpp f 0 = 0" "\<forall>n. fourcc f \<noteq> OTHER_FORMAT n" "w \<noteq> 0" "h \<noteq> 0" "b 0 \<noteq> 0" "pt 0 = 0"
    unfolding framebuffer_check_iff using that one [OF that(1)] unat_u32_less [of "off 0"] by simp
  with cpp show ?thesis by blast
qed

theorem framebuffer_check_unknown_size_witness:
  "framebuffer_check \<lparr>req_width = 4096, req_height = 2160, req_format = \<lparr>fourcc = YUV420, big_endian = True\<rparr>,
     req_flags = 0, req_handles = (\<lambda>i. if i = 0 then 5 else 0), req_pitches = (\<lambda>_. 0), req_offsets = (\<lambda>_. 0)\<rparr> = Inr ()"
  using framebuffer_check_unknown_size [of "\<lparr>fourcc = YUV420, big_endian = True\<rparr>" 4096 2160
      "\<lambda>i. if i = 0 then 5 else 0" "\<lambda>_. 0" 0 "\<lambda>_. 0"]
  by simp

text \<open>The legacy request describes a format by two numbers, which are those of the format it stands for.\<close>

lemma legacy_fb_format_roundtrip:
  "(depth, bpp) \<in> {(8, 8), (15, 16), (16, 16), (24, 24), (24, 32), (30, 32), (32, 32)} \<Longrightarrow>
     drm_fb_get_bpp_depth (drm_mode_legacy_fb_format (of_nat bpp) (of_nat depth)) = (depth, bpp)"
  by (auto simp: drm_fb_get_bpp_depth_def drm_mode_legacy_fb_format_def is_case_def)

end
