(* ===== verification/Drm_Framebuffer.thy ===== *)
theory Drm_Framebuffer
  imports Drm_Property Drm_Fourcc Drm_Modes "HOL-Library.Multiset"
begin

text \<open>
  Framebuffers and the ioctls that use them (\<open>drm_crtc.c\<close>): creation and removal, lookup, the planes
  and CRTCs that show them, page flips, and what closing a file does. A framebuffer is freed when its last
  reference is dropped; references are held by the id table, by the list of the file that made it,
  by each CRTC and plane that shows it, and by code that is working on it.

  A framebuffer is a cell of a heap; \<open>None\<close> is memory that is not, or no longer, a framebuffer, and every
  access to it is \<open>Inl BUG\<close>. Results are nested as in \<open>Drm_Gem\<close>: the outer sum is a stop of the kernel,
  the inner one what the function returns.
\<close>

subsection \<open>State\<close>

record drm_framebuffer =
  fb_refcount :: u32
  fb_width :: u32
  fb_height :: u32
  fb_pitches :: "nat \<Rightarrow> u32"
  fb_offsets :: "nat \<Rightarrow> u32"
  fb_depth :: nat
  fb_bits_per_pixel :: nat
  fb_format :: pixel_format

record drm_crtc =
  crtc_fb :: "nat ptr"
  crtc_mode_hdisplay :: int
  crtc_mode_vdisplay :: int
  crtc_x :: int
  crtc_y :: int
  invert_dimensions :: bool

record drm_plane =
  plane_fb :: "nat ptr"
  plane_crtc :: "nat ptr"
  format_types :: "pixel_format list"

record 't kms = "'t props_config" +
  fbs :: "nat \<Rightarrow> drm_framebuffer option"
  fb_list :: "nat list"
  num_fb :: int
  crtc_list :: "nat list"
  crtcs :: "nat \<Rightarrow> drm_crtc"
  plane_list :: "nat list"
  planes :: "nat \<Rightarrow> drm_plane"
  connector_list :: "nat list"
  num_connector :: nat
  connector_name :: "nat \<Rightarrow> nat \<times> nat"
  type_count :: "nat \<Rightarrow> nat"
  open_files :: "nat list"
  file_fbs :: "nat \<Rightarrow> nat list"
  event_space :: "nat \<Rightarrow> nat"
  flip_events :: "(nat \<times> u64) list"
  min_width :: u32
  max_width :: u32
  min_height :: u32
  max_height :: u32

abbreviation fb_id :: "'t kms \<Rightarrow> nat \<Rightarrow> u32" where
  "fb_id s p \<equiv> object_id s (OBJECT_FB, p)"

subsection \<open>References\<close>

definition drm_framebuffer_reference :: "nat \<Rightarrow> 't kms \<Rightarrow> 't kms result" where
  "drm_framebuffer_reference p s =
     (case fbs s p of
        None \<Rightarrow> Inl BUG
      | Some fb \<Rightarrow> Inr (s\<lparr>fbs := (fbs s)(p \<mapsto> fb\<lparr>fb_refcount := fb_refcount fb + 1\<rparr>)\<rparr>))"

definition fb_put :: "nat \<Rightarrow> (nat \<Rightarrow> 't kms \<Rightarrow> 't kms result) \<Rightarrow> 't kms \<Rightarrow> 't kms result" where
  "fb_put p release s =
     (case fbs s p of
        None \<Rightarrow> Inl BUG
      | Some fb \<Rightarrow>
          let fb = fb\<lparr>fb_refcount := fb_refcount fb - 1\<rparr>;
              s = s\<lparr>fbs := (fbs s)(p \<mapsto> fb)\<rparr>
          in if fb_refcount fb = 0 then release p s else Inr s)"

text \<open>Unlinking a framebuffer that is not in the list follows a null pointer.\<close>

definition drm_framebuffer_cleanup :: "nat \<Rightarrow> 't kms \<Rightarrow> 't kms result" where
  "drm_framebuffer_cleanup p s =
     (if p \<in> set (fb_list s) then Inr (s\<lparr>fb_list := remove1 p (fb_list s), num_fb := num_fb s - 1\<rparr>) else Inl BUG)"

text \<open>The callback \<open>destroy\<close> of a driver calls \<open>drm_framebuffer_cleanup\<close> and releases the memory.\<close>

definition drm_framebuffer_free :: "nat \<Rightarrow> 't kms \<Rightarrow> 't kms result" where
  "drm_framebuffer_free p s =
     (case drm_framebuffer_cleanup p s of Inl e \<Rightarrow> Inl e | Inr s \<Rightarrow> Inr (s\<lparr>fbs := (fbs s)(p := None)\<rparr>))"

definition drm_framebuffer_unreference :: "nat \<Rightarrow> 't kms \<Rightarrow> 't kms result" where
  "drm_framebuffer_unreference p s = fb_put p drm_framebuffer_free s"

definition drm_framebuffer_free_bug :: "nat \<Rightarrow> 't kms \<Rightarrow> 't kms result" where
  "drm_framebuffer_free_bug p s = Inl BUG"

text \<open>The functions of the source whose names begin with two underscores have a prime here.\<close>

definition drm_framebuffer_unreference' :: "nat \<Rightarrow> 't kms \<Rightarrow> 't kms result" where
  "drm_framebuffer_unreference' p s = fb_put p drm_framebuffer_free_bug s"

definition unreference_ptr :: "nat ptr \<Rightarrow> 't kms \<Rightarrow> 't kms result" where
  "unreference_ptr q s = (case q of None \<Rightarrow> Inr s | Some p \<Rightarrow> drm_framebuffer_unreference p s)"

definition drm_framebuffer_init :: "(mode_ref ptr, 't) avl_ops \<Rightarrow> bool \<Rightarrow> nat \<Rightarrow> 't kms \<Rightarrow> 't kms result" where
  "drm_framebuffer_init A alloc p s =
     (case fbs s p of
        None \<Rightarrow> Inl BUG
      | Some fb \<Rightarrow>
          let s = s\<lparr>fbs := (fbs s)(p \<mapsto> fb\<lparr>fb_refcount := 1\<rparr>)\<rparr>
          in (case drm_mode_object_get A alloc (OBJECT_FB, p) s of
                (Inl e, s) \<Rightarrow> Inr s
              | (Inr _, s) \<Rightarrow>
                  (case drm_framebuffer_reference p s of
                     Inl e \<Rightarrow> Inl e
                   | Inr s \<Rightarrow> Inr (s\<lparr>num_fb := num_fb s + 1, fb_list := p # fb_list s\<rparr>))))"

text \<open>Reading the type and the id of what the table has is an access to the framebuffer.\<close>

definition drm_framebuffer_lookup' :: "(mode_ref ptr, 't) avl_ops \<Rightarrow> u32 \<Rightarrow> 't kms \<Rightarrow> nat ptr result" where
  "drm_framebuffer_lookup' A i s =
     (case idr_find A (crtc_idr s) i of
        None \<Rightarrow> Inr None
      | Some (ty, q) \<Rightarrow>
          if ty \<noteq> OBJECT_FB then Inr None
          else if fbs s q = None then Inl BUG
          else if fb_id s q \<noteq> i then Inr None
          else Inr (Some q))"

definition drm_framebuffer_lookup :: "(mode_ref ptr, 't) avl_ops \<Rightarrow> u32 \<Rightarrow> 't kms \<Rightarrow> (nat ptr \<times> 't kms) result" where
  "drm_framebuffer_lookup A i s =
     (case drm_framebuffer_lookup' A i s of
        Inl e \<Rightarrow> Inl e
      | Inr None \<Rightarrow> Inr (None, s)
      | Inr (Some p) \<Rightarrow>
          (case drm_framebuffer_reference p s of Inl e \<Rightarrow> Inl e | Inr s \<Rightarrow> Inr (Some p, s)))"

definition drm_framebuffer_unregister' :: "(mode_ref ptr, 't) avl_ops \<Rightarrow> bool \<Rightarrow> nat \<Rightarrow> 't kms \<Rightarrow> 't kms result" where
  "drm_framebuffer_unregister' A alloc p s =
     (let s = s\<lparr>crtc_idr := snd (idr_remove A alloc (crtc_idr s) (fb_id s p))\<rparr>;
          s = s\<lparr>object_id := (object_id s)((OBJECT_FB, p) := 0)\<rparr>
      in drm_framebuffer_unreference' p s)"

definition drm_framebuffer_unregister_private :: "(mode_ref ptr, 't) avl_ops \<Rightarrow> bool \<Rightarrow> nat \<Rightarrow> 't kms \<Rightarrow> 't kms result" where
  "drm_framebuffer_unregister_private A alloc p s = drm_framebuffer_unregister' A alloc p s"

subsection \<open>Setting a configuration\<close>

record drm_mode_set =
  set_fb :: "nat ptr"
  set_crtc :: nat
  set_mode :: "drm_display_mode ptr"
  set_x :: u32
  set_y :: u32
  set_connectors :: "nat list"

text \<open>
  The callback \<open>set_config\<close> of a driver may change all CRTCs. What it is documented to do about
  framebuffers: the CRTC of the request gets the framebuffer of the request, another CRTC may lose its own.
\<close>

type_synonym set_config = "drm_mode_set \<Rightarrow> (nat \<Rightarrow> drm_crtc) \<Rightarrow> unit result \<times> (nat \<Rightarrow> drm_crtc)"

definition set_config_ok :: "set_config \<Rightarrow> bool" where
  "set_config_ok set_config \<longleftrightarrow>
     (\<forall>st cs c. crtc_fb (snd (set_config st cs) c) \<in> {crtc_fb (cs c), None} \<or>
        c = set_crtc st \<and> crtc_fb (snd (set_config st cs) c) = set_fb st)"

definition config_refs :: "(nat \<Rightarrow> nat ptr) \<Rightarrow> nat \<Rightarrow> 't kms \<Rightarrow> 't kms result" where
  "config_refs old_fb tmp s =
     (case (case crtc_fb (crtcs s tmp) of None \<Rightarrow> Inr s | Some f \<Rightarrow> drm_framebuffer_reference f s) of
        Inl e \<Rightarrow> Inl e
      | Inr s \<Rightarrow> unreference_ptr (old_fb tmp) s)"

definition drm_mode_set_config_internal :: "set_config \<Rightarrow> drm_mode_set \<Rightarrow> 't kms \<Rightarrow> (unit result \<times> 't kms) result" where
  "drm_mode_set_config_internal set_config st s =
     (let old_fb = (\<lambda>c. crtc_fb (crtcs s c))
      in case set_config st (crtcs s) of
           (ret, cs) \<Rightarrow>
             (case fold_res (config_refs old_fb) (crtc_list s) (s\<lparr>crtcs := cs\<rparr>) of
                Inl e \<Rightarrow> Inl e
              | Inr s \<Rightarrow> Inr (ret, s)))"

definition drm_plane_force_disable :: "nat \<Rightarrow> 't kms \<Rightarrow> 't kms result" where
  "drm_plane_force_disable pl s =
     (case plane_fb (planes s pl) of
        None \<Rightarrow> Inr s
      | Some p \<Rightarrow>
          (case drm_framebuffer_unreference' p s of
             Inl e \<Rightarrow> Inl e
           | Inr s \<Rightarrow> Inr (s\<lparr>planes := (planes s)(pl := (planes s pl)\<lparr>plane_fb := None, plane_crtc := None\<rparr>)\<rparr>)))"

definition remove_from_crtc :: "set_config \<Rightarrow> nat \<Rightarrow> nat \<Rightarrow> 't kms \<Rightarrow> 't kms result" where
  "remove_from_crtc set_config p c s =
     (if crtc_fb (crtcs s c) = Some p
      then (case drm_mode_set_config_internal set_config
              \<lparr>set_fb = None, set_crtc = c, set_mode = None, set_x = 0, set_y = 0, set_connectors = []\<rparr> s of
              Inl e \<Rightarrow> Inl e
            | Inr (_, s) \<Rightarrow> Inr s)
      else Inr s)"

definition remove_from_plane :: "nat \<Rightarrow> nat \<Rightarrow> 't kms \<Rightarrow> 't kms result" where
  "remove_from_plane p pl s = (if plane_fb (planes s pl) = Some p then drm_plane_force_disable pl s else Inr s)"

definition drm_framebuffer_remove :: "set_config \<Rightarrow> nat \<Rightarrow> 't kms \<Rightarrow> 't kms result" where
  "drm_framebuffer_remove set_config p s =
     (case fbs s p of
        None \<Rightarrow> Inl BUG
      | Some fb \<Rightarrow>
          (case (if fb_refcount fb > 1
                 then (case fold_res (remove_from_crtc set_config p) (crtc_list s) s of
                         Inl e \<Rightarrow> Inl e
                       | Inr s \<Rightarrow> fold_res (remove_from_plane p) (plane_list s) s)
                 else Inr s) of
             Inl e \<Rightarrow> Inl e
           | Inr s \<Rightarrow> drm_framebuffer_unreference p s))"

subsection \<open>Reference counts as a multiset\<close>

text \<open>
  \<open>M\<close> holds each framebuffer once for each reference to it. The cells are right when a framebuffer
  is allocated exactly as long as it is referenced, its counter is the number of references, and the
  list of the device has every framebuffer once.
\<close>

definition cells_ok :: "nat multiset \<Rightarrow> 't kms \<Rightarrow> bool" where
  "cells_ok M s \<longleftrightarrow>
     (\<forall>p. case fbs s p of None \<Rightarrow> count M p = 0 | Some fb \<Rightarrow> 0 < count M p \<and> unat (fb_refcount fb) = count M p) \<and>
     distinct (fb_list s) \<and> set (fb_list s) = {p. fbs s p \<noteq> None} \<and> num_fb s = int (length (fb_list s))"

text \<open>What taking and dropping references changes.\<close>

definition fb_only :: "'t kms \<Rightarrow> 't kms \<Rightarrow> bool" where
  "fb_only s s' \<longleftrightarrow> (\<exists>a b c. s' = s\<lparr>fbs := a, fb_list := b, num_fb := c\<rparr>)"

lemma fb_onlyI: "s' = s\<lparr>fbs := a, fb_list := b, num_fb := c\<rparr> \<Longrightarrow> fb_only s s'"
  unfolding fb_only_def by blast

lemma fb_only_refl [simp]: "fb_only s s"
  by (rule fb_onlyI [where a = "fbs s" and b = "fb_list s" and c = "num_fb s"]) simp

lemma fb_only_upd [intro]: "fb_only s (s\<lparr>fbs := a\<rparr>)" "fb_only s (s\<lparr>fb_list := b, num_fb := c, fbs := a\<rparr>)"
  by (rule fb_onlyI [where a = a and b = "fb_list s" and c = "num_fb s"], simp)
    (rule fb_onlyI [where a = a and b = b and c = c], simp)

lemma fb_only_trans [trans]:
  assumes "fb_only s s1" "fb_only s1 s2"
  shows "fb_only s s2"
proof -
  from assms obtain a b c a' b' c' where "s1 = s\<lparr>fbs := a, fb_list := b, num_fb := c\<rparr>"
    "s2 = s1\<lparr>fbs := a', fb_list := b', num_fb := c'\<rparr>"
    unfolding fb_only_def by blast
  then have "s2 = s\<lparr>fbs := a', fb_list := b', num_fb := c'\<rparr>" by simp
  then show ?thesis by (rule fb_onlyI)
qed

lemma fb_only_crtcs:
  assumes "fb_only (s\<lparr>crtcs := a\<rparr>) s1"
  shows "fb_only (s\<lparr>crtcs := cs\<rparr>) (s1\<lparr>crtcs := cs\<rparr>)"
proof -
  from assms obtain x y z where "s1 = s\<lparr>crtcs := a, fbs := x, fb_list := y, num_fb := z\<rparr>" unfolding fb_only_def by blast
  then have "s1\<lparr>crtcs := cs\<rparr> = s\<lparr>crtcs := cs, fbs := x, fb_list := y, num_fb := z\<rparr>" by simp
  then show ?thesis by (rule fb_onlyI)
qed

lemma fb_only_planes:
  assumes "fb_only (s\<lparr>planes := a\<rparr>) s1"
  shows "fb_only (s\<lparr>planes := pls\<rparr>) (s1\<lparr>planes := pls\<rparr>)"
proof -
  from assms obtain x y z where "s1 = s\<lparr>planes := a, fbs := x, fb_list := y, num_fb := z\<rparr>" unfolding fb_only_def by blast
  then have "s1\<lparr>planes := pls\<rparr> = s\<lparr>planes := pls, fbs := x, fb_list := y, num_fb := z\<rparr>" by simp
  then show ?thesis by (rule fb_onlyI)
qed

lemma fb_only_fields:
  assumes "fb_only s s'"
  shows "crtc_idr s' = crtc_idr s" "object_id s' = object_id s" "crtc_list s' = crtc_list s" "crtcs s' = crtcs s"
    "plane_list s' = plane_list s" "planes s' = planes s" "open_files s' = open_files s" "file_fbs s' = file_fbs s"
    "registered A s' = registered A s"
  using assms by (auto simp: fb_only_def registered_def)

lemma cells_cell:
  "cells_ok M s \<Longrightarrow> p \<in># M \<Longrightarrow> \<exists>fb. fbs s p = Some fb \<and> unat (fb_refcount fb) = count M p"
  unfolding cells_ok_def by (metis (mono_tags, lifting) count_greater_zero_iff not_gr_zero option.case_eq_if option.collapse)

lemma cells_ok_iff:
  "cells_ok M s \<longleftrightarrow>
     (\<forall>p fb. fbs s p = Some fb \<longrightarrow> p \<in># M \<and> unat (fb_refcount fb) = count M p) \<and> (\<forall>p. fbs s p = None \<longrightarrow> p \<notin># M) \<and>
     distinct (fb_list s) \<and> set (fb_list s) = {p. fbs s p \<noteq> None} \<and> num_fb s = int (length (fb_list s))"
  unfolding cells_ok_def by (auto simp: not_in_iff split: option.splits)

lemma reference_ok:
  assumes "cells_ok M s" "p \<in># M" "size M + 1 < 2 ^ 32"
  shows "\<exists>s'. drm_framebuffer_reference p s = Inr s' \<and> cells_ok (add_mset p M) s' \<and> fb_only s s'"
proof -
  obtain fb where fb: "fbs s p = Some fb" "unat (fb_refcount fb) = count M p" using cells_cell [OF assms(1,2)] by blast
  have "unat (fb_refcount fb + 1) = Suc (count M p)"
    using fb(2) assms(3) count_le_size [of M p] by (simp add: unat_add_nowrap)
  then have "cells_ok (add_mset p M) (s\<lparr>fbs := (fbs s)(p \<mapsto> fb\<lparr>fb_refcount := fb_refcount fb + 1\<rparr>)\<rparr>)"
    using assms(1) fb by (auto simp: cells_ok_iff)
  then show ?thesis using fb(1) by (auto simp: drm_framebuffer_reference_def)
qed

lemma unat_minus_one: "x \<noteq> 0 \<Longrightarrow> unat (x - 1 :: u32) = unat x - 1"
  using unat_sub_le [of 1 x] by (simp add: word_le_nat_alt unat_gt_0 Suc_le_eq)

lemma fb_put_ok:
  assumes "cells_ok (add_mset p M) s"
  shows "p \<in># M \<Longrightarrow> \<exists>s'. fb_put p release s = Inr s' \<and> cells_ok M s' \<and> fb_only s s'"
    "p \<notin># M \<Longrightarrow> \<exists>s'. fb_put p drm_framebuffer_free s = Inr s' \<and> cells_ok M s' \<and> fb_only s s' \<and> fbs s' p = None"
proof -
  obtain fb where fb: "fbs s p = Some fb" "unat (fb_refcount fb) = Suc (count M p)"
    using cells_cell [OF assms, of p] by auto
  let ?fb = "fb\<lparr>fb_refcount := fb_refcount fb - 1\<rparr>"
  let ?s = "s\<lparr>fbs := (fbs s)(p \<mapsto> ?fb)\<rparr>"
  have "fb_refcount fb \<noteq> 0" using fb(2) by auto
  then have dec: "unat (fb_refcount fb - 1) = count M p" using fb(2) by (simp add: unat_minus_one)
  show "\<exists>s'. fb_put p release s = Inr s' \<and> cells_ok M s' \<and> fb_only s s'" if "p \<in># M"
  proof -
    have "fb_refcount fb - 1 \<noteq> 0"
    proof
      assume "fb_refcount fb - 1 = 0"
      then have "unat (fb_refcount fb - 1) = 0" by (simp only: unat_0)
      with dec that show False by (simp add: count_eq_zero_iff)
    qed
    moreover have "cells_ok M ?s" using assms fb(1) dec that by (auto simp: cells_ok_iff)
    ultimately show ?thesis using fb(1) by (auto simp: fb_put_def Let_def)
  qed
  show "\<exists>s'. fb_put p drm_framebuffer_free s = Inr s' \<and> cells_ok M s' \<and> fb_only s s' \<and> fbs s' p = None" if "p \<notin># M"
  proof -
    have z: "fb_refcount fb - 1 = 0" using dec that by (simp add: not_in_iff unat_eq_0)
    let ?s' = "s\<lparr>fb_list := remove1 p (fb_list s), num_fb := num_fb s - 1, fbs := (fbs s)(p := None)\<rparr>"
    have l: "p \<in> set (fb_list s)" "distinct (fb_list s)" using assms fb(1) by (auto simp: cells_ok_iff)
    have run: "fb_put p drm_framebuffer_free s = Inr ?s'"
      using fb(1) z l(1) by (simp add: fb_put_def Let_def drm_framebuffer_free_def drm_framebuffer_cleanup_def)
    have len: "int (length (remove1 p (fb_list s))) = int (length (fb_list s)) - 1"
      using l(1) length_pos_if_in_set [OF l(1)] by (simp add: length_remove1 of_nat_diff Suc_le_eq)
    have "cells_ok M ?s'"
      using assms that l len by (auto simp: cells_ok_iff)
    with run show ?thesis by auto
  qed
qed

lemma fb_unreference_ok:
  assumes "cells_ok (add_mset p M) s"
  shows "\<exists>s'. drm_framebuffer_unreference p s = Inr s' \<and> cells_ok M s' \<and> fb_only s s'"
  unfolding drm_framebuffer_unreference_def using fb_put_ok [OF assms] by blast

lemma unreference'_ok:
  assumes "cells_ok (add_mset p M) s" "p \<in># M"
  shows "\<exists>s'. drm_framebuffer_unreference' p s = Inr s' \<and> cells_ok M s' \<and> fb_only s s'"
  unfolding drm_framebuffer_unreference'_def using fb_put_ok(1) [OF assms] by blast

lemma unreference_ptr_ok:
  assumes "cells_ok (M + mset_set (set_option q)) s"
  shows "\<exists>s'. unreference_ptr q s = Inr s' \<and> cells_ok M s' \<and> fb_only s s'"
  using assms fb_unreference_ok [of _ M s] by (cases q) (auto simp: unreference_ptr_def)

text \<open>The framebuffers that the members of a list (CRTCs or planes) show.\<close>

definition shown :: "(nat \<Rightarrow> nat ptr) \<Rightarrow> nat list \<Rightarrow> nat multiset" where
  "shown f cs = mset (List.map_filter f cs)"

lemma shown_simps [simp]:
  "shown f [] = {#}" "shown f (c # cs) = mset_set (set_option (f c)) + shown f cs"
  by (auto simp: shown_def map_filter_simps split: option.split)

lemma shown_cong: "(\<And>c. c \<in> set cs \<Longrightarrow> f c = g c) \<Longrightarrow> shown f cs = shown g cs"
  by (induction cs) auto

lemma in_shown: "p \<in># shown f cs \<longleftrightarrow> (\<exists>c \<in> set cs. f c = Some p)"
proof (induction cs)
  case (Cons c cs)
  then show ?case by (cases "f c") auto
qed simp

lemma size_shown: "size (shown f cs) \<le> length cs"
proof (induction cs)
  case (Cons c cs)
  then show ?case by (cases "f c") auto
qed simp

lemma shown_upd:
  "distinct cs \<Longrightarrow> c \<in> set cs \<Longrightarrow>
     shown (f(c := q)) cs + mset_set (set_option (f c)) = shown f cs + mset_set (set_option q)"
proof (induction cs)
  case (Cons d cs)
  show ?case
  proof (cases "d = c")
    case True
    with Cons.prems have "shown (f(c := q)) cs = shown f cs" by (intro shown_cong) auto
    with True show ?thesis by (simp add: ac_simps fun_upd_def)
  next
    case False
    with Cons show ?thesis by (simp add: ac_simps)
  qed
qed simp

text \<open>
  The loop of \<open>drm_mode_set_config_internal\<close>: the references move from the old framebuffers to the
  new ones. \<open>M\<close> has the references that are not the CRTCs', among them one to the framebuffer of
  the request.
\<close>

lemma config_refs_ok:
  assumes cells: "cells_ok (M + mset_set (set_option (old c)) + R) s"
    and new: "crtc_fb (crtcs s c) \<in> {old c, None} \<or> set_option (crtc_fb (crtcs s c)) \<subseteq> set_mset M"
    and size: "size M + size R + 2 < 2 ^ 32"
  shows "\<exists>s'. config_refs old c s = Inr s' \<and> cells_ok (M + mset_set (set_option (crtc_fb (crtcs s c))) + R) s' \<and> fb_only s s'"
proof (cases "crtc_fb (crtcs s c)")
  case None
  have "cells_ok (M + R + mset_set (set_option (old c))) s" using cells by (simp add: ac_simps)
  from unreference_ptr_ok [OF this] None show ?thesis by (simp add: config_refs_def)
next
  case (Some f)
  let ?O = "mset_set (set_option (old c))"
  have f: "f \<in># M + ?O + R" using new Some by auto
  have sz: "size (M + ?O + R) + 1 < 2 ^ 32" using size by (cases "old c") auto
  from reference_ok [OF cells f sz] obtain s1 where s1: "drm_framebuffer_reference f s = Inr s1"
    "cells_ok (add_mset f (M + ?O + R)) s1" "fb_only s s1" by blast
  have "cells_ok (M + {#f#} + R + ?O) s1" using s1(2) by (simp add: ac_simps)
  from unreference_ptr_ok [OF this] obtain s2 where s2: "unreference_ptr (old c) s1 = Inr s2"
    "cells_ok (M + {#f#} + R) s2" "fb_only s1 s2" by blast
  have run: "config_refs old c s = Inr s2" using Some s1(1) s2(1) by (simp add: config_refs_def)
  have "mset_set (set_option (crtc_fb (crtcs s c))) = {#f#}" using Some by simp
  with run s2(2) fb_only_trans [OF s1(3) s2(3)] show ?thesis by auto
qed

lemma config_loop_ok:
  assumes "cells_ok (M + shown old cs) s"
    and "\<And>c. c \<in> set cs \<Longrightarrow> crtc_fb (crtcs s c) \<in> {old c, None} \<or> set_option (crtc_fb (crtcs s c)) \<subseteq> set_mset M"
    and "size M + length cs + 2 < 2 ^ 32"
  shows "\<exists>s'. fold_res (config_refs old) cs s = Inr s' \<and>
    cells_ok (M + shown (\<lambda>c. crtc_fb (crtcs s c)) cs) s' \<and> fb_only s s'"
  using assms
proof (induction cs arbitrary: M s)
  case (Cons c cs)
  let ?N = "mset_set (set_option (crtc_fb (crtcs s c)))"
  have cells: "cells_ok (M + mset_set (set_option (old c)) + shown old cs) s" using Cons.prems(1) by (simp add: ac_simps)
  have size: "size M + size (shown old cs) + 2 < 2 ^ 32" using Cons.prems(3) size_shown [of old cs] by simp
  have new: "crtc_fb (crtcs s c) \<in> {old c, None} \<or> set_option (crtc_fb (crtcs s c)) \<subseteq> set_mset M"
    by (rule Cons.prems(2)) simp
  from config_refs_ok [of M old c "shown old cs" s, OF cells new size] obtain s1 where s1: "config_refs old c s = Inr s1"
    "cells_ok (M + ?N + shown old cs) s1" "fb_only s s1" by blast
  have crtcs: "crtcs s1 = crtcs s" by (rule fb_only_fields(4) [OF s1(3)])
  have new1: "crtc_fb (crtcs s1 d) \<in> {old d, None} \<or> set_option (crtc_fb (crtcs s1 d)) \<subseteq> set_mset (M + ?N)" if "d \<in> set cs" for d
    using Cons.prems(2) [of d] that crtcs by auto
  have sz: "size (M + ?N) + length cs + 2 < 2 ^ 32" using Cons.prems(3) by (cases "crtc_fb (crtcs s c)") auto
  from Cons.IH [OF s1(2) new1 sz] obtain s2 where s2: "fold_res (config_refs old) cs s1 = Inr s2"
    "cells_ok (M + ?N + shown (\<lambda>c. crtc_fb (crtcs s1 c)) cs) s2" "fb_only s1 s2" by blast
  have run: "fold_res (config_refs old) (c # cs) s = Inr s2" using s1(1) s2(1) by simp
  have "cells_ok (M + shown (\<lambda>c. crtc_fb (crtcs s c)) (c # cs)) s2"
    using s2(2) crtcs by (simp add: ac_simps)
  with run fb_only_trans [OF s1(3) s2(3)] show ?case by blast
qed auto

subsection \<open>The invariant\<close>

text \<open>The references of the id table and of the files' lists.\<close>

definition core_refs :: "(mode_ref ptr, 't) avl_ops \<Rightarrow> 't kms \<Rightarrow> nat multiset" where
  "core_refs A s = mset_set {p. registered A s (OBJECT_FB, p)} + mset (concat (map (file_fbs s) (open_files s)))"

text \<open>All references; \<open>X\<close> has those of the code that is running and of the driver.\<close>

definition refs :: "(mode_ref ptr, 't) avl_ops \<Rightarrow> 't kms \<Rightarrow> nat multiset \<Rightarrow> nat multiset" where
  "refs A s X =
     core_refs A s + shown (\<lambda>c. crtc_fb (crtcs s c)) (crtc_list s) + shown (\<lambda>pl. plane_fb (planes s pl)) (plane_list s) + X"

text \<open>A framebuffer is in at most one place of the files' lists.\<close>

definition lists_ok :: "(mode_ref ptr, 't) avl_ops \<Rightarrow> 't kms \<Rightarrow> bool" where
  "lists_ok A s \<longleftrightarrow> distinct (open_files s) \<and> distinct (crtc_list s) \<and> distinct (plane_list s) \<and>
     distinct (concat (map (file_fbs s) (open_files s))) \<and> finite {p. registered A s (OBJECT_FB, p)}"

definition kms_inv :: "(mode_ref ptr, 't) avl_ops \<Rightarrow> ('t \<Rightarrow> bool) \<Rightarrow> nat multiset \<Rightarrow> 't kms \<Rightarrow> bool" where
  "kms_inv A ok X s \<longleftrightarrow> ids_ok A ok s \<and> lists_ok A s \<and> cells_ok (refs A s X) s"

lemma ids_ok_cong: "crtc_idr s' = crtc_idr s \<Longrightarrow> object_id s' = object_id s \<Longrightarrow> ids_ok A ok s' = ids_ok A ok s"
  by (simp add: ids_ok_def)

lemma core_refs_frame:
  assumes "crtc_idr s' = crtc_idr s" "object_id s' = object_id s" "open_files s' = open_files s" "file_fbs s' = file_fbs s"
  shows "core_refs A s' = core_refs A s"
  using assms by (simp add: core_refs_def registered_def)

lemma lists_ok_frame:
  assumes "crtc_idr s' = crtc_idr s" "object_id s' = object_id s" "open_files s' = open_files s" "file_fbs s' = file_fbs s"
    "crtc_list s' = crtc_list s" "plane_list s' = plane_list s"
  shows "lists_ok A s' = lists_ok A s"
  using assms by (simp add: lists_ok_def registered_def)

lemma refs_fb_only:
  assumes "fb_only s s'"
  shows "refs A s' X = refs A s X"
proof -
  note f = fb_only_fields [OF assms]
  have "core_refs A s' = core_refs A s" by (rule core_refs_frame) (fact f)+
  then show ?thesis by (simp add: refs_def f)
qed

lemma kms_inv_fb_only:
  assumes "kms_inv A ok X s" "fb_only s s'" "cells_ok (refs A s X') s'"
  shows "kms_inv A ok X' s'"
proof -
  note f = fb_only_fields [OF assms(2)]
  have "ids_ok A ok s' = ids_ok A ok s" by (rule ids_ok_cong) (fact f)+
  moreover have "lists_ok A s' = lists_ok A s" by (rule lists_ok_frame) (fact f)+
  ultimately show ?thesis using assms by (simp add: kms_inv_def refs_fb_only [OF assms(2)])
qed

lemma refs_add: "refs A s (add_mset p X) = add_mset p (refs A s X)"
  by (simp add: refs_def)

lemma registered_in_refs: "lists_ok A s \<Longrightarrow> registered A s (OBJECT_FB, p) \<Longrightarrow> p \<in># refs A s X"
  by (simp add: refs_def core_refs_def lists_ok_def)

lemma kms_inv_reference:
  assumes "kms_inv A ok X s" "p \<in># refs A s X" "size (refs A s X) + 1 < 2 ^ 32"
  shows "\<exists>s'. drm_framebuffer_reference p s = Inr s' \<and> kms_inv A ok (add_mset p X) s' \<and> fb_only s s'"
proof -
  have "cells_ok (refs A s X) s" using assms(1) by (simp add: kms_inv_def)
  from reference_ok [OF this assms(2,3)] obtain s' where "drm_framebuffer_reference p s = Inr s'"
    "cells_ok (add_mset p (refs A s X)) s'" "fb_only s s'" by blast
  with kms_inv_fb_only [OF assms(1), of s' "add_mset p X"] show ?thesis by (simp add: refs_add)
qed

lemma kms_inv_unreference:
  assumes "kms_inv A ok (add_mset p X) s"
  shows "\<exists>s'. drm_framebuffer_unreference p s = Inr s' \<and> kms_inv A ok X s' \<and> fb_only s s'"
proof -
  have "cells_ok (add_mset p (refs A s X)) s" using assms by (simp add: kms_inv_def refs_add)
  from fb_unreference_ok [OF this] kms_inv_fb_only [OF assms, of _ X] show ?thesis by blast
qed

lemma kms_inv_unreference':
  assumes "kms_inv A ok (add_mset p X) s" "p \<in># refs A s X"
  shows "\<exists>s'. drm_framebuffer_unreference' p s = Inr s' \<and> kms_inv A ok X s' \<and> fb_only s s'"
proof -
  have "cells_ok (add_mset p (refs A s X)) s" using assms by (simp add: kms_inv_def refs_add)
  from unreference'_ok [OF this assms(2)] kms_inv_fb_only [OF assms(1), of _ X] show ?thesis by blast
qed

lemma kms_inv_unreference_ptr:
  assumes "kms_inv A ok (X + mset_set (set_option q)) s"
  shows "\<exists>s'. unreference_ptr q s = Inr s' \<and> kms_inv A ok X s' \<and> fb_only s s'"
  using assms kms_inv_unreference [of A ok _ X s] by (cases q) (auto simp: unreference_ptr_def)

text \<open>Looking up an id.\<close>

lemma lookup'_ok:
  assumes "kms_inv A ok X s"
  shows "drm_framebuffer_lookup' A i s = Inr (drm_mode_object_find A i OBJECT_FB s)"
    "drm_mode_object_find A i OBJECT_FB s = Some p \<Longrightarrow> registered A s (OBJECT_FB, p) \<and> fb_id s p = i \<and> p \<in># refs A s X"
proof -
  have ids: "ids_ok A ok s" and l: "lists_ok A s" and c: "cells_ok (refs A s X) s" using assms by (simp_all add: kms_inv_def)
  have "fbs s q \<noteq> None" if "idr_find A (crtc_idr s) i = Some (OBJECT_FB, q)" for q
  proof -
    have "registered A s (OBJECT_FB, q)" using that registered_iff [OF ids] by blast
    from cells_cell [OF c registered_in_refs [OF l this]] show ?thesis by auto
  qed
  then show "drm_framebuffer_lookup' A i s = Inr (drm_mode_object_find A i OBJECT_FB s)"
    by (auto simp: drm_framebuffer_lookup'_def drm_mode_object_find_def split: option.splits prod.splits)
  show "registered A s (OBJECT_FB, p) \<and> fb_id s p = i \<and> p \<in># refs A s X" if "drm_mode_object_find A i OBJECT_FB s = Some p"
    using that drm_mode_object_find_iff [OF ids] registered_in_refs [OF l] by blast
qed

lemma lookup_ok:
  assumes inv: "kms_inv A ok X s" and size: "size (refs A s X) + 1 < 2 ^ 32"
  shows "\<exists>s'. drm_framebuffer_lookup A i s = Inr (drm_mode_object_find A i OBJECT_FB s, s') \<and>
    kms_inv A ok (X + mset_set (set_option (drm_mode_object_find A i OBJECT_FB s))) s' \<and> fb_only s s'"
proof (cases "drm_mode_object_find A i OBJECT_FB s")
  case None
  then show ?thesis using inv by (simp add: drm_framebuffer_lookup_def lookup'_ok(1) [OF inv])
next
  case (Some p)
  then have "p \<in># refs A s X" using lookup'_ok(2) [OF inv] by blast
  from kms_inv_reference [OF inv this size] Some show ?thesis
    by (auto simp: drm_framebuffer_lookup_def lookup'_ok(1) [OF inv])
qed

lemma kms_invD:
  assumes "kms_inv A ok X s"
  shows "ids_ok A ok s" "lists_ok A s" "cells_ok (refs A s X) s"
  using assms by (simp_all add: kms_inv_def)

lemma refs_live: "kms_inv A ok X s \<Longrightarrow> p \<in># refs A s X \<Longrightarrow> fbs s p \<noteq> None"
  using cells_cell [OF kms_invD(3)] by fastforce

subsection \<open>Registering\<close>

lemma mset_set_insert_new: "finite S \<Longrightarrow> p \<notin> S \<Longrightarrow> mset_set (insert p S) = add_mset p (mset_set S)"
  by simp

text \<open>A new framebuffer, with a reference for its maker and one for the table.\<close>

lemma init_ok:
  assumes laws: "avl_laws A ok" and inv: "kms_inv A ok X s" and new: "fbs s p = None"
    and got: "fst (drm_mode_object_get A True (OBJECT_FB, p) (s\<lparr>fbs := (fbs s)(p \<mapsto> fb\<lparr>fb_refcount := 1\<rparr>)\<rparr>)) = Inr ()"
  shows "\<exists>s'. drm_framebuffer_init A True p (s\<lparr>fbs := (fbs s)(p \<mapsto> fb)\<rparr>) = Inr s' \<and> kms_inv A ok (add_mset p X) s' \<and>
    registered A s' = (registered A s)((OBJECT_FB, p) := True) \<and>
    s' = s\<lparr>crtc_idr := crtc_idr s', object_id := object_id s', fbs := fbs s', fb_list := fb_list s', num_fb := num_fb s'\<rparr>"
proof -
  let ?s = "s\<lparr>fbs := (fbs s)(p \<mapsto> fb\<lparr>fb_refcount := 1\<rparr>)\<rparr>"
  note i = kms_invD [OF inv]
  have notin: "p \<notin># refs A s X" using refs_live [OF inv] new by blast
  have reg: "registered A ?s = registered A s" by (simp add: registered_def fun_eq_iff)
  have nreg: "\<not> registered A ?s (OBJECT_FB, p)" using notin registered_in_refs [OF i(2)] unfolding reg by blast
  have ids: "ids_ok A ok ?s" using i(1) by (simp add: ids_ok_def)
  obtain s1 where g: "drm_mode_object_get A True (OBJECT_FB, p) ?s = (Inr (), s1)" using got by (metis prod.collapse)
  have o: "ids_ok A ok s1" "registered A s1 = (registered A s)((OBJECT_FB, p) := True)"
    using object_get_ok [OF laws ids nreg g] unfolding reg by simp_all
  obtain n where s1: "s1 = ?s\<lparr>crtc_idr := crtc_idr s1, object_id := (object_id ?s)((OBJECT_FB, p) := n)\<rparr>"
    using object_get_ok [OF laws ids nreg g] by auto
  have f1: "fbs s1 = (fbs s)(p \<mapsto> fb\<lparr>fb_refcount := 1\<rparr>)" "fb_list s1 = fb_list s" "num_fb s1 = num_fb s"
    "open_files s1 = open_files s" "file_fbs s1 = file_fbs s" "crtc_list s1 = crtc_list s" "crtcs s1 = crtcs s"
    "plane_list s1 = plane_list s" "planes s1 = planes s"
    by (subst s1, simp)+
  let ?s2 = "s1\<lparr>fbs := (fbs s1)(p \<mapsto> fb\<lparr>fb_refcount := 2\<rparr>), num_fb := num_fb s1 + 1, fb_list := p # fb_list s1\<rparr>"
  have run: "drm_framebuffer_init A True p (s\<lparr>fbs := (fbs s)(p \<mapsto> fb)\<rparr>) = Inr ?s2"
    using g f1(1) by (simp add: drm_framebuffer_init_def drm_framebuffer_reference_def)
  have reg2: "registered A ?s2 = (registered A s)((OBJECT_FB, p) := True)"
    using o(2) by (simp add: registered_def fun_eq_iff)
  have set2: "{q. registered A ?s2 (OBJECT_FB, q)} = insert p {q. registered A s (OBJECT_FB, q)}"
    unfolding reg2 by auto
  have fin: "finite {q. registered A s (OBJECT_FB, q)}" using i(2) by (simp add: lists_ok_def)
  have "p \<notin> {q. registered A s (OBJECT_FB, q)}" using nreg reg by simp
  then have core: "core_refs A ?s2 = add_mset p (core_refs A s)"
    unfolding core_refs_def set2 using fin f1 by simp
  then have r2: "refs A ?s2 (add_mset p X) = add_mset p (add_mset p (refs A s X))"
    using f1 by (simp add: refs_def)
  have cells: "cells_ok (refs A ?s2 (add_mset p X)) ?s2"
    unfolding r2 using i(3) notin new f1 by (auto simp: cells_ok_iff not_in_iff)
  have lists: "lists_ok A ?s2" using i(2) set2 fin f1 by (simp add: lists_ok_def)
  have "ids_ok A ok ?s2" using o(1) by (simp add: ids_ok_def)
  with lists cells have "kms_inv A ok (add_mset p X) ?s2" by (simp add: kms_inv_def)
  moreover have "?s2 = s\<lparr>crtc_idr := crtc_idr ?s2, object_id := object_id ?s2, fbs := fbs ?s2, fb_list := fb_list ?s2, num_fb := num_fb ?s2\<rparr>"
    by (subst s1, subst (2) s1) simp
  ultimately show ?thesis using run reg2 by blast
qed

text \<open>Unregistering drops the reference of the table, which is not the last one.\<close>

lemma unregister'_ok:
  assumes laws: "avl_laws A ok" and inv: "kms_inv A ok X s" and reg: "registered A s (OBJECT_FB, p)"
    and other: "1 < count (refs A s X) p"
  shows "\<exists>s'. drm_framebuffer_unregister' A True p s = Inr s' \<and> kms_inv A ok X s' \<and>
    registered A s' = (registered A s)((OBJECT_FB, p) := False) \<and> object_id s' = (object_id s)((OBJECT_FB, p) := 0) \<and>
    fb_only (s\<lparr>crtc_idr := crtc_idr s', object_id := object_id s'\<rparr>) s'"
proof -
  note i = kms_invD [OF inv]
  let ?s1 = "drm_mode_object_put A True (OBJECT_FB, p) s"
  let ?s2 = "?s1\<lparr>object_id := (object_id ?s1)((OBJECT_FB, p) := 0)\<rparr>"
  have put: "ids_ok A ok ?s1" "registered A ?s1 = (registered A s)((OBJECT_FB, p) := False)"
    using object_put_ok [OF laws i(1) reg] by simp_all
  have s1: "?s1 = s\<lparr>crtc_idr := crtc_idr ?s1\<rparr>" by (simp add: drm_mode_object_put_def)
  have nreg: "\<not> registered A ?s1 (OBJECT_FB, p)" unfolding put(2) by simp
  have reg2: "registered A ?s2 = (registered A s)((OBJECT_FB, p) := False)"
  proof
    fix r
    show "registered A ?s2 r = ((registered A s)((OBJECT_FB, p) := False)) r"
    proof (cases "r = (OBJECT_FB, p)")
      case True
      then show ?thesis using ids_okD(2) [OF put(1)] by (simp add: registered_def)
    next
      case False
      then have "registered A ?s2 r = registered A ?s1 r" by (simp add: registered_def)
      with False show ?thesis unfolding put(2) by simp
    qed
  qed
  have ids2: "ids_ok A ok ?s2"
  proof (rule ids_okI)
    show "object_id ?s2 r = j" if "idr_find A (crtc_idr ?s2) j = Some r" for j r
    proof -
      have "registered A ?s1 r" using that registered_iff [OF put(1)] by auto
      then have "r \<noteq> (OBJECT_FB, p)" using nreg by blast
      then show ?thesis using that ids_okD(3) [OF put(1), of j r] by simp
    qed
  qed (use ids_okD [OF put(1)] in simp_all)
  have f2: "fbs ?s2 = fbs s" "fb_list ?s2 = fb_list s" "num_fb ?s2 = num_fb s"
    "open_files ?s2 = open_files s" "file_fbs ?s2 = file_fbs s" "crtc_list ?s2 = crtc_list s" "crtcs ?s2 = crtcs s"
    "plane_list ?s2 = plane_list s" "planes ?s2 = planes s"
    by (simp_all add: drm_mode_object_put_def)
  have set2: "{q. registered A ?s2 (OBJECT_FB, q)} = {q. registered A s (OBJECT_FB, q)} - {p}"
    unfolding reg2 by auto
  have fin: "finite {q. registered A s (OBJECT_FB, q)}" using i(2) by (simp add: lists_ok_def)
  have "mset_set {q. registered A s (OBJECT_FB, q)} = add_mset p (mset_set ({q. registered A s (OBJECT_FB, q)} - {p}))"
    using fin reg mset_set.remove [of "{q. registered A s (OBJECT_FB, q)}" p] by simp
  then have core: "core_refs A s = add_mset p (core_refs A ?s2)"
    unfolding core_refs_def set2 f2 by simp
  then have r2: "refs A s X = add_mset p (refs A ?s2 X)"
    by (simp add: refs_def f2)
  have cells: "cells_ok (refs A ?s2 (add_mset p X)) ?s2"
    using i(3) unfolding refs_add r2 cells_ok_def f2 .
  have lists: "lists_ok A ?s2" using i(2) fin unfolding lists_ok_def set2 f2 by simp
  have inv2: "kms_inv A ok (add_mset p X) ?s2" using ids2 lists cells by (simp add: kms_inv_def)
  have "p \<in># refs A ?s2 X" using other unfolding r2 by (simp add: count_greater_zero_iff)
  from kms_inv_unreference' [OF inv2 this] obtain s' where s': "drm_framebuffer_unreference' p ?s2 = Inr s'"
    "kms_inv A ok X s'" "fb_only ?s2 s'" by blast
  have run: "drm_framebuffer_unregister' A True p s = Inr s'"
    using s'(1) by (simp add: drm_framebuffer_unregister'_def drm_mode_object_put_def Let_def)
  have "registered A s' = (registered A s)((OBJECT_FB, p) := False)"
    using fb_only_fields(9) [OF s'(3)] reg2 by metis
  moreover have "?s2 = s\<lparr>crtc_idr := crtc_idr s', object_id := object_id s'\<rparr>"
    using fb_only_fields(1,2) [OF s'(3)] by (simp add: drm_mode_object_put_def)
  moreover have "object_id s' = (object_id s)((OBJECT_FB, p) := 0)"
    using fb_only_fields(2) [OF s'(3)] by (simp add: drm_mode_object_put_def)
  ultimately show ?thesis using run s'(2,3) by auto
qed

subsection \<open>Configurations and removal\<close>

lemma size_shown_le:
  assumes "\<And>c. g c \<in> {f c, None}"
  shows "size (shown g cs) \<le> size (shown f cs)"
proof (induction cs)
  case (Cons c cs)
  moreover have "size (mset_set (set_option (g c))) \<le> size (mset_set (set_option (f c)))"
    using assms [of c] by auto
  ultimately show ?case by simp
qed simp

definition room :: "(mode_ref ptr, 't) avl_ops \<Rightarrow> nat multiset \<Rightarrow> 't kms \<Rightarrow> bool" where
  "room A X s \<longleftrightarrow> size (refs A s X) + length (crtc_list s) + 4 < 2 ^ 32"

lemma set_config_okD:
  "set_config_ok hook \<Longrightarrow> crtc_fb (snd (hook st cs) c) \<in> {crtc_fb (cs c), None} \<or> c = set_crtc st \<and> crtc_fb (snd (hook st cs) c) = set_fb st"
  unfolding set_config_ok_def by blast

lemma set_config_internal_ok:
  assumes hook: "set_config_ok hook" and inv: "kms_inv A ok X s" and held: "set_option (set_fb st) \<subseteq> set_mset X"
    and size: "size (refs A s X) + length (crtc_list s) + 2 < 2 ^ 32"
  shows "\<exists>s'. drm_mode_set_config_internal hook st s = Inr (fst (hook st (crtcs s)), s') \<and> kms_inv A ok X s' \<and>
    fb_only (s\<lparr>crtcs := snd (hook st (crtcs s))\<rparr>) s'"
proof -
  note i = kms_invD [OF inv]
  let ?old = "\<lambda>c. crtc_fb (crtcs s c)"
  let ?s = "s\<lparr>crtcs := snd (hook st (crtcs s))\<rparr>"
  let ?M = "core_refs A s + shown (\<lambda>pl. plane_fb (planes s pl)) (plane_list s) + X"
  have r: "refs A s X = ?M + shown ?old (crtc_list s)" by (simp add: refs_def ac_simps)
  have cells: "cells_ok (?M + shown ?old (crtc_list s)) ?s" using i(3) unfolding r by (simp add: cells_ok_def)
  have new: "crtc_fb (crtcs ?s c) \<in> {?old c, None} \<or> set_option (crtc_fb (crtcs ?s c)) \<subseteq> set_mset ?M" for c
    using set_config_okD [OF hook, of st "crtcs s" c] held by auto
  have sz: "size ?M + length (crtc_list s) + 2 < 2 ^ 32" using size by (simp add: r)
  from config_loop_ok [OF cells new sz] obtain s' where s': "fold_res (config_refs ?old) (crtc_list s) ?s = Inr s'"
    "cells_ok (?M + shown (\<lambda>c. crtc_fb (crtcs ?s c)) (crtc_list s)) s'" "fb_only ?s s'" by blast
  have core: "core_refs A ?s = core_refs A s" by (rule core_refs_frame) simp_all
  have "refs A ?s X = ?M + shown (\<lambda>c. crtc_fb (crtcs ?s c)) (crtc_list s)"
    unfolding refs_def core by (simp add: ac_simps)
  then have c': "cells_ok (refs A s' X) s'" using s'(2) refs_fb_only [OF s'(3), of A X] by simp
  note f = fb_only_fields [OF s'(3)]
  have "ids_ok A ok s' = ids_ok A ok s" by (rule ids_ok_cong) (simp_all add: f)
  moreover have "lists_ok A s' = lists_ok A s" by (rule lists_ok_frame) (simp_all add: f)
  ultimately have "kms_inv A ok X s'" using i c' by (simp add: kms_inv_def)
  moreover have "drm_mode_set_config_internal hook st s = Inr (fst (hook st (crtcs s)), s')"
    using s'(1) by (auto simp: drm_mode_set_config_internal_def split: prod.split)
  ultimately show ?thesis using s'(3) by blast
qed

text \<open>A driver that does switch a CRTC off when it is told to.\<close>

definition set_config_off :: "set_config \<Rightarrow> bool" where
  "set_config_off set_config \<longleftrightarrow> (\<forall>st cs. set_fb st = None \<longrightarrow> crtc_fb (snd (set_config st cs) (set_crtc st)) = None)"

lemma remove_from_crtc_ok:
  assumes hook: "set_config_ok hook" and inv: "kms_inv A ok X s" and size: "room A X s"
  shows "\<exists>s' cs. remove_from_crtc hook p c s = Inr s' \<and> kms_inv A ok X s' \<and> room A X s' \<and> fb_only (s\<lparr>crtcs := cs\<rparr>) s' \<and>
    (\<forall>d. crtc_fb (cs d) \<in> {crtc_fb (crtcs s d), None}) \<and> (set_config_off hook \<longrightarrow> crtc_fb (cs c) \<noteq> Some p)"
proof (cases "crtc_fb (crtcs s c) = Some p")
  case False
  then have "remove_from_crtc hook p c s = Inr s" by (simp add: remove_from_crtc_def)
  moreover have "fb_only (s\<lparr>crtcs := crtcs s\<rparr>) s" by simp
  ultimately show ?thesis using inv size False by blast
next
  case True
  let ?st = "\<lparr>set_fb = None, set_crtc = c, set_mode = None, set_x = 0, set_y = 0, set_connectors = []\<rparr>"
  let ?cs = "snd (hook ?st (crtcs s))"
  have held: "set_option (set_fb ?st) \<subseteq> set_mset X" by simp
  have "size (refs A s X) + length (crtc_list s) + 2 < 2 ^ 32" using size by (simp add: room_def)
  from set_config_internal_ok [OF hook inv held this] obtain s' where s':
    "drm_mode_set_config_internal hook ?st s = Inr (fst (hook ?st (crtcs s)), s')" "kms_inv A ok X s'"
    "fb_only (s\<lparr>crtcs := ?cs\<rparr>) s'" by blast
  have new: "crtc_fb (?cs d) \<in> {crtc_fb (crtcs s d), None}" for d
    using set_config_okD [OF hook, of ?st "crtcs s" d] by auto
  note f = fb_only_fields [OF s'(3)]
  have "core_refs A s' = core_refs A s" by (rule core_refs_frame) (simp_all add: f)
  then have "size (refs A s' X) \<le> size (refs A s X)"
    using size_shown_le [of "\<lambda>d. crtc_fb (?cs d)" "\<lambda>d. crtc_fb (crtcs s d)" "crtc_list s"] new
    by (simp add: refs_def f)
  then have "room A X s'" using size by (simp add: room_def f)
  moreover have "remove_from_crtc hook p c s = Inr s'" using True s'(1) by (simp add: remove_from_crtc_def)
  moreover have "set_config_off hook \<longrightarrow> crtc_fb (?cs c) \<noteq> Some p"
    unfolding set_config_off_def by (auto dest!: spec [of _ ?st] spec [of _ "crtcs s"])
  ultimately show ?thesis using s'(2,3) new by blast
qed

lemma remove_from_crtcs_ok:
  assumes hook: "set_config_ok hook"
  shows "kms_inv A ok X s \<Longrightarrow> room A X s \<Longrightarrow>
    \<exists>s' cs. fold_res (remove_from_crtc hook p) l s = Inr s' \<and> kms_inv A ok X s' \<and> room A X s' \<and> fb_only (s\<lparr>crtcs := cs\<rparr>) s' \<and>
      (\<forall>d. crtc_fb (cs d) \<in> {crtc_fb (crtcs s d), None}) \<and> (set_config_off hook \<longrightarrow> (\<forall>d \<in> set l. crtc_fb (cs d) \<noteq> Some p))"
proof (induction l arbitrary: s)
  case Nil
  have "fb_only (s\<lparr>crtcs := crtcs s\<rparr>) s" by simp
  with Nil show ?case by (intro exI [of _ s] exI [of _ "crtcs s"]) simp
next
  case (Cons c l)
  from remove_from_crtc_ok [OF hook Cons.prems] obtain s1 cs where s1: "remove_from_crtc hook p c s = Inr s1"
    "kms_inv A ok X s1" "room A X s1" "fb_only (s\<lparr>crtcs := cs\<rparr>) s1" "\<And>d. crtc_fb (cs d) \<in> {crtc_fb (crtcs s d), None}"
    "set_config_off hook \<longrightarrow> crtc_fb (cs c) \<noteq> Some p"
    by blast
  from Cons.IH [OF s1(2,3)] obtain s2 cs2 where s2: "fold_res (remove_from_crtc hook p) l s1 = Inr s2"
    "kms_inv A ok X s2" "room A X s2" "fb_only (s1\<lparr>crtcs := cs2\<rparr>) s2" "\<And>d. crtc_fb (cs2 d) \<in> {crtc_fb (crtcs s1 d), None}"
    "set_config_off hook \<longrightarrow> (\<forall>d \<in> set l. crtc_fb (cs2 d) \<noteq> Some p)"
    by blast
  have cs: "crtcs s1 = cs" using fb_only_fields(4) [OF s1(4)] by simp
  then have "crtc_fb (cs2 d) \<in> {crtc_fb (crtcs s d), None}" for d using s1(5) [of d] s2(5) [of d] by auto
  moreover have "set_config_off hook \<longrightarrow> (\<forall>d \<in> set (c # l). crtc_fb (cs2 d) \<noteq> Some p)"
    using s1(6) s2(5) [of c] s2(6) cs by auto
  moreover have "fb_only (s\<lparr>crtcs := cs2\<rparr>) s2" using fb_only_crtcs [OF s1(4)] s2(4) by (rule fb_only_trans)
  ultimately show ?case using s1(1) s2(1-3) by (intro exI [of _ s2] exI [of _ cs2]) simp
qed

text \<open>A plane that shows the framebuffer gives its reference back; the caller's reference remains.\<close>

lemma force_disable_ok:
  assumes inv: "kms_inv A ok X s" and pl: "pl \<in> set (plane_list s)" "plane_fb (planes s pl) = Some p" and held: "p \<in># X"
  shows "\<exists>s'. drm_plane_force_disable pl s = Inr s' \<and> kms_inv A ok X s' \<and>
    fb_only (s\<lparr>planes := (planes s)(pl := (planes s pl)\<lparr>plane_fb := None, plane_crtc := None\<rparr>)\<rparr>) s'"
proof -
  note i = kms_invD [OF inv]
  let ?pls = "(planes s)(pl := (planes s pl)\<lparr>plane_fb := None, plane_crtc := None\<rparr>)"
  let ?f = "\<lambda>q. plane_fb (planes s q)"
  let ?g = "\<lambda>q. plane_fb (?pls q)"
  have g: "?g = ?f(pl := None)" by auto
  have d: "distinct (plane_list s)" using i(2) by (simp add: lists_ok_def)
  have sh: "shown ?f (plane_list s) = add_mset p (shown ?g (plane_list s))"
    using shown_upd [OF d pl(1), of ?f None] pl(2) unfolding g by simp
  have "p \<in># refs A s X" using held by (simp add: refs_def)
  define M where "M = core_refs A s + shown (\<lambda>c. crtc_fb (crtcs s c)) (crtc_list s) + shown ?g (plane_list s) + X"
  have "refs A s X = add_mset p M" by (simp add: M_def refs_def sh)
  then have "cells_ok (add_mset p M) s" using i(3) by simp
  from unreference'_ok [OF this] held obtain s1 where s1: "drm_framebuffer_unreference' p s = Inr s1" "cells_ok M s1" "fb_only s s1"
    by (auto simp: M_def)
  let ?s' = "s1\<lparr>planes := ?pls\<rparr>"
  note f = fb_only_fields [OF s1(3)]
  have run: "drm_plane_force_disable pl s = Inr ?s'" using pl(2) s1(1) by (simp add: drm_plane_force_disable_def f)
  have core: "core_refs A ?s' = core_refs A s" by (rule core_refs_frame) (simp_all add: f)
  have "refs A ?s' X = M" unfolding refs_def core M_def by (simp add: f)
  then have "cells_ok (refs A ?s' X) ?s'" using s1(2) by (simp add: cells_ok_def)
  moreover have "ids_ok A ok ?s' = ids_ok A ok s" by (rule ids_ok_cong) (simp_all add: f)
  moreover have "lists_ok A ?s' = lists_ok A s" by (rule lists_ok_frame) (simp_all add: f)
  moreover have "fb_only (s\<lparr>planes := planes s\<rparr>) s1" using s1(3) by simp
  then have "fb_only (s\<lparr>planes := ?pls\<rparr>) ?s'" by (rule fb_only_planes)
  ultimately show ?thesis using run i(1,2) by (auto simp: kms_inv_def)
qed

lemma remove_from_planes_ok:
  "kms_inv A ok X s \<Longrightarrow> p \<in># X \<Longrightarrow> set l \<subseteq> set (plane_list s) \<Longrightarrow>
    \<exists>s' pls. fold_res (remove_from_plane p) l s = Inr s' \<and> kms_inv A ok X s' \<and> fb_only (s\<lparr>planes := pls\<rparr>) s' \<and>
      (\<forall>q. plane_fb (pls q) \<in> {plane_fb (planes s q), None}) \<and> (\<forall>q \<in> set l. plane_fb (pls q) \<noteq> Some p)"
proof (induction l arbitrary: s)
  case Nil
  have "fb_only (s\<lparr>planes := planes s\<rparr>) s" by simp
  with Nil show ?case by (intro exI [of _ s] exI [of _ "planes s"]) simp
next
  case (Cons pl l)
  have "\<exists>s1 pls. remove_from_plane p pl s = Inr s1 \<and> kms_inv A ok X s1 \<and> fb_only (s\<lparr>planes := pls\<rparr>) s1 \<and>
      (\<forall>q. plane_fb (pls q) \<in> {plane_fb (planes s q), None}) \<and> plane_fb (pls pl) \<noteq> Some p"
  proof (cases "plane_fb (planes s pl) = Some p")
    case True
    have "pl \<in> set (plane_list s)" using Cons.prems(3) by simp
    from force_disable_ok [OF Cons.prems(1) this True Cons.prems(2)] True obtain s1 where
      "remove_from_plane p pl s = Inr s1" "kms_inv A ok X s1"
      "fb_only (s\<lparr>planes := (planes s)(pl := (planes s pl)\<lparr>plane_fb := None, plane_crtc := None\<rparr>)\<rparr>) s1"
      by (auto simp: remove_from_plane_def)
    then show ?thesis
      by (intro exI [of _ s1] exI [of _ "(planes s)(pl := (planes s pl)\<lparr>plane_fb := None, plane_crtc := None\<rparr>)"]) auto
  next
    case False
    then show ?thesis using Cons.prems(1) by (intro exI [of _ s] exI [of _ "planes s"]) (auto simp: remove_from_plane_def)
  qed
  then obtain s1 pls where s1: "remove_from_plane p pl s = Inr s1" "kms_inv A ok X s1" "fb_only (s\<lparr>planes := pls\<rparr>) s1"
      "\<And>q. plane_fb (pls q) \<in> {plane_fb (planes s q), None}" "plane_fb (pls pl) \<noteq> Some p" by blast
  note f = fb_only_fields [OF s1(3)]
  have "set l \<subseteq> set (plane_list s1)" using Cons.prems(3) by (simp add: f)
  from Cons.IH [OF s1(2) Cons.prems(2) this] obtain s2 pls2 where s2: "fold_res (remove_from_plane p) l s1 = Inr s2"
      "kms_inv A ok X s2" "fb_only (s1\<lparr>planes := pls2\<rparr>) s2"
      "\<And>q. plane_fb (pls2 q) \<in> {plane_fb (planes s1 q), None}" "\<And>q. q \<in> set l \<Longrightarrow> plane_fb (pls2 q) \<noteq> Some p" by blast
  have pls: "planes s1 = pls" by (simp add: f)
  have "fb_only (s\<lparr>planes := pls2\<rparr>) s2" using fb_only_planes [OF s1(3)] s2(3) by (rule fb_only_trans)
  moreover have "plane_fb (pls2 q) \<in> {plane_fb (planes s q), None}" for q using s1(4) [of q] s2(4) [of q] pls by auto
  moreover have "plane_fb (pls2 q) \<noteq> Some p" if "q \<in> set (pl # l)" for q
    using that s1(5) s2(4) [of pl] s2(5) pls by auto
  ultimately show ?case using s1(1) s2(1,2) by (intro exI [of _ s2] exI [of _ pls2]) simp
qed

text \<open>
  Removing a framebuffer drops the caller's reference after the CRTCs and planes that show it have been
  told to stop; with a reference count of 1 nobody shows it. A CRTC may keep showing it only if the
  driver refuses to switch it off.
\<close>

lemma drm_framebuffer_remove_ok:
  assumes hook: "set_config_ok hook" and inv: "kms_inv A ok (add_mset p X) s" and size: "room A (add_mset p X) s"
  shows "\<exists>s' cs pls. drm_framebuffer_remove hook p s = Inr s' \<and> kms_inv A ok X s' \<and> fb_only (s\<lparr>crtcs := cs, planes := pls\<rparr>) s' \<and>
    (\<forall>d. crtc_fb (cs d) \<in> {crtc_fb (crtcs s d), None}) \<and> (\<forall>q. plane_fb (pls q) \<in> {plane_fb (planes s q), None}) \<and>
    (\<forall>q \<in> set (plane_list s). plane_fb (pls q) \<noteq> Some p) \<and>
    (set_config_off hook \<longrightarrow> (\<forall>d \<in> set (crtc_list s). crtc_fb (cs d) \<noteq> Some p))"
proof -
  let ?X = "add_mset p X"
  note i = kms_invD [OF inv]
  have "p \<in># refs A s ?X" by (simp add: refs_def)
  from cells_cell [OF i(3) this] obtain fb where fb: "fbs s p = Some fb" "unat (fb_refcount fb) = count (refs A s ?X) p" by blast
  show ?thesis
  proof (cases "fb_refcount fb > 1")
    case True
    from remove_from_crtcs_ok [OF hook inv size, of p "crtc_list s"] obtain s1 cs where s1:
      "fold_res (remove_from_crtc hook p) (crtc_list s) s = Inr s1" "kms_inv A ok ?X s1" "fb_only (s\<lparr>crtcs := cs\<rparr>) s1"
      "\<forall>d. crtc_fb (cs d) \<in> {crtc_fb (crtcs s d), None}"
      "set_config_off hook \<longrightarrow> (\<forall>d \<in> set (crtc_list s). crtc_fb (cs d) \<noteq> Some p)" by blast
    note f1 = fb_only_fields [OF s1(3)]
    have "p \<in># ?X" by simp
    from remove_from_planes_ok [OF s1(2) this, of "plane_list s1"] obtain s2 pls where s2:
      "fold_res (remove_from_plane p) (plane_list s1) s1 = Inr s2" "kms_inv A ok ?X s2" "fb_only (s1\<lparr>planes := pls\<rparr>) s2"
      "\<forall>q. plane_fb (pls q) \<in> {plane_fb (planes s1 q), None}" "\<forall>q \<in> set (plane_list s1). plane_fb (pls q) \<noteq> Some p"
      by auto
    from kms_inv_unreference [OF s2(2)] obtain s3 where s3: "drm_framebuffer_unreference p s2 = Inr s3" "kms_inv A ok X s3" "fb_only s2 s3"
      by blast
    have "fb_only (s\<lparr>crtcs := cs, planes := planes s\<rparr>) s1" using s1(3) by simp
    then have "fb_only (s\<lparr>crtcs := cs, planes := pls\<rparr>) (s1\<lparr>planes := pls\<rparr>)" by (rule fb_only_planes)
    then have "fb_only (s\<lparr>crtcs := cs, planes := pls\<rparr>) s3" using fb_only_trans s2(3) s3(3) by metis
    moreover have "drm_framebuffer_remove hook p s = Inr s3"
      using fb(1) True s1(1) s2(1) s3(1) by (simp add: drm_framebuffer_remove_def)
    ultimately show ?thesis using s1(4,5) s2(4,5) s3(2) f1
      by (intro exI [of _ s3] exI [of _ cs] exI [of _ pls]) simp
  next
    case False
    from kms_inv_unreference [OF inv] obtain s3 where s3: "drm_framebuffer_unreference p s = Inr s3" "kms_inv A ok X s3" "fb_only s s3"
      by blast
    have run: "drm_framebuffer_remove hook p s = Inr s3"
      using fb(1) False s3(1) by (simp add: drm_framebuffer_remove_def)
    have "unat (fb_refcount fb) \<le> 1" using False by (simp add: word_less_nat_alt)
    then have "p \<notin># shown (\<lambda>pl. plane_fb (planes s pl)) (plane_list s)" "p \<notin># shown (\<lambda>c. crtc_fb (crtcs s c)) (crtc_list s)"
      using fb(2) by (auto simp: refs_def not_in_iff)
    then have "\<forall>q \<in> set (plane_list s). plane_fb (planes s q) \<noteq> Some p" "\<forall>d \<in> set (crtc_list s). crtc_fb (crtcs s d) \<noteq> Some p"
      unfolding in_shown by blast+
    then show ?thesis using run s3 by (intro exI [of _ s3] exI [of _ "crtcs s"] exI [of _ "planes s"]) simp
  qed
qed

end
