(* ===== verification/Drm_Kms.thy ===== *)
theory Drm_Kms
  imports Drm_Framebuffer
begin

text \<open>
  The mode setting ioctls that create, show, flip and remove framebuffers (\<open>drm_crtc.c\<close>), each from
  its first check to its last reference.
\<close>

subsection \<open>Modes of the user interface\<close>

text \<open>\<open>struct drm_mode_modeinfo\<close> of \<open>drm_mode.h\<close>; \<open>len\<close> below is \<open>DRM_DISPLAY_MODE_LEN\<close>.\<close>

record drm_mode_modeinfo =
  u_clock :: u32
  u_hdisplay :: u16
  u_hsync_start :: u16
  u_hsync_end :: u16
  u_htotal :: u16
  u_hskew :: u16
  u_vdisplay :: u16
  u_vsync_start :: u16
  u_vsync_end :: u16
  u_vtotal :: u16
  u_vscan :: u16
  u_vrefresh :: u32
  u_flags :: "mode_flag set"
  u_type :: "mode_type set"
  u_name :: string

definition drm_crtc_convert_to_umode :: "nat \<Rightarrow> drm_display_mode \<Rightarrow> drm_mode_modeinfo" where
  "drm_crtc_convert_to_umode len i =
     \<lparr>u_clock = word_of_int (clock i), u_hdisplay = word_of_int (hdisplay i), u_hsync_start = word_of_int (hsync_start i),
      u_hsync_end = word_of_int (hsync_end i), u_htotal = word_of_int (htotal i), u_hskew = word_of_int (hskew i),
      u_vdisplay = word_of_int (vdisplay i), u_vsync_start = word_of_int (vsync_start i),
      u_vsync_end = word_of_int (vsync_end i), u_vtotal = word_of_int (vtotal i), u_vscan = word_of_int (vscan i),
      u_vrefresh = word_of_int (vrefresh i), u_flags = flags i, u_type = mtype i, u_name = take (len - 1) (name i)\<rparr>"

text \<open>The mode \<open>out\<close> is the one that is overwritten.\<close>

definition drm_crtc_convert_umode :: "nat \<Rightarrow> drm_mode_modeinfo \<Rightarrow> drm_display_mode \<Rightarrow> drm_display_mode result" where
  "drm_crtc_convert_umode len i out =
     (if u_clock i > 0x7FFFFFFF \<or> u_vrefresh i > 0x7FFFFFFF then Inl ERANGE
      else Inr (out\<lparr>clock := uint (u_clock i), hdisplay := uint (u_hdisplay i), hsync_start := uint (u_hsync_start i),
        hsync_end := uint (u_hsync_end i), htotal := uint (u_htotal i), hskew := uint (u_hskew i),
        vdisplay := uint (u_vdisplay i), vsync_start := uint (u_vsync_start i), vsync_end := uint (u_vsync_end i),
        vtotal := uint (u_vtotal i), vscan := uint (u_vscan i), vrefresh := uint (u_vrefresh i),
        flags := u_flags i, mtype := u_type i, name := take (len - 1) (u_name i)\<rparr>))"

subsection \<open>CRTCs and planes of a device\<close>

text \<open>The memory of a new CRTC or plane is cleared by the driver.\<close>

definition blank_crtc :: drm_crtc where
  "blank_crtc = \<lparr>crtc_fb = None, crtc_mode_hdisplay = 0, crtc_mode_vdisplay = 0, crtc_x = 0, crtc_y = 0, invert_dimensions = False\<rparr>"

definition drm_crtc_init :: "(mode_ref ptr, 't) avl_ops \<Rightarrow> bool \<Rightarrow> nat \<Rightarrow> 't kms \<Rightarrow> unit result \<times> 't kms" where
  "drm_crtc_init A alloc c s =
     (case drm_mode_object_get A alloc (OBJECT_CRTC, c) (s\<lparr>crtcs := (crtcs s)(c := blank_crtc)\<rparr>) of
        (Inl e, s) \<Rightarrow> (Inl e, s)
      | (Inr _, s) \<Rightarrow> (Inr (), s\<lparr>obj_props := (obj_props s)((OBJECT_CRTC, c) \<mapsto> []), crtc_list := crtc_list s @ [c]\<rparr>))"

text \<open>A plane with \<open>priv\<close> is not put into the list of the device.\<close>

definition drm_plane_init ::
  "(mode_ref ptr, 't) avl_ops \<Rightarrow> bool \<Rightarrow> bool \<Rightarrow> nat \<Rightarrow> pixel_format list \<Rightarrow> bool \<Rightarrow> 't kms \<Rightarrow> unit result \<times> 't kms" where
  "drm_plane_init A alloc kmalloc pl formats priv s =
     (case drm_mode_object_get A alloc (OBJECT_PLANE, pl) s of
        (Inl e, s) \<Rightarrow> (Inl e, s)
      | (Inr _, s) \<Rightarrow>
          let s = s\<lparr>obj_props := (obj_props s)((OBJECT_PLANE, pl) \<mapsto> [])\<rparr>
          in if \<not> kmalloc then (Inl ENOMEM, drm_mode_object_put A True (OBJECT_PLANE, pl) s)
             else
            (Inr (), s\<lparr>planes := (planes s)(pl := \<lparr>plane_fb = None, plane_crtc = None, format_types = formats\<rparr>),
                       plane_list := (if priv then plane_list s else plane_list s @ [pl])\<rparr>))"

text \<open>
  A connector gets the number of its type, so that its name is unique, and the properties that every
  connector has; \<open>virt\<close> is the type that has no EDID. The lists of modes start empty.
\<close>

definition add_connector :: "nat \<Rightarrow> nat \<Rightarrow> 't kms \<Rightarrow> 't kms" where
  "add_connector c ty s =
     s\<lparr>obj_props := (obj_props s)((OBJECT_CONNECTOR, c) \<mapsto> []), edid_blob_ptr := (edid_blob_ptr s)(c := None),
       type_count := (type_count s)(ty := type_count s ty + 1), connector_name := (connector_name s)(c := (ty, type_count s ty + 1)),
       connector_list := connector_list s @ [c], num_connector := num_connector s + 1\<rparr>"

definition drm_connector_init ::
  "(mode_ref ptr, 't) avl_ops \<Rightarrow> bool \<Rightarrow> nat \<Rightarrow> nat \<Rightarrow> nat \<Rightarrow> 't kms \<Rightarrow> (unit result \<times> 't kms) result" where
  "drm_connector_init A alloc virt c ty s =
     (case drm_mode_object_get A alloc (OBJECT_CONNECTOR, c) s of
        (Inl e, s) \<Rightarrow> Inr (Inl e, s)
      | (Inr _, s) \<Rightarrow>
          let s = add_connector c ty s
          in (case (if ty = virt then Inr s else drm_object_attach_property (OBJECT_CONNECTOR, c) (slots s edid_property) 0 s) of
                Inl e \<Rightarrow> Inl e
              | Inr s \<Rightarrow>
                  (case drm_object_attach_property (OBJECT_CONNECTOR, c) (slots s dpms_property) 0 s of
                     Inl e \<Rightarrow> Inl e
                   | Inr s \<Rightarrow> Inr (Inr (), s))))"

text \<open>What \<open>drm_mode_config_init\<close> sets up, with the limits that a driver adds.\<close>

definition blank_config :: "(mode_ref ptr, 't) avl_ops \<Rightarrow> u32 \<Rightarrow> u32 \<Rightarrow> u32 \<Rightarrow> u32 \<Rightarrow> 't kms" where
  "blank_config A minw maxw minh maxh =
     \<lparr>crtc_idr = idr_init A, object_id = (\<lambda>_. 0), properties = (\<lambda>_. None), property_list = [], blobs = (\<lambda>_. None),
      property_blob_list = [], slots = (\<lambda>_. None), obj_props = (\<lambda>_. None), edid_blob_ptr = (\<lambda>_. None), fbs = (\<lambda>_. None), fb_list = [], num_fb = 0, crtc_list = [],
      crtcs = (\<lambda>_. blank_crtc), plane_list = [], planes = (\<lambda>_. \<lparr>plane_fb = None, plane_crtc = None, format_types = []\<rparr>),
      connector_list = [], num_connector = 0, connector_name = (\<lambda>_. (0, 0)), type_count = (\<lambda>_. 0), open_files = [], file_fbs = (\<lambda>_. []), event_space = (\<lambda>_. 0), flip_events = [],
      min_width = minw, max_width = maxw, min_height = minh, max_height = maxh\<rparr>"

definition drm_mode_config_init ::
  "(mode_ref ptr, 't) avl_ops \<Rightarrow> prop_env \<Rightarrow> u32 \<Rightarrow> u32 \<Rightarrow> u32 \<Rightarrow> u32 \<Rightarrow> 't kms result" where
  "drm_mode_config_init A E minw maxw minh maxh =
     drm_mode_create_standard_connector_properties A E (blank_config A minw maxw minh maxh)"

text \<open>What opening a file sets up, and closing one.\<close>

definition kms_open :: "nat \<Rightarrow> 't kms \<Rightarrow> 't kms" where
  "kms_open f s = s\<lparr>open_files := f # open_files s, file_fbs := (file_fbs s)(f := []), event_space := (event_space s)(f := 4096)\<rparr>"

subsection \<open>Adding and removing framebuffers\<close>

definition drm_helper_mode_fill_fb_struct :: "drm_mode_fb_cmd2 \<Rightarrow> drm_framebuffer" where
  "drm_helper_mode_fill_fb_struct r =
     \<lparr>fb_refcount = 0, fb_width = req_width r, fb_height = req_height r, fb_pitches = req_pitches r,
      fb_offsets = req_offsets r, fb_depth = fst (drm_fb_get_bpp_depth (req_format r)),
      fb_bits_per_pixel = snd (drm_fb_get_bpp_depth (req_format r)), fb_format = req_format r\<rparr>"

text \<open>
  The callback \<open>fb_create\<close> of a driver. \<open>create\<close> is the memory for the framebuffer, or \<open>None\<close> when the
  driver refuses the request; the memory is cleared, filled from the request and handed to
  \<open>drm_framebuffer_init\<close>.
\<close>

definition fb_create ::
  "(mode_ref ptr, 't) avl_ops \<Rightarrow> bool \<Rightarrow> nat ptr \<Rightarrow> drm_mode_fb_cmd2 \<Rightarrow> 't kms \<Rightarrow> (nat ptr \<times> 't kms) result" where
  "fb_create A alloc create r s =
     (case create of
        None \<Rightarrow> Inr (None, s)
      | Some p \<Rightarrow>
          let s = s\<lparr>object_id := (object_id s)((OBJECT_FB, p) := 0)\<rparr>;
              s = s\<lparr>fbs := (fbs s)(p \<mapsto> drm_helper_mode_fill_fb_struct r)\<rparr>
          in (case drm_framebuffer_init A alloc p s of Inl e \<Rightarrow> Inl e | Inr s \<Rightarrow> Inr (Some p, s)))"

definition fb_created ::
  "(mode_ref ptr, 't) avl_ops \<Rightarrow> bool \<Rightarrow> nat ptr \<Rightarrow> nat \<Rightarrow> drm_mode_fb_cmd2 \<Rightarrow> 't kms \<Rightarrow> (u32 result \<times> 't kms) result" where
  "fb_created A alloc create file r s =
     (case fb_create A alloc create r s of
        Inl e \<Rightarrow> Inl e
      | Inr (None, s) \<Rightarrow> Inr (Inl ENOMEM, s)
      | Inr (Some p, s) \<Rightarrow> Inr (Inr (fb_id s p), s\<lparr>file_fbs := (file_fbs s)(file := p # file_fbs s file)\<rparr>))"

record drm_mode_fb_cmd =
  old_width :: u32
  old_height :: u32
  old_pitch :: u32
  old_bpp :: u32
  old_depth :: u32
  old_handle :: u32

definition drm_mode_addfb ::
  "(mode_ref ptr, 't) avl_ops \<Rightarrow> bool \<Rightarrow> bool \<Rightarrow> nat ptr \<Rightarrow> nat \<Rightarrow> drm_mode_fb_cmd \<Rightarrow> 't kms \<Rightarrow> (u32 result \<times> 't kms) result" where
  "drm_mode_addfb A modeset alloc create file rq s =
     (let r = \<lparr>req_width = old_width rq, req_height = old_height rq,
               req_format = drm_mode_legacy_fb_format (old_bpp rq) (old_depth rq), req_flags = 0,
               req_handles = (\<lambda>_. 0)(0 := old_handle rq), req_pitches = (\<lambda>_. 0)(0 := old_pitch rq), req_offsets = (\<lambda>_. 0)\<rparr>
      in if \<not> modeset then Inr (Inl EINVAL, s)
         else if min_width s > req_width r \<or> req_width r > max_width s then Inr (Inl EINVAL, s)
         else if min_height s > req_height r \<or> req_height r > max_height s then Inr (Inl EINVAL, s)
         else fb_created A alloc create file r s)"

text \<open>\<open>interlaced\<close> is the flag \<open>DRM_MODE_FB_INTERLACED\<close> of \<open>drm_mode.h\<close>.\<close>

definition drm_mode_addfb2 ::
  "(mode_ref ptr, 't) avl_ops \<Rightarrow> u32 \<Rightarrow> bool \<Rightarrow> bool \<Rightarrow> nat ptr \<Rightarrow> nat \<Rightarrow> drm_mode_fb_cmd2 \<Rightarrow> 't kms \<Rightarrow> (u32 result \<times> 't kms) result" where
  "drm_mode_addfb2 A interlaced modeset alloc create file r s =
     (if \<not> modeset then Inr (Inl EINVAL, s)
      else if req_flags r AND NOT interlaced \<noteq> 0 then Inr (Inl EINVAL, s)
      else if min_width s > req_width r \<or> req_width r > max_width s then Inr (Inl EINVAL, s)
      else if min_height s > req_height r \<or> req_height r > max_height s then Inr (Inl EINVAL, s)
      else (case framebuffer_check r of
              Inl e \<Rightarrow> Inr (Inl e, s)
            | Inr _ \<Rightarrow> fb_created A alloc create file r s))"

text \<open>Reaping a framebuffer of a file: the common part of the ioctl and of closing the file.\<close>

definition reap_fb ::
  "(mode_ref ptr, 't) avl_ops \<Rightarrow> set_config \<Rightarrow> bool \<Rightarrow> nat \<Rightarrow> nat \<Rightarrow> 't kms \<Rightarrow> 't kms result" where
  "reap_fb A set_config alloc file p s =
     (case drm_framebuffer_unregister' A alloc p s of
        Inl e \<Rightarrow> Inl e
      | Inr s \<Rightarrow>
          drm_framebuffer_remove set_config p (s\<lparr>file_fbs := (file_fbs s)(file := remove1 p (file_fbs s file))\<rparr>))"

definition drm_mode_rmfb ::
  "(mode_ref ptr, 't) avl_ops \<Rightarrow> set_config \<Rightarrow> bool \<Rightarrow> bool \<Rightarrow> nat \<Rightarrow> u32 \<Rightarrow> 't kms \<Rightarrow> (unit result \<times> 't kms) result" where
  "drm_mode_rmfb A set_config modeset alloc file i s =
     (if \<not> modeset then Inr (Inl EINVAL, s)
      else (case drm_framebuffer_lookup' A i s of
              Inl e \<Rightarrow> Inl e
            | Inr None \<Rightarrow> Inr (Inl EINVAL, s)
            | Inr (Some p) \<Rightarrow>
                if p \<notin> set (file_fbs s file) then Inr (Inl EINVAL, s)
                else (case reap_fb A set_config alloc file p s of Inl e \<Rightarrow> Inl e | Inr s \<Rightarrow> Inr (Inr (), s))))"

definition drm_fb_release ::
  "(mode_ref ptr, 't) avl_ops \<Rightarrow> set_config \<Rightarrow> bool \<Rightarrow> nat \<Rightarrow> 't kms \<Rightarrow> 't kms result" where
  "drm_fb_release A set_config alloc file s = fold_res (reap_fb A set_config alloc file) (file_fbs s file) s"

text \<open>The result is width, height, depth, bits per pixel, pitch and the handle the driver makes.\<close>

definition drm_mode_getfb ::
  "(mode_ref ptr, 't) avl_ops \<Rightarrow> bool \<Rightarrow> u32 result ptr \<Rightarrow> u32 \<Rightarrow> 't kms \<Rightarrow>
     ((u32 \<times> u32 \<times> nat \<times> nat \<times> u32 \<times> u32) result \<times> 't kms) result" where
  "drm_mode_getfb A modeset create_handle i s =
     (if \<not> modeset then Inr (Inl EINVAL, s)
      else (case drm_framebuffer_lookup A i s of
              Inl e \<Rightarrow> Inl e
            | Inr (None, s) \<Rightarrow> Inr (Inl EINVAL, s)
            | Inr (Some p, s) \<Rightarrow>
                (case fbs s p of
                   None \<Rightarrow> Inl BUG
                 | Some fb \<Rightarrow>
                     (case drm_framebuffer_unreference p s of
                        Inl e \<Rightarrow> Inl e
                      | Inr s \<Rightarrow>
                          Inr (case create_handle of
                                 None \<Rightarrow> Inl ENODEV
                               | Some (Inl e) \<Rightarrow> Inl e
                               | Some (Inr h) \<Rightarrow>
                                   Inr (fb_width fb, fb_height fb, fb_depth fb, fb_bits_per_pixel fb, fb_pitches fb 0, h), s)))))"

subsection \<open>Planes\<close>

record drm_mode_set_plane =
  sp_plane_id :: u32
  sp_crtc_id :: u32
  sp_fb_id :: u32
  sp_crtc_x :: int
  sp_crtc_y :: int
  sp_crtc_w :: u32
  sp_crtc_h :: u32
  sp_src_x :: u32
  sp_src_y :: u32
  sp_src_h :: u32
  sp_src_w :: u32

definition src_inside :: "drm_framebuffer \<Rightarrow> drm_mode_set_plane \<Rightarrow> bool" where
  "src_inside fb rq =
     (let fbw = push_bit 16 (fb_width fb); fbh = push_bit 16 (fb_height fb)
      in \<not> (sp_src_w rq > fbw \<or> sp_src_x rq > fbw - sp_src_w rq \<or> sp_src_h rq > fbh \<or> sp_src_y rq > fbh - sp_src_h rq))"

definition crtc_inside :: "drm_mode_set_plane \<Rightarrow> bool" where
  "crtc_inside rq =
     (\<not> (sp_crtc_w rq > 0x7FFFFFFF \<or> sp_crtc_x rq > 0x7FFFFFFF - sint (sp_crtc_w rq) \<or>
         sp_crtc_h rq > 0x7FFFFFFF \<or> sp_crtc_y rq > 0x7FFFFFFF - sint (sp_crtc_h rq)))"

text \<open>\<open>update\<close> is what the driver's \<open>update_plane\<close> returns.\<close>

definition drm_mode_setplane ::
  "(mode_ref ptr, 't) avl_ops \<Rightarrow> bool \<Rightarrow> unit result \<Rightarrow> drm_mode_set_plane \<Rightarrow> 't kms \<Rightarrow> (unit result \<times> 't kms) result" where
  "drm_mode_setplane A modeset update rq s =
     (let out = (\<lambda>ret fb old_fb s.
            case unreference_ptr fb s of
              Inl e \<Rightarrow> Inl e
            | Inr s \<Rightarrow> (case unreference_ptr old_fb s of Inl e \<Rightarrow> Inl e | Inr s \<Rightarrow> Inr (ret, s)))
      in if \<not> modeset then Inr (Inl EINVAL, s)
         else case drm_mode_object_find A (sp_plane_id rq) OBJECT_PLANE s of
                None \<Rightarrow> Inr (Inl ENOENT, s)
              | Some pl \<Rightarrow>
                  if sp_fb_id rq = 0
                  then out (Inr ()) None (plane_fb (planes s pl))
                         (s\<lparr>planes := (planes s)(pl := (planes s pl)\<lparr>plane_crtc := None, plane_fb := None\<rparr>)\<rparr>)
                  else
                    (case drm_mode_object_find A (sp_crtc_id rq) OBJECT_CRTC s of
                       None \<Rightarrow> out (Inl ENOENT) None None s
                     | Some crtc \<Rightarrow>
                         (case drm_framebuffer_lookup A (sp_fb_id rq) s of
                            Inl e \<Rightarrow> Inl e
                          | Inr (None, s) \<Rightarrow> out (Inl ENOENT) None None s
                          | Inr (Some p, s) \<Rightarrow>
                              (case fbs s p of
                                 None \<Rightarrow> Inl BUG
                               | Some fb \<Rightarrow>
                                   if fb_format fb \<notin> set (format_types (planes s pl)) then out (Inl EINVAL) (Some p) None s
                                   else if \<not> src_inside fb rq then out (Inl ENOSPC) (Some p) None s
                                   else if \<not> crtc_inside rq then out (Inl ERANGE) (Some p) None s
                                   else
                                     (case update of
                                        Inl e \<Rightarrow> out (Inl e) (Some p) None s
                                      | Inr _ \<Rightarrow>
                                          out (Inr ()) None (plane_fb (planes s pl))
                                            (s\<lparr>planes := (planes s)(pl := (planes s pl)\<lparr>plane_crtc := Some crtc, plane_fb := Some p\<rparr>)\<rparr>))))))"

subsection \<open>CRTCs\<close>

text \<open>The rectangle that a CRTC shows lies in the framebuffer; the comparisons are of unsigned numbers.\<close>

definition viewport_ok :: "drm_framebuffer \<Rightarrow> bool \<Rightarrow> int \<Rightarrow> int \<Rightarrow> u32 \<Rightarrow> u32 \<Rightarrow> bool" where
  "viewport_ok fb inverted h v x y =
     (let (hd, vd) = (if inverted then (v, h) else (h, v));
          hw = word_of_int hd :: u32; vw = word_of_int vd :: u32
      in \<not> (hw > fb_width fb \<or> vw > fb_height fb \<or> x > fb_width fb - hw \<or> y > fb_height fb - vw))"

definition kms_mode_create ::
  "(mode_ref ptr, 't) avl_ops \<Rightarrow> bool \<Rightarrow> nat ptr \<Rightarrow> 't kms \<Rightarrow> nat ptr \<times> 't kms" where
  "kms_mode_create A alloc nmode s =
     (case nmode of
        None \<Rightarrow> (None, s)
      | Some m \<Rightarrow>
          (case drm_mode_object_get A alloc (OBJECT_MODE, m) s of
             (Inl e, s) \<Rightarrow> (None, s)
           | (Inr _, s) \<Rightarrow> (Some m, s)))"

definition kms_mode_destroy :: "(mode_ref ptr, 't) avl_ops \<Rightarrow> nat ptr \<Rightarrow> 't kms \<Rightarrow> 't kms" where
  "kms_mode_destroy A mode s = (case mode of None \<Rightarrow> s | Some m \<Rightarrow> drm_mode_object_put A True (OBJECT_MODE, m) s)"

text \<open>The array of connector ids is in user memory: \<open>None\<close> is an address that cannot be read.\<close>

record drm_mode_crtc_req =
  rq_crtc_id :: u32
  rq_fb_id :: u32
  rq_x :: u32
  rq_y :: u32
  rq_mode_valid :: bool
  rq_mode :: drm_mode_modeinfo
  rq_count_connectors :: nat
  rq_connectors :: "nat \<Rightarrow> u32 option"

text \<open>What the driver, the allocators and the constants of the user interface contribute.\<close>

record kms_env =
  kms_set_config :: set_config
  kms_modeset :: bool
  kms_mode_len :: nat
  kms_new_mode :: "nat ptr"
  kms_alloc :: bool
  kms_kmalloc :: bool
  kms_blank_mode :: drm_display_mode

fun setcrtc_connectors ::
  "(mode_ref ptr, 't) avl_ops \<Rightarrow> (nat \<Rightarrow> u32 option) \<Rightarrow> nat list \<Rightarrow> 't kms \<Rightarrow> nat list result" where
  "setcrtc_connectors A ids [] s = Inr []"
| "setcrtc_connectors A ids (i # rest) s =
     (case ids i of
        None \<Rightarrow> Inl EFAULT
      | Some out_id \<Rightarrow>
          (case drm_mode_object_find A out_id OBJECT_CONNECTOR s of
             None \<Rightarrow> Inl EINVAL
           | Some c \<Rightarrow> (case setcrtc_connectors A ids rest s of Inl e \<Rightarrow> Inl e | Inr cs \<Rightarrow> Inr (c # cs))))"

definition setcrtc_out ::
  "(mode_ref ptr, 't) avl_ops \<Rightarrow> nat ptr \<Rightarrow> nat ptr \<Rightarrow> unit result \<Rightarrow> 't kms \<Rightarrow> (unit result \<times> 't kms) result" where
  "setcrtc_out A fb mode ret s =
     (case unreference_ptr fb s of Inl e \<Rightarrow> Inl e | Inr s \<Rightarrow> Inr (ret, kms_mode_destroy A mode s))"

text \<open>From the check of the number of connectors on. \<open>mode\<close> is the id'd structure with its contents.\<close>

definition setcrtc_set ::
  "(mode_ref ptr, 't) avl_ops \<Rightarrow> kms_env \<Rightarrow> drm_mode_crtc_req \<Rightarrow> nat \<Rightarrow> nat ptr \<Rightarrow> (nat \<times> drm_display_mode) ptr \<Rightarrow> 't kms \<Rightarrow>
     (unit result \<times> 't kms) result" where
  "setcrtc_set A E rq crtc fb mode s =
     (let out = setcrtc_out A fb (map_option fst mode); n = rq_count_connectors rq
      in if n = 0 \<and> mode \<noteq> None then out (Inl EINVAL) s
         else if n > 0 \<and> (mode = None \<or> fb = None) then out (Inl EINVAL) s
         else if n > 0 \<and> n > num_connector s then out (Inl EINVAL) s
         else if n > 0 \<and> \<not> kms_kmalloc E then out (Inl ENOMEM) s
         else (case setcrtc_connectors A (rq_connectors rq) [0..<n] s of
                 Inl e \<Rightarrow> out (Inl e) s
               | Inr cs \<Rightarrow>
                   (case drm_mode_set_config_internal (kms_set_config E)
                      \<lparr>set_fb = fb, set_crtc = crtc, set_mode = map_option snd mode, set_x = rq_x rq, set_y = rq_y rq,
                       set_connectors = cs\<rparr> s of
                      Inl e \<Rightarrow> Inl e
                    | Inr (ret, s) \<Rightarrow> out ret s)))"

definition setcrtc_fb ::
  "(mode_ref ptr, 't) avl_ops \<Rightarrow> nat \<Rightarrow> u32 \<Rightarrow> 't kms \<Rightarrow> (nat ptr \<times> 't kms) result" where
  "setcrtc_fb A crtc i s =
     (if i = -1
      then (case crtc_fb (crtcs s crtc) of
              None \<Rightarrow> Inr (None, s)
            | Some p \<Rightarrow> (case drm_framebuffer_reference p s of Inl e \<Rightarrow> Inl e | Inr s \<Rightarrow> Inr (Some p, s)))
      else drm_framebuffer_lookup A i s)"

definition drm_mode_setcrtc ::
  "(mode_ref ptr, 't) avl_ops \<Rightarrow> kms_env \<Rightarrow> drm_mode_crtc_req \<Rightarrow> 't kms \<Rightarrow> (unit result \<times> 't kms) result" where
  "drm_mode_setcrtc A E rq s =
     (if \<not> kms_modeset E then Inr (Inl EINVAL, s)
      else if rq_x rq > 0x7FFFFFFF \<or> rq_y rq > 0x7FFFFFFF then Inr (Inl ERANGE, s)
      else
        (case drm_mode_object_find A (rq_crtc_id rq) OBJECT_CRTC s of
           None \<Rightarrow> Inr (Inl EINVAL, s)
         | Some crtc \<Rightarrow>
             if \<not> rq_mode_valid rq then setcrtc_set A E rq crtc None None s
             else
               (case setcrtc_fb A crtc (rq_fb_id rq) s of
                  Inl e \<Rightarrow> Inl e
                | Inr (None, s) \<Rightarrow> Inr (Inl EINVAL, s)
                | Inr (Some p, s) \<Rightarrow>
                    (case kms_mode_create A (kms_alloc E) (kms_new_mode E) s of
                       (None, s) \<Rightarrow> setcrtc_out A (Some p) None (Inl ENOMEM) s
                     | (Some m, s) \<Rightarrow>
                         (case drm_crtc_convert_umode (kms_mode_len E) (rq_mode rq) (kms_blank_mode E) of
                            Inl e \<Rightarrow> setcrtc_out A (Some p) (Some m) (Inl e) s
                          | Inr mode \<Rightarrow>
                              let mode = drm_mode_set_crtcinfo mode True
                              in (case fbs s p of
                                    None \<Rightarrow> Inl BUG
                                  | Some fb \<Rightarrow>
                                      if \<not> viewport_ok fb (invert_dimensions (crtcs s crtc)) (hdisplay mode) (vdisplay mode) (rq_x rq) (rq_y rq)
                                      then setcrtc_out A (Some p) (Some m) (Inl ENOSPC) s
                                      else setcrtc_set A E rq crtc (Some p) (Some (m, mode)) s))))))"

subsection \<open>Page flips\<close>

record drm_mode_crtc_page_flip =
  pf_crtc_id :: u32
  pf_fb_id :: u32
  pf_bad :: bool
  pf_event :: bool
  pf_user_data :: u64

text \<open>
  \<open>pf_bad\<close>: unknown flags or a reserved field that is not 0. \<open>esize\<close> is the size of an event, \<open>flip\<close> the
  callback \<open>page_flip\<close>, absent or what it returns; when it succeeds it has set \<open>crtc->fb\<close>. The space
  for an event is taken before the callback and given back on every failure; here it is taken once
  the callback has succeeded.
\<close>

definition drm_mode_page_flip_ioctl ::
  "(mode_ref ptr, 't) avl_ops \<Rightarrow> nat \<Rightarrow> bool \<Rightarrow> unit result ptr \<Rightarrow> nat \<Rightarrow> drm_mode_crtc_page_flip \<Rightarrow> 't kms \<Rightarrow>
     (unit result \<times> 't kms) result" where
  "drm_mode_page_flip_ioctl A esize kmalloc flip file rq s =
     (let out = (\<lambda>ret p s. case drm_framebuffer_unreference p s of Inl e \<Rightarrow> Inl e | Inr s \<Rightarrow> Inr (ret, s))
      in if pf_bad rq then Inr (Inl EINVAL, s)
         else case drm_mode_object_find A (pf_crtc_id rq) OBJECT_CRTC s of
           None \<Rightarrow> Inr (Inl EINVAL, s)
         | Some c \<Rightarrow>
             (case crtc_fb (crtcs s c) of
                None \<Rightarrow> Inr (Inl EBUSY, s)
              | Some old_fb \<Rightarrow>
                  (case flip of
                     None \<Rightarrow> Inr (Inl EINVAL, s)
                   | Some ret \<Rightarrow>
                       (case drm_framebuffer_lookup A (pf_fb_id rq) s of
                          Inl e \<Rightarrow> Inl e
                        | Inr (None, s) \<Rightarrow> Inr (Inl EINVAL, s)
                        | Inr (Some p, s) \<Rightarrow>
                            (case (fbs s p, fbs s old_fb) of
                               (Some fb, Some old) \<Rightarrow>
                                 let cr = crtcs s c
                                 in if \<not> viewport_ok fb (invert_dimensions cr) (crtc_mode_hdisplay cr) (crtc_mode_vdisplay cr)
                                         (word_of_int (crtc_x cr)) (word_of_int (crtc_y cr))
                                    then out (Inl ENOSPC) p s
                                    else if fb_format old \<noteq> fb_format fb then out (Inl EINVAL) p s
                                    else if pf_event rq \<and> event_space s file < esize then out (Inl ENOMEM) p s
                                    else if pf_event rq \<and> \<not> kmalloc then out (Inl ENOMEM) p s
                                    else
                                      (case ret of
                                         Inl e \<Rightarrow> out (Inl e) p s
                                       | Inr _ \<Rightarrow>
                                           let s = (if pf_event rq
                                                    then s\<lparr>event_space := (event_space s)(file := event_space s file - esize),
                                                           flip_events := flip_events s @ [(file, pf_user_data rq)]\<rparr>
                                                    else s)
                                           in out (Inr ()) old_fb (s\<lparr>crtcs := (crtcs s)(c := (crtcs s c)\<lparr>crtc_fb := Some p\<rparr>)\<rparr>))
                             | _ \<Rightarrow> Inl BUG)))))"

end
