(* ===== verification/Drm_Kms_Inv.thy ===== *)
theory Drm_Kms_Inv
  imports Drm_Kms
begin

text \<open>
  Every mode setting ioctl keeps the invariant of the framebuffers, so in every reachable state the
  reference counts are exact, nothing that is shown or registered has been freed, and no call runs
  into a stop of the kernel.
\<close>

subsection \<open>The invariant of the ioctls\<close>

text \<open>
  What a file has made is registered, and the CRTCs and planes that user space can name are those
  of the device's lists.
\<close>

definition names_ok :: "(mode_ref ptr, 't) avl_ops \<Rightarrow> 't kms \<Rightarrow> bool" where
  "names_ok A s \<longleftrightarrow>
     (\<forall>f \<in> set (open_files s). \<forall>p \<in> set (file_fbs s f). registered A s (OBJECT_FB, p)) \<and>
     (\<forall>q. registered A s (OBJECT_PLANE, q) \<longrightarrow> q \<in> set (plane_list s)) \<and>
     (\<forall>q. registered A s (OBJECT_CRTC, q) \<longrightarrow> q \<in> set (crtc_list s))"

definition kms_ok :: "(mode_ref ptr, 't) avl_ops \<Rightarrow> ('t \<Rightarrow> bool) \<Rightarrow> nat multiset \<Rightarrow> 't kms \<Rightarrow> bool" where
  "kms_ok A ok X s \<longleftrightarrow> kms_inv A ok X s \<and> names_ok A s"

lemma names_ok_frame:
  assumes "registered A s' = registered A s" "open_files s' = open_files s" "file_fbs s' = file_fbs s"
    "plane_list s' = plane_list s" "crtc_list s' = crtc_list s"
  shows "names_ok A s' = names_ok A s"
  using assms by (simp add: names_ok_def)

lemma names_ok_fb_only:
  assumes "fb_only s s'"
  shows "names_ok A s' = names_ok A s"
  by (rule names_ok_frame) (simp_all add: fb_only_fields [OF assms])

lemma find_crtc: "kms_ok A ok X s \<Longrightarrow> drm_mode_object_find A i OBJECT_CRTC s = Some c \<Longrightarrow> c \<in> set (crtc_list s)"
  using drm_mode_object_find_iff [OF kms_invD(1)] by (fastforce simp: kms_ok_def names_ok_def)

lemma find_plane: "kms_ok A ok X s \<Longrightarrow> drm_mode_object_find A i OBJECT_PLANE s = Some c \<Longrightarrow> c \<in> set (plane_list s)"
  using drm_mode_object_find_iff [OF kms_invD(1)] by (fastforce simp: kms_ok_def names_ok_def)

lemma kms_ok_unreference_ptr:
  assumes "kms_ok A ok (X + mset_set (set_option q)) s"
  shows "\<exists>s'. unreference_ptr q s = Inr s' \<and> kms_ok A ok X s' \<and> fb_only s s'"
  using kms_inv_unreference_ptr [of A ok X q s] names_ok_fb_only assms unfolding kms_ok_def by blast

lemma kms_ok_unreference:
  assumes "kms_ok A ok (add_mset p X) s"
  shows "\<exists>s'. drm_framebuffer_unreference p s = Inr s' \<and> kms_ok A ok X s' \<and> fb_only s s'"
  using kms_inv_unreference [of A ok p X s] names_ok_fb_only assms unfolding kms_ok_def by blast

lemma held_live: "kms_ok A ok (add_mset p X) s \<Longrightarrow> fbs s p \<noteq> None"
  using refs_live [of A ok "add_mset p X" s p] by (simp add: kms_ok_def refs_def)

lemma crtc_live: "kms_ok A ok X s \<Longrightarrow> c \<in> set (crtc_list s) \<Longrightarrow> crtc_fb (crtcs s c) = Some p \<Longrightarrow> fbs s p \<noteq> None"
  using refs_live [of A ok X s p] by (auto simp: kms_ok_def refs_def in_shown)

lemma room_size: "room A X s \<Longrightarrow> size (refs A s X) + 1 < 2 ^ 32"
  by (simp add: room_def)

lemma kms_ok_lookup:
  assumes "kms_ok A ok X s" "room A X s"
  shows "\<exists>s'. drm_framebuffer_lookup A i s = Inr (drm_mode_object_find A i OBJECT_FB s, s') \<and>
    kms_ok A ok (X + mset_set (set_option (drm_mode_object_find A i OBJECT_FB s))) s' \<and> fb_only s s'"
  using lookup_ok [of A ok X s i] room_size [OF assms(2)] names_ok_fb_only assms(1) unfolding kms_ok_def by blast

text \<open>A plane or a CRTC takes over a reference and leaves the one it had.\<close>

lemma plane_set_ok:
  assumes inv: "kms_ok A ok (X + mset_set (set_option q)) s" and pl: "pl \<in> set (plane_list s)"
  shows "kms_ok A ok (X + mset_set (set_option (plane_fb (planes s pl))))
    (s\<lparr>planes := (planes s)(pl := (planes s pl)\<lparr>plane_crtc := c, plane_fb := q\<rparr>)\<rparr>)"
proof -
  let ?s = "s\<lparr>planes := (planes s)(pl := (planes s pl)\<lparr>plane_crtc := c, plane_fb := q\<rparr>)\<rparr>"
  let ?f = "\<lambda>r. plane_fb (planes s r)"
  let ?old = "mset_set (set_option (?f pl))"
  have kinv: "kms_inv A ok (X + mset_set (set_option q)) s" and names: "names_ok A s" using inv by (simp_all add: kms_ok_def)
  note i = kms_invD [OF kinv]
  have g: "(\<lambda>r. plane_fb (planes ?s r)) = ?f(pl := q)" by auto
  have d: "distinct (plane_list s)" using i(2) by (simp add: lists_ok_def)
  have core: "core_refs A ?s = core_refs A s" by (rule core_refs_frame) simp_all
  have "refs A ?s (X + ?old) = core_refs A s + shown (\<lambda>c. crtc_fb (crtcs s c)) (crtc_list s) + X +
      (shown (?f(pl := q)) (plane_list s) + ?old)"
    unfolding refs_def core g by (simp add: ac_simps)
  also have "\<dots> = refs A s (X + mset_set (set_option q))"
    unfolding shown_upd [OF d pl, of ?f q] refs_def by (simp add: ac_simps)
  finally have "cells_ok (refs A ?s (X + ?old)) ?s" using i(3) by (simp add: cells_ok_def)
  moreover have "ids_ok A ok ?s" using i(1) by (simp add: ids_ok_def)
  moreover have "lists_ok A ?s" using i(2) lists_ok_frame [of ?s s A] by simp
  moreover have "names_ok A ?s" using names names_ok_frame [of A ?s s] by (simp add: registered_def fun_eq_iff)
  ultimately show ?thesis by (simp add: kms_ok_def kms_inv_def)
qed

lemma crtc_set_ok:
  assumes inv: "kms_ok A ok (X + mset_set (set_option q)) s" and c: "c \<in> set (crtc_list s)"
  shows "kms_ok A ok (X + mset_set (set_option (crtc_fb (crtcs s c))))
    (s\<lparr>crtcs := (crtcs s)(c := (crtcs s c)\<lparr>crtc_fb := q\<rparr>)\<rparr>)"
proof -
  let ?s = "s\<lparr>crtcs := (crtcs s)(c := (crtcs s c)\<lparr>crtc_fb := q\<rparr>)\<rparr>"
  let ?f = "\<lambda>r. crtc_fb (crtcs s r)"
  let ?old = "mset_set (set_option (?f c))"
  have kinv: "kms_inv A ok (X + mset_set (set_option q)) s" and names: "names_ok A s" using inv by (simp_all add: kms_ok_def)
  note i = kms_invD [OF kinv]
  have g: "(\<lambda>r. crtc_fb (crtcs ?s r)) = ?f(c := q)" by auto
  have d: "distinct (crtc_list s)" using i(2) by (simp add: lists_ok_def)
  have core: "core_refs A ?s = core_refs A s" by (rule core_refs_frame) simp_all
  have "refs A ?s (X + ?old) = core_refs A s + shown (\<lambda>r. plane_fb (planes s r)) (plane_list s) + X +
      (shown (?f(c := q)) (crtc_list s) + ?old)"
    unfolding refs_def core g by (simp add: ac_simps)
  also have "\<dots> = refs A s (X + mset_set (set_option q))"
    unfolding shown_upd [OF d c, of ?f q] refs_def by (simp add: ac_simps)
  finally have "cells_ok (refs A ?s (X + ?old)) ?s" using i(3) by (simp add: cells_ok_def)
  moreover have "ids_ok A ok ?s" using i(1) by (simp add: ids_ok_def)
  moreover have "lists_ok A ?s" using i(2) lists_ok_frame [of ?s s A] by simp
  moreover have "names_ok A ?s" using names names_ok_frame [of A ?s s] by (simp add: registered_def fun_eq_iff)
  ultimately show ?thesis by (simp add: kms_ok_def kms_inv_def)
qed

subsection \<open>Creating\<close>

definition ids_left :: "'t kms \<Rightarrow> bool" where
  "ids_left s \<longleftrightarrow> (\<exists>j. 1 \<le> j \<and> j < 0x7FFFFFFF \<and> j \<notin> live_ids (free_id_ranges (crtc_idr s)))"

lemma object_get_succeeds:
  assumes laws: "avl_laws A ok" and ids: "ids_ok A ok s" and left: "ids_left s"
  shows "fst (drm_mode_object_get A True r s) = Inr ()"
proof -
  obtain res idrp where g: "idr_get_new_above A True (crtc_idr s) (Some r) 1 = (res, idrp)" by force
  have "res \<noteq> Inl e" for e
  proof
    assume "res = Inl e"
    from idr_get_new_above_failure [OF laws ids_okD(1) [OF ids] g [unfolded this]] left show False
      by (auto simp: ids_left_def sint_nonneg_iff)
  qed
  then obtain i where "res = Inr i" by (cases res) auto
  with g show ?thesis by (simp add: drm_mode_object_get_def idr_pre_get_def)
qed

lemma unregistered_id_ok:
  assumes inv: "kms_ok A ok X s" and new: "\<not> registered A s (OBJECT_FB, p)"
  shows "kms_ok A ok X (s\<lparr>object_id := (object_id s)((OBJECT_FB, p) := 0)\<rparr>)"
    "registered A (s\<lparr>object_id := (object_id s)((OBJECT_FB, p) := 0)\<rparr>) = registered A s"
proof -
  let ?s = "s\<lparr>object_id := (object_id s)((OBJECT_FB, p) := 0)\<rparr>"
  have kinv: "kms_inv A ok X s" and names: "names_ok A s" using inv by (simp_all add: kms_ok_def)
  note i = kms_invD [OF kinv]
  show reg: "registered A ?s = registered A s"
  proof
    fix r
    show "registered A ?s r = registered A s r"
      using new ids_okD(2) [OF i(1)] by (cases "r = (OBJECT_FB, p)") (simp_all add: registered_def)
  qed
  have ids: "ids_ok A ok ?s"
  proof (rule ids_okI)
    show "object_id ?s r = j" if "idr_find A (crtc_idr ?s) j = Some r" for j r
    proof -
      have "registered A s r" using that registered_iff [OF i(1)] by auto
      with new have "r \<noteq> (OBJECT_FB, p)" by blast
      with that ids_okD(3) [OF i(1), of j r] show ?thesis by simp
    qed
  qed (use ids_okD [OF i(1)] in simp_all)
  have core: "core_refs A ?s = core_refs A s" by (simp add: core_refs_def reg)
  have "refs A ?s X = refs A s X" by (simp add: refs_def core)
  then have "cells_ok (refs A ?s X) ?s" using i(3) by (simp add: cells_ok_def)
  moreover have "lists_ok A ?s" using i(2) by (simp add: lists_ok_def reg)
  moreover have "names_ok A ?s" using names names_ok_frame [of A ?s s] reg by simp
  ultimately show "kms_ok A ok X ?s" using ids by (simp add: kms_ok_def kms_inv_def)
qed

lemma mset_concat_upd:
  "distinct fs \<Longrightarrow> f \<in> set fs \<Longrightarrow>
     mset (concat (map (g(f := xs)) fs)) + mset (g f) = mset (concat (map g fs)) + mset xs"
proof (induction fs)
  case (Cons h fs)
  show ?case
  proof (cases "h = f")
    case True
    with Cons.prems have eq: "map (g(f := xs)) fs = map g fs" by auto
    show ?thesis unfolding True list.map concat.simps mset_append eq by (simp add: ac_simps)
  next
    case False
    with Cons show ?thesis by (simp add: ac_simps)
  qed
qed simp

text \<open>A reference moves between the code that runs and the list of a file.\<close>

lemma file_list_ok:
  assumes inv: "kms_inv A ok X s" and f: "f \<in> set (open_files s)"
    and eq: "mset l + Y = mset (file_fbs s f) + X" and d: "distinct (concat (map ((file_fbs s)(f := l)) (open_files s)))"
  shows "kms_inv A ok Y (s\<lparr>file_fbs := (file_fbs s)(f := l)\<rparr>)"
    "refs A (s\<lparr>file_fbs := (file_fbs s)(f := l)\<rparr>) Y = refs A s X"
proof -
  let ?s = "s\<lparr>file_fbs := (file_fbs s)(f := l)\<rparr>"
  note i = kms_invD [OF inv]
  have reg: "registered A ?s = registered A s" by (simp add: registered_def fun_eq_iff)
  have do: "distinct (open_files s)" using i(2) by (simp add: lists_ok_def)
  let ?R = "mset_set {p. registered A s (OBJECT_FB, p)} + shown (\<lambda>c. crtc_fb (crtcs s c)) (crtc_list s) +
    shown (\<lambda>pl. plane_fb (planes s pl)) (plane_list s)"
  have "refs A ?s Y + mset (file_fbs s f) = ?R + (mset (concat (map ((file_fbs s)(f := l)) (open_files s))) + mset (file_fbs s f)) + Y"
    by (simp add: refs_def core_refs_def reg ac_simps)
  also have "\<dots> = ?R + mset (concat (map (file_fbs s) (open_files s))) + (mset l + Y)"
    unfolding mset_concat_upd [OF do f, of "file_fbs s" l] by (simp add: ac_simps)
  also have "\<dots> = refs A s X + mset (file_fbs s f)"
    unfolding eq by (simp add: refs_def core_refs_def ac_simps)
  finally show r: "refs A ?s Y = refs A s X" by simp
  then have "cells_ok (refs A ?s Y) ?s" using i(3) by (simp add: cells_ok_def)
  moreover have "ids_ok A ok ?s" using i(1) by (simp add: ids_ok_def)
  moreover have "lists_ok A ?s" using i(2) d by (simp add: lists_ok_def reg)
  ultimately show "kms_inv A ok Y ?s" by (simp add: kms_inv_def)
qed

lemma file_fbs_refs: "f \<in> set (open_files s) \<Longrightarrow> p \<in> set (file_fbs s f) \<Longrightarrow> p \<in># refs A s X"
  by (auto simp: refs_def core_refs_def)

lemma distinct_concat_add:
  assumes "distinct (concat (map g fs))" "distinct fs" "f \<in> set fs" "\<And>h. h \<in> set fs \<Longrightarrow> p \<notin> set (g h)"
  shows "distinct (concat (map (g(f := p # g f)) fs))"
proof -
  have "mset (concat (map (g(f := p # g f)) fs)) + mset (g f) = mset (concat (map g fs)) + mset (p # g f)"
    by (rule mset_concat_upd [OF assms(2,3)])
  then have "mset (concat (map (g(f := p # g f)) fs)) = mset (p # concat (map g fs))" by simp
  moreover have "distinct (p # concat (map g fs))" using assms by auto
  ultimately show ?thesis by (metis distinct_count_atmost_1 set_mset_mset)
qed

lemma fb_created_ok:
  assumes laws: "avl_laws A ok" and inv: "kms_ok A ok X s" and f: "f \<in> set (open_files s)"
    and left: "ids_left s" and new: "\<forall>p. create = Some p \<longrightarrow> fbs s p = None"
  shows "\<exists>ret s'. fb_created A True create f r s = Inr (ret, s') \<and> kms_ok A ok X s' \<and>
    (\<forall>i. ret = Inr i \<longrightarrow> (\<exists>p. create = Some p \<and> drm_mode_object_find A i OBJECT_FB s' = Some p \<and> p \<in> set (file_fbs s' f)))"
proof (cases create)
  case None
  then show ?thesis using inv by (simp add: fb_created_def fb_create_def)
next
  case (Some p)
  have kinv: "kms_inv A ok X s" and names: "names_ok A s" using inv by (simp_all add: kms_ok_def)
  have nofb: "fbs s p = None" using new Some by simp
  then have notin: "p \<notin># refs A s X" using refs_live [OF kinv] by blast
  then have nreg: "\<not> registered A s (OBJECT_FB, p)" using registered_in_refs [OF kms_invD(2) [OF kinv]] by blast
  let ?s0 = "s\<lparr>object_id := (object_id s)((OBJECT_FB, p) := 0)\<rparr>"
  have inv0: "kms_inv A ok X ?s0" and reg0: "registered A ?s0 = registered A s"
    using unregistered_id_ok [OF inv nreg] by (simp_all add: kms_ok_def)
  let ?fb = "drm_helper_mode_fill_fb_struct r"
  let ?s1 = "?s0\<lparr>fbs := (fbs ?s0)(p \<mapsto> ?fb\<lparr>fb_refcount := 1\<rparr>)\<rparr>"
  have ids1: "ids_ok A ok ?s1" using kms_invD(1) [OF inv0] by (simp add: ids_ok_def)
  have "fst (drm_mode_object_get A True (OBJECT_FB, p) ?s1) = Inr ()"
    by (rule object_get_succeeds [OF laws ids1]) (use left in \<open>simp add: ids_left_def\<close>)
  from init_ok [OF laws inv0 _ this] nofb obtain s2 where s2:
    "drm_framebuffer_init A True p (?s0\<lparr>fbs := (fbs ?s0)(p \<mapsto> ?fb)\<rparr>) = Inr s2" "kms_inv A ok (add_mset p X) s2"
    "registered A s2 = (registered A s)((OBJECT_FB, p) := True)"
    and upd: "s2 = ?s0\<lparr>crtc_idr := crtc_idr s2, object_id := object_id s2, fbs := fbs s2, fb_list := fb_list s2, num_fb := num_fb s2\<rparr>"
    unfolding reg0 by auto
  have fl: "open_files s2 = open_files s" "file_fbs s2 = file_fbs s" "plane_list s2 = plane_list s" "crtc_list s2 = crtc_list s"
    by (subst upd, simp)+
  let ?s3 = "s2\<lparr>file_fbs := (file_fbs s2)(f := p # file_fbs s2 f)\<rparr>"
  have nofile: "p \<notin> set (file_fbs s h)" if "h \<in> set (open_files s)" for h
    using notin file_fbs_refs [OF that] by blast
  have l: "distinct (open_files s)" "distinct (concat (map (file_fbs s) (open_files s)))"
    using kms_invD(2) [OF kinv] by (simp_all add: lists_ok_def)
  have d3: "distinct (concat (map ((file_fbs s2)(f := p # file_fbs s2 f)) (open_files s2)))"
    unfolding fl using nofile by (rule distinct_concat_add [OF l(2,1) f])
  have "f \<in> set (open_files s2)" using f fl by simp
  from file_list_ok(1) [OF s2(2) this _ d3, of X] have inv3: "kms_inv A ok X ?s3" by simp
  have reg3: "registered A ?s3 = (registered A s)((OBJECT_FB, p) := True)" using s2(3) by (simp add: registered_def fun_eq_iff)
  have "names_ok A ?s3" using names f unfolding names_ok_def reg3 by (auto simp: fl)
  then have ok3: "kms_ok A ok X ?s3" using inv3 by (simp add: kms_ok_def)
  have run: "fb_created A True create f r s = Inr (Inr (fb_id s2 p), ?s3)"
    using s2(1) Some by (simp add: fb_created_def fb_create_def Let_def)
  have "drm_mode_object_find A (fb_id s2 p) OBJECT_FB ?s3 = Some p"
    using drm_mode_object_find_iff [OF kms_invD(1) [OF inv3], of "fb_id s2 p" OBJECT_FB p] reg3 by simp
  then show ?thesis using run ok3 Some by auto
qed

subsection \<open>Reaping\<close>

lemma mset_move:
  assumes "A + add_mset p D = C + (D :: 'a multiset)"
  shows "add_mset p A = C"
proof -
  have "add_mset p A + D = C + D" using assms by simp
  then show ?thesis by (rule add_right_imp_eq)
qed

text \<open>Taking a framebuffer off the list of a file.\<close>

lemma mset_concat_remove1:
  assumes "distinct fs" "f \<in> set fs" "p \<in> set (g f)"
  shows "add_mset p (mset (concat (map (g(f := remove1 p (g f))) fs))) = mset (concat (map g fs))"
proof (rule mset_move)
  have "mset (g f) = add_mset p (mset (remove1 p (g f)))" using assms(3) by simp
  then show "mset (concat (map (g(f := remove1 p (g f))) fs)) + add_mset p (mset (remove1 p (g f))) =
      mset (concat (map g fs)) + mset (remove1 p (g f))"
    using mset_concat_upd [OF assms(1,2), of g "remove1 p (g f)"] by metis
qed

lemma remove1_place:
  assumes "distinct (concat (map g fs))" "distinct fs" "f \<in> set fs" "p \<in> set (g f)"
  shows "distinct (concat (map (g(f := remove1 p (g f))) fs))" "\<And>h. h \<in> set fs \<Longrightarrow> h \<noteq> f \<Longrightarrow> p \<notin> set (g h)"
proof -
  have eq: "mset (p # concat (map (g(f := remove1 p (g f))) fs)) = mset (concat (map g fs))"
    using mset_concat_remove1 [of fs f p g, OF assms(2-4)] by simp
  have d: "distinct (p # concat (map (g(f := remove1 p (g f))) fs))"
    using assms(1) mset_eq_imp_distinct_iff [OF eq] by blast
  then show "distinct (concat (map (g(f := remove1 p (g f))) fs))" by simp
  show "p \<notin> set (g h)" if "h \<in> set fs" "h \<noteq> f" for h
    using d that by (auto simp: split: if_splits)
qed

lemma reap_ok:
  assumes laws: "avl_laws A ok" and hook: "set_config_ok hook" and inv: "kms_ok A ok X s" and size: "room A X s"
    and f: "f \<in> set (open_files s)" and p: "p \<in> set (file_fbs s f)"
  shows "\<exists>s'. reap_fb A hook True f p s = Inr s' \<and> kms_ok A ok X s' \<and>
    registered A s' = (registered A s)((OBJECT_FB, p) := False) \<and> file_fbs s' = (file_fbs s)(f := remove1 p (file_fbs s f)) \<and>
    open_files s' = open_files s \<and> crtc_list s' = crtc_list s \<and> plane_list s' = plane_list s \<and>
    size (refs A s' X) \<le> size (refs A s X) \<and> object_id s' = (object_id s)((OBJECT_FB, p) := 0) \<and>
    (\<forall>q \<in> set (plane_list s). plane_fb (planes s' q) \<noteq> Some p) \<and>
    (set_config_off hook \<longrightarrow> (\<forall>d \<in> set (crtc_list s). crtc_fb (crtcs s' d) \<noteq> Some p))"
proof -
  have kinv: "kms_inv A ok X s" and names: "names_ok A s" using inv by (simp_all add: kms_ok_def)
  note i = kms_invD [OF kinv]
  have reg: "registered A s (OBJECT_FB, p)" using names f p by (auto simp: names_ok_def)
  have fin: "finite {q. registered A s (OBJECT_FB, q)}" using i(2) by (simp add: lists_ok_def)
  have "p \<in># mset (concat (map (file_fbs s) (open_files s)))" using f p by auto
  then have "0 < count (mset (concat (map (file_fbs s) (open_files s)))) p" by (simp only: count_greater_zero_iff)
  moreover have "count (mset_set {q. registered A s (OBJECT_FB, q)}) p = 1" using fin reg by simp
  ultimately have other: "1 < count (refs A s X) p" by (simp add: refs_def core_refs_def)
  from unregister'_ok [OF laws kinv reg other] obtain s1 where s1: "drm_framebuffer_unregister' A True p s = Inr s1"
    "kms_inv A ok X s1" "registered A s1 = (registered A s)((OBJECT_FB, p) := False)"
    "fb_only (s\<lparr>crtc_idr := crtc_idr s1, object_id := object_id s1\<rparr>) s1"
    and oid: "object_id s1 = (object_id s)((OBJECT_FB, p) := 0)" by blast
  note f1 = fb_only_fields [OF s1(4), simplified]
  let ?s2 = "s1\<lparr>file_fbs := (file_fbs s1)(f := remove1 p (file_fbs s1 f))\<rparr>"
  have l: "distinct (open_files s)" "distinct (concat (map (file_fbs s) (open_files s)))" using i(2) by (simp_all add: lists_ok_def)
  note place = remove1_place [OF l(2,1) f p]
  have d2: "distinct (concat (map ((file_fbs s1)(f := remove1 p (file_fbs s1 f))) (open_files s1)))"
    unfolding f1 by (rule place(1))
  have fo: "f \<in> set (open_files s1)" using f f1 by simp
  have "mset (remove1 p (file_fbs s1 f)) + add_mset p X = mset (file_fbs s1 f) + X" using p f1 by simp
  note move = file_list_ok [OF s1(2) fo this d2]
  have inv2: "kms_inv A ok (add_mset p X) ?s2" by (rule move(1))
  have reg2: "registered A ?s2 = registered A s1" by (simp add: registered_def fun_eq_iff)
  have sizes: "size (refs A ?s2 (add_mset p X)) = size (refs A s1 X)"
    by (simp only: move(2))
  have le: "size (refs A s1 X) \<le> size (refs A s X)"
  proof -
    have "mset_set {q. registered A s1 (OBJECT_FB, q)} \<subseteq># mset_set {q. registered A s (OBJECT_FB, q)}"
      unfolding s1(3) using fin by (intro subset_imp_msubset_mset_set) auto
    then have "refs A s1 X \<subseteq># refs A s X" by (simp add: refs_def core_refs_def f1)
    then show ?thesis by (rule size_mset_mono)
  qed
  have size2: "room A (add_mset p X) ?s2" using size sizes le by (simp add: room_def f1)
  from drm_framebuffer_remove_ok [OF hook inv2 size2] obtain s3 cs pls where s3: "drm_framebuffer_remove hook p ?s2 = Inr s3"
    "kms_inv A ok X s3" "fb_only (?s2\<lparr>crtcs := cs, planes := pls\<rparr>) s3" "\<forall>d. crtc_fb (cs d) \<in> {crtc_fb (crtcs ?s2 d), None}"
    "\<forall>q. plane_fb (pls q) \<in> {plane_fb (planes ?s2 q), None}" "\<forall>q \<in> set (plane_list ?s2). plane_fb (pls q) \<noteq> Some p"
    "set_config_off hook \<longrightarrow> (\<forall>d \<in> set (crtc_list ?s2). crtc_fb (cs d) \<noteq> Some p)" by blast
  note f3 = fb_only_fields [OF s3(3), simplified]
  have run: "reap_fb A hook True f p s = Inr s3" using s1(1) s3(1) by (simp add: reap_fb_def)
  have reg3: "registered A s3 = (registered A s)((OBJECT_FB, p) := False)"
    using f3(9) s1(3) by (simp add: registered_def fun_eq_iff)
  have files3: "file_fbs s3 = (file_fbs s)(f := remove1 p (file_fbs s f))" "open_files s3 = open_files s"
    "crtc_list s3 = crtc_list s" "plane_list s3 = plane_list s" "planes s3 = pls" by (simp_all add: f3 f1)
  have "registered A s3 (OBJECT_FB, q)" if h: "h \<in> set (open_files s)" "q \<in> set (file_fbs s3 h)" for h q
  proof -
    have "distinct (file_fbs s f)" using l(2) f by (auto simp: distinct_concat_iff)
    then have "q \<noteq> p" using h(2) place(2) [OF h(1)] by (cases "h = f") (auto simp: files3)
    moreover have "q \<in> set (file_fbs s h)" using h(2) by (cases "h = f") (auto simp: files3 dest: in_set_remove1 [THEN iffD1, rotated] notin_set_remove1)
    ultimately show ?thesis using names h(1) by (auto simp: names_ok_def reg3)
  qed
  then have own: "\<forall>h \<in> set (open_files s3). \<forall>q \<in> set (file_fbs s3 h). registered A s3 (OBJECT_FB, q)"
    unfolding files3(2) by blast
  have "names_ok A s3"
    unfolding names_ok_def
  proof (intro conjI own)
    show "\<forall>q. registered A s3 (OBJECT_PLANE, q) \<longrightarrow> q \<in> set (plane_list s3)"
      "\<forall>q. registered A s3 (OBJECT_CRTC, q) \<longrightarrow> q \<in> set (crtc_list s3)"
      using names by (simp_all add: names_ok_def reg3 files3(3,4))
  qed
  moreover have "size (refs A s3 X) \<le> size (refs A s X)"
  proof -
    have "core_refs A s3 = core_refs A ?s2" by (rule core_refs_frame) (simp_all add: f3)
    then have "size (refs A s3 X) \<le> size (refs A ?s2 X)"
      using size_shown_le [of "\<lambda>d. crtc_fb (cs d)" "\<lambda>d. crtc_fb (crtcs s1 d)" "crtc_list s1"] s3(4)
        size_shown_le [of "\<lambda>d. plane_fb (pls d)" "\<lambda>d. plane_fb (planes s1 d)" "plane_list s1"] s3(5)
      by (simp add: refs_def f3 add_mono)
    then show ?thesis using sizes le by (simp add: refs_add)
  qed
  moreover have "\<forall>q \<in> set (plane_list s). plane_fb (planes s3 q) \<noteq> Some p" using s3(6) by (simp add: files3 f1)
  moreover have "object_id s3 = (object_id s)((OBJECT_FB, p) := 0)" using oid by (simp add: f3)
  moreover have "set_config_off hook \<longrightarrow> (\<forall>d \<in> set (crtc_list s). crtc_fb (crtcs s3 d) \<noteq> Some p)"
    using s3(7) by (simp add: f3 f1)
  ultimately show ?thesis using run s3(2) reg3 files3 by (auto simp: kms_ok_def)
qed

text \<open>Closing a file reaps its framebuffers one after the other.\<close>

lemma fb_release_loop_ok:
  assumes laws: "avl_laws A ok" and hook: "set_config_ok hook"
  shows "kms_ok A ok X s \<Longrightarrow> room A X s \<Longrightarrow> f \<in> set (open_files s) \<Longrightarrow> file_fbs s f = l \<Longrightarrow>
    \<exists>s'. fold_res (reap_fb A hook True f) l s = Inr s' \<and> kms_ok A ok X s' \<and> file_fbs s' = (file_fbs s)(f := []) \<and>
      open_files s' = open_files s \<and> (\<forall>r. registered A s' r \<longleftrightarrow> registered A s r \<and> r \<notin> Pair OBJECT_FB ` set l)"
proof (induction l arbitrary: s)
  case Nil
  then have "(file_fbs s)(f := []) = file_fbs s" by auto
  with Nil show ?case by simp
next
  case (Cons p l)
  have p: "p \<in> set (file_fbs s f)" using Cons.prems(4) by simp
  from reap_ok [OF laws hook Cons.prems(1-3) p] obtain s1 where s1: "reap_fb A hook True f p s = Inr s1" "kms_ok A ok X s1"
    "registered A s1 = (registered A s)((OBJECT_FB, p) := False)" "file_fbs s1 = (file_fbs s)(f := remove1 p (file_fbs s f))"
    "open_files s1 = open_files s" "crtc_list s1 = crtc_list s" "size (refs A s1 X) \<le> size (refs A s X)" by blast
  have room1: "room A X s1" using Cons.prems(2) s1(6,7) by (simp add: room_def)
  have fo: "f \<in> set (open_files s1)" using Cons.prems(3) s1(5) by simp
  have fl: "file_fbs s1 f = l" using s1(4) Cons.prems(4) by simp
  from Cons.IH [OF s1(2) room1 fo fl] obtain s2 where s2: "fold_res (reap_fb A hook True f) l s1 = Inr s2" "kms_ok A ok X s2"
    "file_fbs s2 = (file_fbs s1)(f := [])" "open_files s2 = open_files s1"
    "\<And>r. registered A s2 r \<longleftrightarrow> registered A s1 r \<and> r \<notin> Pair OBJECT_FB ` set l" by blast
  have "registered A s2 r \<longleftrightarrow> registered A s r \<and> r \<notin> Pair OBJECT_FB ` set (p # l)" for r
    using s2(5) [of r] s1(3) by (cases "r = (OBJECT_FB, p)") auto
  moreover have "file_fbs s2 = (file_fbs s)(f := [])" using s1(4) s2(3) by simp
  moreover have "fold_res (reap_fb A hook True f) (p # l) s = Inr s2" using s1(1) s2(1) by simp
  ultimately show ?case using s1(5) s2(2,4) by metis
qed

subsection \<open>The other ioctls\<close>

lemma rmfb_ok:
  assumes laws: "avl_laws A ok" and hook: "set_config_ok hook" and inv: "kms_ok A ok X s" and size: "room A X s"
    and f: "f \<in> set (open_files s)"
  shows "\<exists>ret s'. drm_mode_rmfb A hook modeset True f i s = Inr (ret, s') \<and> kms_ok A ok X s'"
proof -
  have kinv: "kms_inv A ok X s" using inv by (simp add: kms_ok_def)
  show ?thesis
  proof (cases "drm_mode_object_find A i OBJECT_FB s")
    case None
    then show ?thesis using inv by (simp add: drm_mode_rmfb_def lookup'_ok(1) [OF kinv])
  next
    case (Some p)
    show ?thesis
    proof (cases "p \<in> set (file_fbs s f)")
      case True
      from reap_ok [OF laws hook inv size f True] Some show ?thesis
        by (cases modeset) (auto simp: drm_mode_rmfb_def lookup'_ok(1) [OF kinv] intro: inv)
    next
      case False
      with Some show ?thesis using inv by (simp add: drm_mode_rmfb_def lookup'_ok(1) [OF kinv])
    qed
  qed
qed

lemma getfb_ok:
  assumes inv: "kms_ok A ok X s" and size: "room A X s"
  shows "\<exists>ret s'. drm_mode_getfb A modeset create_handle i s = Inr (ret, s') \<and> kms_ok A ok X s'"
proof -
  from kms_ok_lookup [OF inv size, of i] obtain s1 where s1:
    "drm_framebuffer_lookup A i s = Inr (drm_mode_object_find A i OBJECT_FB s, s1)"
    "kms_ok A ok (X + mset_set (set_option (drm_mode_object_find A i OBJECT_FB s))) s1" by blast
  show ?thesis
  proof (cases "drm_mode_object_find A i OBJECT_FB s")
    case None
    then show ?thesis using s1 inv by (cases modeset) (auto simp: drm_mode_getfb_def)
  next
    case (Some p)
    then have inv1: "kms_ok A ok (add_mset p X) s1" using s1(2) by simp
    then have "fbs s1 p \<noteq> None" by (rule held_live)
    then obtain fb where fb: "fbs s1 p = Some fb" by blast
    from kms_ok_unreference [OF inv1] obtain s2 where "drm_framebuffer_unreference p s1 = Inr s2" "kms_ok A ok X s2" by blast
    then show ?thesis using s1(1) Some fb inv by (cases modeset) (auto simp: drm_mode_getfb_def)
  qed
qed

text \<open>Dropping two references at the end of \<open>drm_mode_setplane\<close>.\<close>

lemma out_ok:
  assumes "kms_ok A ok (X + mset_set (set_option fb) + mset_set (set_option old)) s"
  shows "\<exists>s1 s2. unreference_ptr fb s = Inr s1 \<and> unreference_ptr old s1 = Inr s2 \<and> kms_ok A ok X s2"
proof -
  have "kms_ok A ok (X + mset_set (set_option old) + mset_set (set_option fb)) s" using assms by (simp add: ac_simps)
  from kms_ok_unreference_ptr [OF this] obtain s1 where "unreference_ptr fb s = Inr s1"
    "kms_ok A ok (X + mset_set (set_option old)) s1" by blast
  with kms_ok_unreference_ptr [of A ok X old s1] show ?thesis by blast
qed

lemma setplane_ok:
  assumes inv: "kms_ok A ok X s" and size: "room A X s"
  shows "\<exists>ret s'. drm_mode_setplane A modeset update rq s = Inr (ret, s') \<and> kms_ok A ok X s'"
proof -
  have none: "\<exists>s1 s2. unreference_ptr None s = Inr s1 \<and> unreference_ptr None s1 = Inr s2 \<and> kms_ok A ok X s2"
    if "kms_ok A ok X s" for s using that by (simp add: unreference_ptr_def)
  show ?thesis
  proof (cases "drm_mode_object_find A (sp_plane_id rq) OBJECT_PLANE s")
    case None
    then show ?thesis using inv by (simp add: drm_mode_setplane_def)
  next
    case (Some pl)
    then have pl: "pl \<in> set (plane_list s)" by (rule find_plane [OF inv])
    show ?thesis
    proof (cases "modeset \<and> sp_fb_id rq \<noteq> 0 \<and> drm_mode_object_find A (sp_crtc_id rq) OBJECT_CRTC s \<noteq> None")
      case False
      let ?s = "s\<lparr>planes := (planes s)(pl := (planes s pl)\<lparr>plane_crtc := None, plane_fb := None\<rparr>)\<rparr>"
      have "kms_ok A ok (X + mset_set (set_option (plane_fb (planes s pl)))) ?s"
        by (rule plane_set_ok [of A ok X None s, simplified]) (fact inv pl)+
      then have "\<exists>s1 s2. unreference_ptr None ?s = Inr s1 \<and> unreference_ptr (plane_fb (planes s pl)) s1 = Inr s2 \<and> kms_ok A ok X s2"
        using out_ok [of A ok X None "plane_fb (planes s pl)" ?s] by simp
      with False Some none [OF inv] inv show ?thesis by (auto simp: drm_mode_setplane_def)
    next
      case True
      then obtain crtc where crtc: "drm_mode_object_find A (sp_crtc_id rq) OBJECT_CRTC s = Some crtc" by blast
      let ?q = "drm_mode_object_find A (sp_fb_id rq) OBJECT_FB s"
      from kms_ok_lookup [OF inv size, of "sp_fb_id rq"] obtain s1 where s1: "drm_framebuffer_lookup A (sp_fb_id rq) s = Inr (?q, s1)"
        "kms_ok A ok (X + mset_set (set_option ?q)) s1" "fb_only s s1" by blast
      show ?thesis
      proof (cases ?q)
        case None
        then show ?thesis using s1 Some True crtc none [of s1] by (auto simp: drm_mode_setplane_def)
      next
        case (Some p)
        then have inv1: "kms_ok A ok (add_mset p X) s1" using s1(2) by simp
        then have "fbs s1 p \<noteq> None" by (rule held_live)
        then obtain fb where fb: "fbs s1 p = Some fb" by blast
        have fail: "\<exists>t1 t2. unreference_ptr (Some p) s1 = Inr t1 \<and> unreference_ptr None t1 = Inr t2 \<and> kms_ok A ok X t2"
          using out_ok [of A ok X "Some p" None s1] inv1 by simp
        let ?s2 = "s1\<lparr>planes := (planes s1)(pl := (planes s1 pl)\<lparr>plane_crtc := Some crtc, plane_fb := Some p\<rparr>)\<rparr>"
        have "pl \<in> set (plane_list s1)" using pl fb_only_fields(5) [OF s1(3)] by simp
        from plane_set_ok [of A ok X "Some p" s1 pl "Some crtc", OF _ this] inv1
        have "kms_ok A ok (X + mset_set (set_option (plane_fb (planes s1 pl)))) ?s2" by simp
        then have good: "\<exists>t1 t2. unreference_ptr None ?s2 = Inr t1 \<and> unreference_ptr (plane_fb (planes s1 pl)) t1 = Inr t2 \<and> kms_ok A ok X t2"
          using out_ok [of A ok X None "plane_fb (planes s1 pl)" ?s2] by simp
        show ?thesis
        proof (cases "fb_format fb \<in> set (format_types (planes s1 pl)) \<and> src_inside fb rq \<and> crtc_inside rq \<and> update = Inr ()")
          case ok: True
          with good Some s1(1) True crtc fb \<open>drm_mode_object_find A (sp_plane_id rq) OBJECT_PLANE s = Some pl\<close>
          show ?thesis by (auto simp: drm_mode_setplane_def)
        next
          case no: False
          with fail Some s1(1) True crtc fb \<open>drm_mode_object_find A (sp_plane_id rq) OBJECT_PLANE s = Some pl\<close>
          show ?thesis by (cases update) (auto simp: drm_mode_setplane_def)
        qed
      qed
    qed
  qed
qed

lemma kms_ok_events: "kms_ok A ok X (s\<lparr>event_space := a, flip_events := b\<rparr>) = kms_ok A ok X s"
  by (simp add: kms_ok_def kms_inv_def ids_ok_def lists_ok_def names_ok_def cells_ok_def refs_def core_refs_def registered_def)

lemma page_flip_ok:
  assumes inv: "kms_ok A ok X s" and size: "room A X s"
  shows "\<exists>ret s'. drm_mode_page_flip_ioctl A esize kmalloc flip f rq s = Inr (ret, s') \<and> kms_ok A ok X s'"
proof (cases "\<not> pf_bad rq \<and> drm_mode_object_find A (pf_crtc_id rq) OBJECT_CRTC s \<noteq> None \<and>
    crtc_fb (crtcs s (the (drm_mode_object_find A (pf_crtc_id rq) OBJECT_CRTC s))) \<noteq> None \<and> flip \<noteq> None")
  case False
  then show ?thesis using inv by (auto simp: drm_mode_page_flip_ioctl_def split: option.split)
next
  case True
  then obtain c old_fb ret where c: "drm_mode_object_find A (pf_crtc_id rq) OBJECT_CRTC s = Some c"
    and old: "crtc_fb (crtcs s c) = Some old_fb" and flip: "flip = Some ret" and bad: "\<not> pf_bad rq" by auto
  have cl: "c \<in> set (crtc_list s)" by (rule find_crtc [OF inv c])
  let ?q = "drm_mode_object_find A (pf_fb_id rq) OBJECT_FB s"
  from kms_ok_lookup [OF inv size, of "pf_fb_id rq"] obtain s1 where s1: "drm_framebuffer_lookup A (pf_fb_id rq) s = Inr (?q, s1)"
    "kms_ok A ok (X + mset_set (set_option ?q)) s1" "fb_only s s1" by blast
  note f1 = fb_only_fields [OF s1(3)]
  show ?thesis
  proof (cases ?q)
    case None
    then show ?thesis using s1 c old flip bad by (auto simp: drm_mode_page_flip_ioctl_def)
  next
    case (Some p)
    then have inv1: "kms_ok A ok (add_mset p X) s1" using s1(2) by simp
    obtain fb where fb: "fbs s1 p = Some fb" using held_live [OF inv1] by blast
    have cl1: "c \<in> set (crtc_list s1)" "crtc_fb (crtcs s1 c) = Some old_fb" using cl old by (simp_all add: f1)
    obtain ofb where ofb: "fbs s1 old_fb = Some ofb" using crtc_live [OF inv1 cl1] by blast
    from kms_ok_unreference [OF inv1] obtain t where t: "drm_framebuffer_unreference p s1 = Inr t" "kms_ok A ok X t" by blast
    let ?e = "\<lambda>b. if b then s1\<lparr>event_space := (event_space s1)(f := event_space s1 f - esize),
      flip_events := flip_events s1 @ [(f, pf_user_data rq)]\<rparr> else s1"
    have flipped: "\<exists>u. drm_framebuffer_unreference old_fb ((?e b)\<lparr>crtcs := (crtcs (?e b))(c := (crtcs (?e b) c)\<lparr>crtc_fb := Some p\<rparr>)\<rparr>) = Inr u \<and>
      kms_ok A ok X u" for b
    proof -
      have e: "kms_ok A ok (X + mset_set (set_option (Some p))) (?e b)" using inv1 by (simp add: kms_ok_events)
      have "c \<in> set (crtc_list (?e b))" "crtc_fb (crtcs (?e b) c) = Some old_fb" using cl1 by simp_all
      with crtc_set_ok [OF e, of c] have "kms_ok A ok (add_mset old_fb X) ((?e b)\<lparr>crtcs := (crtcs (?e b))(c := (crtcs (?e b) c)\<lparr>crtc_fb := Some p\<rparr>)\<rparr>)"
        by simp
      from kms_ok_unreference [OF this] show ?thesis by blast
    qed
    define good where "good \<longleftrightarrow> viewport_ok fb (invert_dimensions (crtcs s1 c)) (crtc_mode_hdisplay (crtcs s1 c)) (crtc_mode_vdisplay (crtcs s1 c))
        (word_of_int (crtc_x (crtcs s1 c))) (word_of_int (crtc_y (crtcs s1 c))) \<and> fb_format ofb = fb_format fb \<and>
        \<not> (pf_event rq \<and> event_space s1 f < esize) \<and> \<not> (pf_event rq \<and> \<not> kmalloc) \<and> ret = Inr ()"
    show ?thesis
    proof (cases good)
      case True
      then have run: "drm_mode_page_flip_ioctl A esize kmalloc flip f rq s =
        (case drm_framebuffer_unreference old_fb ((?e (pf_event rq))\<lparr>crtcs := (crtcs (?e (pf_event rq)))(c := (crtcs (?e (pf_event rq)) c)\<lparr>crtc_fb := Some p\<rparr>)\<rparr>) of
           Inl e \<Rightarrow> Inl e | Inr s \<Rightarrow> Inr (Inr (), s))"
        using c old flip bad s1(1) Some fb ofb
        by (cases "pf_event rq") (simp_all add: drm_mode_page_flip_ioctl_def good_def Let_def)
      from flipped [of "pf_event rq"] show ?thesis unfolding run by auto
    next
      case False
      then show ?thesis using c old flip bad s1(1) Some fb ofb t
        by (cases ret) (auto simp: drm_mode_page_flip_ioctl_def good_def Let_def)
    qed
  qed
qed

text \<open>Ids of objects other than framebuffers, planes and CRTCs do not matter.\<close>

lemma kms_ok_fields:
  assumes inv: "kms_ok A ok X s" and ids: "ids_ok A ok s'"
    and f: "fbs s' = fbs s" "fb_list s' = fb_list s" "num_fb s' = num_fb s"
      "open_files s' = open_files s" "file_fbs s' = file_fbs s" "crtc_list s' = crtc_list s" "crtcs s' = crtcs s"
      "plane_list s' = plane_list s" "planes s' = planes s"
    and reg: "\<And>ty q. ty \<in> {OBJECT_FB, OBJECT_PLANE, OBJECT_CRTC} \<Longrightarrow> registered A s' (ty, q) = registered A s (ty, q)"
  shows "kms_ok A ok X s'" "refs A s' X = refs A s X"
proof -
  have kinv: "kms_inv A ok X s" and names: "names_ok A s" using inv by (simp_all add: kms_ok_def)
  note i = kms_invD [OF kinv]
  have r: "registered A s' (OBJECT_FB, q) = registered A s (OBJECT_FB, q)" for q by (rule reg) simp
  show refs: "refs A s' X = refs A s X" by (simp add: refs_def core_refs_def r f)
  have "cells_ok (refs A s' X) s'" using i(3) by (simp add: refs cells_ok_def f)
  moreover have "lists_ok A s'" using i(2) by (simp add: lists_ok_def r f)
  moreover have "names_ok A s'" using names by (simp add: names_ok_def reg f)
  ultimately show "kms_ok A ok X s'" using ids by (simp add: kms_ok_def kms_inv_def)
qed

lemma kms_ok_ids:
  assumes inv: "kms_ok A ok X s" and ids: "ids_ok A ok s'" and s': "s' = s\<lparr>crtc_idr := a, object_id := b\<rparr>"
    and reg: "\<And>ty q. ty \<in> {OBJECT_FB, OBJECT_PLANE, OBJECT_CRTC} \<Longrightarrow> registered A s' (ty, q) = registered A s (ty, q)"
  shows "kms_ok A ok X s'" "refs A s' X = refs A s X"
  by (rule kms_ok_fields [OF inv ids]; (rule reg; assumption)?; simp add: s')+

lemma mode_create_ok:
  assumes laws: "avl_laws A ok" and inv: "kms_ok A ok X s" and new: "\<forall>q. m = Some q \<longrightarrow> \<not> registered A s (OBJECT_MODE, q)"
    and run: "kms_mode_create A alloc m s = (r, s')"
  shows "kms_ok A ok X s'" "refs A s' X = refs A s X" "r = Some q \<Longrightarrow> registered A s' (OBJECT_MODE, q)"
    "fbs s' = fbs s" "crtcs s' = crtcs s" "crtc_list s' = crtc_list s"
proof -
  have "kms_ok A ok X s' \<and> refs A s' X = refs A s X \<and> (r = Some q \<longrightarrow> registered A s' (OBJECT_MODE, q)) \<and>
    fbs s' = fbs s \<and> crtcs s' = crtcs s \<and> crtc_list s' = crtc_list s"
  proof (cases m)
    case None
    then show ?thesis using run inv by (auto simp: kms_mode_create_def)
  next
    case (Some n)
    have ids: "ids_ok A ok s" using inv by (simp add: kms_ok_def kms_inv_def)
    obtain ret s1 where g: "drm_mode_object_get A alloc (OBJECT_MODE, n) s = (ret, s1)" by force
    have s1: "s' = s1" using run Some g by (auto simp: kms_mode_create_def split: sum.splits)
    have nreg: "\<not> registered A s (OBJECT_MODE, n)" using new Some by blast
    note get = object_get_ok [OF laws ids nreg g]
    show ?thesis
    proof (cases ret)
      case (Inl e)
      with get have reg: "registered A s1 = registered A s" and upd: "s1 = s\<lparr>crtc_idr := crtc_idr s1\<rparr>" and id1: "ids_ok A ok s1"
        by simp_all
      have "s1 = s\<lparr>crtc_idr := crtc_idr s1, object_id := object_id s\<rparr>" by (subst upd) simp
      note k = kms_ok_ids [OF inv id1 this, unfolded reg, OF refl]
      have "r = None" using run Some g Inl by (simp add: kms_mode_create_def)
      moreover have "fbs s1 = fbs s" "crtcs s1 = crtcs s" "crtc_list s1 = crtc_list s" by (subst upd, simp)+
      ultimately show ?thesis using k by (simp add: s1)
    next
      case (Inr u)
      with get have reg: "registered A s1 = (registered A s)((OBJECT_MODE, n) := True)" and id1: "ids_ok A ok s1"
        by simp_all
      obtain j where upd: "s1 = s\<lparr>crtc_idr := crtc_idr s1, object_id := (object_id s)((OBJECT_MODE, n) := j)\<rparr>"
        using get Inr by auto
      have "registered A s1 (ty, q) = registered A s (ty, q)" if "ty \<in> {OBJECT_FB, OBJECT_PLANE, OBJECT_CRTC}" for ty q
        unfolding reg using that by auto
      note k = kms_ok_ids [OF inv id1 upd this]
      have "r = Some n" using run Some g Inr by (simp add: kms_mode_create_def)
      moreover have "fbs s1 = fbs s" "crtcs s1 = crtcs s" "crtc_list s1 = crtc_list s" by (subst upd, simp)+
      moreover have "registered A s1 (OBJECT_MODE, n)" unfolding reg by simp
      ultimately show ?thesis using k by (auto simp: s1)
    qed
  qed
  then show "kms_ok A ok X s'" "refs A s' X = refs A s X" "r = Some q \<Longrightarrow> registered A s' (OBJECT_MODE, q)"
    "fbs s' = fbs s" "crtcs s' = crtcs s" "crtc_list s' = crtc_list s" by auto
qed

lemma mode_destroy_ok:
  assumes laws: "avl_laws A ok" and inv: "kms_ok A ok X s" and reg: "\<forall>q. m = Some q \<longrightarrow> registered A s (OBJECT_MODE, q)"
  shows "kms_ok A ok X (kms_mode_destroy A m s)"
proof (cases m)
  case None
  then show ?thesis using inv by (simp add: kms_mode_destroy_def)
next
  case (Some n)
  have ids: "ids_ok A ok s" using inv by (simp add: kms_ok_def kms_inv_def)
  have r: "registered A s (OBJECT_MODE, n)" using reg Some by blast
  let ?s = "drm_mode_object_put A True (OBJECT_MODE, n) s"
  note put = object_put_ok [OF laws ids r]
  have upd: "?s = s\<lparr>crtc_idr := crtc_idr ?s, object_id := object_id s\<rparr>" by (simp add: drm_mode_object_put_def)
  have "registered A ?s (ty, q) = registered A s (ty, q)" if "ty \<in> {OBJECT_FB, OBJECT_PLANE, OBJECT_CRTC}" for ty q
    using put that by auto
  from kms_ok_ids(1) [OF inv conjunct1 [OF put] upd this] Some show ?thesis by (simp add: kms_mode_destroy_def)
qed

lemma setcrtc_out_ok:
  assumes laws: "avl_laws A ok" and inv: "kms_ok A ok (X + mset_set (set_option fb)) s"
    and reg: "\<forall>q. m = Some q \<longrightarrow> registered A s (OBJECT_MODE, q)"
  shows "\<exists>s'. setcrtc_out A fb m ret s = Inr (ret, s') \<and> kms_ok A ok X s'"
proof -
  from kms_ok_unreference_ptr [OF inv] obtain s1 where s1: "unreference_ptr fb s = Inr s1" "kms_ok A ok X s1" "fb_only s s1" by blast
  have "\<forall>q. m = Some q \<longrightarrow> registered A s1 (OBJECT_MODE, q)" using reg fb_only_fields(9) [OF s1(3), of A] by simp
  from mode_destroy_ok [OF laws s1(2) this] s1(1) show ?thesis by (simp add: setcrtc_out_def)
qed

lemma setcrtc_set_ok:
  assumes laws: "avl_laws A ok" and hook: "set_config_ok (kms_set_config E)"
    and inv: "kms_ok A ok (X + mset_set (set_option fb)) s"
    and size: "size (refs A s (X + mset_set (set_option fb))) + length (crtc_list s) + 2 < 2 ^ 32"
    and reg: "\<forall>m md. mode = Some (m, md) \<longrightarrow> registered A s (OBJECT_MODE, m)"
  shows "\<exists>ret s'. setcrtc_set A E rq crtc fb mode s = Inr (ret, s') \<and> kms_ok A ok X s'"
proof -
  let ?X = "X + mset_set (set_option fb)"
  let ?m = "map_option fst mode"
  have m: "\<forall>q. ?m = Some q \<longrightarrow> registered A s (OBJECT_MODE, q)" using reg by auto
  note out = setcrtc_out_ok [OF laws inv m]
  have kinv: "kms_inv A ok ?X s" and names: "names_ok A s" using inv by (simp_all add: kms_ok_def)
  have set: "\<exists>ret s'. (case drm_mode_set_config_internal (kms_set_config E) st s of Inl e \<Rightarrow> Inl e
      | Inr (ret, s) \<Rightarrow> setcrtc_out A fb ?m ret s) = Inr (ret, s') \<and> kms_ok A ok X s'" if "set_fb st = fb" for st
  proof -
    have "set_option (set_fb st) \<subseteq> set_mset ?X" using that by auto
    from set_config_internal_ok [OF hook kinv this size] obtain s1 where s1:
      "drm_mode_set_config_internal (kms_set_config E) st s = Inr (fst (kms_set_config E st (crtcs s)), s1)" "kms_inv A ok ?X s1"
      "fb_only (s\<lparr>crtcs := snd (kms_set_config E st (crtcs s))\<rparr>) s1" by blast
    note f = fb_only_fields [OF s1(3), simplified]
    have reg1: "registered A s1 = registered A s" using f(9) by (simp add: registered_def fun_eq_iff)
    have "names_ok A s1 = names_ok A s" by (rule names_ok_frame) (simp_all only: f(1-8) reg1)
    then have "kms_ok A ok ?X s1" using s1(2) names by (simp add: kms_ok_def)
    from setcrtc_out_ok [OF laws this, of ?m "fst (kms_set_config E st (crtcs s))"] m s1(1) show ?thesis by (auto simp: reg1)
  qed
  define fine where "fine x \<longleftrightarrow> (\<exists>ret s'. x = Inr (ret, s') \<and> kms_ok A ok X s')" for x :: "(unit result \<times> 'a kms) result"
  have "fine (setcrtc_out A fb ?m ret s)" for ret using out [of ret] by (auto simp: fine_def)
  moreover have "fine (case drm_mode_set_config_internal (kms_set_config E) st s of Inl e \<Rightarrow> Inl e
      | Inr (ret, s) \<Rightarrow> setcrtc_out A fb ?m ret s)" if "set_fb st = fb" for st
    using set [OF that] by (simp only: fine_def)
  ultimately have "fine (setcrtc_set A E rq crtc fb mode s)"
    by (cases "setcrtc_connectors A (rq_connectors rq) [0..<rq_count_connectors rq] s") (simp_all add: setcrtc_set_def Let_def)
  then show ?thesis by (simp only: fine_def)
qed

lemma setcrtc_fb_ok:
  assumes inv: "kms_ok A ok X s" and size: "room A X s" and c: "c \<in> set (crtc_list s)"
  shows "\<exists>q s'. setcrtc_fb A c i s = Inr (q, s') \<and> kms_ok A ok (X + mset_set (set_option q)) s' \<and> fb_only s s'"
proof (cases "i = -1")
  case False
  with kms_ok_lookup [OF inv size, of i] show ?thesis by (auto simp: setcrtc_fb_def)
next
  case True
  show ?thesis
  proof (cases "crtc_fb (crtcs s c)")
    case None
    with True inv show ?thesis by (simp add: setcrtc_fb_def)
  next
    case (Some p)
    have kinv: "kms_inv A ok X s" and names: "names_ok A s" using inv by (simp_all add: kms_ok_def)
    have "p \<in># refs A s X" using Some c by (auto simp: refs_def in_shown)
    from kms_inv_reference [OF kinv this room_size [OF size]] obtain s1 where "drm_framebuffer_reference p s = Inr s1"
      "kms_inv A ok (add_mset p X) s1" "fb_only s s1" by blast
    with True Some names names_ok_fb_only [of s s1 A] show ?thesis by (auto simp: setcrtc_fb_def kms_ok_def)
  qed
qed

lemma setcrtc_ok:
  assumes laws: "avl_laws A ok" and hook: "set_config_ok (kms_set_config E)" and inv: "kms_ok A ok X s" and size: "room A X s"
    and new: "\<forall>q. kms_new_mode E = Some q \<longrightarrow> \<not> registered A s (OBJECT_MODE, q)"
  shows "\<exists>ret s'. drm_mode_setcrtc A E rq s = Inr (ret, s') \<and> kms_ok A ok X s'"
proof (cases "kms_modeset E \<and> rq_x rq \<le> 0x7FFFFFFF \<and> rq_y rq \<le> 0x7FFFFFFF \<and>
    drm_mode_object_find A (rq_crtc_id rq) OBJECT_CRTC s \<noteq> None")
  case False
  then show ?thesis using inv by (auto simp: drm_mode_setcrtc_def not_le)
next
  case True
  then obtain c where c: "drm_mode_object_find A (rq_crtc_id rq) OBJECT_CRTC s = Some c" by blast
  have cl: "c \<in> set (crtc_list s)" by (rule find_crtc [OF inv c])
  have unf: "drm_mode_setcrtc A E rq s =
     (if \<not> rq_mode_valid rq then setcrtc_set A E rq c None None s
      else (case setcrtc_fb A c (rq_fb_id rq) s of
              Inl e \<Rightarrow> Inl e
            | Inr (None, s) \<Rightarrow> Inr (Inl EINVAL, s)
            | Inr (Some p, s) \<Rightarrow>
                (case kms_mode_create A (kms_alloc E) (kms_new_mode E) s of
                   (None, s) \<Rightarrow> setcrtc_out A (Some p) None (Inl ENOMEM) s
                 | (Some m, s) \<Rightarrow>
                     (case drm_crtc_convert_umode (kms_mode_len E) (rq_mode rq) (kms_blank_mode E) of
                        Inl e \<Rightarrow> setcrtc_out A (Some p) (Some m) (Inl e) s
                      | Inr mode \<Rightarrow>
                          let mode = drm_mode_set_crtcinfo mode True
                          in (case fbs s p of
                                None \<Rightarrow> Inl BUG
                              | Some fb \<Rightarrow>
                                  if \<not> viewport_ok fb (invert_dimensions (crtcs s c)) (hdisplay mode) (vdisplay mode) (rq_x rq) (rq_y rq)
                                  then setcrtc_out A (Some p) (Some m) (Inl ENOSPC) s
                                  else setcrtc_set A E rq c (Some p) (Some (m, mode)) s)))))"
    using True c by (auto simp: drm_mode_setcrtc_def not_less)
  show ?thesis
  proof (cases "rq_mode_valid rq")
    case False
    have "size (refs A s (X + mset_set (set_option None))) + length (crtc_list s) + 2 < 2 ^ 32"
      using size by (simp add: room_def)
    from setcrtc_set_ok [OF laws hook _ this, of None] inv False show ?thesis by (simp add: unf)
  next
    case valid: True
    from setcrtc_fb_ok [OF inv size cl, of "rq_fb_id rq"] obtain q s1 where s1: "setcrtc_fb A c (rq_fb_id rq) s = Inr (q, s1)"
      "kms_ok A ok (X + mset_set (set_option q)) s1" "fb_only s s1" by blast
    show ?thesis
    proof (cases q)
      case None
      with s1 valid show ?thesis by (simp add: unf)
    next
      case (Some p)
      obtain r s2 where mc: "kms_mode_create A (kms_alloc E) (kms_new_mode E) s1 = (r, s2)" by force
      have new1: "\<forall>q. kms_new_mode E = Some q \<longrightarrow> \<not> registered A s1 (OBJECT_MODE, q)"
        using new fb_only_fields(9) [OF s1(3), of A] by simp
      note k = mode_create_ok [OF laws s1(2) new1 mc]
      have inv2: "kms_ok A ok (X + mset_set (set_option (Some p))) s2" using k(1) Some by simp
      have "fbs s2 p \<noteq> None" using inv2 held_live [of A ok p X s2] by simp
      then obtain fb where fb: "fbs s2 p = Some fb" by blast
      have "refs A s2 (X + mset_set (set_option (Some p))) = add_mset p (refs A s X)"
        using k(2) refs_fb_only [OF s1(3), of A X] by (simp add: Some refs_add)
      then have size2: "size (refs A s2 (X + mset_set (set_option (Some p)))) + length (crtc_list s2) + 3 < 2 ^ 32"
        using size k(6) fb_only_fields(3) [OF s1(3)] by (simp add: room_def)
      show ?thesis
      proof (cases r)
        case None
        from setcrtc_out_ok [OF laws inv2, of None "Inl ENOMEM"] show ?thesis using s1(1) Some mc None valid by (auto simp: unf)
      next
        case m: (Some m)
        have reg: "registered A s2 (OBJECT_MODE, m)" by (rule k(3) [OF m])
        have out: "\<exists>s'. setcrtc_out A (Some p) (Some m) ret s2 = Inr (ret, s') \<and> kms_ok A ok X s'" for ret
          by (rule setcrtc_out_ok [OF laws inv2]) (use reg in simp)
        have set: "\<exists>ret s'. setcrtc_set A E rq c (Some p) (Some (m, md)) s2 = Inr (ret, s') \<and> kms_ok A ok X s'" for md
          by (rule setcrtc_set_ok [OF laws hook inv2]) (use size2 reg in simp_all)
        show ?thesis
        proof (cases "drm_crtc_convert_umode (kms_mode_len E) (rq_mode rq) (kms_blank_mode E)")
          case (Inl e)
          with out [of "Inl e"] s1(1) Some mc m valid show ?thesis by (auto simp: unf)
        next
          case (Inr md)
          with out [of "Inl ENOSPC"] set [of "drm_mode_set_crtcinfo md True"] s1(1) Some mc m valid fb show ?thesis
            by (simp add: unf Let_def) blast
        qed
      qed
    qed
  qed
qed

end
