(* ===== verification/Drm_Property_Inv.thy ===== *)
theory Drm_Property_Inv
  imports Drm_Property
begin

text \<open>
  The invariant of properties and blobs, and that every function of \<open>Drm_Property\<close> keeps it, neither follows a
  dangling pointer nor leaves an array, and touches no other part of the mode configuration.
\<close>

subsection \<open>The invariant\<close>

text \<open>Properties have the values that their flags promise.\<close>

definition prop_wf :: "drm_property \<Rightarrow> bool" where
  "prop_wf P \<longleftrightarrow> (if PROP_RANGE \<in> prop_flags P then 2 \<le> length (prop_values P)
     else PROP_BITMASK \<in> prop_flags P \<longrightarrow> (\<forall>w \<in> set (prop_values P). w < 64))"

definition heaps_ok :: "(mode_ref ptr, 't) avl_ops \<Rightarrow> ('t, 'z) props_config_scheme \<Rightarrow> bool" where
  "heaps_ok A s \<longleftrightarrow> (\<forall>p. registered A s (OBJECT_PROPERTY, p) = (properties s p \<noteq> None)) \<and>
     (\<forall>b. registered A s (OBJECT_BLOB, b) = (blobs s b \<noteq> None)) \<and>
     distinct (property_list s) \<and> set (property_list s) = dom (properties s) \<and>
     distinct (property_blob_list s) \<and> set (property_blob_list s) = dom (blobs s)"

definition prop_ok :: "(mode_ref ptr, 't) avl_ops \<Rightarrow> ('t \<Rightarrow> bool) \<Rightarrow> ('t, 'z) props_config_scheme \<Rightarrow> bool" where
  "prop_ok A ok s \<longleftrightarrow> ids_ok A ok s \<and> heaps_ok A s \<and> (\<forall>p P. properties s p = Some P \<longrightarrow> prop_wf P) \<and>
     (\<forall>r ps. obj_props s r = Some ps \<longrightarrow> length ps \<le> DRM_OBJECT_MAX_PROPERTY)"

text \<open>Every connector has its own blob.\<close>

definition edid_ok :: "('t, 'z) props_config_scheme \<Rightarrow> bool" where
  "edid_ok s \<longleftrightarrow> (\<forall>c b. edid_blob_ptr s c = Some b \<longrightarrow> blobs s b \<noteq> None \<and> (\<forall>d. edid_blob_ptr s d = Some b \<longrightarrow> d = c))"

lemma prop_okD:
  assumes "prop_ok A ok s"
  shows "ids_ok A ok s" "registered A s (OBJECT_PROPERTY, p) = (properties s p \<noteq> None)"
    "registered A s (OBJECT_BLOB, b) = (blobs s b \<noteq> None)" "properties s p = Some P \<Longrightarrow> prop_wf P"
    "obj_props s r = Some ps \<Longrightarrow> length ps \<le> DRM_OBJECT_MAX_PROPERTY"
  using assms unfolding prop_ok_def heaps_ok_def by blast+

text \<open>The part of the state that is not about properties and ids.\<close>

definition rest :: "('t, 'z) props_config_scheme \<Rightarrow> ('t, 'z) props_config_scheme" where
  "rest s = s\<lparr>crtc_idr := undefined, object_id := undefined, properties := undefined, property_list := undefined,
     blobs := undefined, property_blob_list := undefined, slots := undefined, obj_props := undefined, edid_blob_ptr := undefined\<rparr>"

lemma rest_upd [simp]:
  "rest (s\<lparr>crtc_idr := a\<rparr>) = rest s" "rest (s\<lparr>object_id := b\<rparr>) = rest s" "rest (s\<lparr>properties := c\<rparr>) = rest s"
  "rest (s\<lparr>property_list := d\<rparr>) = rest s" "rest (s\<lparr>blobs := e\<rparr>) = rest s" "rest (s\<lparr>property_blob_list := f\<rparr>) = rest s"
  "rest (s\<lparr>slots := g\<rparr>) = rest s" "rest (s\<lparr>obj_props := h\<rparr>) = rest s" "rest (s\<lparr>edid_blob_ptr := i\<rparr>) = rest s"
  by (simp_all add: rest_def)

text \<open>What an operation on properties leaves alone: the other objects keep their ids.\<close>

definition frame :: "(mode_ref ptr, 't) avl_ops \<Rightarrow> ('t, 'z) props_config_scheme \<Rightarrow> ('t, 'z) props_config_scheme \<Rightarrow> bool" where
  "frame A s s' \<longleftrightarrow> rest s' = rest s \<and>
     (\<forall>ty q. ty \<notin> {OBJECT_PROPERTY, OBJECT_BLOB} \<longrightarrow> registered A s' (ty, q) = registered A s (ty, q) \<and> object_id s' (ty, q) = object_id s (ty, q))"

lemma frame_refl [simp]: "frame A s s"
  by (simp add: frame_def)

lemma frame_trans: "frame A s s' \<Longrightarrow> frame A s' s'' \<Longrightarrow> frame A s s''"
  by (simp add: frame_def)

lemma registered_cong: "crtc_idr s' = crtc_idr s \<Longrightarrow> object_id s' = object_id s \<Longrightarrow> registered A s' = registered A s"
  by (simp add: registered_def fun_eq_iff)

lemma registered_upd [simp]:
  fixes s :: "('t, 'z) props_config_scheme"
  shows "registered A (s\<lparr>properties := c\<rparr>) = registered A s" "registered A (s\<lparr>property_list := d\<rparr>) = registered A s"
  "registered A (s\<lparr>blobs := e\<rparr>) = registered A s" "registered A (s\<lparr>property_blob_list := f\<rparr>) = registered A s"
  "registered A (s\<lparr>slots := g\<rparr>) = registered A s" "registered A (s\<lparr>obj_props := h\<rparr>) = registered A s"
  "registered A (s\<lparr>edid_blob_ptr := i\<rparr>) = registered A s"
  by (simp_all add: registered_def fun_eq_iff)

lemma ids_ok_upd [simp]:
  fixes s :: "('t, 'z) props_config_scheme"
  shows "ids_ok A ok (s\<lparr>properties := c\<rparr>) = ids_ok A ok s" "ids_ok A ok (s\<lparr>property_list := d\<rparr>) = ids_ok A ok s"
  "ids_ok A ok (s\<lparr>blobs := e\<rparr>) = ids_ok A ok s" "ids_ok A ok (s\<lparr>property_blob_list := f\<rparr>) = ids_ok A ok s"
  "ids_ok A ok (s\<lparr>slots := g\<rparr>) = ids_ok A ok s" "ids_ok A ok (s\<lparr>obj_props := h\<rparr>) = ids_ok A ok s"
  "ids_ok A ok (s\<lparr>edid_blob_ptr := i\<rparr>) = ids_ok A ok s"
  by (simp_all add: ids_ok_def)

lemma frame_upd:
  fixes s :: "('t, 'z) props_config_scheme"
  shows "frame A s (s\<lparr>properties := c\<rparr>)" "frame A s (s\<lparr>slots := g\<rparr>)" "frame A s (s\<lparr>obj_props := h\<rparr>)" "frame A s (s\<lparr>edid_blob_ptr := i\<rparr>)"
  by (simp_all add: frame_def)

subsection \<open>Getting and giving back ids\<close>

lemma get_frame:
  assumes laws: "avl_laws A ok" and inv: "ids_ok A ok s" and new: "\<not> registered A s (ty, q)" and ty: "ty \<in> {OBJECT_PROPERTY, OBJECT_BLOB}"
    and run: "drm_mode_object_get A alloc (ty, q) s = (ret, s')"
  shows "frame A s s'" "\<exists>a b. s' = s\<lparr>crtc_idr := a, object_id := b\<rparr>"
    "ret = Inl e \<Longrightarrow> registered A s' = registered A s" "ret = Inr () \<Longrightarrow> registered A s' = (registered A s)((ty, q) := True)"
    "ids_ok A ok s'" "r \<noteq> (ty, q) \<Longrightarrow> object_id s' r = object_id s r"
proof -
  note g = object_get_ok [OF laws inv new run]
  then show ids: "ids_ok A ok s'" by blast
  show reg: "ret = Inl e \<Longrightarrow> registered A s' = registered A s" "ret = Inr () \<Longrightarrow> registered A s' = (registered A s)((ty, q) := True)"
    using g by auto
  have upd: "\<exists>i. s' = s\<lparr>crtc_idr := crtc_idr s', object_id := (object_id s)((ty, q) := i)\<rparr>"
  proof (cases ret)
    case (Inl e)
    then have "s' = s\<lparr>crtc_idr := crtc_idr s'\<rparr>" using g by simp
    moreover have "s\<lparr>crtc_idr := a\<rparr> = s\<lparr>crtc_idr := a, object_id := (object_id s)((ty, q) := object_id s (ty, q))\<rparr>" for a by simp
    ultimately show ?thesis by metis
  qed (use g in auto)
  then obtain i where i: "s' = s\<lparr>crtc_idr := crtc_idr s', object_id := (object_id s)((ty, q) := i)\<rparr>" by blast
  then show "\<exists>a b. s' = s\<lparr>crtc_idr := a, object_id := b\<rparr>" by blast
  have ob: "object_id s' = (object_id s)((ty, q) := i)" by (subst i) simp
  then show "r \<noteq> (ty, q) \<Longrightarrow> object_id s' r = object_id s r" by simp
  have "rest s' = rest s" by (subst i) simp
  moreover have "registered A s' (ty', q') = registered A s (ty', q')" if "ty' \<notin> {OBJECT_PROPERTY, OBJECT_BLOB}" for ty' q'
    using g that ty by (cases ret) auto
  ultimately show "frame A s s'" using ob ty by (auto simp: frame_def)
qed

lemma put_frame:
  assumes "avl_laws A ok" "ids_ok A ok s" "registered A s (ty, q)" "ty \<in> {OBJECT_PROPERTY, OBJECT_BLOB}"
  shows "ids_ok A ok (drm_mode_object_put A True (ty, q) s)" "frame A s (drm_mode_object_put A True (ty, q) s)"
    "registered A (drm_mode_object_put A True (ty, q) s) = (registered A s)((ty, q) := False)"
  using object_put_ok [OF assms(1-3)] assms(4) by (auto simp: frame_def) (simp_all add: drm_mode_object_put_def)


subsection \<open>Creating and destroying\<close>

lemma prop_ok_props:
  assumes "prop_ok A ok s" "ids_ok A ok s'" "\<And>b. registered A s' (OBJECT_BLOB, b) = registered A s (OBJECT_BLOB, b)"
    "\<And>p. registered A s' (OBJECT_PROPERTY, p) = (properties s' p \<noteq> None)" "distinct (property_list s')"
    "set (property_list s') = dom (properties s')" "\<And>p P. properties s' p = Some P \<Longrightarrow> prop_wf P"
    "blobs s' = blobs s" "property_blob_list s' = property_blob_list s" "obj_props s' = obj_props s"
  shows "prop_ok A ok s'"
  using assms unfolding prop_ok_def heaps_ok_def by (simp only: split_paired_All simp_thms) blast

text \<open>What the functions on properties leave alone besides.\<close>

definition only_props :: "('t, 'z) props_config_scheme \<Rightarrow> ('t, 'z) props_config_scheme \<Rightarrow> bool" where
  "only_props s s' \<longleftrightarrow> obj_props s' = obj_props s \<and> slots s' = slots s \<and> blobs s' = blobs s \<and> edid_blob_ptr s' = edid_blob_ptr s \<and>
     property_blob_list s' = property_blob_list s"

definition blank_property :: "nat \<Rightarrow> prop_flag set \<Rightarrow> string option \<Rightarrow> nat \<Rightarrow> drm_property" where
  "blank_property len flags nm n =
     \<lparr>prop_flags = flags, prop_name = (case nm of None \<Rightarrow> [] | Some n \<Rightarrow> copy_name len n), prop_values = replicate n 0, enum_blob_list = []\<rparr>"

lemma create_ok:
  assumes laws: "avl_laws A ok" and inv: "prop_ok A ok s" and new: "\<And>p. new_prop mem = Some p \<Longrightarrow> properties s p = None"
    and range: "PROP_RANGE \<in> flags \<Longrightarrow> 2 \<le> n" and run: "drm_property_create A len mem flags nm n s = (q, s')"
  shows "prop_ok A ok s' \<and> frame A s s' \<and> only_props s s' \<and>
    (\<forall>r. r \<notin> Pair OBJECT_PROPERTY ` set_option (new_prop mem) \<longrightarrow> object_id s' r = object_id s r) \<and>
    (case q of
       None \<Rightarrow> properties s' = properties s \<and> property_list s' = property_list s \<and> registered A s' = registered A s
     | Some p \<Rightarrow> new_prop mem = Some p \<and> property_list s' = property_list s @ [p] \<and> properties s' = (properties s)(p \<mapsto> blank_property len flags nm n) \<and>
         registered A s' = (registered A s)((OBJECT_PROPERTY, p) := True))"
proof (cases "new_prop mem = None \<or> n \<noteq> 0 \<and> \<not> values_mem mem")
  case True
  then show ?thesis using run inv by (auto simp: drm_property_create_def only_props_def split: option.splits)
next
  case False
  then obtain p where p: "new_prop mem = Some p" "\<not> (n \<noteq> 0 \<and> \<not> values_mem mem)" by auto
  note i = prop_okD [OF inv]
  obtain ret s1 where g: "drm_mode_object_get A (id_mem mem) (OBJECT_PROPERTY, p) s = (ret, s1)" by force
  have nreg: "\<not> registered A s (OBJECT_PROPERTY, p)" using i(2) new [OF p(1)] by simp
  note get = get_frame [OF laws i(1) nreg _ g, simplified]
  obtain a b where s1: "s1 = s\<lparr>crtc_idr := a, object_id := b\<rparr>" using get(2) by blast
  have h: "heaps_ok A s" using inv by (simp add: prop_ok_def)
  have ids: "\<forall>r. r \<notin> Pair OBJECT_PROPERTY ` set_option (new_prop mem) \<longrightarrow> object_id s1 r = object_id s r"
    using get(6) p(1) by simp
  show ?thesis
  proof (cases ret)
    case (Inl e)
    then have s': "q = None" "s' = s1" using run g p by (auto simp: drm_property_create_def)
    have "prop_ok A ok s1"
      using h i(2,3,4) by (intro prop_ok_props [OF inv get(5)]) (simp_all add: get(3) [OF Inl] heaps_ok_def, simp_all add: s1)
    then show ?thesis using get(1) get(3) [OF Inl] ids unfolding s' by (simp add: only_props_def) (simp add: s1)
  next
    case (Inr x)
    then have ok: "ret = Inr ()" by simp
    let ?P = "blank_property len flags nm n"
    have s': "q = Some p" "s' = s1\<lparr>properties := (properties s1)(p \<mapsto> ?P), property_list := property_list s1 @ [p]\<rparr>"
      using run g p ok by (auto simp: drm_property_create_def blank_property_def)
    have wf: "prop_wf ?P" using range by (auto simp: prop_wf_def blank_property_def)
    have "prop_ok A ok s'"
    proof (rule prop_ok_props [OF inv])
      show "ids_ok A ok s'" using get(5) by (simp add: s')
      show "registered A s' (OBJECT_BLOB, b) = registered A s (OBJECT_BLOB, b)" for b by (simp add: s' get(4) [OF ok])
      show "registered A s' (OBJECT_PROPERTY, p') = (properties s' p' \<noteq> None)" for p'
        using i(2) [of p'] by (simp add: s' get(4) [OF ok]) (simp add: s1)
      show "distinct (property_list s')" "set (property_list s') = dom (properties s')"
        using h new [OF p(1)] by (auto simp: s' s1 heaps_ok_def)
      show "prop_wf P" if "properties s' p' = Some P" for p' P
        using that wf i(4) [of p' P] by (auto simp: s' s1 split: if_splits)
    qed (simp_all add: s' s1)
    moreover have "frame A s s'" using get(1) by (simp add: s' frame_def)
    ultimately show ?thesis using ids p get(4) [OF ok] unfolding s' by (simp add: only_props_def) (simp add: s1)
  qed
qed

lemma destroy_ok:
  assumes laws: "avl_laws A ok" and inv: "prop_ok A ok s" and p: "properties s p \<noteq> None"
  shows "\<exists>s'. drm_property_destroy A True p s = Inr s' \<and> prop_ok A ok s' \<and> frame A s s' \<and>
    registered A s' = (registered A s)((OBJECT_PROPERTY, p) := False) \<and> properties s' = (properties s)(p := None) \<and>
    property_list s' = remove1 p (property_list s) \<and> only_props s s' \<and> object_id s' = object_id s"
proof -
  note i = prop_okD [OF inv]
  let ?s1 = "drm_mode_object_put A True (OBJECT_PROPERTY, p) s"
  let ?s2 = "?s1\<lparr>property_list := remove1 p (property_list ?s1), properties := (properties ?s1)(p := None)\<rparr>"
  have reg: "registered A s (OBJECT_PROPERTY, p)" using p i(2) by simp
  note put = put_frame [OF laws i(1) reg, simplified]
  have h: "heaps_ok A s" using inv by (simp add: prop_ok_def)
  have f: "properties ?s1 = properties s" "property_list ?s1 = property_list s" "blobs ?s1 = blobs s" "property_blob_list ?s1 = property_blob_list s"
    "obj_props ?s1 = obj_props s" "slots ?s1 = slots s" "edid_blob_ptr ?s1 = edid_blob_ptr s" "object_id ?s1 = object_id s"
    by (simp_all add: drm_mode_object_put_def)
  have "prop_ok A ok ?s2"
  proof (rule prop_ok_props [OF inv])
    show "ids_ok A ok ?s2" using put(1) by simp
    show "registered A ?s2 (OBJECT_PROPERTY, p') = (properties ?s2 p' \<noteq> None)" for p'
      using i(2) [of p'] by (simp add: put(3) f)
    show "distinct (property_list ?s2)" "set (property_list ?s2) = dom (properties ?s2)"
      using h by (auto simp: f heaps_ok_def)
    show "prop_wf P" if "properties ?s2 p' = Some P" for p' P
      using that i(4) [of p' P] by (auto simp: f split: if_splits)
  qed (simp_all add: put(3) f)
  moreover have "frame A s ?s2" using put(2) by (simp add: frame_def)
  moreover have "drm_property_destroy A True p s = Inr ?s2" using p by (auto simp: drm_property_destroy_def Let_def)
  ultimately show ?thesis by (intro exI [of _ ?s2]) (simp add: put(3) f only_props_def)
qed

lemma heap_upd_ok:
  assumes inv: "prop_ok A ok s" and p: "properties s p \<noteq> None" and wf: "prop_wf P"
  shows "prop_ok A ok (s\<lparr>properties := (properties s)(p \<mapsto> P)\<rparr>)"
proof -
  note i = prop_okD [OF inv]
  have h: "heaps_ok A s" using inv by (simp add: prop_ok_def)
  show ?thesis
  proof (rule prop_ok_props [OF inv])
    show "registered A (s\<lparr>properties := (properties s)(p \<mapsto> P)\<rparr>) (OBJECT_PROPERTY, p') =
        (properties (s\<lparr>properties := (properties s)(p \<mapsto> P)\<rparr>) p' \<noteq> None)" for p'
      using i(2) [of p'] p by simp
    show "prop_wf P'" if "properties (s\<lparr>properties := (properties s)(p \<mapsto> P)\<rparr>) p' = Some P'" for p' P'
      using that wf i(4) [of p' P'] by (auto split: if_splits)
  qed (use h i(1) p in \<open>auto simp: heaps_ok_def\<close>)
qed

subsection \<open>Enumerations\<close>

text \<open>\<open>same_kind\<close>: what adding to the enumeration of a property does not change.\<close>

definition same_kind :: "drm_property \<Rightarrow> drm_property \<Rightarrow> bool" where
  "same_kind P P' \<longleftrightarrow> prop_flags P' = prop_flags P \<and> prop_name P' = prop_name P \<and> length (prop_values P') = length (prop_values P) \<and>
     (prop_wf P \<longrightarrow> prop_wf P')"

lemma same_kind_refl [simp]: "same_kind P P"
  by (simp add: same_kind_def)

lemma same_kind_trans: "same_kind P Q \<Longrightarrow> same_kind Q R \<Longrightarrow> same_kind P R"
  by (simp add: same_kind_def)

lemma u64_63 [simp]: "(\<not> (63 :: u64) < v) = (v < 64)"
  by (simp add: word_less_nat_alt not_less less_Suc_eq_le [symmetric])

lemma add_enum_ok:
  assumes "properties s p = Some P" "index < length (prop_values P)"
  shows "\<exists>ret P'. drm_property_add_enum len kz p index v nm s = Inr (ret, s\<lparr>properties := (properties s)(p \<mapsto> P')\<rparr>) \<and> same_kind P P'"
proof -
  have same: "s\<lparr>properties := (properties s)(p \<mapsto> P)\<rparr> = s" using assms(1) by (simp add: fun_upd_idem)
  have wf: "prop_wf (P\<lparr>prop_values := (prop_values P)[index := v], enum_blob_list := es\<rparr>)"
    if "prop_wf P" "\<not> (PROP_BITMASK \<in> prop_flags P \<and> 63 < v)" for es
    using that set_update_subset_insert [of "prop_values P" index v] by (auto simp: prop_wf_def)
  define fine where "fine r \<longleftrightarrow> (\<exists>ret P'. r = Inr (ret, s\<lparr>properties := (properties s)(p \<mapsto> P')\<rparr>) \<and> same_kind P P')" for r :: "(unit result \<times> ('a, 'b) props_config_scheme) result"
  have intro: "fine (Inr (ret, s\<lparr>properties := (properties s)(p \<mapsto> P')\<rparr>))" if "same_kind P P'" for ret P'
    using that by (auto simp: fine_def)
  have unchanged: "fine (Inr (Inl e, s))" for e
    using intro [OF same_kind_refl, of "Inl e"] by (simp add: same)
  have "same_kind P (P\<lparr>enum_blob_list := es\<rparr>)" for es by (simp add: same_kind_def prop_wf_def)
  moreover have "same_kind P (P\<lparr>prop_values := (prop_values P)[index := v], enum_blob_list := es\<rparr>)"
    if "\<not> (PROP_BITMASK \<in> prop_flags P \<and> 63 < v)" for es using wf that by (simp add: same_kind_def)
  ultimately have "fine (drm_property_add_enum len kz p index v nm s)"
    using assms unchanged intro unfolding drm_property_add_enum_def by (auto split: if_splits)
  then show ?thesis by (simp add: fine_def)
qed

lemma add_enums_ok:
  "properties s p = Some P \<Longrightarrow> i + length props \<le> length (prop_values P) \<Longrightarrow>
     \<exists>ret P'. add_enums len kz p i props s = Inr (ret, s\<lparr>properties := (properties s)(p \<mapsto> P')\<rparr>) \<and> same_kind P P'"
proof (induction props arbitrary: i s P)
  case Nil
  then have "s\<lparr>properties := (properties s)(p \<mapsto> P)\<rparr> = s" by (simp add: fun_upd_idem)
  then show ?case using same_kind_refl [of P] by (metis add_enums.simps(1))
next
  case (Cons e props)
  obtain ty nm where e: "e = (ty, nm)" by force
  have "i < length (prop_values P)" using Cons.prems(2) by simp
  from add_enum_ok [OF Cons.prems(1) this, of len "kz i" "word_of_int ty" nm] obtain ret P1 where
    one: "drm_property_add_enum len (kz i) p i (word_of_int ty) nm s = Inr (ret, s\<lparr>properties := (properties s)(p \<mapsto> P1)\<rparr>)" "same_kind P P1" by blast
  show ?case
  proof (cases ret)
    case (Inl x)
    then have "add_enums len kz p i (e # props) s = Inr (Inl x, s\<lparr>properties := (properties s)(p \<mapsto> P1)\<rparr>)" using one e by simp
    with one(2) show ?thesis by blast
  next
    case (Inr x)
    let ?s = "s\<lparr>properties := (properties s)(p \<mapsto> P1)\<rparr>"
    have p1: "properties ?s p = Some P1" by simp
    have "i + 1 + length props \<le> length (prop_values P1)" using Cons.prems(2) one(2) by (simp add: same_kind_def)
    from Cons.IH [OF p1 this] obtain ret' P2 where
      two: "add_enums len kz p (i + 1) props ?s = Inr (ret', ?s\<lparr>properties := (properties ?s)(p \<mapsto> P2)\<rparr>)" "same_kind P1 P2"
      by blast
    have "?s\<lparr>properties := (properties ?s)(p \<mapsto> P2)\<rparr> = s\<lparr>properties := (properties s)(p \<mapsto> P2)\<rparr>" by simp
    then have "add_enums len kz p i (e # props) s = Inr (ret', s\<lparr>properties := (properties s)(p \<mapsto> P2)\<rparr>)"
      using two(1) one(1) e Inr by simp
    with same_kind_trans [OF one(2) two(2)] show ?thesis by blast
  qed
qed

lemma listed_ok:
  assumes laws: "avl_laws A ok" and inv: "prop_ok A ok s" and new: "\<And>p. new_prop mem = Some p \<Longrightarrow> properties s p = None"
    and range: "PROP_RANGE \<notin> flags"
  shows "\<exists>q s'. create_listed A len mem True flags nm props s = Inr (q, s') \<and> prop_ok A ok s' \<and> frame A s s' \<and> only_props s s' \<and>
    (\<forall>r. r \<notin> Pair OBJECT_PROPERTY ` set_option (new_prop mem) \<longrightarrow> object_id s' r = object_id s r) \<and>
    (case q of
       None \<Rightarrow> properties s' = properties s \<and> property_list s' = property_list s \<and> registered A s' = registered A s
     | Some p \<Rightarrow> new_prop mem = Some p \<and> property_list s' = property_list s @ [p] \<and> registered A s' = (registered A s)((OBJECT_PROPERTY, p) := True) \<and>
         (\<exists>P s1. properties s' = (properties s)(p \<mapsto> P) \<and> same_kind (blank_property len flags nm (length props)) P \<and>
           properties s1 = (properties s)(p \<mapsto> blank_property len flags nm (length props)) \<and>
           add_enums len (enum_mem mem) p 0 props s1 = Inr (Inr (), s')))"
proof -
  obtain q s1 where c: "drm_property_create A len mem flags nm (length props) s = (q, s1)" by force
  note cr = create_ok [OF laws inv new _ c, simplified range, simplified]
  show ?thesis
  proof (cases q)
    case None
    then show ?thesis using c cr by (simp add: create_listed_def)
  next
    case (Some p)
    let ?B = "blank_property len flags nm (length props)"
    have c1: "new_prop mem = Some p" "property_list s1 = property_list s @ [p]" "properties s1 = (properties s)(p \<mapsto> ?B)"
      "registered A s1 = (registered A s)((OBJECT_PROPERTY, p) := True)" using cr Some by simp_all
    have c2: "prop_ok A ok s1" "frame A s s1" "only_props s s1"
      "\<forall>r. r \<notin> Pair OBJECT_PROPERTY ` set_option (new_prop mem) \<longrightarrow> object_id s1 r = object_id s r" using cr by simp_all
    have "properties s1 p = Some ?B" "0 + length props \<le> length (prop_values ?B)" by (simp_all add: c1 blank_property_def)
    from add_enums_ok [OF this, of len "enum_mem mem"] obtain ret P where
      a: "add_enums len (enum_mem mem) p 0 props s1 = Inr (ret, s1\<lparr>properties := (properties s1)(p \<mapsto> P)\<rparr>)" "same_kind ?B P" by blast
    let ?s2 = "s1\<lparr>properties := (properties s1)(p \<mapsto> P)\<rparr>"
    have "prop_wf P" using a(2) prop_okD(4) [OF c2(1) \<open>properties s1 p = Some ?B\<close>] by (simp add: same_kind_def)
    then have ok2: "prop_ok A ok ?s2" using heap_upd_ok [OF c2(1), of p P] c1 by simp
    have fr2: "frame A s ?s2" using frame_trans [OF c2(2) frame_upd(1)] .
    have on2: "only_props s ?s2" using c2(3) by (simp add: only_props_def)
    show ?thesis
    proof (cases ret)
      case (Inr x)
      then have "add_enums len (enum_mem mem) p 0 props s1 = Inr (Inr (), ?s2)" using a(1) by simp
      then have "\<exists>P s3. properties ?s2 = (properties s)(p \<mapsto> P) \<and> same_kind ?B P \<and> properties s3 = (properties s)(p \<mapsto> ?B) \<and>
           add_enums len (enum_mem mem) p 0 props s3 = Inr (Inr (), ?s2)"
        using a(2) c1(3) by (intro exI [of _ P] exI [of _ s1]) simp
      moreover have "create_listed A len mem True flags nm props s = Inr (Some p, ?s2)" using c Some a Inr by (simp add: create_listed_def)
      ultimately show ?thesis using ok2 fr2 on2 c1(1,2,4) c2(4) by (intro exI [of _ "Some p"] exI [of _ ?s2]) simp
    next
      case (Inl e)
      from destroy_ok [OF laws ok2, of p] obtain s3 where d: "drm_property_destroy A True p ?s2 = Inr s3" "prop_ok A ok s3" "frame A ?s2 s3"
        "registered A s3 = (registered A ?s2)((OBJECT_PROPERTY, p) := False)" "properties s3 = (properties ?s2)(p := None)"
        "property_list s3 = remove1 p (property_list ?s2)" "only_props ?s2 s3" "object_id s3 = object_id ?s2" by auto
      have none: "properties s p = None" by (rule new [OF c1(1)])
      have "\<not> registered A s (OBJECT_PROPERTY, p)" using none prop_okD(2) [OF inv] by simp
      then have "registered A s3 = registered A s" using d(4) c1(4) by (auto simp: fun_eq_iff)
      moreover have "properties s3 = properties s" using d(5) c1(3) none by (auto simp: fun_eq_iff)
      moreover have "property_list s3 = property_list s"
        using d(6) c1(2) none prop_okD(2) [OF inv] inv by (auto simp: prop_ok_def heaps_ok_def remove1_append)
      moreover have "create_listed A len mem True flags nm props s = Inr (None, s3)" using c Some a Inl d(1) by (simp add: create_listed_def)
      ultimately show ?thesis using d(2,8) frame_trans [OF fr2 d(3)] on2 d(7) c2(4)
        by (intro exI [of _ None] exI [of _ s3]) (simp add: only_props_def)
    qed
  qed
qed

lemma range_ok:
  assumes laws: "avl_laws A ok" and inv: "prop_ok A ok s" and new: "\<And>p. new_prop mem = Some p \<Longrightarrow> properties s p = None"
    and run: "drm_property_create_range A len mem flags nm mn mx s = (q, s')"
  shows "prop_ok A ok s' \<and> frame A s s' \<and> only_props s s' \<and>
    (\<forall>r. r \<notin> Pair OBJECT_PROPERTY ` set_option (new_prop mem) \<longrightarrow> object_id s' r = object_id s r) \<and>
    (case q of
       None \<Rightarrow> properties s' = properties s \<and> property_list s' = property_list s \<and> registered A s' = registered A s
     | Some p \<Rightarrow> new_prop mem = Some p \<and> property_list s' = property_list s @ [p] \<and> registered A s' = (registered A s)((OBJECT_PROPERTY, p) := True) \<and>
         properties s' = (properties s)(p \<mapsto> (blank_property len (insert PROP_RANGE flags) nm 2)\<lparr>prop_values := [mn, mx]\<rparr>))"
proof -
  obtain q1 s1 where c: "drm_property_create A len mem (insert PROP_RANGE flags) nm 2 s = (q1, s1)" by force
  note cr = create_ok [OF laws inv new _ c, simplified]
  show ?thesis
  proof (cases q1)
    case None
    then show ?thesis using c cr run by (simp add: drm_property_create_range_def)
  next
    case (Some p)
    let ?B = "blank_property len (insert PROP_RANGE flags) nm 2"
    let ?P = "?B\<lparr>prop_values := [mn, mx]\<rparr>"
    have c1: "new_prop mem = Some p" "property_list s1 = property_list s @ [p]" "properties s1 = (properties s)(p \<mapsto> ?B)"
      "registered A s1 = (registered A s)((OBJECT_PROPERTY, p) := True)" using cr Some by simp_all
    have c2: "prop_ok A ok s1" "frame A s s1" "only_props s s1"
      "\<forall>r. r \<notin> Pair OBJECT_PROPERTY ` set_option (new_prop mem) \<longrightarrow> object_id s1 r = object_id s r" using cr by simp_all
    have vals: "(prop_values ?B)[0 := mn, 1 := mx] = [mn, mx]" by (simp add: blank_property_def numeral_2_eq_2)
    let ?s2 = "s1\<lparr>properties := (properties s1)(p \<mapsto> ?P)\<rparr>"
    have s': "q = Some p" "s' = ?s2" using run c Some vals by (simp_all add: drm_property_create_range_def c1(3))
    have "frame A s ?s2" using frame_trans [OF c2(2) frame_upd(1)] .
    moreover have "only_props s ?s2" using c2(3) by (simp add: only_props_def)
    moreover have "prop_ok A ok ?s2" using c1 by (intro heap_upd_ok [OF c2(1)]) (simp_all add: prop_wf_def blank_property_def)
    moreover have "?s2 = s1\<lparr>properties := (properties s)(p \<mapsto> ?P)\<rparr>" by (simp add: c1(3))
    ultimately show ?thesis using c1(1,2,4) c2(4) unfolding s' by simp
  qed
qed

subsection \<open>Values\<close>

text \<open>A value that user space may have set, or that the driver controls.\<close>

definition valid_value :: "drm_property \<Rightarrow> u64 \<Rightarrow> bool" where
  "valid_value P v \<longleftrightarrow> PROP_IMMUTABLE \<in> prop_flags P \<or> drm_property_change_is_valid P v = Inr True"

definition vals_ok :: "('t, 'z) props_config_scheme \<Rightarrow> bool" where
  "vals_ok s \<longleftrightarrow>
     (\<forall>r ps i v. obj_props s r = Some ps \<longrightarrow> (i, v) \<in> set ps \<longrightarrow>
        (\<exists>p P. properties s p = Some P \<and> object_id s (OBJECT_PROPERTY, p) = i \<and> valid_value P v)) \<and>
     (\<forall>p. slots s edid_property = Some p \<longrightarrow> (\<exists>P. properties s p = Some P \<and> PROP_IMMUTABLE \<in> prop_flags P))"

lemma vals_okD:
  assumes "vals_ok s"
  shows "obj_props s r = Some ps \<Longrightarrow> (i, v) \<in> set ps \<Longrightarrow> \<exists>p P. properties s p = Some P \<and> object_id s (OBJECT_PROPERTY, p) = i \<and> valid_value P v"
    "slots s edid_property = Some p \<Longrightarrow> \<exists>P. properties s p = Some P \<and> PROP_IMMUTABLE \<in> prop_flags P"
  using assms unfolding vals_ok_def by blast+

lemma vals_okI:
  assumes "\<And>r ps i v. obj_props s r = Some ps \<Longrightarrow> (i, v) \<in> set ps \<Longrightarrow> \<exists>p P. properties s p = Some P \<and> object_id s (OBJECT_PROPERTY, p) = i \<and> valid_value P v"
    "\<And>p. slots s edid_property = Some p \<Longrightarrow> \<exists>P. properties s p = Some P \<and> PROP_IMMUTABLE \<in> prop_flags P"
  shows "vals_ok s"
  using assms unfolding vals_ok_def by blast

definition unattached :: "nat \<Rightarrow> ('t, 'z) props_config_scheme \<Rightarrow> bool" where
  "unattached p s \<longleftrightarrow> (\<forall>r ps. obj_props s r = Some ps \<longrightarrow> object_id s (OBJECT_PROPERTY, p) \<notin> fst ` set ps) \<and> slots s edid_property \<noteq> Some p"

text \<open>Only properties that no object has may change.\<close>

lemma vals_ok_props:
  assumes v: "vals_ok s" and same: "obj_props s' = obj_props s" "slots s' = slots s"
    and keep: "\<And>p P. properties s p = Some P \<Longrightarrow> \<not> unattached p s \<Longrightarrow>
      properties s' p = Some P \<and> object_id s' (OBJECT_PROPERTY, p) = object_id s (OBJECT_PROPERTY, p)"
  shows "vals_ok s'"
proof (rule vals_okI)
  fix r ps i w assume "obj_props s' r = Some ps" "(i, w) \<in> set ps"
  then have a: "obj_props s r = Some ps" "(i, w) \<in> set ps" using same by simp_all
  from vals_okD(1) [OF v this] obtain p P where p: "properties s p = Some P" "object_id s (OBJECT_PROPERTY, p) = i" "valid_value P w" by blast
  have "i \<in> fst ` set ps" using a(2) by force
  then have "\<not> unattached p s" using a(1) p(2) unfolding unattached_def by blast
  from keep [OF p(1) this] p(2,3)
  show "\<exists>p P. properties s' p = Some P \<and> object_id s' (OBJECT_PROPERTY, p) = i \<and> valid_value P w" by auto
next
  fix p assume a: "slots s' edid_property = Some p"
  then obtain P where P: "properties s p = Some P" "PROP_IMMUTABLE \<in> prop_flags P" using vals_okD(2) [OF v] same by auto
  moreover have "\<not> unattached p s" using a same unfolding unattached_def by simp
  ultimately show "\<exists>P. properties s' p = Some P \<and> PROP_IMMUTABLE \<in> prop_flags P" using keep by blast
qed

lemma change_is_valid_ok: "prop_wf P \<Longrightarrow> \<exists>b. drm_property_change_is_valid P v = Inr b"
  by (auto simp: drm_property_change_is_valid_def prop_wf_def split: list.split)

lemma set_first_None: "set_first i v ps = None \<longleftrightarrow> i \<notin> fst ` set ps"
  by (induction i v ps rule: set_first.induct) auto

lemma set_first_Some:
  "set_first i v ps = Some ps' \<Longrightarrow> length ps' = length ps \<and> map fst ps' = map fst ps \<and> set ps' \<subseteq> insert (i, v) (set ps) \<and>
     map_of ps' = (map_of ps)(i \<mapsto> v)"
proof (induction i v ps arbitrary: ps' rule: set_first.induct)
  case (2 i v j w ps)
  show ?case
  proof (cases "j = i")
    case True
    then show ?thesis using "2.prems" by (auto simp: fun_eq_iff)
  next
    case False
    then obtain rs where rs: "set_first i v ps = Some rs" "ps' = (j, w) # rs" using "2.prems" by auto
    from "2.IH" [OF False rs(1)] show ?thesis using False by (auto simp: rs(2) fun_eq_iff)
  qed
qed simp

lemma property_id_ok: "properties s p \<noteq> None \<Longrightarrow> property_id (Some p) s = Inr (object_id s (OBJECT_PROPERTY, p))"
  by (simp add: property_id_def)

lemma set_value_ok:
  assumes "obj_props s r = Some ps" "properties s p \<noteq> None"
  shows "drm_object_property_set_value r (Some p) v s =
    (case set_first (object_id s (OBJECT_PROPERTY, p)) v ps of
       None \<Rightarrow> Inr (Inl EINVAL, s) | Some ps' \<Rightarrow> Inr (Inr (), s\<lparr>obj_props := (obj_props s)(r \<mapsto> ps')\<rparr>))"
  using assms by (cases ps) (simp_all add: drm_object_property_set_value_def property_id_ok)

lemma get_value_ok:
  assumes "obj_props s r = Some ps" "properties s p \<noteq> None"
  shows "drm_object_property_get_value r (Some p) s =
    Inr (case map_of ps (object_id s (OBJECT_PROPERTY, p)) of None \<Rightarrow> Inl EINVAL | Some v \<Rightarrow> Inr v)"
  using assms by (cases ps) (simp_all add: drm_object_property_get_value_def property_id_ok)

lemma prop_ok_objs:
  assumes "prop_ok A ok s" "\<And>r ps. h r = Some ps \<Longrightarrow> length ps \<le> DRM_OBJECT_MAX_PROPERTY"
  shows "prop_ok A ok (s\<lparr>obj_props := h\<rparr>)"
  using assms unfolding prop_ok_def heaps_ok_def by (simp only: split_paired_All ids_ok_upd registered_upd props_config.simps simp_thms) simp

lemma obj_upd_ok:
  assumes inv: "prop_ok A ok s" and old: "obj_props s r = Some ps" and len: "length ps' \<le> DRM_OBJECT_MAX_PROPERTY"
  shows "prop_ok A ok (s\<lparr>obj_props := (obj_props s)(r \<mapsto> ps')\<rparr>)"
  using prop_okD(5) [OF inv] len by (intro prop_ok_objs [OF inv]) (auto split: if_splits)

lemma vals_ok_obj:
  assumes v: "vals_ok s" and p: "properties s p = Some P" "valid_value P w" and old: "obj_props s r = Some ps"
    and new: "set ps' \<subseteq> insert (object_id s (OBJECT_PROPERTY, p), w) (set ps)"
  shows "vals_ok (s\<lparr>obj_props := (obj_props s)(r \<mapsto> ps')\<rparr>)"
proof (rule vals_okI)
  fix r' qs i x
  assume a: "obj_props (s\<lparr>obj_props := (obj_props s)(r \<mapsto> ps')\<rparr>) r' = Some qs" "(i, x) \<in> set qs"
  have "(i, x) = (object_id s (OBJECT_PROPERTY, p), w) \<or> (\<exists>qs. obj_props s r' = Some qs \<and> (i, x) \<in> set qs)"
    using a new old by (cases "r' = r") auto
  then show "\<exists>p P. properties (s\<lparr>obj_props := (obj_props s)(r \<mapsto> ps')\<rparr>) p = Some P \<and>
      object_id (s\<lparr>obj_props := (obj_props s)(r \<mapsto> ps')\<rparr>) (OBJECT_PROPERTY, p) = i \<and> valid_value P x"
    using p vals_okD(1) [OF v, of r' _ i x] by auto
qed (use vals_okD(2) [OF v] in simp)

lemma attach_ok:
  assumes inv: "prop_ok A ok s" and v: "vals_ok s" and r: "obj_props s r = Some ps" and p: "properties s p = Some P" and w: "valid_value P w"
  shows "\<exists>s'. drm_object_attach_property r (Some p) w s = Inr s' \<and> prop_ok A ok s' \<and> vals_ok s' \<and> frame A s s' \<and>
    (length ps < DRM_OBJECT_MAX_PROPERTY \<longrightarrow> s' = s\<lparr>obj_props := (obj_props s)(r \<mapsto> ps @ [(object_id s (OBJECT_PROPERTY, p), w)])\<rparr>)"
proof (cases "length ps = DRM_OBJECT_MAX_PROPERTY")
  case True
  then show ?thesis using inv v r by (simp add: drm_object_attach_property_def)
next
  case False
  then have "length ps < DRM_OBJECT_MAX_PROPERTY" using prop_okD(5) [OF inv r] by simp
  moreover have "vals_ok (s\<lparr>obj_props := (obj_props s)(r \<mapsto> ps @ [(object_id s (OBJECT_PROPERTY, p), w)])\<rparr>)"
    by (rule vals_ok_obj [OF v p w r]) simp
  ultimately show ?thesis
    using obj_upd_ok [OF inv r] r p by (auto simp: drm_object_attach_property_def property_id_ok intro: frame_upd)
qed

text \<open>Setting a value that is valid.\<close>

lemma set_ok:
  assumes inv: "prop_ok A ok s" and v: "vals_ok s" and r: "obj_props s r = Some ps" and p: "properties s p = Some P" and w: "valid_value P w"
  shows "\<exists>ret s'. drm_object_property_set_value r (Some p) w s = Inr (ret, s') \<and> prop_ok A ok s' \<and> vals_ok s' \<and> frame A s s' \<and>
    (case ret of
       Inl e \<Rightarrow> s' = s \<and> object_id s (OBJECT_PROPERTY, p) \<notin> fst ` set ps
     | Inr _ \<Rightarrow> \<exists>ps'. s' = s\<lparr>obj_props := (obj_props s)(r \<mapsto> ps')\<rparr> \<and> map fst ps' = map fst ps \<and>
         map_of ps' = (map_of ps)(object_id s (OBJECT_PROPERTY, p) \<mapsto> w))"
proof (cases "set_first (object_id s (OBJECT_PROPERTY, p)) w ps")
  case None
  then have "object_id s (OBJECT_PROPERTY, p) \<notin> fst ` set ps" by (simp add: set_first_None)
  then show ?thesis using set_value_ok [OF r, of p w] p inv v None by simp
next
  case (Some ps')
  note f = set_first_Some [OF Some]
  have "length ps' \<le> DRM_OBJECT_MAX_PROPERTY" using f prop_okD(5) [OF inv r] by simp
  with f have "prop_ok A ok (s\<lparr>obj_props := (obj_props s)(r \<mapsto> ps')\<rparr>)" "vals_ok (s\<lparr>obj_props := (obj_props s)(r \<mapsto> ps')\<rparr>)"
    using obj_upd_ok [OF inv r] vals_ok_obj [OF v p w r] by blast+
  then show ?thesis using set_value_ok [OF r, of p w] p Some f frame_upd(3) [of A s] by auto
qed

text \<open>The three kinds of objects differ in whose callback is asked; a connector's DPMS property needs none.\<close>

definition hook_answer :: "unit result ptr \<Rightarrow> mode_object_type \<Rightarrow> nat \<Rightarrow> ('t, 'z) props_config_scheme \<Rightarrow> unit result" where
  "hook_answer hook ty p s =
     (if ty = OBJECT_CONNECTOR \<and> Some p = slots s dpms_property then Inr () else case hook of None \<Rightarrow> Inl EINVAL | Some ret \<Rightarrow> ret)"

lemma set_obj_prop_eq:
  "drm_mode_connector_set_obj_prop hook c p v s =
     (case hook_answer hook OBJECT_CONNECTOR p s of Inl e \<Rightarrow> Inr (Inl e, s) | Inr _ \<Rightarrow> drm_object_property_set_value (OBJECT_CONNECTOR, c) (Some p) v s)"
  "drm_mode_crtc_set_obj_prop hook c p v s =
     (case hook_answer hook OBJECT_CRTC p s of Inl e \<Rightarrow> Inr (Inl e, s) | Inr _ \<Rightarrow> drm_object_property_set_value (OBJECT_CRTC, c) (Some p) v s)"
  "drm_mode_plane_set_obj_prop hook c p v s =
     (case hook_answer hook OBJECT_PLANE p s of Inl e \<Rightarrow> Inr (Inl e, s) | Inr _ \<Rightarrow> drm_object_property_set_value (OBJECT_PLANE, c) (Some p) v s)"
  by (simp_all add: drm_mode_connector_set_obj_prop_def drm_mode_crtc_set_obj_prop_def drm_mode_plane_set_obj_prop_def hook_answer_def)

lemma set_ioctl_eq:
  assumes inv: "prop_ok A ok s"
  shows "drm_mode_obj_set_property_ioctl A True hook arg s =
    (case drm_mode_object_find A (set_obj_id arg) (set_obj_type arg) s of
       None \<Rightarrow> Inr (Inl EINVAL, s)
     | Some q \<Rightarrow>
         (case (obj_props s (set_obj_type arg, q), drm_mode_object_find A (set_prop_id arg) OBJECT_PROPERTY s) of
            (Some ps, Some p) \<Rightarrow>
              if set_prop_id arg \<in> fst ` set ps \<and> drm_property_change_is_valid (the (properties s p)) (set_value arg) = Inr True \<and>
                 set_obj_type arg \<in> {OBJECT_CONNECTOR, OBJECT_CRTC, OBJECT_PLANE}
              then (case hook_answer hook (set_obj_type arg) p s of
                      Inl e \<Rightarrow> Inr (Inl e, s)
                    | Inr _ \<Rightarrow> drm_object_property_set_value (set_obj_type arg, q) (Some p) (set_value arg) s)
              else Inr (Inl EINVAL, s)
          | _ \<Rightarrow> Inr (Inl EINVAL, s)))"
proof -
  have heap: "\<exists>P b. properties s p = Some P \<and> drm_property_change_is_valid P (set_value arg) = Inr b"
    if "drm_mode_object_find A (set_prop_id arg) OBJECT_PROPERTY s = Some p" for p
  proof -
    from that have "registered A s (OBJECT_PROPERTY, p)" using drm_mode_object_find_iff [OF prop_okD(1) [OF inv]] by blast
    then obtain P where "properties s p = Some P" using prop_okD(2) [OF inv] by auto
    then show ?thesis using change_is_valid_ok [OF prop_okD(4) [OF inv]] by blast
  qed
  note ioctl = drm_mode_obj_set_property_ioctl_def [of A True hook arg s]
  show ?thesis
  proof (cases "drm_mode_object_find A (set_obj_id arg) (set_obj_type arg) s")
    case None
    then show ?thesis by (simp add: ioctl)
  next
    case q: (Some q)
    show ?thesis
    proof (cases "obj_props s (set_obj_type arg, q)")
      case None
      then show ?thesis using q by (simp add: ioctl)
    next
      case ps: (Some ps)
      show ?thesis
      proof (cases "drm_mode_object_find A (set_prop_id arg) OBJECT_PROPERTY s")
        case None
        then show ?thesis using q ps by (simp add: ioctl)
      next
        case p: (Some p)
        obtain P b where "properties s p = Some P" "drm_property_change_is_valid P (set_value arg) = Inr b" using heap [OF p] by blast
        then show ?thesis using q ps p
          by (cases "set_prop_id arg \<in> fst ` set ps"; cases b; cases "set_obj_type arg") (simp_all add: ioctl set_obj_prop_eq split: sum.split)
      qed
    qed
  qed
qed

lemma obj_same: "\<exists>h. s = s\<lparr>obj_props := h\<rparr>"
  by (rule exI [of _ "obj_props s"]) simp

lemma set_get_ok:
  assumes inv: "prop_ok A ok s" and v: "vals_ok s" and r: "obj_props s r = Some ps" and p: "properties s p = Some P" and w: "valid_value P w"
  shows "\<exists>ret s'. drm_object_property_set_value r (Some p) w s = Inr (ret, s') \<and> prop_ok A ok s' \<and> vals_ok s' \<and> frame A s s' \<and>
    (\<exists>h. s' = s\<lparr>obj_props := h\<rparr>) \<and> (ret = Inr () \<longrightarrow> drm_object_property_get_value r (Some p) s' = Inr (Inr w))"
proof -
  from set_ok [OF assms] obtain ret s' where s': "drm_object_property_set_value r (Some p) w s = Inr (ret, s')"
    "prop_ok A ok s'" "vals_ok s'" "frame A s s'"
    "case ret of Inl e \<Rightarrow> s' = s \<and> object_id s (OBJECT_PROPERTY, p) \<notin> fst ` set ps
     | Inr _ \<Rightarrow> \<exists>ps'. s' = s\<lparr>obj_props := (obj_props s)(r \<mapsto> ps')\<rparr> \<and> map fst ps' = map fst ps \<and>
         map_of ps' = (map_of ps)(object_id s (OBJECT_PROPERTY, p) \<mapsto> w)" by blast
  have "\<exists>h. s' = s\<lparr>obj_props := h\<rparr>" using s'(5) obj_same [of s] by (cases ret) auto
  moreover have "drm_object_property_get_value r (Some p) s' = Inr (Inr w)" if "ret = Inr ()"
  proof -
    from that s'(5) obtain ps' where ps': "s' = s\<lparr>obj_props := (obj_props s)(r \<mapsto> ps')\<rparr>"
      "map_of ps' = (map_of ps)(object_id s (OBJECT_PROPERTY, p) \<mapsto> w)" by auto
    have g: "obj_props s' r = Some ps'" "properties s' p \<noteq> None" using p by (simp_all add: ps'(1))
    have "object_id s' = object_id s" by (simp add: ps'(1))
    then show ?thesis unfolding get_value_ok [OF g] by (simp add: ps'(2))
  qed
  ultimately show ?thesis using s'(1-4) by auto
qed

lemma set_ioctl_ok:
  assumes inv: "prop_ok A ok s" and v: "vals_ok s"
  shows "\<exists>ret s'. drm_mode_obj_set_property_ioctl A modeset hook arg s = Inr (ret, s') \<and> prop_ok A ok s' \<and> vals_ok s' \<and> frame A s s' \<and>
    (\<exists>h. s' = s\<lparr>obj_props := h\<rparr>)"
proof -
  define fine where "fine x \<longleftrightarrow> (\<exists>ret s'. x = Inr (ret, s') \<and> prop_ok A ok s' \<and> vals_ok s' \<and> frame A s s' \<and> (\<exists>h. s' = s\<lparr>obj_props := h\<rparr>))"
    for x :: "(unit result \<times> ('a, 'b) props_config_scheme) result"
  have same: "fine (Inr (Inl e, s))" for e using inv v obj_same [of s] by (simp add: fine_def)
  have set: "fine (drm_object_property_set_value (ty, q) (Some p) w s)"
    if "obj_props s (ty, q) = Some ps" "properties s p = Some P" "drm_property_change_is_valid P w = Inr True" for ty q p P w ps
  proof -
    have "valid_value P w" using that(3) by (simp add: valid_value_def)
    from set_get_ok [OF inv v that(1,2) this] show ?thesis unfolding fine_def by blast
  qed
  have heap: "\<exists>P. properties s p = Some P" if "drm_mode_object_find A i OBJECT_PROPERTY s = Some p" for i p
    using that drm_mode_object_find_iff [OF prop_okD(1) [OF inv]] prop_okD(2) [OF inv] by blast
  have "fine (drm_mode_obj_set_property_ioctl A modeset hook arg s)"
  proof (cases modeset)
    case True
    have "fine (drm_mode_obj_set_property_ioctl A True hook arg s)"
      unfolding set_ioctl_eq [OF inv] using same set by (auto dest!: heap split: option.split sum.split)
    with True show ?thesis by simp
  qed (simp add: drm_mode_obj_set_property_ioctl_def same)
  then show ?thesis by (simp add: fine_def)
qed

subsection \<open>Blobs\<close>

text \<open>What the functions on blobs leave alone besides.\<close>

definition only_blobs :: "('t, 'z) props_config_scheme \<Rightarrow> ('t, 'z) props_config_scheme \<Rightarrow> bool" where
  "only_blobs s s' \<longleftrightarrow> obj_props s' = obj_props s \<and> slots s' = slots s \<and> properties s' = properties s \<and> edid_blob_ptr s' = edid_blob_ptr s \<and>
     property_list s' = property_list s \<and> (\<forall>p. object_id s' (OBJECT_PROPERTY, p) = object_id s (OBJECT_PROPERTY, p))"

lemma prop_ok_blobs:
  assumes "prop_ok A ok s" "ids_ok A ok s'" "only_blobs s s'"
    "\<And>p. registered A s' (OBJECT_PROPERTY, p) = registered A s (OBJECT_PROPERTY, p)"
    "\<And>b. registered A s' (OBJECT_BLOB, b) = (blobs s' b \<noteq> None)" "distinct (property_blob_list s')"
    "set (property_blob_list s') = dom (blobs s')"
  shows "prop_ok A ok s'"
  using assms unfolding prop_ok_def heaps_ok_def only_blobs_def by (simp only: split_paired_All simp_thms) blast

lemma create_blob_ok:
  assumes laws: "avl_laws A ok" and inv: "prop_ok A ok s" and new: "\<And>b. mem = Some b \<Longrightarrow> blobs s b = None"
    and len: "\<And>bytes. data = Some bytes \<Longrightarrow> sz \<le> length bytes"
  shows "\<exists>q s'. drm_property_create_blob A mem alloc sz data s = Inr (q, s') \<and> prop_ok A ok s' \<and> frame A s s' \<and> only_blobs s s' \<and>
    (case q of
       None \<Rightarrow> blobs s' = blobs s \<and> registered A s' = registered A s
     | Some b \<Rightarrow> mem = Some b \<and> (\<exists>bytes. data = Some bytes \<and> blobs s' = (blobs s)(b \<mapsto> take sz bytes)) \<and> registered A s' (OBJECT_BLOB, b))"
proof (cases "data = None \<or> sz = 0 \<or> mem = None")
  case True
  then show ?thesis using inv by (auto simp: drm_property_create_blob_def only_blobs_def split: option.split)
next
  case False
  then obtain bytes b where b: "data = Some bytes" "sz \<noteq> 0" "mem = Some b" by auto
  note i = prop_okD [OF inv]
  obtain ret s1 where g: "drm_mode_object_get A alloc (OBJECT_BLOB, b) s = (ret, s1)" by force
  have nreg: "\<not> registered A s (OBJECT_BLOB, b)" using i(3) new [OF b(3)] by simp
  note get = get_frame [OF laws i(1) nreg _ g, simplified]
  obtain a d where s1: "s1 = s\<lparr>crtc_idr := a, object_id := d\<rparr>" using get(2) by blast
  have h: "heaps_ok A s" using inv by (simp add: prop_ok_def)
  have only: "only_blobs s s1" using get(6) by (simp add: only_blobs_def) (simp add: s1)
  show ?thesis
  proof (cases ret)
    case (Inl e)
    have "prop_ok A ok s1" using h only by (intro prop_ok_blobs [OF inv get(5)]) (simp_all add: get(3) [OF Inl] heaps_ok_def, simp_all add: s1)
    then show ?thesis using get(1) get(3) [OF Inl] only b g Inl by (simp add: drm_property_create_blob_def) (simp add: s1)
  next
    case (Inr x)
    then have ok: "ret = Inr ()" by simp
    let ?s2 = "s1\<lparr>blobs := (blobs s1)(b \<mapsto> take sz bytes), property_blob_list := property_blob_list s1 @ [b]\<rparr>"
    have only2: "only_blobs s ?s2" using only by (simp add: only_blobs_def)
    have "prop_ok A ok ?s2"
    proof (rule prop_ok_blobs [OF inv _ only2])
      show "ids_ok A ok ?s2" using get(5) by simp
      show "registered A ?s2 (OBJECT_BLOB, b') = (blobs ?s2 b' \<noteq> None)" for b'
        using i(3) [of b'] by (simp add: get(4) [OF ok]) (simp add: s1)
      show "distinct (property_blob_list ?s2)" "set (property_blob_list ?s2) = dom (blobs ?s2)"
        using h new [OF b(3)] by (auto simp: s1 heaps_ok_def)
    qed (simp add: get(4) [OF ok])
    moreover have "frame A s ?s2" using get(1) by (simp add: frame_def)
    moreover have "drm_property_create_blob A mem alloc sz data s = Inr (Some b, ?s2)"
      using b g ok len [OF b(1)] by (simp add: drm_property_create_blob_def)
    moreover have "blobs ?s2 = (blobs s)(b \<mapsto> take sz bytes)" "registered A ?s2 (OBJECT_BLOB, b)" by (simp_all add: get(4) [OF ok]) (simp add: s1)
    ultimately show ?thesis using only2 b by (intro exI [of _ "Some b"] exI [of _ ?s2]) simp
  qed
qed

lemma destroy_blob_ok:
  assumes laws: "avl_laws A ok" and inv: "prop_ok A ok s" and b: "blobs s b \<noteq> None"
  shows "\<exists>s'. drm_property_destroy_blob A True b s = Inr s' \<and> prop_ok A ok s' \<and> frame A s s' \<and> only_blobs s s' \<and>
    blobs s' = (blobs s)(b := None)"
proof -
  note i = prop_okD [OF inv]
  let ?s1 = "drm_mode_object_put A True (OBJECT_BLOB, b) s"
  let ?s2 = "?s1\<lparr>property_blob_list := remove1 b (property_blob_list ?s1), blobs := (blobs ?s1)(b := None)\<rparr>"
  have reg: "registered A s (OBJECT_BLOB, b)" using b i(3) by simp
  note put = put_frame [OF laws i(1) reg, simplified]
  have h: "heaps_ok A s" using inv by (simp add: prop_ok_def)
  have f: "blobs ?s1 = blobs s" "property_blob_list ?s1 = property_blob_list s" by (simp_all add: drm_mode_object_put_def)
  have only: "only_blobs s ?s2" by (simp add: only_blobs_def drm_mode_object_put_def)
  have "prop_ok A ok ?s2"
  proof (rule prop_ok_blobs [OF inv _ only])
    show "ids_ok A ok ?s2" using put(1) by simp
    show "registered A ?s2 (OBJECT_BLOB, b') = (blobs ?s2 b' \<noteq> None)" for b'
      using i(3) [of b'] by (simp add: put(3) f)
    show "distinct (property_blob_list ?s2)" "set (property_blob_list ?s2) = dom (blobs ?s2)"
      using h by (auto simp: f heaps_ok_def)
  qed (simp add: put(3))
  moreover have "frame A s ?s2" using put(2) by (simp add: frame_def)
  moreover have "drm_property_destroy_blob A True b s = Inr ?s2" using b by (auto simp: drm_property_destroy_blob_def Let_def)
  ultimately show ?thesis using only by (intro exI [of _ ?s2]) (simp add: f)
qed

lemma vals_ok_blobs: "vals_ok s \<Longrightarrow> only_blobs s s' \<Longrightarrow> vals_ok s'"
  by (rule vals_ok_props) (simp_all add: only_blobs_def)

lemma only_blobs_trans: "only_blobs s s' \<Longrightarrow> only_blobs s' s'' \<Longrightarrow> only_blobs s s''"
  by (simp add: only_blobs_def)

lemma edid_ptr_upd [simp]:
  "prop_ok A ok (s\<lparr>edid_blob_ptr := h\<rparr>) = prop_ok A ok s" "vals_ok (s\<lparr>edid_blob_ptr := h\<rparr>) = vals_ok s"
  by (simp_all add: prop_ok_def heaps_ok_def vals_ok_def)

lemma drop_edid_blob:
  assumes laws: "avl_laws A ok" and inv: "prop_ok A ok s" and v: "vals_ok s" and e: "edid_ok s"
  shows "\<exists>s'. (case edid_blob_ptr s c of None \<Rightarrow> Inr s | Some b \<Rightarrow> drm_property_destroy_blob A True b s) = Inr s' \<and>
    prop_ok A ok s' \<and> vals_ok s' \<and> frame A s s' \<and> only_blobs s s' \<and> edid_ok (s'\<lparr>edid_blob_ptr := (edid_blob_ptr s')(c := None)\<rparr>) \<and>
    (\<forall>b. blobs s b = None \<or> edid_blob_ptr s c = Some b \<longrightarrow> blobs s' b = None)"
proof (cases "edid_blob_ptr s c")
  case None
  have "edid_ok (s\<lparr>edid_blob_ptr := (edid_blob_ptr s)(c := None)\<rparr>)" using e by (simp add: edid_ok_def)
  then show ?thesis using None inv v by (simp add: only_blobs_def)
next
  case (Some b)
  have "blobs s b \<noteq> None" using e Some unfolding edid_ok_def by blast
  from destroy_blob_ok [OF laws inv this] obtain s' where
    s': "drm_property_destroy_blob A True b s = Inr s'" "prop_ok A ok s'" "frame A s s'" "only_blobs s s'" "blobs s' = (blobs s)(b := None)" by blast
  have "edid_ok (s'\<lparr>edid_blob_ptr := (edid_blob_ptr s')(c := None)\<rparr>)"
    using e s'(4) Some unfolding edid_ok_def only_blobs_def by (auto simp: s'(5))
  then show ?thesis using Some s' vals_ok_blobs [OF v s'(4)] by auto
qed

lemma edid_ok_new:
  assumes e: "edid_ok (s\<lparr>edid_blob_ptr := (edid_blob_ptr s)(c := None)\<rparr>)" and b: "blobs s b = None"
    and s': "blobs s' = (blobs s)(b \<mapsto> x)" "edid_blob_ptr s' = (edid_blob_ptr s)(c \<mapsto> b)"
  shows "edid_ok s'"
proof -
  let ?g = "(edid_blob_ptr s)(c := None)"
  have old: "blobs s b' \<noteq> None" "?g d' = Some b' \<Longrightarrow> d' = d" if "?g d = Some b'" for d d' b'
    using e that unfolding edid_ok_def by simp_all
  have other: "?g d = Some b'" "b' \<noteq> b" if "d \<noteq> c" "edid_blob_ptr s' d = Some b'" for d b'
    using that old(1) [of d b'] b by (auto simp: s')
  have c: "b' = b" if "edid_blob_ptr s' c = Some b'" for b' using that by (simp add: s')
  show ?thesis
    unfolding edid_ok_def
  proof (intro allI impI conjI)
    fix d b' assume d: "edid_blob_ptr s' d = Some b'"
    show "blobs s' b' \<noteq> None" using c [of b'] other [of d b'] old(1) [of d b'] d by (cases "d = c") (simp_all add: s'(1))
    fix d' assume d': "edid_blob_ptr s' d' = Some b'"
    show "d' = d" using d d' c other old(2) by metis
  qed
qed

lemma update_edid_ok:
  assumes laws: "avl_laws A ok" and inv: "prop_ok A ok s" and v: "vals_ok s" and e: "edid_ok s"
    and c: "obj_props s (OBJECT_CONNECTOR, c) \<noteq> None" and p: "slots s edid_property = Some p"
    and new: "\<And>b. mem = Some b \<Longrightarrow> blobs s b = None \<or> edid_blob_ptr s c = Some b"
    and len: "\<And>bytes. edid = Some bytes \<Longrightarrow> 126 < length bytes \<and> edid_size bytes \<le> length bytes"
  shows "\<exists>ret s'. drm_mode_connector_update_edid_property A mem alloc True c edid s = Inr (ret, s') \<and>
    prop_ok A ok s' \<and> vals_ok s' \<and> edid_ok s' \<and> frame A s s' \<and> slots s' = slots s \<and> properties s' = properties s \<and>
    (ret = Inr () \<longrightarrow> (case edid of
       None \<Rightarrow> edid_blob_ptr s' c = None \<and> drm_object_property_get_value (OBJECT_CONNECTOR, c) (Some p) s' = Inr (Inr 0)
     | Some bytes \<Rightarrow> \<exists>b. edid_blob_ptr s' c = Some b \<and> registered A s' (OBJECT_BLOB, b) \<and> blobs s' b = Some (take (edid_size bytes) bytes) \<and>
         drm_object_property_get_value (OBJECT_CONNECTOR, c) (Some p) s' = Inr (Inr (ucast (object_id s' (OBJECT_BLOB, b))))))"
proof -
  let ?r = "(OBJECT_CONNECTOR, c)"
  obtain ps where ps: "obj_props s ?r = Some ps" using c by blast
  obtain P where P: "properties s p = Some P" "PROP_IMMUTABLE \<in> prop_flags P" using vals_okD(2) [OF v p] by blast
  then have anyv: "valid_value P w" for w by (simp add: valid_value_def)
  from drop_edid_blob [OF laws inv v e, of c] obtain s1 where
    s1: "(case edid_blob_ptr s c of None \<Rightarrow> Inr s | Some b \<Rightarrow> drm_property_destroy_blob A True b s) = Inr s1"
      "prop_ok A ok s1" "vals_ok s1" "frame A s s1" "only_blobs s s1" "edid_ok (s1\<lparr>edid_blob_ptr := (edid_blob_ptr s1)(c := None)\<rparr>)"
      "\<And>b. blobs s b = None \<or> edid_blob_ptr s c = Some b \<Longrightarrow> blobs s1 b = None" by auto
  have set: "\<exists>ret s'. drm_object_property_set_value ?r (slots s2 edid_property) w s2 = Inr (ret, s') \<and> prop_ok A ok s' \<and> vals_ok s' \<and>
      frame A s2 s' \<and> (\<exists>h. s' = s2\<lparr>obj_props := h\<rparr>) \<and> (ret = Inr () \<longrightarrow> drm_object_property_get_value ?r (Some p) s' = Inr (Inr w))"
    if ok: "prop_ok A ok s2" "vals_ok s2" "obj_props s2 = obj_props s" "slots s2 = slots s" "properties s2 = properties s" for s2 w
  proof -
    have q: "obj_props s2 ?r = Some ps" "properties s2 p = Some P" using ok ps P by simp_all
    show ?thesis using set_get_ok [OF ok(1,2) q anyv] ok(4) p by simp
  qed
  show ?thesis
  proof (cases edid)
    case None
    let ?s2 = "s1\<lparr>edid_blob_ptr := (edid_blob_ptr s1)(c := None)\<rparr>"
    have "prop_ok A ok ?s2" "vals_ok ?s2" "obj_props ?s2 = obj_props s" "slots ?s2 = slots s" "properties ?s2 = properties s"
      using s1 by (simp_all add: only_blobs_def)
    from set [OF this, of 0] obtain ret s' h where s': "drm_object_property_set_value ?r (slots ?s2 edid_property) 0 ?s2 = Inr (ret, s')"
      "prop_ok A ok s'" "vals_ok s'" "frame A ?s2 s'" "s' = ?s2\<lparr>obj_props := h\<rparr>"
      "ret = Inr () \<longrightarrow> drm_object_property_get_value ?r (Some p) s' = Inr (Inr 0)" by blast
    have "edid_ok s'" using s1(6) by (simp add: s'(5) edid_ok_def)
    moreover have "frame A s s'" using frame_trans [OF frame_trans [OF s1(4) frame_upd(4)] s'(4)] .
    moreover have "edid_blob_ptr s' c = None" by (simp add: s'(5))
    moreover have "slots s' = slots s" "properties s' = properties s" using s1(5) by (simp_all add: s'(5) only_blobs_def)
    moreover have "drm_mode_connector_update_edid_property A mem alloc True c edid s = Inr (ret, s')"
      using s1(1) s'(1) None unfolding drm_mode_connector_update_edid_property_def by simp
    ultimately show ?thesis using s'(2,3,6) None by auto
  next
    case (Some bytes)
    have long: "126 < length bytes" "edid_size bytes \<le> length bytes" using len [OF Some] by simp_all
    have fresh: "\<And>b. mem = Some b \<Longrightarrow> blobs s1 b = None" using new s1(7) by blast
    have sz: "\<And>x. edid = Some x \<Longrightarrow> edid_size bytes \<le> length x" using long Some by simp
    from create_blob_ok [OF laws s1(2), of mem edid "edid_size bytes" alloc, OF fresh sz] obtain q s2 where
      s2: "drm_property_create_blob A mem alloc (edid_size bytes) edid s1 = Inr (q, s2)" "prop_ok A ok s2" "frame A s1 s2" "only_blobs s1 s2"
        "case q of None \<Rightarrow> blobs s2 = blobs s1 \<and> registered A s2 = registered A s1
         | Some b \<Rightarrow> mem = Some b \<and> (\<exists>x. edid = Some x \<and> blobs s2 = (blobs s1)(b \<mapsto> take (edid_size bytes) x)) \<and> registered A s2 (OBJECT_BLOB, b)"
      by blast
    have v2: "vals_ok s2" by (rule vals_ok_blobs [OF s1(3) s2(4)])
    have fr2: "frame A s s2" by (rule frame_trans [OF s1(4) s2(3)])
    have o2: "obj_props s2 = obj_props s" "slots s2 = slots s" "properties s2 = properties s" "edid_blob_ptr s2 = edid_blob_ptr s1"
      using s1(5) s2(4) by (simp_all add: only_blobs_def)
    note run = drm_mode_connector_update_edid_property_def [of A mem alloc True c edid s, unfolded s1(1) Some, simplified]
    show ?thesis
    proof (cases q)
      case None
      let ?s3 = "s2\<lparr>edid_blob_ptr := (edid_blob_ptr s2)(c := None)\<rparr>"
      have "edid_ok ?s3" using s1(6) s2(5) None o2(4) by (simp add: edid_ok_def)
      moreover have "frame A s ?s3" using frame_trans [OF fr2 frame_upd(4)] .
      moreover have "drm_mode_connector_update_edid_property A mem alloc True c edid s = Inr (Inl EINVAL, ?s3)"
        using s2(1) long None Some by (simp add: run)
      ultimately show ?thesis using s2(2) v2 o2 by (intro exI [of _ "Inl EINVAL"] exI [of _ ?s3]) simp
    next
      case b: (Some b)
      let ?s3 = "s2\<lparr>edid_blob_ptr := (edid_blob_ptr s2)(c \<mapsto> b)\<rparr>"
      have bl: "blobs s2 = (blobs s1)(b \<mapsto> take (edid_size bytes) bytes)" "registered A s2 (OBJECT_BLOB, b)" "mem = Some b" using s2(5) b Some by auto
      have "prop_ok A ok ?s3" "vals_ok ?s3" "obj_props ?s3 = obj_props s" "slots ?s3 = slots s" "properties ?s3 = properties s"
        using s2(2) v2 o2 by simp_all
      from set [OF this, of "ucast (object_id s2 (OBJECT_BLOB, b))"] obtain ret s' h where
        s': "drm_object_property_set_value ?r (slots ?s3 edid_property) (ucast (object_id s2 (OBJECT_BLOB, b))) ?s3 = Inr (ret, s')"
        "prop_ok A ok s'" "vals_ok s'" "frame A ?s3 s'" "s' = ?s3\<lparr>obj_props := h\<rparr>"
        "ret = Inr () \<longrightarrow> drm_object_property_get_value ?r (Some p) s' = Inr (Inr (ucast (object_id s2 (OBJECT_BLOB, b))))" by blast
      have "edid_ok s'"
        by (rule edid_ok_new [OF s1(6) fresh [OF bl(3)]]) (simp_all add: s'(5) bl(1) o2(4))
      moreover have "frame A s s'" using frame_trans [OF frame_trans [OF fr2 frame_upd(4)] s'(4)] .
      moreover have "edid_blob_ptr s' c = Some b" "blobs s' b = Some (take (edid_size bytes) bytes)" "object_id s' = object_id s2"
        "registered A s' (OBJECT_BLOB, b)" "slots s' = slots s" "properties s' = properties s" using bl o2 by (simp_all add: s'(5))
      moreover have "drm_mode_connector_update_edid_property A mem alloc True c edid s = Inr (ret, s')"
        using s2(1) s'(1) b long Some by (simp add: run)
      ultimately show ?thesis using s'(2,3,6) Some by auto
    qed
  qed
qed

end
