(* ===== verification/Drm_Property_Props.thy ===== *)
theory Drm_Property_Props
  imports Drm_Property_Inv
begin

text \<open>
  Runs of the property interface, and its properties: which values a property accepts, what the ioctls change,
  and that the values on objects stay valid whatever user space does.
\<close>

subsection \<open>Steps\<close>

text \<open>
  What the property functions do to a device. A driver extends or destroys only properties that are
  not in use, attaches properties with valid values, and fills \<open>edid_property\<close> with an immutable property. The
  memory that an allocator returns is not in use, and \<open>idr_remove\<close> gets its memory.
\<close>

inductive prop_step :: "(mode_ref ptr, 't) avl_ops \<Rightarrow> ('t, 'z) props_config_scheme \<Rightarrow> ('t, 'z) props_config_scheme \<Rightarrow> bool" for A where
  create: "drm_property_create A len mem flags nm n s = (q, s') \<Longrightarrow> (\<And>p. new_prop mem = Some p \<Longrightarrow> properties s p = None) \<Longrightarrow>
    (PROP_RANGE \<in> flags \<Longrightarrow> 2 \<le> n) \<Longrightarrow> prop_step A s s'"
| create_enum: "drm_property_create_enum A len mem True flags nm props s = Inr (q, s') \<Longrightarrow>
    (\<And>p. new_prop mem = Some p \<Longrightarrow> properties s p = None) \<Longrightarrow> PROP_RANGE \<notin> flags \<Longrightarrow> prop_step A s s'"
| create_bitmask: "drm_property_create_bitmask A len mem True flags nm props s = Inr (q, s') \<Longrightarrow>
    (\<And>p. new_prop mem = Some p \<Longrightarrow> properties s p = None) \<Longrightarrow> PROP_RANGE \<notin> flags \<Longrightarrow> prop_step A s s'"
| create_range: "drm_property_create_range A len mem flags nm mn mx s = (q, s') \<Longrightarrow>
    (\<And>p. new_prop mem = Some p \<Longrightarrow> properties s p = None) \<Longrightarrow> prop_step A s s'"
| add_enum: "drm_property_add_enum len kz p index v nm s = Inr (ret, s') \<Longrightarrow> unattached p s \<Longrightarrow>
    properties s p = Some P \<Longrightarrow> index < length (prop_values P) \<Longrightarrow> prop_step A s s'"
| destroy: "drm_property_destroy A True p s = Inr s' \<Longrightarrow> unattached p s \<Longrightarrow> (\<And>sl. slots s sl \<noteq> Some p) \<Longrightarrow> prop_step A s s'"
| object: "obj_props s r = None \<Longrightarrow> prop_step A s (s\<lparr>obj_props := (obj_props s)(r \<mapsto> [])\<rparr>)"
| slot: "(\<And>p. q = Some p \<Longrightarrow> properties s p \<noteq> None) \<Longrightarrow>
    (\<And>p P. sl = edid_property \<Longrightarrow> q = Some p \<Longrightarrow> properties s p = Some P \<Longrightarrow> PROP_IMMUTABLE \<in> prop_flags P) \<Longrightarrow> prop_step A s (set_slot sl q s)"
| attach: "drm_object_attach_property r (Some p) v s = Inr s' \<Longrightarrow> properties s p = Some P \<Longrightarrow> valid_value P v \<Longrightarrow> prop_step A s s'"
| set_property: "drm_mode_obj_set_property_ioctl A modeset hook arg s = Inr (ret, s') \<Longrightarrow> prop_step A s s'"
| update_edid: "drm_mode_connector_update_edid_property A mem alloc True c edid s = Inr (ret, s') \<Longrightarrow>
    (\<And>b. mem = Some b \<Longrightarrow> blobs s b = None \<or> edid_blob_ptr s c = Some b) \<Longrightarrow>
    (\<And>bytes. edid = Some bytes \<Longrightarrow> 126 < length bytes \<and> edid_size bytes \<le> length bytes) \<Longrightarrow>
    obj_props s (OBJECT_CONNECTOR, c) \<noteq> None \<Longrightarrow> slots s edid_property \<noteq> None \<Longrightarrow> prop_step A s s'"

definition prop_inv :: "(mode_ref ptr, 't) avl_ops \<Rightarrow> ('t \<Rightarrow> bool) \<Rightarrow> ('t, 'z) props_config_scheme \<Rightarrow> bool" where
  "prop_inv A ok s \<longleftrightarrow> prop_ok A ok s \<and> vals_ok s \<and> edid_ok s \<and> (\<forall>sl p. slots s sl = Some p \<longrightarrow> properties s p \<noteq> None)"

text \<open>A new property is not attached to anything.\<close>

lemma unattached_new:
  assumes inv: "prop_ok A ok s" and v: "vals_ok s" and p: "properties s p = None"
  shows "slots s edid_property \<noteq> Some p"
  using vals_okD(2) [OF v, of p] p by auto

lemma prop_inv_new:
  assumes inv: "prop_inv A ok s" and "prop_ok A ok s'" "only_props s s'"
    and ids: "\<forall>r. r \<notin> Pair OBJECT_PROPERTY ` set_option m \<longrightarrow> object_id s' r = object_id s r"
    and new: "\<And>p. m = Some p \<Longrightarrow> properties s p = None"
    and ps: "properties s' = properties s \<or> (\<exists>p P. m = Some p \<and> properties s' = (properties s)(p \<mapsto> P))"
  shows "prop_inv A ok s'"
proof -
  have i: "prop_ok A ok s" "vals_ok s" "edid_ok s" "\<forall>sl p. slots s sl = Some p \<longrightarrow> properties s p \<noteq> None"
    using inv by (simp_all add: prop_inv_def)
  have keep: "properties s' p = Some P" if "properties s p = Some P" for p P using that ps new by force
  have "vals_ok s'"
  proof (rule vals_ok_props [OF i(2)])
    show "properties s' p = Some P \<and> object_id s' (OBJECT_PROPERTY, p) = object_id s (OBJECT_PROPERTY, p)" if "properties s p = Some P" for p P
      using keep [OF that] new ids that by force
  qed (use assms(3) in \<open>simp_all add: only_props_def\<close>)
  moreover have "\<forall>sl p. slots s' sl = Some p \<longrightarrow> properties s' p \<noteq> None" using i(4) keep assms(3) unfolding only_props_def by force
  moreover have "edid_ok s'" using i(3) assms(3) by (simp add: edid_ok_def only_props_def)
  ultimately show ?thesis using assms(2) by (simp add: prop_inv_def)
qed

lemma prop_inv_objs:
  assumes "prop_inv A ok s" "prop_ok A ok s'" "vals_ok s'" "s' = s\<lparr>obj_props := h\<rparr>"
  shows "prop_inv A ok s'"
  using assms by (simp add: prop_inv_def edid_ok_def)

lemma listed_new:
  assumes "avl_laws A ok" "prop_ok A ok s" "\<And>p. new_prop mem = Some p \<Longrightarrow> properties s p = None" "PROP_RANGE \<notin> flags"
  shows "\<exists>q s'. create_listed A len mem True flags nm props s = Inr (q, s') \<and> prop_ok A ok s' \<and> frame A s s' \<and> only_props s s' \<and>
    (\<forall>r. r \<notin> Pair OBJECT_PROPERTY ` set_option (new_prop mem) \<longrightarrow> object_id s' r = object_id s r) \<and>
    (q = None \<and> properties s' = properties s \<or> (\<exists>p P. q = Some p \<and> new_prop mem = Some p \<and> properties s' = (properties s)(p \<mapsto> P)))"
proof -
  define new where "new q s' \<longleftrightarrow> (q = None \<and> properties s' = properties s \<or>
      (\<exists>p P. q = Some p \<and> new_prop mem = Some p \<and> properties s' = (properties s)(p \<mapsto> P)))" for q and s' :: "('a, 'b) props_config_scheme"
  have "new q s'" if "case q of
       None \<Rightarrow> properties s' = properties s \<and> property_list s' = property_list s \<and> registered A s' = registered A s
     | Some p \<Rightarrow> new_prop mem = Some p \<and> property_list s' = property_list s @ [p] \<and> registered A s' = (registered A s)((OBJECT_PROPERTY, p) := True) \<and>
         (\<exists>P s1. properties s' = (properties s)(p \<mapsto> P) \<and> same_kind (blank_property len flags nm (length props)) P \<and>
           properties s1 = (properties s)(p \<mapsto> blank_property len flags nm (length props)) \<and>
           add_enums len (enum_mem mem) p 0 props s1 = Inr (Inr (), s'))" for q and s' :: "('a, 'b) props_config_scheme"
    using that by (cases q) (simp_all add: new_def, blast)
  with listed_ok [where mem = mem and len = len and nm = nm and props = props, OF assms] show ?thesis unfolding new_def [symmetric] by blast
qed

lemma listed_inv:
  assumes laws: "avl_laws A ok" and inv: "prop_inv A ok s" and new: "\<And>p. new_prop mem = Some p \<Longrightarrow> properties s p = None"
    and flags: "PROP_RANGE \<notin> flags" and run: "create_listed A len mem True flags nm props s = Inr (q, s')"
  shows "prop_inv A ok s' \<and> frame A s s'"
proof -
  have i: "prop_ok A ok s" using inv by (simp add: prop_inv_def)
  from listed_new [where mem = mem and len = len and nm = nm and props = props, OF laws i new flags] obtain q1 s1 where
    c: "create_listed A len mem True flags nm props s = Inr (q1, s1)" "prop_ok A ok s1" "frame A s s1" "only_props s s1"
      "\<forall>r. r \<notin> Pair OBJECT_PROPERTY ` set_option (new_prop mem) \<longrightarrow> object_id s1 r = object_id s r"
      "q1 = None \<and> properties s1 = properties s \<or> (\<exists>p P. q1 = Some p \<and> new_prop mem = Some p \<and> properties s1 = (properties s)(p \<mapsto> P))"
    by blast
  have "s1 = s'" using c(1) run by simp
  then show ?thesis using prop_inv_new [OF inv c(2,4,5) new] c(3,6) by blast
qed

lemma prop_step_ok:
  assumes laws: "avl_laws A ok" and "prop_step A s s'" and inv: "prop_inv A ok s"
  shows "prop_inv A ok s' \<and> frame A s s'"
proof -
  have i: "prop_ok A ok s" "vals_ok s" "edid_ok s" "\<And>sl p. slots s sl = Some p \<Longrightarrow> properties s p \<noteq> None"
    using inv by (simp_all add: prop_inv_def)
  show ?thesis using assms(2)
  proof cases
    case (create len mem flags nm n q)
    note c = create_ok [OF laws i(1) create(2,3) create(1)]
    then have "properties s' = properties s \<or> (\<exists>p P. new_prop mem = Some p \<and> properties s' = (properties s)(p \<mapsto> P))"
      by (auto split: option.splits)
    then show ?thesis using c prop_inv_new [OF inv _ _ _ create(2)] by blast
  next
    case (create_enum len mem flags nm props q)
    have "PROP_RANGE \<notin> insert PROP_ENUM flags" using create_enum(3) by simp
    from listed_inv [OF laws inv create_enum(2) this] create_enum(1) show ?thesis by (simp add: drm_property_create_enum_def)
  next
    case (create_bitmask len mem flags nm props q)
    have "PROP_RANGE \<notin> insert PROP_BITMASK flags" using create_bitmask(3) by simp
    from listed_inv [OF laws inv create_bitmask(2) this] create_bitmask(1) show ?thesis by (simp add: drm_property_create_bitmask_def)
  next
    case (create_range len mem flags nm mn mx q)
    note c = range_ok [OF laws i(1) create_range(2,1)]
    then have "properties s' = properties s \<or> (\<exists>p P. new_prop mem = Some p \<and> properties s' = (properties s)(p \<mapsto> P))"
      by (auto split: option.splits)
    then show ?thesis using c prop_inv_new [OF inv _ _ _ create_range(2)] by blast
  next
    case (object r)
    have "vals_ok s'" using i(2) unfolding object(1) vals_ok_def by (auto split: if_splits)
    moreover have "prop_ok A ok s'" unfolding object(1) using prop_okD(5) [OF i(1)] by (intro prop_ok_objs [OF i(1)]) (auto split: if_splits)
    ultimately show ?thesis using prop_inv_objs [OF inv _ _ object(1)] frame_upd(3) object(1) by blast
  next
    case (set_property modeset hook arg ret)
    from set_ioctl_ok [OF i(1,2), of modeset hook arg] set_property(1)
    show ?thesis using prop_inv_objs [OF inv] by auto
  next
    case (add_enum len kz p index v nm ret P)
    from add_enum_ok [OF add_enum(3,4), of len kz v nm] add_enum(1) obtain P' where
      s': "s' = s\<lparr>properties := (properties s)(p \<mapsto> P')\<rparr>" "same_kind P P'" by auto
    have "prop_wf P'" using s'(2) prop_okD(4) [OF i(1) add_enum(3)] by (simp add: same_kind_def)
    then have "prop_ok A ok s'" unfolding s' using add_enum(3) by (intro heap_upd_ok [OF i(1)]) simp_all
    moreover have "vals_ok s'" by (rule vals_ok_props [OF i(2)]) (use add_enum(2) in \<open>auto simp: s'(1)\<close>)
    moreover have "edid_ok s'" "\<forall>sl p. slots s' sl = Some p \<longrightarrow> properties s' p \<noteq> None" using i(3,4) by (auto simp: s'(1) edid_ok_def)
    ultimately show ?thesis using frame_upd(1) s'(1) by (simp add: prop_inv_def)
  next
    case (destroy p)
    then have "properties s p \<noteq> None" by (auto simp: drm_property_destroy_def split: option.splits)
    from destroy_ok [OF laws i(1) this] destroy(1) have d: "prop_ok A ok s'" "frame A s s'" "properties s' = (properties s)(p := None)"
      "only_props s s'" "object_id s' = object_id s" by auto
    have "vals_ok s'" by (rule vals_ok_props [OF i(2)]) (use d(3-5) destroy(2) in \<open>auto simp: only_props_def\<close>)
    moreover have "edid_ok s'" "\<forall>sl p. slots s' sl = Some p \<longrightarrow> properties s' p \<noteq> None"
      using i(3,4) d(3,4) destroy(3) by (auto simp: edid_ok_def only_props_def)
    ultimately show ?thesis using d(1,2) by (simp add: prop_inv_def)
  next
    case (slot q sl)
    have "prop_ok A ok s'" using i(1) unfolding slot(1) prop_ok_def heaps_ok_def by (simp add: set_slot_def)
    moreover have "vals_ok s'"
    proof (rule vals_okI)
      show "\<exists>p P. properties s' p = Some P \<and> object_id s' (OBJECT_PROPERTY, p) = j \<and> valid_value P v"
        if "obj_props s' r = Some ps" "(j, v) \<in> set ps" for r ps j v
        using that vals_okD(1) [OF i(2), of r ps j v] by (simp add: slot(1) set_slot_def)
      show "\<exists>P. properties s' p = Some P \<and> PROP_IMMUTABLE \<in> prop_flags P" if "slots s' edid_property = Some p" for p
        using that slot(2,3) [of p] vals_okD(2) [OF i(2), of p] by (cases "sl = edid_property") (auto simp: slot(1) set_slot_def)
    qed
    moreover have "edid_ok s'" using i(3) by (simp add: slot(1) set_slot_def edid_ok_def)
    moreover have "\<forall>sl p. slots s' sl = Some p \<longrightarrow> properties s' p \<noteq> None" using i(4) slot(2) by (auto simp: slot(1) set_slot_def)
    moreover have "frame A s s'" unfolding slot(1) set_slot_def by (rule frame_upd)
    ultimately show ?thesis by (simp add: prop_inv_def)
  next
    case (attach r p v P)
    then obtain ps where ps: "obj_props s r = Some ps" by (auto simp: drm_object_attach_property_def split: option.splits)
    from attach_ok [OF i(1,2) ps attach(2,3)] attach(1) have a: "prop_ok A ok s'" "vals_ok s'" "frame A s s'" by auto
    have "\<exists>h. s' = s\<lparr>obj_props := h\<rparr>"
      using attach(1) ps obj_same [of s] by (auto simp: drm_object_attach_property_def split: if_splits sum.splits)
    then show ?thesis using prop_inv_objs [OF inv] a by auto
  next
    case (update_edid mem alloc c edid ret)
    obtain p where "slots s edid_property = Some p" using update_edid(5) by blast
    from update_edid_ok [where mem = mem and alloc = alloc and edid = edid, OF laws i(1-3) update_edid(4) this update_edid(2,3)] update_edid(1) i(4)
    show ?thesis by (auto simp: prop_inv_def)
  qed
qed

subsection \<open>Runs\<close>

text \<open>
  A device starts without properties, and its other parts, which get and give back ids of other objects and change
  their own state, leave the properties alone.
\<close>

definition props_same :: "(mode_ref ptr, 't) avl_ops \<Rightarrow> ('t, 'z) props_config_scheme \<Rightarrow> ('t, 'z) props_config_scheme \<Rightarrow> bool" where
  "props_same A s s' \<longleftrightarrow> properties s' = properties s \<and> property_list s' = property_list s \<and> blobs s' = blobs s \<and>
     property_blob_list s' = property_blob_list s \<and> slots s' = slots s \<and> obj_props s' = obj_props s \<and> edid_blob_ptr s' = edid_blob_ptr s \<and>
     (\<forall>q. registered A s' (OBJECT_PROPERTY, q) = registered A s (OBJECT_PROPERTY, q) \<and> registered A s' (OBJECT_BLOB, q) = registered A s (OBJECT_BLOB, q)) \<and>
     (\<forall>q. object_id s' (OBJECT_PROPERTY, q) = object_id s (OBJECT_PROPERTY, q))"

inductive prop_reach :: "(mode_ref ptr, 't) avl_ops \<Rightarrow> ('t \<Rightarrow> bool) \<Rightarrow> ('t, 'z) props_config_scheme \<Rightarrow> bool" for A ok where
  start: "crtc_idr s = idr_init A \<Longrightarrow> (\<And>p. properties s p = None) \<Longrightarrow> (\<And>b. blobs s b = None) \<Longrightarrow> property_list s = [] \<Longrightarrow>
    property_blob_list s = [] \<Longrightarrow> (\<And>sl. slots s sl = None) \<Longrightarrow> (\<And>r. obj_props s r = None) \<Longrightarrow> (\<And>c. edid_blob_ptr s c = None) \<Longrightarrow> prop_reach A ok s"
| step: "prop_reach A ok s \<Longrightarrow> prop_step A s s' \<Longrightarrow> prop_reach A ok s'"
| other: "prop_reach A ok s \<Longrightarrow> ids_ok A ok s' \<Longrightarrow> props_same A s s' \<Longrightarrow> prop_reach A ok s'"

lemma prop_reach_inv:
  assumes laws: "avl_laws A ok" and "prop_reach A ok s"
  shows "prop_inv A ok s"
  using assms(2)
proof induction
  case (start s)
  note i = idr_init_inv [OF laws]
  have none: "idr_find A (crtc_idr s) j = None" for j using i by (auto simp: start(1) idr_find_eq split: option.split)
  then have reg: "\<not> registered A s r" for r by (simp add: registered_def)
  have "ids_ok A ok s" using i none by (intro ids_okI) (simp_all add: start(1))
  moreover have "dom (properties s) = {}" "dom (blobs s) = {}" using start(2,3) by auto
  ultimately show ?case using start(2-8) reg by (simp add: prop_inv_def prop_ok_def heaps_ok_def vals_ok_def edid_ok_def)
next
  case (step s s')
  then show ?case using prop_step_ok [OF laws] by blast
next
  case (other s s')
  then show ?case unfolding prop_inv_def prop_ok_def heaps_ok_def vals_ok_def edid_ok_def props_same_def by simp
qed

subsection \<open>Properties\<close>



subsection \<open>What properties accept\<close>

lemma add_enum_new:
  assumes "properties s p = Some P" "prop_flags P \<inter> {PROP_ENUM, PROP_BITMASK} \<noteq> {}" "v \<notin> fst ` set (enum_blob_list P)" "i < length (prop_values P)"
    "drm_property_add_enum len kz p i v nm s = Inr (Inr (), s')"
  shows "s' = s\<lparr>properties := (properties s)(p \<mapsto> P\<lparr>prop_values := (prop_values P)[i := v], enum_blob_list := enum_blob_list P @ [(v, copy_name len nm)]\<rparr>)\<rparr>"
    "PROP_BITMASK \<in> prop_flags P \<Longrightarrow> v < 64"
  using assms by (auto simp: drm_property_add_enum_def simp flip: u64_63 split: if_splits)

lemma add_enums_run:
  "properties s p = Some P \<Longrightarrow> prop_flags P \<inter> {PROP_ENUM, PROP_BITMASK} \<noteq> {} \<Longrightarrow> i + length props \<le> length (prop_values P) \<Longrightarrow>
   distinct (map (\<lambda>e. word_of_int (fst e) :: u64) props) \<Longrightarrow> (\<forall>e \<in> set props. word_of_int (fst e) \<notin> fst ` set (enum_blob_list P)) \<Longrightarrow>
   add_enums len kz p i props s = Inr (Inr (), s') \<Longrightarrow>
   \<exists>P'. properties s' p = Some P' \<and> prop_flags P' = prop_flags P \<and>
     prop_values P' = take i (prop_values P) @ map (\<lambda>e. word_of_int (fst e)) props @ drop (i + length props) (prop_values P) \<and>
     enum_blob_list P' = enum_blob_list P @ map (\<lambda>e. (word_of_int (fst e), copy_name len (snd e))) props \<and>
     (PROP_BITMASK \<in> prop_flags P \<longrightarrow> (\<forall>e \<in> set props. (word_of_int (fst e) :: u64) < 64))"
proof (induction props arbitrary: i s P)
  case Nil
  then show ?case by simp
next
  case (Cons e props)
  obtain ty nm where e: "e = (ty, nm)" by force
  let ?v = "word_of_int ty :: u64"
  have i: "i < length (prop_values P)" "?v \<notin> fst ` set (enum_blob_list P)" using Cons.prems(3,5) by (simp_all add: e)
  obtain s1 where s1: "drm_property_add_enum len (kz i) p i ?v nm s = Inr (Inr (), s1)" "add_enums len kz p (i + 1) props s1 = Inr (Inr (), s')"
    using Cons.prems(6) by (auto simp: e split: sum.splits prod.splits)
  note one = add_enum_new [OF Cons.prems(1,2) i(2,1) s1(1)]
  let ?P = "P\<lparr>prop_values := (prop_values P)[i := ?v], enum_blob_list := enum_blob_list P @ [(?v, copy_name len nm)]\<rparr>"
  have p1: "properties s1 p = Some ?P" by (simp add: one(1))
  have fresh: "\<forall>d \<in> set props. word_of_int (fst d) \<notin> fst ` set (enum_blob_list ?P)" using Cons.prems(4,5) by (fastforce simp: e image_iff)
  have pre: "prop_flags ?P \<inter> {PROP_ENUM, PROP_BITMASK} \<noteq> {}" "i + 1 + length props \<le> length (prop_values ?P)"
    "distinct (map (\<lambda>e. word_of_int (fst e) :: u64) props)" using Cons.prems(2-4) by simp_all
  have "take (i + 1) ((prop_values P)[i := ?v]) = take i (prop_values P) @ [?v]" using i(1) by (simp add: take_Suc_conv_app_nth)
  moreover have "drop (i + 1 + length props) ((prop_values P)[i := ?v]) = drop (i + length (e # props)) (prop_values P)" by simp
  ultimately show ?case using Cons.IH [OF p1 pre fresh s1(2)] one(2) by (auto simp: e)
qed

lemma bit_valid_mask:
  "\<forall>w \<in> set ws. w < (64 :: u64) \<Longrightarrow> bit (fold (\<lambda>w m. m OR push_bit (unat w) 1) ws (m :: u64)) n \<longleftrightarrow> bit m n \<or> of_nat n \<in> set ws \<and> n < 64"
proof (induction ws arbitrary: m)
  case (Cons w ws)
  have "unat w < 64" using Cons.prems by (simp add: word_less_nat_alt)
  then have "bit (push_bit (unat w) (1 :: u64)) n \<longleftrightarrow> unat w = n" by (auto simp: bit_simps)
  moreover have "unat w = n \<longleftrightarrow> of_nat n = w \<and> n < 64" using \<open>unat w < 64\<close> by (auto simp: unat_of_nat)
  ultimately show ?case using Cons by (auto simp: bit_or_iff)
qed simp

lemma mask_zero_iff:
  assumes "\<forall>w \<in> set ws. w < (64 :: u64)"
  shows "(v :: u64) AND NOT (fold (\<lambda>w m. m OR push_bit (unat w) 1) ws 0) = 0 \<longleftrightarrow> (\<forall>n. bit v n \<longrightarrow> (of_nat n :: u64) \<in> set ws)"
proof -
  have "v AND NOT m = 0 \<longleftrightarrow> (\<forall>n. bit v n \<longrightarrow> bit m n)" for m :: u64
    using bit_imp_le_length [of v] by (auto simp: bit_eq_iff bit_simps)
  then show ?thesis using bit_valid_mask [OF assms, of 0] bit_imp_le_length [of v] by auto
qed

lemma listed_values:
  assumes laws: "avl_laws A ok" and inv: "prop_inv A ok s" and new: "\<And>p. new_prop mem = Some p \<Longrightarrow> properties s p = None"
    and flags: "flags \<subseteq> {PROP_IMMUTABLE, PROP_PENDING}" and "distinct (map (\<lambda>e. word_of_int (fst e) :: u64) props)"
    and k: "k \<in> {PROP_ENUM, PROP_BITMASK}"
  shows "\<exists>q s'. create_listed A len mem True (insert k flags) nm props s = Inr (q, s') \<and> prop_inv A ok s' \<and>
    (case q of
       None \<Rightarrow> properties s' = properties s \<and> registered A s' = registered A s
     | Some p \<Rightarrow> \<exists>P. properties s' = (properties s)(p \<mapsto> P) \<and> prop_flags P = insert k flags \<and> prop_values P = map (\<lambda>e. word_of_int (fst e)) props \<and>
         enum_blob_list P = map (\<lambda>e. (word_of_int (fst e), copy_name len (snd e))) props \<and>
         (k = PROP_BITMASK \<longrightarrow> (\<forall>e \<in> set props. (word_of_int (fst e) :: u64) < 64)))"
proof -
  have i: "prop_ok A ok s" using inv by (simp add: prop_inv_def)
  have nr: "PROP_RANGE \<notin> insert k flags" using flags k by auto
  from listed_ok [where mem = mem and len = len and nm = nm and props = props, OF laws i new nr] obtain q s' where
    c: "create_listed A len mem True (insert k flags) nm props s = Inr (q, s')" "prop_ok A ok s'" "frame A s s'" "only_props s s'"
      "\<forall>r. r \<notin> Pair OBJECT_PROPERTY ` set_option (new_prop mem) \<longrightarrow> object_id s' r = object_id s r"
    and q: "case q of None \<Rightarrow> properties s' = properties s \<and> property_list s' = property_list s \<and> registered A s' = registered A s
       | Some p \<Rightarrow> new_prop mem = Some p \<and> property_list s' = property_list s @ [p] \<and> registered A s' = (registered A s)((OBJECT_PROPERTY, p) := True) \<and>
           (\<exists>P s1. properties s' = (properties s)(p \<mapsto> P) \<and> same_kind (blank_property len (insert k flags) nm (length props)) P \<and>
             properties s1 = (properties s)(p \<mapsto> blank_property len (insert k flags) nm (length props)) \<and>
             add_enums len (enum_mem mem) p 0 props s1 = Inr (Inr (), s'))" by blast
  have "properties s' = properties s \<or> (\<exists>p P. new_prop mem = Some p \<and> properties s' = (properties s)(p \<mapsto> P))"
    using q by (auto split: option.splits)
  then have inv': "prop_inv A ok s'" using prop_inv_new [OF inv c(2,4,5) new] by blast
  show ?thesis
  proof (cases q)
    case None
    then show ?thesis using c(1) q inv' by auto
  next
    case (Some p)
    let ?B = "blank_property len (insert k flags) nm (length props)"
    from q Some obtain P s1 where P: "properties s' = (properties s)(p \<mapsto> P)" "properties s1 = (properties s)(p \<mapsto> ?B)"
      "add_enums len (enum_mem mem) p 0 props s1 = Inr (Inr (), s')" by auto
    have b: "properties s1 p = Some ?B" "prop_flags ?B \<inter> {PROP_ENUM, PROP_BITMASK} \<noteq> {}" "0 + length props \<le> length (prop_values ?B)"
      "\<forall>e \<in> set props. word_of_int (fst e) \<notin> fst ` set (enum_blob_list ?B)" using k by (auto simp: P(2) blank_property_def)
    from add_enums_run [OF b(1-3) assms(5) b(4) P(3)] P(1)
    have "prop_flags P = insert k flags" "prop_values P = map (\<lambda>e. word_of_int (fst e)) props"
      "enum_blob_list P = map (\<lambda>e. (word_of_int (fst e), copy_name len (snd e))) props"
      "k = PROP_BITMASK \<longrightarrow> (\<forall>e \<in> set props. (word_of_int (fst e) :: u64) < 64)"
      by (auto simp: blank_property_def)
    then show ?thesis using c(1) inv' Some P(1) by auto
  qed
qed

text \<open>
  Claim C38. Properties accept what they list. A property made from a list of different values accepts exactly these values,
  one made as a set of bits exactly the sets of bits in the list, and none if it is immutable; user space reads
  the same list of names. If it cannot be made, in particular if a bit above 63 is in the list, everything is as
  before.
\<close>

theorem drm_property_create_listed_correct:
  assumes laws: "avl_laws A ok" and inv: "prop_inv A ok s" and new: "\<And>p. new_prop mem = Some p \<Longrightarrow> properties s p = None"
    and flags: "flags \<subseteq> {PROP_IMMUTABLE, PROP_PENDING}" and "distinct (map (\<lambda>e. word_of_int (fst e) :: u64) props)"
  shows "\<exists>q s' r t. drm_property_create_enum A len mem True flags nm props s = Inr (q, s') \<and>
      drm_property_create_bitmask A len mem True flags nm props s = Inr (r, t) \<and> prop_inv A ok s' \<and> prop_inv A ok t \<and>
      (case q of
         None \<Rightarrow> properties s' = properties s \<and> registered A s' = registered A s
       | Some p \<Rightarrow> \<exists>P. properties s' = (properties s)(p \<mapsto> P) \<and>
           enum_blob_list P = map (\<lambda>e. (word_of_int (fst e), copy_name len (snd e))) props \<and>
           (\<forall>v. drm_property_change_is_valid P v = Inr (PROP_IMMUTABLE \<notin> flags \<and> v \<in> word_of_int ` fst ` set props))) \<and>
      (case r of
         None \<Rightarrow> properties t = properties s \<and> registered A t = registered A s
       | Some p \<Rightarrow> (\<forall>e \<in> set props. (word_of_int (fst e) :: u64) < 64) \<and> (\<exists>P. properties t = (properties s)(p \<mapsto> P) \<and>
           enum_blob_list P = map (\<lambda>e. (word_of_int (fst e), copy_name len (snd e))) props \<and>
           (\<forall>v. drm_property_change_is_valid P v = Inr (PROP_IMMUTABLE \<notin> flags \<and> (\<forall>n. bit v n \<longrightarrow> (of_nat n :: u64) \<in> word_of_int ` fst ` set props)))))"
proof -
  have i: "prop_ok A ok s" using inv by (simp add: prop_inv_def)
  have enum: "drm_property_change_is_valid P v = Inr (PROP_IMMUTABLE \<notin> flags \<and> v \<in> word_of_int ` fst ` set props)"
    if "prop_flags P = insert PROP_ENUM flags" "prop_values P = map (\<lambda>e. word_of_int (fst e)) props" for P v
    using that flags by (auto simp: drm_property_change_is_valid_def image_image)
  have bits: "drm_property_change_is_valid P v = Inr (PROP_IMMUTABLE \<notin> flags \<and> (\<forall>n. bit v n \<longrightarrow> (of_nat n :: u64) \<in> word_of_int ` fst ` set props))"
    if "prop_flags P = insert PROP_BITMASK flags" "prop_values P = map (\<lambda>e. word_of_int (fst e)) props"
      "\<forall>e \<in> set props. (word_of_int (fst e) :: u64) < 64" for P v
    using that flags mask_zero_iff [of "prop_values P" v] by (auto simp: drm_property_change_is_valid_def image_image)
  note list = listed_values [where mem = mem and len = len and nm = nm, OF laws inv new flags assms(5)]
  from list [of PROP_ENUM] obtain q s' where e: "create_listed A len mem True (insert PROP_ENUM flags) nm props s = Inr (q, s')" "prop_inv A ok s'"
    "case q of None \<Rightarrow> properties s' = properties s \<and> registered A s' = registered A s
     | Some p \<Rightarrow> \<exists>P. properties s' = (properties s)(p \<mapsto> P) \<and> prop_flags P = insert PROP_ENUM flags \<and> prop_values P = map (\<lambda>e. word_of_int (fst e)) props \<and>
         enum_blob_list P = map (\<lambda>e. (word_of_int (fst e), copy_name len (snd e))) props \<and>
         (PROP_ENUM = PROP_BITMASK \<longrightarrow> (\<forall>e \<in> set props. (word_of_int (fst e) :: u64) < 64))" by blast
  from list [of PROP_BITMASK] obtain r t where b: "create_listed A len mem True (insert PROP_BITMASK flags) nm props s = Inr (r, t)" "prop_inv A ok t"
    "case r of None \<Rightarrow> properties t = properties s \<and> registered A t = registered A s
     | Some p \<Rightarrow> \<exists>P. properties t = (properties s)(p \<mapsto> P) \<and> prop_flags P = insert PROP_BITMASK flags \<and> prop_values P = map (\<lambda>e. word_of_int (fst e)) props \<and>
         enum_blob_list P = map (\<lambda>e. (word_of_int (fst e), copy_name len (snd e))) props \<and>
         (PROP_BITMASK = PROP_BITMASK \<longrightarrow> (\<forall>e \<in> set props. (word_of_int (fst e) :: u64) < 64))" by blast
  have 1: "case q of None \<Rightarrow> properties s' = properties s \<and> registered A s' = registered A s
       | Some p \<Rightarrow> \<exists>P. properties s' = (properties s)(p \<mapsto> P) \<and>
           enum_blob_list P = map (\<lambda>e. (word_of_int (fst e), copy_name len (snd e))) props \<and>
           (\<forall>v. drm_property_change_is_valid P v = Inr (PROP_IMMUTABLE \<notin> flags \<and> v \<in> word_of_int ` fst ` set props))"
    using e(3) enum by (cases q) (simp, simp, blast)
  have 2: "case r of None \<Rightarrow> properties t = properties s \<and> registered A t = registered A s
       | Some p \<Rightarrow> (\<forall>e \<in> set props. (word_of_int (fst e) :: u64) < 64) \<and> (\<exists>P. properties t = (properties s)(p \<mapsto> P) \<and>
           enum_blob_list P = map (\<lambda>e. (word_of_int (fst e), copy_name len (snd e))) props \<and>
           (\<forall>v. drm_property_change_is_valid P v = Inr (PROP_IMMUTABLE \<notin> flags \<and> (\<forall>n. bit v n \<longrightarrow> (of_nat n :: u64) \<in> word_of_int ` fst ` set props))))"
    using b(3) bits by (cases r) (simp, simp, blast)
  from 1 2 e(1,2) b(1,2) show ?thesis
    unfolding drm_property_create_enum_def drm_property_create_bitmask_def by blast
qed

text \<open>
  Claim C39. The EDID of a connector is what was stored. When the EDID property of a connector is updated with the bytes of a
  monitor and the call succeeds, the value of the property is the id of a blob, and reading the blob with the
  right length yields these bytes; updating it without a monitor sets the value to 0. The call never stops the kernel, for
  a memory area that was in use by the connector's old blob, too.
\<close>

theorem drm_mode_connector_update_edid_roundtrip:
  assumes laws: "avl_laws A ok" and reach: "prop_reach A ok s" and "obj_props s (OBJECT_CONNECTOR, c) \<noteq> None" "slots s edid_property = Some p"
    and "\<And>b. mem = Some b \<Longrightarrow> blobs s b = None \<or> edid_blob_ptr s c = Some b" and bytes: "126 < length bytes" "length bytes = edid_size bytes"
  shows "\<exists>ret s' ret' s''. drm_mode_connector_update_edid_property A mem alloc True c (Some bytes) s = Inr (ret, s') \<and>
    drm_mode_connector_update_edid_property A mem alloc True c None s = Inr (ret', s'') \<and>
    (ret = Inr () \<longrightarrow> (\<exists>i. drm_object_property_get_value (OBJECT_CONNECTOR, c) (Some p) s' = Inr (Inr (ucast i)) \<and>
       drm_mode_getblob_ioctl A True True i (length bytes) s' = Inr (Inr (length bytes, Some bytes)))) \<and>
    (ret' = Inr () \<longrightarrow> drm_object_property_get_value (OBJECT_CONNECTOR, c) (Some p) s'' = Inr (Inr 0))"
proof -
  have inv: "prop_ok A ok s" "vals_ok s" "edid_ok s" using prop_reach_inv [OF laws reach] by (simp_all add: prop_inv_def)
  note upd = update_edid_ok [where mem = mem and alloc = alloc, OF laws inv assms(3,4,5)]
  have len: "126 < length x \<and> edid_size x \<le> length x" if "Some bytes = Some x" for x using that bytes by simp
  from upd [where edid = "Some bytes", OF _ len] obtain ret s' where s': "drm_mode_connector_update_edid_property A mem alloc True c (Some bytes) s = Inr (ret, s')"
    "prop_ok A ok s'" and b: "ret = Inr () \<longrightarrow> (\<exists>b. edid_blob_ptr s' c = Some b \<and> registered A s' (OBJECT_BLOB, b) \<and>
        blobs s' b = Some (take (edid_size bytes) bytes) \<and>
        drm_object_property_get_value (OBJECT_CONNECTOR, c) (Some p) s' = Inr (Inr (ucast (object_id s' (OBJECT_BLOB, b)))))" by auto
  have blob: "drm_mode_getblob_ioctl A True True (object_id s' (OBJECT_BLOB, b)) (length bytes) s' = Inr (Inr (length bytes, Some bytes))"
    if "registered A s' (OBJECT_BLOB, b)" "blobs s' b = Some (take (edid_size bytes) bytes)" for b
  proof -
    have "drm_mode_object_find A (object_id s' (OBJECT_BLOB, b)) OBJECT_BLOB s' = Some b"
      using that(1) drm_mode_object_find_iff [OF prop_okD(1) [OF s'(2)]] by blast
    then show ?thesis using that(2) bytes(2) by (simp add: drm_mode_getblob_ioctl_def)
  qed
  from upd [where edid = None] obtain ret' s'' where "drm_mode_connector_update_edid_property A mem alloc True c None s = Inr (ret', s'')"
    "ret' = Inr () \<longrightarrow> drm_object_property_get_value (OBJECT_CONNECTOR, c) (Some p) s'' = Inr (Inr 0)" by auto
  then show ?thesis using s'(1) b blob by blast
qed

subsection \<open>A device\<close>

definition dev_start :: "(u32 \<times> mode_ref ptr) list props_config" where
  "dev_start = \<lparr>crtc_idr = idr_init sal_avl, object_id = (\<lambda>_. 0), properties = (\<lambda>_. None), property_list = [], blobs = (\<lambda>_. None),
     property_blob_list = [], slots = (\<lambda>_. None), obj_props = (\<lambda>_. None), edid_blob_ptr = (\<lambda>_. None)\<rparr>"

definition dev_mem :: "nat \<Rightarrow> prop_mem" where
  "dev_mem p = \<lparr>new_prop = Some p, values_mem = True, id_mem = True, enum_mem = (\<lambda>_. True)\<rparr>"

text \<open>A CRTC 5 with id 1, and a property 7 with id 2 and the values 0 and 3 on it.\<close>

definition dev_crtc :: "(u32 \<times> mode_ref ptr) list props_config" where
  "dev_crtc = snd (drm_mode_object_get sal_avl True (OBJECT_CRTC, 5) dev_start)"

lemma dev_limits: "\<not> (0x7FFFFFFF :: u32) \<le> 1" "\<not> (0x7FFFFFFF :: u32) \<le> 2" "\<not> (0x7FFFFFFF :: u32) \<le> 3"
  by (simp_all add: word_le_nat_alt)

lemmas dev_simps = dev_start_def dev_mem_def dev_limits drm_mode_object_get_def idr_pre_get_def idr_get_new_above_def idr_init_def sal_avl_def
  fr_new_def fr_link_def fr_isfull_def idr_get_free_id_in_range_def Let_def drm_mode_object_find_def idr_find_def idr_find_used_id_def

lemma dev_start_reach: "prop_reach sal_avl sal_ok dev_start"
  by (rule prop_reach.start) (simp_all add: dev_start_def)

lemma dev_crtc_reach: "prop_reach sal_avl sal_ok dev_crtc"
proof -
  obtain ret s where g: "drm_mode_object_get sal_avl True (OBJECT_CRTC, 5) dev_start = (ret, s)" by force
  have inv: "prop_ok sal_avl sal_ok dev_start" using prop_reach_inv [OF sal_avl_laws dev_start_reach] by (simp add: prop_inv_def)
  have "\<not> registered sal_avl dev_start (OBJECT_CRTC, 5)" by (simp add: registered_def dev_simps)
  note get = object_get_ok [OF sal_avl_laws prop_okD(1) [OF inv] this g]
  have "ids_ok sal_avl sal_ok s" using get by blast
  moreover have "props_same sal_avl dev_start s"
  proof -
    have "ret = Inr ()" using g by (auto simp: dev_simps)
    then obtain i where s: "s = dev_start\<lparr>crtc_idr := crtc_idr s, object_id := (object_id dev_start)((OBJECT_CRTC, 5) := i)\<rparr>"
      and reg: "registered sal_avl s = (registered sal_avl dev_start)((OBJECT_CRTC, 5) := True)" using get by auto
    have "properties s = properties dev_start" "property_list s = property_list dev_start" "blobs s = blobs dev_start"
      "property_blob_list s = property_blob_list dev_start" "slots s = slots dev_start" "obj_props s = obj_props dev_start"
      "edid_blob_ptr s = edid_blob_ptr dev_start" "object_id s = (object_id dev_start)((OBJECT_CRTC, 5) := i)" by (subst s, simp)+
    then show ?thesis by (simp add: props_same_def reg)
  qed
  ultimately show ?thesis using prop_reach.other [OF dev_start_reach] g by (simp add: dev_crtc_def)
qed


definition dev_prop :: "(u32 \<times> mode_ref ptr) list props_config" where
  "dev_prop = (case drm_property_create_enum sal_avl 32 (dev_mem 7) True {} (Some ''power'') [(0, ''On''), (3, ''Off'')] dev_crtc of
     Inr (q, s) \<Rightarrow> s\<lparr>obj_props := (obj_props s)((OBJECT_CRTC, 5) \<mapsto> [])\<rparr>)"

definition dev_end :: "(u32 \<times> mode_ref ptr) list props_config" where
  "dev_end = (case drm_object_attach_property (OBJECT_CRTC, 5) (Some 7) 0 dev_prop of Inr s \<Rightarrow> s)"

lemmas dev_run = dev_crtc_def dev_prop_def dev_end_def drm_property_create_enum_def create_listed_def drm_property_create_def copy_name_def
  drm_property_add_enum_def drm_object_attach_property_def property_id_def DRM_OBJECT_MAX_PROPERTY_def

lemma dev_end_facts:
  "obj_props dev_end (OBJECT_CRTC, 5) = Some [(2, 0)]" "drm_mode_object_find sal_avl 1 OBJECT_CRTC dev_end = Some 5"
  "drm_mode_object_find sal_avl 2 OBJECT_PROPERTY dev_end = Some 7"
  by (simp_all add: dev_run dev_simps)

lemma dev_end_reach: "prop_reach sal_avl sal_ok dev_end"
proof -
  obtain q s where c: "drm_property_create_enum sal_avl 32 (dev_mem 7) True {} (Some ''power'') [(0, ''On''), (3, ''Off'')] dev_crtc = Inr (q, s)"
    "obj_props s (OBJECT_CRTC, 5) = None" "properties s 7 = Some \<lparr>prop_flags = {PROP_ENUM}, prop_name = ''power'', prop_values = [0, 3],
      enum_blob_list = [(0, ''On''), (3, ''Off'')]\<rparr>" by (simp add: dev_run dev_simps)
  have "properties dev_crtc 7 = None" by (simp add: dev_run dev_simps)
  then have "prop_step sal_avl dev_crtc s" by (intro prop_step.create_enum [OF c(1)]) (simp_all add: dev_mem_def)
  then have s: "prop_reach sal_avl sal_ok s" by (rule prop_reach.step [OF dev_crtc_reach])
  have p: "dev_prop = s\<lparr>obj_props := (obj_props s)((OBJECT_CRTC, 5) \<mapsto> [])\<rparr>" by (simp add: dev_prop_def c(1))
  then have "prop_reach sal_avl sal_ok dev_prop" using prop_reach.step [OF s prop_step.object [OF c(2)]] by simp
  moreover have "prop_step sal_avl dev_prop dev_end"
  proof (rule prop_step.attach)
    show "drm_object_attach_property (OBJECT_CRTC, 5) (Some 7) 0 dev_prop = Inr dev_end"
      using c(3) by (simp add: dev_end_def p drm_object_attach_property_def property_id_def DRM_OBJECT_MAX_PROPERTY_def)
    show "properties dev_prop 7 = Some \<lparr>prop_flags = {PROP_ENUM}, prop_name = ''power'', prop_values = [0, 3], enum_blob_list = [(0, ''On''), (3, ''Off'')]\<rparr>"
      using c(3) by (simp add: p)
  qed (simp add: valid_value_def drm_property_change_is_valid_def)
  ultimately show ?thesis by (rule prop_reach.step)
qed



theorem drm_property_create_listed_correct_witness:
  "\<exists>p s' P. drm_property_create_bitmask sal_avl 32 (dev_mem 7) True {} (Some ''rotation'') [(0, ''0''), (2, ''180'')] dev_start = Inr (Some p, s') \<and>
     properties s' p = Some P \<and>
     (\<forall>v. drm_property_change_is_valid P v = Inr (\<forall>n. bit v n \<longrightarrow> (of_nat n :: u64) \<in> {0, 2}))"
proof -
  have inv: "prop_inv sal_avl sal_ok dev_start" by (rule prop_reach_inv [OF sal_avl_laws dev_start_reach])
  obtain p s' where run: "drm_property_create_bitmask sal_avl 32 (dev_mem 7) True {} (Some ''rotation'') [(0, ''0''), (2, ''180'')] dev_start = Inr (Some p, s')"
    by (simp add: drm_property_create_bitmask_def dev_run dev_simps)
  from drm_property_create_listed_correct [where mem = "dev_mem 7" and flags = "{}" and len = 32 and nm = "Some ''rotation''" and
      props = "[(0, ''0''), (2, ''180'')]", OF sal_avl_laws inv]
  show ?thesis using run by (auto simp: dev_start_def)
qed

text \<open>A device whose connector 3 has the EDID property 7.\<close>

definition dev_edid :: "(u32 \<times> mode_ref ptr) list props_config" where
  "dev_edid =
     (let s = set_slot edid_property (Some 7) (snd (drm_property_create sal_avl 32 (dev_mem 7) {PROP_BLOB, PROP_IMMUTABLE} (Some ''EDID'') 0 dev_start));
          s = s\<lparr>obj_props := (obj_props s)((OBJECT_CONNECTOR, 3) \<mapsto> [])\<rparr>
      in case drm_object_attach_property (OBJECT_CONNECTOR, 3) (Some 7) 0 s of Inr s \<Rightarrow> s)"

lemma dev_edid_reach: "prop_reach sal_avl sal_ok dev_edid"
proof -
  let ?P = "\<lparr>prop_flags = {PROP_BLOB, PROP_IMMUTABLE}, prop_name = ''EDID'', prop_values = [], enum_blob_list = []\<rparr>"
  obtain q s where c: "drm_property_create sal_avl 32 (dev_mem 7) {PROP_BLOB, PROP_IMMUTABLE} (Some ''EDID'') 0 dev_start = (q, s)"
    "obj_props s (OBJECT_CONNECTOR, 3) = None" "properties s 7 = Some ?P" by (simp add: dev_run dev_simps)
  have "prop_step sal_avl dev_start s" by (rule prop_step.create [OF c(1)]) (simp_all add: dev_start_def)
  then have r1: "prop_reach sal_avl sal_ok s" by (rule prop_reach.step [OF dev_start_reach])
  let ?s = "set_slot edid_property (Some 7) s"
  have "prop_step sal_avl s ?s" by (rule prop_step.slot) (auto simp: c(3))
  then have r2: "prop_reach sal_avl sal_ok ?s" by (rule prop_reach.step [OF r1])
  have none: "obj_props ?s (OBJECT_CONNECTOR, 3) = None" using c(2) by (simp add: set_slot_def)
  let ?t = "?s\<lparr>obj_props := (obj_props ?s)((OBJECT_CONNECTOR, 3) \<mapsto> [])\<rparr>"
  have r3: "prop_reach sal_avl sal_ok ?t" by (rule prop_reach.step [OF r2 prop_step.object [OF none]])
  have "drm_object_attach_property (OBJECT_CONNECTOR, 3) (Some 7) 0 ?t = Inr dev_edid"
    using c(1,3) by (simp add: dev_edid_def set_slot_def drm_object_attach_property_def property_id_def DRM_OBJECT_MAX_PROPERTY_def)
  then have "prop_step sal_avl ?t dev_edid" by (rule prop_step.attach [where P = ?P]) (simp_all add: set_slot_def c(3) valid_value_def)
  then show ?thesis by (rule prop_reach.step [OF r3])
qed

lemma dev_edid_facts:
  "obj_props dev_edid (OBJECT_CONNECTOR, 3) \<noteq> None" "slots dev_edid edid_property = Some 7" "blobs dev_edid 4 = None"
  by (simp_all add: dev_edid_def set_slot_def dev_run dev_simps)

definition edid_zero :: "u8 list" where "edid_zero = replicate 128 0"

theorem drm_mode_connector_update_edid_roundtrip_witness:
  "\<exists>s' i. drm_mode_connector_update_edid_property sal_avl (Some 4) True True 3 (Some edid_zero) dev_edid = Inr (Inr (), s') \<and>
     drm_mode_getblob_ioctl sal_avl True True i 128 s' = Inr (Inr (128, Some edid_zero))"
proof -
  have len: "length edid_zero = 128" "edid_size edid_zero = 128" by (simp_all add: edid_zero_def edid_size_def)
  have "\<exists>s'. drm_mode_connector_update_edid_property sal_avl (Some 4) True True 3 (Some edid_zero) dev_edid = Inr (Inr (), s')"
    by (simp add: drm_mode_connector_update_edid_property_def drm_property_create_blob_def drm_object_property_set_value_def len
        dev_edid_def set_slot_def dev_run dev_simps)
  then show ?thesis
    using drm_mode_connector_update_edid_roundtrip [where mem = "Some 4" and alloc = True and bytes = edid_zero,
        OF sal_avl_laws dev_edid_reach dev_edid_facts(1,2)] dev_edid_facts(3) len by auto
qed

text \<open>
  A failed update leaves a stale id. When the memory for the id of the new blob is missing, the old blob is gone and the call
  returns \<open>-EINVAL\<close>, but the value of the property still is the old id, which may be given to another object.
\<close>

theorem drm_mode_connector_update_edid_stale:
  "\<exists>s s'. drm_mode_connector_update_edid_property sal_avl (Some 4) True True 3 (Some edid_zero) dev_edid = Inr (Inr (), s) \<and>
     drm_object_property_get_value (OBJECT_CONNECTOR, 3) (Some 7) s = Inr (Inr 2) \<and>
     drm_mode_connector_update_edid_property sal_avl (Some 4) False True 3 (Some edid_zero) s = Inr (Inl EINVAL, s') \<and>
     drm_mode_object_find sal_avl 2 OBJECT_BLOB s' = None \<and>
     drm_object_property_get_value (OBJECT_CONNECTOR, 3) (Some 7) s' = Inr (Inr 2)"
  by (simp add: drm_mode_connector_update_edid_property_def drm_property_create_blob_def drm_object_property_set_value_def
      drm_property_destroy_blob_def drm_mode_object_put_def idr_remove_def
      drm_object_property_get_value_def edid_zero_def edid_size_def dev_edid_def set_slot_def dev_run dev_simps)

subsection \<open>The properties of a device\<close>

text \<open>
  A function that fills a slot returns, keeps the invariant and makes at most one property, in memory that was not in
  use.
\<close>

definition slot_fun ::
  "(mode_ref ptr, 't) avl_ops \<Rightarrow> ('t \<Rightarrow> bool) \<Rightarrow> prop_env \<Rightarrow> property_slot \<Rightarrow> (('t, 'z) props_config_scheme \<Rightarrow> ('t, 'z) props_config_scheme result) \<Rightarrow> bool" where
  "slot_fun A ok E sl f \<longleftrightarrow> (\<forall>s. prop_inv A ok s \<longrightarrow> (\<forall>p. new_prop (slot_mem E sl) = Some p \<longrightarrow> properties s p = None) \<longrightarrow>
     (\<exists>s'. f s = Inr s' \<and> prop_inv A ok s' \<and> frame A s s' \<and> (\<forall>p. new_prop (slot_mem E sl) \<noteq> Some p \<longrightarrow> properties s' p = properties s p)))"

lemma set_slot_ok:
  assumes "avl_laws A ok" "prop_inv A ok s" "\<And>p. q = Some p \<Longrightarrow> properties s p \<noteq> None"
    "\<And>p P. sl = edid_property \<Longrightarrow> q = Some p \<Longrightarrow> properties s p = Some P \<Longrightarrow> PROP_IMMUTABLE \<in> prop_flags P"
  shows "prop_inv A ok (set_slot sl q s) \<and> frame A s (set_slot sl q s)" "properties (set_slot sl q s) = properties s"
  using prop_step_ok [OF assms(1) prop_step.slot [where q = q and sl = sl, OF assms(3,4)] assms(2)] by (simp_all add: set_slot_def)

lemma enum_slot_ok:
  assumes laws: "avl_laws A ok" and E: "remove_mem E" and flags: "PROP_RANGE \<notin> flags" and sl: "sl \<noteq> edid_property"
  shows "slot_fun A ok E sl (enum_slot A E sl flags nm props)"
  unfolding slot_fun_def
proof (intro allI impI)
  fix s :: "('a, 'b) props_config_scheme"
  assume inv: "prop_inv A ok s" and fresh: "\<forall>p. new_prop (slot_mem E sl) = Some p \<longrightarrow> properties s p = None"
  let ?m = "slot_mem E sl"
  have i: "prop_ok A ok s" using inv by (simp add: prop_inv_def)
  have new: "\<And>p. new_prop ?m = Some p \<Longrightarrow> properties s p = None" using fresh by simp
  have nr: "PROP_RANGE \<notin> insert PROP_ENUM flags" using flags by simp
  from listed_new [where mem = "?m" and len = "name_len E" and nm = "Some nm" and props = props, OF laws i new nr] obtain q s1 where
    c: "drm_property_create_enum A (name_len E) ?m True flags (Some nm) props s = Inr (q, s1)"
      "q = None \<and> properties s1 = properties s \<or> (\<exists>p P. q = Some p \<and> new_prop ?m = Some p \<and> properties s1 = (properties s)(p \<mapsto> P))"
    unfolding drm_property_create_enum_def by blast
  have 1: "prop_inv A ok s1 \<and> frame A s s1" by (rule prop_step_ok [OF laws prop_step.create_enum [OF c(1) new flags] inv])
  have "\<And>p. q = Some p \<Longrightarrow> properties s1 p \<noteq> None" using c(2) by auto
  note 2 = set_slot_ok [where q = q and sl = sl, OF laws conjunct1 [OF 1] this]
  have "enum_slot A E sl flags nm props s = Inr (set_slot sl q s1)" using c(1) E by (simp add: enum_slot_def)
  moreover have "\<forall>p. new_prop ?m \<noteq> Some p \<longrightarrow> properties (set_slot sl q s1) p = properties s p" using c(2) 2(2) sl by auto
  ultimately show "\<exists>s'. enum_slot A E sl flags nm props s = Inr s' \<and> prop_inv A ok s' \<and> frame A s s' \<and>
      (\<forall>p. new_prop ?m \<noteq> Some p \<longrightarrow> properties s' p = properties s p)"
    using 2(1) sl frame_trans [OF conjunct2 [OF 1]] by blast
qed

lemma range_slot_ok:
  assumes laws: "avl_laws A ok" and sl: "fst e \<noteq> edid_property"
  shows "slot_fun A ok E (fst e) (range_slot A E e)"
  unfolding slot_fun_def
proof (intro allI impI)
  fix s :: "('a, 'b) props_config_scheme"
  assume inv: "prop_inv A ok s" and fresh: "\<forall>p. new_prop (slot_mem E (fst e)) = Some p \<longrightarrow> properties s p = None"
  let ?m = "slot_mem E (fst e)"
  have i: "prop_ok A ok s" using inv by (simp add: prop_inv_def)
  have new: "\<And>p. new_prop ?m = Some p \<Longrightarrow> properties s p = None" using fresh by simp
  obtain q s1 where c: "drm_property_create_range A (name_len E) ?m {} (Some (snd e)) 0 100 s = (q, s1)" by force
  have r: "q = None \<and> properties s1 = properties s \<or> (\<exists>p P. q = Some p \<and> new_prop ?m = Some p \<and> properties s1 = (properties s)(p \<mapsto> P))"
    using range_ok [OF laws i new c] by (auto split: option.splits)
  have 1: "prop_inv A ok s1 \<and> frame A s s1" by (rule prop_step_ok [OF laws prop_step.create_range [OF c new] inv])
  have "\<And>p. q = Some p \<Longrightarrow> properties s1 p \<noteq> None" using r by auto
  note 2 = set_slot_ok [where q = q and sl = "fst e", OF laws conjunct1 [OF 1] this]
  have "range_slot A E e s = Inr (set_slot (fst e) q s1)" using c by (simp add: range_slot_def)
  moreover have "\<forall>p. new_prop ?m \<noteq> Some p \<longrightarrow> properties (set_slot (fst e) q s1) p = properties s p" using r 2(2) sl by auto
  ultimately show "\<exists>s'. range_slot A E e s = Inr s' \<and> prop_inv A ok s' \<and> frame A s s' \<and>
      (\<forall>p. new_prop ?m \<noteq> Some p \<longrightarrow> properties s' p = properties s p)"
    using 2(1) sl frame_trans [OF conjunct2 [OF 1]] by blast
qed

text \<open>The memory for the properties is not in use, and different for different slots.\<close>

definition slots_fresh :: "prop_env \<Rightarrow> property_slot list \<Rightarrow> ('t, 'z) props_config_scheme \<Rightarrow> bool" where
  "slots_fresh E sls s \<longleftrightarrow> distinct sls \<and> (\<forall>sl \<in> set sls. \<forall>p. new_prop (slot_mem E sl) = Some p \<longrightarrow> properties s p = None \<and>
     (\<forall>sl' \<in> set sls. new_prop (slot_mem E sl') = Some p \<longrightarrow> sl' = sl))"

lemma slots_freshD:
  assumes "slots_fresh E sls s" "sl \<in> set sls" "new_prop (slot_mem E sl) = Some p"
  shows "properties s p = None" "sl' \<in> set sls \<Longrightarrow> new_prop (slot_mem E sl') = Some p \<Longrightarrow> sl' = sl"
  using assms unfolding slots_fresh_def by blast+

lemma slots_fold:
  "list_all (\<lambda>(sl, f). slot_fun A ok E sl f) fs \<Longrightarrow> slots_fresh E (map fst fs) s \<Longrightarrow> prop_inv A ok s \<Longrightarrow>
     \<exists>s'. fold_res (\<lambda>f. f) (map snd fs) s = Inr s' \<and> prop_inv A ok s' \<and> frame A s s'"
proof (induction fs arbitrary: s)
  case (Cons e fs)
  obtain sl f where e: "e = (sl, f)" by force
  have "slot_fun A ok E sl f" "\<forall>p. new_prop (slot_mem E sl) = Some p \<longrightarrow> properties s p = None"
    using Cons.prems(1,2) by (simp_all add: e slots_fresh_def)
  with Cons.prems(3) obtain s1 where s1: "f s = Inr s1" "prop_inv A ok s1" "frame A s s1"
    "\<And>p. new_prop (slot_mem E sl) \<noteq> Some p \<Longrightarrow> properties s1 p = properties s p" unfolding slot_fun_def by blast
  have "slots_fresh E (map fst fs) s1"
    unfolding slots_fresh_def
  proof (intro conjI ballI allI impI)
    fix sl' p assume a: "sl' \<in> set (map fst fs)" "new_prop (slot_mem E sl') = Some p"
    then have in_list: "sl' \<in> set (map fst (e # fs))" "sl \<in> set (map fst (e # fs))" by (simp_all add: e)
    have "sl' \<noteq> sl" using Cons.prems(2) a(1) by (auto simp: slots_fresh_def e)
    then have "properties s p = None" "new_prop (slot_mem E sl) \<noteq> Some p"
      using slots_freshD [OF Cons.prems(2) in_list(1) a(2)] in_list(2) by blast+
    then show "properties s1 p = None" using s1(4) by simp
    show "sl'' = sl'" if "sl'' \<in> set (map fst fs)" "new_prop (slot_mem E sl'') = Some p" for sl''
      using slots_freshD(2) [OF Cons.prems(2) in_list(1) a(2)] that by simp
  qed (use Cons.prems(2) in \<open>simp add: slots_fresh_def\<close>)
  from Cons.IH [OF _ this s1(2)] Cons.prems(1) obtain s2 where "fold_res (\<lambda>f. f) (map snd fs) s1 = Inr s2" "prop_inv A ok s2" "frame A s1 s2" by auto
  then show ?case using s1(1) frame_trans [OF s1(3)] by (auto simp: e)
qed simp

lemma standard_properties_ok:
  assumes laws: "avl_laws A ok" and E: "remove_mem E" and inv: "prop_inv A ok s" and fresh: "slots_fresh E [edid_property, dpms_property] s"
  shows "\<exists>s'. drm_mode_create_standard_connector_properties A E s = Inr s' \<and> prop_inv A ok s' \<and> frame A s s'"
proof -
  let ?m = "slot_mem E edid_property"
  have i: "prop_ok A ok s" using inv by (simp add: prop_inv_def)
  have new: "\<And>p. new_prop ?m = Some p \<Longrightarrow> properties s p = None" using fresh by (simp add: slots_fresh_def)
  obtain q s1 where c: "drm_property_create A (name_len E) ?m {PROP_BLOB, PROP_IMMUTABLE} (Some ''EDID'') 0 s = (q, s1)" by force
  have r: "q = None \<and> properties s1 = properties s \<or>
      (\<exists>p. q = Some p \<and> new_prop ?m = Some p \<and> properties s1 = (properties s)(p \<mapsto> blank_property (name_len E) {PROP_BLOB, PROP_IMMUTABLE} (Some ''EDID'') 0))"
    using create_ok [OF laws i new _ c] by (auto split: option.splits)
  have 1: "prop_inv A ok s1 \<and> frame A s s1" by (rule prop_step_ok [OF laws prop_step.create [OF c new] inv]) simp_all
  let ?s2 = "set_slot edid_property q s1"
  have 2: "prop_inv A ok ?s2 \<and> frame A s1 ?s2" "properties ?s2 = properties s1"
    using r by (intro set_slot_ok [OF laws conjunct1 [OF 1]]; auto simp: blank_property_def)+
  have "slot_fun A ok E dpms_property (enum_slot A E dpms_property {} ''DPMS'' (drm_dpms_enum_list (mode_consts E)))"
    by (rule enum_slot_ok [OF laws E]) simp_all
  moreover have "\<forall>p. new_prop (slot_mem E dpms_property) = Some p \<longrightarrow> properties ?s2 p = None"
    using r fresh unfolding 2(2) slots_fresh_def by auto
  ultimately obtain s3 where "enum_slot A E dpms_property {} ''DPMS'' (drm_dpms_enum_list (mode_consts E)) ?s2 = Inr s3" "prop_inv A ok s3" "frame A ?s2 s3"
    using 2(1) unfolding slot_fun_def by blast
  then show ?thesis
    using c frame_trans [OF conjunct2 [OF 1] frame_trans [OF conjunct2 [OF 2(1)]]] by (auto simp: drm_mode_create_standard_connector_properties_def)
qed

end
