(* ===== verification/Drm_Kms_Props.thy ===== *)
theory Drm_Kms_Props
  imports Drm_Kms_Inv Drm_Property_Props
begin

text \<open>
  Runs of the mode setting interface: a device is set up, files are opened and closed and call the ioctls in
  any order. The properties of the framebuffers hold in every state of every run.
\<close>

subsection \<open>Setting up\<close>

lemma kms_ok_blank:
  assumes "avl_laws A ok"
  shows "kms_ok A ok {#} (blank_config A a b c d)"
proof -
  let ?s = "blank_config A a b c d"
  note i = idr_init_inv [OF assms]
  have none: "idr_find A (idr_init A) j = None" for j
    using i by (auto simp: idr_find_eq split: option.split)
  have reg: "\<not> registered A ?s r" for r by (simp add: registered_def blank_config_def none)
  have "ids_ok A ok ?s" using i by (intro ids_okI) (simp_all add: blank_config_def none)
  moreover have "refs A ?s {#} = {#}" by (simp add: refs_def core_refs_def reg) (simp add: blank_config_def)
  moreover have "lists_ok A ?s" by (simp add: lists_ok_def reg) (simp add: blank_config_def)
  ultimately show ?thesis
    by (simp add: kms_ok_def kms_inv_def names_ok_def reg) (simp add: cells_ok_def blank_config_def)
qed

text \<open>Steps of the property functions leave framebuffers, CRTCs and planes alone.\<close>

lemma frame_fields:
  fixes s s' :: "'t kms"
  assumes "frame A s s'"
  shows "fbs s' = fbs s" "fb_list s' = fb_list s" "num_fb s' = num_fb s" "open_files s' = open_files s" "file_fbs s' = file_fbs s"
    "crtc_list s' = crtc_list s" "crtcs s' = crtcs s" "plane_list s' = plane_list s" "planes s' = planes s"
proof -
  have r: "fbs (rest x) = fbs x" "fb_list (rest x) = fb_list x" "num_fb (rest x) = num_fb x" "open_files (rest x) = open_files x"
    "file_fbs (rest x) = file_fbs x" "crtc_list (rest x) = crtc_list x" "crtcs (rest x) = crtcs x" "plane_list (rest x) = plane_list x"
    "planes (rest x) = planes x" for x :: "'t kms" by (simp_all add: rest_def)
  have "rest s' = rest s" using assms by (simp add: frame_def)
  then show "fbs s' = fbs s" "fb_list s' = fb_list s" "num_fb s' = num_fb s" "open_files s' = open_files s" "file_fbs s' = file_fbs s"
    "crtc_list s' = crtc_list s" "crtcs s' = crtcs s" "plane_list s' = plane_list s" "planes s' = planes s"
    using r by metis+
qed

lemma kms_ok_frame:
  assumes "kms_ok A ok X s" "ids_ok A ok s'" "frame A s s'"
  shows "kms_ok A ok X s'"
  by (rule kms_ok_fields [OF assms(1,2) frame_fields [OF assms(3)]]) (use assms(3) in \<open>auto simp: frame_def\<close>)

lemma kms_ok_init:
  assumes laws: "avl_laws A ok" and E: "remove_mem E" and fresh: "slots_fresh E [edid_property, dpms_property] (blank_config A a b c d)"
  shows "\<exists>s. drm_mode_config_init A E a b c d = Inr s \<and> kms_ok A ok {#} s \<and> prop_inv A ok s"
proof -
  let ?s = "blank_config A a b c d"
  have "prop_reach A ok ?s" by (rule prop_reach.start) (simp_all add: blank_config_def)
  then have "prop_inv A ok ?s" by (rule prop_reach_inv [OF laws])
  from standard_properties_ok [OF laws E this fresh] obtain s where
    s: "drm_mode_create_standard_connector_properties A E ?s = Inr s" "prop_inv A ok s" "frame A ?s s" by blast
  have "ids_ok A ok s" using s(2) by (simp add: prop_inv_def prop_ok_def)
  then show ?thesis using s kms_ok_frame [OF kms_ok_blank [OF laws]] by (auto simp: drm_mode_config_init_def)
qed

lemma kms_ok_open:
  assumes "kms_ok A ok X s" "f \<notin> set (open_files s)"
  shows "kms_ok A ok X (kms_open f s)"
proof -
  let ?s = "kms_open f s"
  have reg: "registered A ?s = registered A s" by (simp add: kms_open_def registered_def fun_eq_iff)
  have m: "map ((file_fbs s)(f := [])) (open_files s) = map (file_fbs s) (open_files s)"
    using assms(2) by (auto simp: map_eq_conv)
  have r: "refs A ?s X = refs A s X" unfolding refs_def core_refs_def reg by (simp add: kms_open_def m)
  have "ids_ok A ok ?s" using assms by (simp add: kms_ok_def kms_inv_def ids_ok_def kms_open_def)
  moreover have "lists_ok A ?s" using assms unfolding lists_ok_def reg kms_ok_def kms_inv_def by (simp add: kms_open_def m)
  moreover have "cells_ok (refs A ?s X) ?s" using assms unfolding r by (simp add: kms_ok_def kms_inv_def cells_ok_def kms_open_def)
  moreover have "names_ok A ?s" using assms unfolding names_ok_def kms_ok_def reg by (auto simp: kms_open_def)
  ultimately show ?thesis by (simp add: kms_ok_def kms_inv_def)
qed

lemma kms_ok_close:
  assumes "kms_ok A ok X s" "f \<in> set (open_files s)" "file_fbs s f = []"
  shows "kms_ok A ok X (s\<lparr>open_files := remove1 f (open_files s)\<rparr>)"
proof -
  let ?s = "s\<lparr>open_files := remove1 f (open_files s)\<rparr>"
  have reg: "registered A ?s = registered A s" by (simp add: registered_def fun_eq_iff)
  have c: "concat (map (file_fbs s) (remove1 f l)) = concat (map (file_fbs s) l)" for l
    using assms(3) by (induction l) auto
  have r: "refs A ?s X = refs A s X" unfolding refs_def core_refs_def reg by (simp add: c)
  have "ids_ok A ok ?s" using assms by (simp add: kms_ok_def kms_inv_def ids_ok_def)
  moreover have "lists_ok A ?s" using assms unfolding lists_ok_def reg kms_ok_def kms_inv_def by (simp add: c)
  moreover have "cells_ok (refs A ?s X) ?s" using assms unfolding r by (simp add: kms_ok_def kms_inv_def cells_ok_def)
  moreover have "names_ok A ?s"
    using assms set_remove1_subset [of f "open_files s"] unfolding names_ok_def kms_ok_def reg by auto
  ultimately show ?thesis by (simp add: kms_ok_def kms_inv_def)
qed

lemma object_get_upd:
  assumes "drm_mode_object_get A alloc r s = (ret, s')"
  shows "\<exists>a b. s' = s\<lparr>crtc_idr := a, object_id := b\<rparr>"
proof -
  have "\<exists>a b. s\<lparr>crtc_idr := i\<rparr> = s\<lparr>crtc_idr := a, object_id := b\<rparr>" for i
    by (intro exI [of _ i] exI [of _ "object_id s"]) simp
  then show ?thesis using assms
    unfolding drm_mode_object_get_def idr_pre_get_def by (auto split: prod.splits sum.splits)
qed

lemma other_object_ok:
  assumes laws: "avl_laws A ok" and inv: "kms_ok A ok X s" and new: "\<not> registered A s (ty, q)"
    and ty: "ty \<notin> {OBJECT_FB, OBJECT_PLANE, OBJECT_CRTC}" and run: "drm_mode_object_get A alloc (ty, q) s = (ret, s')"
  shows "kms_ok A ok X s'"
proof -
  have ids: "ids_ok A ok s" using inv by (simp add: kms_ok_def kms_inv_def)
  note get = object_get_ok [OF laws ids new run]
  then have ids': "ids_ok A ok s'" by blast
  have same: "registered A s' (ty', r) = registered A s (ty', r)" if "ty' \<in> {OBJECT_FB, OBJECT_PLANE, OBJECT_CRTC}" for ty' r
    using get ty that by (cases ret) auto
  obtain a b where "s' = s\<lparr>crtc_idr := a, object_id := b\<rparr>" using object_get_upd [OF run] by blast
  from kms_ok_ids(1) [OF inv ids' this same] show ?thesis .
qed

lemma attach_upd: "drm_object_attach_property r q v s = Inr s' \<Longrightarrow> \<exists>h. s' = s\<lparr>obj_props := h\<rparr>"
  using obj_same [of s] by (auto simp: drm_object_attach_property_def split: option.splits if_splits sum.splits)

lemma set_value_upd: "drm_object_property_set_value r q v s = Inr (ret, s') \<Longrightarrow> \<exists>h. s' = s\<lparr>obj_props := h\<rparr>"
  using obj_same [of s] by (auto simp: drm_object_property_set_value_def split: option.splits list.splits sum.splits)

lemma set_property_upd:
  assumes "drm_mode_obj_set_property_ioctl A modeset hook arg s = Inr (ret, s')"
  shows "\<exists>h. s' = s\<lparr>obj_props := h\<rparr>"
proof -
  have "s' = s \<or> (\<exists>r q v ret. drm_object_property_set_value r q v s = Inr (ret, s'))"
    using assms unfolding drm_mode_obj_set_property_ioctl_def set_obj_prop_eq
    by (auto split: option.splits if_splits sum.splits bool.splits mode_object_type.splits)
  then show ?thesis using obj_same [of s] set_value_upd [of _ _ _ s _ s'] by auto
qed

lemma kms_ok_obj: "kms_ok A ok X (s\<lparr>obj_props := h\<rparr>) \<longleftrightarrow> kms_ok A ok X s"
proof
  show "kms_ok A ok X (s\<lparr>obj_props := h\<rparr>)" if "kms_ok A ok X s" for s h
    using that by (intro kms_ok_fields(1) [OF that]) (simp_all add: kms_ok_def kms_inv_def)
  from this [of "s\<lparr>obj_props := h\<rparr>" "obj_props s"] show "kms_ok A ok X s" if "kms_ok A ok X (s\<lparr>obj_props := h\<rparr>)" using that by simp
qed

lemma connector_init_ok:
  assumes laws: "avl_laws A ok" and inv: "kms_ok A ok X s" and new: "\<not> registered A s (OBJECT_CONNECTOR, c)"
    and run: "drm_connector_init A alloc virt c ty s = Inr (ret, s')"
  shows "kms_ok A ok X s'"
proof -
  obtain r s1 where g: "drm_mode_object_get A alloc (OBJECT_CONNECTOR, c) s = (r, s1)" by force
  have ok1: "kms_ok A ok X s1" by (rule other_object_ok [OF laws inv new _ g]) simp
  show ?thesis
  proof (cases r)
    case (Inl e)
    then show ?thesis using run g ok1 by (simp add: drm_connector_init_def)
  next
    case (Inr x)
    let ?s2 = "add_connector c ty s1"
    have ids: "ids_ok A ok s1" using ok1 by (simp add: kms_ok_def kms_inv_def)
    then have "kms_ok A ok X ?s2" by (intro kms_ok_fields(1) [OF ok1]) (simp_all add: add_connector_def ids_ok_def registered_def)
    moreover have "\<exists>h. s' = ?s2\<lparr>obj_props := h\<rparr>"
    proof -
      obtain t where t: "t = ?s2 \<or> drm_object_attach_property (OBJECT_CONNECTOR, c) (slots ?s2 edid_property) 0 ?s2 = Inr t"
        "drm_object_attach_property (OBJECT_CONNECTOR, c) (slots t dpms_property) 0 t = Inr s'"
        using run g Inr by (auto simp: drm_connector_init_def Let_def split: if_splits sum.splits)
      obtain h where "t = ?s2\<lparr>obj_props := h\<rparr>" using t(1) attach_upd [of _ _ _ ?s2 t] obj_same [of ?s2] by blast
      moreover obtain h' where "s' = t\<lparr>obj_props := h'\<rparr>" using attach_upd [OF t(2)] by blast
      ultimately show ?thesis by auto
    qed
    ultimately show ?thesis by (auto simp only: kms_ok_obj)
  qed
qed

text \<open>A new CRTC or plane shows nothing.\<close>

lemma shown_append: "shown f (cs @ [c]) = shown f cs + mset_set (set_option (f c))"
  by (induction cs) (simp_all add: ac_simps)

lemma crtc_init_ok:
  assumes laws: "avl_laws A ok" and inv: "kms_ok A ok X s" and new: "\<not> registered A s (OBJECT_CRTC, c)" "c \<notin> set (crtc_list s)"
    and run: "drm_crtc_init A alloc c s = (ret, s')"
  shows "kms_ok A ok X s'"
proof -
  let ?s = "s\<lparr>crtcs := (crtcs s)(c := blank_crtc)\<rparr>"
  have kinv: "kms_inv A ok X s" and names: "names_ok A s" using inv by (simp_all add: kms_ok_def)
  note i = kms_invD [OF kinv]
  have reg0: "registered A ?s = registered A s" by (simp add: registered_def fun_eq_iff)
  have ids: "ids_ok A ok ?s" using i(1) by (simp add: ids_ok_def)
  obtain r s1 where g: "drm_mode_object_get A alloc (OBJECT_CRTC, c) ?s = (r, s1)" by force
  have nreg: "\<not> registered A ?s (OBJECT_CRTC, c)" using new(1) reg0 by simp
  note get = object_get_ok [OF laws ids nreg g]
  have sh: "shown (\<lambda>d. crtc_fb (if d = c then blank_crtc else crtcs s d)) (crtc_list s) = shown (\<lambda>d. crtc_fb (crtcs s d)) (crtc_list s)"
    using new(2) by (intro shown_cong) auto
  obtain a b where upd: "s1 = ?s\<lparr>crtc_idr := a, object_id := b\<rparr>" using object_get_upd [OF g] by blast
  have id1: "ids_ok A ok s1" using get by blast
  have fbreg: "registered A s1 (OBJECT_FB, q) = registered A s (OBJECT_FB, q)"
      "registered A s1 (OBJECT_PLANE, q) = registered A s (OBJECT_PLANE, q)"
      "registered A s1 (OBJECT_CRTC, q) \<Longrightarrow> registered A s (OBJECT_CRTC, q) \<or> q = c \<and> r = Inr ()" for q
    using get unfolding reg0 by (cases r; auto split: if_splits)+
  have f: "fbs s1 = fbs s" "fb_list s1 = fb_list s" "num_fb s1 = num_fb s" "open_files s1 = open_files s"
    "file_fbs s1 = file_fbs s" "crtc_list s1 = crtc_list s" "crtcs s1 = (crtcs s)(c := blank_crtc)"
    "plane_list s1 = plane_list s" "planes s1 = planes s" by (simp_all add: upd)
  have s': "s' = (if r = Inr () then s1\<lparr>obj_props := (obj_props s1)((OBJECT_CRTC, c) \<mapsto> []), crtc_list := crtc_list s1 @ [c]\<rparr> else s1)"
    using run g by (cases r) (auto simp: drm_crtc_init_def)
  have reg': "registered A s' = registered A s1" by (simp add: s' registered_def fun_eq_iff)
  have ids': "ids_ok A ok s'" using id1 by (simp add: s' ids_ok_def)
  have r': "refs A s' X = refs A s X"
    unfolding refs_def core_refs_def reg' fbreg by (simp add: s' f sh shown_append) (simp add: blank_crtc_def)
  have "cells_ok (refs A s' X) s'" unfolding r' using i(3) by (simp add: cells_ok_def s' f)
  moreover have "lists_ok A s'" using i(2) new(2) unfolding lists_ok_def reg' fbreg by (simp add: s' f)
  moreover have "names_ok A s'"
  proof -
    have "q \<in> set (crtc_list s')" if "registered A s1 (OBJECT_CRTC, q)" for q
      using fbreg(3) [OF that] names by (auto simp: names_ok_def s' f)
    moreover have "open_files s' = open_files s" "file_fbs s' = file_fbs s" "plane_list s' = plane_list s" by (simp_all add: s' f)
    ultimately show ?thesis using names unfolding names_ok_def reg' fbreg(1,2) by simp
  qed
  ultimately show ?thesis using ids' by (simp add: kms_ok_def kms_inv_def)
qed

lemma plane_init_ok:
  assumes laws: "avl_laws A ok" and inv: "kms_ok A ok X s" and new: "\<not> registered A s (OBJECT_PLANE, pl)" "pl \<notin> set (plane_list s)"
    and run: "drm_plane_init A alloc kmalloc pl formats False s = (ret, s')"
  shows "kms_ok A ok X s'"
proof -
  have kinv: "kms_inv A ok X s" and names: "names_ok A s" using inv by (simp_all add: kms_ok_def)
  note i = kms_invD [OF kinv]
  obtain r s1 where g: "drm_mode_object_get A alloc (OBJECT_PLANE, pl) s = (r, s1)" by force
  note get = object_get_ok [OF laws i(1) new(1) g]
  obtain a b where upd: "s1 = s\<lparr>crtc_idr := a, object_id := b\<rparr>" using object_get_upd [OF g] by blast
  have id1: "ids_ok A ok s1" using get by blast
  let ?o = "s1\<lparr>obj_props := (obj_props s1)((OBJECT_PLANE, pl) \<mapsto> [])\<rparr>"
  let ?s2 = "drm_mode_object_put A True (OBJECT_PLANE, pl) ?o"
  define t where "t = (if r \<noteq> Inr () then s1 else if \<not> kmalloc then ?s2 else ?o)"
  have put: "ids_ok A ok ?s2 \<and> registered A ?s2 = (registered A s1)((OBJECT_PLANE, pl) := False)" if "r = Inr ()"
    using object_put_ok [OF laws, of ?o "(OBJECT_PLANE, pl)"] id1 get that by simp
  have idt: "ids_ok A ok t" using put id1 by (auto simp: t_def)
  have regt: "registered A t (OBJECT_FB, q) = registered A s (OBJECT_FB, q)"
      "registered A t (OBJECT_CRTC, q) = registered A s (OBJECT_CRTC, q)"
      "registered A t (OBJECT_PLANE, q) \<Longrightarrow> registered A s (OBJECT_PLANE, q) \<or> q = pl \<and> r = Inr () \<and> kmalloc" for q
    using get put by (cases r; auto simp: t_def split: if_splits)+
  have f: "fbs t = fbs s" "fb_list t = fb_list s" "num_fb t = num_fb s" "open_files t = open_files s"
    "file_fbs t = file_fbs s" "crtc_list t = crtc_list s" "crtcs t = crtcs s"
    "plane_list t = plane_list s" "planes t = planes s" by (simp_all add: t_def upd drm_mode_object_put_def)
  let ?u = "t\<lparr>planes := (planes t)(pl := \<lparr>plane_fb = None, plane_crtc = None, format_types = formats\<rparr>), plane_list := plane_list t @ [pl]\<rparr>"
  have s': "s' = (if r = Inr () \<and> kmalloc then ?u else t)"
    using run g by (cases r) (auto simp: drm_plane_init_def t_def Let_def)
  have reg': "registered A s' = registered A t" by (simp add: s' registered_def fun_eq_iff)
  have sh: "shown (\<lambda>d. plane_fb (if d = pl then \<lparr>plane_fb = None, plane_crtc = None, format_types = formats\<rparr> else planes s d)) (plane_list s)
      = shown (\<lambda>d. plane_fb (planes s d)) (plane_list s)"
    using new(2) by (intro shown_cong) auto
  have ids': "ids_ok A ok s'" using idt by (simp add: s' ids_ok_def)
  have r': "refs A s' X = refs A s X"
    unfolding refs_def core_refs_def reg' regt(1) by (simp add: s' f sh shown_append)
  have "cells_ok (refs A s' X) s'" unfolding r' using i(3) by (simp add: cells_ok_def s' f)
  moreover have "lists_ok A s'" using i(2) new(2) unfolding lists_ok_def reg' regt(1) by (simp add: s' f)
  moreover have "names_ok A s'" using names regt(3) unfolding names_ok_def reg' regt(1,2) by (auto simp: s' f)
  ultimately show ?thesis using ids' by (simp add: kms_ok_def kms_inv_def)
qed

subsection \<open>Runs\<close>

text \<open>
  The states that a device reaches. The memory that an allocator returns is not in use, there are
  ids left, and the number of references stays below the range of a counter (\<open>room\<close>).
\<close>

inductive kms_reach :: "(mode_ref ptr, 't) avl_ops \<Rightarrow> set_config \<Rightarrow> 't kms \<Rightarrow> bool" for A hook where
  init: "remove_mem E \<Longrightarrow> slots_fresh E [edid_property, dpms_property] (blank_config A a b c d) \<Longrightarrow>
    drm_mode_config_init A E a b c d = Inr s \<Longrightarrow> kms_reach A hook s"
| connector: "kms_reach A hook s \<Longrightarrow> \<not> registered A s (OBJECT_CONNECTOR, cn) \<Longrightarrow>
    drm_connector_init A alloc virt cn ty s = Inr (ret, s') \<Longrightarrow> kms_reach A hook s'"
| set_property: "kms_reach A hook s \<Longrightarrow> drm_mode_obj_set_property_ioctl A modeset ask arg s = Inr (ret, s') \<Longrightarrow> kms_reach A hook s'"
| crtc: "kms_reach A hook s \<Longrightarrow> \<not> registered A s (OBJECT_CRTC, cr) \<Longrightarrow> cr \<notin> set (crtc_list s) \<Longrightarrow>
    drm_crtc_init A alloc cr s = (ret, s') \<Longrightarrow> kms_reach A hook s'"
| plane: "kms_reach A hook s \<Longrightarrow> \<not> registered A s (OBJECT_PLANE, pl) \<Longrightarrow> pl \<notin> set (plane_list s) \<Longrightarrow>
    drm_plane_init A alloc kmalloc pl formats False s = (ret, s') \<Longrightarrow> kms_reach A hook s'"
| other: "kms_reach A hook s \<Longrightarrow> \<not> registered A s (ty, q) \<Longrightarrow> ty \<notin> {OBJECT_FB, OBJECT_PLANE, OBJECT_CRTC} \<Longrightarrow>
    drm_mode_object_get A alloc (ty, q) s = (ret, s') \<Longrightarrow> kms_reach A hook s'"
| opened: "kms_reach A hook s \<Longrightarrow> f \<notin> set (open_files s) \<Longrightarrow> kms_reach A hook (kms_open f s)"
| closed: "kms_reach A hook s \<Longrightarrow> room A {#} s \<Longrightarrow> f \<in> set (open_files s) \<Longrightarrow> drm_fb_release A hook True f s = Inr s' \<Longrightarrow>
    kms_reach A hook (s'\<lparr>open_files := remove1 f (open_files s')\<rparr>)"
| addfb: "kms_reach A hook s \<Longrightarrow> f \<in> set (open_files s) \<Longrightarrow> ids_left s \<Longrightarrow> \<forall>p. create = Some p \<longrightarrow> fbs s p = None \<Longrightarrow>
    drm_mode_addfb A modeset True create f old s = Inr (r, s') \<Longrightarrow> kms_reach A hook s'"
| addfb2: "kms_reach A hook s \<Longrightarrow> f \<in> set (open_files s) \<Longrightarrow> ids_left s \<Longrightarrow> \<forall>p. create = Some p \<longrightarrow> fbs s p = None \<Longrightarrow>
    drm_mode_addfb2 A interlaced modeset True create f rq s = Inr (r, s') \<Longrightarrow> kms_reach A hook s'"
| rmfb: "kms_reach A hook s \<Longrightarrow> room A {#} s \<Longrightarrow> f \<in> set (open_files s) \<Longrightarrow>
    drm_mode_rmfb A hook modeset True f i s = Inr (ret, s') \<Longrightarrow> kms_reach A hook s'"
| getfb: "kms_reach A hook s \<Longrightarrow> room A {#} s \<Longrightarrow> drm_mode_getfb A modeset create_handle i s = Inr (g, s') \<Longrightarrow> kms_reach A hook s'"
| setplane: "kms_reach A hook s \<Longrightarrow> room A {#} s \<Longrightarrow> drm_mode_setplane A modeset update sp s = Inr (ret, s') \<Longrightarrow> kms_reach A hook s'"
| setcrtc: "kms_reach A hook s \<Longrightarrow> room A {#} s \<Longrightarrow> kms_set_config E = hook \<Longrightarrow>
    \<forall>q. kms_new_mode E = Some q \<longrightarrow> \<not> registered A s (OBJECT_MODE, q) \<Longrightarrow>
    drm_mode_setcrtc A E cq s = Inr (ret, s') \<Longrightarrow> kms_reach A hook s'"
| page_flip: "kms_reach A hook s \<Longrightarrow> room A {#} s \<Longrightarrow>
    drm_mode_page_flip_ioctl A esize kmalloc flip f pf s = Inr (ret, s') \<Longrightarrow> kms_reach A hook s'"

lemma addfb_ok:
  assumes "avl_laws A ok" "kms_ok A ok X s" "f \<in> set (open_files s)" "ids_left s" "\<forall>p. create = Some p \<longrightarrow> fbs s p = None"
  shows "\<exists>ret s'. drm_mode_addfb A modeset True create f old s = Inr (ret, s') \<and> kms_ok A ok X s'"
    "\<exists>ret s'. drm_mode_addfb2 A interlaced modeset True create f rq s = Inr (ret, s') \<and> kms_ok A ok X s'"
proof -
  have c: "\<exists>ret s'. fb_created A True create f r s = Inr (ret, s') \<and> kms_ok A ok X s'" for r
    using fb_created_ok [OF assms, of r] by blast
  show "\<exists>ret s'. drm_mode_addfb A modeset True create f old s = Inr (ret, s') \<and> kms_ok A ok X s'"
    using assms(2) c unfolding drm_mode_addfb_def Let_def by auto
  show "\<exists>ret s'. drm_mode_addfb2 A interlaced modeset True create f rq s = Inr (ret, s') \<and> kms_ok A ok X s'"
    using assms(2) c [of rq] unfolding drm_mode_addfb2_def by (cases "framebuffer_check rq") auto
qed

lemma kms_reach_ok:
  assumes laws: "avl_laws A ok" and hook: "set_config_ok hook" and "kms_reach A hook s"
  shows "kms_ok A ok {#} s"
  using assms(3)
proof (induction rule: kms_reach.induct)
  case (init E a b c d s)
  from kms_ok_init [OF laws init(1,2)] init(3) show ?case by auto
next
  case (connector s cn alloc virt ty ret s')
  show ?case by (rule connector_init_ok [OF laws connector.IH connector.hyps(2,3)])
next
  case (set_property s modeset ask arg ret s')
  then show ?case using set_property_upd [OF set_property.hyps(2)] by (auto simp: kms_ok_obj)
next
  case (crtc s cr alloc ret s')
  show ?case by (rule crtc_init_ok [OF laws crtc.IH crtc.hyps(2-4)])
next
  case (plane s pl alloc kmalloc formats ret s')
  show ?case by (rule plane_init_ok [OF laws plane.IH plane.hyps(2-4)])
next
  case (other s ty q alloc ret s')
  show ?case by (rule other_object_ok [OF laws other.IH other.hyps(2-4)])
next
  case (opened s f)
  show ?case by (rule kms_ok_open [OF opened.IH opened.hyps(2)])
next
  case (closed s f s')
  from fb_release_loop_ok [OF laws hook closed.IH closed.hyps(2,3) refl] closed.hyps(4)
  have "kms_ok A ok {#} s'" "file_fbs s' f = []" "open_files s' = open_files s" by (auto simp: drm_fb_release_def)
  with closed.hyps(3) show ?case by (intro kms_ok_close) simp_all
next
  case (addfb s f create modeset old r s')
  from addfb_ok(1) [OF laws addfb.IH addfb.hyps(2-4), of modeset old] addfb.hyps(5) show ?case by auto
next
  case (addfb2 s f create interlaced modeset rq r s')
  from addfb_ok(2) [OF laws addfb2.IH addfb2.hyps(2-4), of interlaced modeset rq] addfb2.hyps(5) show ?case by auto
next
  case (rmfb s f modeset i ret s')
  from rmfb_ok [OF laws hook rmfb.IH rmfb.hyps(2,3), of modeset i] rmfb.hyps(4) show ?case by auto
next
  case (getfb s modeset create_handle i g s')
  from getfb_ok [OF getfb.IH getfb.hyps(2), of modeset create_handle i] getfb.hyps(3) show ?case by auto
next
  case (setplane s modeset update sp ret s')
  from setplane_ok [OF setplane.IH setplane.hyps(2), of modeset update sp] setplane.hyps(3) show ?case by auto
next
  case (setcrtc s E cq ret s')
  have "set_config_ok (kms_set_config E)" using hook setcrtc.hyps(3) by simp
  from setcrtc_ok [OF laws this setcrtc.IH setcrtc.hyps(2,4), of cq] setcrtc.hyps(5) show ?case by auto
next
  case (page_flip s esize kmalloc flip f pf ret s')
  from page_flip_ok [OF page_flip.IH page_flip.hyps(2), of esize kmalloc flip f pf] page_flip.hyps(3) show ?case by auto
qed

subsection \<open>Properties\<close>

lemma count_shown: "distinct cs \<Longrightarrow> count (shown f cs) p = card {c \<in> set cs. f c = Some p}"
proof (induction cs)
  case (Cons c cs)
  have "{d \<in> set (c # cs). f d = Some p} = (if f c = Some p then insert c {d \<in> set cs. f d = Some p} else {d \<in> set cs. f d = Some p})"
    by auto
  with Cons show ?case by (cases "f c") auto
qed simp

lemma count_mset_distinct: "distinct xs \<Longrightarrow> count (mset xs) p = of_bool (p \<in> set xs)"
  by (induction xs) auto


text \<open>The driver of the examples sets what it is told to.\<close>

definition plain_set_config :: set_config where
  "plain_set_config st cs = (Inr (), cs(set_crtc st := (cs (set_crtc st))\<lparr>crtc_fb := set_fb st\<rparr>))"

lemma plain_set_config_ok: "set_config_ok plain_set_config" "set_config_off plain_set_config"
  by (auto simp: set_config_ok_def set_config_off_def plain_set_config_def)

text \<open>Its EDID property is 1 and its DPMS property 2, with the ids 1 and 2.\<close>

definition run_env :: prop_env where
  "run_env = \<lparr>mode_consts = (\<lambda>k. the (map_of [(''DRM_MODE_DPMS_ON'', 0), (''DRM_MODE_DPMS_STANDBY'', 1), (''DRM_MODE_DPMS_SUSPEND'', 2),
       (''DRM_MODE_DPMS_OFF'', 3)] k)), name_len = 32, slot_mem = (\<lambda>sl. dev_mem (if sl = edid_property then 1 else 2)), remove_mem = True\<rparr>"

definition run_kms :: "(u32 \<times> mode_ref ptr) list kms" where
  "run_kms = kms_open 7 (projr (drm_mode_config_init sal_avl run_env 0 4096 0 4096))"

lemma run_config_init:
  "\<exists>s. drm_mode_config_init sal_avl run_env 0 4096 0 4096 = Inr s \<and> kms_reach (sal_avl :: (mode_ref ptr, _) avl_ops) hook s \<and>
     kms_ok (sal_avl :: (mode_ref ptr, _) avl_ops) sal_ok {#} s"
proof -
  have fresh: "remove_mem run_env" "slots_fresh run_env [edid_property, dpms_property] (blank_config sal_avl 0 4096 0 4096)"
    by (simp_all add: run_env_def slots_fresh_def blank_config_def dev_mem_def)
  from kms_ok_init [OF sal_avl_laws fresh] show ?thesis using kms_reach.init [OF fresh] by blast
qed

lemmas run_simps = run_kms_def run_env_def kms_open_def drm_mode_config_init_def blank_config_def drm_mode_create_standard_connector_properties_def
  enum_slot_def set_slot_def drm_dpms_enum_list_def drm_property_create_enum_def create_listed_def drm_property_create_def copy_name_def
  drm_property_add_enum_def dev_mem_def dev_limits drm_mode_object_get_def idr_pre_get_def idr_get_new_above_def idr_init_def sal_avl_def
  fr_new_def fr_link_def fr_isfull_def idr_get_free_id_in_range_def Let_def drm_mode_object_find_def idr_find_def idr_find_used_id_def

definition run_request :: drm_mode_fb_cmd where
  "run_request = \<lparr>old_width = 640, old_height = 480, old_pitch = 2560, old_bpp = 32, old_depth = 24, old_handle = 5\<rparr>"

lemma run_kms_facts:
  "open_files run_kms = [7]" "file_fbs run_kms = (\<lambda>_. [])" "fbs run_kms = (\<lambda>_. None)" "crtc_list run_kms = []" "plane_list run_kms = []"
  "\<not> registered sal_avl run_kms (OBJECT_FB, p)" "5 \<notin> live_ids (free_id_ranges (crtc_idr run_kms))"
  by (simp_all add: run_simps registered_def fr_live_def fun_eq_iff)

lemma run_kms_ids: "ids_left run_kms"
  unfolding ids_left_def by (intro exI [of _ 5] conjI run_kms_facts) (simp_all add: word_le_nat_alt word_less_nat_alt)

lemma run_kms_reach: "kms_reach sal_avl hook run_kms"
proof -
  obtain s where "drm_mode_config_init sal_avl run_env 0 4096 0 4096 = Inr s" "kms_reach (sal_avl :: (mode_ref ptr, _) avl_ops) hook s"
    using run_config_init by blast
  moreover from this have "7 \<notin> set (open_files s)" by (auto simp: run_simps)
  ultimately show ?thesis unfolding run_kms_def by (auto intro: kms_reach.opened)
qed

lemma run_addfb:
  "\<exists>s'. drm_mode_addfb sal_avl True True (Some 9) 7 run_request run_kms = Inr (Inr 3, s') \<and>
     file_fbs s' 7 = [9] \<and> open_files s' = [7] \<and> fbs s' 9 \<noteq> None \<and> crtc_list s' = [] \<and> plane_list s' = [] \<and>
     drm_mode_object_find sal_avl 3 OBJECT_FB s' = Some 9 \<and> (\<forall>p. registered sal_avl s' (OBJECT_FB, p) = (p = 9))"
  by (simp add: drm_mode_addfb_def run_request_def fb_created_def fb_create_def drm_framebuffer_init_def drm_framebuffer_reference_def
      registered_def run_simps)







end
