(* ===== verification/Drm_Vblank.thy ===== *)
theory Drm_Vblank
  imports Drm_Prelude
begin

text \<open>
  Vertical blanking (\<open>drm_irq.c\<close>) and the events it delivers to open files (\<open>drm_fops.c\<close>): the count of
  frames of each CRTC, the references that keep its interrupt on, the list of events waiting for a
  frame, the processes waiting for one, and what the interrupt handler does with them.

  The functions run under the device's spin locks and are steps. What a call reads from the hardware is
  an argument of the call: the successive values of the frame counter, of the driver's timestamp
  query and of the clock.
\<close>

subsection \<open>State\<close>

record timeval =
  tv_sec :: int
  tv_usec :: int

text \<open>
  What is in \<open>drm.h\<close>, which is not part of the repository: the bits of the type of a request, and the
  size of an event.
\<close>

record vblank_h =
  VBLANK_RELATIVE :: u32
  VBLANK_ABSOLUTE :: u32
  VBLANK_TYPES_MASK :: u32
  VBLANK_FLAGS_MASK :: u32
  VBLANK_HIGH_CRTC_MASK :: u32
  VBLANK_HIGH_CRTC_SHIFT :: nat
  VBLANK_SIGNAL :: u32
  VBLANK_SECONDARY :: u32
  VBLANK_EVENT :: u32
  VBLANK_NEXTONMISS :: u32
  event_size :: nat

text \<open>
  The driver and the parameters of the module: whether there is a \<open>get_vblank_timestamp\<close>, the values
  \<open>drm_timestamp_precision\<close> and \<open>drm_vblank_offdelay\<close>, and \<open>timeval_to_ns\<close>, which the headers of the
  system define.
\<close>

record vblank_drv =
  has_timestamp :: bool
  timestamp_precision :: u32
  vblank_offdelay :: u32
  timeval_to_ns :: "timeval \<Rightarrow> u64"

text \<open>
  The hardware during one call. \<open>hw_counter\<close>: the results of \<open>get_vblank_counter\<close> in order; \<open>hw_stamp\<close>: the
  value returned by \<open>get_vblank_timestamp\<close> and the time it stores, in order, for a query from the
  interrupt or not; \<open>hw_clock\<close>: the clock; \<open>hw_enable\<close>: an error from \<open>enable_vblank\<close>.
\<close>

record vblank_hw =
  hw_counter :: "nat \<Rightarrow> u32"
  hw_stamp :: "nat \<Rightarrow> bool \<Rightarrow> int \<times> timeval"
  hw_clock :: "nat \<Rightarrow> timeval"
  hw_enable :: "errno option"

text \<open>\<open>struct drm_pending_vblank_event\<close> with the fields of its \<open>base\<close> and \<open>event\<close>.\<close>

record vevent =
  ev_file :: nat
  ev_pipe :: int
  ev_sequence :: u32
  ev_sec :: u32
  ev_usec :: u32
  ev_user_data :: u64

record vfile =
  ev_list :: "vevent list"
  ev_space :: int

text \<open>
  \<open>union drm_wait_vblank\<close>: the request and the reply share the type, the sequence, and the signal, which
  is the seconds of the reply.
\<close>

record vblwait =
  wtype :: u32
  wsequence :: u32
  wsignal :: u64
  wusec :: u64

text \<open>
  The fields of the device. \<open>vbl_sleepers\<close>: the processes inside \<open>DRM_WAIT_ON\<close> with the CRTC and the
  argument of their call; \<open>flip_held\<close>: the events of page flips that the driver still has.
\<close>

record vblank_dev =
  num_crtcs :: int
  vblank_count :: "int \<Rightarrow> u32"
  vblank_refcount :: "int \<Rightarrow> u32"
  vblank_enabled :: "int \<Rightarrow> bool"
  last_vblank :: "int \<Rightarrow> u32"
  last_vblank_wait :: "int \<Rightarrow> u32"
  vblank_inmodeset :: "int \<Rightarrow> u32"
  vblank_time :: "int \<Rightarrow> timeval"
  max_vblank_count :: u32
  vblank_disable_allowed :: bool
  disable_timer :: bool
  irq_enabled :: bool
  vblank_event_list :: "vevent list"
  vfiles :: "nat \<Rightarrow> vfile option"
  vbl_sleepers :: "(nat \<times> int \<times> vblwait) list"
  flip_held :: "vevent list"

definition crtc_ok :: "int \<Rightarrow> vblank_dev \<Rightarrow> bool" where
  "crtc_ok crtc s \<longleftrightarrow> 0 \<le> crtc \<and> crtc < num_crtcs s"

subsection \<open>Timestamps\<close>

definition DRM_VBLANKTIME_RBSIZE :: int where "DRM_VBLANKTIME_RBSIZE = 2"

definition DRM_TIMESTAMP_MAXRETRIES :: nat where "DRM_TIMESTAMP_MAXRETRIES = 3"

definition DRM_REDUNDANT_VBLIRQ_THRESH_NS :: int where "DRM_REDUNDANT_VBLIRQ_THRESH_NS = 1000000"

definition vblank_slot :: "int \<Rightarrow> u32 \<Rightarrow> int" where
  "vblank_slot crtc count = crtc * DRM_VBLANKTIME_RBSIZE + uint count mod DRM_VBLANKTIME_RBSIZE"

definition vblanktimestamp :: "vblank_dev \<Rightarrow> int \<Rightarrow> u32 \<Rightarrow> timeval" where
  "vblanktimestamp s crtc count = vblank_time s (vblank_slot crtc count)"

text \<open>The bytes of a cleared slot are all \<open>0xff\<close>.\<close>

definition no_time :: timeval where
  "no_time = \<lparr>tv_sec = - 1, tv_usec = - 1\<rparr>"

definition clear_vblank_timestamps :: "int \<Rightarrow> vblank_dev \<Rightarrow> vblank_dev" where
  "clear_vblank_timestamps crtc s =
     s\<lparr>vblank_time := (vblank_time s)(crtc * DRM_VBLANKTIME_RBSIZE := no_time, crtc * DRM_VBLANKTIME_RBSIZE + 1 := no_time)\<rparr>"

text \<open>The macro \<open>abs\<close> on \<open>s64\<close>, and the difference of two times.\<close>

definition abs64 :: "u64 \<Rightarrow> int" where
  "abs64 x = (if sint x < 0 then sint (- x) else sint x)"

definition diff_ns :: "vblank_drv \<Rightarrow> timeval \<Rightarrow> timeval \<Rightarrow> u64" where
  "diff_ns D a b = timeval_to_ns D a - timeval_to_ns D b"

text \<open>The \<open>i\<close>-th query of a call. The result is the value returned and the time.\<close>

definition drm_get_last_vbltimestamp :: "vblank_drv \<Rightarrow> vblank_hw \<Rightarrow> nat \<Rightarrow> bool \<Rightarrow> u32 \<times> timeval" where
  "drm_get_last_vbltimestamp D h i from_irq =
     (if has_timestamp D \<and> wrap32 (sint (timestamp_precision D) * 1000) > 0 \<and> fst (hw_stamp h i from_irq) > 0
      then (word_of_int (fst (hw_stamp h i from_irq)), snd (hw_stamp h i from_irq))
      else (0, hw_clock h i))"

definition drm_vblank_count :: "int \<Rightarrow> vblank_dev \<Rightarrow> u32" where
  "drm_vblank_count crtc s = vblank_count s crtc"

definition drm_vblank_count_and_time :: "int \<Rightarrow> vblank_dev \<Rightarrow> u32 \<times> timeval" where
  "drm_vblank_count_and_time crtc s = (vblank_count s crtc, vblanktimestamp s crtc (vblank_count s crtc))"

subsection \<open>Events\<close>

text \<open>A file that is not open is freed memory.\<close>

definition send_vblank_event :: "vevent \<Rightarrow> u32 \<Rightarrow> timeval \<Rightarrow> vblank_dev \<Rightarrow> vblank_dev result" where
  "send_vblank_event e seq now s =
     (let e = e\<lparr>ev_sequence := seq, ev_sec := word_of_int (tv_sec now), ev_usec := word_of_int (tv_usec now)\<rparr>
      in case vfiles s (ev_file e) of
           None \<Rightarrow> Inl BUG
         | Some f \<Rightarrow> Inr (s\<lparr>vfiles := (vfiles s)(ev_file e \<mapsto> f\<lparr>ev_list := ev_list f @ [e]\<rparr>)\<rparr>))"

text \<open>\<open>e\<close> is one of the events of the driver; a negative \<open>crtc\<close> stands for no CRTC.\<close>

definition drm_send_vblank_event :: "vblank_hw \<Rightarrow> int \<Rightarrow> vevent \<Rightarrow> vblank_dev \<Rightarrow> vblank_dev result" where
  "drm_send_vblank_event h crtc e s =
     (let (seq, now) = (if crtc \<ge> 0 then drm_vblank_count_and_time crtc s else (0, hw_clock h 0));
          s = s\<lparr>flip_held := remove1 e (flip_held s)\<rparr>
      in if crtc \<ge> num_crtcs s then Inl BUG
         else send_vblank_event (e\<lparr>ev_pipe := crtc\<rparr>) seq now s)"

subsection \<open>Turning the interrupt on and off\<close>

text \<open>
  The loop reads the counter twice in a round. The result: the value kept in \<open>last_vblank\<close>, the status
  and the time of the last query, and the variable \<open>count\<close>.
\<close>

fun disable_samples :: "vblank_drv \<Rightarrow> vblank_hw \<Rightarrow> nat \<Rightarrow> nat \<Rightarrow> u32 \<times> u32 \<times> timeval \<times> nat" where
  "disable_samples D h i 0 = (hw_counter h (2 * i), fst (drm_get_last_vbltimestamp D h i False), snd (drm_get_last_vbltimestamp D h i False), 0)"
| "disable_samples D h i (Suc count) =
     (let last = hw_counter h (2 * i);
          (vblrc, tvblank) = drm_get_last_vbltimestamp D h i False
      in if last = hw_counter h (2 * i + 1) then (last, vblrc, tvblank, Suc count)
         else if count \<noteq> 0 \<and> vblrc \<noteq> 0 then disable_samples D h (i + 1) count
         else (last, vblrc, tvblank, count))"

definition vblank_disable_and_save :: "vblank_drv \<Rightarrow> vblank_hw \<Rightarrow> int \<Rightarrow> vblank_dev \<Rightarrow> vblank_dev" where
  "vblank_disable_and_save D h crtc s =
     (let s = s\<lparr>vblank_enabled := (vblank_enabled s)(crtc := False)\<rparr>;
          (last, vblrc, tvblank, count) = disable_samples D h 0 DRM_TIMESTAMP_MAXRETRIES;
          s = s\<lparr>last_vblank := (last_vblank s)(crtc := last)\<rparr>;
          vblrc = (if count = 0 then 0 else vblrc);
          vblcount = vblank_count s crtc;
          s = (if sint vblrc > 0 \<and> abs64 (diff_ns D tvblank (vblanktimestamp s crtc vblcount)) > 1000000
               then s\<lparr>vblank_count := (vblank_count s)(crtc := vblank_count s crtc + 1)\<rparr> else s)
      in clear_vblank_timestamps crtc s)"

text \<open>\<open>h\<close> gives the hardware for each CRTC. The timer runs no more when its function is called.\<close>

definition vblank_disable_one :: "vblank_drv \<Rightarrow> (int \<Rightarrow> vblank_hw) \<Rightarrow> int \<Rightarrow> vblank_dev \<Rightarrow> vblank_dev" where
  "vblank_disable_one D h i s =
     (if vblank_refcount s i = 0 \<and> vblank_enabled s i then vblank_disable_and_save D (h i) i s else s)"

definition vblank_disable_fn :: "vblank_drv \<Rightarrow> (int \<Rightarrow> vblank_hw) \<Rightarrow> vblank_dev \<Rightarrow> vblank_dev" where
  "vblank_disable_fn D h s =
     (let s = s\<lparr>disable_timer := False\<rparr>
      in if \<not> vblank_disable_allowed s then s
         else fold (vblank_disable_one D h) [0..num_crtcs s - 1] s)"

text \<open>
  The loop of \<open>drm_update_vblank_count\<close> repeats until two reads of the counter agree. It has no bound:
  \<open>None\<close> is that it does not end.
\<close>

partial_function (option) update_samples :: "vblank_drv \<Rightarrow> vblank_hw \<Rightarrow> nat \<Rightarrow> (u32 \<times> u32 \<times> timeval) option" where
  "update_samples D h i =
     (if hw_counter h (2 * i) \<noteq> hw_counter h (2 * i + 1) then update_samples D h (i + 1)
      else Some (hw_counter h (2 * i), drm_get_last_vbltimestamp D h i False))"

definition missed_vblanks :: "u32 \<Rightarrow> u32 \<Rightarrow> u32 \<Rightarrow> u32" where
  "missed_vblanks cur_vblank last_count max_count =
     (let diff = cur_vblank - last_count in if cur_vblank < last_count then diff + max_count else diff)"

definition drm_update_vblank_count :: "vblank_drv \<Rightarrow> vblank_hw \<Rightarrow> int \<Rightarrow> vblank_dev \<Rightarrow> vblank_dev option" where
  "drm_update_vblank_count D h crtc s =
     (case update_samples D h 0 of
        None \<Rightarrow> None
      | Some (cur_vblank, rc, t_vblank) \<Rightarrow>
          let diff = missed_vblanks cur_vblank (last_vblank s crtc) (max_vblank_count s);
              s = (if rc \<noteq> 0
                   then s\<lparr>vblank_time := (vblank_time s)(vblank_slot crtc (vblank_count s crtc + diff) := t_vblank)\<rparr>
                   else s)
          in Some (s\<lparr>vblank_count := (vblank_count s)(crtc := vblank_count s crtc + diff)\<rparr>))"

subsection \<open>References\<close>

text \<open>The value returned is an error number or nothing; \<open>None\<close>: the call does not return.\<close>

definition drm_vblank_get :: "vblank_drv \<Rightarrow> vblank_hw \<Rightarrow> int \<Rightarrow> vblank_dev \<Rightarrow> (errno option \<times> vblank_dev) result option" where
  "drm_vblank_get D h crtc s =
     (if \<not> crtc_ok crtc s then Some (Inl BUG)
      else let old = vblank_refcount s crtc;
               taken = s\<lparr>vblank_refcount := (vblank_refcount s)(crtc := old + 1)\<rparr>
           in if old + 1 = 1
              then if vblank_enabled s crtc then Some (Inr (None, taken))
                   else (case hw_enable h of
                           Some ret \<Rightarrow> Some (Inr (Some ret, s))
                         | None \<Rightarrow>
                             (case drm_update_vblank_count D h crtc
                                     (taken\<lparr>vblank_enabled := (vblank_enabled s)(crtc := True)\<rparr>) of
                                None \<Rightarrow> None
                              | Some s \<Rightarrow> Some (Inr (None, s))))
              else if vblank_enabled s crtc then Some (Inr (None, taken))
              else Some (Inr (Some EINVAL, s)))"

definition drm_vblank_put :: "vblank_drv \<Rightarrow> int \<Rightarrow> vblank_dev \<Rightarrow> vblank_dev result" where
  "drm_vblank_put D crtc s =
     (if \<not> crtc_ok crtc s \<or> vblank_refcount s crtc = 0 then Inl BUG
      else let s = s\<lparr>vblank_refcount := (vblank_refcount s)(crtc := vblank_refcount s crtc - 1)\<rparr>
           in Inr (if vblank_refcount s crtc = 0 \<and> vblank_offdelay D > 0 then s\<lparr>disable_timer := True\<rparr> else s))"

text \<open>
  The loops over the list of waiting events: each event that \<open>P\<close> selects is taken off the list, its
  reference is dropped, and \<open>act\<close> is done with it.
\<close>

fun event_loop :: "vblank_drv \<Rightarrow> (vevent \<Rightarrow> bool) \<Rightarrow> (vevent \<Rightarrow> vblank_dev \<Rightarrow> vblank_dev result) \<Rightarrow> vevent list \<Rightarrow>
    vblank_dev \<Rightarrow> vblank_dev result" where
  "event_loop D P act [] s = Inr s"
| "event_loop D P act (e # es) s =
     (if \<not> P e then event_loop D P act es s
      else case drm_vblank_put D (ev_pipe e) (s\<lparr>vblank_event_list := remove1 e (vblank_event_list s)\<rparr>) of
             Inl x \<Rightarrow> Inl x
           | Inr s \<Rightarrow> (case act e s of Inl x \<Rightarrow> Inl x | Inr s \<Rightarrow> event_loop D P act es s))"

definition drm_vblank_off :: "vblank_drv \<Rightarrow> vblank_hw \<Rightarrow> int \<Rightarrow> vblank_dev \<Rightarrow> vblank_dev result" where
  "drm_vblank_off D h crtc s =
     (if \<not> crtc_ok crtc s then Inl BUG
      else let s = vblank_disable_and_save D h crtc s;
               (seq, now) = drm_vblank_count_and_time crtc s
           in event_loop D (\<lambda>e. ev_pipe e = crtc) (\<lambda>e. send_vblank_event e seq now) (vblank_event_list s) s)"

subsection \<open>Mode setting\<close>

definition drm_vblank_pre_modeset :: "vblank_drv \<Rightarrow> vblank_hw \<Rightarrow> int \<Rightarrow> vblank_dev \<Rightarrow> vblank_dev result option" where
  "drm_vblank_pre_modeset D h crtc s =
     (if num_crtcs s = 0 then Some (Inr s)
      else if \<not> crtc_ok crtc s then Some (Inl BUG)
      else if vblank_inmodeset s crtc \<noteq> 0 then Some (Inr s)
      else case drm_vblank_get D h crtc (s\<lparr>vblank_inmodeset := (vblank_inmodeset s)(crtc := 1)\<rparr>) of
             None \<Rightarrow> None
           | Some (Inl x) \<Rightarrow> Some (Inl x)
           | Some (Inr (Some _, s)) \<Rightarrow> Some (Inr s)
           | Some (Inr (None, s)) \<Rightarrow>
               Some (Inr (s\<lparr>vblank_inmodeset := (vblank_inmodeset s)(crtc := vblank_inmodeset s crtc OR 2)\<rparr>)))"

definition drm_vblank_post_modeset :: "vblank_drv \<Rightarrow> int \<Rightarrow> vblank_dev \<Rightarrow> vblank_dev result" where
  "drm_vblank_post_modeset D crtc s =
     (if num_crtcs s = 0 then Inr s
      else if \<not> crtc_ok crtc s then Inl BUG
      else if vblank_inmodeset s crtc = 0 then Inr s
      else let s = s\<lparr>vblank_disable_allowed := True\<rparr>
           in case (if vblank_inmodeset s crtc AND 2 \<noteq> 0 then drm_vblank_put D crtc s else Inr s) of
                Inl x \<Rightarrow> Inl x
              | Inr s \<Rightarrow> Inr (s\<lparr>vblank_inmodeset := (vblank_inmodeset s)(crtc := 0)\<rparr>))"

text \<open>The commands of the ioctl; \<open>kms\<close>: the driver sets modes in the kernel.\<close>

datatype modeset_cmd = PRE_MODESET | POST_MODESET | OTHER_MODESET

definition drm_modeset_ctl :: "vblank_drv \<Rightarrow> vblank_hw \<Rightarrow> bool \<Rightarrow> modeset_cmd \<Rightarrow> u32 \<Rightarrow> vblank_dev \<Rightarrow>
    (errno option \<times> vblank_dev) result option" where
  "drm_modeset_ctl D h kms cmd crtc s =
     (if num_crtcs s = 0 \<or> kms then Some (Inr (None, s))
      else if uint crtc \<ge> num_crtcs s then Some (Inr (Some EINVAL, s))
      else case cmd of
             PRE_MODESET \<Rightarrow>
               map_option (\<lambda>r. case r of Inl x \<Rightarrow> Inl x | Inr s \<Rightarrow> Inr (None, s)) (drm_vblank_pre_modeset D h (uint crtc) s)
           | POST_MODESET \<Rightarrow>
               Some (case drm_vblank_post_modeset D (uint crtc) s of Inl x \<Rightarrow> Inl x | Inr s \<Rightarrow> Inr (None, s))
           | OTHER_MODESET \<Rightarrow> Some (Inr (Some EINVAL, s)))"

subsection \<open>Waiting\<close>

text \<open>
  \<open>kzalloc\<close> says whether there is memory for the event. The space of a file is compared as an unsigned
  number, so that a negative one would pass.
\<close>

definition space_short :: "vblank_h \<Rightarrow> vfile \<Rightarrow> bool" where
  "space_short H f \<longleftrightarrow> 0 \<le> ev_space f \<and> ev_space f < int (event_size H)"

definition passed :: "u32 \<Rightarrow> u32 \<Rightarrow> bool" where
  "passed seq target \<longleftrightarrow> seq - target \<le> 2 ^ 23"

definition next_on_miss :: "vblank_h \<Rightarrow> u32 \<Rightarrow> u32 \<Rightarrow> vblwait \<Rightarrow> vblwait" where
  "next_on_miss H flags seq w =
     (if flags AND VBLANK_NEXTONMISS H \<noteq> 0 \<and> passed seq (wsequence w) then w\<lparr>wsequence := seq + 1\<rparr> else w)"

definition drm_queue_vblank_event :: "vblank_h \<Rightarrow> vblank_drv \<Rightarrow> bool \<Rightarrow> int \<Rightarrow> vblwait \<Rightarrow> nat \<Rightarrow> vblank_dev \<Rightarrow>
    (errno option \<times> vblwait \<times> vblank_dev) result" where
  "drm_queue_vblank_event H D kzalloc pipe w file s =
     (let err_put = (\<lambda>ret. case drm_vblank_put D pipe s of Inl x \<Rightarrow> Inl x | Inr s \<Rightarrow> Inr (Some ret, w, s))
      in if \<not> kzalloc then err_put ENOMEM
         else case vfiles s file of
                None \<Rightarrow> Inl BUG
              | Some f \<Rightarrow>
                  if space_short H f then err_put EBUSY
                  else let s = s\<lparr>vfiles := (vfiles s)(file \<mapsto> f\<lparr>ev_space := ev_space f - int (event_size H)\<rparr>)\<rparr>;
                           (seq, now) = drm_vblank_count_and_time pipe s;
                           user_data = wsignal w;
                           w = next_on_miss H (wtype w) seq w;
                           e = \<lparr>ev_file = file, ev_pipe = pipe, ev_sequence = wsequence w, ev_sec = 0, ev_usec = 0,
                                ev_user_data = user_data\<rparr>
                       in if passed seq (wsequence w)
                          then case drm_vblank_put D pipe s of
                                 Inl x \<Rightarrow> Inl x
                               | Inr s \<Rightarrow>
                                   (case send_vblank_event e seq now s of
                                      Inl x \<Rightarrow> Inl x
                                    | Inr s \<Rightarrow> Inr (None, w\<lparr>wsequence := seq\<rparr>, s))
                          else Inr (None, w, s\<lparr>vblank_event_list := vblank_event_list s @ [e]\<rparr>))"

text \<open>
  A wait that has to sleep is left in \<open>vbl_sleepers\<close> under the number of its process. A value returned on
  the right is the non-negative \<open>int\<close> of the code: 0, or the \<open>EBUSY\<close> or \<open>EINTR\<close> of \<open>DRM_WAIT_ON\<close>.
\<close>

datatype vwait_out = Sleeping | Returned_ret "errno + int"

definition EINTR_NO :: int where "EINTR_NO = 4"

definition EBUSY_NO :: int where "EBUSY_NO = 16"

definition wait_condition :: "int \<Rightarrow> vblwait \<Rightarrow> vblank_dev \<Rightarrow> bool" where
  "wait_condition crtc w s \<longleftrightarrow> passed (drm_vblank_count crtc s) (wsequence w) \<or> \<not> irq_enabled s"

definition wait_finish :: "vblank_drv \<Rightarrow> int \<Rightarrow> int \<Rightarrow> vblwait \<Rightarrow> vblank_dev \<Rightarrow> (vwait_out \<times> vblwait \<times> vblank_dev) result" where
  "wait_finish D ret crtc w s =
     (let (seq, now) = drm_vblank_count_and_time crtc s;
          w = (if ret \<noteq> - EINTR_NO
               then w\<lparr>wsequence := seq, wsignal := word_of_int (tv_sec now), wusec := word_of_int (tv_usec now)\<rparr> else w)
      in case drm_vblank_put D crtc s of Inl x \<Rightarrow> Inl x | Inr s \<Rightarrow> Inr (Returned_ret (Inr ret), w, s))"

definition wait_round :: "vblank_drv \<Rightarrow> nat \<Rightarrow> int \<Rightarrow> vblwait \<Rightarrow> vblank_dev \<Rightarrow> (vwait_out \<times> vblwait \<times> vblank_dev) result" where
  "wait_round D pid crtc w s =
     (if wait_condition crtc w s then wait_finish D 0 crtc w s
      else Inr (Sleeping, w, s\<lparr>vbl_sleepers := (pid, crtc, w) # vbl_sleepers s\<rparr>))"

text \<open>\<open>ret\<close> is the value of \<open>cv_reltimedwait_sig\<close>: -1 after the time, 0 for a signal, else woken.\<close>

definition wait_wake :: "vblank_drv \<Rightarrow> int \<Rightarrow> nat \<times> int \<times> vblwait \<Rightarrow> vblank_dev \<Rightarrow> (vwait_out \<times> vblwait \<times> vblank_dev) result" where
  "wait_wake D ret z s =
     (case z of (pid, crtc, w) \<Rightarrow>
        let s = s\<lparr>vbl_sleepers := remove1 z (vbl_sleepers s)\<rparr>
        in if ret = - 1 then wait_finish D EBUSY_NO crtc w s
           else if ret = 0 then wait_finish D EINTR_NO crtc w s
           else wait_round D pid crtc w s)"

definition wait_crtc :: "vblank_h \<Rightarrow> u32 \<Rightarrow> u32" where
  "wait_crtc H t =
     (let high_crtc = t AND VBLANK_HIGH_CRTC_MASK H
      in if high_crtc \<noteq> 0 then drop_bit (VBLANK_HIGH_CRTC_SHIFT H) high_crtc
         else if (t AND VBLANK_FLAGS_MASK H) AND VBLANK_SECONDARY H \<noteq> 0 then 1 else 0)"

text \<open>The part after the reference has been taken.\<close>

definition wait_taken :: "vblank_h \<Rightarrow> vblank_drv \<Rightarrow> bool \<Rightarrow> nat \<Rightarrow> nat \<Rightarrow> int \<Rightarrow> vblwait \<Rightarrow> vblank_dev \<Rightarrow>
    (vwait_out \<times> vblwait \<times> vblank_dev) result" where
  "wait_taken H D kzalloc pid file crtc w s =
     (let flags = wtype w AND VBLANK_FLAGS_MASK H;
          seq = drm_vblank_count crtc s;
          kind = wtype w AND VBLANK_TYPES_MASK H
      in if kind \<noteq> VBLANK_RELATIVE H \<and> kind \<noteq> VBLANK_ABSOLUTE H
         then (case drm_vblank_put D crtc s of Inl x \<Rightarrow> Inl x | Inr s \<Rightarrow> Inr (Returned_ret (Inl EINVAL), w, s))
         else let w = (if kind = VBLANK_RELATIVE H
                       then w\<lparr>wsequence := wsequence w + seq, wtype := wtype w AND NOT (VBLANK_RELATIVE H)\<rparr> else w)
              in if flags AND VBLANK_EVENT H \<noteq> 0
                 then (case drm_queue_vblank_event H D kzalloc crtc w file s of
                         Inl x \<Rightarrow> Inl x
                       | Inr (Some ret, w, s) \<Rightarrow> Inr (Returned_ret (Inl ret), w, s)
                       | Inr (None, w, s) \<Rightarrow> Inr (Returned_ret (Inr 0), w, s))
                 else let w = next_on_miss H flags seq w;
                          s = s\<lparr>last_vblank_wait := (last_vblank_wait s)(crtc := wsequence w)\<rparr>
                      in wait_round D pid crtc w s)"

text \<open>\<open>irq\<close>: the device has an interrupt number.\<close>

definition drm_wait_vblank :: "vblank_h \<Rightarrow> vblank_drv \<Rightarrow> vblank_hw \<Rightarrow> bool \<Rightarrow> bool \<Rightarrow> nat \<Rightarrow> nat \<Rightarrow> vblwait \<Rightarrow> vblank_dev \<Rightarrow>
    (vwait_out \<times> vblwait \<times> vblank_dev) result option" where
  "drm_wait_vblank H D h irq kzalloc pid file w s =
     (if \<not> irq \<or> \<not> irq_enabled s then Some (Inr (Returned_ret (Inl EINVAL), w, s))
      else if wtype w AND VBLANK_SIGNAL H \<noteq> 0 then Some (Inr (Returned_ret (Inl EINVAL), w, s))
      else if wtype w AND NOT (VBLANK_TYPES_MASK H OR VBLANK_FLAGS_MASK H OR VBLANK_HIGH_CRTC_MASK H) \<noteq> 0
      then Some (Inr (Returned_ret (Inl EINVAL), w, s))
      else let crtc = wait_crtc H (wtype w)
           in if uint crtc \<ge> num_crtcs s then Some (Inr (Returned_ret (Inl EINVAL), w, s))
              else case drm_vblank_get D h (uint crtc) s of
                     None \<Rightarrow> None
                   | Some (Inl x) \<Rightarrow> Some (Inl x)
                   | Some (Inr (Some ret, s)) \<Rightarrow> Some (Inr (Returned_ret (Inl ret), w, s))
                   | Some (Inr (None, s)) \<Rightarrow> Some (wait_taken H D kzalloc pid file (uint crtc) w s))"

subsection \<open>The interrupt\<close>

definition drm_handle_vblank_events :: "vblank_drv \<Rightarrow> int \<Rightarrow> vblank_dev \<Rightarrow> vblank_dev result" where
  "drm_handle_vblank_events D crtc s =
     (let (seq, now) = drm_vblank_count_and_time crtc s
      in event_loop D (\<lambda>e. ev_pipe e = crtc \<and> passed seq (ev_sequence e)) (\<lambda>e. send_vblank_event e seq now)
           (vblank_event_list s) s)"

definition drm_handle_vblank :: "vblank_drv \<Rightarrow> vblank_hw \<Rightarrow> int \<Rightarrow> vblank_dev \<Rightarrow> (bool \<times> vblank_dev) result" where
  "drm_handle_vblank D h crtc s =
     (if num_crtcs s = 0 then Inr (False, s)
      else if \<not> crtc_ok crtc s then Inl BUG
      else if \<not> vblank_enabled s crtc then Inr (False, s)
      else let vblcount = vblank_count s crtc;
               tvblank = snd (drm_get_last_vbltimestamp D h 0 True);
               s = (if abs64 (diff_ns D tvblank (vblanktimestamp s crtc vblcount)) > DRM_REDUNDANT_VBLIRQ_THRESH_NS
                    then s\<lparr>vblank_time := (vblank_time s)(vblank_slot crtc (vblcount + 1) := tvblank),
                           vblank_count := (vblank_count s)(crtc := vblcount + 1)\<rparr>
                    else s)
           in case drm_handle_vblank_events D crtc s of Inl x \<Rightarrow> Inl x | Inr s \<Rightarrow> Inr (True, s))"

subsection \<open>Setting up and taking down\<close>

definition zero_time :: timeval where
  "zero_time = \<lparr>tv_sec = 0, tv_usec = 0\<rparr>"

text \<open>
  Eight arrays are allocated. An allocation of no bytes returns \<open>NULL\<close>. When another one fails, the
  arrays that are not there yet are freed too, with their sizes, which \<open>kmem_free\<close> does not allow.
\<close>

definition drm_vblank_init :: "bool \<Rightarrow> int \<Rightarrow> vblank_dev \<Rightarrow> (errno option \<times> vblank_dev) result" where
  "drm_vblank_init kmalloc n s =
     (let s = s\<lparr>num_crtcs := n\<rparr>
      in if n = 0 then Inr (Some ENOMEM, s)
         else if \<not> kmalloc then Inl BUG
         else Inr (None, s\<lparr>vblank_count := (\<lambda>_. 0), vblank_refcount := (\<lambda>_. 0), vblank_enabled := (\<lambda>_. False),
                           last_vblank := (\<lambda>_. 0), last_vblank_wait := (\<lambda>_. 0), vblank_inmodeset := (\<lambda>_. 0),
                           vblank_time := (\<lambda>_. zero_time), vblank_disable_allowed := False\<rparr>))"

definition drm_vblank_cleanup :: "vblank_drv \<Rightarrow> (int \<Rightarrow> vblank_hw) \<Rightarrow> vblank_dev \<Rightarrow> vblank_dev" where
  "drm_vblank_cleanup D h s =
     (if num_crtcs s = 0 then s
      else (vblank_disable_fn D h (s\<lparr>disable_timer := False\<rparr>))\<lparr>num_crtcs := 0\<rparr>)"

text \<open>
  The device and the framework in an installation: the driver's feature, an interrupt number, private
  data, whether the handler can be added, and an error of \<open>irq_postinstall\<close>.
\<close>

record irq_env =
  have_irq :: bool
  irq_number :: bool
  dev_private :: bool
  add_handler :: bool
  postinstall :: "errno option"

definition drm_irq_install :: "irq_env \<Rightarrow> vblank_dev \<Rightarrow> errno option \<times> vblank_dev" where
  "drm_irq_install v s =
     (if \<not> have_irq v \<or> \<not> irq_number v \<or> \<not> dev_private v then (Some EINVAL, s)
      else if irq_enabled s then (Some EBUSY, s)
      else let s = s\<lparr>irq_enabled := True\<rparr>
           in if \<not> add_handler v then (Some EFAULT, s\<lparr>irq_enabled := False\<rparr>)
              else case postinstall v of
                     Some ret \<Rightarrow> (Some ret, s\<lparr>irq_enabled := False\<rparr>)
                   | None \<Rightarrow> (None, s))"

definition uninstall_one :: "(int \<Rightarrow> vblank_hw) \<Rightarrow> int \<Rightarrow> vblank_dev \<Rightarrow> vblank_dev" where
  "uninstall_one h i s =
     s\<lparr>vblank_enabled := (vblank_enabled s)(i := False), last_vblank := (last_vblank s)(i := hw_counter (h i) 0)\<rparr>"

definition drm_irq_uninstall :: "irq_env \<Rightarrow> (int \<Rightarrow> vblank_hw) \<Rightarrow> vblank_dev \<Rightarrow> errno option \<times> vblank_dev" where
  "drm_irq_uninstall v h s =
     (if \<not> have_irq v then (Some EINVAL, s)
      else (if irq_enabled s then None else Some EINVAL,
            fold (uninstall_one h) [0..num_crtcs s - 1] (s\<lparr>irq_enabled := False\<rparr>)))"

text \<open>The ioctl; \<open>old\<close>: the interface version is below 1.2, \<open>irq\<close>: the number asked for is the device's.\<close>

datatype control_func = DRM_INST_HANDLER | DRM_UNINST_HANDLER | OTHER_HANDLER

definition drm_control :: "irq_env \<Rightarrow> (int \<Rightarrow> vblank_hw) \<Rightarrow> bool \<Rightarrow> bool \<Rightarrow> bool \<Rightarrow> control_func \<Rightarrow> vblank_dev \<Rightarrow>
    errno option \<times> vblank_dev" where
  "drm_control v h kms old irq func s =
     (case func of
        DRM_INST_HANDLER \<Rightarrow>
          if \<not> have_irq v \<or> kms then (None, s)
          else if old \<and> \<not> irq then (Some EINVAL, s)
          else drm_irq_install v s
      | DRM_UNINST_HANDLER \<Rightarrow> if \<not> have_irq v \<or> kms then (None, s) else drm_irq_uninstall v h s
      | OTHER_HANDLER \<Rightarrow> (Some EINVAL, s))"

subsection \<open>Files\<close>

definition vfile_open :: "nat \<Rightarrow> vblank_dev \<Rightarrow> vblank_dev" where
  "vfile_open file s = s\<lparr>vfiles := (vfiles s)(file \<mapsto> \<lparr>ev_list = [], ev_space = 4096\<rparr>)\<rparr>"

text \<open>Closing: the waiting events of the file are destroyed, then those delivered, then the file is freed.\<close>

definition drm_events_release :: "vblank_drv \<Rightarrow> nat \<Rightarrow> vblank_dev \<Rightarrow> vblank_dev result" where
  "drm_events_release D file s =
     (case event_loop D (\<lambda>e. ev_file e = file) (\<lambda>_. Inr) (vblank_event_list s) s of
        Inl x \<Rightarrow> Inl x
      | Inr s \<Rightarrow> Inr (s\<lparr>vfiles := (vfiles s)(file := None)\<rparr>))"

text \<open>\<open>None\<close> on the right: there is no event, or it does not fit.\<close>

definition drm_dequeue_event :: "vblank_h \<Rightarrow> nat \<Rightarrow> nat \<Rightarrow> nat \<Rightarrow> vblank_dev \<Rightarrow> (vevent option \<times> vblank_dev) result" where
  "drm_dequeue_event H file done_bytes max_bytes s =
     (case vfiles s file of
        None \<Rightarrow> Inl BUG
      | Some f \<Rightarrow>
          (case ev_list f of
             [] \<Rightarrow> Inr (None, s)
           | e # es \<Rightarrow>
               if event_size H + done_bytes > max_bytes then Inr (None, s)
               else Inr (Some e, s\<lparr>vfiles := (vfiles s)(file \<mapsto> \<lparr>ev_list = es, ev_space = ev_space f + int (event_size H)\<rparr>)\<rparr>)))"

text \<open>
  \<open>uiomove i\<close>: copying the \<open>i\<close>-th event to the reader succeeds. The result: the value returned, the
  events copied. When copying fails the event is neither kept nor destroyed, and the value is 0.
\<close>

function drm_read_loop :: "vblank_h \<Rightarrow> (nat \<Rightarrow> bool) \<Rightarrow> nat \<Rightarrow> nat \<Rightarrow> nat \<Rightarrow> nat \<Rightarrow> vblank_dev \<Rightarrow>
    (nat \<times> vevent list \<times> vblank_dev) result" where
  "drm_read_loop H uiomove i file done_bytes max_bytes s =
     (case drm_dequeue_event H file done_bytes max_bytes s of
        Inl x \<Rightarrow> Inl x
      | Inr (None, s') \<Rightarrow> Inr (done_bytes, [], s')
      | Inr (Some e, s') \<Rightarrow>
          if \<not> uiomove i then Inr (0, [], s')
          else (case drm_read_loop H uiomove (i + 1) file (done_bytes + event_size H) max_bytes s' of
                  Inl x \<Rightarrow> Inl x
                | Inr (n, es, s'') \<Rightarrow> Inr (n, e # es, s'')))"
  by pat_completeness auto
termination
  by (relation "measure (\<lambda>(H, u, i, file, d, m, s). case vfiles s file of None \<Rightarrow> 0 | Some f \<Rightarrow> length (ev_list f))")
     (auto simp: drm_dequeue_event_def split: option.splits list.splits if_splits)

declare drm_read_loop.simps [simp del]

definition drm_read :: "vblank_h \<Rightarrow> (nat \<Rightarrow> bool) \<Rightarrow> nat \<Rightarrow> nat \<Rightarrow> vblank_dev \<Rightarrow> (nat \<times> vevent list \<times> vblank_dev) result" where
  "drm_read H uiomove file max_bytes s = drm_read_loop H uiomove 0 file 0 max_bytes s"

text \<open>The pairs say whether \<open>POLLIN\<close> and \<open>POLLRDNORM\<close> are asked for, and returned.\<close>

definition drm_poll :: "nat \<Rightarrow> bool \<times> bool \<Rightarrow> vblank_dev \<Rightarrow> (bool \<times> bool) result" where
  "drm_poll file events s =
     (case vfiles s file of
        None \<Rightarrow> Inl BUG
      | Some f \<Rightarrow> Inr (if ev_list f \<noteq> [] then (fst events, snd events) else (False, False)))"

text \<open>
  The event of a page flip (\<open>drm_mode_page_flip_ioctl\<close>): space is taken from the file, and given back when
  there is no memory or the driver refuses the flip; else the driver has the event.
\<close>

definition page_flip_event :: "vblank_h \<Rightarrow> bool \<Rightarrow> errno option \<Rightarrow> nat \<Rightarrow> u64 \<Rightarrow> vblank_dev \<Rightarrow> (errno option \<times> vblank_dev) result" where
  "page_flip_event H kzalloc flip file user_data s =
     (case vfiles s file of
        None \<Rightarrow> Inl BUG
      | Some f \<Rightarrow>
          if space_short H f \<or> \<not> kzalloc then Inr (Some ENOMEM, s)
          else case flip of
                 Some ret \<Rightarrow> Inr (Some ret, s)
               | None \<Rightarrow>
                   Inr (None, s\<lparr>vfiles := (vfiles s)(file \<mapsto> f\<lparr>ev_space := ev_space f - int (event_size H)\<rparr>),
                                flip_held := flip_held s @ [\<lparr>ev_file = file, ev_pipe = 0, ev_sequence = 0, ev_sec = 0,
                                  ev_usec = 0, ev_user_data = user_data\<rparr>]\<rparr>))"

end
