(* ===== verification/Drm_Vblank_Inv.thy ===== *)
theory Drm_Vblank_Inv
  imports Drm_Vblank
begin

text \<open>
  The invariant of vertical blanking and that every operation keeps it. The references of a CRTC are
  those of the events that wait for one of its frames, of the processes that sleep, of a mode setting,
  and of the driver; the events on the list lie ahead; the space of a file is accounted for.

  The loops over the waiting events do one of two things with an event, deliver or destroy it. What both
  promise is the locale \<open>event_sink\<close>, in which the loop is analysed once.
\<close>

subsection \<open>Dropping a reference\<close>

lemma put_spec:
  assumes "crtc_ok c s" "vblank_refcount s c \<noteq> 0"
  shows "\<exists>tm. drm_vblank_put D c s =
    Inr (s\<lparr>vblank_refcount := (vblank_refcount s)(c := vblank_refcount s c - 1), disable_timer := tm\<rparr>)"
proof -
  let ?s = "s\<lparr>vblank_refcount := (vblank_refcount s)(c := vblank_refcount s c - 1)\<rparr>"
  have "drm_vblank_put D c s =
    Inr (?s\<lparr>disable_timer := (if vblank_refcount ?s c = 0 \<and> vblank_offdelay D > 0 then True else disable_timer ?s)\<rparr>)"
    using assms unfolding drm_vblank_put_def Let_def by (cases s) (auto simp: crtc_ok_def)
  then show ?thesis by blast
qed

lemma unat_dec_word:
  fixes x :: u32
  shows "x \<noteq> 0 \<Longrightarrow> unat (x - 1) = unat x - 1"
  by (simp add: unat_minus_one)

subsection \<open>The loop over the waiting events\<close>

text \<open>
  What is done with an event that leaves the list changes only the files, as \<open>eff\<close> says, opens and closes
  none, and works as long as the file of the event is open.
\<close>

locale event_sink =
  fixes act :: "vevent \<Rightarrow> vblank_dev \<Rightarrow> vblank_dev result"
    and eff :: "vevent \<Rightarrow> (nat \<Rightarrow> vfile option) \<Rightarrow> nat \<Rightarrow> vfile option"
  assumes act_eff: "vfiles s (ev_file e) \<noteq> None \<Longrightarrow> act e s = Inr (s\<lparr>vfiles := eff e (vfiles s)\<rparr>)"
    and eff_dom: "eff e m f = None \<longleftrightarrow> m f = None"
begin

lemma loop_spec:
  assumes "vblank_event_list s = kept @ es" "\<forall>e \<in> set kept. \<not> P e"
    and "\<forall>e \<in> set es. P e \<longrightarrow> crtc_ok (ev_pipe e) s \<and> vfiles s (ev_file e) \<noteq> None"
    and "\<forall>c. length (filter (\<lambda>e. P e \<and> ev_pipe e = c) es) \<le> unat (vblank_refcount s c)"
  shows "\<exists>tm. event_loop D P act es s =
    Inr (s\<lparr>vblank_event_list := kept @ filter (\<lambda>e. \<not> P e) es,
           vblank_refcount := (\<lambda>c. vblank_refcount s c - of_nat (length (filter (\<lambda>e. P e \<and> ev_pipe e = c) es))),
           vfiles := fold eff (filter P es) (vfiles s), disable_timer := tm\<rparr>)"
  using assms
proof (induction es arbitrary: s kept)
  case Nil
  have "s\<lparr>vblank_event_list := kept, vblank_refcount := vblank_refcount s, vfiles := vfiles s, disable_timer := disable_timer s\<rparr> = s"
    using Nil.prems(1) by (cases s) simp
  then show ?case by (intro exI [of _ "disable_timer s"]) simp
next
  case (Cons e es)
  show ?case
  proof (cases "P e")
    case False
    have "\<exists>tm. event_loop D P act es s =
      Inr (s\<lparr>vblank_event_list := (kept @ [e]) @ filter (\<lambda>e. \<not> P e) es,
             vblank_refcount := (\<lambda>c. vblank_refcount s c - of_nat (length (filter (\<lambda>e. P e \<and> ev_pipe e = c) es))),
             vfiles := fold eff (filter P es) (vfiles s), disable_timer := tm\<rparr>)"
      using Cons.prems False by (intro Cons.IH) auto
    then show ?thesis using False by simp
  next
    case True
    let ?c = "ev_pipe e"
    let ?n = "\<lambda>es c. length (filter (\<lambda>e. P e \<and> ev_pipe e = c) es)"
    from Cons.prems(3) True have c: "crtc_ok ?c s" and f: "vfiles s (ev_file e) \<noteq> None" by auto
    from Cons.prems(4) True have pos: "?n es ?c < unat (vblank_refcount s ?c)" by (auto dest!: spec [of _ ?c])
    then have nz: "vblank_refcount s ?c \<noteq> 0" by auto
    have rem: "remove1 e (vblank_event_list s) = kept @ es"
      using Cons.prems(1,2) True by (auto simp: remove1_append)
    obtain tm where put: "drm_vblank_put D ?c (s\<lparr>vblank_event_list := kept @ es\<rparr>) =
        Inr (s\<lparr>vblank_event_list := kept @ es, vblank_refcount := (vblank_refcount s)(?c := vblank_refcount s ?c - 1),
               disable_timer := tm\<rparr>)" (is "_ = Inr ?t")
      using put_spec [of ?c "s\<lparr>vblank_event_list := kept @ es\<rparr>" D] c nz by (auto simp: crtc_ok_def)
    let ?u = "?t\<lparr>vfiles := eff e (vfiles s)\<rparr>"
    have act: "act e ?t = Inr ?u" using act_eff [of ?t e] f by simp
    have dec: "unat (vblank_refcount s ?c - 1) = unat (vblank_refcount s ?c) - 1"
      using nz by (rule unat_dec_word)
    have "\<exists>tm. event_loop D P act es ?u =
      Inr (?u\<lparr>vblank_event_list := kept @ filter (\<lambda>e. \<not> P e) es,
              vblank_refcount := (\<lambda>c. vblank_refcount ?u c - of_nat (?n es c)),
              vfiles := fold eff (filter P es) (vfiles ?u), disable_timer := tm\<rparr>)"
    proof (rule Cons.IH)
      show "\<forall>e \<in> set es. P e \<longrightarrow> crtc_ok (ev_pipe e) ?u \<and> vfiles ?u (ev_file e) \<noteq> None"
        using Cons.prems(3) by (auto simp: crtc_ok_def eff_dom)
      show "\<forall>c. ?n es c \<le> unat (vblank_refcount ?u c)"
        using Cons.prems(4) True pos by (auto simp: dec dest: spec split: if_splits)
    qed (use Cons.prems(2) in auto)
    moreover have "(\<lambda>c. vblank_refcount ?u c - of_nat (?n es c)) = (\<lambda>c. vblank_refcount s c - of_nat (?n (e # es) c))"
      using True by (auto simp: fun_eq_iff)
    ultimately show ?thesis using True put act rem by simp
  qed
qed

end

text \<open>The two things done: delivering, and destroying.\<close>

definition stamped :: "u32 \<Rightarrow> timeval \<Rightarrow> vevent \<Rightarrow> vevent" where
  "stamped seq now e = e\<lparr>ev_sequence := seq, ev_sec := word_of_int (tv_sec now), ev_usec := word_of_int (tv_usec now)\<rparr>"

definition deliver :: "u32 \<Rightarrow> timeval \<Rightarrow> vevent \<Rightarrow> (nat \<Rightarrow> vfile option) \<Rightarrow> nat \<Rightarrow> vfile option" where
  "deliver seq now e m =
     m(ev_file e := map_option (\<lambda>v. v\<lparr>ev_list := ev_list v @ [stamped seq now e]\<rparr>) (m (ev_file e)))"

lemma stamped_file [simp]: "ev_file (stamped seq now e) = ev_file e" "ev_pipe (stamped seq now e) = ev_pipe e"
  by (simp_all add: stamped_def)

interpretation sending: event_sink "\<lambda>e. send_vblank_event e seq now" "deliver seq now" for seq now
  by unfold_locales (auto simp: send_vblank_event_def deliver_def stamped_def Let_def split: option.splits)

interpretation destroying: event_sink "\<lambda>_. Inr" "\<lambda>_ m. m"
  by unfold_locales simp_all

lemma fold_deliver:
  "fold (deliver seq now) es m f =
     map_option (\<lambda>v. v\<lparr>ev_list := ev_list v @ map (stamped seq now) (filter (\<lambda>e. ev_file e = f) es)\<rparr>) (m f)"
  by (induction es arbitrary: m) (auto simp: deliver_def option.map_comp comp_def option.map_ident)

lemma fold_const: "fold (\<lambda>_ m. m) es m = m"
  by (induction es) simp_all

subsection \<open>The invariant\<close>

text \<open>
  \<open>vrefs s c\<close>: the references of a CRTC that the core of the system has. \<open>r c\<close> are those that the driver
  and calls in progress have.
\<close>

definition vrefs :: "vblank_dev \<Rightarrow> int \<Rightarrow> nat" where
  "vrefs s c = length (filter (\<lambda>e. ev_pipe e = c) (vblank_event_list s)) + length (filter (\<lambda>z. fst (snd z) = c) (vbl_sleepers s)) +
     (if vblank_inmodeset s c AND 2 \<noteq> 0 then 1 else 0)"

definition counted :: "(int \<Rightarrow> nat) \<Rightarrow> vblank_dev \<Rightarrow> bool" where
  "counted r s \<longleftrightarrow> (\<forall>c. crtc_ok c s \<longrightarrow> unat (vblank_refcount s c) = vrefs s c + r c)"

definition targets_ok :: "vblank_dev \<Rightarrow> bool" where
  "targets_ok s \<longleftrightarrow> (\<forall>e \<in> set (vblank_event_list s). crtc_ok (ev_pipe e) s \<and> vfiles s (ev_file e) \<noteq> None) \<and>
     (\<forall>z \<in> set (vbl_sleepers s). crtc_ok (fst (snd z)) s) \<and> (\<forall>e \<in> set (flip_held s). vfiles s (ev_file e) \<noteq> None)"

definition of_file :: "nat \<Rightarrow> vevent list \<Rightarrow> nat" where
  "of_file f es = length (filter (\<lambda>e. ev_file e = f) es)"

definition space_ok :: "vblank_h \<Rightarrow> vblank_dev \<Rightarrow> bool" where
  "space_ok H s \<longleftrightarrow> (\<forall>f v. vfiles s f = Some v \<longrightarrow> 0 \<le> ev_space v \<and>
     ev_space v + int (event_size H * (of_file f (vblank_event_list s) + length (ev_list v) + of_file f (flip_held s))) = 4096)"

definition ahead :: "vblank_dev \<Rightarrow> bool" where
  "ahead s \<longleftrightarrow> (\<forall>e \<in> set (vblank_event_list s). \<not> passed (vblank_count s (ev_pipe e)) (ev_sequence e))"

definition vbl_base :: "vblank_h \<Rightarrow> (int \<Rightarrow> nat) \<Rightarrow> vblank_dev \<Rightarrow> bool" where
  "vbl_base H r s \<longleftrightarrow> counted r s \<and> targets_ok s \<and> space_ok H s"

definition vbl_inv :: "vblank_h \<Rightarrow> (int \<Rightarrow> nat) \<Rightarrow> vblank_dev \<Rightarrow> bool" where
  "vbl_inv H r s \<longleftrightarrow> vbl_base H r s \<and> ahead s"

lemmas vbl_defs = vbl_base_def counted_def vrefs_def targets_ok_def space_ok_def crtc_ok_def

text \<open>The fields that do not matter.\<close>

lemma vbl_base_upd [simp]:
  "vbl_base H r (s\<lparr>vblank_enabled := a\<rparr>) = vbl_base H r s" "vbl_base H r (s\<lparr>last_vblank := b\<rparr>) = vbl_base H r s"
  "vbl_base H r (s\<lparr>last_vblank_wait := b\<rparr>) = vbl_base H r s" "vbl_base H r (s\<lparr>vblank_time := d\<rparr>) = vbl_base H r s"
  "vbl_base H r (s\<lparr>vblank_disable_allowed := x\<rparr>) = vbl_base H r s" "vbl_base H r (s\<lparr>disable_timer := x\<rparr>) = vbl_base H r s"
  "vbl_base H r (s\<lparr>irq_enabled := x\<rparr>) = vbl_base H r s" "vbl_base H r (s\<lparr>vblank_count := b\<rparr>) = vbl_base H r s"
  by (simp_all add: vbl_defs)

lemma ahead_upd [simp]:
  "ahead (s\<lparr>vblank_enabled := a\<rparr>) = ahead s" "ahead (s\<lparr>last_vblank := b\<rparr>) = ahead s"
  "ahead (s\<lparr>last_vblank_wait := b\<rparr>) = ahead s" "ahead (s\<lparr>vblank_time := d\<rparr>) = ahead s"
  "ahead (s\<lparr>vblank_disable_allowed := x\<rparr>) = ahead s" "ahead (s\<lparr>disable_timer := x\<rparr>) = ahead s"
  "ahead (s\<lparr>irq_enabled := x\<rparr>) = ahead s" "ahead (s\<lparr>vblank_refcount := b\<rparr>) = ahead s"
  "ahead (s\<lparr>vfiles := g\<rparr>) = ahead s" "ahead (s\<lparr>vbl_sleepers := l\<rparr>) = ahead s" "ahead (s\<lparr>flip_held := k\<rparr>) = ahead s"
  "ahead (s\<lparr>vblank_inmodeset := b\<rparr>) = ahead s"
  by (simp_all add: ahead_def)

lemma vbl_inv_upd [simp]:
  "vbl_inv H r (s\<lparr>vblank_enabled := a\<rparr>) = vbl_inv H r s" "vbl_inv H r (s\<lparr>last_vblank := b\<rparr>) = vbl_inv H r s"
  "vbl_inv H r (s\<lparr>last_vblank_wait := b\<rparr>) = vbl_inv H r s" "vbl_inv H r (s\<lparr>vblank_time := d\<rparr>) = vbl_inv H r s"
  "vbl_inv H r (s\<lparr>vblank_disable_allowed := x\<rparr>) = vbl_inv H r s" "vbl_inv H r (s\<lparr>disable_timer := x\<rparr>) = vbl_inv H r s"
  "vbl_inv H r (s\<lparr>irq_enabled := x\<rparr>) = vbl_inv H r s"
  by (simp_all add: vbl_inv_def)

text \<open>Without references there are no events, so the count may change.\<close>

lemma no_events:
  assumes "vbl_base H r s" "crtc_ok c s" "vblank_refcount s c = 0" "e \<in> set (vblank_event_list s)"
  shows "ev_pipe e \<noteq> c"
proof -
  from assms have "vrefs s c = 0" by (fastforce simp: vbl_base_def counted_def)
  with assms(4) show ?thesis by (auto simp: vrefs_def filter_empty_conv)
qed

lemma vbl_inv_count:
  assumes "vbl_inv H r s" "crtc_ok c s" "vblank_refcount s c = 0"
  shows "vbl_inv H r (s\<lparr>vblank_count := (vblank_count s)(c := n)\<rparr>)"
  using assms no_events [of H r s c] by (auto simp: vbl_inv_def ahead_def)

subsection \<open>Taking and dropping references\<close>

abbreviation one_more :: "(int \<Rightarrow> nat) \<Rightarrow> int \<Rightarrow> int \<Rightarrow> nat" where
  "one_more r c \<equiv> r(c := Suc (r c))"

definition vroom :: "(int \<Rightarrow> nat) \<Rightarrow> vblank_dev \<Rightarrow> bool" where
  "vroom r s \<longleftrightarrow> (\<forall>c. crtc_ok c s \<longrightarrow> vrefs s c + r c + 1 < 2 ^ 32)"

lemma counted_take:
  assumes "vbl_base H r s" "vroom r s" "crtc_ok c s"
  shows "vbl_base H (one_more r c) (s\<lparr>vblank_refcount := (vblank_refcount s)(c := vblank_refcount s c + 1)\<rparr>)"
proof -
  from assms have "unat (vblank_refcount s c) = vrefs s c + r c" "vrefs s c + r c + 1 < 2 ^ 32"
    by (auto simp: vbl_base_def counted_def vroom_def)
  then have "unat (vblank_refcount s c + 1) = Suc (vrefs s c + r c)"
    by (subst unat_add_nowrap) simp_all
  with assms(1) show ?thesis by (auto simp: vbl_defs)
qed

lemma drop_ok:
  assumes "vbl_base H (one_more r c) s" "crtc_ok c s"
  shows "\<exists>tm. drm_vblank_put D c s =
      Inr (s\<lparr>vblank_refcount := (vblank_refcount s)(c := vblank_refcount s c - 1), disable_timer := tm\<rparr>)"
    and "vbl_base H r (s\<lparr>vblank_refcount := (vblank_refcount s)(c := vblank_refcount s c - 1), disable_timer := tm\<rparr>)"
proof -
  from assms have n: "unat (vblank_refcount s c) = Suc (vrefs s c + r c)" by (auto simp: vbl_base_def counted_def)
  then have nz: "vblank_refcount s c \<noteq> 0" by auto
  from put_spec [OF assms(2) nz]
  show "\<exists>tm. drm_vblank_put D c s =
      Inr (s\<lparr>vblank_refcount := (vblank_refcount s)(c := vblank_refcount s c - 1), disable_timer := tm\<rparr>)" .
  from unat_dec_word [OF nz] n have "unat (vblank_refcount s c - 1) = vrefs s c + r c" by simp
  with assms(1) show "vbl_base H r (s\<lparr>vblank_refcount := (vblank_refcount s)(c := vblank_refcount s c - 1), disable_timer := tm\<rparr>)"
    by (auto simp: vbl_defs split: if_splits)
qed

lemma put_ok:
  assumes "vbl_inv H (one_more r c) s" "crtc_ok c s"
  shows "\<exists>s'. drm_vblank_put D c s = Inr s' \<and> vbl_inv H r s' \<and> num_crtcs s' = num_crtcs s \<and>
    vfiles s' = vfiles s \<and> vblank_inmodeset s' = vblank_inmodeset s"
proof -
  from assms(1) have base: "vbl_base H (one_more r c) s" and ah: "ahead s" by (simp_all add: vbl_inv_def)
  from drop_ok(1) [OF base assms(2)] obtain tm where "drm_vblank_put D c s =
    Inr (s\<lparr>vblank_refcount := (vblank_refcount s)(c := vblank_refcount s c - 1), disable_timer := tm\<rparr>)" by blast
  with drop_ok(2) [OF base assms(2)] ah show ?thesis by (simp add: vbl_inv_def)
qed

text \<open>A call that takes a reference: it may not return, fail without a trace, or succeed.\<close>

lemma get_ok:
  assumes inv: "vbl_inv H r s" and room: "vroom r s" and c: "crtc_ok c s"
  shows "drm_vblank_get D h c s = None \<or> (\<exists>e. drm_vblank_get D h c s = Some (Inr (Some e, s))) \<or>
    (\<exists>s'. drm_vblank_get D h c s = Some (Inr (None, s')) \<and> vbl_inv H (one_more r c) s' \<and> num_crtcs s' = num_crtcs s \<and>
       vfiles s' = vfiles s \<and> irq_enabled s' = irq_enabled s \<and> vblank_inmodeset s' = vblank_inmodeset s)"
proof -
  let ?t = "s\<lparr>vblank_refcount := (vblank_refcount s)(c := vblank_refcount s c + 1)\<rparr>"
  from inv counted_take [OF _ room c] have t: "vbl_inv H (one_more r c) ?t" by (simp add: vbl_inv_def)
  have on: "vbl_inv H (one_more r c) s' \<and> num_crtcs s' = num_crtcs s \<and> vfiles s' = vfiles s \<and> irq_enabled s' = irq_enabled s \<and>
      vblank_inmodeset s' = vblank_inmodeset s"
    if z: "vblank_refcount s c = 0"
      and u: "drm_update_vblank_count D h c (?t\<lparr>vblank_enabled := (vblank_enabled s)(c := True)\<rparr>) = Some s'" for s'
  proof -
    have "ahead (s\<lparr>vblank_count := (vblank_count s)(c := n)\<rparr>)" for n
      using vbl_inv_count [OF inv c z] by (simp add: vbl_inv_def)
    then have "ahead (?t\<lparr>vblank_count := (vblank_count s)(c := n)\<rparr>)" for n by (simp add: ahead_def)
    with t have "vbl_inv H (one_more r c) (?t\<lparr>vblank_count := (vblank_count s)(c := n)\<rparr>)" for n by (simp add: vbl_inv_def)
    then have "vbl_inv H (one_more r c) (?t\<lparr>vblank_enabled := a, vblank_time := d, vblank_count := (vblank_count s)(c := n)\<rparr>)"
      and "vbl_inv H (one_more r c) (?t\<lparr>vblank_enabled := a, vblank_count := (vblank_count s)(c := n)\<rparr>)" for n a d
      by (simp_all add: vbl_inv_def ahead_def)
    with u show ?thesis by (auto simp: drm_update_vblank_count_def Let_def split: option.splits if_splits)
  qed
  show ?thesis
  proof (cases "vblank_enabled s c")
    case True
    with c have "drm_vblank_get D h c s = Some (Inr (None, ?t))" by (simp add: drm_vblank_get_def Let_def)
    with t show ?thesis by simp
  next
    case off: False
    show ?thesis
    proof (cases "vblank_refcount s c = 0 \<and> hw_enable h = None")
      case False
      with c off show ?thesis by (auto simp: drm_vblank_get_def Let_def)
    next
      case True
      let ?u = "drm_update_vblank_count D h c (?t\<lparr>vblank_enabled := (vblank_enabled s)(c := True)\<rparr>)"
      have "drm_vblank_get D h c s = map_option (\<lambda>s. Inr (None, s)) ?u"
        using c off True by (simp add: drm_vblank_get_def Let_def split: option.split)
      with on True show ?thesis by (cases ?u) auto
    qed
  qed
qed

subsection \<open>Events that leave the list\<close>

lemma length_filter_part:
  "length (filter Q xs) = length (filter (\<lambda>x. P x \<and> Q x) xs) + length (filter Q (filter (\<lambda>x. \<not> P x) xs))"
  by (induction xs) auto

abbreviation leaving :: "(vevent \<Rightarrow> bool) \<Rightarrow> int \<Rightarrow> vblank_dev \<Rightarrow> nat" where
  "leaving P c s \<equiv> length (filter (\<lambda>e. P e \<and> ev_pipe e = c) (vblank_event_list s))"

lemma leaving_le:
  assumes "vbl_base H r s"
  shows "leaving P c s \<le> unat (vblank_refcount s c)"
proof (cases "crtc_ok c s")
  case True
  with assms have "unat (vblank_refcount s c) = vrefs s c + r c" by (simp add: vbl_base_def counted_def)
  then show ?thesis using length_filter_part [of "\<lambda>e. ev_pipe e = c" "vblank_event_list s" P] by (simp add: vrefs_def)
next
  case False
  with assms have "filter (\<lambda>e. P e \<and> ev_pipe e = c) (vblank_event_list s) = []"
    by (auto simp: vbl_base_def targets_ok_def filter_empty_conv)
  then show ?thesis by simp
qed

definition removed :: "(vevent \<Rightarrow> bool) \<Rightarrow> (nat \<Rightarrow> vfile option) \<Rightarrow> bool \<Rightarrow> vblank_dev \<Rightarrow> vblank_dev" where
  "removed P m tm s =
     s\<lparr>vblank_event_list := filter (\<lambda>e. \<not> P e) (vblank_event_list s),
       vblank_refcount := (\<lambda>c. vblank_refcount s c - of_nat (leaving P c s)), vfiles := m, disable_timer := tm\<rparr>"

lemma removed_simps [simp]:
  "vblank_event_list (removed P m tm s) = filter (\<lambda>e. \<not> P e) (vblank_event_list s)"
  "vfiles (removed P m tm s) = m" "vblank_count (removed P m tm s) = vblank_count s"
  "num_crtcs (removed P m tm s) = num_crtcs s" "vblank_enabled (removed P m tm s) = vblank_enabled s"
  "flip_held (removed P m tm s) = flip_held s" "vblank_time (removed P m tm s) = vblank_time s"
  "vbl_sleepers (removed P m tm s) = vbl_sleepers s" "vblank_inmodeset (removed P m tm s) = vblank_inmodeset s"
  by (simp_all add: removed_def)

lemma removed_ok:
  assumes base: "vbl_base H r s"
    and m: "\<forall>e \<in> set (vblank_event_list s). \<not> P e \<longrightarrow> m (ev_file e) \<noteq> None" "\<forall>e \<in> set (flip_held s). m (ev_file e) \<noteq> None"
    and sp: "\<And>f v'. m f = Some v' \<Longrightarrow> \<exists>v. vfiles s f = Some v \<and> ev_space v' = ev_space v \<and>
      length (ev_list v') = length (ev_list v) + of_file f (filter P (vblank_event_list s))"
  shows "vbl_base H r (removed P m tm s)"
proof -
  have le: "leaving P c s \<le> unat (vblank_refcount s c)" for c by (rule leaving_le [OF base])
  have "leaving P c s < 2 ^ 32" for c using le [of c] unat_u32_less [of "vblank_refcount s c"] by simp
  then have n: "unat (vblank_refcount s c - of_nat (leaving P c s)) = unat (vblank_refcount s c) - leaving P c s" for c
    using le [of c] by (simp add: unat_sub word_le_nat_alt unat_of_nat take_bit_nat_eq_self_iff)
  have "counted r (removed P m tm s)"
    unfolding counted_def
  proof (intro allI impI)
    fix c assume "crtc_ok c (removed P m tm s)"
    with base have "unat (vblank_refcount s c) = vrefs s c + r c"
      by (simp add: vbl_base_def counted_def crtc_ok_def)
    moreover from length_filter_part [of "\<lambda>e. ev_pipe e = c" "vblank_event_list s" P]
    have "vrefs s c = leaving P c s + vrefs (removed P m tm s) c" unfolding vrefs_def removed_simps by linarith
    moreover have "vblank_refcount (removed P m tm s) c = vblank_refcount s c - of_nat (leaving P c s)"
      by (simp add: removed_def)
    ultimately show "unat (vblank_refcount (removed P m tm s) c) = vrefs (removed P m tm s) c + r c"
      using n [of c] by simp
  qed
  moreover have "targets_ok (removed P m tm s)" using base m by (auto simp: vbl_base_def targets_ok_def crtc_ok_def)
  moreover have "space_ok H (removed P m tm s)"
    unfolding space_ok_def
  proof (intro allI impI)
    fix f v' assume "vfiles (removed P m tm s) f = Some v'"
    with sp obtain v where v: "vfiles s f = Some v" "ev_space v' = ev_space v"
      "length (ev_list v') = length (ev_list v) + of_file f (filter P (vblank_event_list s))" by auto
    have "of_file f (vblank_event_list s) =
        of_file f (filter P (vblank_event_list s)) + of_file f (filter (\<lambda>e. \<not> P e) (vblank_event_list s))"
      using length_filter_part [of "\<lambda>e. ev_file e = f" "vblank_event_list s" P]
      unfolding of_file_def filter_filter by linarith
    with v have eq: "of_file f (vblank_event_list (removed P m tm s)) + length (ev_list v') + of_file f (flip_held (removed P m tm s)) =
        of_file f (vblank_event_list s) + length (ev_list v) + of_file f (flip_held s)" by simp
    from base v(1) have "0 \<le> ev_space v \<and>
        ev_space v + int (event_size H * (of_file f (vblank_event_list s) + length (ev_list v) + of_file f (flip_held s))) = 4096"
      unfolding vbl_base_def space_ok_def by blast
    then show "0 \<le> ev_space v' \<and> ev_space v' + int (event_size H * (of_file f (vblank_event_list (removed P m tm s)) +
        length (ev_list v') + of_file f (flip_held (removed P m tm s)))) = 4096"
      unfolding eq v(2) .
  qed
  ultimately show ?thesis by (simp add: vbl_base_def)
qed

text \<open>The two loops. Those that deliver add the events to the lists of their files, in order.\<close>

definition delivered :: "u32 \<Rightarrow> timeval \<Rightarrow> vevent list \<Rightarrow> (nat \<Rightarrow> vfile option) \<Rightarrow> nat \<Rightarrow> vfile option" where
  "delivered seq now es m f =
     map_option (\<lambda>v. v\<lparr>ev_list := ev_list v @ map (stamped seq now) (filter (\<lambda>e. ev_file e = f) es)\<rparr>) (m f)"

lemma deliver_loop:
  assumes base: "vbl_base H r s"
  shows "\<exists>tm. event_loop D P (\<lambda>e. send_vblank_event e seq now) (vblank_event_list s) s =
      Inr (removed P (delivered seq now (filter P (vblank_event_list s)) (vfiles s)) tm s)"
    and "vbl_base H r (removed P (delivered seq now (filter P (vblank_event_list s)) (vfiles s)) tm s)"
proof -
  have "fold (deliver seq now) es m = delivered seq now es m" for es m by (simp add: fun_eq_iff fold_deliver delivered_def)
  with sending.loop_spec [of s "[]" "vblank_event_list s" P D seq now] leaving_le [OF base, of P] base
  show "\<exists>tm. event_loop D P (\<lambda>e. send_vblank_event e seq now) (vblank_event_list s) s =
      Inr (removed P (delivered seq now (filter P (vblank_event_list s)) (vfiles s)) tm s)"
    by (simp add: removed_def vbl_base_def targets_ok_def)
  show "vbl_base H r (removed P (delivered seq now (filter P (vblank_event_list s)) (vfiles s)) tm s)"
    by (rule removed_ok [OF base]) (use base in \<open>auto simp: delivered_def of_file_def vbl_base_def targets_ok_def\<close>)
qed

lemma destroy_loop:
  assumes base: "vbl_base H r s"
  shows "\<exists>tm. event_loop D P (\<lambda>_. Inr) (vblank_event_list s) s = Inr (removed P (vfiles s) tm s)"
  using destroying.loop_spec [of s "[]" "vblank_event_list s" P D] leaving_le [OF base, of P] base
  by (simp add: removed_def vbl_base_def targets_ok_def fold_const)

subsection \<open>The interrupt\<close>

definition fresh_stamp :: "vblank_drv \<Rightarrow> vblank_hw \<Rightarrow> int \<Rightarrow> vblank_dev \<Rightarrow> bool" where
  "fresh_stamp D h c s \<longleftrightarrow> abs64 (diff_ns D (snd (drm_get_last_vbltimestamp D h 0 True)) (vblanktimestamp s c (vblank_count s c))) >
     DRM_REDUNDANT_VBLIRQ_THRESH_NS"

definition ticked :: "vblank_drv \<Rightarrow> vblank_hw \<Rightarrow> int \<Rightarrow> vblank_dev \<Rightarrow> vblank_dev" where
  "ticked D h c s =
     (if fresh_stamp D h c s
      then s\<lparr>vblank_time := (vblank_time s)(vblank_slot c (vblank_count s c + 1) := snd (drm_get_last_vbltimestamp D h 0 True)),
             vblank_count := (vblank_count s)(c := vblank_count s c + 1)\<rparr>
      else s)"

lemma ticked_simps [simp]:
  "vblank_event_list (ticked D h c s) = vblank_event_list s" "vfiles (ticked D h c s) = vfiles s"
  "num_crtcs (ticked D h c s) = num_crtcs s" "vblank_enabled (ticked D h c s) = vblank_enabled s"
  "flip_held (ticked D h c s) = flip_held s" "vbl_base H r (ticked D h c s) = vbl_base H r s"
  "c' \<noteq> c \<Longrightarrow> vblank_count (ticked D h c s) c' = vblank_count s c'"
  by (simp_all add: ticked_def)

lemma ticked_count:
  "vblank_count (ticked D h c s) c = (if fresh_stamp D h c s then vblank_count s c + 1 else vblank_count s c)"
  by (simp add: ticked_def)

definition due :: "int \<Rightarrow> u32 \<Rightarrow> vevent \<Rightarrow> bool" where
  "due c seq e \<longleftrightarrow> ev_pipe e = c \<and> passed seq (ev_sequence e)"

text \<open>What the handler does to a CRTC that is on: the count, then the events that are due.\<close>

lemma handle_spec:
  assumes inv: "vbl_inv H r s" and c: "crtc_ok c s" and on: "vblank_enabled s c"
  shows "\<exists>tm s'. drm_handle_vblank D h c s = Inr (True, s') \<and> vbl_inv H r s' \<and>
    s' = removed (due c (vblank_count (ticked D h c s) c))
           (delivered (vblank_count (ticked D h c s) c) (vblanktimestamp (ticked D h c s) c (vblank_count (ticked D h c s) c))
              (filter (due c (vblank_count (ticked D h c s) c)) (vblank_event_list s)) (vfiles s)) tm (ticked D h c s)"
proof -
  let ?t = "ticked D h c s"
  let ?seq = "vblank_count ?t c" and ?now = "vblanktimestamp ?t c (vblank_count ?t c)"
  let ?r = "\<lambda>tm. removed (due c ?seq) (delivered ?seq ?now (filter (due c ?seq) (vblank_event_list s)) (vfiles s)) tm ?t"
  from inv have base: "vbl_base H r ?t" and ah: "ahead s" by (simp_all add: vbl_inv_def)
  from c have "num_crtcs s \<noteq> 0" by (simp add: crtc_ok_def)
  then have eq: "drm_handle_vblank D h c s =
      (case drm_handle_vblank_events D c ?t of Inl x \<Rightarrow> Inl x | Inr s \<Rightarrow> Inr (True, s))"
    using c on by (simp add: drm_handle_vblank_def ticked_def fresh_stamp_def Let_def)
  have "(\<lambda>e. ev_pipe e = c \<and> passed ?seq (ev_sequence e)) = due c ?seq" by (simp add: fun_eq_iff due_def)
  then have "drm_handle_vblank_events D c ?t =
      event_loop D (due c ?seq) (\<lambda>e. send_vblank_event e ?seq ?now) (vblank_event_list ?t) ?t"
    by (simp add: drm_handle_vblank_events_def drm_vblank_count_and_time_def)
  with deliver_loop(1) [OF base, of D "due c ?seq" ?seq ?now]
  obtain tm where "drm_handle_vblank_events D c ?t = Inr (?r tm)" by auto
  moreover from deliver_loop(2) [OF base, of "due c ?seq" ?seq ?now tm] have "vbl_base H r (?r tm)" by simp
  moreover have "ahead (?r tm)"
    unfolding ahead_def
  proof
    fix e assume "e \<in> set (vblank_event_list (?r tm))"
    then have "e \<in> set (vblank_event_list s)" "\<not> due c ?seq e" by auto
    with ah show "\<not> passed (vblank_count (?r tm) (ev_pipe e)) (ev_sequence e)"
      by (cases "ev_pipe e = c") (auto simp: due_def ahead_def)
  qed
  ultimately show ?thesis using eq by (intro exI [of _ tm] exI [of _ "?r tm"]) (simp add: vbl_inv_def)
qed

lemma handle_ok:
  assumes inv: "vbl_inv H r s" and c: "crtc_ok c s \<or> num_crtcs s = 0"
  shows "\<exists>b s'. drm_handle_vblank D h c s = Inr (b, s') \<and> vbl_inv H r s'"
proof (cases "num_crtcs s = 0 \<or> \<not> vblank_enabled s c")
  case True
  then have "drm_handle_vblank D h c s = Inr (False, s)" using c by (auto simp: drm_handle_vblank_def)
  with inv show ?thesis by blast
next
  case False
  with handle_spec [OF inv _, of c D h] c show ?thesis by blast
qed

subsection \<open>Turning off\<close>

lemma disable_spec:
  "\<exists>a l n d. vblank_disable_and_save D h c s =
     s\<lparr>vblank_enabled := a, last_vblank := l, vblank_count := (vblank_count s)(c := n), vblank_time := d\<rparr>"
proof -
  obtain last rc t cnt where d: "disable_samples D h 0 DRM_TIMESTAMP_MAXRETRIES = (last, rc, t, cnt)" by (metis prod_cases4)
  show ?thesis
  proof (cases "sint (if cnt = 0 then 0 else rc) > 0 \<and> abs64 (diff_ns D t (vblanktimestamp s c (vblank_count s c))) > 1000000")
    case True
    then show ?thesis unfolding vblank_disable_and_save_def Let_def d
      by (cases s) (auto simp: clear_vblank_timestamps_def vblanktimestamp_def)
  next
    case False
    have "vblank_count s = (vblank_count s)(c := vblank_count s c)" by simp
    moreover have "\<exists>a l d. vblank_disable_and_save D h c s =
        s\<lparr>vblank_enabled := a, last_vblank := l, vblank_count := vblank_count s, vblank_time := d\<rparr>"
      using False unfolding vblank_disable_and_save_def Let_def d
      by (cases s) (auto simp: clear_vblank_timestamps_def vblanktimestamp_def)
    ultimately show ?thesis by metis
  qed
qed

lemma slot_cases: "vblank_slot c n = c * 2 \<or> vblank_slot c n = c * 2 + 1"
  by (auto simp: vblank_slot_def DRM_VBLANKTIME_RBSIZE_def)

lemma disable_no_time: "vblanktimestamp (vblank_disable_and_save D h c s) c n = no_time"
  using slot_cases [of c n]
  by (auto simp: vblank_disable_and_save_def vblanktimestamp_def clear_vblank_timestamps_def Let_def DRM_VBLANKTIME_RBSIZE_def
    split: prod.splits)

lemma off_spec:
  assumes inv: "vbl_inv H r s" and c: "crtc_ok c s"
  shows "\<exists>tm s' u. drm_vblank_off D h c s = Inr s' \<and> vbl_inv H r s' \<and> u = vblank_disable_and_save D h c s \<and>
    s' = removed (\<lambda>e. ev_pipe e = c) (delivered (vblank_count u c) no_time (filter (\<lambda>e. ev_pipe e = c) (vblank_event_list s)) (vfiles s)) tm u"
proof -
  let ?u = "vblank_disable_and_save D h c s"
  obtain a l n d where u: "?u = s\<lparr>vblank_enabled := a, last_vblank := l, vblank_count := (vblank_count s)(c := n), vblank_time := d\<rparr>"
    using disable_spec by blast
  then have fields: "vblank_event_list ?u = vblank_event_list s" "vfiles ?u = vfiles s" by simp_all
  from inv have base: "vbl_base H r ?u" and ah: "ahead s" by (simp_all add: vbl_inv_def u)
  let ?P = "\<lambda>e. ev_pipe e = c"
  let ?r = "\<lambda>tm. removed ?P (delivered (vblank_count ?u c) no_time (filter ?P (vblank_event_list s)) (vfiles s)) tm ?u"
  from deliver_loop(1) [OF base, of D ?P "vblank_count ?u c" no_time]
  obtain tm where "drm_vblank_off D h c s = Inr (?r tm)"
    using c by (auto simp: drm_vblank_off_def drm_vblank_count_and_time_def disable_no_time Let_def fields)
  moreover from deliver_loop(2) [OF base, of ?P "vblank_count ?u c" no_time tm] have "vbl_base H r (?r tm)" by (simp add: fields)
  moreover have "ahead (?r tm)" using ah by (auto simp: ahead_def u)
  ultimately show ?thesis by (intro exI [of _ tm] exI [of _ "?r tm"] exI [of _ ?u]) (simp add: vbl_inv_def)
qed

lemma disable_one_ok:
  assumes inv: "vbl_inv H r s" and c: "crtc_ok c s"
  shows "vbl_inv H r (vblank_disable_one D h c s) \<and> num_crtcs (vblank_disable_one D h c s) = num_crtcs s"
proof (cases "vblank_refcount s c = 0 \<and> vblank_enabled s c")
  case True
  obtain a l n d where u: "vblank_disable_and_save D (h c) c s =
      s\<lparr>vblank_enabled := a, last_vblank := l, vblank_count := (vblank_count s)(c := n), vblank_time := d\<rparr>"
    using disable_spec by blast
  from True vbl_inv_count [OF inv c, of n] u show ?thesis
    by (simp add: vblank_disable_one_def vbl_inv_def ahead_def)
qed (use inv in \<open>auto simp: vblank_disable_one_def\<close>)

lemma fold_range_ok:
  assumes "vbl_inv H r s" "\<forall>c \<in> set cs. crtc_ok c s"
    and "\<And>c s. vbl_inv H r s \<Longrightarrow> crtc_ok c s \<Longrightarrow> vbl_inv H r (f c s) \<and> num_crtcs (f c s) = num_crtcs s"
  shows "vbl_inv H r (fold f cs s) \<and> num_crtcs (fold f cs s) = num_crtcs s"
  using assms(1,2)
proof (induction cs arbitrary: s)
  case (Cons c cs)
  from Cons.prems have "crtc_ok c s" by simp
  with assms(3) [OF Cons.prems(1)] have "vbl_inv H r (f c s)" "num_crtcs (f c s) = num_crtcs s" by auto
  with Cons.IH [of "f c s"] Cons.prems(2) show ?case by (simp add: crtc_ok_def)
qed simp

lemma disable_fn_ok:
  assumes "vbl_inv H r s"
  shows "vbl_inv H r (vblank_disable_fn D h s)"
  using assms fold_range_ok [of H r "s\<lparr>disable_timer := False\<rparr>" "[0..num_crtcs s - 1]" "vblank_disable_one D h"]
    disable_one_ok [of H r _ _ D h]
  by (simp add: vblank_disable_fn_def Let_def crtc_ok_def)

lemma uninstall_ok:
  assumes "vbl_inv H r s"
  shows "vbl_inv H r (snd (drm_irq_uninstall v h s))"
proof -
  have "vbl_inv H r (fold (uninstall_one h) [0..num_crtcs s - 1] (s\<lparr>irq_enabled := False\<rparr>))"
    using assms fold_range_ok [of H r "s\<lparr>irq_enabled := False\<rparr>" "[0..num_crtcs s - 1]" "uninstall_one h"]
    by (simp add: uninstall_one_def crtc_ok_def)
  with assms show ?thesis by (simp add: drm_irq_uninstall_def)
qed

lemma install_ok: "vbl_inv H r s \<Longrightarrow> vbl_inv H r (snd (drm_irq_install v s))"
  by (simp add: drm_irq_install_def Let_def split: option.split)

lemma control_ok:
  assumes "vbl_inv H r s"
  shows "vbl_inv H r (snd (drm_control v h kms old irq func s))"
  using assms install_ok [OF assms, of v] uninstall_ok [OF assms, of v h]
  by (simp add: drm_control_def split: control_func.split)

subsection \<open>Mode setting\<close>

lemma two_bits [simp]: "(1 :: u32) AND 2 = 0" "(1 OR 2 :: u32) AND 2 = 2"
  by (simp_all add: bit_eq_iff bit_simps)

lemma pre_modeset_ok:
  assumes inv: "vbl_inv H r s" and room: "vroom r s" and c: "crtc_ok c s"
  shows "drm_vblank_pre_modeset D h c s = None \<or> (\<exists>s'. drm_vblank_pre_modeset D h c s = Some (Inr s') \<and> vbl_inv H r s')"
proof (cases "vblank_inmodeset s c = 0")
  case False
  with c inv show ?thesis by (auto simp: drm_vblank_pre_modeset_def)
next
  case True
  let ?m = "s\<lparr>vblank_inmodeset := (vblank_inmodeset s)(c := 1)\<rparr>"
  have nz: "num_crtcs s \<noteq> 0" using c by (simp add: crtc_ok_def)
  have vr: "vrefs ?m c' = vrefs s c'" for c' using True by (simp add: vrefs_def)
  have m: "vbl_inv H r ?m" using inv vr
    by (simp add: vbl_inv_def vbl_base_def counted_def targets_ok_def space_ok_def crtc_ok_def)
  have "vroom r ?m" "crtc_ok c ?m" using room c vr by (simp_all add: vroom_def crtc_ok_def)
  from get_ok [OF m this, of D h] consider (none) "drm_vblank_get D h c ?m = None" | (err) e where "drm_vblank_get D h c ?m = Some (Inr (Some e, ?m))"
    | (ok) s' where "drm_vblank_get D h c ?m = Some (Inr (None, s'))" "vbl_inv H (one_more r c) s'"
        "num_crtcs s' = num_crtcs ?m" "vblank_inmodeset s' = vblank_inmodeset ?m"
    by (elim disjE exE conjE)
  then show ?thesis
  proof cases
    case none then show ?thesis using True c nz by (simp add: drm_vblank_pre_modeset_def)
  next
    case err then show ?thesis using True c nz m by (simp add: drm_vblank_pre_modeset_def)
  next
    case ok
    let ?z = "s'\<lparr>vblank_inmodeset := (vblank_inmodeset s')(c := vblank_inmodeset s' c OR 2)\<rparr>"
    have "vbl_inv H r ?z"
      using ok by (auto simp: vbl_inv_def vbl_base_def counted_def targets_ok_def space_ok_def crtc_ok_def vrefs_def split: if_splits)
    then show ?thesis using True c nz ok by (simp add: drm_vblank_pre_modeset_def)
  qed
qed

lemma post_modeset_ok:
  assumes inv: "vbl_inv H r s" and c: "crtc_ok c s"
  shows "\<exists>s'. drm_vblank_post_modeset D c s = Inr s' \<and> vbl_inv H r s'"
proof -
  have nz: "num_crtcs s \<noteq> 0" using c by (simp add: crtc_ok_def)
  let ?s = "s\<lparr>vblank_disable_allowed := True\<rparr>"
  consider (out) "vblank_inmodeset s c = 0" | (kept) "vblank_inmodeset s c \<noteq> 0" "vblank_inmodeset s c AND 2 = 0"
    | (held) "vblank_inmodeset s c \<noteq> 0" "vblank_inmodeset s c AND 2 \<noteq> 0" by blast
  then show ?thesis
  proof cases
    case out then show ?thesis using inv c nz by (simp add: drm_vblank_post_modeset_def)
  next
    case kept
    have "vbl_inv H r (?s\<lparr>vblank_inmodeset := (vblank_inmodeset s)(c := 0)\<rparr>)"
      using inv kept by (auto simp: vbl_inv_def vbl_base_def counted_def targets_ok_def space_ok_def crtc_ok_def vrefs_def split: if_splits)
    then show ?thesis using kept c nz by (simp add: drm_vblank_post_modeset_def Let_def)
  next
    case held
    let ?z = "?s\<lparr>vblank_inmodeset := (vblank_inmodeset s)(c := 0)\<rparr>"
    have z: "vbl_inv H (one_more r c) ?z"
      using inv held by (auto simp: vbl_inv_def vbl_base_def counted_def targets_ok_def space_ok_def crtc_ok_def vrefs_def split: if_splits)
    then have base: "vbl_base H (one_more r c) ?z" by (simp add: vbl_inv_def)
    from base have "vblank_refcount s c \<noteq> 0" using c by (auto simp: vbl_base_def counted_def crtc_ok_def)
    with put_spec [of c ?s D] c obtain tm where p: "drm_vblank_put D c ?s =
        Inr (?s\<lparr>vblank_refcount := (vblank_refcount s)(c := vblank_refcount s c - 1), disable_timer := tm\<rparr>)"
      by (auto simp: crtc_ok_def)
    have "vbl_base H r (?z\<lparr>vblank_refcount := (vblank_refcount s)(c := vblank_refcount s c - 1), disable_timer := tm\<rparr>)"
      using drop_ok(2) [OF base, of tm] c by (simp add: crtc_ok_def)
    then have "vbl_base H r (?s\<lparr>vblank_refcount := (vblank_refcount s)(c := vblank_refcount s c - 1), disable_timer := tm,
        vblank_inmodeset := (vblank_inmodeset s)(c := 0)\<rparr>)" by (simp add: vbl_defs)
    moreover from inv have "ahead s" by (simp add: vbl_inv_def)
    ultimately show ?thesis using held c nz p by (simp add: drm_vblank_post_modeset_def Let_def vbl_inv_def)
  qed
qed

lemma modeset_ctl_ok:
  assumes inv: "vbl_inv H r s" and room: "vroom r s"
  shows "drm_modeset_ctl D h kms cmd c s = None \<or> (\<exists>x s'. drm_modeset_ctl D h kms cmd c s = Some (Inr (x, s')) \<and> vbl_inv H r s')"
proof (cases "num_crtcs s = 0 \<or> kms \<or> uint c \<ge> num_crtcs s")
  case True
  with inv show ?thesis by (auto simp: drm_modeset_ctl_def)
next
  case False
  then have c: "crtc_ok (uint c) s" by (simp add: crtc_ok_def)
  from False show ?thesis
    using pre_modeset_ok [OF inv room c, of D h] post_modeset_ok [OF inv c, of D] inv
    by (cases cmd) (auto simp: drm_modeset_ctl_def)
qed

subsection \<open>Waiting\<close>

definition account_ok :: "vblank_h \<Rightarrow> vfile \<Rightarrow> nat \<Rightarrow> bool" where
  "account_ok H v n \<longleftrightarrow> 0 \<le> ev_space v \<and> ev_space v + int (event_size H * (n + length (ev_list v))) = 4096"

lemma space_ok_account:
  "space_ok H s \<longleftrightarrow> (\<forall>f v. vfiles s f = Some v \<longrightarrow> account_ok H v (of_file f (vblank_event_list s) + of_file f (flip_held s)))"
  by (simp add: space_ok_def account_ok_def add.commute add.left_commute)

lemma of_file_simps [simp]:
  "of_file f [] = 0" "of_file f (e # es) = (if ev_file e = f then Suc (of_file f es) else of_file f es)"
  "of_file f (es @ fs) = of_file f es + of_file f fs"
  by (simp_all add: of_file_def)

lemma account_take:
  assumes "account_ok H v n" "\<not> space_short H v"
  shows "account_ok H (v\<lparr>ev_space := ev_space v - int (event_size H)\<rparr>) (Suc n)"
    and "account_ok H (v\<lparr>ev_space := ev_space v - int (event_size H), ev_list := ev_list v @ [e]\<rparr>) n"
  using assms by (simp_all add: account_ok_def space_short_def algebra_simps)

lemma account_send: "account_ok H v (Suc n) \<longleftrightarrow> account_ok H (v\<lparr>ev_list := ev_list v @ [e]\<rparr>) n"
  by (simp add: account_ok_def)

lemma base_file:
  assumes base: "vbl_base H r s" and v: "vfiles s f = Some v"
    and a: "account_ok H v' (of_file f (vblank_event_list s) + of_file f (flip_held s))"
  shows "vbl_base H r (s\<lparr>vfiles := (vfiles s)(f \<mapsto> v')\<rparr>)"
  using assms by (auto simp: vbl_base_def counted_def vrefs_def targets_ok_def crtc_ok_def space_ok_account)

lemma queue_ok:
  assumes inv: "vbl_inv H (one_more r c) s" and c: "crtc_ok c s" and f: "vfiles s file \<noteq> None"
  shows "\<exists>x w' s'. drm_queue_vblank_event H D kz c w file s = Inr (x, w', s') \<and> vbl_inv H r s'"
proof -
  from f obtain v where v: "vfiles s file = Some v" by blast
  from put_ok [OF inv c, of D] obtain s0 where put: "drm_vblank_put D c s = Inr s0" "vbl_inv H r s0" by blast
  from inv have base: "vbl_base H (one_more r c) s" and ah: "ahead s" by (simp_all add: vbl_inv_def)
  from base v have acc: "account_ok H v (of_file file (vblank_event_list s) + of_file file (flip_held s))"
    by (simp add: vbl_base_def space_ok_account)
  let ?seq = "vblank_count s c"
  let ?w = "next_on_miss H (wtype w) ?seq w"
  let ?v = "v\<lparr>ev_space := ev_space v - int (event_size H)\<rparr>"
  let ?s = "s\<lparr>vfiles := (vfiles s)(file \<mapsto> ?v)\<rparr>"
  let ?e = "\<lparr>ev_file = file, ev_pipe = c, ev_sequence = wsequence ?w, ev_sec = 0, ev_usec = 0, ev_user_data = wsignal w\<rparr>"
  show ?thesis
  proof (cases "kz \<and> \<not> space_short H v")
    case False
    with put v show ?thesis by (auto simp: drm_queue_vblank_event_def Let_def)
  next
    case ok: True
    show ?thesis
    proof (cases "passed ?seq (wsequence ?w)")
      case False
      let ?z = "?s\<lparr>vblank_event_list := vblank_event_list s @ [?e]\<rparr>"
      from account_take(1) [OF acc] ok base v c have "vbl_base H r ?z"
        by (auto simp: vbl_base_def counted_def vrefs_def targets_ok_def crtc_ok_def space_ok_account)
      moreover from ah False have "ahead ?z" by (simp add: ahead_def)
      ultimately have "vbl_inv H r ?z" by (simp add: vbl_inv_def)
      moreover have "drm_queue_vblank_event H D kz c w file s = Inr (None, ?w, ?z)"
        using ok v False by (simp add: drm_queue_vblank_event_def Let_def drm_vblank_count_and_time_def)
      ultimately show ?thesis by blast
    next
      case True
      obtain e' where send: "send_vblank_event ?e ?seq (vblanktimestamp s c ?seq) t =
          Inr (t\<lparr>vfiles := (vfiles t)(file \<mapsto> ?v\<lparr>ev_list := ev_list v @ [e']\<rparr>)\<rparr>)" if "vfiles t file = Some ?v" for t
        by (auto simp: send_vblank_event_def Let_def)
      from base have "vblank_refcount s c \<noteq> 0" using c by (auto simp: vbl_base_def counted_def)
      with put_spec [of c ?s D] c obtain tm where p: "drm_vblank_put D c ?s =
          Inr (?s\<lparr>vblank_refcount := (vblank_refcount s)(c := vblank_refcount s c - 1), disable_timer := tm\<rparr>)"
        by (auto simp: crtc_ok_def)
      let ?t = "s\<lparr>vblank_refcount := (vblank_refcount s)(c := vblank_refcount s c - 1), disable_timer := tm\<rparr>"
      let ?z = "?t\<lparr>vfiles := (vfiles s)(file \<mapsto> ?v\<lparr>ev_list := ev_list v @ [e']\<rparr>)\<rparr>"
      from base_file [OF drop_ok(2) [OF base c, where tm = tm], where f = "file" and v = v and v' = "?v\<lparr>ev_list := ev_list v @ [e']\<rparr>"]
        account_take(2) [OF acc, of e'] ok v have "vbl_base H r ?z" by simp
      with ah have "vbl_inv H r ?z" by (simp add: vbl_inv_def)
      moreover have "drm_queue_vblank_event H D kz c w file s = Inr (None, ?w\<lparr>wsequence := ?seq\<rparr>, ?z)"
        using ok v True p send by (simp add: drm_queue_vblank_event_def Let_def drm_vblank_count_and_time_def vblanktimestamp_def)
      ultimately show ?thesis by blast
    qed
  qed
qed

lemma wait_finish_ok:
  assumes "vbl_inv H (one_more r c) s" "crtc_ok c s"
  shows "\<exists>o' w' s'. wait_finish D ret c w s = Inr (o', w', s') \<and> vbl_inv H r s'"
proof -
  from put_ok [OF assms, of D] obtain s' where "drm_vblank_put D c s = Inr s'" "vbl_inv H r s'" by blast
  then show ?thesis by (simp add: wait_finish_def drm_vblank_count_and_time_def Let_def)
qed

lemma wait_round_ok:
  assumes inv: "vbl_inv H (one_more r c) s" and c: "crtc_ok c s"
  shows "\<exists>o' w' s'. wait_round D pid c w s = Inr (o', w', s') \<and> vbl_inv H r s'"
proof (cases "wait_condition c w s")
  case True
  with wait_finish_ok [OF inv c] show ?thesis by (simp add: wait_round_def)
next
  case False
  have "vbl_inv H r (s\<lparr>vbl_sleepers := (pid, c, w) # vbl_sleepers s\<rparr>)"
    using inv c by (auto simp: vbl_inv_def vbl_base_def counted_def targets_ok_def space_ok_def crtc_ok_def vrefs_def split: if_splits)
  with False show ?thesis by (simp add: wait_round_def)
qed

lemma length_filter_remove1:
  "z \<in> set zs \<Longrightarrow> length (filter Q zs) = (if Q z then Suc (length (filter Q (remove1 z zs))) else length (filter Q (remove1 z zs)))"
  by (induction zs) auto

lemma woken_ok:
  assumes inv: "vbl_inv H r s" and z: "(pid, c, w) \<in> set (vbl_sleepers s)"
  shows "vbl_inv H (one_more r c) (s\<lparr>vbl_sleepers := remove1 (pid, c, w) (vbl_sleepers s)\<rparr>)" and "crtc_ok c s"
proof -
  from inv z show "crtc_ok c s" by (force simp: vbl_inv_def vbl_base_def targets_ok_def)
  let ?z = "s\<lparr>vbl_sleepers := remove1 (pid, c, w) (vbl_sleepers s)\<rparr>"
  have "vrefs s c' + r c' = vrefs ?z c' + one_more r c c'" for c'
    using length_filter_remove1 [OF z, of "\<lambda>z. fst (snd z) = c'"] by (auto simp: vrefs_def)
  with inv have "counted (one_more r c) ?z" unfolding vbl_inv_def vbl_base_def counted_def crtc_ok_def by simp
  moreover have "targets_ok ?z" "space_ok H ?z" "ahead ?z"
    using inv set_remove1_subset [of "(pid, c, w)" "vbl_sleepers s"]
    by (auto simp: vbl_inv_def vbl_base_def targets_ok_def space_ok_def crtc_ok_def)
  ultimately show "vbl_inv H (one_more r c) ?z" by (simp add: vbl_inv_def vbl_base_def)
qed

lemma wait_wake_ok:
  assumes inv: "vbl_inv H r s" and z: "z \<in> set (vbl_sleepers s)"
  shows "\<exists>o' w' s'. wait_wake D ret z s = Inr (o', w', s') \<and> vbl_inv H r s'"
proof -
  obtain pid c w where e: "z = (pid, c, w)" by (cases z)
  let ?s = "s\<lparr>vbl_sleepers := remove1 (pid, c, w) (vbl_sleepers s)\<rparr>"
  from woken_ok [OF inv] z e have "vbl_inv H (one_more r c) ?s" "crtc_ok c ?s" by (auto simp: crtc_ok_def)
  from wait_finish_ok [OF this] wait_round_ok [OF this] show ?thesis by (simp add: wait_wake_def e Let_def)
qed

lemma wait_taken_ok:
  assumes inv: "vbl_inv H (one_more r c) s" and c: "crtc_ok c s" and f: "vfiles s file \<noteq> None"
  shows "\<exists>o' w' s'. wait_taken H D kz pid file c w s = Inr (o', w', s') \<and> vbl_inv H r s'"
proof -
  let ?kind = "wtype w AND VBLANK_TYPES_MASK H" and ?flags = "wtype w AND VBLANK_FLAGS_MASK H"
  let ?w = "if ?kind = VBLANK_RELATIVE H
    then w\<lparr>wsequence := wsequence w + drm_vblank_count c s, wtype := wtype w AND NOT (VBLANK_RELATIVE H)\<rparr> else w"
  consider (bad) "?kind \<noteq> VBLANK_RELATIVE H" "?kind \<noteq> VBLANK_ABSOLUTE H"
    | (event) "?kind = VBLANK_RELATIVE H \<or> ?kind = VBLANK_ABSOLUTE H" "?flags AND VBLANK_EVENT H \<noteq> 0"
    | (sleep) "?kind = VBLANK_RELATIVE H \<or> ?kind = VBLANK_ABSOLUTE H" "?flags AND VBLANK_EVENT H = 0" by blast
  then show ?thesis
  proof cases
    case bad
    from put_ok [OF inv c, of D] obtain s' where "drm_vblank_put D c s = Inr s'" "vbl_inv H r s'" by blast
    with bad show ?thesis by (simp add: wait_taken_def Let_def)
  next
    case event
    from queue_ok [OF inv c f, of D kz ?w] obtain x w' s' where
      "drm_queue_vblank_event H D kz c ?w file s = Inr (x, w', s')" "vbl_inv H r s'" by blast
    moreover from event have "wait_taken H D kz pid file c w s =
        (case drm_queue_vblank_event H D kz c ?w file s of
           Inl x \<Rightarrow> Inl x
         | Inr (Some ret, w, s) \<Rightarrow> Inr (Returned_ret (Inl ret), w, s)
         | Inr (None, w, s) \<Rightarrow> Inr (Returned_ret (Inr 0), w, s))" unfolding wait_taken_def Let_def by auto
    ultimately show ?thesis by (cases x) simp_all
  next
    case sleep
    let ?n = "next_on_miss H ?flags (drm_vblank_count c s) ?w"
    let ?s = "s\<lparr>last_vblank_wait := (last_vblank_wait s)(c := wsequence ?n)\<rparr>"
    from sleep have "wait_taken H D kz pid file c w s = wait_round D pid c ?n ?s" unfolding wait_taken_def Let_def by auto
    moreover have "vbl_inv H (one_more r c) ?s" "crtc_ok c ?s" using inv c by (simp_all add: crtc_ok_def)
    ultimately show ?thesis using wait_round_ok [of H r c ?s D pid ?n] by simp
  qed
qed

lemma wait_vblank_ok:
  assumes inv: "vbl_inv H r s" and room: "vroom r s" and f: "vfiles s file \<noteq> None"
  shows "drm_wait_vblank H D h irq kz pid file w s = None \<or>
    (\<exists>o' w' s'. drm_wait_vblank H D h irq kz pid file w s = Some (Inr (o', w', s')) \<and> vbl_inv H r s')"
proof -
  let ?c = "uint (wait_crtc H (wtype w))"
  let ?bad = "\<not> irq \<or> \<not> irq_enabled s \<or> wtype w AND VBLANK_SIGNAL H \<noteq> 0 \<or>
    wtype w AND NOT (VBLANK_TYPES_MASK H OR VBLANK_FLAGS_MASK H OR VBLANK_HIGH_CRTC_MASK H) \<noteq> 0 \<or> ?c \<ge> num_crtcs s"
  show ?thesis
  proof (cases ?bad)
    case True
    then have "drm_wait_vblank H D h irq kz pid file w s = Some (Inr (Returned_ret (Inl EINVAL), w, s))"
      unfolding drm_wait_vblank_def Let_def by (elim disjE) simp_all
    with inv show ?thesis by simp
  next
    case False
    then have c: "crtc_ok ?c s" by (simp add: crtc_ok_def)
    let ?g = "drm_vblank_get D h ?c s"
    have eq: "drm_wait_vblank H D h irq kz pid file w s =
        (case ?g of None \<Rightarrow> None | Some (Inl x) \<Rightarrow> Some (Inl x)
         | Some (Inr (Some ret, s)) \<Rightarrow> Some (Inr (Returned_ret (Inl ret), w, s))
         | Some (Inr (None, s)) \<Rightarrow> Some (wait_taken H D kz pid file ?c w s))"
      using False unfolding drm_wait_vblank_def Let_def by (simp only: if_False de_Morgan_disj not_not simp_thms)
    from get_ok [OF inv room c, of D h] consider (none) "?g = None" | (err) e where "?g = Some (Inr (Some e, s))"
      | (ok) s' where "?g = Some (Inr (None, s'))" "vbl_inv H (one_more r ?c) s'" "num_crtcs s' = num_crtcs s" "vfiles s' = vfiles s"
      by (elim disjE exE conjE)
    then show ?thesis
    proof cases
      case ok
      from ok(3) c have "crtc_ok ?c s'" by (simp add: crtc_ok_def)
      from wait_taken_ok [OF ok(2) this, of "file" D kz pid w] f ok eq show ?thesis by auto
    qed (use eq inv in simp_all)
  qed
qed

subsection \<open>Files\<close>

lemma open_ok:
  assumes inv: "vbl_inv H r s" and f: "vfiles s f = None"
  shows "vbl_inv H r (vfile_open f s)"
proof -
  from inv f have "of_file f (vblank_event_list s) = 0" "of_file f (flip_held s) = 0"
    by (auto simp: vbl_inv_def vbl_base_def targets_ok_def of_file_def filter_empty_conv)
  with inv show ?thesis
    by (auto simp: vbl_inv_def vbl_base_def vfile_open_def counted_def vrefs_def targets_ok_def crtc_ok_def space_ok_account account_ok_def)
qed

lemma close_ok:
  assumes inv: "vbl_inv H r s" and held: "\<forall>e \<in> set (flip_held s). ev_file e \<noteq> f"
  shows "\<exists>s'. drm_events_release D f s = Inr s' \<and> vbl_inv H r s'"
proof -
  let ?P = "\<lambda>e. ev_file e = f"
  from inv have base: "vbl_base H r s" and ah: "ahead s" by (simp_all add: vbl_inv_def)
  from destroy_loop [OF base, of D ?P] obtain tm where
    loop: "event_loop D ?P (\<lambda>_. Inr) (vblank_event_list s) s = Inr (removed ?P (vfiles s) tm s)" by blast
  let ?m = "(vfiles s)(f := None)"
  have "vbl_base H r (removed ?P ?m tm s)"
  proof (rule removed_ok [OF base])
    fix g v assume "?m g = Some v"
    then show "\<exists>v'. vfiles s g = Some v' \<and> ev_space v = ev_space v' \<and>
        length (ev_list v) = length (ev_list v') + of_file g (filter ?P (vblank_event_list s))"
      by (auto simp: of_file_def filter_empty_conv split: if_splits)
  qed (use base held in \<open>auto simp: vbl_base_def targets_ok_def\<close>)
  moreover have "ahead (removed ?P ?m tm s)" using ah by (auto simp: ahead_def)
  moreover have "drm_events_release D f s = Inr (removed ?P ?m tm s)"
    using loop by (simp add: drm_events_release_def removed_def)
  ultimately show ?thesis by (simp add: vbl_inv_def)
qed

lemma dequeue_ok:
  assumes inv: "vbl_inv H r s" and f: "vfiles s f \<noteq> None"
  shows "\<exists>x s'. drm_dequeue_event H f d m s = Inr (x, s') \<and> vbl_inv H r s' \<and> vfiles s' f \<noteq> None"
proof -
  from f obtain v where v: "vfiles s f = Some v" by blast
  from inv have base: "vbl_base H r s" and ah: "ahead s" by (simp_all add: vbl_inv_def)
  show ?thesis
  proof (cases "ev_list v")
    case Nil
    with v inv show ?thesis by (simp add: drm_dequeue_event_def)
  next
    case (Cons e es)
    let ?v = "\<lparr>ev_list = es, ev_space = ev_space v + int (event_size H)\<rparr>"
    from base v have "account_ok H v (of_file f (vblank_event_list s) + of_file f (flip_held s))"
      by (simp add: vbl_base_def space_ok_account)
    then have "account_ok H ?v (of_file f (vblank_event_list s) + of_file f (flip_held s))"
      using Cons by (simp add: account_ok_def algebra_simps)
    from base_file [OF base v this] ah have "vbl_inv H r (s\<lparr>vfiles := (vfiles s)(f \<mapsto> ?v)\<rparr>)" by (simp add: vbl_inv_def)
    with v Cons inv show ?thesis by (auto simp: drm_dequeue_event_def)
  qed
qed

lemma read_loop_ok:
  assumes "vbl_inv H r s" "vfiles s f \<noteq> None"
  shows "\<exists>n es s'. drm_read_loop H u i f d m s = Inr (n, es, s') \<and> vbl_inv H r s'"
  using assms
proof (induction H u i f d m s rule: drm_read_loop.induct)
  case (1 H u i f d m s)
  from dequeue_ok [OF "1.prems", of d m] obtain x s1 where q: "drm_dequeue_event H f d m s = Inr (x, s1)"
    "vbl_inv H r s1" "vfiles s1 f \<noteq> None" by blast
  show ?case
  proof (cases "x = None \<or> \<not> u i")
    case True
    with q show ?thesis by (subst drm_read_loop.simps) (auto split: option.split)
  next
    case False
    then obtain e where x: "x = Some e" by auto
    from "1.IH" [OF q(1) refl x] False q obtain n es s2 where
      "drm_read_loop H u (i + 1) f (d + event_size H) m s1 = Inr (n, es, s2)" "vbl_inv H r s2" by auto
    with q x False show ?thesis by (subst drm_read_loop.simps) simp
  qed
qed

lemma flip_ok:
  assumes inv: "vbl_inv H r s" and f: "vfiles s f \<noteq> None"
  shows "\<exists>x s'. page_flip_event H kz flip f ud s = Inr (x, s') \<and> vbl_inv H r s'"
proof -
  from f obtain v where v: "vfiles s f = Some v" by blast
  show ?thesis
  proof (cases "space_short H v \<or> \<not> kz \<or> flip \<noteq> None")
    case True
    with v inv show ?thesis by (auto simp: page_flip_event_def split: option.split)
  next
    case False
    let ?v = "v\<lparr>ev_space := ev_space v - int (event_size H)\<rparr>"
    let ?e = "\<lparr>ev_file = f, ev_pipe = 0, ev_sequence = 0, ev_sec = 0, ev_usec = 0, ev_user_data = ud\<rparr>"
    let ?z = "s\<lparr>vfiles := (vfiles s)(f \<mapsto> ?v), flip_held := flip_held s @ [?e]\<rparr>"
    from inv v have "account_ok H v (of_file f (vblank_event_list s) + of_file f (flip_held s))"
      by (simp add: vbl_inv_def vbl_base_def space_ok_account)
    from account_take(1) [OF this] False inv v have "vbl_inv H r ?z"
      by (auto simp: vbl_inv_def vbl_base_def counted_def vrefs_def targets_ok_def crtc_ok_def space_ok_account)
    with False v show ?thesis by (simp add: page_flip_event_def)
  qed
qed

lemma of_file_remove1:
  "e \<in> set es \<Longrightarrow> of_file f es = (if ev_file e = f then Suc (of_file f (remove1 e es)) else of_file f (remove1 e es))"
  unfolding of_file_def by (rule length_filter_remove1)

lemma send_ok:
  assumes inv: "vbl_inv H r s" and e: "e \<in> set (flip_held s)" and c: "c < num_crtcs s"
  shows "\<exists>s'. drm_send_vblank_event h c e s = Inr s' \<and> vbl_inv H r s'"
proof -
  from inv e obtain v where v: "vfiles s (ev_file e) = Some v"
    by (auto simp: vbl_inv_def vbl_base_def targets_ok_def)
  let ?f = "ev_file e"
  obtain e' where send: "drm_send_vblank_event h c e s = Inr (s\<lparr>flip_held := remove1 e (flip_held s),
      vfiles := (vfiles s)(?f \<mapsto> v\<lparr>ev_list := ev_list v @ [e']\<rparr>)\<rparr>)" (is "_ = Inr ?z")
    using v c by (cases "if c \<ge> 0 then drm_vblank_count_and_time c s else (0, hw_clock h 0)")
      (simp add: drm_send_vblank_event_def send_vblank_event_def Let_def)
  have rest: "of_file g (flip_held s) = (if ?f = g then Suc (of_file g (remove1 e (flip_held s))) else of_file g (remove1 e (flip_held s)))" for g
    by (rule of_file_remove1 [OF e])
  from inv have "counted r ?z" "ahead ?z" by (simp_all add: vbl_inv_def vbl_base_def counted_def vrefs_def crtc_ok_def)
  moreover have "targets_ok ?z" using inv set_remove1_subset [of e "flip_held s"]
    by (auto simp: vbl_inv_def vbl_base_def targets_ok_def crtc_ok_def)
  moreover have "space_ok H ?z"
    unfolding space_ok_account
  proof (intro allI impI)
    fix g u assume u: "vfiles ?z g = Some u"
    from inv have acc: "vfiles s g = Some w \<Longrightarrow> account_ok H w (of_file g (vblank_event_list s) + of_file g (flip_held s))" for w
      by (simp add: vbl_inv_def vbl_base_def space_ok_account)
    show "account_ok H u (of_file g (vblank_event_list ?z) + of_file g (flip_held ?z))"
      using u acc rest [of g] v account_send [of H v "of_file g (vblank_event_list s) + of_file g (remove1 e (flip_held s))" e']
      by (cases "g = ?f") auto
  qed
  ultimately show ?thesis using send by (simp add: vbl_inv_def vbl_base_def)
qed

end
