(* ===== verification/Drm_Vblank_Props.thy ===== *)
theory Drm_Vblank_Props
  imports Drm_Vblank_Inv
begin

text \<open>
  The reachable states of vertical blanking and its properties: exact references, safety of every call,
  delivery of each event by the interrupt of exactly its frame, the count across a time with the
  interrupt off, and what turning a CRTC off does to the events.
\<close>

subsection \<open>Reachable states\<close>

text \<open>
  The calls of user space, of the interrupt, of the timer, and those of the driver that keep no
  reference. \<open>Vcontrol\<close> is the ioctl, \<open>Vinstall\<close> and \<open>Vuninstall\<close> are the calls of a driver.
\<close>

datatype vcall =
    Vopen nat
  | Vclose nat
  | Vinstall irq_env
  | Vuninstall irq_env "int \<Rightarrow> vblank_hw"
  | Vcontrol irq_env "int \<Rightarrow> vblank_hw" bool bool bool control_func
  | Vwait vblank_hw bool bool nat nat vblwait
  | Vwake int "nat \<times> int \<times> vblwait"
  | Vinterrupt vblank_hw int
  | Vtimer "int \<Rightarrow> vblank_hw"
  | Voff vblank_hw int
  | Vmodeset vblank_hw bool modeset_cmd u32
  | Vpre vblank_hw int
  | Vpost int
  | Vflip bool "errno option" nat u64
  | Vsend vblank_hw int vevent
  | Vread "nat \<Rightarrow> bool" nat nat

definition state_of :: "('a \<times> 's) result \<Rightarrow> 's result" where
  "state_of r = (case r of Inl x \<Rightarrow> Inl x | Inr p \<Rightarrow> Inr (snd p))"

lemma state_of_simps [simp]: "state_of (Inl x) = Inl x" "state_of (Inr (a, s)) = Inr s"
  by (simp_all add: state_of_def)

fun vbl_step :: "vblank_h \<Rightarrow> vblank_drv \<Rightarrow> vcall \<Rightarrow> vblank_dev \<Rightarrow> vblank_dev result option" where
  "vbl_step H D (Vopen f) s = Some (Inr (vfile_open f s))"
| "vbl_step H D (Vclose f) s = Some (drm_events_release D f s)"
| "vbl_step H D (Vinstall v) s = Some (Inr (snd (drm_irq_install v s)))"
| "vbl_step H D (Vuninstall v h) s = Some (Inr (snd (drm_irq_uninstall v h s)))"
| "vbl_step H D (Vcontrol v h kms old irq func) s = Some (Inr (snd (drm_control v h kms old irq func s)))"
| "vbl_step H D (Vwait h irq kz pid f w) s = map_option (\<lambda>x. state_of (state_of x)) (drm_wait_vblank H D h irq kz pid f w s)"
| "vbl_step H D (Vwake ret z) s = Some (state_of (state_of (wait_wake D ret z s)))"
| "vbl_step H D (Vinterrupt h c) s = Some (state_of (drm_handle_vblank D h c s))"
| "vbl_step H D (Vtimer h) s = Some (Inr (vblank_disable_fn D h s))"
| "vbl_step H D (Voff h c) s = Some (drm_vblank_off D h c s)"
| "vbl_step H D (Vmodeset h kms cmd c) s = map_option state_of (drm_modeset_ctl D h kms cmd c s)"
| "vbl_step H D (Vpre h c) s = drm_vblank_pre_modeset D h c s"
| "vbl_step H D (Vpost c) s = Some (drm_vblank_post_modeset D c s)"
| "vbl_step H D (Vflip kz flip f ud) s = Some (state_of (page_flip_event H kz flip f ud s))"
| "vbl_step H D (Vsend h c e) s = Some (drm_send_vblank_event h c e s)"
| "vbl_step H D (Vread u f m) s = Some (state_of (state_of (drm_read H u f m s)))"

text \<open>
  What the callers see to: files are open, CRTCs exist, the timer runs before it fires, the driver sends
  its own events, and has none left of a file that is closed.
\<close>

fun vbl_legal :: "vcall \<Rightarrow> vblank_dev \<Rightarrow> bool" where
  "vbl_legal (Vopen f) s = (vfiles s f = None)"
| "vbl_legal (Vclose f) s = (\<forall>e \<in> set (flip_held s). ev_file e \<noteq> f)"
| "vbl_legal (Vinstall v) s = True"
| "vbl_legal (Vuninstall v h) s = True"
| "vbl_legal (Vcontrol v h kms old irq func) s = True"
| "vbl_legal (Vwait h irq kz pid f w) s = (vfiles s f \<noteq> None)"
| "vbl_legal (Vwake ret z) s = (z \<in> set (vbl_sleepers s))"
| "vbl_legal (Vinterrupt h c) s = crtc_ok c s"
| "vbl_legal (Vtimer h) s = disable_timer s"
| "vbl_legal (Voff h c) s = crtc_ok c s"
| "vbl_legal (Vmodeset h kms cmd c) s = True"
| "vbl_legal (Vpre h c) s = crtc_ok c s"
| "vbl_legal (Vpost c) s = crtc_ok c s"
| "vbl_legal (Vflip kz flip f ud) s = (vfiles s f \<noteq> None)"
| "vbl_legal (Vsend h c e) s = (e \<in> set (flip_held s) \<and> c < num_crtcs s)"
| "vbl_legal (Vread u f m) s = (vfiles s f \<noteq> None)"

text \<open>
  \<open>r c\<close> are the references that the driver has taken with \<open>drm_vblank_get\<close> and not dropped. \<open>vroom\<close> keeps
  the 32-bit count of references from overflowing.
\<close>

inductive vbl_reach :: "vblank_h \<Rightarrow> vblank_drv \<Rightarrow> (int \<Rightarrow> nat) \<Rightarrow> vblank_dev \<Rightarrow> bool" for H D where
  start: "drm_vblank_init True n s0 = Inr (None, s) \<Longrightarrow> vblank_event_list s0 = [] \<Longrightarrow> vbl_sleepers s0 = [] \<Longrightarrow>
    flip_held s0 = [] \<Longrightarrow> vfiles s0 = (\<lambda>_. None) \<Longrightarrow> vbl_reach H D (\<lambda>_. 0) s"
| step: "vbl_reach H D r s \<Longrightarrow> vroom r s \<Longrightarrow> vbl_legal a s \<Longrightarrow> vbl_step H D a s = Some (Inr s') \<Longrightarrow> vbl_reach H D r s'"
| get: "vbl_reach H D r s \<Longrightarrow> vroom r s \<Longrightarrow> crtc_ok c s \<Longrightarrow> drm_vblank_get D h c s = Some (Inr (None, s')) \<Longrightarrow>
    vbl_reach H D (r(c := r c + 1)) s'"
| put: "vbl_reach H D r s \<Longrightarrow> crtc_ok c s \<Longrightarrow> 0 < r c \<Longrightarrow> drm_vblank_put D c s = Inr s' \<Longrightarrow>
    vbl_reach H D (r(c := r c - 1)) s'"

lemma vbl_step_ok:
  assumes inv: "vbl_inv H r s" and room: "vroom r s" and legal: "vbl_legal a s"
  shows "vbl_step H D a s = None \<or> (\<exists>s'. vbl_step H D a s = Some (Inr s') \<and> vbl_inv H r s')"
proof (cases a)
  case (Vopen f) with open_ok [OF inv] legal show ?thesis by simp
next
  case (Vclose f) with close_ok [OF inv, of f D] legal show ?thesis by auto
next
  case (Vinstall v) with install_ok [OF inv] show ?thesis by simp
next
  case (Vuninstall v h) with uninstall_ok [OF inv] show ?thesis by simp
next
  case (Vcontrol v h kms old irq func) with control_ok [OF inv] show ?thesis by simp
next
  case (Vwait h irq kz pid f w) with wait_vblank_ok [OF inv room, of f D h irq kz pid w] legal show ?thesis by auto
next
  case (Vwake ret z) with wait_wake_ok [OF inv, of z D ret] legal show ?thesis by auto
next
  case (Vinterrupt h c) with handle_ok [OF inv, of c D h] legal show ?thesis by auto
next
  case (Vtimer h) with disable_fn_ok [OF inv] show ?thesis by simp
next
  case (Voff h c) with off_spec [OF inv, of c D h] legal show ?thesis by auto
next
  case (Vmodeset h kms cmd c) with modeset_ctl_ok [OF inv room, of D h kms cmd c] show ?thesis by auto
next
  case (Vpre h c) with pre_modeset_ok [OF inv room, of c D h] legal show ?thesis by auto
next
  case (Vpost c) with post_modeset_ok [OF inv, of c D] legal show ?thesis by auto
next
  case (Vflip kz flip f ud) with flip_ok [OF inv, of f kz flip ud] legal show ?thesis by auto
next
  case (Vsend h c e) with send_ok [OF inv, of e c h] legal show ?thesis by auto
next
  case (Vread u f m) with read_loop_ok [OF inv, of f u 0 0 m] legal show ?thesis by (auto simp: drm_read_def)
qed

lemma vbl_reach_inv: "vbl_reach H D r s \<Longrightarrow> vbl_inv H r s"
proof (induction rule: vbl_reach.induct)
  case (start n s0 s)
  then show ?case by (auto simp: drm_vblank_init_def Let_def vbl_inv_def vbl_defs ahead_def split: if_splits)
next
  case (step r s a s')
  from vbl_step_ok [OF step.IH step.hyps(2,3), of D] step.hyps(4) show ?case by auto
next
  case (get r s c h s')
  from get_ok [OF get.IH get.hyps(2,3), of D h] get.hyps(4) have "vbl_inv H (one_more r c) s'" by auto
  then show ?case by (simp add: fun_upd_def)
next
  case (put r s c s')
  from put.hyps(3) have "r = one_more (r(c := r c - 1)) c" by auto
  with put.IH have "vbl_inv H (one_more (r(c := r c - 1)) c) s" by simp
  from put_ok [OF this put.hyps(2), of D] put.hyps(4) have "vbl_inv H (r(c := r c - 1)) s'" by auto
  then show ?case by (simp add: fun_upd_def)
qed

subsection \<open>References and safety\<close>

text \<open>
  Claim C6. In every reachable state the count of references of a CRTC is exactly the number of events
  waiting for it, plus the processes sleeping for it, plus one during a mode setting that took one, plus
  those of the driver. An event on the waiting list belongs to an open file and an existing CRTC, and its
  frame has not come yet. The space left to a file and the events charged to it (waiting, with the
  driver, or not yet read) add up to 4096 bytes. And no legal call stops the kernel: not one of them
  finds a count of 0 to decrement, a freed file, or a CRTC that is not there. (A call that takes the first
  reference may read the hardware for ever.)
\<close>

theorem vblank_refcounts_exact:
  assumes reach: "vbl_reach H D r s"
  shows "(\<forall>c. crtc_ok c s \<longrightarrow> unat (vblank_refcount s c) =
      length (filter (\<lambda>e. ev_pipe e = c) (vblank_event_list s)) + length (filter (\<lambda>z. fst (snd z) = c) (vbl_sleepers s)) +
      (if vblank_inmodeset s c AND 2 \<noteq> 0 then 1 else 0) + r c) \<and>
    (\<forall>e \<in> set (vblank_event_list s). crtc_ok (ev_pipe e) s \<and> vfiles s (ev_file e) \<noteq> None \<and>
      \<not> passed (vblank_count s (ev_pipe e)) (ev_sequence e)) \<and>
    (\<forall>f v. vfiles s f = Some v \<longrightarrow> ev_space v +
      int (event_size H * (of_file f (vblank_event_list s) + length (ev_list v) + of_file f (flip_held s))) = 4096) \<and>
    (vroom r s \<longrightarrow>
      (\<forall>a. vbl_legal a s \<longrightarrow> vbl_step H D a s = None \<or> (\<exists>s'. vbl_step H D a s = Some (Inr s') \<and> vbl_reach H D r s'))) \<and>
    (\<forall>c. crtc_ok c s \<longrightarrow> 0 < r c \<longrightarrow> (\<exists>s'. drm_vblank_put D c s = Inr s'))"
proof (intro conjI)
  have inv: "vbl_inv H r s" by (rule vbl_reach_inv [OF reach])
  show "\<forall>c. crtc_ok c s \<longrightarrow> unat (vblank_refcount s c) =
      length (filter (\<lambda>e. ev_pipe e = c) (vblank_event_list s)) + length (filter (\<lambda>z. fst (snd z) = c) (vbl_sleepers s)) +
      (if vblank_inmodeset s c AND 2 \<noteq> 0 then 1 else 0) + r c"
    using inv by (simp add: vbl_inv_def vbl_base_def counted_def vrefs_def)
  show "\<forall>e \<in> set (vblank_event_list s). crtc_ok (ev_pipe e) s \<and> vfiles s (ev_file e) \<noteq> None \<and>
      \<not> passed (vblank_count s (ev_pipe e)) (ev_sequence e)"
    using inv by (simp add: vbl_inv_def vbl_base_def targets_ok_def ahead_def)
  show "\<forall>f v. vfiles s f = Some v \<longrightarrow> ev_space v +
      int (event_size H * (of_file f (vblank_event_list s) + length (ev_list v) + of_file f (flip_held s))) = 4096"
    using inv unfolding vbl_inv_def vbl_base_def space_ok_def by blast
  show "vroom r s \<longrightarrow>
      (\<forall>a. vbl_legal a s \<longrightarrow> vbl_step H D a s = None \<or> (\<exists>s'. vbl_step H D a s = Some (Inr s') \<and> vbl_reach H D r s'))"
    using vbl_step_ok [OF inv] vbl_reach.step [OF reach] by blast
  show "\<forall>c. crtc_ok c s \<longrightarrow> 0 < r c \<longrightarrow> (\<exists>s'. drm_vblank_put D c s = Inr s')"
  proof (intro allI impI)
    fix c assume "crtc_ok c s" "0 < r c"
    with inv have "vblank_refcount s c \<noteq> 0" by (auto simp: vbl_inv_def vbl_base_def counted_def)
    from put_spec [OF \<open>crtc_ok c s\<close> this] show "\<exists>s'. drm_vblank_put D c s = Inr s'" by blast
  qed
qed

subsection \<open>Delivery on time\<close>

text \<open>A number of interrupts one after the other, each with its own reading of the hardware.\<close>

fun run_vblanks :: "vblank_drv \<Rightarrow> int \<Rightarrow> vblank_hw list \<Rightarrow> vblank_dev \<Rightarrow> vblank_dev result" where
  "run_vblanks D c [] s = Inr s"
| "run_vblanks D c (h # hs) s =
     (case drm_handle_vblank D h c s of Inl x \<Rightarrow> Inl x | Inr (_, s) \<Rightarrow> run_vblanks D c hs s)"

text \<open>None of them comes less than a millisecond after the one before, as a redundant one does.\<close>

fun frames :: "vblank_drv \<Rightarrow> int \<Rightarrow> vblank_hw list \<Rightarrow> vblank_dev \<Rightarrow> bool" where
  "frames D c [] s = True"
| "frames D c (h # hs) s =
     (fresh_stamp D h c s \<and> (case drm_handle_vblank D h c s of Inl x \<Rightarrow> True | Inr (_, s) \<Rightarrow> frames D c hs s))"

lemma passed_iff: "passed seq target \<longleftrightarrow> unat (seq - target) \<le> 2 ^ 23"
  by (simp add: passed_def word_le_nat_alt)

lemma unat_minus_neg:
  fixes a b :: u32
  assumes "a \<noteq> b"
  shows "unat (a - b) = 2 ^ 32 - unat (b - a)"
proof -
  have "b - a \<noteq> 0" using assms by (metis right_minus_eq)
  then have "uint (b - a) \<noteq> 0" by (simp only: uint_0_iff not_False_eq_True)
  moreover have "uint (b - a) = (uint b - uint a) mod 2 ^ 32" "uint (a - b) = (- (uint b - uint a)) mod 2 ^ 32"
    by (simp_all add: uint_word_ariths)
  ultimately have "uint (a - b) = 2 ^ 32 - uint (b - a)"
    using zmod_zminus1_eq_if [of "uint b - uint a" "2 ^ 32"] by simp
  then have "nat (uint (a - b)) = nat (2 ^ 32 - uint (b - a))" by (rule arg_cong)
  also have "\<dots> = 2 ^ 32 - nat (uint (b - a))" by (subst nat_diff_distrib) (use uint_ge_0 [of "b - a"] uint_lt2p [of "b - a"] in auto)
  finally show ?thesis by (simp only: unat_eq_nat_uint)
qed

text \<open>One frame brings a waiting event one nearer; the frame it waits for delivers it.\<close>

lemma frame_step:
  assumes inv: "vbl_inv H r s" and c: "crtc_ok c s" and on: "vblank_enabled s c" and fresh: "fresh_stamp D h c s"
    and e: "e \<in> set (vblank_event_list s)" "ev_pipe e = c"
  shows "\<exists>s'. drm_handle_vblank D h c s = Inr (True, s') \<and> vbl_inv H r s' \<and> crtc_ok c s' \<and> vblank_enabled s' c \<and>
    vblank_count s' c = vblank_count s c + 1 \<and>
    (if vblank_count s c + 1 = ev_sequence e
     then e \<notin> set (vblank_event_list s') \<and>
       (\<exists>v t. vfiles s' (ev_file e) = Some v \<and> stamped (ev_sequence e) t e \<in> set (ev_list v))
     else e \<in> set (vblank_event_list s') \<and>
       Suc (unat (ev_sequence e - vblank_count s' c)) = unat (ev_sequence e - vblank_count s c))"
proof -
  let ?t = "ticked D h c s"
  have seq: "vblank_count ?t c = vblank_count s c + 1" using fresh by (simp add: ticked_count)
  obtain tm s' where s': "drm_handle_vblank D h c s = Inr (True, s')" "vbl_inv H r s'"
    "s' = removed (due c (vblank_count s c + 1)) (delivered (vblank_count s c + 1) (vblanktimestamp ?t c (vblank_count s c + 1))
       (filter (due c (vblank_count s c + 1)) (vblank_event_list s)) (vfiles s)) tm ?t"
    using handle_spec [OF inv c on, of D h] unfolding seq by blast
  from inv e have np: "\<not> passed (vblank_count s c) (ev_sequence e)" and opn: "vfiles s (ev_file e) \<noteq> None"
    by (auto simp: vbl_inv_def ahead_def vbl_base_def targets_ok_def)
  let ?n = "unat (ev_sequence e - vblank_count s c)"
  have ne: "vblank_count s c \<noteq> ev_sequence e" using np by (auto simp: passed_iff)
  then have far: "2 ^ 23 < 2 ^ 32 - ?n" using np unat_minus_neg [OF ne] by (simp add: passed_iff)
  have rest: "crtc_ok c s'" "vblank_enabled s' c" "vblank_count s' c = vblank_count s c + 1"
    using c on s'(3) seq by (simp_all add: crtc_ok_def)
  show ?thesis
  proof (cases "vblank_count s c + 1 = ev_sequence e")
    case True
    then have "due c (vblank_count s c + 1) e" using e(2) by (simp add: due_def passed_iff)
    with e(1) opn True s'(3) have "e \<notin> set (vblank_event_list s') \<and>
        (\<exists>v t. vfiles s' (ev_file e) = Some v \<and> stamped (ev_sequence e) t e \<in> set (ev_list v))"
      by (auto simp: delivered_def intro!: exI [of _ "vblanktimestamp ?t c (ev_sequence e)"])
    with True s'(1,2) rest show ?thesis by (intro exI [of _ s']) simp
  next
    case False
    have "ev_sequence e - vblank_count s c \<noteq> 0" using ne by simp
    from unat_dec_word [OF this] have dec: "Suc (unat (ev_sequence e - (vblank_count s c + 1))) = ?n"
      using \<open>ev_sequence e - vblank_count s c \<noteq> 0\<close> by (simp add: diff_diff_eq unat_gt_0)
    with unat_minus_neg [OF False] far have "\<not> passed (vblank_count s c + 1) (ev_sequence e)" by (simp add: passed_iff)
    then have "e \<in> set (vblank_event_list s')" using e s'(3) by (simp add: due_def)
    with False s'(1,2) rest dec show ?thesis by (intro exI [of _ s']) simp
  qed
qed

lemma event_run:
  assumes "vbl_inv H r s" "crtc_ok c s" "vblank_enabled s c" "frames D c hs s"
    and "e \<in> set (vblank_event_list s)" "ev_pipe e = c" "length hs = unat (ev_sequence e - vblank_count s c)"
  shows "(\<exists>s' v t. run_vblanks D c hs s = Inr s' \<and> vblank_count s' c = ev_sequence e \<and> e \<notin> set (vblank_event_list s') \<and>
      vfiles s' (ev_file e) = Some v \<and> stamped (ev_sequence e) t e \<in> set (ev_list v)) \<and>
    (\<forall>k < length hs. \<exists>s'. run_vblanks D c (take k hs) s = Inr s' \<and> e \<in> set (vblank_event_list s'))"
  using assms
proof (induction hs arbitrary: s)
  case Nil
  from Nil.prems(1,5,6) have "\<not> passed (vblank_count s c) (ev_sequence e)" by (auto simp: vbl_inv_def ahead_def)
  moreover from Nil.prems(7) have "vblank_count s c = ev_sequence e" by (simp add: unat_eq_0)
  ultimately show ?case by (simp add: passed_iff)
next
  case (Cons h hs)
  from Cons.prems(4) have fresh: "fresh_stamp D h c s" by simp
  from frame_step [OF Cons.prems(1-3) fresh Cons.prems(5,6)] obtain s1 where s1:
    "drm_handle_vblank D h c s = Inr (True, s1)" "vbl_inv H r s1" "crtc_ok c s1" "vblank_enabled s1 c"
    "vblank_count s1 c = vblank_count s c + 1"
    "if vblank_count s c + 1 = ev_sequence e
     then e \<notin> set (vblank_event_list s1) \<and>
       (\<exists>v t. vfiles s1 (ev_file e) = Some v \<and> stamped (ev_sequence e) t e \<in> set (ev_list v))
     else e \<in> set (vblank_event_list s1) \<and>
       Suc (unat (ev_sequence e - vblank_count s1 c)) = unat (ev_sequence e - vblank_count s c)" by blast
  have run: "run_vblanks D c (h # gs) s = run_vblanks D c gs s1" for gs using s1(1) by simp
  show ?case
  proof (cases "vblank_count s c + 1 = ev_sequence e")
    case True
    then have "ev_sequence e - vblank_count s c = 1" by (simp add: eq_diff_eq [symmetric])
    with Cons.prems(7) have "hs = []" by simp
    with True s1 run Cons.prems(5) show ?thesis by auto
  next
    case False
    with s1(6) have e1: "e \<in> set (vblank_event_list s1)"
      and n: "length hs = unat (ev_sequence e - vblank_count s1 c)" using Cons.prems(7) by auto
    have "frames D c hs s1" using Cons.prems(4) s1(1) by simp
    note IH = Cons.IH [OF s1(2-4) this e1 Cons.prems(6) n]
    have "\<exists>s'. run_vblanks D c (take k (h # hs)) s = Inr s' \<and> e \<in> set (vblank_event_list s')" if "k < length (h # hs)" for k
      using that IH Cons.prems(5) by (cases k) (auto simp: run s1(1))
    with IH run show ?thesis by auto
  qed
qed

text \<open>
  Claim C11. An event waiting for a frame of a CRTC whose interrupt is on is delivered by the interrupt of
  exactly that frame: after as many frames as the sequence number lies ahead it is on the list of its
  file with that number, gone from the waiting list, and after fewer frames it is still waiting. Numbers
  wrap around.
\<close>

theorem vblank_event_on_time:
  assumes "vbl_reach H D r s" "e \<in> set (vblank_event_list s)" "ev_pipe e = c" "vblank_enabled s c"
    and "frames D c hs s" "length hs = unat (ev_sequence e - vblank_count s c)"
  shows "(\<exists>s' v t. run_vblanks D c hs s = Inr s' \<and> vblank_count s' c = ev_sequence e \<and> e \<notin> set (vblank_event_list s') \<and>
      vfiles s' (ev_file e) = Some v \<and> stamped (ev_sequence e) t e \<in> set (ev_list v)) \<and>
    (\<forall>k < length hs. \<exists>s'. run_vblanks D c (take k hs) s = Inr s' \<and> e \<in> set (vblank_event_list s'))"
proof -
  from vbl_reach_inv [OF assms(1)] have inv: "vbl_inv H r s" .
  with assms(2,3) have "crtc_ok c s" by (auto simp: vbl_inv_def vbl_base_def targets_ok_def)
  from event_run [OF inv this assms(4,5,2,3,6)] show ?thesis .
qed

subsection \<open>Turning a CRTC off\<close>

text \<open>
  Claim C25. When a CRTC is turned off, every event waiting for it is delivered to its file at once, in
  order, with the current count; the events of other CRTCs stay. The time in these events is not one:
  the timestamps have been cleared before, so that seconds and microseconds are all ones.
\<close>

theorem drm_vblank_off_delivers:
  assumes reach: "vbl_reach H D r s" and c: "crtc_ok c s"
  shows "\<exists>s' seq. drm_vblank_off D h c s = Inr s' \<and> vbl_inv H r s' \<and> \<not> vblank_enabled s' c \<and> seq = vblank_count s' c \<and>
    vblank_event_list s' = filter (\<lambda>e. ev_pipe e \<noteq> c) (vblank_event_list s) \<and>
    (\<forall>f v. vfiles s f = Some v \<longrightarrow> vfiles s' f =
       Some (v\<lparr>ev_list := ev_list v @ map (\<lambda>e. e\<lparr>ev_sequence := seq, ev_sec := - 1, ev_usec := - 1\<rparr>)
         (filter (\<lambda>e. ev_file e = f \<and> ev_pipe e = c) (vblank_event_list s))\<rparr>))"
proof -
  obtain tm s' u where off: "drm_vblank_off D h c s = Inr s'" "vbl_inv H r s'" "u = vblank_disable_and_save D h c s"
    "s' = removed (\<lambda>e. ev_pipe e = c) (delivered (vblank_count u c) no_time (filter (\<lambda>e. ev_pipe e = c) (vblank_event_list s)) (vfiles s)) tm u"
    using off_spec [OF vbl_reach_inv [OF reach] c, of D h] by blast
  obtain a l n d where u: "vblank_disable_and_save D h c s =
      s\<lparr>vblank_enabled := a, last_vblank := l, vblank_count := (vblank_count s)(c := n), vblank_time := d\<rparr>"
    using disable_spec by blast
  have en: "\<not> vblank_enabled (vblank_disable_and_save D h c s) c"
    by (simp add: vblank_disable_and_save_def clear_vblank_timestamps_def Let_def split: prod.split)
  have st: "stamped (vblank_count u c) no_time = (\<lambda>e. e\<lparr>ev_sequence := vblank_count u c, ev_sec := - 1, ev_usec := - 1\<rparr>)"
    by (simp add: fun_eq_iff stamped_def no_time_def)
  have fl: "vfiles s' f = Some (v\<lparr>ev_list := ev_list v @ map (\<lambda>e. e\<lparr>ev_sequence := vblank_count u c, ev_sec := - 1, ev_usec := - 1\<rparr>)
      (filter (\<lambda>e. ev_file e = f \<and> ev_pipe e = c) (vblank_event_list s))\<rparr>)" if "vfiles s f = Some v" for f v
    using that by (simp add: off(4) delivered_def st conj_commute)
  have ls: "vblank_event_list s' = filter (\<lambda>e. ev_pipe e \<noteq> c) (vblank_event_list s)"
    and rest: "\<not> vblank_enabled s' c" "vblank_count s' c = vblank_count u c"
    using off(3,4) u en by simp_all
  show ?thesis
    by (intro exI [of _ s'] exI [of _ "vblank_count u c"]) (use off(1,2) fl ls rest in auto)
qed

subsection \<open>The count across a time without interrupts\<close>

text \<open>
  Claim C26. When the interrupt is turned on again, with a hardware counter of \<open>w\<close> bits whose largest value
  is in \<open>max_vblank_count\<close> (24 or 32 bits in i915), the count advances by the frames that have passed since
  it was turned off as long as the counter has not wrapped around, and by one frame too few when it has.
\<close>

theorem drm_update_vblank_count_wrap:
  assumes "\<And>i. hw_counter h i = of_nat ((a + n) mod 2 ^ w)" "last_vblank s c = of_nat a" "max_vblank_count s = of_nat (2 ^ w - 1)"
    and "a < 2 ^ w" "n < 2 ^ w" "w \<le> 32"
  shows "\<exists>s'. drm_update_vblank_count D h c s = Some s' \<and>
    vblank_count s' c = vblank_count s c + (if a + n < 2 ^ w then of_nat n else of_nat n - 1)"
proof -
  let ?cur = "(a + n) mod 2 ^ w"
  have "(2 :: nat) ^ w \<le> 2 ^ 32" using assms(6) by (rule power_increasing) simp
  then have small: "k < 2 ^ w \<Longrightarrow> unat (of_nat k :: u32) = k" for k
    by (simp add: unat_of_nat take_bit_nat_eq_self_iff)
  have cmp: "(of_nat ?cur :: u32) < of_nat a \<longleftrightarrow> ?cur < a" using assms(4) by (simp add: word_less_nat_alt small)
  have "missed_vblanks (of_nat ?cur) (of_nat a) (of_nat (2 ^ w - 1)) = (if a + n < 2 ^ w then of_nat n else of_nat n - 1)"
  proof (cases "a + n < 2 ^ w")
    case True
    then show ?thesis using cmp by (simp add: missed_vblanks_def)
  next
    case False
    with assms(4,5) have eq: "?cur = a + n - 2 ^ w" by (simp add: mod_if)
    with assms(5) have "?cur < a" using False by linarith
    moreover have "(of_nat ?cur :: u32) = of_nat a + of_nat n - of_nat (2 ^ w)"
      unfolding eq using False by (subst of_nat_diff) simp_all
    moreover have "(of_nat (2 ^ w - 1) :: u32) = of_nat (2 ^ w) - 1" by (subst of_nat_diff) simp_all
    ultimately show ?thesis using False cmp by (simp add: missed_vblanks_def Let_def)
  qed
  moreover have "update_samples D h 0 = Some (of_nat ?cur, drm_get_last_vbltimestamp D h 0 False)"
    by (subst update_samples.simps) (simp add: assms(1))
  ultimately show ?thesis using assms(2,3)
    by (cases "drm_get_last_vbltimestamp D h 0 False") (simp add: drm_update_vblank_count_def Let_def)
qed

subsection \<open>A run\<close>

text \<open>
  Two CRTCs, one file, the bits of \<open>drm.h\<close>, a driver without timestamps. The file asks for an event at the
  next frame of the first CRTC.
\<close>

definition run_h :: vblank_h where
  "run_h = \<lparr>VBLANK_RELATIVE = 1, VBLANK_ABSOLUTE = 0, VBLANK_TYPES_MASK = 1, VBLANK_FLAGS_MASK = 0x74000000, VBLANK_HIGH_CRTC_MASK = 0x3e,
     VBLANK_HIGH_CRTC_SHIFT = 1, VBLANK_SIGNAL = 0x40000000, VBLANK_SECONDARY = 0x20000000, VBLANK_EVENT = 0x4000000,
     VBLANK_NEXTONMISS = 0x10000000, event_size = 32\<rparr>"

definition run_drv :: vblank_drv where
  "run_drv = \<lparr>has_timestamp = False, timestamp_precision = 20, vblank_offdelay = 5000,
     timeval_to_ns = (\<lambda>t. word_of_int (tv_sec t * 1000000000 + tv_usec t * 1000))\<rparr>"

definition run_hw :: vblank_hw where
  "run_hw = \<lparr>hw_counter = (\<lambda>_. 0), hw_stamp = (\<lambda>_ _. (0, zero_time)), hw_clock = (\<lambda>_. \<lparr>tv_sec = 1, tv_usec = 0\<rparr>), hw_enable = None\<rparr>"

definition run_blank :: vblank_dev where
  "run_blank = \<lparr>num_crtcs = 2, vblank_count = (\<lambda>_. 0), vblank_refcount = (\<lambda>_. 0), vblank_enabled = (\<lambda>_. False),
     last_vblank = (\<lambda>_. 0), last_vblank_wait = (\<lambda>_. 0), vblank_inmodeset = (\<lambda>_. 0), vblank_time = (\<lambda>_. zero_time),
     max_vblank_count = 0xffffff, vblank_disable_allowed = False, disable_timer = False, irq_enabled = False,
     vblank_event_list = [], vfiles = (\<lambda>_. None), vbl_sleepers = [], flip_held = []\<rparr>"

definition run_event :: vevent where
  "run_event = \<lparr>ev_file = 1, ev_pipe = 0, ev_sequence = 1, ev_sec = 0, ev_usec = 0, ev_user_data = 7\<rparr>"

definition run_waiting :: vblank_dev where
  "run_waiting = run_blank\<lparr>irq_enabled := True, vblank_enabled := (\<lambda>c. c = 0), vblank_refcount := (\<lambda>c. if c = 0 then 1 else 0),
     vfiles := [1 \<mapsto> \<lparr>ev_list = [], ev_space = 4064\<rparr>], vblank_event_list := [run_event]\<rparr>"

lemma run_opened_reach: "vbl_reach run_h run_drv (\<lambda>_. 0) (run_blank\<lparr>vfiles := [1 \<mapsto> \<lparr>ev_list = [], ev_space = 4096\<rparr>], irq_enabled := True\<rparr>)"
proof -
  have "drm_vblank_init True 2 run_blank = Inr (None, run_blank)" by (simp add: drm_vblank_init_def run_blank_def Let_def)
  from vbl_reach.start [OF this] have 1: "vbl_reach run_h run_drv (\<lambda>_. 0) run_blank" by (simp add: run_blank_def)
  have room: "vroom (\<lambda>_. 0) run_blank" "vroom (\<lambda>_. 0) (run_blank\<lparr>vfiles := m\<rparr>)" for m
    by (simp_all add: vroom_def vrefs_def run_blank_def)
  from vbl_reach.step [OF 1 room(1), of "Vopen 1"] have 2: "vbl_reach run_h run_drv (\<lambda>_. 0) (vfile_open 1 run_blank)"
    by (simp add: run_blank_def)
  let ?v = "\<lparr>have_irq = True, irq_number = True, dev_private = True, add_handler = True, postinstall = None\<rparr>"
  have "vfile_open 1 run_blank = run_blank\<lparr>vfiles := [1 \<mapsto> \<lparr>ev_list = [], ev_space = 4096\<rparr>]\<rparr>"
    by (simp add: vfile_open_def run_blank_def)
  moreover from this have "snd (drm_irq_install ?v (vfile_open 1 run_blank)) =
      run_blank\<lparr>vfiles := [1 \<mapsto> \<lparr>ev_list = [], ev_space = 4096\<rparr>], irq_enabled := True\<rparr>"
    by (simp add: drm_irq_install_def run_blank_def)
  ultimately show ?thesis using vbl_reach.step [OF 2, of "Vinstall ?v"] room(2) by simp
qed

lemma run_waiting_reach: "vbl_reach run_h run_drv (\<lambda>_. 0) run_waiting"
proof -
  let ?s = "run_blank\<lparr>vfiles := [1 \<mapsto> \<lparr>ev_list = [], ev_space = 4096\<rparr>], irq_enabled := True\<rparr>"
  let ?w = "\<lparr>wtype = 0x4000001, wsequence = 1, wsignal = 7, wusec = 0\<rparr>"
  let ?t = "?s\<lparr>vblank_enabled := (\<lambda>c. c = 0), vblank_refcount := (\<lambda>c. if c = 0 then 1 else 0)\<rparr>"
  have crtc: "wait_crtc run_h 0x4000001 = 0" by (simp add: wait_crtc_def run_h_def Let_def)
  have "update_samples run_drv run_hw 0 = Some (0, 0, \<lparr>tv_sec = 1, tv_usec = 0\<rparr>)"
    by (subst update_samples.simps) (simp add: run_hw_def run_drv_def drm_get_last_vbltimestamp_def)
  then have get: "drm_vblank_get run_drv run_hw 0 ?s = Some (Inr (None, ?t))"
    by (simp add: drm_vblank_get_def drm_update_vblank_count_def missed_vblanks_def run_blank_def run_hw_def crtc_ok_def
      Let_def fun_eq_iff)
  have np: "\<not> passed 0 1" using unat_minus_neg [of 0 1] by (simp add: passed_iff)
  have "wait_taken run_h run_drv True 5 1 0 ?w ?t = Inr (Returned_ret (Inr 0), \<lparr>wtype = 0x4000000, wsequence = 1, wsignal = 7, wusec = 0\<rparr>, run_waiting)"
    by (simp add: wait_taken_def drm_queue_vblank_event_def run_h_def run_blank_def run_waiting_def run_event_def space_short_def
      drm_vblank_count_and_time_def drm_vblank_count_def next_on_miss_def np Let_def)
  with get crtc have "drm_wait_vblank run_h run_drv run_hw True True 5 1 ?w ?s =
      Some (Inr (Returned_ret (Inr 0), \<lparr>wtype = 0x4000000, wsequence = 1, wsignal = 7, wusec = 0\<rparr>, run_waiting))"
    by (simp add: drm_wait_vblank_def Let_def) (simp add: run_h_def run_blank_def)
  moreover have "vroom (\<lambda>_. 0) ?s" by (simp add: vroom_def vrefs_def run_blank_def)
  ultimately show ?thesis
    using vbl_reach.step [OF run_opened_reach, of "Vwait run_hw True True 5 1 ?w" run_waiting] by simp
qed

lemma run_waiting_room: "vroom (\<lambda>_. 0) run_waiting"
  by (simp add: vroom_def vrefs_def run_waiting_def run_blank_def)

theorem vblank_refcounts_exact_witness:
  "unat (vblank_refcount run_waiting 0) = 1 \<and> \<not> passed (vblank_count run_waiting 0) 1 \<and>
   vbl_step run_h run_drv (Vclose 1) run_waiting \<noteq> Some (Inl BUG)"
proof (intro conjI)
  note facts = vblank_refcounts_exact [OF run_waiting_reach]
  have c: "crtc_ok 0 run_waiting" by (simp add: crtc_ok_def run_waiting_def run_blank_def)
  with facts show "unat (vblank_refcount run_waiting 0) = 1" by (simp add: run_waiting_def run_blank_def run_event_def)
  have "run_event \<in> set (vblank_event_list run_waiting)" by (simp add: run_waiting_def)
  with facts have "\<not> passed (vblank_count run_waiting (ev_pipe run_event)) (ev_sequence run_event)" by blast
  then show "\<not> passed (vblank_count run_waiting 0) 1" by (simp add: run_event_def)
  have "vbl_legal (Vclose 1) run_waiting" by (simp add: run_waiting_def run_blank_def)
  with facts run_waiting_room have "vbl_step run_h run_drv (Vclose 1) run_waiting = None \<or>
      (\<exists>s'. vbl_step run_h run_drv (Vclose 1) run_waiting = Some (Inr s') \<and> vbl_reach run_h run_drv (\<lambda>_. 0) s')" by blast
  then show "vbl_step run_h run_drv (Vclose 1) run_waiting \<noteq> Some (Inl BUG)" by auto
qed

theorem vblank_event_on_time_witness:
  "\<exists>s' v t. run_vblanks run_drv 0 [run_hw] run_waiting = Inr s' \<and> vblank_count s' 0 = 1 \<and> vfiles s' 1 = Some v \<and>
     stamped 1 t run_event \<in> set (ev_list v)"
proof -
  have "sint (1000000000 :: u64) = 1000000000" by (simp add: sint_uint)
  then have fresh: "fresh_stamp run_drv run_hw 0 run_waiting"
    by (simp add: fresh_stamp_def abs64_def diff_ns_def drm_get_last_vbltimestamp_def run_drv_def run_hw_def vblanktimestamp_def
      run_waiting_def run_blank_def zero_time_def DRM_REDUNDANT_VBLIRQ_THRESH_NS_def)
  then have fr: "frames run_drv 0 [run_hw] run_waiting" by (simp split: sum.split prod.split)
  have facts: "run_event \<in> set (vblank_event_list run_waiting)" "ev_pipe run_event = 0" "vblank_enabled run_waiting 0"
    "length [run_hw] = unat (ev_sequence run_event - vblank_count run_waiting 0)" "ev_sequence run_event = 1" "ev_file run_event = 1"
    by (simp_all add: run_waiting_def run_event_def run_blank_def)
  from vblank_event_on_time [OF run_waiting_reach facts(1-3) fr facts(4)] facts(5,6) show ?thesis by metis
qed

theorem drm_vblank_off_delivers_witness:
  "\<exists>s'. drm_vblank_off run_drv run_hw 0 run_waiting = Inr s' \<and> vblank_event_list s' = [] \<and>
     (\<exists>v. vfiles s' 1 = Some v \<and> map ev_sec (ev_list v) = [- 1])"
proof -
  have "crtc_ok 0 run_waiting" by (simp add: crtc_ok_def run_waiting_def run_blank_def)
  from drm_vblank_off_delivers [OF run_waiting_reach this, of run_hw] obtain s' seq where
    off: "drm_vblank_off run_drv run_hw 0 run_waiting = Inr s'"
    "vblank_event_list s' = filter (\<lambda>e. ev_pipe e \<noteq> 0) (vblank_event_list run_waiting)"
    "\<forall>f v. vfiles run_waiting f = Some v \<longrightarrow> vfiles s' f =
       Some (v\<lparr>ev_list := ev_list v @ map (\<lambda>e. e\<lparr>ev_sequence := seq, ev_sec := - 1, ev_usec := - 1\<rparr>)
         (filter (\<lambda>e. ev_file e = f \<and> ev_pipe e = 0) (vblank_event_list run_waiting))\<rparr>)" by blast
  have "vfiles run_waiting 1 = Some \<lparr>ev_list = [], ev_space = 4064\<rparr>" by (simp add: run_waiting_def)
  with off(3) have "vfiles s' 1 =
      Some (\<lparr>ev_list = [], ev_space = 4064\<rparr>\<lparr>ev_list := [] @ map (\<lambda>e. e\<lparr>ev_sequence := seq, ev_sec := - 1, ev_usec := - 1\<rparr>)
        (filter (\<lambda>e. ev_file e = 1 \<and> ev_pipe e = 0) (vblank_event_list run_waiting))\<rparr>)" by fastforce
  with off(1,2) show ?thesis by (simp add: run_waiting_def run_event_def)
qed

text \<open>The counter of an i915 with 24 bits passes from its largest value to 4: five frames, counted as four.\<close>

theorem drm_update_vblank_count_wrap_witness:
  "\<exists>s'. drm_update_vblank_count run_drv (run_hw\<lparr>hw_counter := (\<lambda>_. 4)\<rparr>) 0 (run_blank\<lparr>last_vblank := (\<lambda>_. 0xffffff)\<rparr>) = Some s' \<and>
     vblank_count s' 0 = 4"
  using drm_update_vblank_count_wrap [where h = "run_hw\<lparr>hw_counter := (\<lambda>_. 4)\<rparr>" and a = "0xffffff" and n = 5 and w = 24 and
    s = "run_blank\<lparr>last_vblank := (\<lambda>_. 0xffffff)\<rparr>" and c = 0 and D = run_drv]
  by (simp add: run_blank_def)

end
