(* ===== verification/Drm_Timestamp.thy ===== *)
theory Drm_Timestamp
  imports Drm_Modes Drm_Vblank
begin

text \<open>
  Precise timestamps (\<open>drm_irq.c\<close>): the durations of a pixel, a line and a frame that follow from the
  mode of a CRTC, and the time of the last vertical blanking, computed from the position of the scanout.
  Durations are \<open>s64\<close> values, here integers; products wrap at 64 bits.
\<close>

record vbl_durations =
  pixeldur_ns :: int
  linedur_ns :: int
  framedur_ns :: int

definition dotclock :: "drm_display_mode \<Rightarrow> u64" where
  "dotclock m = (word_of_int (clock m) * 1000) * (if FLAG_INTERLACE \<in> flags m then 2 else 1)"

definition drm_calc_timestamping_constants :: "drm_display_mode \<Rightarrow> vbl_durations" where
  "drm_calc_timestamping_constants m =
     (if dotclock m > 0
      then let frame_size = wrap32 (crtc_htotal m * crtc_vtotal m)
           in \<lparr>pixeldur_ns = sint (1000000000 div dotclock m),
               linedur_ns = sint ((word_of_int (crtc_htotal m) * 1000000000) div dotclock m),
               framedur_ns = sint ((word_of_int frame_size * 1000000000) div dotclock m)\<rparr>
      else \<lparr>pixeldur_ns = 0, linedur_ns = 0, framedur_ns = 0\<rparr>)"

text \<open>
  One query of the position: the clock before, the position, whether it is valid and inside the blanking,
  and the clock after.
\<close>

record scanout_query =
  q_stime :: timeval
  q_vpos :: int
  q_hpos :: int
  q_valid :: bool
  q_invbl :: bool
  q_raw_time :: timeval

text \<open>The loop of at most three queries; \<open>n\<close> are those left after this one.\<close>

fun scanout_loop :: "vblank_drv \<Rightarrow> (nat \<Rightarrow> scanout_query) \<Rightarrow> int \<Rightarrow> nat \<Rightarrow> nat \<Rightarrow> (scanout_query \<times> u64) result" where
  "scanout_loop D q max_error i n =
     (let duration_ns = diff_ns D (q_raw_time (q i)) (q_stime (q i))
      in if \<not> q_valid (q i) then Inl EIO
         else if sint duration_ns \<le> max_error then Inr (q i, duration_ns)
         else case n of 0 \<Rightarrow> Inr (q i, duration_ns) | Suc k \<Rightarrow> scanout_loop D q max_error (i + 1) k)"

declare scanout_loop.simps [simp del]

definition scanout_delta :: "vbl_durations \<Rightarrow> int \<Rightarrow> int \<Rightarrow> u64" where
  "scanout_delta d vpos hpos = word_of_int vpos * word_of_int (linedur_ns d) + word_of_int hpos * word_of_int (pixeldur_ns d)"

text \<open>
  \<open>get_pos\<close>: the driver has \<open>get_scanout_position\<close>. \<open>ns_to_timeval\<close> is defined by the headers of the system.
  The result: whether the query was inside the blanking, the error bound, and the time.
\<close>

definition drm_calc_vbltimestamp_from_scanoutpos ::
  "vblank_drv \<Rightarrow> (u64 \<Rightarrow> timeval) \<Rightarrow> bool \<Rightarrow> (nat \<Rightarrow> scanout_query) \<Rightarrow> int \<Rightarrow> int \<Rightarrow> bool \<Rightarrow> drm_display_mode \<Rightarrow> vbl_durations \<Rightarrow> vblank_dev \<Rightarrow>
     (bool \<times> int \<times> timeval) result" where
  "drm_calc_vbltimestamp_from_scanoutpos D ns_to_timeval get_pos q crtc max_error from_irq mode d s =
     (if crtc < 0 \<or> crtc \<ge> num_crtcs s then Inl EINVAL
      else if \<not> get_pos then Inl EIO
      else if crtc_vtotal mode \<le> 0 \<or> crtc_vdisplay mode \<le> 0 \<or> framedur_ns d = 0 then Inl EAGAIN
      else case scanout_loop D q max_error 0 (DRM_TIMESTAMP_MAXRETRIES - 1) of
             Inl e \<Rightarrow> Inl e
           | Inr (p, duration_ns) \<Rightarrow>
               let max_error = wrap32 (sint duration_ns);
                   delta_ns = scanout_delta d (q_vpos p) (q_hpos p);
                   delta_ns = (if from_irq \<and> \<not> q_invbl p \<and> crtc_vdisplay mode - q_vpos p < cdiv (crtc_vtotal mode) 100
                               then delta_ns - word_of_int (framedur_ns d) else delta_ns)
               in Inr (q_invbl p, max_error, ns_to_timeval (timeval_to_ns D (q_raw_time p) - delta_ns)))"

subsection \<open>Precision\<close>

definition dot_hz :: "drm_display_mode \<Rightarrow> int" where
  "dot_hz m = clock m * 1000 * (if FLAG_INTERLACE \<in> flags m then 2 else 1)"

lemma uint_dotclock:
  assumes "0 < clock m" "clock m \<le> INT_MAX"
  shows "uint (dotclock m) = dot_hz m" "0 < dot_hz m"
  using assms by (auto simp: dotclock_def dot_hz_def INT_MAX_def uint_word_ariths uint_word_of_int)

lemma sint_small:
  assumes "uint (x :: u64) < 2 ^ 63"
  shows "sint x = uint x"
proof -
  have "- (2 ^ 63) \<le> uint x" by (rule order_trans [of _ 0]) simp_all
  from signed_take_bit_int_eq_self [OF this assms] show ?thesis by (simp add: sint_uint)
qed

lemma sint_of_int: "- (2 ^ 63) \<le> z \<Longrightarrow> z < 2 ^ 63 \<Longrightarrow> sint (word_of_int z :: u64) = z"
  using signed_take_bit_int_eq_self [of 63 z] by (simp add: signed_of_int)

lemma duration:
  assumes "0 < clock m" "clock m \<le> INT_MAX" "0 \<le> k" "k \<le> INT_MAX"
  shows "sint ((word_of_int k * 1000000000) div dotclock m) = k * 1000000000 div dot_hz m"
proof -
  have k: "uint (word_of_int k * 1000000000 :: u64) = k * 1000000000"
    using assms(3,4) by (simp add: uint_word_ariths uint_word_of_int INT_MAX_def)
  have "uint ((word_of_int k * 1000000000) div dotclock m) = k * 1000000000 div dot_hz m"
    by (simp add: uint_div k uint_dotclock [OF assms(1,2)])
  moreover have "k * 1000000000 div dot_hz m \<le> k * 1000000000"
    using uint_dotclock(2) [OF assms(1,2)] assms(3) zdiv_mono2 [of "k * 1000000000" 1 "dot_hz m"] by simp
  moreover have "k * 1000000000 < 2 ^ 63" using assms(4) by (simp add: INT_MAX_def)
  ultimately show ?thesis by (simp add: sint_small)
qed

lemma floor_error:
  fixes a x y :: int
  assumes "0 < y"
  shows "\<bar>a * x - a * (x div y) * y\<bar> \<le> \<bar>a\<bar> * y"
proof -
  have "x - x div y * y = x mod y" by (simp add: minus_div_mult_eq_mod)
  then have "a * x - a * (x div y) * y = a * (x mod y)" by (metis mult.assoc right_diff_distrib)
  moreover have "\<bar>a * (x mod y)\<bar> \<le> \<bar>a\<bar> * y"
    using assms mult_left_mono [OF less_imp_le [OF pos_mod_bound [OF assms, of x]], of "\<bar>a\<bar>"] by (simp add: abs_mult)
  ultimately show ?thesis by simp
qed

text \<open>
  Claim C27. For a mode with a positive clock and a frame of fewer than 2 to the 31 pixels the durations are
  the exact ones in nanoseconds, rounded down, and nothing overflows. The time between the start of the
  picture and a position of the scanout that is computed from them is off by at most as many nanoseconds
  as the position has lines and pixels: the error of a pixel and of a line are below one each.
\<close>

theorem drm_calc_timestamping_constants_precise:
  assumes "0 < clock m" "clock m \<le> INT_MAX" "0 < crtc_htotal m" "0 < crtc_vtotal m" "crtc_htotal m * crtc_vtotal m \<le> INT_MAX"
    and "\<bar>vpos\<bar> \<le> crtc_vtotal m" "\<bar>hpos\<bar> \<le> crtc_htotal m" "d = drm_calc_timestamping_constants m"
  shows "pixeldur_ns d = 1000000000 div dot_hz m \<and> linedur_ns d = crtc_htotal m * 1000000000 div dot_hz m \<and>
    framedur_ns d = crtc_htotal m * crtc_vtotal m * 1000000000 div dot_hz m \<and>
    \<bar>(vpos * crtc_htotal m + hpos) * 1000000000 - sint (scanout_delta d vpos hpos) * dot_hz m\<bar> \<le> (\<bar>vpos\<bar> + \<bar>hpos\<bar>) * dot_hz m"
proof -
  let ?p = "1000000000 div dot_hz m" and ?l = "crtc_htotal m * 1000000000 div dot_hz m"
  have dot: "0 < dot_hz m" "dotclock m > 0"
    using uint_dotclock [OF assms(1,2)] by (simp_all add: word_less_def)
  have hv: "crtc_htotal m \<le> crtc_htotal m * crtc_vtotal m" "crtc_vtotal m \<le> crtc_htotal m * crtc_vtotal m"
    using assms(3,4) mult_left_mono [of 1 "crtc_vtotal m" "crtc_htotal m"] mult_right_mono [of 1 "crtc_htotal m" "crtc_vtotal m"] by simp_all
  have fs: "wrap32 (crtc_htotal m * crtc_vtotal m) = crtc_htotal m * crtc_vtotal m"
    using assms(3-5) by (intro wrap32_id) (simp add: in_int_def INT_MIN_def order_trans [OF _ less_imp_le [OF mult_pos_pos]])
  have dur: "pixeldur_ns d = ?p" "linedur_ns d = ?l" "framedur_ns d = crtc_htotal m * crtc_vtotal m * 1000000000 div dot_hz m"
    using duration [OF assms(1,2), of 1] duration [OF assms(1,2), of "crtc_htotal m"] duration [OF assms(1,2), of "crtc_htotal m * crtc_vtotal m"]
      assms(3-5) hv order_trans [OF hv(1) assms(5)] dot fs by (simp_all add: assms(8) drm_calc_timestamping_constants_def Let_def INT_MAX_def)
  have le: "?p \<le> 1000000000" "?l \<le> crtc_htotal m * 1000000000" "0 \<le> ?p" "0 \<le> ?l"
    using dot(1) zdiv_mono2 [of 1000000000 1 "dot_hz m"] zdiv_mono2 [of "crtc_htotal m * 1000000000" 1 "dot_hz m"] assms(3)
    by (simp_all add: pos_imp_zdiv_nonneg_iff)
  have "\<bar>vpos\<bar> * ?l \<le> crtc_vtotal m * (crtc_htotal m * 1000000000)" "\<bar>hpos\<bar> * ?p \<le> crtc_htotal m * 1000000000"
    using mult_mono [OF assms(6) le(2)] mult_mono [OF assms(7) le(1)] le assms(3,4) by simp_all
  moreover have "crtc_vtotal m * (crtc_htotal m * 1000000000) \<le> INT_MAX * 1000000000" "crtc_htotal m * 1000000000 \<le> INT_MAX * 1000000000"
    using mult_right_mono [OF assms(5), of 1000000000] hv(1) by (simp_all add: mult.commute mult.left_commute)
  ultimately have "\<bar>vpos * ?l\<bar> \<le> INT_MAX * 1000000000" "\<bar>hpos * ?p\<bar> \<le> INT_MAX * 1000000000"
    using le(3,4) by (simp_all only: abs_mult abs_of_nonneg)
  then have small: "- (2 ^ 63) \<le> vpos * ?l + hpos * ?p" "vpos * ?l + hpos * ?p < 2 ^ 63" by (auto simp: INT_MAX_def)
  have "scanout_delta d vpos hpos = word_of_int (vpos * ?l + hpos * ?p)" by (simp add: scanout_delta_def dur)
  then have dl: "sint (scanout_delta d vpos hpos) = vpos * ?l + hpos * ?p"
    using sint_of_int [OF small] by (simp only:)
  have "\<bar>vpos * (crtc_htotal m * 1000000000) - vpos * ?l * dot_hz m\<bar> \<le> \<bar>vpos\<bar> * dot_hz m"
    "\<bar>hpos * 1000000000 - hpos * ?p * dot_hz m\<bar> \<le> \<bar>hpos\<bar> * dot_hz m"
    using floor_error [OF dot(1)] by blast+
  then have "\<bar>(vpos * crtc_htotal m + hpos) * 1000000000 - sint (scanout_delta d vpos hpos) * dot_hz m\<bar> \<le> (\<bar>vpos\<bar> + \<bar>hpos\<bar>) * dot_hz m"
    unfolding dl by (simp add: algebra_simps)
  with dur show ?thesis by simp
qed

text \<open>A picture of 1920 by 1080 pixels at 60 frames a second.\<close>

definition full_hd :: drm_display_mode where
  "full_hd = \<lparr>base_id = 1, name = [], status = MODE_OK, mtype = {}, clock = 148500, hdisplay = 1920, hsync_start = 2008, hsync_end = 2052,
     htotal = 2200, hskew = 0, vdisplay = 1080, vsync_start = 1084, vsync_end = 1089, vtotal = 1125, vscan = 0, flags = {}, width_mm = 0,
     height_mm = 0, crtc_hdisplay = 1920, crtc_hblank_start = 1920, crtc_hblank_end = 2200, crtc_hsync_start = 2008,
     crtc_hsync_end = 2052, crtc_htotal = 2200, crtc_hskew = 0, crtc_vdisplay = 1080, crtc_vblank_start = 1080,
     crtc_vblank_end = 1125, crtc_vsync_start = 1084, crtc_vsync_end = 1089, crtc_vtotal = 1125, vrefresh = 60, hsync = 0\<rparr>"

theorem drm_calc_timestamping_constants_precise_witness:
  "framedur_ns (drm_calc_timestamping_constants full_hd) = 16666666 \<and>
   \<bar>(- 45 * 2200 + 0) * 1000000000 - sint (scanout_delta (drm_calc_timestamping_constants full_hd) (- 45) 0) * 148500000\<bar> \<le> 45 * 148500000"
  using drm_calc_timestamping_constants_precise [of full_hd "- 45" 0 "drm_calc_timestamping_constants full_hd"]
  by (simp add: full_hd_def dot_hz_def INT_MAX_def)

end
