(* ===== verification/Spec2Isabelle.thy ===== *)
theory Spec2Isabelle
  imports Drm_Gem_Props Drm_Idr Drm_Lock Drm_Auth Drm_Context I915_Tiling_Props Drm_Rect Drm_Modes_Gen
    Drm_Edid_Detailed Drm_Edid_Facts Drm_Kms_Props Drm_Vblank_Props Drm_Timestamp
begin

text \<open>
  Verification of the DRM core of the Solaris X consolidation.

  \<^bold>\<open>The program.\<close> The repository holds the Solaris port of the Direct Rendering Manager
  (\<open>open-src/kernel/drm\<close>), the Intel graphics driver on top of it (\<open>open-src/kernel/i915\<close>), and X
  libraries and clients that are built apart from them. The development is about the kernel part, and
  there about the code that decides: which number or which range of addresses is given out, when an
  object is freed, what a monitor's description means, and which display modes are offered. The parts
  work together as follows. User space names buffer objects by handles, which \<open>drm_gem.c\<close> keeps in
  the hash tables of \<open>drm_sun_idr.c\<close>; every other kind of object gets its id from the id allocator
  of the same file. The i915 driver places buffer objects in the address space of the graphics unit
  with the range allocator \<open>drm_mm.c\<close>, and evicts some (\<open>i915_gem_evict.c\<close>) when there is no room.
  For a connected monitor \<open>drm_edid.c\<close> reads a description over I2C, checks it, and adds display modes
  that it finds in tables, decodes, or computes with the formulas of \<open>drm_modes.c\<close>; the same file
  sorts, merges and filters the lists. What is shown where is kept by \<open>drm_crtc.c\<close>: framebuffers with
  reference counts, CRTCs, planes and connectors with ids in one table, and properties with values;
  \<open>drm_rect.c\<close> clips and scales planes. \<open>drm_irq.c\<close> counts the frames of a CRTC and delivers events to open
  files. The older interfaces share the hardware lock (\<open>drm_lock.c\<close>), authenticate clients (\<open>drm_auth.c\<close>)
  and number drawing contexts (\<open>drm_context.c\<close>).

  \<^bold>\<open>Conventions\<close> (\<open>Drm_Prelude\<close>). C integers are words of their width or integers with the
  wrap-around written out (\<open>wrap32\<close>); pointers are options; an error number is the left of a sum. \<open>BUG\<close>
  stands for a failed assertion or \<open>BUG_ON\<close>, a null or dangling pointer, an access out of bounds and
  a division by zero, so a theorem that a result is not \<open>Inl BUG\<close> says that the code does none of these.
  A list linked through \<open>next\<close> and \<open>prev\<close> is the list of its nodes in order. Locks are not modelled: the
  operations hold them from beginning to end and are therefore steps. Memory allocation is an
  argument that says whether it delivers. Code that is not in the repository is an argument as well,
  with the laws it is documented to have as hypotheses: the AVL trees (\<open>avl_laws\<close>), the I2C transfer
  (\<open>i2c_ok\<close>), the colour callback of a driver (\<open>color_law\<close>), the \<open>set_config\<close> callback (\<open>set_config_ok\<close>), waiting
  for the graphics unit, what is read from its registers. The headers \<open>drm.h\<close>, \<open>drm_mode.h\<close>, \<open>drm_fourcc.h\<close>
  and \<open>i915_drm.h\<close> are not in the repository: their constants are fields of a parameter
  (\<open>lock_h\<close>, \<open>vblank_h\<close>, \<open>tiling_h\<close>, the \<open>drm_mode.h\<close> argument of \<open>Drm_Property\<close>) or constructors of a datatype
  (pixel formats, mode flags).

  \<^bold>\<open>Ids and handles.\<close>
  \<^item> \<open>Id_Map\<close>: the interface of a store of objects under ids, a locale with the laws of lookup after
    insertion and removal; its clients' lemma is that a run of operations refines partial maps.
  \<^item> \<open>Drm_Idr_List\<close>: \<open>struct idr_list\<close> with every \<open>idr_list_*\<close> function and the global counters; it
    interprets the locale. A handle that is given out was free, \<open>-EAGAIN\<close> means that none is.
  \<^item> \<open>Drm_Idr\<close>: \<open>struct idr\<close>, its ranges of free ids with their stacks, and every function, over an
    arbitrary tree with the laws. Ids are fresh and at least \<open>start\<close>, ranges and tree agree in every
    reachable state, removing gives the id back; on \<open>-ENOMEM\<close> an id is lost.
  \<^item> \<open>Drm_Gem\<close>, \<open>Drm_Gem_Refs\<close>, \<open>Drm_Gem_Props\<close>: the handles, names and reference counts of \<open>drm_gem.c\<close>
    and \<open>drm_drv.c\<close> over a heap of objects and the tables above. The reference count of an object is
    exact in every reachable state, nothing dangles and no legal call touches freed memory; names lead
    back to their objects; creating a handle ends exactly when there is a free one. The retry loop is
    a partial function, so that not ending is the value \<open>None\<close>.

  \<^bold>\<open>Address ranges.\<close>
  \<^item> \<open>Range_Alloc\<close>: the contract of an allocator of disjoint ranges as a locale, and what follows for
    every history of allocations and releases.
  \<^item> \<open>Ring_List\<close>: lists with a sentinel: successor, predecessor, insertion, unlinking.
  \<^item> \<open>Drm_Mm\<close>: \<open>struct drm_mm\<close> and \<open>drm_mm_node\<close>, with searching, inserting (also in a range and at a
    fixed place), removing, the scan and the statistics. \<open>Drm_Mm_Inv\<close> has the invariant (blocks in
    address order, disjoint, the hole stack is the set of holes), \<open>Drm_Mm_Props\<close> the behaviour of each
    operation, the interpretation of the contract and safety of all runs, \<open>Drm_Mm_Scan\<close> that a scan
    undone in reverse order restores the allocator and that a hit is a real hole.
  \<^item> \<open>I915_Evict\<close>: \<open>i915_gem_evict_something\<close> and the unbinding it causes. When it reports success, a
    following insertion of the size asked for succeeds; when it reports \<open>-ENOSPC\<close> nothing has been evicted.
  \<^item> \<open>I915_Tiling\<close>, \<open>I915_Tiling_Props\<close>: \<open>i915_gem_tiling.c\<close>, with the size and alignment of a fenced object.
    Accepted strides are whole tiles, a changed object lies where its new mode allows, saving and
    swizzling pages keeps what the graphics unit sees; the size of a fence region is found exactly for objects of
    up to 2 GB, and the check before it lets larger ones pass.

  \<^bold>\<open>Lock, authentication, contexts.\<close>
  \<^item> \<open>Drm_Lock\<close>: the lock word, the idle lock, sleeping and waking. The lock is exclusive in every reachable
    state and no wake-up is lost, for contexts without flag bits.
  \<^item> \<open>Drm_Auth\<close>: a magic number authenticates exactly the open file it was given to. \<open>Drm_Context\<close>: context
    handles are fresh, and closing a file gives back its own.

  \<^bold>\<open>Mode setting.\<close>
  \<^item> \<open>Drm_Fourcc\<close>: pixel formats and \<open>framebuffer_check\<close>: in a framebuffer that passes, every pixel lies in
    its buffer. \<open>Drm_Mode_Object\<close>: the table of ids.
  \<^item> \<open>Drm_Property\<close>, \<open>Drm_Property_Inv\<close>, \<open>Drm_Property_Props\<close>: properties, blobs and the values objects have. In
    every state that \<open>prop_reach\<close> describes, values are allowed by their properties and ids lead to what
    they name; setting changes exactly the value asked for, and an EDID that has been stored reads back.
  \<^item> \<open>Drm_Framebuffer\<close>, \<open>Drm_Kms\<close>, \<open>Drm_Kms_Inv\<close>, \<open>Drm_Kms_Props\<close>: framebuffers and the ioctls that make, show, flip
    and remove them, over the table and the properties above. In every state of \<open>kms_reach\<close> (a device set
    up by its driver, files that open, call and close) a reference count is the number of holders,
    nothing dangles, every call returns, and removing a framebuffer takes it off the screen.
  \<^item> \<open>Drm_Vblank\<close>, \<open>Drm_Vblank_Inv\<close>, \<open>Drm_Vblank_Props\<close>: frame counts, references, events and sleeping processes
    of \<open>drm_irq.c\<close> with the reading of events in \<open>drm_fops.c\<close>. What the loops do with an event is the locale
    \<open>event_sink\<close>, interpreted for delivering and for destroying. References are exact in every state
    of \<open>vbl_reach\<close>, events are delivered by the interrupt of exactly their frame, turning a CRTC off delivers
    the rest. \<open>Drm_Timestamp\<close>: durations and precise timestamps, and how precise they are.

  \<^bold>\<open>Display modes.\<close>
  \<^item> \<open>Drm_Modes\<close>: \<open>struct drm_display_mode\<close> and the functions on modes and mode lists. Sorting is
    equivalent to a reference (a sorted permutation, stable), merging a probe leaves exactly the probed
    modes, validation keeps exactly the modes within the limits, \<open>drm_mode_set_crtcinfo\<close> keeps the order
    of the timings, the refresh rate is the rounded quotient.
  \<^item> \<open>Drm_Modes_Gen\<close>: the CVT and GTF formulas in the code's integer arithmetic, with the ranges in which
    the modes are well formed and the inputs at which the arithmetic overflows or divides by zero.
  \<^item> \<open>Drm_Rect\<close>: intersection, clipping with scaling, scale factors and their relaxation.

  \<^bold>\<open>Monitors.\<close>
  \<^item> \<open>Drm_Edid_Tables\<close>: the tables of modes and quirks. \<open>Drm_Edid\<close>: blocks, checksums and reading.
    What is returned is valid with a right checksum, and stays in the buffer exactly up to four
    extensions. \<open>Drm_Edid_Blocks\<close>: the walks over descriptors and data blocks stay inside their blocks,
    end and do not overlap.
  \<^item> \<open>Drm_Edid_Cea\<close>: audio and display capabilities and the ELD. \<open>Drm_Edid_Modes\<close>: every function that
    adds modes; the count that is returned is the number of modes appended and the modes present before
    stay. \<open>Drm_Edid_Detailed\<close>: decoding a timing gives a well-formed mode, and is inverse to encoding except
    for large vertical sync offsets. \<open>Drm_Edid_Facts\<close>: video codes, established timings, modes without a
    monitor, and the description that makes the generator divide by zero.

  \<^bold>\<open>Bounds and fuel.\<close> The loops of the code are recursion on lists or on a measure. The only numbers
  that stand for fuel are those of the source: four retries of a transfer, the \<open>0x7fffffff\<close> ids of
  the allocators. Loops that need not end (the retries for a handle, reading a counter until it is
  steady, doubling a fence region) are partial functions with \<open>None\<close> for not ending. The runs of
  \<open>Drm_Gem_Props\<close>, \<open>Drm_Kms_Props\<close> and \<open>Drm_Vblank_Props\<close> stop before a 32-bit reference count overflows (\<open>room\<close>, \<open>vroom\<close>).

  \<^bold>\<open>Not modelled.\<close> \<open>drm_mm_replace_node\<close> (without caller), formatted output, the DMA memory of GEM
  objects; of \<open>drm_crtc.c\<close> the ioctls that only copy out lists, gamma tables, cursors, dirty rectangles and
  the teardown of the device; the registration of interrupt handlers; the mode setting and
  framebuffer helpers, which call into drivers; the legacy buffer interfaces and the glue to the Solaris
  device framework; and, of i915, all but eviction and tiling: register programming is correct only
  relative to hardware manuals. The events of page flips are modelled once in \<open>Drm_Kms\<close>, as part of the
  ioctl, and once in \<open>Drm_Vblank\<close>, with their delivery. Interleavings finer than an operation are not
  considered.
\<close>

end
